(* ===== verification/Prelude.thy ===== *)
theory Prelude
  imports Complex_Main "HOL-Library.Multiset" "HOL-Library.Word"
begin

text \<open>
  Shared vocabulary of the development: results that may be a thrown exception
  (\<open>bindE\<close>, \<open>mapE\<close>, \<open>foldE\<close>), the exceptions the retention code throws, the
  stable sort behind \<^verbatim>\<open>Array.prototype.sort(comparator)\<close> with the comparator laws as a
  locale, and the named theorem collections the components fill.
\<close>

named_theorems guard_simps "definitions of the validators, unfolded to invert a successful run"
named_theorems step_simps "definitions of the state-changing operations"

section \<open>Thrown exceptions as values\<close>

text \<open>
  Every \<^verbatim>\<open>throw new Error(message)\<close> of the source is \<open>Inl (Error message)\<close>, with the
  message as the code builds it. The two error classes of the retention command carry
  their own constructors, and \<open>LockHeld name\<close> is the one message that quotes a string of the
  program, \<^verbatim>\<open>anti-overlap lock "<name>" is already held\<close>.
\<close>

datatype exn =
    Error string
  | LockHeld "16 word list"
  | CliError string
  | ApplyError string nat "int option"

type_synonym 'a res = "exn + 'a"

definition bindE :: "'e + 'a \<Rightarrow> ('a \<Rightarrow> 'e + 'b) \<Rightarrow> 'e + 'b" where
  "bindE m f = (case m of Inl e \<Rightarrow> Inl e | Inr x \<Rightarrow> f x)"

text \<open>\<^verbatim>\<open>xs.map(f)\<close> with a callback that may throw: the first throw ends the map.\<close>

fun mapE :: "('a \<Rightarrow> 'e + 'b) \<Rightarrow> 'a list \<Rightarrow> 'e + 'b list" where
  "mapE f [] = Inr []"
| "mapE f (x # xs) = bindE (f x) (\<lambda>y. bindE (mapE f xs) (\<lambda>ys. Inr (y # ys)))"

text \<open>\<^verbatim>\<open>xs.reduce(f, a)\<close> with a callback that may throw.\<close>

fun foldE :: "('b \<Rightarrow> 'a \<Rightarrow> 'e + 'b) \<Rightarrow> 'b \<Rightarrow> 'a list \<Rightarrow> 'e + 'b" where
  "foldE f a [] = Inr a"
| "foldE f a (x # xs) = bindE (f a x) (\<lambda>b. foldE f b xs)"

lemma bindE_simps [simp]:
  "bindE (Inl e) f = Inl e"
  "bindE (Inr x) f = f x"
  by (simp_all add: bindE_def)

lemma bindE_Inr_iff [simp]: "bindE m f = Inr y \<longleftrightarrow> (\<exists>x. m = Inr x \<and> f x = Inr y)"
  by (cases m) auto

lemma bindE_Inl_iff: "bindE m f = Inl e \<longleftrightarrow> m = Inl e \<or> (\<exists>x. m = Inr x \<and> f x = Inl e)"
  by (cases m) auto

lemma bindE_assoc: "bindE (bindE m f) g = bindE m (\<lambda>x. bindE (f x) g)"
  by (cases m) auto

lemma if_Inl_Inr_iff [simp]:
  "(if b then Inl e else m) = Inr y \<longleftrightarrow> \<not> b \<and> m = Inr y"
  by auto

lemma if_Inr_Inl_iff [simp]:
  "(if b then m else Inl e) = Inr y \<longleftrightarrow> b \<and> m = Inr y"
  by auto

lemma mapE_Inr_iff: "mapE f xs = Inr ys \<longleftrightarrow> list_all2 (\<lambda>x y. f x = Inr y) xs ys"
  by (induction xs arbitrary: ys) (auto simp: list_all2_Cons1)

lemma mapE_length: "mapE f xs = Inr ys \<Longrightarrow> length ys = length xs"
  by (auto simp: mapE_Inr_iff dest: list_all2_lengthD)

lemma mapE_total: "(\<And>x. x \<in> set xs \<Longrightarrow> f x = Inr (g x)) \<Longrightarrow> mapE f xs = Inr (map g xs)"
  by (induction xs) auto

lemma mapE_nth: "mapE f xs = Inr ys \<Longrightarrow> i < length xs \<Longrightarrow> f (xs ! i) = Inr (ys ! i)"
  by (auto simp: mapE_Inr_iff dest: list_all2_nthD)

lemma mapE_setD: "mapE f xs = Inr ys \<Longrightarrow> y \<in> set ys \<Longrightarrow> \<exists>x \<in> set xs. f x = Inr y"
  by (induction xs arbitrary: ys) auto

lemma mapE_set_domD: "mapE f xs = Inr ys \<Longrightarrow> x \<in> set xs \<Longrightarrow> \<exists>y \<in> set ys. f x = Inr y"
  by (induction xs arbitrary: ys) auto

lemma mapE_cong_mset:
  "mset xs = mset xs' \<Longrightarrow> mapE f xs = Inr ys \<Longrightarrow> \<exists>ys'. mapE f xs' = Inr ys' \<and> mset ys' = mset ys"
proof -
  assume eq: "mset xs = mset xs'" and run: "mapE f xs = Inr ys"
  define g where "g x = (case f x of Inr y \<Rightarrow> y | Inl _ \<Rightarrow> undefined)" for x
  have good: "f x = Inr (g x)" if "x \<in> set xs" for x
    using mapE_set_domD [OF run that] by (auto simp: g_def)
  have "mapE f xs = Inr (map g xs)" using good by (rule mapE_total)
  moreover have "mapE f xs' = Inr (map g xs')"
    using good mset_eq_setD [OF eq] by (intro mapE_total) auto
  ultimately show ?thesis using run eq by (auto simp: mset_map)
qed

lemma foldE_append: "foldE f a (xs @ ys) = bindE (foldE f a xs) (\<lambda>b. foldE f b ys)"
  by (induction xs arbitrary: a) (auto simp: bindE_assoc)

text \<open>\<^verbatim>\<open>xs.map((x, i) => f(i, x))\<close>, from index \<open>i\<close> on.\<close>

fun mapE_from :: "nat \<Rightarrow> (nat \<Rightarrow> 'a \<Rightarrow> 'e + 'b) \<Rightarrow> 'a list \<Rightarrow> 'e + 'b list" where
  "mapE_from i f [] = Inr []"
| "mapE_from i f (x # xs) = bindE (f i x) (\<lambda>y. bindE (mapE_from (Suc i) f xs) (\<lambda>ys. Inr (y # ys)))"

text \<open>A decimal index inside an error text.\<close>

fun nat_text :: "nat \<Rightarrow> string" where
  "nat_text n = (if n < 10 then [char_of (48 + n)] else nat_text (n div 10) @ [char_of (48 + n mod 10)])"

declare nat_text.simps [simp del]

section \<open>Sorting with a comparator\<close>

text \<open>
  \<^verbatim>\<open>[...xs].sort(cmp)\<close> is a stable sort for the comparators of this program. The model is
  insertion sort from the right, which is stable: an element is inserted before the first
  element that does not compare below it.
\<close>

fun insert_by :: "('a \<Rightarrow> 'a \<Rightarrow> int) \<Rightarrow> 'a \<Rightarrow> 'a list \<Rightarrow> 'a list" where
  "insert_by cmp x [] = [x]"
| "insert_by cmp x (y # ys) = (if cmp x y \<le> 0 then x # y # ys else y # insert_by cmp x ys)"

definition sort_by :: "('a \<Rightarrow> 'a \<Rightarrow> int) \<Rightarrow> 'a list \<Rightarrow> 'a list" where
  "sort_by cmp xs = foldr (insert_by cmp) xs []"

text \<open>\<^verbatim>\<open>a || b\<close> on the numbers a comparator returns.\<close>

definition js_or :: "int \<Rightarrow> int \<Rightarrow> int" where
  "js_or a b = (if a \<noteq> 0 then a else b)"

lemma mset_insert_by [simp]: "mset (insert_by cmp x xs) = add_mset x (mset xs)"
  by (induction xs) auto

lemma mset_sort_by [simp]: "mset (sort_by cmp xs) = mset xs"
  by (induction xs) (auto simp: sort_by_def)

lemma set_sort_by [simp]: "set (sort_by cmp xs) = set xs"
  by (metis mset_sort_by set_mset_mset)

lemma length_sort_by [simp]: "length (sort_by cmp xs) = length xs"
  by (metis mset_sort_by size_mset)

lemma sort_by_Cons: "sort_by cmp (x # xs) = insert_by cmp x (sort_by cmp xs)"
  by (simp add: sort_by_def)

lemma sort_by_Nil [simp]: "sort_by cmp [] = []"
  by (simp add: sort_by_def)

text \<open>
  What the language asks of a comparator: it orders every pair one way and is transitive.
  \<open>total_comparator\<close> adds that only equal values tie, so the sorted list depends on the
  multiset of its input alone.
\<close>

locale comparator_laws =
  fixes cmp :: "'a \<Rightarrow> 'a \<Rightarrow> int"
  assumes cmp_swap: "sgn (cmp y x) = - sgn (cmp x y)"
    and cmp_trans: "cmp x y \<le> 0 \<Longrightarrow> cmp y z \<le> 0 \<Longrightarrow> cmp x z \<le> 0"
begin

lemma cmp_total: "cmp x y \<le> 0 \<or> cmp y x \<le> 0"
  using cmp_swap [of y x] by (auto simp: sgn_if split: if_splits)

lemma insert_by_sorted:
  "sorted_wrt (\<lambda>a b. cmp a b \<le> 0) xs \<Longrightarrow> sorted_wrt (\<lambda>a b. cmp a b \<le> 0) (insert_by cmp x xs)"
proof (induction xs)
  case Nil
  then show ?case by simp
next
  case (Cons y ys)
  have "set (insert_by cmp x ys) = insert x (set ys)"
    by (metis mset_insert_by set_mset_add_mset_insert set_mset_mset)
  with Cons cmp_total show ?case by (auto intro: cmp_trans)
qed

lemma sort_by_sorted: "sorted_wrt (\<lambda>a b. cmp a b \<le> 0) (sort_by cmp xs)"
  by (induction xs) (auto simp: sort_by_Cons insert_by_sorted)

lemma sort_by_idem: "sorted_wrt (\<lambda>a b. cmp a b \<le> 0) xs \<Longrightarrow> sort_by cmp xs = xs"
proof (induction xs)
  case Nil
  then show ?case by simp
next
  case (Cons x xs)
  then show ?case by (cases xs) (auto simp: sort_by_Cons)
qed

end

locale total_comparator = comparator_laws +
  assumes cmp_eq: "cmp x y = 0 \<Longrightarrow> x = y"
begin

lemma cmp_antisym: "cmp x y \<le> 0 \<Longrightarrow> cmp y x \<le> 0 \<Longrightarrow> x = y"
  using cmp_swap [of x y] by (intro cmp_eq) (auto simp: sgn_if split: if_splits)

lemma sorted_unique:
  "\<lbrakk>sorted_wrt (\<lambda>a b. cmp a b \<le> 0) xs; sorted_wrt (\<lambda>a b. cmp a b \<le> 0) ys; mset xs = mset ys\<rbrakk>
   \<Longrightarrow> xs = ys"
proof (induction xs arbitrary: ys)
  case Nil
  then show ?case by simp
next
  case (Cons x xs)
  then obtain y ys' where ys: "ys = y # ys'" by (cases ys) auto
  have "x = y"
  proof (rule ccontr)
    assume "x \<noteq> y"
    with Cons.prems(3) ys have "y \<in> set xs" "x \<in> set ys'"
      by (metis in_multiset_in_set insert_noteq_member mset.simps(2))+
    with Cons.prems ys have "cmp x y \<le> 0" "cmp y x \<le> 0" by auto
    with \<open>x \<noteq> y\<close> cmp_antisym show False by blast
  qed
  with Cons ys show ?case by auto
qed

lemma sort_by_mset_cong: "mset xs = mset ys \<Longrightarrow> sort_by cmp xs = sort_by cmp ys"
  by (intro sorted_unique sort_by_sorted) simp

end

text \<open>Closure facts the interpretations use: comparing by an integer key, and \<open>js_or\<close> chains.\<close>

lemma comparator_diff: "comparator_laws (\<lambda>x y. f x - f y)"
  by unfold_locales (auto simp: sgn_if)

lemma comparator_le_swap: "comparator_laws f \<Longrightarrow> f x y = 0 \<longleftrightarrow> f y x = 0"
  and comparator_ge_swap: "comparator_laws f \<Longrightarrow> 0 \<le> f x y \<longleftrightarrow> f y x \<le> 0"
  using comparator_laws.cmp_swap [of f y x] by (auto simp: sgn_if split: if_splits)

lemma comparator_js_or:
  assumes f: "comparator_laws f" and g: "comparator_laws g"
  shows "comparator_laws (\<lambda>x y. js_or (f x y) (g x y))"
proof
  fix x y
  show "sgn (js_or (f y x) (g y x)) = - sgn (js_or (f x y) (g x y))"
    using comparator_laws.cmp_swap [OF f, of y x] comparator_laws.cmp_swap [OF g, of y x]
      comparator_le_swap [OF f, of x y] by (auto simp: js_or_def)
next
  fix x y z
  assume xy: "js_or (f x y) (g x y) \<le> 0" and yz: "js_or (f y z) (g y z) \<le> 0"
  then have fxy: "f x y \<le> 0" and fyz: "f y z \<le> 0"
    by (auto simp: js_or_def split: if_splits)
  then have fxz: "f x z \<le> 0" by (rule comparator_laws.cmp_trans [OF f])
  show "js_or (f x z) (g x z) \<le> 0"
  proof (cases "f x z = 0")
    case True
    then have "f z x = 0" using comparator_le_swap [OF f] by blast
    then have "f z y \<le> 0" "f y x \<le> 0"
      using comparator_laws.cmp_trans [OF f] fxy fyz by (metis order.refl)+
    then have "f y z = 0" "f x y = 0"
      using fxy fyz comparator_ge_swap [OF f] by (meson order_antisym)+
    with xy yz True show ?thesis
      using comparator_laws.cmp_trans [OF g, of x y z] by (simp add: js_or_def)
  next
    case False
    with fxz show ?thesis by (simp add: js_or_def)
  qed
qed

lemma js_or_eq_0 [simp]: "js_or a b = 0 \<longleftrightarrow> a = 0 \<and> b = 0"
  by (simp add: js_or_def)

section \<open>Association lists\<close>

text \<open>\<^verbatim>\<open>new Map(pairs)\<close> keeps the last pair of a key; with distinct keys the order does not matter.\<close>

lemma map_of_rev_distinct: "distinct (map fst xs) \<Longrightarrow> map_of (rev xs) = map_of xs"
  by (subst map_of_inject_set) (auto simp: rev_map [symmetric])

end
