(* ===== verification/JsValue.thy ===== *)
theory JsValue
  imports Prelude "HOL-Library.Word" "HOL-Library.List_Lexorder"
begin

text \<open>
  The part of the JavaScript language the program relies on: strings as sequences of UTF-16
  code units, numbers, dynamically typed values with their property reads, trimming, and the
  character tests the regular expressions of the source perform. Object property order is kept,
  as \<^verbatim>\<open>Object.entries\<close> and \<^verbatim>\<open>JSON.stringify\<close> observe it. Symbol keys and getters are left out:
  no value of the program carries one. A finite double is its rational value, so
  negative zero and zero coincide (the code never tells them apart).
\<close>

section \<open>Strings\<close>

type_synonym unit16 = "16 word"
type_synonym jstr = "unit16 list"

definition lit :: "string \<Rightarrow> jstr" where
  "lit s = map (\<lambda>c. word_of_nat (of_char c)) s"

lemma unit16_of_char_inject [simp]:
  "(word_of_nat (of_char c) :: unit16) = word_of_nat (of_char d) \<longleftrightarrow> c = d"
proof -
  have "unat (word_of_nat (of_char x) :: unit16) = of_char x" for x
  proof -
    have "of_char x < (65536::nat)" using nat_of_char_less_256 [of x] by linarith
    then show ?thesis by (simp add: unat_of_nat)
  qed
  then show ?thesis by (metis of_char_eq_iff)
qed

text \<open>Two literals are the same JavaScript string exactly when they are the same text.\<close>

lemma lit_inject [simp]: "lit a = lit b \<longleftrightarrow> a = b"
  unfolding lit_def by (rule inj_map_eq_map) (auto intro: injI)

lemma lit_eq_Nil [simp]: "lit a = [] \<longleftrightarrow> a = []" "[] = lit a \<longleftrightarrow> a = []"
  by (auto simp: lit_def)

lemma length_lit [simp]: "length (lit a) = length a"
  by (simp add: lit_def)

lemma lit_append: "lit (a @ b) = lit a @ lit b"
  by (simp add: lit_def)

text \<open>White space and line terminators, the code units \<^verbatim>\<open>trim\<close> and \<^verbatim>\<open>\s\<close> know.\<close>

definition is_ws :: "unit16 \<Rightarrow> bool" where
  "is_ws c \<longleftrightarrow> (let n = unat c in
     n \<in> {9, 10, 11, 12, 13, 32, 160, 5760, 8232, 8233, 8239, 8287, 12288, 65279}
     \<or> (8192 \<le> n \<and> n \<le> 8202))"

definition trim :: "jstr \<Rightarrow> jstr" where
  "trim s = rev (dropWhile is_ws (rev (dropWhile is_ws s)))"

lemma trim_idem_iff: "trim s = s \<longleftrightarrow> (s = [] \<or> (\<not> is_ws (hd s) \<and> \<not> is_ws (last s)))"
proof (cases "s = []")
  case True
  then show ?thesis by (simp add: trim_def)
next
  case False
  show ?thesis
  proof (cases "is_ws (hd s)")
    case True
    with False have "length (dropWhile is_ws s) < length s"
      by (cases s) (auto simp: le_imp_less_Suc length_dropWhile_le)
    then have "length (trim s) < length s"
      unfolding trim_def by (metis length_dropWhile_le length_rev order_le_less_trans)
    with True False show ?thesis by auto
  next
    case hd_ok: False
    then have d: "dropWhile is_ws s = s" using False by (cases s) auto
    obtain ys y where s: "s = ys @ [y]" using False by (meson rev_exhaust)
    have "length (dropWhile is_ws (rev s)) < length s" if "is_ws y"
      using that s length_dropWhile_le [of is_ws "rev ys"] by (simp add: le_imp_less_Suc)
    then have "is_ws y \<Longrightarrow> length (trim s) \<noteq> length s"
      unfolding trim_def d by simp
    then have "is_ws y \<Longrightarrow> trim s \<noteq> s" by metis
    then show ?thesis using hd_ok d unfolding trim_def s by auto
  qed
qed

lemma trim_Nil [simp]: "trim [] = []"
  by (simp add: trim_def)

definition is_digit :: "unit16 \<Rightarrow> bool" where
  "is_digit c \<longleftrightarrow> 48 \<le> unat c \<and> unat c \<le> 57"

definition is_lower_hex :: "unit16 \<Rightarrow> bool" where
  "is_lower_hex c \<longleftrightarrow> is_digit c \<or> (97 \<le> unat c \<and> unat c \<le> 102)"

text \<open>\<^verbatim>\<open>/^[a-f0-9]{64}$/\<close>\<close>

definition is_hash64 :: "jstr \<Rightarrow> bool" where
  "is_hash64 s \<longleftrightarrow> length s = 64 \<and> list_all is_lower_hex s"

text \<open>The three-way comparison \<^verbatim>\<open>left < right ? -1 : left > right ? 1 : 0\<close> on strings.\<close>

definition compare_strings :: "jstr \<Rightarrow> jstr \<Rightarrow> int" where
  "compare_strings l r = (if l < r then -1 else if l > r then 1 else 0)"

lemma comparator_compare_strings: "comparator_laws (\<lambda>x y. compare_strings (f x) (f y))"
  by unfold_locales (auto simp: compare_strings_def not_less split: if_splits)

lemma compare_strings_eq_0 [simp]: "compare_strings l r = 0 \<longleftrightarrow> l = r"
  by (auto simp: compare_strings_def)

section \<open>Numbers\<close>

datatype jnum = NaN | PInf | NInf | Fin rat

definition max_safe :: int where
  "max_safe = 9007199254740991"

text \<open>
  \<^verbatim>\<open>Number.isSafeInteger\<close>, \<^verbatim>\<open>Number.isInteger\<close> and \<^verbatim>\<open>Number.isFinite\<close>; the first two give the
  integer, so that a checked count continues as an integer.
\<close>

definition int_of_num :: "jnum \<Rightarrow> int option" where
  "int_of_num x = (case x of Fin r \<Rightarrow> if of_int \<lfloor>r\<rfloor> = r then Some \<lfloor>r\<rfloor> else None | _ \<Rightarrow> None)"

definition safe_int_of_num :: "jnum \<Rightarrow> int option" where
  "safe_int_of_num x = (case int_of_num x of
     Some n \<Rightarrow> if \<bar>n\<bar> \<le> max_safe then Some n else None | None \<Rightarrow> None)"

definition is_finite :: "jnum \<Rightarrow> bool" where
  "is_finite x = (case x of Fin _ \<Rightarrow> True | _ \<Rightarrow> False)"

lemma int_of_num_Fin_int [simp]: "int_of_num (Fin (of_int n)) = Some n"
  by (simp add: int_of_num_def)

lemma int_of_num_Some_iff: "int_of_num x = Some n \<longleftrightarrow> x = Fin (of_int n)"
  by (auto simp: int_of_num_def split: jnum.splits)

lemma safe_int_of_num_Some_iff:
  "safe_int_of_num x = Some n \<longleftrightarrow> x = Fin (of_int n) \<and> \<bar>n\<bar> \<le> max_safe"
  by (auto simp: safe_int_of_num_def int_of_num_Some_iff split: option.splits)

lemma safe_int_of_num_int [simp]:
  "safe_int_of_num (Fin (of_int n)) = (if \<bar>n\<bar> \<le> max_safe then Some n else None)"
  by (simp add: safe_int_of_num_def)

section \<open>Values\<close>

datatype proto = ObjectProto | NullProto | ClassProto

datatype js =
    JUndef
  | JNull
  | JBool bool
  | JNum jnum
  | JStr jstr
  | JArr "js list"
  | JObj proto "(jstr \<times> js) list"
  | JDate "int option"
  | JFun

text \<open>\<^verbatim>\<open>Boolean(value)\<close>\<close>

fun truthy :: "js \<Rightarrow> bool" where
  "truthy JUndef = False"
| "truthy JNull = False"
| "truthy (JBool b) = b"
| "truthy (JNum x) = (x \<noteq> NaN \<and> x \<noteq> Fin 0)"
| "truthy (JStr s) = (s \<noteq> [])"
| "truthy _ = True"

text \<open>
  \<^verbatim>\<open>!value || typeof value !== 'object' || Array.isArray(value)\<close> is the negation of
  \<open>is_object_not_array\<close>; \<open>is_object\<close> leaves the array test out.
\<close>

fun is_object :: "js \<Rightarrow> bool" where
  "is_object (JArr _) = True"
| "is_object (JObj _ _) = True"
| "is_object (JDate _) = True"
| "is_object _ = False"

fun is_object_not_array :: "js \<Rightarrow> bool" where
  "is_object_not_array (JObj _ _) = True"
| "is_object_not_array (JDate _) = True"
| "is_object_not_array _ = False"

text \<open>The plain-object test: the prototype is \<^verbatim>\<open>Object.prototype\<close> or \<^verbatim>\<open>null\<close>.\<close>

fun is_plain_object :: "js \<Rightarrow> bool" where
  "is_plain_object (JObj p _) = (p \<noteq> ClassProto)"
| "is_plain_object _ = False"

text \<open>
  Property reads with a literal key, as \<^verbatim>\<open>(v as { k?: unknown }).k\<close> and \<^verbatim>\<open>v?.k\<close>: an absent property
  is \<^verbatim>\<open>undefined\<close>. None of the keys read is inherited from a built-in prototype.
\<close>

fun get_prop :: "js \<Rightarrow> string \<Rightarrow> js" where
  "get_prop (JObj _ ps) k = (case map_of ps (lit k) of Some v \<Rightarrow> v | None \<Rightarrow> JUndef)"
| "get_prop _ k = JUndef"

fun has_own :: "js \<Rightarrow> string \<Rightarrow> bool" where
  "has_own (JObj _ ps) k = (lit k \<in> fst ` set ps)"
| "has_own _ k = False"

fun own_keys :: "js \<Rightarrow> jstr list" where
  "own_keys (JObj _ ps) = map fst ps"
| "own_keys _ = []"

text \<open>
  \<^verbatim>\<open>expectPlainObjectWithExactKeys\<close> of the escrow format, shared by its copies in the escrow loader
  (service/newsletter-retention-escrow-loader.ts) and the writer.
\<close>

definition expect_exact_keys :: "js \<Rightarrow> string list \<Rightarrow> string \<Rightarrow> unit res" where
  "expect_exact_keys v keys label =
     (if \<not> is_plain_object v then Inl (Error (label @ '' must be a plain object with exact keys''))
      else if length (own_keys v) \<noteq> length keys then Inl (Error (label @ '' must have exact keys''))
      else if \<not> list_all (has_own v) keys then Inl (Error (label @ '' must have exact keys''))
      else Inr ())"

abbreviation obj :: "(string \<times> js) list \<Rightarrow> js" where
  "obj kvs \<equiv> JObj ObjectProto (map (\<lambda>(k, v). (lit k, v)) kvs)"

abbreviation jint :: "int \<Rightarrow> js" where
  "jint n \<equiv> JNum (Fin (of_int n))"

lemma map_of_lit: "map_of (map (\<lambda>(k, v). (lit k, v)) kvs) (lit k) = map_of kvs k"
  by (induction kvs) auto

section \<open>Validators several files repeat\<close>

text \<open>
  The same few checks are written out in every retention file, each with its own error
  text; the text is therefore an argument. The copies share one model each.
\<close>

definition safe_count :: "js \<Rightarrow> exn \<Rightarrow> int res" where
  "safe_count v e = (case v of
     JNum x \<Rightarrow> (case safe_int_of_num x of Some n \<Rightarrow> if n < 0 then Inl e else Inr n | None \<Rightarrow> Inl e)
   | _ \<Rightarrow> Inl e)"

definition safe_positive :: "js \<Rightarrow> exn \<Rightarrow> int res" where
  "safe_positive v e = (case v of
     JNum x \<Rightarrow> (case safe_int_of_num x of Some n \<Rightarrow> if n \<le> 0 then Inl e else Inr n | None \<Rightarrow> Inl e)
   | _ \<Rightarrow> Inl e)"

definition trimmed_string :: "js \<Rightarrow> exn \<Rightarrow> jstr res" where
  "trimmed_string v e = (case v of
     JStr s \<Rightarrow> if s = [] \<or> trim s \<noteq> s then Inl e else Inr s | _ \<Rightarrow> Inl e)"

definition nonblank_string :: "js \<Rightarrow> exn \<Rightarrow> jstr res" where
  "nonblank_string v e = (case v of JStr s \<Rightarrow> if trim s = [] then Inl e else Inr s | _ \<Rightarrow> Inl e)"

definition nonempty_string :: "js \<Rightarrow> exn \<Rightarrow> jstr res" where
  "nonempty_string v e = (case v of JStr s \<Rightarrow> if s = [] then Inl e else Inr s | _ \<Rightarrow> Inl e)"

definition any_string :: "js \<Rightarrow> exn \<Rightarrow> jstr res" where
  "any_string v e = (case v of JStr s \<Rightarrow> Inr s | _ \<Rightarrow> Inl e)"

definition hash_string :: "js \<Rightarrow> exn \<Rightarrow> jstr res" where
  "hash_string v e = (case v of JStr s \<Rightarrow> if is_hash64 s then Inr s else Inl e | _ \<Rightarrow> Inl e)"

lemma safe_count_Inr_iff [simp]:
  "safe_count v e = Inr n \<longleftrightarrow> v = jint n \<and> 0 \<le> n \<and> n \<le> max_safe"
  by (auto simp: safe_count_def safe_int_of_num_Some_iff split: js.splits option.splits)

lemma safe_positive_Inr_iff [simp]:
  "safe_positive v e = Inr n \<longleftrightarrow> v = jint n \<and> 0 < n \<and> n \<le> max_safe"
  by (auto simp: safe_positive_def safe_int_of_num_Some_iff split: js.splits option.splits)

lemma trimmed_string_Inr_iff [simp]:
  "trimmed_string v e = Inr s \<longleftrightarrow> v = JStr s \<and> s \<noteq> [] \<and> trim s = s"
  by (auto simp: trimmed_string_def split: js.splits)

lemma nonblank_string_Inr_iff [simp]:
  "nonblank_string v e = Inr s \<longleftrightarrow> v = JStr s \<and> trim s \<noteq> []"
  by (auto simp: nonblank_string_def split: js.splits)

lemma nonempty_string_Inr_iff [simp]:
  "nonempty_string v e = Inr s \<longleftrightarrow> v = JStr s \<and> s \<noteq> []"
  by (auto simp: nonempty_string_def split: js.splits)

lemma any_string_Inr_iff [simp]: "any_string v e = Inr s \<longleftrightarrow> v = JStr s"
  by (auto simp: any_string_def split: js.splits)

lemma hash_string_Inr_iff [simp]: "hash_string v e = Inr s \<longleftrightarrow> v = JStr s \<and> is_hash64 s"
  by (auto simp: hash_string_def split: js.splits)

text \<open>\<^verbatim>\<open>safeAddIntegers\<close> / \<^verbatim>\<open>safeAdd\<close>: addition of counts that throws instead of losing precision.\<close>

definition safe_add :: "int \<Rightarrow> int \<Rightarrow> string \<Rightarrow> int res" where
  "safe_add l r field =
     (if \<bar>l\<bar> > max_safe \<or> \<bar>r\<bar> > max_safe \<or> l < 0 \<or> r < 0
      then Inl (Error (field @ '' must be a non-negative integer''))
      else if l > max_safe - r then Inl (Error (field @ '' sum exceeds Number.MAX_SAFE_INTEGER''))
      else Inr (l + r))"

lemma safe_add_Inr_iff [simp]:
  "safe_add l r f = Inr n \<longleftrightarrow> 0 \<le> l \<and> 0 \<le> r \<and> l + r \<le> max_safe \<and> n = l + r"
  by (auto simp: safe_add_def)

text \<open>A sum of non-negative counts is the mathematical sum, and it stays within the safe range.\<close>

lemma safe_sum_Inr_iff:
  "0 \<le> a \<Longrightarrow> a \<le> max_safe \<Longrightarrow> foldE (\<lambda>t x. safe_add t (f x) field) a xs = Inr n \<longleftrightarrow>
     (\<forall>x \<in> set xs. 0 \<le> f x) \<and> n = a + (\<Sum>x\<leftarrow>xs. f x) \<and> n \<le> max_safe"
proof (induction xs arbitrary: a)
  case (Cons x xs)
  have nonneg: "0 \<le> (\<Sum>x\<leftarrow>xs. f x)" if "\<forall>x \<in> set xs. 0 \<le> f x"
    using that by (intro sum_list_nonneg) auto
  show ?case
    using Cons.IH [of "a + f x"] Cons.prems nonneg by (auto simp: algebra_simps)
qed auto

end
