(* ===== verification/JsDate.thy ===== *)
theory JsDate
  imports JsValue
begin

text \<open>
  \<^verbatim>\<open>Date.prototype.toISOString\<close> and \<^verbatim>\<open>Date.parse\<close> on the one format the program accepts,
  \<^verbatim>\<open>YYYY-MM-DDTHH:MM:SS.mmmZ\<close>, over integer time values in milliseconds, with the calendar of
  ECMA-262 (21.4.1). Two facts carry the retention proofs: parsing inverts printing, and for
  years 0 to 9999 the printed strings compare as the times do (\<open>to_iso_less_iff\<close>). The first
  part is arithmetic of the proleptic Gregorian calendar.
\<close>

section \<open>Calendar\<close>

definition day_from_year :: "int \<Rightarrow> int" where
  "day_from_year y = 365 * (y - 1970) + (y - 1969) div 4 - (y - 1901) div 100 + (y - 1601) div 400"

definition leap :: "int \<Rightarrow> bool" where
  "leap y \<longleftrightarrow> (y mod 4 = 0 \<and> y mod 100 \<noteq> 0) \<or> y mod 400 = 0"

definition days_in_year :: "int \<Rightarrow> int" where
  "days_in_year y = (if leap y then 366 else 365)"

lemma div_step:
  fixes x m :: int
  assumes "0 < m"
  shows "(x + 1) div m = x div m + (if (x + 1) mod m = 0 then 1 else 0)"
proof -
  define q r where "q = x div m" and "r = x mod m"
  have x: "x = q * m + r" and r: "0 \<le> r" "r < m" using assms by (simp_all add: q_def r_def)
  show ?thesis
  proof (cases "r + 1 = m")
    case True
    then have "x + 1 = (q + 1) * m" using x by (simp add: algebra_simps)
    then have "(x + 1) div m = q + 1" "(x + 1) mod m = 0" using assms by simp_all
    then show ?thesis by (simp add: q_def)
  next
    case False
    then have small: "r + 1 < m" and e: "x + 1 = (r + 1) + q * m" using x r by simp_all
    have "(x + 1) div m = q + (r + 1) div m" "(x + 1) mod m = (r + 1) mod m"
      unfolding e using assms by (simp_all only: div_mult_self1 mod_mult_self1)
    then show ?thesis using r small by (simp add: q_def)
  qed
qed

lemma mod_shift:
  fixes y m :: int
  shows "(y - k * m) mod m = y mod m"
  using mod_mult_self1 [of y "- k" m] by (simp add: algebra_simps)

lemma leap_mods: "y mod 400 = 0 \<Longrightarrow> y mod 100 = (0::int)" "y mod 100 = 0 \<Longrightarrow> y mod 4 = (0::int)"
  using dvd_trans [of 100 400 y] dvd_trans [of 4 100 y] by (simp_all add: dvd_eq_mod_eq_0)

lemma day_from_year_Suc: "day_from_year (y + 1) = day_from_year y + days_in_year y"
proof -
  have 4: "(y - 1968) div 4 = (y - 1969) div 4 + (if y mod 4 = 0 then 1 else 0)"
    using div_step [of 4 "y - 1969"] mod_shift [of y 492 4] by simp
  have 100: "(y - 1900) div 100 = (y - 1901) div 100 + (if y mod 100 = 0 then 1 else 0)"
    using div_step [of 100 "y - 1901"] mod_shift [of y 19 100] by simp
  have 400: "(y - 1600) div 400 = (y - 1601) div 400 + (if y mod 400 = 0 then 1 else 0)"
    using div_step [of 400 "y - 1601"] mod_shift [of y 4 400] by simp
  show ?thesis
    using leap_mods [of y] by (simp add: day_from_year_def days_in_year_def leap_def 4 100 400)
qed

lemma days_in_year_pos: "0 < days_in_year y"
  by (simp add: days_in_year_def)

lemma day_from_year_mono: "x \<le> y \<Longrightarrow> day_from_year x \<le> day_from_year y"
  by (induction y rule: int_ge_induct)
    (auto simp: day_from_year_Suc intro: add_increasing2 less_imp_le [OF days_in_year_pos])

lemma day_from_year_less: "x < y \<Longrightarrow> day_from_year x + days_in_year x \<le> day_from_year y"
  using day_from_year_mono [of "x + 1" y] by (simp add: day_from_year_Suc)

text \<open>
  The year of a day: from a first guess that is not late, step forward while the next year
  has begun.
\<close>

function find_year :: "int \<Rightarrow> int \<Rightarrow> int" where
  "find_year d y = (if day_from_year (y + 1) \<le> d then find_year d (y + 1) else y)"
  by pat_completeness auto
termination
proof (relation "measure (\<lambda>(d, y). nat (d + 1 - day_from_year y))")
  fix d y :: int
  assume "day_from_year (y + 1) \<le> d"
  then show "((d, y + 1), d, y) \<in> measure (\<lambda>(d, y). nat (d + 1 - day_from_year y))"
    using days_in_year_pos [of y] by (auto simp: day_from_year_Suc)
qed simp

declare find_year.simps [simp del]

lemma find_year_spec:
  "day_from_year y \<le> d \<Longrightarrow>
   day_from_year (find_year d y) \<le> d \<and> d < day_from_year (find_year d y) + days_in_year (find_year d y)"
proof (induction d y rule: find_year.induct)
  case (1 d y)
  show ?case
  proof (cases "day_from_year (y + 1) \<le> d")
    case True
    with 1 show ?thesis by (simp add: find_year.simps [of d y])
  next
    case False
    with 1 show ?thesis by (simp add: find_year.simps [of d y] day_from_year_Suc)
  qed
qed

definition year_of_day :: "int \<Rightarrow> int" where
  "year_of_day d = find_year d (1970 + (if 0 \<le> d then d div 366 else d div 365))"

lemma year_guess_ok: "day_from_year (1970 + (if 0 \<le> d then d div 366 else d div 365)) \<le> d"
proof -
  define q where "q k = (k + 1) div 4 - (k + 69) div 100 + (k + 369) div 400" for k :: int
  have dfy: "day_from_year (1970 + k) = 365 * k + q k" for k
    by (simp add: day_from_year_def q_def add.commute)
  have q01: "q 0 = 0" "q 1 = 0" "q (- 1) = 0" by (simp_all add: q_def)
  have bnd: "400 * q k < 97 * k + 594" for k
  proof -
    define a b c where "a = (k + 1) div 4" and "b = (k + 69) div 100" and "c = (k + 369) div 400"
    have "4 * a \<le> k + 1" by (simp add: a_def)
    moreover have "k + 69 < 100 * b + 100"
      using div_mult_mod_eq [of "k + 69" 100] pos_mod_bound [of 100 "k + 69"] unfolding b_def by linarith
    moreover have "400 * c \<le> k + 369" by (simp add: c_def)
    ultimately show ?thesis unfolding q_def a_def [symmetric] b_def [symmetric] c_def [symmetric]
      by (simp add: algebra_simps)
  qed
  have up: "day_from_year (1970 + k) \<le> 366 * k" if "0 \<le> k" for k
    using that bnd [of k] q01 unfolding dfy by (cases "k = 0 \<or> k = 1") auto
  have dn: "day_from_year (1970 + k) \<le> 365 * k" if "k \<le> 0" for k
    using that bnd [of k] q01 unfolding dfy by (cases "k = 0 \<or> k = - 1") auto
  show ?thesis
  proof (cases "0 \<le> d")
    case True
    then have "day_from_year (1970 + d div 366) \<le> 366 * (d div 366)" by (intro up) simp
    also have "\<dots> \<le> d" by presburger
    finally show ?thesis using True by simp
  next
    case False
    then have "day_from_year (1970 + d div 365) \<le> 365 * (d div 365)" by (intro dn) presburger
    also have "\<dots> \<le> d" by presburger
    finally show ?thesis using False by simp
  qed
qed

lemma year_of_day_spec:
  "day_from_year (year_of_day d) \<le> d"
  "d < day_from_year (year_of_day d) + days_in_year (year_of_day d)"
  using find_year_spec [OF year_guess_ok, of d] by (simp_all add: year_of_day_def)

lemma year_of_day_unique:
  "day_from_year y \<le> d \<Longrightarrow> d < day_from_year y + days_in_year y \<Longrightarrow> year_of_day d = y"
  using year_of_day_spec [of d] day_from_year_less [of y "year_of_day d"]
    day_from_year_less [of "year_of_day d" y] by linarith

lemma year_of_day_mono: "d \<le> e \<Longrightarrow> year_of_day d \<le> year_of_day e"
  using year_of_day_spec [of d] year_of_day_spec [of e]
    day_from_year_less [of "year_of_day e" "year_of_day d"] by linarith

text \<open>Months: the day of the year on which each month begins, month 13 being the next year.\<close>

definition month_start :: "bool \<Rightarrow> int \<Rightarrow> int" where
  "month_start lp m =
     (if m \<le> 1 then 0 else if m = 2 then 31 else (if lp then 1 else 0) +
       (if m = 3 then 59 else if m = 4 then 90 else if m = 5 then 120 else if m = 6 then 151
        else if m = 7 then 181 else if m = 8 then 212 else if m = 9 then 243 else if m = 10 then 273
        else if m = 11 then 304 else if m = 12 then 334 else 365))"

definition month_of_doy :: "bool \<Rightarrow> int \<Rightarrow> int" where
  "month_of_doy lp n =
     (if n < month_start lp 2 then 1 else if n < month_start lp 3 then 2
      else if n < month_start lp 4 then 3 else if n < month_start lp 5 then 4
      else if n < month_start lp 6 then 5 else if n < month_start lp 7 then 6
      else if n < month_start lp 8 then 7 else if n < month_start lp 9 then 8
      else if n < month_start lp 10 then 9 else if n < month_start lp 11 then 10
      else if n < month_start lp 12 then 11 else 12)"

lemma month_of_doy_range: "1 \<le> month_of_doy lp n" "month_of_doy lp n \<le> 12"
  by (simp_all add: month_of_doy_def)

lemma month_start_consts:
  "month_start lp 1 = 0" "month_start lp 2 = 31" "month_start lp 3 = of_bool lp + 59"
  "month_start lp 4 = of_bool lp + 90" "month_start lp 5 = of_bool lp + 120"
  "month_start lp 6 = of_bool lp + 151" "month_start lp 7 = of_bool lp + 181"
  "month_start lp 8 = of_bool lp + 212" "month_start lp 9 = of_bool lp + 243"
  "month_start lp 10 = of_bool lp + 273" "month_start lp 11 = of_bool lp + 304"
  "month_start lp 12 = of_bool lp + 334"
  by (simp_all add: month_start_def)

lemma month_of_doy_start:
  "0 \<le> n \<Longrightarrow> month_start lp (month_of_doy lp n) \<le> n"
  "n < (if lp then 366 else 365) \<Longrightarrow> n \<le> month_start lp (month_of_doy lp n) + 30"
  unfolding month_of_doy_def by (cases lp; simp add: month_start_consts split: if_split)+

lemma month_of_doy_count:
  "month_of_doy lp n = 1 + (of_bool (month_start lp 2 \<le> n) + (of_bool (month_start lp 3 \<le> n)
     + (of_bool (month_start lp 4 \<le> n) + (of_bool (month_start lp 5 \<le> n) + (of_bool (month_start lp 6 \<le> n)
     + (of_bool (month_start lp 7 \<le> n) + (of_bool (month_start lp 8 \<le> n) + (of_bool (month_start lp 9 \<le> n)
     + (of_bool (month_start lp 10 \<le> n) + (of_bool (month_start lp 11 \<le> n) + of_bool (month_start lp 12 \<le> n)))))))))))"
  unfolding month_of_doy_def by (cases lp; simp add: month_start_consts split: if_split)

lemma month_of_doy_mono: "m \<le> n \<Longrightarrow> month_of_doy lp m \<le> month_of_doy lp n"
  unfolding month_of_doy_count by (intro add_mono order_refl) auto

section \<open>Time values and their fields\<close>

definition ms_per_day :: int where "ms_per_day = 86400000"

record utc_fields =
  f_year :: int
  f_month :: int
  f_day :: int
  f_hour :: int
  f_minute :: int
  f_second :: int
  f_ms :: int

definition fields_of :: "int \<Rightarrow> utc_fields" where
  "fields_of t = (let d = t div ms_per_day; r = t mod ms_per_day; y = year_of_day d;
      doy = d - day_from_year y; m = month_of_doy (leap y) doy in
    \<lparr>f_year = y, f_month = m, f_day = doy - month_start (leap y) m + 1, f_hour = r div 3600000,
     f_minute = r div 60000 mod 60, f_second = r div 1000 mod 60, f_ms = r mod 1000\<rparr>)"

text \<open>\<^verbatim>\<open>MakeDate(MakeDay(y, m - 1, d), MakeTime(h, mi, s, ms))\<close>; the day may run past its month.\<close>

definition make_time :: "utc_fields \<Rightarrow> int" where
  "make_time f =
     (day_from_year (f_year f) + month_start (leap (f_year f)) (f_month f) + f_day f - 1) * ms_per_day
     + f_hour f * 3600000 + f_minute f * 60000 + f_second f * 1000 + f_ms f"

lemma ms_split:
  fixes r :: int
  shows "r div 3600000 * 3600000 + r div 60000 mod 60 * 60000 + r div 1000 mod 60 * 1000 + r mod 1000 = r"
proof -
  have 1: "r div 1000 div 60 = r div 60000" and 2: "r div 60000 div 60 = r div 3600000"
    by (simp_all flip: zdiv_zmult2_eq)
  show ?thesis
    using div_mult_mod_eq [of r 1000] div_mult_mod_eq [of "r div 1000" 60]
      div_mult_mod_eq [of "r div 60000" 60] unfolding 1 2 by linarith
qed

lemma make_time_fields_of: "make_time (fields_of t) = t"
proof -
  define d r where "d = t div 86400000" and "r = t mod 86400000"
  have t: "t = d * 86400000 + r" by (simp add: d_def r_def)
  define h m s u where "h = r div 3600000" and "m = r div 60000 mod 60"
    and "s = r div 1000 mod 60" and "u = r mod 1000"
  have "h * 3600000 + m * 60000 + s * 1000 + u = r"
    using ms_split [of r] by (simp only: h_def m_def s_def u_def)
  moreover have "make_time (fields_of t) = d * 86400000 + h * 3600000 + m * 60000 + s * 1000 + u"
    by (simp add: make_time_def fields_of_def Let_def ms_per_day_def d_def r_def h_def m_def s_def u_def)
  ultimately show ?thesis using t by simp
qed

text \<open>The fields of a time value are in range.\<close>

lemma fields_of_range:
  "1 \<le> f_month (fields_of t)" "f_month (fields_of t) \<le> 12"
  "1 \<le> f_day (fields_of t)" "f_day (fields_of t) \<le> 31"
  "0 \<le> f_hour (fields_of t)" "f_hour (fields_of t) \<le> 23"
  "0 \<le> f_minute (fields_of t)" "f_minute (fields_of t) \<le> 59"
  "0 \<le> f_second (fields_of t)" "f_second (fields_of t) \<le> 59"
  "0 \<le> f_ms (fields_of t)" "f_ms (fields_of t) \<le> 999"
proof -
  let ?d = "t div ms_per_day" let ?y = "year_of_day ?d" let ?n = "?d - day_from_year ?y"
  have n: "0 \<le> ?n" "?n < (if leap ?y then 366 else 365)"
    using year_of_day_spec [of ?d] by (auto simp: days_in_year_def)
  have r: "0 \<le> t mod 86400000" "t mod 86400000 < 86400000" by simp_all
  show "1 \<le> f_month (fields_of t)" "f_month (fields_of t) \<le> 12"
    by (simp_all add: fields_of_def Let_def month_of_doy_range)
  show "1 \<le> f_day (fields_of t)" "f_day (fields_of t) \<le> 31"
    using month_of_doy_start(1) [OF n(1), of "leap ?y"] month_of_doy_start(2) [OF n(2)]
    by (simp_all add: fields_of_def Let_def)
  have "t mod 86400000 div 3600000 < 24" using r by (simp add: div_less_iff_less_mult)
  then show "0 \<le> f_hour (fields_of t)" "f_hour (fields_of t) \<le> 23"
    using r by (simp_all add: fields_of_def Let_def ms_per_day_def pos_imp_zdiv_nonneg_iff)
  show "0 \<le> f_minute (fields_of t)" "f_minute (fields_of t) \<le> 59"
    "0 \<le> f_second (fields_of t)" "f_second (fields_of t) \<le> 59"
    "0 \<le> f_ms (fields_of t)" "f_ms (fields_of t) \<le> 999"
    using pos_mod_bound [of 60 "t mod ms_per_day div 60000"] pos_mod_bound [of 60 "t mod ms_per_day div 1000"]
      pos_mod_bound [of 1000 "t mod ms_per_day"]
    by (simp_all add: fields_of_def Let_def)
qed

section \<open>Decimal fields of fixed width\<close>

definition digit_unit :: "int \<Rightarrow> unit16" where
  "digit_unit n = word_of_int (48 + n)"

fun pad_dec :: "nat \<Rightarrow> int \<Rightarrow> jstr" where
  "pad_dec 0 n = []"
| "pad_dec (Suc w) n = pad_dec w (n div 10) @ [digit_unit (n mod 10)]"

definition dec_value :: "jstr \<Rightarrow> int" where
  "dec_value s = foldl (\<lambda>a c. 10 * a + (uint c - 48)) 0 s"

lemma length_pad_dec [simp]: "length (pad_dec w n) = w"
  by (induction w arbitrary: n) auto

lemma uint_digit_unit: "0 \<le> k \<Longrightarrow> k \<le> 9 \<Longrightarrow> uint (digit_unit k) = 48 + k"
  unfolding digit_unit_def by (subst uint_word_of_int) simp

lemma uint_digit_mod [simp]: "uint (digit_unit (n mod 10)) = 48 + n mod 10"
  by (rule uint_digit_unit) simp_all

lemma is_digit_digit_unit [simp]: "is_digit (digit_unit (n mod 10))"
proof -
  have "unat (digit_unit (n mod 10)) = nat (48 + n mod 10)" by (simp flip: nat_uint_eq)
  moreover have "0 \<le> n mod 10" "n mod 10 < 10" by simp_all
  ultimately show ?thesis unfolding is_digit_def by linarith
qed

lemma pad_dec_digits: "list_all is_digit (pad_dec w n)"
  by (induction w arbitrary: n) auto

lemma dec_value_pad_dec: "0 \<le> n \<Longrightarrow> n < 10 ^ w \<Longrightarrow> dec_value (pad_dec w n) = n"
proof (induction w arbitrary: n)
  case (Suc w)
  have "n div 10 < 10 ^ w" using Suc.prems by (simp add: div_less_iff_less_mult mult.commute)
  then have "dec_value (pad_dec w (n div 10)) = n div 10"
    using Suc by (simp add: pos_imp_zdiv_nonneg_iff)
  then show ?case by (simp add: dec_value_def)
qed (simp add: dec_value_def)

lemma less_append_same_length:
  fixes a b c d :: "'a::linorder list"
  shows "length a = length c \<Longrightarrow> a @ b < c @ d \<longleftrightarrow> a < c \<or> (a = c \<and> b < d)"
  by (induction a c rule: list_induct2) auto

lemma pad_dec_less:
  "\<lbrakk>0 \<le> n; n < 10 ^ w; 0 \<le> m; m < 10 ^ w\<rbrakk> \<Longrightarrow> n < m \<Longrightarrow> pad_dec w n < pad_dec w m"
proof (induction w arbitrary: n m)
  case (Suc w)
  have b: "n div 10 < 10 ^ w" "m div 10 < 10 ^ w" "0 \<le> n div 10" "0 \<le> m div 10"
    using Suc.prems by (simp_all add: div_less_iff_less_mult mult.commute pos_imp_zdiv_nonneg_iff)
  show ?case
  proof (cases "n div 10 < m div 10")
    case True
    with b Suc.IH show ?thesis by (simp add: less_append_same_length)
  next
    case False
    with Suc.prems have "n div 10 = m div 10" "n mod 10 < m mod 10"
      using div_mult_mod_eq [of n 10] div_mult_mod_eq [of m 10] zdiv_mono1 [of n m 10] by linarith+
    then show ?thesis by (simp add: less_append_same_length word_less_def)
  qed
qed simp

section \<open>Printing and parsing\<close>

definition in_iso_range :: "int \<Rightarrow> bool" where
  "in_iso_range t \<longleftrightarrow> 0 \<le> year_of_day (t div ms_per_day) \<and> year_of_day (t div ms_per_day) \<le> 9999"

definition fields_to_iso :: "utc_fields \<Rightarrow> jstr" where
  "fields_to_iso f =
     (if 0 \<le> f_year f \<and> f_year f \<le> 9999 then pad_dec 4 (f_year f)
      else lit (if f_year f < 0 then ''-'' else ''+'') @ pad_dec 6 \<bar>f_year f\<bar>)
     @ lit ''-'' @ pad_dec 2 (f_month f) @ lit ''-'' @ pad_dec 2 (f_day f)
     @ lit ''T'' @ pad_dec 2 (f_hour f) @ lit '':'' @ pad_dec 2 (f_minute f)
     @ lit '':'' @ pad_dec 2 (f_second f) @ lit ''.'' @ pad_dec 3 (f_ms f) @ lit ''Z''"

text \<open>\<^verbatim>\<open>new Date(t).toISOString()\<close>\<close>

definition to_iso :: "int \<Rightarrow> jstr" where
  "to_iso t = fields_to_iso (fields_of t)"

text \<open>\<^verbatim>\<open>/^\d{4}-\d{2}-\d{2}T\d{2}:\d{2}:\d{2}\.\d{3}Z$/\<close>, \<open>None\<close> standing for \<^verbatim>\<open>\d\<close>.\<close>

definition utc_pattern :: "unit16 option list" where
  "utc_pattern = replicate 4 None @ map Some (lit ''-'') @ replicate 2 None @ map Some (lit ''-'')
     @ replicate 2 None @ map Some (lit ''T'') @ replicate 2 None @ map Some (lit '':'')
     @ replicate 2 None @ map Some (lit '':'') @ replicate 2 None @ map Some (lit ''.'')
     @ replicate 3 None @ map Some (lit ''Z'')"

definition matches :: "unit16 option list \<Rightarrow> jstr \<Rightarrow> bool" where
  "matches pat s = list_all2 (\<lambda>p c. case p of None \<Rightarrow> is_digit c | Some l \<Rightarrow> c = l) pat s"

definition parse_fields :: "jstr \<Rightarrow> utc_fields" where
  "parse_fields s =
     \<lparr>f_year = dec_value (take 4 s), f_month = dec_value (take 2 (drop 5 s)),
      f_day = dec_value (take 2 (drop 8 s)), f_hour = dec_value (take 2 (drop 11 s)),
      f_minute = dec_value (take 2 (drop 14 s)), f_second = dec_value (take 2 (drop 17 s)),
      f_ms = dec_value (take 3 (drop 20 s))\<rparr>"

text \<open>
  \<^verbatim>\<open>Date.parse(s)\<close> for a string of that pattern: \<^verbatim>\<open>NaN\<close> (here \<open>None\<close>) when an element is out of range;
  a day past the end of its month is carried over, which is why the source compares the
  result printed again with its input.
\<close>

definition date_parse :: "jstr \<Rightarrow> int option" where
  "date_parse s = (let f = parse_fields s in
     if 1 \<le> f_month f \<and> f_month f \<le> 12 \<and> 1 \<le> f_day f \<and> f_day f \<le> 31
        \<and> (f_hour f \<le> 23 \<or> f_hour f = 24 \<and> f_minute f = 0 \<and> f_second f = 0 \<and> f_ms f = 0)
        \<and> f_minute f \<le> 59 \<and> f_second f \<le> 59
     then Some (make_time f) else None)"

text \<open>The check that the retention files repeat under different error texts.\<close>

definition parse_strict_utc :: "js \<Rightarrow> exn \<Rightarrow> int res" where
  "parse_strict_utc v e = (case v of
     JStr s \<Rightarrow> if \<not> matches utc_pattern s then Inl e
       else (case date_parse s of None \<Rightarrow> Inl e
             | Some t \<Rightarrow> if to_iso t \<noteq> s then Inl e else Inr t)
   | _ \<Rightarrow> Inl e)"

section \<open>The accepted strings are the printed times\<close>

lemma list_all2_replicate_None [simp]:
  "list_all2 (\<lambda>p c. case p of None \<Rightarrow> is_digit c | Some l \<Rightarrow> c = l) (replicate n None) s \<longleftrightarrow>
   length s = n \<and> list_all is_digit s"
proof (induction n arbitrary: s)
  case (Suc n)
  then show ?case by (cases s) auto
qed auto

lemma list_all2_map_Some [simp]:
  "list_all2 (\<lambda>p c. case p of None \<Rightarrow> is_digit c | Some l \<Rightarrow> c = l) (map Some l) s \<longleftrightarrow> s = l"
proof (induction l arbitrary: s)
  case (Cons a l)
  then show ?case by (cases s) auto
qed simp

definition well_formed_fields :: "utc_fields \<Rightarrow> bool" where
  "well_formed_fields f \<longleftrightarrow> 0 \<le> f_year f \<and> f_year f \<le> 9999 \<and> 1 \<le> f_month f \<and> f_month f \<le> 12
     \<and> 1 \<le> f_day f \<and> f_day f \<le> 31 \<and> 0 \<le> f_hour f \<and> f_hour f \<le> 23 \<and> 0 \<le> f_minute f
     \<and> f_minute f \<le> 59 \<and> 0 \<le> f_second f \<and> f_second f \<le> 59 \<and> 0 \<le> f_ms f \<and> f_ms f \<le> 999"

lemma fields_of_date [simp]:
  "f_year (fields_of t) = year_of_day (t div ms_per_day)"
  by (simp add: fields_of_def Let_def)

lemma well_formed_fields_of: "in_iso_range t \<Longrightarrow> well_formed_fields (fields_of t)"
  using fields_of_range [of t] by (simp add: well_formed_fields_def in_iso_range_def)

lemma matches_digits:
  "length a = n \<Longrightarrow> list_all is_digit a \<Longrightarrow> matches pat b \<Longrightarrow> matches (replicate n None @ pat) (a @ b)"
  by (simp add: matches_def list_all2_append)

lemma matches_lit: "matches pat b \<Longrightarrow> matches (map Some l @ pat) (l @ b)"
  by (simp add: matches_def list_all2_append)

lemma matches_end: "matches (map Some l) l"
  by (simp add: matches_def)

lemma fields_to_iso_matches:
  assumes "well_formed_fields f"
  shows "matches utc_pattern (fields_to_iso f)"
proof -
  have "0 \<le> f_year f \<and> f_year f \<le> 9999" using assms by (simp add: well_formed_fields_def)
  then show ?thesis unfolding utc_pattern_def fields_to_iso_def
    by (simp only: if_True simp_thms) (intro matches_digits matches_lit matches_end length_pad_dec pad_dec_digits)
qed

lemma parse_fields_to_iso:
  assumes "well_formed_fields f"
  shows "parse_fields (fields_to_iso f) = f"
proof -
  have "f_year f < 10 ^ 4" "f_month f < 10 ^ 2" "f_day f < 10 ^ 2" "f_hour f < 10 ^ 2"
    "f_minute f < 10 ^ 2" "f_second f < 10 ^ 2" "f_ms f < 10 ^ 3"
    using assms by (simp_all add: well_formed_fields_def)
  moreover have "0 \<le> f_year f" "0 \<le> f_month f" "0 \<le> f_day f" "0 \<le> f_hour f"
    "0 \<le> f_minute f" "0 \<le> f_second f" "0 \<le> f_ms f" "f_year f \<le> 9999"
    using assms by (simp_all add: well_formed_fields_def)
  ultimately show ?thesis
    unfolding parse_fields_def fields_to_iso_def
    by (simp del: pad_dec.simps add: dec_value_pad_dec lit_def)
qed

lemma date_parse_to_iso: "in_iso_range t \<Longrightarrow> date_parse (to_iso t) = Some t"
  using well_formed_fields_of [of t]
  by (simp add: date_parse_def to_iso_def parse_fields_to_iso)
    (simp add: well_formed_fields_def make_time_fields_of)

lemma length_to_iso: "length (to_iso t) = (if in_iso_range t then 24 else 27)"
  by (simp add: to_iso_def fields_to_iso_def in_iso_range_def fields_of_def Let_def del: pad_dec.simps)

lemma matches_length: "matches utc_pattern s \<Longrightarrow> length s = 24"
  unfolding matches_def by (drule list_all2_lengthD) (simp add: utc_pattern_def)

lemma to_iso_matches: "in_iso_range t \<Longrightarrow> matches utc_pattern (to_iso t)"
  by (simp add: to_iso_def fields_to_iso_matches well_formed_fields_of)

theorem parse_strict_utc_Inr_iff [simp]:
  "parse_strict_utc v e = Inr t \<longleftrightarrow> v = JStr (to_iso t) \<and> in_iso_range t"
proof
  assume "parse_strict_utc v e = Inr t"
  then have "matches utc_pattern (to_iso t)" "v = JStr (to_iso t)"
    by (auto simp: parse_strict_utc_def split: js.splits option.splits)
  moreover from this(1) have "in_iso_range t"
    using matches_length length_to_iso [of t] by (force split: if_splits)
  ultimately show "v = JStr (to_iso t) \<and> in_iso_range t" by simp
next
  assume "v = JStr (to_iso t) \<and> in_iso_range t"
  then show "parse_strict_utc v e = Inr t"
    by (simp add: parse_strict_utc_def to_iso_matches date_parse_to_iso)
qed

section \<open>Printed times compare as times\<close>

definition fields_less :: "utc_fields \<Rightarrow> utc_fields \<Rightarrow> bool" where
  "fields_less f g \<longleftrightarrow> f_year f < f_year g \<or> f_year f = f_year g \<and> (f_month f < f_month g
     \<or> f_month f = f_month g \<and> (f_day f < f_day g \<or> f_day f = f_day g \<and> (f_hour f < f_hour g
     \<or> f_hour f = f_hour g \<and> (f_minute f < f_minute g \<or> f_minute f = f_minute g \<and> (f_second f < f_second g
     \<or> f_second f = f_second g \<and> f_ms f < f_ms g)))))"

lemma mixed_radix_less:
  fixes h h' m m' s s' u u' M M' S S' :: int
  assumes "h \<le> h'" "M \<le> M'" "S \<le> S'" "M = h * 60 + m" "M' = h' * 60 + m'" "S = M * 60 + s"
    "S' = M' * 60 + s'" "S * 1000 + u < S' * 1000 + u'"
  shows "h < h' \<or> h = h' \<and> (m < m' \<or> m = m' \<and> (s < s' \<or> s = s' \<and> u < u'))"
  using assms by linarith

lemma time_of_day_less:
  fixes r s :: int
  assumes "r < s"
  shows "r div 3600000 < s div 3600000 \<or> r div 3600000 = s div 3600000 \<and>
    (r div 60000 mod 60 < s div 60000 mod 60 \<or> r div 60000 mod 60 = s div 60000 mod 60 \<and>
    (r div 1000 mod 60 < s div 1000 mod 60 \<or> r div 1000 mod 60 = s div 1000 mod 60 \<and>
     r mod 1000 < s mod 1000))"
proof -
  have d: "x div 1000 div 60 = x div 60000" "x div 60000 div 60 = x div 3600000" for x :: int
    by (simp_all flip: zdiv_zmult2_eq)
  have "x div 60000 = x div 3600000 * 60 + x div 60000 mod 60"
    "x div 1000 = x div 60000 * 60 + x div 1000 mod 60" for x :: int
    using div_mult_mod_eq [of "x div 60000" 60] div_mult_mod_eq [of "x div 1000" 60] unfolding d by simp_all
  then show ?thesis
    using assms by (intro mixed_radix_less [of _ _ "r div 60000" "s div 60000" "r div 1000" "s div 1000"])
      (simp_all add: zdiv_mono1)
qed

lemma day_less:
  assumes "d < e"
  defines "y \<equiv> year_of_day d" and "z \<equiv> year_of_day e"
  defines "m \<equiv> d - day_from_year y" and "n \<equiv> e - day_from_year z"
  shows "y < z \<or> y = z \<and> (month_of_doy (leap y) m < month_of_doy (leap z) n \<or>
    month_of_doy (leap y) m = month_of_doy (leap z) n \<and> m < n)"
  using assms year_of_day_mono [of d e] month_of_doy_mono [of m n "leap y"] by fastforce

lemma fields_of_less: "t < u \<Longrightarrow> fields_less (fields_of t) (fields_of u)"
proof -
  assume less: "t < u"
  let ?d = "t div 86400000" and ?e = "u div 86400000"
  have le: "?d \<le> ?e" using less by (simp add: zdiv_mono1)
  show ?thesis
  proof (cases "?d = ?e")
    case True
    then have "t mod 86400000 < u mod 86400000"
      using less div_mult_mod_eq [of t 86400000] div_mult_mod_eq [of u 86400000] by linarith
    from time_of_day_less [OF this] show ?thesis
      by (simp add: fields_less_def fields_of_def Let_def ms_per_day_def True)
  next
    case False
    with le have "?d < ?e" by simp
    note cases = day_less [OF this]
    define y z where "y = year_of_day ?d" and "z = year_of_day ?e"
    define m n where "m = ?d - day_from_year y" and "n = ?e - day_from_year z"
    have "f_month (fields_of t) = month_of_doy (leap y) m"
      "f_month (fields_of u) = month_of_doy (leap z) n"
      "f_day (fields_of t) = m - month_start (leap y) (month_of_doy (leap y) m) + 1"
      "f_day (fields_of u) = n - month_start (leap z) (month_of_doy (leap z) n) + 1"
      "f_year (fields_of t) = y" "f_year (fields_of u) = z"
      by (simp_all add: fields_of_def Let_def ms_per_day_def y_def z_def m_def n_def)
    then show ?thesis
      using cases unfolding fields_less_def y_def [symmetric] z_def [symmetric] m_def [symmetric] n_def [symmetric]
      by (elim disjE conjE) (simp_all del: fields_of_date)
  qed
qed

lemma pad_dec_less_iff:
  "\<lbrakk>0 \<le> n; n < 10 ^ w; 0 \<le> m; m < 10 ^ w\<rbrakk> \<Longrightarrow> pad_dec w n < pad_dec w m \<longleftrightarrow> n < m"
  "\<lbrakk>0 \<le> n; n < 10 ^ w; 0 \<le> m; m < 10 ^ w\<rbrakk> \<Longrightarrow> pad_dec w n = pad_dec w m \<longleftrightarrow> n = m"
  using pad_dec_less [of n w m] pad_dec_less [of m w n] by (metis less_asym linorder_neqE)+

lemma less_append_prefix: "a @ b < a @ d \<longleftrightarrow> b < (d :: jstr)"
  by (simp add: less_append_same_length)

lemma fields_to_iso_less:
  assumes f: "well_formed_fields f" and g: "well_formed_fields g" and less: "fields_less f g"
  shows "fields_to_iso f < fields_to_iso g"
proof -
  have b: "0 \<le> f_year h" "f_year h < 10 ^ 4" "0 \<le> f_month h" "f_month h < 10 ^ 2"
    "0 \<le> f_day h" "f_day h < 10 ^ 2" "0 \<le> f_hour h" "f_hour h < 10 ^ 2"
    "0 \<le> f_minute h" "f_minute h < 10 ^ 2" "0 \<le> f_second h" "f_second h < 10 ^ 2"
    "0 \<le> f_ms h" "f_ms h < 10 ^ 3" if "well_formed_fields h" for h
    using that by (simp_all add: well_formed_fields_def)
  note pads = pad_dec_less_iff [OF b(1,2) [OF f] b(1,2) [OF g]] pad_dec_less_iff [OF b(3,4) [OF f] b(3,4) [OF g]]
    pad_dec_less_iff [OF b(5,6) [OF f] b(5,6) [OF g]] pad_dec_less_iff [OF b(7,8) [OF f] b(7,8) [OF g]]
    pad_dec_less_iff [OF b(9,10) [OF f] b(9,10) [OF g]] pad_dec_less_iff [OF b(11,12) [OF f] b(11,12) [OF g]]
    pad_dec_less_iff [OF b(13,14) [OF f] b(13,14) [OF g]]
  have y: "0 \<le> f_year h \<and> f_year h \<le> 9999" if "well_formed_fields h" for h
    using that by (simp add: well_formed_fields_def)
  show ?thesis
    using less unfolding fields_less_def fields_to_iso_def
    by (simp only: y [OF f] y [OF g] if_True append_assoc less_append_same_length length_pad_dec
        less_append_prefix pads refl simp_thms less_irrefl)
qed

theorem to_iso_less_iff:
  "in_iso_range t \<Longrightarrow> in_iso_range u \<Longrightarrow> to_iso t < to_iso u \<longleftrightarrow> t < u"
  using fields_to_iso_less [OF well_formed_fields_of well_formed_fields_of fields_of_less]
  unfolding to_iso_def by (metis less_asym linorder_neqE)

theorem to_iso_inject [simp]:
  "in_iso_range t \<Longrightarrow> in_iso_range u \<Longrightarrow> to_iso t = to_iso u \<longleftrightarrow> t = u"
  using to_iso_less_iff by (metis less_irrefl linorder_neqE)

end
