(* ===== verification/JsNumber.thy ===== *)
theory JsNumber
  imports JsDate
begin

text \<open>
  Numbers read from text: \<^verbatim>\<open>Number(string)\<close> of the language, rounding to the nearest double
  included, and the digit strings \<^verbatim>\<open>/^\d+$/\<close> the program converts to counts.
\<close>

section \<open>Rounding to a double\<close>

definition pow2 :: "int \<Rightarrow> rat" where
  "pow2 e = (if 0 \<le> e then 2 ^ nat e else 1 / 2 ^ nat (- e))"

function bit_length :: "int \<Rightarrow> int" where
  "bit_length n = (if n \<le> 0 then 0 else 1 + bit_length (n div 2))"
  by auto
termination by (relation "measure nat") auto

declare bit_length.simps [simp del]

text \<open>The binary exponent of a positive rational: \<open>pow2 e \<le> r < pow2 (e + 1)\<close>.\<close>

definition exponent_of :: "rat \<Rightarrow> int" where
  "exponent_of r = (let (a, b) = quotient_of r;
                        e = bit_length a - bit_length b
                    in if pow2 e \<le> r then e else e - 1)"

definition round_even :: "rat \<Rightarrow> int" where
  "round_even q = (let n = \<lfloor>q\<rfloor>; d = q - of_int n in
     if d < 1 / 2 then n else if d > 1 / 2 then n + 1 else if even n then n else n + 1)"

definition round_double :: "rat \<Rightarrow> jnum" where
  "round_double r =
     (if r = 0 then Fin 0
      else let e = max (exponent_of \<bar>r\<bar>) (-1022);
               ulp = pow2 (e - 52);
               m = of_int (round_even (\<bar>r\<bar> / ulp)) * ulp
           in if m \<ge> pow2 1024 then (if r > 0 then PInf else NInf)
              else Fin (if r > 0 then m else - m))"

section \<open>Digit strings\<close>

definition digit_value :: "unit16 \<Rightarrow> int" where
  "digit_value c = int (unat c) - 48"

definition digits_value :: "jstr \<Rightarrow> int" where
  "digits_value s = foldl (\<lambda>n c. 10 * n + digit_value c) 0 s"

definition is_digits :: "jstr \<Rightarrow> bool" where
  "is_digits s \<longleftrightarrow> s \<noteq> [] \<and> list_all is_digit s"

lemma digit_value_bounds: "is_digit c \<Longrightarrow> 0 \<le> digit_value c \<and> digit_value c \<le> 9"
  unfolding is_digit_def digit_value_def by linarith

lemma digits_fold_nonneg:
  "list_all is_digit s \<Longrightarrow> 0 \<le> n \<Longrightarrow> 0 \<le> foldl (\<lambda>n c. 10 * n + digit_value c) n s"
proof (induction s arbitrary: n)
  case Nil
  then show ?case by simp
next
  case (Cons c s)
  then have "0 \<le> 10 * n + digit_value c" using digit_value_bounds [of c] by auto
  with Cons show ?case by simp
qed

lemma digits_value_nonneg: "list_all is_digit s \<Longrightarrow> 0 \<le> digits_value s"
  by (simp add: digits_value_def digits_fold_nonneg)

text \<open>
  The pattern \<^verbatim>\<open>/^\d+$/.test(v)\<close>, \<^verbatim>\<open>Number(v)\<close>, \<^verbatim>\<open>Number.isSafeInteger\<close>. Rounding is monotone and
  exact up to \<open>max_safe + 1\<close>, so the safety test on the rounded value is the one on the exact
  value of the digits.
\<close>

definition safe_digits :: "jstr \<Rightarrow> int option" where
  "safe_digits s = (if is_digits s \<and> digits_value s \<le> max_safe then Some (digits_value s) else None)"

lemma safe_digits_Some_iff:
  "safe_digits s = Some n \<longleftrightarrow> is_digits s \<and> n = digits_value s \<and> n \<le> max_safe"
  by (auto simp: safe_digits_def)

lemma safe_digits_bounds: "safe_digits s = Some n \<Longrightarrow> 0 \<le> n \<and> n \<le> max_safe"
  by (auto simp: safe_digits_Some_iff is_digits_def digits_value_nonneg)

text \<open>Digit strings written: an integer in a template string, or \<^verbatim>\<open>String(n)\<close>.\<close>

function dec_string :: "int \<Rightarrow> jstr" where
  "dec_string n = (if n < 10 then [digit_unit n]
                   else dec_string (n div 10) @ [digit_unit (n mod 10)])"
  by auto
termination by (relation "measure nat") auto

declare dec_string.simps [simp del]

definition int_string :: "int \<Rightarrow> jstr" where
  "int_string n = (if n < 0 then lit ''-'' @ dec_string (- n) else dec_string n)"

lemma digit_unit_digit:
  assumes "0 \<le> k" "k \<le> 9"
  shows "is_digit (digit_unit k)" "digit_value (digit_unit k) = k"
proof -
  have "int (unat (digit_unit k)) = 48 + k"
    using uint_digit_unit [OF assms] by (simp only: uint_nat)
  then show "is_digit (digit_unit k)" "digit_value (digit_unit k) = k"
    using assms unfolding is_digit_def digit_value_def by linarith+
qed

lemma digits_value_snoc [simp]: "digits_value (s @ [c]) = 10 * digits_value s + digit_value c"
  by (simp add: digits_value_def)

lemma dec_string_digits: "0 \<le> n \<Longrightarrow> is_digits (dec_string n) \<and> digits_value (dec_string n) = n"
proof (induction n rule: dec_string.induct)
  case (1 n)
  show ?case
  proof (cases "n < 10")
    case True
    then have "dec_string n = [digit_unit n]" by (simp add: dec_string.simps)
    then show ?thesis using True 1(2) digit_unit_digit [of n]
      by (simp add: is_digits_def digits_value_def)
  next
    case False
    then have eq: "dec_string n = dec_string (n div 10) @ [digit_unit (n mod 10)]"
      by (subst dec_string.simps) simp
    have ih: "is_digits (dec_string (n div 10)) \<and> digits_value (dec_string (n div 10)) = n div 10"
      using 1 False by simp
    have "10 * (n div 10) + n mod 10 = n" by simp
    then show ?thesis using ih digit_unit_digit [of "n mod 10"] unfolding eq
      by (simp add: is_digits_def)
  qed
qed

lemma dec_string_inject: "0 \<le> n \<Longrightarrow> 0 \<le> m \<Longrightarrow> dec_string n = dec_string m \<longleftrightarrow> n = m"
  using dec_string_digits by metis

section \<open>Number(string)\<close>

definition starts_with :: "jstr \<Rightarrow> jstr \<Rightarrow> bool" where
  "starts_with s p \<longleftrightarrow> take (length p) s = p"

definition radix_digit :: "unit16 \<Rightarrow> int option" where
  "radix_digit c = (let n = int (unat c) in
     if 48 \<le> n \<and> n \<le> 57 then Some (n - 48)
     else if 65 \<le> n \<and> n \<le> 90 then Some (n - 55)
     else if 97 \<le> n \<and> n \<le> 122 then Some (n - 87) else None)"

fun radix_value :: "int \<Rightarrow> int \<Rightarrow> jstr \<Rightarrow> int option" where
  "radix_value b n [] = Some n"
| "radix_value b n (c # s) = (case radix_digit c of
     Some d \<Rightarrow> if d < b then radix_value b (b * n + d) s else None | None \<Rightarrow> None)"

definition radix_number :: "int \<Rightarrow> jstr \<Rightarrow> jnum" where
  "radix_number b s = (if s = [] then NaN else case radix_value b 0 s of
     Some n \<Rightarrow> round_double (of_int n) | None \<Rightarrow> NaN)"

text \<open>An optional sign and decimal digits after \<^verbatim>\<open>e\<close>; \<open>None\<close> when malformed.\<close>

definition exponent_part :: "jstr \<Rightarrow> int option" where
  "exponent_part s = (case s of
     [] \<Rightarrow> Some 0
   | c # t \<Rightarrow>
       if c \<noteq> 101 \<and> c \<noteq> 69 then None
       else (case t of
           [] \<Rightarrow> None
         | d # u \<Rightarrow>
             if d = 45 then (if is_digits u then Some (- digits_value u) else None)
             else if d = 43 then (if is_digits u then Some (digits_value u) else None)
             else if is_digits t then Some (digits_value t) else None))"

text \<open>An unsigned decimal literal \<^verbatim>\<open>12\<close>, \<^verbatim>\<open>12.\<close>, \<^verbatim>\<open>.5\<close>, \<^verbatim>\<open>12.5e-3\<close>, or \<^verbatim>\<open>Infinity\<close>.\<close>

definition decimal_value :: "jstr \<Rightarrow> rat option" where
  "decimal_value s =
     (let whole = takeWhile is_digit s;
          r = dropWhile is_digit s;
          frac = (case r of c # t \<Rightarrow> if c = 46 then takeWhile is_digit t else [] | [] \<Rightarrow> []);
          ex = (case r of c # t \<Rightarrow> if c = 46 then dropWhile is_digit t else r | [] \<Rightarrow> [])
      in if whole = [] \<and> frac = [] then None
         else case exponent_part ex of
             None \<Rightarrow> None
           | Some e \<Rightarrow>
               let m = of_int (digits_value (whole @ frac)); k = e - int (length frac) in
               Some (if 0 \<le> k then m * 10 ^ nat k else m / 10 ^ nat (- k)))"

definition unsigned_number :: "bool \<Rightarrow> jstr \<Rightarrow> jnum" where
  "unsigned_number neg s =
     (if s = lit ''Infinity'' then (if neg then NInf else PInf)
      else case decimal_value s of
          None \<Rightarrow> NaN | Some r \<Rightarrow> round_double (if neg then - r else r))"

definition string_to_number :: "jstr \<Rightarrow> jnum" where
  "string_to_number str = (let s = trim str in
     if s = [] then Fin 0
     else if starts_with s (lit ''0x'') \<or> starts_with s (lit ''0X'') then radix_number 16 (drop 2 s)
     else if starts_with s (lit ''0o'') \<or> starts_with s (lit ''0O'') then radix_number 8 (drop 2 s)
     else if starts_with s (lit ''0b'') \<or> starts_with s (lit ''0B'') then radix_number 2 (drop 2 s)
     else if hd s = 45 then unsigned_number True (tl s)
     else if hd s = 43 then unsigned_number False (tl s)
     else unsigned_number False s)"

text \<open>\<^verbatim>\<open>Number(process.env[name])\<close>: an unset variable is \<^verbatim>\<open>undefined\<close>, and \<^verbatim>\<open>Number(undefined)\<close> is \<^verbatim>\<open>NaN\<close>.\<close>

definition env_number :: "(string \<Rightarrow> jstr option) \<Rightarrow> string \<Rightarrow> jnum" where
  "env_number env name = (case env name of None \<Rightarrow> NaN | Some s \<Rightarrow> string_to_number s)"

text \<open>\<^verbatim>\<open>Math.min(hi, Math.max(lo, Math.floor(value)))\<close> when \<^verbatim>\<open>value\<close> is finite, a fallback otherwise.\<close>

definition clamp_floor :: "int \<Rightarrow> int \<Rightarrow> int \<Rightarrow> jnum \<Rightarrow> int" where
  "clamp_floor fallback lo hi v = (case v of Fin r \<Rightarrow> min hi (max lo \<lfloor>r\<rfloor>) | _ \<Rightarrow> fallback)"

lemma clamp_floor_bounds:
  "lo \<le> hi \<Longrightarrow> lo \<le> fallback \<Longrightarrow> fallback \<le> hi \<Longrightarrow>
   lo \<le> clamp_floor fallback lo hi v \<and> clamp_floor fallback lo hi v \<le> hi"
  by (auto simp: clamp_floor_def split: jnum.splits)

end
