(* ===== verification/WorkerRegistry.thy ===== *)
theory WorkerRegistry
  imports JsNumber "HOL-Library.AList"
begin

text \<open>
  The in-process worker registry (lib/core/worker-registry.ts) and the error classes it keeps
  (lib/core/error-class.ts). The \<^verbatim>\<open>Map\<close> kept on \<^verbatim>\<open>globalThis\<close> is an association list in insertion
  order; every operation takes the registry and, where the code reads \<^verbatim>\<open>Date.now()\<close>, the time in
  milliseconds. Counters are exact integers, as the code's are below \<open>2^53\<close>.
\<close>

section \<open>Error classes\<close>

text \<open>A caught value: an \<^verbatim>\<open>Error\<close> with its \<^verbatim>\<open>name\<close>, or anything else.\<close>

datatype caught = ErrorNamed jstr | NotAnError

definition is_alpha :: "unit16 \<Rightarrow> bool" where
  "is_alpha c \<longleftrightarrow> (65 \<le> unat c \<and> unat c \<le> 90) \<or> (97 \<le> unat c \<and> unat c \<le> 122)"

definition is_word_unit :: "unit16 \<Rightarrow> bool" where
  "is_word_unit c \<longleftrightarrow> is_alpha c \<or> is_digit c \<or> unat c = 95"

definition is_class_name :: "jstr \<Rightarrow> bool" where
  "is_class_name s \<longleftrightarrow>
     s \<noteq> [] \<and> is_alpha (hd s) \<and> length s \<le> 64 \<and> list_all is_word_unit (tl s)"

definition errorClass :: "caught \<Rightarrow> jstr" where
  "errorClass e = (case e of
     NotAnError \<Rightarrow> lit ''UnknownError''
   | ErrorNamed n \<Rightarrow>
       let name = (if n = [] then lit ''Error'' else n)
       in if is_class_name name then name else lit ''Error'')"

text \<open>Whatever was thrown, the kept class is an identifier of at most 64 units.\<close>

lemma errorClass_bounded: "is_class_name (errorClass e)"
proof -
  have "is_class_name (lit ''UnknownError'')" "is_class_name (lit ''Error'')" by code_simp+
  then show ?thesis by (simp add: errorClass_def Let_def split: caught.split)
qed

section \<open>The registry\<close>

definition EXPECTED_WORKER_NAMES :: "jstr list" where
  "EXPECTED_WORKER_NAMES =
     [lit ''newsletter-sender'', lit ''newsletter-events'', lit ''system-events'']"

record queue_telemetry =
  visible :: "int option"
  notVisible :: "int option"
  delayed :: "int option"
  sampledAt :: "int option"

record stored_worker =
  workerName :: jstr
  lastHeartbeat :: "int option"
  alive :: bool
  startedAt :: "jstr option"
  received :: int
  acked :: int
  failed :: int
  consecutiveErrors :: int
  lastMessageAt :: "int option"
  lastMessageAgeMs :: "int option"
  processing :: bool
  processingCount :: int
  processingStartedAt :: "int option"
  processingDeadlineAt :: "int option"
  queue :: queue_telemetry
  telemetryErrorClass :: "jstr option"

type_synonym registry = "(jstr \<times> stored_worker) list"

definition emptyQueue :: queue_telemetry where
  "emptyQueue = \<lparr>visible = None, notVisible = None, delayed = None, sampledAt = None\<rparr>"

text \<open>\<^verbatim>\<open>const entry = getRegistry().get(name); if (!entry) return\<close>, then the entry is mutated.\<close>

definition with_entry :: "jstr \<Rightarrow> (stored_worker \<Rightarrow> stored_worker) \<Rightarrow> registry \<Rightarrow> registry" where
  "with_entry n f reg = (case map_of reg n of None \<Rightarrow> reg | Some w \<Rightarrow> AList.update n (f w) reg)"

text \<open>\<^verbatim>\<open>safeCount\<close>, \<^verbatim>\<open>boundedProcessingDeadline\<close>, \<^verbatim>\<open>nullableCount\<close> and \<^verbatim>\<open>finiteTimestamp\<close>.\<close>

definition safeCount :: "jnum option \<Rightarrow> int" where
  "safeCount v = (case v of Some (Fin r) \<Rightarrow> max 0 \<lfloor>r\<rfloor> | _ \<Rightarrow> 0)"

definition boundedProcessingDeadline :: "jnum \<Rightarrow> int" where
  "boundedProcessingDeadline v = clamp_floor 30000 1 (12 * 60 * 60000) v"

definition nullableCount :: "jnum option \<Rightarrow> int option" where
  "nullableCount v = (case v of None \<Rightarrow> None | Some x \<Rightarrow> Some (safeCount (Some x)))"

definition finiteTimestamp :: "jnum option \<Rightarrow> int option" where
  "finiteTimestamp v = (case v of Some (Fin r) \<Rightarrow> if 0 \<le> r then Some \<lfloor>r\<rfloor> else None | _ \<Rightarrow> None)"

definition fresh_worker :: "int \<Rightarrow> jstr \<Rightarrow> stored_worker" where
  "fresh_worker now n = \<lparr>workerName = n, lastHeartbeat = None, alive = False,
     startedAt = Some (to_iso now), received = 0, acked = 0, failed = 0, consecutiveErrors = 0,
     lastMessageAt = None, lastMessageAgeMs = None,
     processing = False, processingCount = 0, processingStartedAt = None,
     processingDeadlineAt = None, queue = emptyQueue, telemetryErrorClass = None\<rparr>"

definition registerWorker :: "int \<Rightarrow> jstr \<Rightarrow> registry \<Rightarrow> registry" where
  "registerWorker now n reg = AList.update n (fresh_worker now n) reg"

definition heartbeat :: "int \<Rightarrow> jstr \<Rightarrow> registry \<Rightarrow> registry" where
  "heartbeat now n = with_entry n (\<lambda>w. w\<lparr>lastHeartbeat := Some now, alive := True\<rparr>)"

definition or_else :: "'a option \<Rightarrow> 'a \<Rightarrow> 'a" where
  "or_else v d = (case v of Some x \<Rightarrow> x | None \<Rightarrow> d)"

definition beginWorkerProcessing :: "int \<Rightarrow> jstr \<Rightarrow> jnum \<Rightarrow> registry \<Rightarrow> registry" where
  "beginWorkerProcessing now n deadline = with_entry n (\<lambda>w. w\<lparr>
     processingCount := processingCount w + 1,
     processing := True,
     processingStartedAt := Some (or_else (processingStartedAt w) now),
     processingDeadlineAt := Some (max (or_else (processingDeadlineAt w) 0)
                                       (now + boundedProcessingDeadline deadline))\<rparr>)"

definition endWorkerProcessing :: "jstr \<Rightarrow> registry \<Rightarrow> registry" where
  "endWorkerProcessing n = with_entry n (\<lambda>w.
     let w1 = w\<lparr>processingCount := max 0 (processingCount w - 1)\<rparr> in
     if processingCount w1 > 0 then w1
     else w1\<lparr>processing := False, processingStartedAt := None, processingDeadlineAt := None\<rparr>)"

text \<open>The update object: an absent field is \<open>None\<close>; \<^verbatim>\<open>lastMessageAgeMs\<close> may also be present and null.\<close>

record processing_update =
  upd_received :: "jnum option"
  upd_acked :: "jnum option"
  upd_failed :: "jnum option"
  upd_consecutiveErrors :: "jnum option"
  upd_lastMessageAgeMs :: "jnum option option"

definition batch_recorded :: "int \<Rightarrow> processing_update \<Rightarrow> stored_worker \<Rightarrow> stored_worker" where
  "batch_recorded now u w = (
     let w1 = w\<lparr>received := received w + safeCount (upd_received u),
                acked := acked w + safeCount (upd_acked u),
                failed := failed w + safeCount (upd_failed u)\<rparr>;
         w2 = (if upd_consecutiveErrors u \<noteq> None
               then w1\<lparr>consecutiveErrors := safeCount (upd_consecutiveErrors u)\<rparr> else w1)
     in case upd_lastMessageAgeMs u of
          None \<Rightarrow> w2
        | Some None \<Rightarrow> w2\<lparr>lastMessageAgeMs := None\<rparr>
        | Some (Some age) \<Rightarrow>
            w2\<lparr>lastMessageAt := Some now, lastMessageAgeMs := Some (safeCount (Some age))\<rparr>)"

definition recordWorkerProcessing :: "int \<Rightarrow> jstr \<Rightarrow> processing_update \<Rightarrow> registry \<Rightarrow> registry" where
  "recordWorkerProcessing now n u = with_entry n (batch_recorded now u)"

definition recordQueueTelemetry ::
  "jstr \<Rightarrow> jnum option \<Rightarrow> jnum option \<Rightarrow> jnum option \<Rightarrow> jnum option \<Rightarrow> registry \<Rightarrow> registry" where
  "recordQueueTelemetry n v nv d smp = with_entry n (\<lambda>w. w\<lparr>
     queue := \<lparr>visible = nullableCount v, notVisible = nullableCount nv,
               delayed = nullableCount d, sampledAt = finiteTimestamp smp\<rparr>,
     telemetryErrorClass := None\<rparr>)"

definition recordTelemetryError :: "jstr \<Rightarrow> caught \<Rightarrow> registry \<Rightarrow> registry" where
  "recordTelemetryError n e = with_entry n (\<lambda>w. w\<lparr>telemetryErrorClass := Some (errorClass e)\<rparr>)"

definition markWorkerDead :: "jstr \<Rightarrow> caught \<Rightarrow> registry \<Rightarrow> registry" where
  "markWorkerDead n e = with_entry n (\<lambda>w. w\<lparr>alive := False, telemetryErrorClass := Some (errorClass e)\<rparr>)"

text \<open>The staleness \<^verbatim>\<open>getWorkerStatuses\<close> computes for one entry, and the snapshot itself.\<close>

definition worker_stale :: "int \<Rightarrow> int \<Rightarrow> stored_worker \<Rightarrow> bool" where
  "worker_stale now threshold w =
     (if processing w
      then (case processingDeadlineAt w of None \<Rightarrow> True | Some d \<Rightarrow> d \<le> now)
      else (case lastHeartbeat w of None \<Rightarrow> True | Some h \<Rightarrow> threshold \<le> now - h))"

definition getWorkerStatuses :: "int \<Rightarrow> jnum \<Rightarrow> registry \<Rightarrow> (stored_worker \<times> bool) list" where
  "getWorkerStatuses now staleMs reg =
     (let threshold = max 1 (safeCount (Some staleMs))
      in map (\<lambda>(n, w). (w, worker_stale now threshold w)) reg)"

lemmas registry_ops = registerWorker_def heartbeat_def beginWorkerProcessing_def
  endWorkerProcessing_def recordWorkerProcessing_def recordQueueTelemetry_def
  recordTelemetryError_def markWorkerDead_def

section \<open>Lookups after an operation\<close>

lemma batch_recorded_other [simp]:
  "processing (batch_recorded now u w) = processing w"
  "processingCount (batch_recorded now u w) = processingCount w"
  "processingStartedAt (batch_recorded now u w) = processingStartedAt w"
  "processingDeadlineAt (batch_recorded now u w) = processingDeadlineAt w"
  "workerName (batch_recorded now u w) = workerName w"
  "lastHeartbeat (batch_recorded now u w) = lastHeartbeat w"
  "alive (batch_recorded now u w) = alive w"
  "queue (batch_recorded now u w) = queue w"
  "telemetryErrorClass (batch_recorded now u w) = telemetryErrorClass w"
  by (simp_all add: batch_recorded_def Let_def split: option.split)

lemma map_of_with_entry:
  "map_of (with_entry n f reg) k = (if k = n then map_option f (map_of reg n) else map_of reg k)"
  by (auto simp: with_entry_def update_conv' split: option.split)

lemma keys_with_entry [simp]: "map fst (with_entry n f reg) = map fst reg"
proof (cases "map_of reg n")
  case (Some w)
  then have "n \<in> fst ` set reg" by (force dest: map_of_SomeD)
  with Some show ?thesis by (simp add: with_entry_def update_keys)
qed (simp add: with_entry_def)

lemma map_of_registerWorker [simp]:
  "map_of (registerWorker now n reg) k = (if k = n then Some (fresh_worker now n) else map_of reg k)"
  by (simp add: registerWorker_def update_conv')

text \<open>The operations as data, so that a history of the registry is a list.\<close>

datatype reg_op =
    Register jstr
  | Heartbeat jstr
  | BeginBatch jstr jnum
  | EndBatch jstr
  | RecordBatch jstr processing_update
  | RecordQueue jstr "jnum option" "jnum option" "jnum option" "jnum option"
  | RecordError jstr caught
  | MarkDead jstr caught

fun apply_op :: "int \<times> reg_op \<Rightarrow> registry \<Rightarrow> registry" where
  "apply_op (now, Register n) = registerWorker now n"
| "apply_op (now, Heartbeat n) = heartbeat now n"
| "apply_op (now, BeginBatch n d) = beginWorkerProcessing now n d"
| "apply_op (now, EndBatch n) = endWorkerProcessing n"
| "apply_op (now, RecordBatch n u) = recordWorkerProcessing now n u"
| "apply_op (now, RecordQueue n v nv d smp) = recordQueueTelemetry n v nv d smp"
| "apply_op (now, RecordError n e) = recordTelemetryError n e"
| "apply_op (now, MarkDead n e) = markWorkerDead n e"

definition run_ops :: "(int \<times> reg_op) list \<Rightarrow> registry \<Rightarrow> registry" where
  "run_ops ops reg = fold apply_op ops reg"

lemma run_ops_simps [simp]:
  "run_ops [] reg = reg"
  "run_ops (x # ops) reg = run_ops ops (apply_op x reg)"
  by (simp_all add: run_ops_def)

section \<open>Invariant\<close>

text \<open>
  Busy state is one fact told four ways: the flag, the count, the start and the deadline.
  Counters never go negative, and nothing but a bounded class name survives of an error.
\<close>

definition worker_ok :: "stored_worker \<Rightarrow> bool" where
  "worker_ok w \<longleftrightarrow>
     0 \<le> processingCount w \<and> (processing w \<longleftrightarrow> 0 < processingCount w)
     \<and> (processing w \<longleftrightarrow> processingStartedAt w \<noteq> None)
     \<and> (processing w \<longleftrightarrow> processingDeadlineAt w \<noteq> None)
     \<and> 0 \<le> received w \<and> 0 \<le> acked w \<and> 0 \<le> failed w \<and> 0 \<le> consecutiveErrors w
     \<and> pred_option is_class_name (telemetryErrorClass w)
     \<and> pred_option (\<lambda>n. 0 \<le> n) (visible (queue w))
     \<and> pred_option (\<lambda>n. 0 \<le> n) (notVisible (queue w))
     \<and> pred_option (\<lambda>n. 0 \<le> n) (delayed (queue w))
     \<and> pred_option (\<lambda>n. 0 \<le> n) (sampledAt (queue w))
     \<and> pred_option (\<lambda>n. 0 \<le> n) (lastMessageAgeMs w)"

definition registry_ok :: "registry \<Rightarrow> bool" where
  "registry_ok reg \<longleftrightarrow>
     distinct (map fst reg) \<and> (\<forall>n w. map_of reg n = Some w \<longrightarrow> workerName w = n \<and> worker_ok w)"

lemma safeCount_nonneg [simp]: "0 \<le> safeCount v"
  by (auto simp: safeCount_def split: option.split jnum.split)

lemma nullableCount_nonneg [simp]: "pred_option (\<lambda>n. 0 \<le> n) (nullableCount v)"
  by (auto simp: nullableCount_def split: option.split)

lemma finiteTimestamp_nonneg [simp]: "pred_option (\<lambda>n. 0 \<le> n) (finiteTimestamp v)"
  by (auto simp: finiteTimestamp_def split: option.split jnum.split)

lemma registry_ok_with_entry:
  assumes "registry_ok reg"
    and "\<And>w. map_of reg n = Some w \<Longrightarrow> worker_ok w \<Longrightarrow> worker_ok (f w) \<and> workerName (f w) = workerName w"
  shows "registry_ok (with_entry n f reg)"
  using assms by (auto simp: registry_ok_def map_of_with_entry split: if_splits)

lemma registerWorker_ok: "registry_ok reg \<Longrightarrow> registry_ok (registerWorker now n reg)"
proof -
  have "worker_ok (fresh_worker now n)" "workerName (fresh_worker now n) = n"
    by (simp_all add: worker_ok_def fresh_worker_def emptyQueue_def)
  moreover assume "registry_ok reg"
  ultimately show ?thesis
    by (simp add: registry_ok_def registerWorker_def update_conv' distinct_update)
qed

lemma heartbeat_ok: "registry_ok reg \<Longrightarrow> registry_ok (heartbeat now n reg)"
  unfolding heartbeat_def by (rule registry_ok_with_entry) (auto simp: worker_ok_def)

lemma beginWorkerProcessing_ok: "registry_ok reg \<Longrightarrow> registry_ok (beginWorkerProcessing now n d reg)"
  unfolding beginWorkerProcessing_def by (rule registry_ok_with_entry) (auto simp: worker_ok_def)

lemma endWorkerProcessing_ok: "registry_ok reg \<Longrightarrow> registry_ok (endWorkerProcessing n reg)"
  unfolding endWorkerProcessing_def
  by (rule registry_ok_with_entry) (auto simp: worker_ok_def Let_def)

lemma recordWorkerProcessing_ok: "registry_ok reg \<Longrightarrow> registry_ok (recordWorkerProcessing now n u reg)"
  unfolding recordWorkerProcessing_def
  by (rule registry_ok_with_entry)
    (auto simp: worker_ok_def, auto simp: batch_recorded_def Let_def split: option.split)

lemma recordQueueTelemetry_ok:
  "registry_ok reg \<Longrightarrow> registry_ok (recordQueueTelemetry n v nv d smp reg)"
  unfolding recordQueueTelemetry_def by (rule registry_ok_with_entry) (auto simp: worker_ok_def)

lemma recordTelemetryError_ok: "registry_ok reg \<Longrightarrow> registry_ok (recordTelemetryError n e reg)"
  unfolding recordTelemetryError_def
  by (rule registry_ok_with_entry) (auto simp: worker_ok_def errorClass_bounded)

lemma markWorkerDead_ok: "registry_ok reg \<Longrightarrow> registry_ok (markWorkerDead n e reg)"
  unfolding markWorkerDead_def
  by (rule registry_ok_with_entry) (auto simp: worker_ok_def errorClass_bounded)

lemmas registry_ok_ops = registerWorker_ok heartbeat_ok beginWorkerProcessing_ok
  endWorkerProcessing_ok recordWorkerProcessing_ok recordQueueTelemetry_ok
  recordTelemetryError_ok markWorkerDead_ok

lemma apply_op_ok: "registry_ok reg \<Longrightarrow> registry_ok (apply_op x reg)"
  by (cases x rule: apply_op.cases) (simp_all add: registry_ok_ops)

lemma run_ops_ok: "registry_ok reg \<Longrightarrow> registry_ok (run_ops ops reg)"
  by (induction ops arbitrary: reg) (simp_all add: apply_op_ok)

lemma registry_ok_empty [simp]: "registry_ok []"
  by (simp add: registry_ok_def)

section \<open>Busy workers\<close>

text \<open>
  The number of batches of \<open>n\<close> in flight as its overlapping pollers count them: only a begin,
  an end or a registration of the same name touches it; a registration starts again from zero.
\<close>

fun count_after :: "jstr \<Rightarrow> reg_op \<Rightarrow> int \<Rightarrow> int" where
  "count_after n (Register m) k = (if m = n then 0 else k)"
| "count_after n (BeginBatch m d) k = (if m = n then k + 1 else k)"
| "count_after n (EndBatch m) k = (if m = n then max 0 (k - 1) else k)"
| "count_after n _ k = k"

definition in_flight :: "jstr \<Rightarrow> (int \<times> reg_op) list \<Rightarrow> int \<Rightarrow> int" where
  "in_flight n ops k = fold (\<lambda>x. count_after n (snd x)) ops k"

text \<open>No point of the history at which every batch of \<open>n\<close> has ended.\<close>

fun stays_busy :: "jstr \<Rightarrow> (int \<times> reg_op) list \<Rightarrow> int \<Rightarrow> bool" where
  "stays_busy n [] k = (0 < k)"
| "stays_busy n (x # ops) k = (0 < k \<and> stays_busy n ops (count_after n (snd x) k))"

lemma stays_busy_pos: "stays_busy n ops k \<Longrightarrow> 0 < k"
  by (cases ops) auto

lemma stays_busy_in_flight: "stays_busy n ops k \<Longrightarrow> 0 < in_flight n ops k"
  by (induction ops arbitrary: k) (auto simp: in_flight_def)

lemma apply_op_count:
  assumes "map_of reg n = Some w"
  shows "\<exists>w'. map_of (apply_op (t, op) reg) n = Some w'
              \<and> processingCount w' = count_after n op (processingCount w)"
  using assms by (cases op) (auto simp: registry_ops map_of_with_entry update_conv' fresh_worker_def Let_def)

lemma run_ops_count:
  "map_of reg n = Some w \<Longrightarrow>
   \<exists>w'. map_of (run_ops ops reg) n = Some w' \<and> processingCount w' = in_flight n ops (processingCount w)"
proof (induction ops arbitrary: reg w)
  case Nil
  then show ?case by (simp add: in_flight_def)
next
  case (Cons x ops)
  obtain w1 where w1: "map_of (apply_op x reg) n = Some w1"
      "processingCount w1 = count_after n (snd x) (processingCount w)"
    using apply_op_count [OF Cons.prems, of "fst x" "snd x"] by auto
  from Cons.IH [OF w1(1)] w1(2) show ?case by (simp add: in_flight_def)
qed

text \<open>While some batch of \<open>n\<close> is in flight, the deadline only moves forward.\<close>

lemma apply_op_deadline:
  assumes "map_of reg n = Some w" "processingDeadlineAt w = Some d"
    and "0 < count_after n op (processingCount w)"
  shows "\<exists>w' d'. map_of (apply_op (t, op) reg) n = Some w' \<and> processingDeadlineAt w' = Some d' \<and> d \<le> d'"
  using assms by (cases op) (auto simp: registry_ops map_of_with_entry update_conv' fresh_worker_def Let_def
       or_else_def split: if_splits)

lemma run_ops_deadline:
  "\<lbrakk>map_of reg n = Some w; processingDeadlineAt w = Some d; stays_busy n ops (processingCount w)\<rbrakk>
   \<Longrightarrow> \<exists>w' d'. map_of (run_ops ops reg) n = Some w' \<and> processingDeadlineAt w' = Some d' \<and> d \<le> d'"
proof (induction ops arbitrary: reg w d)
  case Nil
  then show ?case by simp
next
  case (Cons x ops)
  have rest: "stays_busy n ops (count_after n (snd x) (processingCount w))" using Cons.prems by simp
  then have pos: "0 < count_after n (snd x) (processingCount w)" by (rule stays_busy_pos)
  obtain w1 d1 where w1: "map_of (apply_op x reg) n = Some w1" "processingDeadlineAt w1 = Some d1" "d \<le> d1"
    using apply_op_deadline [OF Cons.prems(1,2) pos, of "fst x"] by auto
  moreover have "processingCount w1 = count_after n (snd x) (processingCount w)"
    using apply_op_count [OF Cons.prems(1), of "fst x" "snd x"] w1(1) by auto
  ultimately obtain w2 d2 where "map_of (run_ops ops (apply_op x reg)) n = Some w2"
      "processingDeadlineAt w2 = Some d2" "d1 \<le> d2"
    using Cons.IH [OF w1(1,2)] rest by auto
  with w1(3) show ?case by auto
qed

section \<open>Properties\<close>

text \<open>
  After every history of registrations, heartbeats, overlapping batches, telemetry samples
  and failures, the registry holds one entry per name, filed under that name; its busy flag,
  in-flight count, start and deadline agree; all counters are non-negative, and every kept
  error is a bounded class name.
\<close>

theorem registry_history_ok: "registry_ok (run_ops ops [])"
  by (rule run_ops_ok) simp

text \<open>
  Overlapping pollers share one entry. After any history, the in-flight count of a registered
  worker is the number of batches begun and not yet ended since its registration, and it counts
  as busy exactly while that number is positive.
\<close>

theorem busy_iff_batch_in_flight:
  "\<exists>w. map_of (run_ops (pre @ (t, Register n) # ops) []) n = Some w
       \<and> processingCount w = in_flight n ops 0 \<and> (processing w \<longleftrightarrow> 0 < in_flight n ops 0)"
proof -
  let ?reg = "run_ops (pre @ (t, Register n) # ops) []"
  have split: "?reg = run_ops ops (registerWorker t n (run_ops pre []))"
    by (simp add: run_ops_def)
  obtain w where w: "map_of ?reg n = Some w" "processingCount w = in_flight n ops 0"
    using run_ops_count [of "registerWorker t n (run_ops pre [])" n "fresh_worker t n" ops]
    unfolding split by (auto simp: fresh_worker_def)
  moreover have "registry_ok ?reg" by (rule run_ops_ok) simp
  ultimately show ?thesis by (auto simp: registry_ok_def worker_ok_def)
qed

text \<open>
  A worker that keeps some batch in flight is not stale before the visibility deadline of the
  batch it began, whatever else happens to the registry and however old its heartbeat is.
\<close>

theorem busy_worker_not_stale:
  assumes "map_of (run_ops pre []) n = Some w"
    and "stays_busy n ops (processingCount w + 1)"
    and "now < t + boundedProcessingDeadline d"
  shows "\<exists>w'. map_of (run_ops (pre @ (t, BeginBatch n d) # ops) []) n = Some w'
              \<and> \<not> worker_stale now threshold w'"
proof -
  let ?reg = "beginWorkerProcessing t n d (run_ops pre [])"
  have reg: "run_ops (pre @ (t, BeginBatch n d) # ops) [] = run_ops ops ?reg"
    by (simp add: run_ops_def)
  obtain w1 d1 where w1: "map_of ?reg n = Some w1" "processingCount w1 = processingCount w + 1"
      "processingDeadlineAt w1 = Some d1" "t + boundedProcessingDeadline d \<le> d1"
    using assms(1) by (auto simp: beginWorkerProcessing_def map_of_with_entry)
  then obtain w2 d2 where w2: "map_of (run_ops ops ?reg) n = Some w2"
      "processingDeadlineAt w2 = Some d2" "d1 \<le> d2"
    using run_ops_deadline [OF w1(1,3), of ops] assms(2) by auto
  have "worker_ok w2"
    using w2(1) run_ops_ok [OF beginWorkerProcessing_ok [OF run_ops_ok [OF registry_ok_empty]]]
    unfolding registry_ok_def by blast
  then have "processing w2" using w2(2) by (auto simp: worker_ok_def)
  with w1(4) w2 assms(3) show ?thesis unfolding reg by (auto simp: worker_stale_def)
qed

lemma busy_worker_not_stale_witness:
  "\<exists>w'. map_of (run_ops ([(5, Register (lit ''a''))] @ (10, BeginBatch (lit ''a'') NaN)
             # [(20, RecordError (lit ''a'') NotAnError)]) []) (lit ''a'') = Some w'
        \<and> \<not> worker_stale 900 60000 w'"
  by (rule busy_worker_not_stale [where w = "fresh_worker 5 (lit ''a'')"])
    (simp_all add: fresh_worker_def boundedProcessingDeadline_def clamp_floor_def run_ops_def)

end
