(* ===== verification/HealthStatus.thy ===== *)
theory HealthStatus
  imports WorkerRegistry
begin

text \<open>
  Readiness and degradation as computed by lib/core/health-status.ts from the worker registry,
  the environment and the time, with the two projections the health routes return.
\<close>

record health_thresholds =
  workerStaleMs :: int
  telemetryStaleMs :: int
  backlogThreshold :: int
  ageThresholdMs :: int

definition boundedEnv ::
  "(string \<Rightarrow> jstr option) \<Rightarrow> string \<Rightarrow> int \<Rightarrow> int \<Rightarrow> int \<Rightarrow> int" where
  "boundedEnv env n fallback lo hi = clamp_floor fallback lo hi (env_number env n)"

definition healthThresholds :: "(string \<Rightarrow> jstr option) \<Rightarrow> health_thresholds" where
  "healthThresholds env = \<lparr>
     workerStaleMs = boundedEnv env ''HEALTH_WORKER_STALE_MS'' 60000 30000 (5 * 60000),
     telemetryStaleMs = boundedEnv env ''SQS_TELEMETRY_STALE_MS'' 90000 30000 (10 * 60000),
     backlogThreshold = boundedEnv env ''SQS_BACKLOG_DEGRADED_THRESHOLD'' 1000 1 1000000,
     ageThresholdMs = boundedEnv env ''SQS_AGE_DEGRADED_MS'' (15 * 60000) 10000 (24 * 60 * 60000)\<rparr>"

text \<open>A worker of the snapshot: the stored entry with its staleness, or the placeholder for a missing one.\<close>

record health_worker =
  missing :: bool
  hw_entry :: stored_worker
  hw_stale :: bool

definition missingWorker :: "jstr \<Rightarrow> health_worker" where
  "missingWorker n = \<lparr>missing = True,
     hw_entry = \<lparr>workerName = n, lastHeartbeat = None, alive = False, startedAt = None,
       received = 0, acked = 0, failed = 0, consecutiveErrors = 0, lastMessageAt = None,
       lastMessageAgeMs = None, processing = False, processingCount = 0,
       processingStartedAt = None, processingDeadlineAt = None, queue = emptyQueue,
       telemetryErrorClass = None\<rparr>,
     hw_stale = True\<rparr>"

definition sum_queue :: "(queue_telemetry \<Rightarrow> int option) \<Rightarrow> health_worker list \<Rightarrow> int" where
  "sum_queue key ws = foldl (\<lambda>total w. total + or_else (key (queue (hw_entry w))) 0) 0 ws"

record health_snapshot =
  snap_status :: string
  ready :: bool
  degraded :: bool
  snap_timestamp :: jstr
  workers :: "health_worker list"
  snap_visible :: int
  snap_notVisible :: int
  snap_delayed :: int
  oldestObservedAgeMs :: int
  telemetryStale :: bool
  httpStatus :: int

definition snapshot_workers :: "int \<Rightarrow> int \<Rightarrow> registry \<Rightarrow> health_worker list" where
  "snapshot_workers now staleMs reg =
     (let byName = map_of (rev (map (\<lambda>(w, st). (workerName w, (w, st)))
                                   (getWorkerStatuses now (Fin (of_int staleMs)) reg)))
      in map (\<lambda>n. case byName n of
                Some (w, st) \<Rightarrow> \<lparr>missing = False, hw_entry = w, hw_stale = st\<rparr>
              | None \<Rightarrow> missingWorker n) EXPECTED_WORKER_NAMES)"

definition buildHealthSnapshot ::
  "(string \<Rightarrow> jstr option) \<Rightarrow> int \<Rightarrow> registry \<Rightarrow> health_snapshot" where
  "buildHealthSnapshot env now reg =
     (let thr = healthThresholds env;
          ws = snapshot_workers now (workerStaleMs thr) reg;
          rdy = list_all (\<lambda>w. alive (hw_entry w) \<and> \<not> hw_stale w) ws;
          tstale = list_ex (\<lambda>w. case sampledAt (queue (hw_entry w)) of
                     None \<Rightarrow> True | Some s \<Rightarrow> telemetryStaleMs thr \<le> now - s) ws;
          v = sum_queue visible ws;
          nv = sum_queue notVisible ws;
          d = sum_queue delayed ws;
          oldest = foldl max 0 (map (\<lambda>w. or_else (lastMessageAgeMs (hw_entry w)) 0) ws);
          deg = (tstale \<or> backlogThreshold thr \<le> v \<or> backlogThreshold thr \<le> nv
                 \<or> backlogThreshold thr \<le> d \<or> ageThresholdMs thr \<le> oldest)
      in \<lparr>snap_status = (if rdy then (if deg then ''degraded'' else ''ok'') else ''unhealthy''),
          ready = rdy, degraded = deg, snap_timestamp = to_iso now, workers = ws,
          snap_visible = v, snap_notVisible = nv, snap_delayed = d,
          oldestObservedAgeMs = oldest, telemetryStale = tstale,
          httpStatus = (if rdy then 200 else 503)\<rparr>)"

definition publicHealthProjection :: "health_snapshot \<Rightarrow> string \<times> bool \<times> bool \<times> jstr" where
  "publicHealthProjection s = (snap_status s, ready s, degraded s, snap_timestamp s)"

definition detailedHealthProjection ::
  "health_snapshot \<Rightarrow>
   (string \<times> bool \<times> bool \<times> jstr) \<times> health_worker list \<times> (int \<times> int \<times> int \<times> int \<times> bool)" where
  "detailedHealthProjection s =
     ((snap_status s, ready s, degraded s, snap_timestamp s), workers s,
      (snap_visible s, snap_notVisible s, snap_delayed s, oldestObservedAgeMs s, telemetryStale s))"

section \<open>What readiness means\<close>

text \<open>
  The contract of the probe, without thresholds, maps or snapshots: a worker is live when its
  loop is up and its last sign of life is recent enough for what it is doing.
\<close>

definition worker_live :: "int \<Rightarrow> int \<Rightarrow> registry \<Rightarrow> jstr \<Rightarrow> bool" where
  "worker_live now staleMs reg n = (case map_of reg n of
     None \<Rightarrow> False
   | Some w \<Rightarrow> alive w \<and>
       (if 0 < processingCount w then pred_option (\<lambda>d. now < d) (processingDeadlineAt w)
        else \<exists>h. lastHeartbeat w = Some h \<and> now < h + staleMs))"

lemma healthThresholds_bounds:
  "30000 \<le> workerStaleMs (healthThresholds env)" "workerStaleMs (healthThresholds env) \<le> 300000"
  "30000 \<le> telemetryStaleMs (healthThresholds env)"
  "1 \<le> backlogThreshold (healthThresholds env)"
  "10000 \<le> ageThresholdMs (healthThresholds env)"
  by (simp_all add: healthThresholds_def boundedEnv_def clamp_floor_bounds)

lemma registry_ok_names: "registry_ok reg \<Longrightarrow> (m, w) \<in> set reg \<Longrightarrow> workerName w = m"
  by (auto simp: registry_ok_def)

lemma snapshot_by_name:
  assumes "registry_ok reg"
  shows "map_of (rev (map (\<lambda>(w, st). (workerName w, (w, st))) (getWorkerStatuses now ms reg))) n
         = map_option (\<lambda>w. (w, worker_stale now (max 1 (safeCount (Some ms))) w)) (map_of reg n)"
proof -
  let ?t = "max 1 (safeCount (Some ms))"
  let ?ys = "map (\<lambda>(n, w). (n, (w, worker_stale now ?t w))) reg"
  have xs: "map (\<lambda>(w, st). (workerName w, (w, st))) (getWorkerStatuses now ms reg) = ?ys"
    using registry_ok_names [OF assms] by (auto simp: getWorkerStatuses_def Let_def)
  have "map fst ?ys = map fst reg" by auto
  then have "distinct (map fst ?ys)" using assms unfolding registry_ok_def by (simp del: map_map)
  then have "map_of (rev ?ys) = map_of ?ys" by (rule map_of_rev_distinct)
  then show ?thesis unfolding xs by (simp add: map_of_map)
qed

lemma snapshot_workers_eq:
  assumes "registry_ok reg" "1 \<le> ms"
  shows "snapshot_workers now ms reg = map (\<lambda>n. case map_of reg n of
           Some w \<Rightarrow> \<lparr>missing = False, hw_entry = w, hw_stale = worker_stale now ms w\<rparr>
         | None \<Rightarrow> missingWorker n) EXPECTED_WORKER_NAMES"
proof -
  have t: "max 1 (safeCount (Some (Fin (rat_of_int ms)))) = ms"
    using assms(2) by (simp add: safeCount_def)
  show ?thesis
    unfolding snapshot_workers_def Let_def snapshot_by_name [OF assms(1)] t
    by (rule map_cong [OF refl]) (auto split: option.split)
qed

lemma worker_live_eq:
  assumes "registry_ok reg"
  shows "(case map_of reg n of
           Some w \<Rightarrow> alive w \<and> \<not> worker_stale now ms w | None \<Rightarrow> False) = worker_live now ms reg n"
proof (cases "map_of reg n")
  case (Some w)
  then have "worker_ok w" using assms by (simp add: registry_ok_def)
  then show ?thesis
    using Some by (auto simp: worker_live_def worker_stale_def worker_ok_def split: option.splits)
qed (simp add: worker_live_def)

lemma ready_iff_live:
  assumes "registry_ok reg"
  shows "ready (buildHealthSnapshot env now reg) \<longleftrightarrow>
         list_all (worker_live now (workerStaleMs (healthThresholds env)) reg) EXPECTED_WORKER_NAMES"
proof -
  let ?ms = "workerStaleMs (healthThresholds env)"
  have ms: "1 \<le> ?ms" using healthThresholds_bounds(1) [of env] by simp
  have "ready (buildHealthSnapshot env now reg)
        \<longleftrightarrow> list_all (\<lambda>w. alive (hw_entry w) \<and> \<not> hw_stale w) (snapshot_workers now ?ms reg)"
    by (simp add: buildHealthSnapshot_def Let_def)
  also have "\<dots> \<longleftrightarrow> list_all (\<lambda>n. case map_of reg n of
      Some w \<Rightarrow> alive w \<and> \<not> worker_stale now ?ms w | None \<Rightarrow> False) EXPECTED_WORKER_NAMES"
    unfolding snapshot_workers_eq [OF assms ms] list_all_iff
    by (auto simp: missingWorker_def split: option.splits)
  finally show ?thesis by (simp add: worker_live_eq [OF assms])
qed

text \<open>Only the entry of the name itself matters, so operations on it are read off \<open>map_of\<close>.\<close>

lemma worker_live_cong:
  "map_option (\<lambda>w. (alive w, processingCount w, processingDeadlineAt w, lastHeartbeat w)) (map_of reg n)
   = map_option (\<lambda>w. (alive w, processingCount w, processingDeadlineAt w, lastHeartbeat w)) (map_of reg' n)
   \<Longrightarrow> worker_live now ms reg n = worker_live now ms reg' n"
  by (cases "map_of reg n"; cases "map_of reg' n") (auto simp: worker_live_def)

lemma telemetry_keeps_worker_live:
  "worker_live now ms (recordQueueTelemetry m v nv d smp reg) n = worker_live now ms reg n"
  "worker_live now ms (recordTelemetryError m e reg) n = worker_live now ms reg n"
proof -
  show "worker_live now ms (recordQueueTelemetry m v nv d smp reg) n = worker_live now ms reg n"
    by (rule worker_live_cong, cases "map_of reg n")
      (auto simp: recordQueueTelemetry_def map_of_with_entry)
  show "worker_live now ms (recordTelemetryError m e reg) n = worker_live now ms reg n"
    by (rule worker_live_cong, cases "map_of reg n")
      (auto simp: recordTelemetryError_def map_of_with_entry)
qed

section \<open>Properties\<close>

text \<open>
  C19: the health endpoint answers 200 exactly when each of the three expected workers is
  registered, its loop is up, and its last sign of life is recent: before the batch deadline
  while a batch is in flight, within the configured heartbeat age otherwise. It holds after
  every history of the registry and for every environment.
\<close>

theorem health_ok_iff_all_workers_live:
  "httpStatus (buildHealthSnapshot env now (run_ops ops [])) = 200 \<longleftrightarrow>
   list_all (worker_live now (workerStaleMs (healthThresholds env)) (run_ops ops []))
     EXPECTED_WORKER_NAMES"
proof -
  have "registry_ok (run_ops ops [])" by (rule run_ops_ok) simp
  moreover have "httpStatus (buildHealthSnapshot env now reg) = 200
                 \<longleftrightarrow> ready (buildHealthSnapshot env now reg)" for reg
    by (simp add: buildHealthSnapshot_def Let_def)
  ultimately show ?thesis by (simp add: ready_iff_live)
qed

text \<open>
  queue telemetry is isolated from readiness. A sample of the queue depths, or a failed
  sample, never changes the readiness the probe reports; it can only change the degradation.
\<close>

theorem telemetry_never_changes_readiness:
  "ready (buildHealthSnapshot env now (recordQueueTelemetry n v nv d smp (run_ops ops []))) =
   ready (buildHealthSnapshot env now (run_ops ops []))
   \<and> ready (buildHealthSnapshot env now (recordTelemetryError n e (run_ops ops []))) =
     ready (buildHealthSnapshot env now (run_ops ops []))"
proof -
  have ok: "registry_ok (run_ops ops [])" by (rule run_ops_ok) simp
  show ?thesis
    by (simp add: ready_iff_live ok recordQueueTelemetry_ok recordTelemetryError_ok
        telemetry_keeps_worker_live list_all_iff)
qed

end
