(* ===== verification/SqsPool.thy ===== *)
theory SqsPool
  imports JsNumber
begin

text \<open>
  The delivery half of lib/core/sqs-worker.ts: the sizes it normalises, the bounded handler pool
  \<^verbatim>\<open>processWithConcurrency\<close> as a step relation over its interleavings, and the batched
  acknowledgement \<^verbatim>\<open>processSqsMessages\<close>. Handlers and the SQS client are parameters: a handler is
  the outcome it has for each message, the client is what each delete request answers.
\<close>

section \<open>Sizes and deadlines\<close>

definition SQS_BATCH_LIMIT :: int where "SQS_BATCH_LIMIT = 10"

definition normalizeSqsWorkerCount :: "jnum \<Rightarrow> int" where
  "normalizeSqsWorkerCount v =
     (let numeric = (case v of Fin r \<Rightarrow> \<lfloor>r\<rfloor> | _ \<Rightarrow> 1) in min SQS_BATCH_LIMIT (max 1 numeric))"

definition normalizeTelemetrySampleInterval :: "jnum \<Rightarrow> int" where
  "normalizeTelemetrySampleInterval v =
     (let numeric = (case v of Fin r \<Rightarrow> \<lfloor>r\<rfloor> | _ \<Rightarrow> 30000) in min (5 * 60000) (max 10000 numeric))"

definition receiveDeadlineMsFromWaitTimeSeconds :: "jnum \<Rightarrow> int" where
  "receiveDeadlineMsFromWaitTimeSeconds v =
     (let seconds = (case v of Fin r \<Rightarrow> \<lfloor>r\<rfloor> | _ \<Rightarrow> 20)
      in min 20 (max 0 seconds) * 1000 + 10000)"

definition processingDeadlineMsFromVisibilityTimeout :: "jnum \<Rightarrow> int" where
  "processingDeadlineMsFromVisibilityTimeout v =
     (let seconds = (case v of Fin r \<Rightarrow> r | _ \<Rightarrow> 30)
      in min (12 * 60 * 60000) (max 1 \<lfloor>seconds * 1000\<rfloor>))"

lemma normalizeSqsWorkerCount_bounds:
  "1 \<le> normalizeSqsWorkerCount v" "normalizeSqsWorkerCount v \<le> 10"
  by (auto simp: normalizeSqsWorkerCount_def SQS_BATCH_LIMIT_def Let_def split: jnum.split)

section \<open>Messages\<close>

text \<open>The fields of an SQS message the program reads.\<close>

record sqs_message =
  MessageId :: "jstr option"
  ReceiptHandle :: "jstr option"
  Body :: "jstr option"
  SentTimestamp :: "jstr option"
  ApproximateReceiveCount :: "jstr option"

definition parseSqsCount :: "jstr option \<Rightarrow> int option" where
  "parseSqsCount v = (case v of None \<Rightarrow> None | Some s \<Rightarrow> safe_digits s)"

definition boundedReceiveCount :: "jstr option \<Rightarrow> int option" where
  "boundedReceiveCount v = (case v of
     None \<Rightarrow> None | Some s \<Rightarrow> map_option (min 1000) (safe_digits s))"

definition observedMessageAgeMs :: "int \<Rightarrow> sqs_message list \<Rightarrow> int option" where
  "observedMessageAgeMs now ms = foldl (\<lambda>oldest m.
     case Option.bind (SentTimestamp m) safe_digits of
       None \<Rightarrow> oldest
     | Some ts \<Rightarrow> let age = max 0 (now - ts) in
         Some (case oldest of None \<Rightarrow> age | Some o' \<Rightarrow> max o' age)) None ms"

lemma safe_digits_Nil [simp]: "safe_digits [] = None"
  by (simp add: safe_digits_def is_digits_def)

section \<open>The handler pool\<close>

text \<open>
  Messages are numbered by their index in the batch. A slot is one of the async functions of
  \<^verbatim>\<open>Promise.all(Array.from({length: workerCount}, ...))\<close>: it runs one handler at a time; after a
  handler settles it takes the next message in the same turn.
\<close>

datatype handler_outcome = Succeeds | Fails | Hangs

datatype slot = Unstarted | Running nat | Finished | TimedOut nat

record pool =
  next_index :: nat
  slots :: "slot list"
  successful :: "nat list"
  stopping :: bool

text \<open>\<^verbatim>\<open>while (!_shutdownRequested && next < messages.length) { const message = messages[next++]; ...\<close>\<close>

definition take_next :: "nat \<Rightarrow> nat \<Rightarrow> pool \<Rightarrow> pool" where
  "take_next n i p =
     (if \<not> stopping p \<and> next_index p < n
      then p\<lparr>slots := (slots p)[i := Running (next_index p)], next_index := next_index p + 1\<rparr>
      else p\<lparr>slots := (slots p)[i := Finished]\<rparr>)"

definition workerCount :: "nat \<Rightarrow> jnum \<Rightarrow> nat" where
  "workerCount n maxConcurrency = min n (nat (normalizeSqsWorkerCount maxConcurrency))"

definition start_pool :: "nat \<Rightarrow> jnum \<Rightarrow> bool \<Rightarrow> pool" where
  "start_pool n maxConcurrency stop =
     fold (take_next n) [0..<workerCount n maxConcurrency]
       \<lparr>next_index = 0, slots = replicate (workerCount n maxConcurrency) Unstarted,
        successful = [], stopping = stop\<rparr>"

text \<open>\<^verbatim>\<open>withHandlerTimeout\<close> races the handler with a timer only for a finite positive deadline.\<close>

definition withHandlerTimeout_armed :: "jnum option \<Rightarrow> bool" where
  "withHandlerTimeout_armed timeoutMs =
     (case timeoutMs of Some (Fin r) \<Rightarrow> 0 < r | _ \<Rightarrow> False)"

text \<open>
  \<open>outcome m\<close> is what the handler of message \<open>m\<close> does. With an armed timeout
  (\<open>deadline\<close>), a handler that has not settled may be abandoned at its deadline, whatever it
  would have done later. A shutdown request can come at any time.
\<close>

inductive pool_step :: "nat \<Rightarrow> (nat \<Rightarrow> handler_outcome) \<Rightarrow> bool \<Rightarrow> pool \<Rightarrow> pool \<Rightarrow> bool"
  for n outcome deadline where
  handled: "\<lbrakk>i < length (slots p); slots p ! i = Running m; outcome m = Succeeds\<rbrakk>
    \<Longrightarrow> pool_step n outcome deadline p (take_next n i (p\<lparr>successful := successful p @ [m]\<rparr>))"
| failed: "\<lbrakk>i < length (slots p); slots p ! i = Running m; outcome m = Fails\<rbrakk>
    \<Longrightarrow> pool_step n outcome deadline p (take_next n i p)"
| timeout: "\<lbrakk>i < length (slots p); slots p ! i = Running m; deadline\<rbrakk>
    \<Longrightarrow> pool_step n outcome deadline p (p\<lparr>slots := (slots p)[i := TimedOut m]\<rparr>)"
| shutdown: "\<not> stopping p \<Longrightarrow> pool_step n outcome deadline p (p\<lparr>stopping := True\<rparr>)"

inductive_cases pool_stepE [elim]: "pool_step n outcome deadline p q"

abbreviation pool_steps where
  "pool_steps n outcome deadline \<equiv> (pool_step n outcome deadline)\<^sup>*\<^sup>*"

text \<open>
  What \<^verbatim>\<open>await Promise.all(...)\<close> gives: still pending, rejected by the first handler timeout, or
  the successful messages in completion order.
\<close>

datatype 'a settled = Pending | Rejected | Resolved 'a

definition is_timed_out :: "slot \<Rightarrow> bool" where
  "is_timed_out s = (case s of TimedOut _ \<Rightarrow> True | _ \<Rightarrow> False)"

definition pool_result :: "pool \<Rightarrow> nat list settled" where
  "pool_result p =
     (if list_ex is_timed_out (slots p) then Rejected
      else if list_all (\<lambda>s. s = Finished) (slots p) then Resolved (successful p) else Pending)"

text \<open>The messages a slot holds: running in it, or abandoned in it at the deadline.\<close>

fun held :: "slot \<Rightarrow> nat list" where
  "held (Running m) = [m]"
| "held (TimedOut m) = [m]"
| "held _ = []"

fun is_running :: "slot \<Rightarrow> bool" where
  "is_running (Running m) = True"
| "is_running _ = False"

definition running :: "pool \<Rightarrow> nat" where
  "running p = length (filter is_running (slots p))"

text \<open>
  The invariant: the messages taken so far are \<open>[0..<next_index p]\<close>, each held by exactly one
  slot, successful once, or settled with a failure.
\<close>

definition pool_ok :: "nat \<Rightarrow> (nat \<Rightarrow> handler_outcome) \<Rightarrow> pool \<Rightarrow> bool" where
  "pool_ok n outcome p \<longleftrightarrow>
     next_index p \<le> n
     \<and> (\<exists>rest. mset (concat (map held (slots p))) + mset (successful p) + mset rest
              = mset [0..<next_index p] \<and> (\<forall>m \<in> set rest. outcome m = Fails))
     \<and> (\<forall>m \<in> set (successful p). outcome m = Succeeds)"

lemma mset_held_update:
  "i < length xs \<Longrightarrow>
   mset (concat (map held (xs[i := s]))) + mset (held (xs ! i)) = mset (concat (map held xs)) + mset (held s)"
proof (induction xs arbitrary: i)
  case Nil
  then show ?case by simp
next
  case (Cons x xs)
  show ?case
  proof (cases i)
    case 0
    then show ?thesis by (simp add: ac_simps)
  next
    case (Suc j)
    with Cons show ?thesis by (simp add: ac_simps)
  qed
qed

text \<open>Freeing slot \<open>i\<close> and taking the next message keeps the bookkeeping.\<close>

lemma take_next_ok:
  assumes "i < length (slots p)" "next_index p \<le> n"
    and bag: "mset (concat (map held ((slots p)[i := Finished]))) + mset (successful p) + mset rest
              = mset [0..<next_index p]"
    and "\<forall>m \<in> set rest. outcome m = Fails" "\<forall>m \<in> set (successful p). outcome m = Succeeds"
  shows "pool_ok n outcome (take_next n i p)"
proof (cases "\<not> stopping p \<and> next_index p < n")
  case True
  have "mset (concat (map held ((slots p)[i := Running (next_index p)]))) =
        add_mset (next_index p) (mset (concat (map held ((slots p)[i := Finished]))))"
    using mset_held_update [of i "(slots p)[i := Finished]" "Running (next_index p)"] assms(1)
    by (simp add: ac_simps)
  with bag have "mset (concat (map held ((slots p)[i := Running (next_index p)])))
      + mset (successful p) + mset rest = mset [0..<Suc (next_index p)]" by simp
  with True assms show ?thesis unfolding pool_ok_def take_next_def by auto
next
  case False
  with assms show ?thesis unfolding pool_ok_def take_next_def by auto
qed

lemma mset_held_freed:
  assumes "i < length xs" "xs ! i = Running m"
  shows "mset (concat (map held xs)) = add_mset m (mset (concat (map held (xs[i := Finished]))))"
  using mset_held_update [OF assms(1), of Finished] assms(2) by simp

lemma mset_held_timeout:
  assumes "i < length xs" "xs ! i = Running m"
  shows "mset (concat (map held (xs[i := TimedOut m]))) = mset (concat (map held xs))"
  using mset_held_update [OF assms(1), of "TimedOut m"] assms(2) by simp

lemma pool_step_ok: "pool_step n outcome deadline p q \<Longrightarrow> pool_ok n outcome p \<Longrightarrow> pool_ok n outcome q"
proof (induction rule: pool_step.induct)
  case (handled i p m)
  then obtain rest where rest: "next_index p \<le> n"
      "mset (concat (map held (slots p))) + mset (successful p) + mset rest = mset [0..<next_index p]"
      "\<forall>m \<in> set rest. outcome m = Fails" "\<forall>m \<in> set (successful p). outcome m = Succeeds"
    by (auto simp: pool_ok_def)
  show ?case
    by (rule take_next_ok [where rest = rest])
      (use handled rest mset_held_freed [OF handled(1,2)] in auto)
next
  case (failed i p m)
  then obtain rest where rest: "next_index p \<le> n"
      "mset (concat (map held (slots p))) + mset (successful p) + mset rest = mset [0..<next_index p]"
      "\<forall>m \<in> set rest. outcome m = Fails" "\<forall>m \<in> set (successful p). outcome m = Succeeds"
    by (auto simp: pool_ok_def)
  show ?case
    by (rule take_next_ok [where rest = "m # rest"])
      (use failed rest mset_held_freed [OF failed(1,2)] in auto)
next
  case (timeout i p m)
  then show ?case using mset_held_timeout [OF timeout(1,2)] by (auto simp: pool_ok_def)
next
  case (shutdown p)
  then show ?case by (simp add: pool_ok_def)
qed

text \<open>Starting the pool: slot by slot, each takes its first message at once.\<close>

definition fresh_pool :: "nat \<Rightarrow> bool \<Rightarrow> pool" where
  "fresh_pool k stop =
     \<lparr>next_index = 0, slots = replicate k Unstarted, successful = [], stopping = stop\<rparr>"

lemma take_next_simps [simp]:
  "length (slots (take_next n i p)) = length (slots p)"
  "successful (take_next n i p) = successful p"
  "stopping (take_next n i p) = stopping p"
  by (simp_all add: take_next_def)

lemma take_next_other: "j \<noteq> i \<Longrightarrow> slots (take_next n i p) ! j = slots p ! j"
  by (simp add: take_next_def)

lemma take_next_started: "i < length (slots p) \<Longrightarrow> slots (take_next n i p) ! i \<noteq> Unstarted"
  by (simp add: take_next_def)

lemma started_upto:
  assumes "j \<le> k"
  shows "let p = fold (take_next n) [0..<j] (fresh_pool k stop) in
           pool_ok n outcome p \<and> length (slots p) = k \<and> successful p = [] \<and> stopping p = stop
           \<and> (\<forall>i<j. slots p ! i \<noteq> Unstarted) \<and> (\<forall>i. j \<le> i \<and> i < k \<longrightarrow> slots p ! i = Unstarted)"
  using assms
proof (induction j)
  case 0
  have "concat (map held (replicate k Unstarted)) = []" by simp
  then show ?case by (auto simp: fresh_pool_def pool_ok_def intro: exI [of _ "[]"])
next
  case (Suc j)
  let ?p = "fold (take_next n) [0..<j] (fresh_pool k stop)"
  have IH: "pool_ok n outcome ?p" "length (slots ?p) = k" "successful ?p = []" "stopping ?p = stop"
      "\<forall>i<j. slots ?p ! i \<noteq> Unstarted" "\<forall>i. j \<le> i \<and> i < k \<longrightarrow> slots ?p ! i = Unstarted"
    using Suc by (simp_all add: Let_def)
  then have j: "j < length (slots ?p)" "slots ?p ! j = Unstarted" using Suc.prems by auto
  have same: "mset (concat (map held ((slots ?p)[j := Finished]))) = mset (concat (map held (slots ?p)))"
    using mset_held_update [OF j(1), of Finished] j(2) by simp
  from IH(1) obtain rest where rest: "next_index ?p \<le> n"
      "mset (concat (map held (slots ?p))) + mset (successful ?p) + mset rest = mset [0..<next_index ?p]"
      "\<forall>m \<in> set rest. outcome m = Fails" "\<forall>m \<in> set (successful ?p). outcome m = Succeeds"
    by (auto simp: pool_ok_def)
  have "pool_ok n outcome (take_next n j ?p)"
    by (rule take_next_ok [where rest = rest]) (use j same rest in auto)
  moreover have "\<forall>i < Suc j. slots (take_next n j ?p) ! i \<noteq> Unstarted"
    using IH(5) j take_next_other [of _ j n ?p] take_next_started [of j ?p n]
    by (metis less_SucE)
  moreover have "\<forall>i. Suc j \<le> i \<and> i < k \<longrightarrow> slots (take_next n j ?p) ! i = Unstarted"
    using IH(6) take_next_other [of _ j n ?p] by simp
  ultimately show ?case using IH by (simp add: Let_def)
qed

lemma start_pool_fresh:
  "start_pool n c stop = fold (take_next n) [0..<workerCount n c] (fresh_pool (workerCount n c) stop)"
  by (simp add: start_pool_def fresh_pool_def)

lemma start_pool_facts:
  "pool_ok n outcome (start_pool n c stop)"
  "length (slots (start_pool n c stop)) = workerCount n c"
  "stopping (start_pool n c stop) = stop"
  "Unstarted \<notin> set (slots (start_pool n c stop))"
  using started_upto [of "workerCount n c" "workerCount n c" n stop outcome]
  by (auto simp: start_pool_fresh Let_def in_set_conv_nth)

text \<open>What every step keeps: the slots, and that each of them has started.\<close>

lemma set_update_started: "Unstarted \<notin> set xs \<Longrightarrow> s \<noteq> Unstarted \<Longrightarrow> Unstarted \<notin> set (xs[i := s])"
  using set_update_subset_insert [of xs i s] by auto

lemma pool_step_slots:
  assumes "pool_step n outcome deadline p q"
  shows "length (slots q) = length (slots p)" "Unstarted \<notin> set (slots p) \<Longrightarrow> Unstarted \<notin> set (slots q)"
    "stopping p \<Longrightarrow> stopping q" "stopping p \<Longrightarrow> next_index q = next_index p"
proof -
  have "Unstarted \<notin> set (slots q)" if "Unstarted \<notin> set (slots p)"
    using assms that
    by cases (simp_all add: take_next_def set_update_started)
  then show "Unstarted \<notin> set (slots p) \<Longrightarrow> Unstarted \<notin> set (slots q)" .
qed (use assms in \<open>auto simp: take_next_def\<close>)

definition pool_reachable ::
  "nat \<Rightarrow> (nat \<Rightarrow> handler_outcome) \<Rightarrow> bool \<Rightarrow> jnum \<Rightarrow> bool \<Rightarrow> pool \<Rightarrow> bool" where
  "pool_reachable n outcome deadline c stop p \<longleftrightarrow>
     (pool_step n outcome deadline)\<^sup>*\<^sup>* (start_pool n c stop) p"

lemma pool_reachable_ok:
  assumes "pool_reachable n outcome deadline c stop p"
  shows "pool_ok n outcome p" "length (slots p) = workerCount n c" "Unstarted \<notin> set (slots p)"
proof -
  have "pool_ok n outcome p \<and> length (slots p) = workerCount n c \<and> Unstarted \<notin> set (slots p)"
    using assms unfolding pool_reachable_def
  proof (induction rule: rtranclp_induct)
    case base
    show ?case using start_pool_facts by auto
  next
    case (step p q)
    then show ?case using pool_step_ok pool_step_slots(1,2) [OF step(2)] by auto
  qed
  then show "pool_ok n outcome p" "length (slots p) = workerCount n c" "Unstarted \<notin> set (slots p)"
    by auto
qed

text \<open>Every step uses up work: a message not yet taken, a running handler, or the one shutdown.\<close>

definition pool_work :: "nat \<Rightarrow> pool \<Rightarrow> nat" where
  "pool_work n p = 2 * (n - next_index p) + running p + (if stopping p then 0 else 1)"

lemma length_filter_update:
  "i < length xs \<Longrightarrow> length (filter P (xs[i := s])) + (if P (xs ! i) then 1 else 0)
                     = length (filter P xs) + (if P s then 1 else 0)"
proof (induction xs arbitrary: i)
  case Nil
  then show ?case by simp
next
  case (Cons x xs)
  show ?case
  proof (cases i)
    case (Suc j)
    with Cons show ?thesis by auto
  qed simp
qed

lemma running_update:
  assumes "i < length (slots p)" "slots p ! i = Running m"
  shows "running (p\<lparr>slots := (slots p)[i := s]\<rparr>) + 1
         = running p + (if is_running s then 1 else 0)"
  using length_filter_update [OF assms(1), of is_running s] assms(2)
  by (simp add: running_def)

lemma take_next_work:
  assumes "i < length (slots p)" "slots p ! i = Running m"
  shows "pool_work n (take_next n i p) < pool_work n p"
  using running_update [OF assms, of "Running (next_index p)"] running_update [OF assms, of Finished]
  by (auto simp: take_next_def pool_work_def running_def)

lemma pool_step_work: "pool_step n outcome deadline p q \<Longrightarrow> pool_work n q < pool_work n p"
proof (induction rule: pool_step.induct)
  case (handled i p m)
  have "pool_work n (p\<lparr>successful := successful p @ [m]\<rparr>) = pool_work n p"
    by (simp add: pool_work_def running_def)
  then show ?case
    using take_next_work [of i "p\<lparr>successful := successful p @ [m]\<rparr>" m n] handled by simp
next
  case (failed i p m)
  then show ?case using take_next_work by blast
next
  case (timeout i p m)
  then show ?case using running_update [OF timeout(1,2), of "TimedOut m"]
    by (simp add: pool_work_def)
next
  case (shutdown p)
  then show ?case by (simp add: pool_work_def running_def)
qed

lemma pool_steps_bounded: "(pool_step n outcome deadline ^^ k) p q \<Longrightarrow> k + pool_work n q \<le> pool_work n p"
proof (induction k arbitrary: q)
  case (Suc k)
  then obtain r where "(pool_step n outcome deadline ^^ k) p r" "pool_step n outcome deadline r q"
    by auto
  with Suc.IH [of r] pool_step_work [of n outcome deadline r q] show ?case by simp
qed simp

text \<open>A pool that is still pending and whose handlers all settle has a handler step to take.\<close>

lemma pending_progress:
  assumes "pool_result p = Pending" "Unstarted \<notin> set (slots p)"
    and "\<And>m. outcome m \<noteq> Hangs \<or> deadline"
  shows "\<exists>q. pool_step n outcome deadline p q \<and> stopping q = stopping p"
proof -
  obtain s where s: "s \<in> set (slots p)" "s \<noteq> Finished" "\<not> is_timed_out s"
    using assms(1) by (auto simp: pool_result_def list_ex_iff list_all_iff split: if_splits)
  moreover have "\<lbrakk>s \<noteq> Finished; \<not> is_timed_out s; s \<noteq> Unstarted\<rbrakk> \<Longrightarrow> \<exists>m. s = Running m"
    by (cases s) (simp_all add: is_timed_out_def)
  ultimately obtain m where "s = Running m" using assms(2) by metis
  with s obtain i where i: "i < length (slots p)" "slots p ! i = Running m"
    by (auto simp: in_set_conv_nth)
  show ?thesis
  proof (cases "outcome m")
    case Succeeds
    then show ?thesis using pool_step.handled [OF i] by fastforce
  next
    case Fails
    then show ?thesis using pool_step.failed [OF i] by fastforce
  next
    case Hangs
    then show ?thesis using assms(3) [of m] pool_step.timeout [OF i] by fastforce
  qed
qed

lemma filter_all_held:
  assumes "pool_ok n outcome p" "list_all (\<lambda>s. s = Finished) (slots p)"
  shows "mset (successful p) = mset (filter (\<lambda>m. outcome m = Succeeds) [0..<next_index p])"
proof -
  obtain rest where rest: "mset (concat (map held (slots p))) + mset (successful p) + mset rest
        = mset [0..<next_index p]" "\<forall>m \<in> set rest. outcome m = Fails"
      "\<forall>m \<in> set (successful p). outcome m = Succeeds"
    using assms(1) by (auto simp: pool_ok_def)
  have "concat (map held (slots p)) = []" using assms(2) by (auto simp: list_all_iff)
  then have "mset (filter (\<lambda>m. outcome m = Succeeds) [0..<next_index p])
      = filter_mset (\<lambda>m. outcome m = Succeeds) (mset (successful p) + mset rest)"
    unfolding mset_filter rest(1) [symmetric] by simp
  also have "\<dots> = mset (successful p)"
  proof -
    have "filter_mset (\<lambda>m. outcome m = Succeeds) (mset rest) = {#}"
      using rest(2) by (auto simp: filter_mset_eq_mempty_iff)
    moreover have "filter_mset (\<lambda>m. outcome m = Succeeds) (mset (successful p)) = mset (successful p)"
      using rest(3) by (auto simp: filter_mset_eq_conv)
    ultimately show ?thesis by simp
  qed
  finally show ?thesis by simp
qed

text \<open>A slot only stops early when the pool does.\<close>

lemma take_next_finished:
  assumes "Finished \<in> set (slots p) \<longrightarrow> stopping p \<or> n \<le> next_index p"
  shows "Finished \<in> set (slots (take_next n i p)) \<longrightarrow>
         stopping (take_next n i p) \<or> n \<le> next_index (take_next n i p)"
  using assms set_update_subset_insert [of "slots p" i "Running (next_index p)"]
  by (auto simp: take_next_def)

lemma pool_step_finished:
  assumes "pool_step n outcome deadline p q"
    and "Finished \<in> set (slots p) \<longrightarrow> stopping p \<or> n \<le> next_index p"
  shows "Finished \<in> set (slots q) \<longrightarrow> stopping q \<or> n \<le> next_index q"
  using assms(1)
proof cases
  case (handled i m)
  then show ?thesis using assms(2) take_next_finished [of "p\<lparr>successful := successful p @ [m]\<rparr>" n i]
    by simp
next
  case (failed i m)
  then show ?thesis using assms(2) take_next_finished by blast
next
  case (timeout i m)
  then show ?thesis using assms(2) set_update_subset_insert [of "slots p" i "TimedOut m"] by auto
next
  case shutdown
  then show ?thesis by simp
qed

lemma start_pool_finished:
  "Finished \<in> set (slots (start_pool n c stop)) \<longrightarrow>
   stopping (start_pool n c stop) \<or> n \<le> next_index (start_pool n c stop)"
proof -
  have "Finished \<in> set (slots (fold (take_next n) is p)) \<longrightarrow>
      stopping (fold (take_next n) is p) \<or> n \<le> next_index (fold (take_next n) is p)"
    if "Finished \<in> set (slots p) \<longrightarrow> stopping p \<or> n \<le> next_index p" for "is" p
    using that
  proof (induction "is" arbitrary: p)
    case (Cons i "is")
    from Cons.IH [OF take_next_finished [OF Cons.prems]] show ?case by simp
  qed simp
  then show ?thesis unfolding start_pool_fresh by (simp add: fresh_pool_def)
qed

lemma pool_reachable_finished:
  assumes "pool_reachable n outcome deadline c stop p" "Finished \<in> set (slots p)" "\<not> stopping p"
  shows "next_index p = n"
proof -
  have "Finished \<in> set (slots p) \<longrightarrow> stopping p \<or> n \<le> next_index p"
    using assms(1) unfolding pool_reachable_def
    by (induction rule: rtranclp_induct) (use start_pool_finished pool_step_finished in blast)+
  moreover have "next_index p \<le> n"
    using pool_reachable_ok(1) [OF assms(1)] by (simp add: pool_ok_def)
  ultimately show ?thesis using assms(2,3) by simp
qed

lemma pool_resolved:
  assumes "pool_reachable n outcome deadline c stop p" "pool_result p = Resolved done_idx"
  shows "mset done_idx = mset (filter (\<lambda>m. outcome m = Succeeds) [0..<next_index p])"
    "\<not> stopping p \<Longrightarrow> next_index p = n"
proof -
  have fin: "list_all (\<lambda>s. s = Finished) (slots p)" "done_idx = successful p"
    using assms(2) by (auto simp: pool_result_def split: if_splits)
  then show "mset done_idx = mset (filter (\<lambda>m. outcome m = Succeeds) [0..<next_index p])"
    using filter_all_held [OF pool_reachable_ok(1) [OF assms(1)]] by simp
  assume run: "\<not> stopping p"
  show "next_index p = n"
  proof (cases "n = 0")
    case True
    then show ?thesis using pool_reachable_ok(1) [OF assms(1)] by (simp add: pool_ok_def)
  next
    case False
    then have "0 < length (slots p)"
      using pool_reachable_ok(2) [OF assms(1)] normalizeSqsWorkerCount_bounds(1) [of c]
      by (simp add: workerCount_def)
    then have "Finished \<in> set (slots p)" using fin(1) by (cases "slots p") auto
    then show ?thesis using pool_reachable_finished [OF assms(1)] run by blast
  qed
qed

section \<open>Acknowledgement\<close>

text \<open>
  One \<^verbatim>\<open>DeleteMessageBatch\<close> request is a list of entries \<open>(Id, ReceiptHandle)\<close>; the client answers by
  throwing or with the Ids it reports successful (an Id may be missing).
\<close>

type_synonym delete_entry = "jstr \<times> jstr"

type_synonym delete_client = "nat \<Rightarrow> delete_entry list \<Rightarrow> unit + jstr option list"

definition has_receipt :: "sqs_message \<Rightarrow> bool" where
  "has_receipt m = (case ReceiptHandle m of Some r \<Rightarrow> r \<noteq> [] | None \<Rightarrow> False)"

definition delete_entries :: "sqs_message list \<Rightarrow> delete_entry list" where
  "delete_entries ms = map (\<lambda>(i, m). (lit ''entry-'' @ dec_string (int i), the (ReceiptHandle m)))
                           (enumerate 0 ms)"

definition deleteMessageBatch ::
  "(delete_entry list \<Rightarrow> unit + jstr option list) \<Rightarrow> sqs_message list \<Rightarrow> int" where
  "deleteMessageBatch client ms =
     (if ms = [] then 0
      else case client (delete_entries ms) of
          Inl _ \<Rightarrow> 0
        | Inr ids \<Rightarrow>
            let acknowledged = {i \<in> set ids. i \<noteq> None \<and> i \<noteq> Some []}
            in foldl (\<lambda>count e. count + (if Some (fst e) \<in> acknowledged then 1 else 0)) 0 (delete_entries ms))"

text \<open>
  The loop over slices of ten; the requests sent are kept beside the count. The client sees the
  requests numbered in order, so its answers may differ between identical requests.
\<close>

function ack_batches :: "delete_client \<Rightarrow> nat \<Rightarrow> sqs_message list \<Rightarrow> int \<times> delete_entry list list" where
  "ack_batches client k ms =
     (if ms = [] then (0, [])
      else let (acked, sent) = ack_batches client (Suc k) (drop 10 ms)
           in (deleteMessageBatch (client k) (take 10 ms) + acked, delete_entries (take 10 ms) # sent))"
  by auto
termination by (relation "measure (\<lambda>(_, _, ms). length ms)") auto

declare ack_batches.simps [simp del]

definition acknowledge :: "delete_client \<Rightarrow> sqs_message list \<Rightarrow> int \<times> delete_entry list list" where
  "acknowledge client handled = ack_batches client 0 (filter has_receipt handled)"

text \<open>\<^verbatim>\<open>processSqsMessages\<close>: pending while the pool is, rejected with it, the acknowledged count otherwise.\<close>

definition processSqsMessages ::
  "delete_client \<Rightarrow> sqs_message list \<Rightarrow> pool \<Rightarrow> (int \<times> delete_entry list list) settled" where
  "processSqsMessages client ms p = (case pool_result p of
     Pending \<Rightarrow> Pending
   | Rejected \<Rightarrow> Rejected
   | Resolved done_idx \<Rightarrow> Resolved (acknowledge client (map (\<lambda>i. ms ! i) done_idx)))"

text \<open>\<^verbatim>\<open>processSqsMessage\<close>: one message, one slot.\<close>

definition processSqsMessage :: "delete_client \<Rightarrow> sqs_message \<Rightarrow> pool \<Rightarrow> bool settled" where
  "processSqsMessage client m p = (case processSqsMessages client [m] p of
     Pending \<Rightarrow> Pending | Rejected \<Rightarrow> Rejected | Resolved r \<Rightarrow> Resolved (fst r = 1))"

lemma map_snd_delete_entries [simp]:
  "map snd (delete_entries ms) = map (\<lambda>m. the (ReceiptHandle m)) ms"
  by (rule nth_equalityI) (simp_all add: delete_entries_def nth_enumerate_eq)

lemma length_delete_entries [simp]: "length (delete_entries ms) = length ms"
  by (simp add: delete_entries_def)

lemma delete_entries_ids_distinct: "distinct (map fst (delete_entries ms))"
  by (simp add: delete_entries_def distinct_conv_nth nth_enumerate_eq dec_string_inject)

lemma count_foldl:
  "foldl (\<lambda>count e. count + (if P e then 1 else 0)) (c::int) es = c + int (length (filter P es))"
  by (induction es arbitrary: c) auto

lemma deleteMessageBatch_bounds:
  "0 \<le> deleteMessageBatch c ms" "deleteMessageBatch c ms \<le> int (length ms)"
  using length_filter_le [of _ "delete_entries ms"]
  by (auto simp: deleteMessageBatch_def count_foldl Let_def split: sum.split)

lemma deleteMessageBatch_all:
  assumes "\<And>es. c es = Inr (map (Some \<circ> fst) es)"
  shows "deleteMessageBatch c ms = int (length ms)"
proof -
  have "fst e \<noteq> []" if "e \<in> set (delete_entries ms)" for e
    using that by (auto simp: delete_entries_def)
  then have "filter (\<lambda>e. Some (fst e) \<in> {i \<in> set (map (Some \<circ> fst) (delete_entries ms)). i \<noteq> None \<and> i \<noteq> Some []})
      (delete_entries ms) = delete_entries ms"
    by (intro filter_True) auto
  then show ?thesis by (simp add: deleteMessageBatch_def assms count_foldl Let_def)
qed

lemma ack_batches_sent:
  "map snd (concat (snd (ack_batches c k ms))) = map (\<lambda>m. the (ReceiptHandle m)) ms"
proof (induction c k ms rule: ack_batches.induct)
  case (1 c k ms)
  show ?case
  proof (cases "ms = []")
    case True
    then show ?thesis by (simp add: ack_batches.simps)
  next
    case False
    have "map snd (concat (snd (ack_batches c (Suc k) (drop 10 ms))))
          = map (\<lambda>m. the (ReceiptHandle m)) (drop 10 ms)" using 1 False by blast
    moreover have "map (\<lambda>m. the (ReceiptHandle m)) ms
        = map (\<lambda>m. the (ReceiptHandle m)) (take 10 ms) @ map (\<lambda>m. the (ReceiptHandle m)) (drop 10 ms)"
      by (simp flip: map_append)
    ultimately show ?thesis using False
      by (subst ack_batches.simps) (simp add: split_beta)
  qed
qed

lemma ack_batches_sizes:
  "e \<in> set (snd (ack_batches c k ms)) \<Longrightarrow> e \<noteq> [] \<and> length e \<le> 10 \<and> distinct (map fst e)"
proof (induction c k ms rule: ack_batches.induct)
  case (1 c k ms)
  show ?case
  proof (cases "ms = []")
    case True
    with 1(2) show ?thesis by (simp add: ack_batches.simps)
  next
    case False
    have "delete_entries (take 10 ms) \<noteq> []"
      using False by (metis length_0_conv length_delete_entries take_eq_Nil zero_neq_numeral)
    with 1(2) False 1(1) [OF False] show ?thesis
      by (subst (asm) ack_batches.simps) (auto simp: split_beta delete_entries_ids_distinct)
  qed
qed

lemma ack_batches_count: "0 \<le> fst (ack_batches c k ms) \<and> fst (ack_batches c k ms) \<le> int (length ms)"
proof (induction c k ms rule: ack_batches.induct)
  case (1 c k ms)
  show ?case
  proof (cases "ms = []")
    case True
    then show ?thesis by (simp add: ack_batches.simps)
  next
    case False
    have "0 \<le> fst (ack_batches c (Suc k) (drop 10 ms))
        \<and> fst (ack_batches c (Suc k) (drop 10 ms)) \<le> int (length (drop 10 ms))" using 1 False by blast
    moreover have "int (length ms) = int (length (take 10 ms)) + int (length (drop 10 ms))" by simp
    ultimately show ?thesis
      using deleteMessageBatch_bounds [of "c k" "take 10 ms"]
      by (subst (1 2) ack_batches.simps) (simp add: split_beta False)
  qed
qed

lemma ack_batches_all:
  "(\<And>k es. c k es = Inr (map (Some \<circ> fst) es)) \<Longrightarrow> fst (ack_batches c k ms) = int (length ms)"
proof (induction c k ms rule: ack_batches.induct)
  case (1 c k ms)
  show ?case
  proof (cases "ms = []")
    case True
    then show ?thesis by (simp add: ack_batches.simps)
  next
    case False
    have "fst (ack_batches c (Suc k) (drop 10 ms)) = int (length (drop 10 ms))" using 1 False by blast
    moreover have "int (length ms) = int (length (take 10 ms)) + int (length (drop 10 ms))" by simp
    ultimately show ?thesis
      using deleteMessageBatch_all [of "c k" "take 10 ms"] 1(2)
      by (subst ack_batches.simps) (simp add: split_beta False)
  qed
qed

section \<open>Properties\<close>

text \<open>
  C15: at every moment of every interleaving the pool runs at most ten handlers and at most one per
  message, a message is never handed to two handlers nor recorded as successful twice, and only
  messages whose handler succeeded are recorded.
\<close>

theorem pool_never_oversubscribed:
  assumes "pool_reachable n outcome deadline c stop p"
  shows "running p \<le> 10 \<and> running p \<le> n
         \<and> distinct (successful p @ concat (map held (slots p)))
         \<and> set (successful p @ concat (map held (slots p))) \<subseteq> {..<n}
         \<and> (\<forall>m \<in> set (successful p). outcome m = Succeeds)"
proof -
  have "running p \<le> workerCount n c"
    using pool_reachable_ok(2) [OF assms] length_filter_le [of _ "slots p"] by (simp add: running_def)
  then have "running p \<le> 10 \<and> running p \<le> n"
    using normalizeSqsWorkerCount_bounds(2) [of c] unfolding workerCount_def by linarith
  moreover obtain rest where rest: "next_index p \<le> n"
      "mset (concat (map held (slots p))) + mset (successful p) + mset rest = mset [0..<next_index p]"
      "\<forall>m \<in> set (successful p). outcome m = Succeeds"
    using pool_reachable_ok(1) [OF assms] by (auto simp: pool_ok_def)
  then have perm: "mset ((successful p @ concat (map held (slots p))) @ rest) = mset [0..<next_index p]"
    by (simp add: ac_simps)
  have "distinct ((successful p @ concat (map held (slots p))) @ rest)"
    using perm by (metis distinct_upt mset_eq_imp_distinct_iff)
  moreover have "set ((successful p @ concat (map held (slots p))) @ rest) = {..<next_index p}"
    using mset_eq_setD [OF perm] by (simp add: atLeast0LessThan)
  moreover have "set xs \<subseteq> {..<n}" if "set (xs @ rest) = {..<next_index p}" for xs :: "nat list"
  proof
    fix x assume "x \<in> set xs"
    then have "x \<in> {..<next_index p}" using that by (metis UnCI set_append)
    then show "x \<in> {..<n}" using rest(1) by simp
  qed
  ultimately show ?thesis using rest(3) distinct_append by blast
qed

lemma pool_never_oversubscribed_witness:
  "let p = start_pool 3 (Fin 2) False in running p = 2 \<and> running p \<le> 10 \<and> running p \<le> 3
     \<and> distinct (successful p @ concat (map held (slots p)))"
proof -
  have "pool_reachable 3 (\<lambda>_. Succeeds) False (Fin 2) False (start_pool 3 (Fin 2) False)"
    by (simp add: pool_reachable_def)
  from pool_never_oversubscribed [OF this]
  have "distinct (successful (start_pool 3 (Fin 2) False)
          @ concat (map held (slots (start_pool 3 (Fin 2) False))))"
    "running (start_pool 3 (Fin 2) False) \<le> 10" "running (start_pool 3 (Fin 2) False) \<le> 3"
    by blast+
  moreover have "running (start_pool 3 (Fin 2) False) = 2" by code_simp
  ultimately show ?thesis by (simp add: Let_def)
qed

text \<open>
  The pool settles. Whatever the interleaving, a run takes at most \<open>2 n + 1\<close> steps, and as long
  as the result is pending and no handler hangs without a deadline, some handler step remains.
\<close>

theorem pool_settles:
  assumes "(pool_step n outcome deadline ^^ k) (start_pool n c stop) p"
  shows "k \<le> 2 * n + 1
         \<and> (pool_result p = Pending \<and> (\<forall>m. outcome m \<noteq> Hangs \<or> deadline) \<longrightarrow>
             (\<exists>q. pool_step n outcome deadline p q \<and> stopping q = stopping p))"
proof -
  let ?s = "start_pool n c stop"
  obtain rest where rest: "mset (concat (map held (slots ?s))) + mset (successful ?s) + mset rest
      = mset [0..<next_index ?s]" "next_index ?s \<le> n"
    using start_pool_facts(1) [of n outcome c stop] by (auto simp: pool_ok_def)
  have "running ?s \<le> length (concat (map held (slots ?s)))"
  proof -
    have "length (filter is_running xs) \<le> length (concat (map held xs))" for xs
    proof (induction xs)
      case (Cons s xs)
      then show ?case by (cases s) auto
    qed simp
    then show ?thesis by (simp add: running_def)
  qed
  also have "\<dots> \<le> next_index ?s"
    using arg_cong [OF rest(1), of size] by simp
  finally have le: "running ?s \<le> next_index ?s" .
  have "2 * (n - i) + r \<le> 2 * n" if "r \<le> i" "i \<le> n" for i r :: nat
    using that by linarith
  from this [OF le rest(2)] have "pool_work n ?s \<le> 2 * n + 1" by (simp add: pool_work_def)
  then have "k \<le> 2 * n + 1" using pool_steps_bounded [OF assms] by simp
  moreover have "pool_reachable n outcome deadline c stop p"
    unfolding pool_reachable_def using assms by (rule relpowp_imp_rtranclp)
  ultimately show ?thesis using pending_progress pool_reachable_ok(3) by blast
qed

lemma pool_settles_witness:
  "\<exists>q. pool_step 2 (\<lambda>_. Fails) False (start_pool 2 (Fin 1) False) q
       \<and> stopping q = stopping (start_pool 2 (Fin 1) False)"
proof -
  have run: "(pool_step 2 (\<lambda>_. Fails) False ^^ 0) (start_pool 2 (Fin 1) False) (start_pool 2 (Fin 1) False)"
    by simp
  have "pool_result (start_pool 2 (Fin 1) False) = Pending" by code_simp
  then show ?thesis using pool_settles [OF run] by auto
qed

text \<open>
  C1: only handled work is acknowledged, and all of it. The receipt handles sent for deletion are
  those of the messages whose handler succeeded, each once, in requests of one to ten entries with
  distinct Ids; without a shutdown none is left out. The count returned never exceeds the entries
  sent, and is their number when the queue confirms every entry.
\<close>

theorem only_successful_work_is_acknowledged:
  assumes "pool_reachable (length ms) outcome deadline c stop p"
    and "processSqsMessages client ms p = Resolved (acked, sent)"
  shows "\<exists>idx. mset idx = mset (filter (\<lambda>m. outcome m = Succeeds) [0..<next_index p])
       \<and> (\<not> stopping p \<longrightarrow> next_index p = length ms)
       \<and> map snd (concat sent) = map (\<lambda>m. the (ReceiptHandle m)) (filter has_receipt (map (\<lambda>i. ms ! i) idx))
       \<and> (\<forall>e \<in> set sent. e \<noteq> [] \<and> length e \<le> 10 \<and> distinct (map fst e))
       \<and> 0 \<le> acked \<and> acked \<le> int (length (concat sent))
       \<and> ((\<forall>k es. client k es = Inr (map (Some \<circ> fst) es)) \<longrightarrow> acked = int (length (concat sent)))"
proof -
  obtain idx where idx: "pool_result p = Resolved idx"
      "(acked, sent) = acknowledge client (map (\<lambda>i. ms ! i) idx)"
    using assms(2) by (auto simp: processSqsMessages_def split: settled.splits)
  let ?ackable = "filter has_receipt (map (\<lambda>i. ms ! i) idx)"
  have run: "acked = fst (ack_batches client 0 ?ackable)" "sent = snd (ack_batches client 0 ?ackable)"
    using idx(2) by (metis acknowledge_def fst_conv, metis acknowledge_def snd_conv)
  have sent: "map snd (concat sent) = map (\<lambda>m. the (ReceiptHandle m)) ?ackable"
    unfolding run by (rule ack_batches_sent)
  then have len: "length (concat sent) = length ?ackable" by (metis length_map)
  show ?thesis
    using pool_resolved [OF assms(1) idx(1)] sent len ack_batches_sizes [of _ client 0 ?ackable]
      ack_batches_count [of client 0 ?ackable] ack_batches_all [of client 0 ?ackable]
    unfolding run by (intro exI [of _ idx]) auto
qed

definition ack_example :: "sqs_message list" where
  "ack_example =
     [\<lparr>MessageId = None, ReceiptHandle = Some (lit ''r0''), Body = None, SentTimestamp = None,
       ApproximateReceiveCount = None\<rparr>,
      \<lparr>MessageId = None, ReceiptHandle = Some (lit ''r1''), Body = None, SentTimestamp = None,
       ApproximateReceiveCount = None\<rparr>]"

lemma ack_example_reachable:
  "pool_reachable 2 (\<lambda>m. if m = 0 then Succeeds else Fails) False (Fin 1) False
     \<lparr>next_index = 2, slots = [Finished], successful = [0], stopping = False\<rparr>"
proof -
  let ?out = "\<lambda>m::nat. if m = 0 then Succeeds else Fails"
  let ?p1 = "\<lparr>next_index = 2, slots = [Running 1], successful = [0], stopping = False\<rparr>"
  have start: "start_pool 2 (Fin 1) False
      = \<lparr>next_index = 1, slots = [Running 0], successful = [], stopping = False\<rparr>"
    by code_simp
  have "pool_step 2 ?out False (start_pool 2 (Fin 1) False) ?p1"
    using pool_step.handled [of 0 "start_pool 2 (Fin 1) False" 0 ?out 2 False]
    unfolding start by (simp add: take_next_def numeral_2_eq_2)
  moreover have "pool_step 2 ?out False ?p1
      \<lparr>next_index = 2, slots = [Finished], successful = [0], stopping = False\<rparr>"
    using pool_step.failed [of 0 ?p1 1 ?out 2 False] by (simp add: take_next_def numeral_2_eq_2)
  ultimately show ?thesis unfolding pool_reachable_def
    by (rule converse_rtranclp_into_rtranclp [OF _ r_into_rtranclp])
qed

lemma only_successful_work_is_acknowledged_witness:
  "\<exists>acked sent. processSqsMessages (\<lambda>k es. Inr (map (Some \<circ> fst) es)) ack_example
       \<lparr>next_index = 2, slots = [Finished], successful = [0], stopping = False\<rparr> = Resolved (acked, sent)
     \<and> acked = int (length (concat sent)) \<and> (\<forall>e \<in> set sent. length e \<le> 10)"
proof -
  let ?p = "\<lparr>next_index = 2, slots = [Finished], successful = [0], stopping = False\<rparr>"
  let ?client = "\<lambda>(k::nat) (es::delete_entry list). Inr (map (Some \<circ> fst) es) :: unit + jstr option list"
  define r where "r = acknowledge ?client (map (\<lambda>i. ack_example ! i) [0])"
  have "pool_result ?p = Resolved [0]" by (simp add: pool_result_def is_timed_out_def)
  then have r: "processSqsMessages ?client ack_example ?p = Resolved (fst r, snd r)"
    by (simp only: processSqsMessages_def settled.case r_def prod.collapse)
  have "pool_reachable (length ack_example) (\<lambda>m. if m = 0 then Succeeds else Fails) False (Fin 1) False ?p"
    using ack_example_reachable by (simp add: ack_example_def numeral_2_eq_2)
  from only_successful_work_is_acknowledged [OF this r] r show ?thesis by blast
qed

end
