(* ===== verification/SqsWorker.thy ===== *)
theory SqsWorker
  imports SqsPool WorkerRegistry
begin

text \<open>
  The polling half of lib/core/sqs-worker.ts: \<^verbatim>\<open>startWorker\<close> with its concurrent pollers, the
  circuit breaker, the back-off and the shutdown and abort rules, over the worker registry.
  A worker is a state; the events are what its awaits can deliver, in any order: a receive
  settles, a batch settles, a sleep ends, a shutdown is requested. Each event runs one poller to
  its next await, as one turn of the event loop does.
\<close>

section \<open>The circuit breaker\<close>

definition POLL_BACKOFF_MIN_MS :: int where "POLL_BACKOFF_MIN_MS = 1000"
definition POLL_BACKOFF_MAX_MS :: int where "POLL_BACKOFF_MAX_MS = 30000"
definition MAX_CONSECUTIVE_ERRORS :: int where "MAX_CONSECUTIVE_ERRORS = 50"

lemmas worker_constants =
  POLL_BACKOFF_MIN_MS_def POLL_BACKOFF_MAX_MS_def MAX_CONSECUTIVE_ERRORS_def

definition no_messages :: "sqs_message list option \<Rightarrow> bool" where
  "no_messages ms = (case ms of None \<Rightarrow> True | Some l \<Rightarrow> l = [])"

definition isHealthySqsPoll :: "sqs_message list option \<Rightarrow> int \<Rightarrow> bool" where
  "isHealthySqsPoll ms acknowledged = (no_messages ms \<or> 0 < acknowledged)"

text \<open>The reason given to \<^verbatim>\<open>markWorkerDead\<close> is a string, so its class is the one of a non-error.\<close>

definition consecutiveFailure :: "jstr \<Rightarrow> int \<Rightarrow> registry \<Rightarrow> (int \<times> bool) \<times> registry" where
  "consecutiveFailure name previous reg =
     (let errors = previous + 1; shouldExit = MAX_CONSECUTIVE_ERRORS \<le> errors
      in ((errors, shouldExit), if shouldExit then markWorkerDead name NotAnError reg else reg))"

definition circuitBreakerAfterPoll ::
  "jstr \<Rightarrow> sqs_message list option \<Rightarrow> int \<Rightarrow> int \<Rightarrow> registry \<Rightarrow> (int \<times> bool) \<times> registry" where
  "circuitBreakerAfterPoll name ms acknowledged previous reg =
     (if no_messages ms then ((previous, False), reg)
      else if 0 < acknowledged then ((0, False), reg)
      else consecutiveFailure name previous reg)"

definition isAbortError :: "caught \<Rightarrow> bool" where
  "isAbortError e = (e = ErrorNamed (lit ''AbortError''))"

section \<open>Pollers\<close>

text \<open>
  Where a poller waits: at the loop condition, in the receive request, in the batch it handles, in
  a back-off sleep, or stopped, with whether its promise was rejected.
\<close>

datatype phase = LoopTop | Receiving | Handling "sqs_message list" | Sleeping | Stopped bool

record poller =
  phase :: phase
  pollBackoffMs :: int
  pollErrors :: int

record worker =
  reg :: registry
  shutdownRequested :: bool
  groupAborted :: bool
  pollers :: "poller list"

text \<open>
  What a worker is started with: its name, its queue URL, which an environment variable may leave
  undefined, what \<^verbatim>\<open>sqsClient()\<close> does (it throws without a region), and its two settings.
\<close>

record worker_cfg =
  cfg_name :: jstr
  cfg_queueUrl :: "jstr option"
  cfg_sqsClient :: "caught + unit"
  cfg_visibilityTimeout :: jnum
  cfg_pollConcurrency :: jnum

datatype event =
    Enter nat
  | ReceiveFails nat caught
  | ReceiveReturns nat "sqs_message list option"
  | BatchResolves nat int
  | BatchTimesOut nat
  | BatchFails nat caught
  | Wakes nat
  | Shutdown

definition set_poller :: "nat \<Rightarrow> poller \<Rightarrow> worker \<Rightarrow> worker" where
  "set_poller i p w = w\<lparr>pollers := (pollers w)[i := p]\<rparr>"

definition on_registry :: "(registry \<Rightarrow> registry) \<Rightarrow> worker \<Rightarrow> worker" where
  "on_registry f w = w\<lparr>reg := f (reg w)\<rparr>"

text \<open>
  \<^verbatim>\<open>runPoller\<close> returned (\<open>fatal\<close> false) or threw: the poller promise rejects unless the loop ended
  after a shutdown request, and the first rejection aborts the poller group.
\<close>

definition stop_poller :: "nat \<Rightarrow> bool \<Rightarrow> poller \<Rightarrow> worker \<Rightarrow> worker" where
  "stop_poller i fatal p w =
     (let rejected = (fatal \<or> \<not> shutdownRequested w)
      in (set_poller i (p\<lparr>phase := Stopped rejected\<rparr>) w)\<lparr>groupAborted := groupAborted w \<or> rejected\<rparr>)"

definition errors_update :: "int \<Rightarrow> processing_update" where
  "errors_update n = \<lparr>upd_received = None, upd_acked = None, upd_failed = None,
     upd_consecutiveErrors = Some (Fin (of_int n)), upd_lastMessageAgeMs = None\<rparr>"

text \<open>The two catch blocks: count the failure, then leave the loop or sleep.\<close>

definition poll_failure :: "worker_cfg \<Rightarrow> int \<Rightarrow> nat \<Rightarrow> poller \<Rightarrow> worker \<Rightarrow> worker" where
  "poll_failure cfg now i p w =
     (let ((errors, shouldExit), r) = consecutiveFailure (cfg_name cfg) (pollErrors p) (reg w);
          w1 = w\<lparr>reg := recordWorkerProcessing now (cfg_name cfg) (errors_update errors) r\<rparr>;
          p1 = p\<lparr>pollErrors := errors\<rparr>
      in if shouldExit then stop_poller i False p1 w1 else set_poller i (p1\<lparr>phase := Sleeping\<rparr>) w1)"

definition batch_update :: "int \<Rightarrow> sqs_message list \<Rightarrow> int \<Rightarrow> int \<Rightarrow> processing_update" where
  "batch_update now ms acks errors =
     \<lparr>upd_received = Some (Fin (of_nat (length ms))), upd_acked = Some (Fin (of_int acks)),
      upd_failed = Some (Fin (of_int (max 0 (int (length ms) - acks)))),
      upd_consecutiveErrors = Some (Fin (of_int errors)),
      upd_lastMessageAgeMs = Some (map_option (\<lambda>a. Fin (of_int a)) (observedMessageAgeMs now ms))\<rparr>"

definition enter_loop :: "nat \<Rightarrow> poller \<Rightarrow> worker \<Rightarrow> worker" where
  "enter_loop i p w =
     (if shutdownRequested w \<or> groupAborted w then stop_poller i False p w
      else set_poller i (p\<lparr>phase := Receiving\<rparr>) w)"

definition receive_failed :: "worker_cfg \<Rightarrow> int \<Rightarrow> nat \<Rightarrow> caught \<Rightarrow> poller \<Rightarrow> worker \<Rightarrow> worker" where
  "receive_failed cfg now i e p w =
     (if isAbortError e \<and> (shutdownRequested w \<or> groupAborted w) then stop_poller i False p w
      else poll_failure cfg now i p w)"

definition receive_returned ::
  "worker_cfg \<Rightarrow> int \<Rightarrow> nat \<Rightarrow> sqs_message list option \<Rightarrow> poller \<Rightarrow> worker \<Rightarrow> worker" where
  "receive_returned cfg now i ms p w =
     (let p1 = p\<lparr>pollBackoffMs := POLL_BACKOFF_MIN_MS\<rparr>; n = cfg_name cfg in
      if shutdownRequested w then stop_poller i False p1 w
      else if no_messages ms then
        set_poller i (p1\<lparr>phase := LoopTop\<rparr>)
          (on_registry (heartbeat now n \<circ>
             recordWorkerProcessing now n
               ((errors_update (pollErrors p))\<lparr>upd_lastMessageAgeMs := Some None\<rparr>)) w)
      else
        set_poller i (p1\<lparr>phase := Handling (the ms)\<rparr>)
          (on_registry (beginWorkerProcessing now n
               (Fin (of_int (processingDeadlineMsFromVisibilityTimeout (cfg_visibilityTimeout cfg))))
             \<circ> heartbeat now n) w))"

definition batch_resolved ::
  "worker_cfg \<Rightarrow> int \<Rightarrow> nat \<Rightarrow> sqs_message list \<Rightarrow> int \<Rightarrow> poller \<Rightarrow> worker \<Rightarrow> worker" where
  "batch_resolved cfg now i ms acks p w =
     (let n = cfg_name cfg;
          ((errors, shouldExit), r) =
            circuitBreakerAfterPoll n (Some ms) acks (pollErrors p) (endWorkerProcessing n (reg w));
          r1 = recordWorkerProcessing now n (batch_update now ms acks errors) r;
          p1 = p\<lparr>pollErrors := errors\<rparr>
      in if isHealthySqsPoll (Some ms) acks
         then set_poller i (p1\<lparr>phase := LoopTop\<rparr>) (w\<lparr>reg := heartbeat now n r1\<rparr>)
         else if shouldExit then stop_poller i False p1 (w\<lparr>reg := r1\<rparr>)
         else set_poller i (p1\<lparr>phase := LoopTop\<rparr>) (w\<lparr>reg := r1\<rparr>))"

text \<open>One event; \<open>None\<close> when it cannot happen in this state.\<close>

definition poller_event ::
  "worker_cfg \<Rightarrow> int \<Rightarrow> event \<Rightarrow> nat \<Rightarrow> poller \<Rightarrow> worker \<Rightarrow> worker option" where
  "poller_event cfg now ev i p w = (case (phase p, ev) of
     (LoopTop, Enter _) \<Rightarrow> Some (enter_loop i p w)
   | (Receiving, ReceiveFails _ e) \<Rightarrow> Some (receive_failed cfg now i e p w)
   | (Receiving, ReceiveReturns _ ms) \<Rightarrow> Some (receive_returned cfg now i ms p w)
   | (Handling ms, BatchResolves _ acks) \<Rightarrow> Some (batch_resolved cfg now i ms acks p w)
   | (Handling ms, BatchTimesOut _) \<Rightarrow>
       Some (stop_poller i True p (on_registry (endWorkerProcessing (cfg_name cfg)) w))
   | (Handling ms, BatchFails _ e) \<Rightarrow>
       Some (poll_failure cfg now i p (on_registry (endWorkerProcessing (cfg_name cfg)) w))
   | (Sleeping, Wakes _) \<Rightarrow>
       Some (set_poller i
         (p\<lparr>phase := LoopTop, pollBackoffMs := min (pollBackoffMs p * 2) POLL_BACKOFF_MAX_MS\<rparr>) w)
   | _ \<Rightarrow> None)"

fun event_poller :: "event \<Rightarrow> nat option" where
  "event_poller (Enter i) = Some i"
| "event_poller (ReceiveFails i e) = Some i"
| "event_poller (ReceiveReturns i ms) = Some i"
| "event_poller (BatchResolves i a) = Some i"
| "event_poller (BatchTimesOut i) = Some i"
| "event_poller (BatchFails i e) = Some i"
| "event_poller (Wakes i) = Some i"
| "event_poller Shutdown = None"

definition worker_step :: "worker_cfg \<Rightarrow> int \<times> event \<Rightarrow> worker \<Rightarrow> worker option" where
  "worker_step cfg x w = (case event_poller (snd x) of
     None \<Rightarrow> Some (w\<lparr>shutdownRequested := True\<rparr>)
   | Some i \<Rightarrow> if i < length (pollers w) then poller_event cfg (fst x) (snd x) i (pollers w ! i) w else None)"

fun run_worker :: "worker_cfg \<Rightarrow> (int \<times> event) list \<Rightarrow> worker \<Rightarrow> worker option" where
  "run_worker cfg [] w = Some w"
| "run_worker cfg (x # xs) w = Option.bind (worker_step cfg x w) (run_worker cfg xs)"

text \<open>\<^verbatim>\<open>bootstrapWorker\<close> gives a client only with a queue URL and when the client can be made.\<close>

definition bootstrapWorker :: "worker_cfg \<Rightarrow> bool" where
  "bootstrapWorker cfg = (case cfg_queueUrl cfg of
     None \<Rightarrow> False
   | Some url \<Rightarrow> url \<noteq> [] \<and> (case cfg_sqsClient cfg of Inl _ \<Rightarrow> False | Inr _ \<Rightarrow> True))"

text \<open>
  The start of \<^verbatim>\<open>startWorker\<close>: without a client it returns at once, before the worker is
  registered; otherwise \<^verbatim>\<open>registerWorker\<close> runs and the pollers are created.
\<close>

definition start_worker :: "worker_cfg \<Rightarrow> int \<Rightarrow> bool \<Rightarrow> registry \<Rightarrow> worker" where
  "start_worker cfg now halted r =
     (if \<not> bootstrapWorker cfg
      then \<lparr>reg = r, shutdownRequested = halted, groupAborted = False, pollers = []\<rparr>
      else \<lparr>reg = registerWorker now (cfg_name cfg) r, shutdownRequested = halted, groupAborted = False,
      pollers = replicate (nat (normalizeSqsWorkerCount (cfg_pollConcurrency cfg)))
        \<lparr>phase = LoopTop, pollBackoffMs = POLL_BACKOFF_MIN_MS, pollErrors = 0\<rparr>\<rparr>)"

text \<open>
  The end of \<^verbatim>\<open>startWorker\<close>: without a client the promise resolves and the registry is as it
  was; otherwise, once every poller has stopped, the promise rejects if one of them did, and the
  registry entry is marked dead either way.
\<close>

definition finish_worker :: "worker_cfg \<Rightarrow> caught \<Rightarrow> worker \<Rightarrow> (registry \<times> bool) option" where
  "finish_worker cfg fatalError w =
     (if \<not> bootstrapWorker cfg then Some (reg w, True)
      else if list_all (\<lambda>p. \<exists>b. phase p = Stopped b) (pollers w)
      then if list_ex (\<lambda>p. phase p = Stopped True) (pollers w)
           then Some (markWorkerDead (cfg_name cfg) fatalError (reg w), False)
           else Some (markWorkerDead (cfg_name cfg) NotAnError (reg w), True)
      else None)"

section \<open>The invariant of a worker\<close>

text \<open>The in-flight count the registry keeps for a name, and how the registry operations move it.\<close>

definition in_proc :: "jstr \<Rightarrow> registry \<Rightarrow> int option" where
  "in_proc n r = map_option processingCount (map_of r n)"

lemma in_proc_ops [simp]:
  "in_proc n (heartbeat now m r) = in_proc n r"
  "in_proc n (recordWorkerProcessing now m u r) = in_proc n r"
  "in_proc n (markWorkerDead m e r) = in_proc n r"
  "in_proc n (beginWorkerProcessing now n d r) = map_option (\<lambda>k. k + 1) (in_proc n r)"
  "in_proc n (endWorkerProcessing n r) = map_option (\<lambda>k. max 0 (k - 1)) (in_proc n r)"
  "in_proc n (registerWorker now n r) = Some 0"
  by (cases "map_of r n"; auto simp: in_proc_def heartbeat_def recordWorkerProcessing_def
      markWorkerDead_def beginWorkerProcessing_def endWorkerProcessing_def map_of_with_entry
      Let_def fresh_worker_def)+

lemma consecutiveFailure_facts [simp]:
  "fst (consecutiveFailure n k r) = (k + 1, 50 \<le> k + 1)"
  "in_proc m (snd (consecutiveFailure n k r)) = in_proc m r"
  "registry_ok r \<Longrightarrow> registry_ok (snd (consecutiveFailure n k r))"
  by (simp_all add: consecutiveFailure_def worker_constants Let_def markWorkerDead_ok)

lemma circuitBreakerAfterPoll_facts [simp]:
  "fst (circuitBreakerAfterPoll n ms a k r) =
     (if no_messages ms then (k, False) else if 0 < a then (0, False) else (k + 1, 50 \<le> k + 1))"
  "in_proc m (snd (circuitBreakerAfterPoll n ms a k r)) = in_proc m r"
  "registry_ok r \<Longrightarrow> registry_ok (snd (circuitBreakerAfterPoll n ms a k r))"
  by (simp_all add: circuitBreakerAfterPoll_def)

fun handling_phase :: "phase \<Rightarrow> bool" where
  "handling_phase (Handling ms) = True"
| "handling_phase _ = False"

fun stopped_phase :: "phase \<Rightarrow> bool" where
  "stopped_phase (Stopped b) = True"
| "stopped_phase _ = False"

abbreviation is_handling :: "poller \<Rightarrow> bool" where
  "is_handling p \<equiv> handling_phase (phase p)"

abbreviation is_stopped :: "poller \<Rightarrow> bool" where
  "is_stopped p \<equiv> stopped_phase (phase p)"

definition handling_count :: "worker \<Rightarrow> int" where
  "handling_count w = int (length (filter is_handling (pollers w)))"

text \<open>
  A poller keeps its back-off between one and thirty seconds and stops at the fiftieth consecutive
  error; it stops without rejecting only once a shutdown was requested.
\<close>

definition poller_ok :: "bool \<Rightarrow> poller \<Rightarrow> bool" where
  "poller_ok stopping_now p \<longleftrightarrow>
     1000 \<le> pollBackoffMs p \<and> pollBackoffMs p \<le> 30000 \<and> 0 \<le> pollErrors p \<and> pollErrors p \<le> 50
     \<and> (pollErrors p = 50 \<longrightarrow> is_stopped p) \<and> (phase p = Stopped False \<longrightarrow> stopping_now)
     \<and> phase p \<noteq> Handling []"

definition worker_inv :: "worker_cfg \<Rightarrow> worker \<Rightarrow> bool" where
  "worker_inv cfg w \<longleftrightarrow>
     registry_ok (reg w)
     \<and> (if bootstrapWorker cfg then in_proc (cfg_name cfg) (reg w) = Some (handling_count w)
         else pollers w = [])
     \<and> list_all (poller_ok (shutdownRequested w)) (pollers w)
     \<and> (groupAborted w \<longleftrightarrow> list_ex (\<lambda>p. phase p = Stopped True) (pollers w))"

lemma list_ex_update:
  "i < length xs \<Longrightarrow> \<not> P (xs ! i) \<Longrightarrow> list_ex P (xs[i := y]) \<longleftrightarrow> list_ex P xs \<or> P y"
proof (induction xs arbitrary: i)
  case (Cons x xs)
  then show ?case by (cases i) auto
qed simp

lemma list_all_update: "list_all P xs \<Longrightarrow> P y \<Longrightarrow> list_all P (xs[i := y])"
  using set_update_subset_insert [of xs i y] by (auto simp: list_all_iff)

lemma worker_inv_update:
  assumes "worker_inv cfg w" "i < length (pollers w)" "\<not> is_stopped (pollers w ! i)"
    and "registry_ok (reg w')" "in_proc (cfg_name cfg) (reg w') = Some k"
    and "k + (if is_handling (pollers w ! i) then 1 else 0)
         = handling_count w + (if is_handling p' then 1 else 0)"
    and "poller_ok (shutdownRequested w) p'" "pollers w' = (pollers w)[i := p']"
    and "shutdownRequested w' = shutdownRequested w"
    and "groupAborted w' \<longleftrightarrow> groupAborted w \<or> phase p' = Stopped True"
  shows "worker_inv cfg w'"
proof -
  have boot: "bootstrapWorker cfg" using assms(1,2) by (auto simp: worker_inv_def split: if_splits)
  have "phase (pollers w ! i) \<noteq> Stopped True" using assms(3) by auto
  then have aborted: "groupAborted w' \<longleftrightarrow> list_ex (\<lambda>p. phase p = Stopped True) (pollers w')"
    using assms(1,10) list_ex_update [OF assms(2), of "\<lambda>p. phase p = Stopped True" p']
    unfolding assms(8) worker_inv_def by blast
  have "handling_count w' + (if is_handling (pollers w ! i) then 1 else 0)
        = handling_count w + (if is_handling p' then 1 else 0)"
    using length_filter_update [OF assms(2), of is_handling p'] unfolding handling_count_def assms(8)
    by (simp split: if_splits)
  then have "k = handling_count w'" using assms(6) by simp
  with aborted show ?thesis
    using assms(1,4,5,7,9) boot unfolding worker_inv_def assms(8) by (simp add: list_all_update)
qed

lemma stop_poller_simps [simp]:
  "reg (stop_poller i fatal p w) = reg w"
  "shutdownRequested (stop_poller i fatal p w) = shutdownRequested w"
  "pollers (stop_poller i fatal p w)
     = (pollers w)[i := p\<lparr>phase := Stopped (fatal \<or> \<not> shutdownRequested w)\<rparr>]"
  "groupAborted (stop_poller i fatal p w) \<longleftrightarrow> groupAborted w \<or> fatal \<or> \<not> shutdownRequested w"
  by (simp_all add: stop_poller_def set_poller_def Let_def)

lemma set_poller_simps [simp]:
  "reg (set_poller i p w) = reg w"
  "shutdownRequested (set_poller i p w) = shutdownRequested w"
  "pollers (set_poller i p w) = (pollers w)[i := p]"
  "groupAborted (set_poller i p w) = groupAborted w"
  by (simp_all add: set_poller_def)

lemma on_registry_simps [simp]:
  "reg (on_registry f w) = f (reg w)"
  "shutdownRequested (on_registry f w) = shutdownRequested w"
  "pollers (on_registry f w) = pollers w"
  "groupAborted (on_registry f w) = groupAborted w"
  by (simp_all add: on_registry_def)

text \<open>What the two catch blocks and a settled batch leave in the poller and in the worker.\<close>

definition failed_poller :: "bool \<Rightarrow> poller \<Rightarrow> poller" where
  "failed_poller halted p = p\<lparr>pollErrors := pollErrors p + 1,
     phase := (if 50 \<le> pollErrors p + 1 then Stopped (\<not> halted) else Sleeping)\<rparr>"

lemma poll_failure_facts:
  "pollers (poll_failure cfg now i p w) = (pollers w)[i := failed_poller (shutdownRequested w) p]"
  "shutdownRequested (poll_failure cfg now i p w) = shutdownRequested w"
  "groupAborted (poll_failure cfg now i p w)
     \<longleftrightarrow> groupAborted w \<or> phase (failed_poller (shutdownRequested w) p) = Stopped True"
  "in_proc m (reg (poll_failure cfg now i p w)) = in_proc m (reg w)"
  "registry_ok (reg w) \<Longrightarrow> registry_ok (reg (poll_failure cfg now i p w))"
  by (auto simp: poll_failure_def Let_def split_beta failed_poller_def recordWorkerProcessing_ok)

definition resolved_poller :: "bool \<Rightarrow> sqs_message list \<Rightarrow> int \<Rightarrow> poller \<Rightarrow> poller" where
  "resolved_poller halted ms acks p =
     (if ms = [] then p\<lparr>phase := LoopTop\<rparr>
      else if 0 < acks then p\<lparr>pollErrors := 0, phase := LoopTop\<rparr>
      else p\<lparr>pollErrors := pollErrors p + 1,
             phase := (if 50 \<le> pollErrors p + 1 then Stopped (\<not> halted) else LoopTop)\<rparr>)"

lemma batch_resolved_facts:
  "pollers (batch_resolved cfg now i ms acks p w)
     = (pollers w)[i := resolved_poller (shutdownRequested w) ms acks p]"
  "shutdownRequested (batch_resolved cfg now i ms acks p w) = shutdownRequested w"
  "groupAborted (batch_resolved cfg now i ms acks p w)
     \<longleftrightarrow> groupAborted w \<or> phase (resolved_poller (shutdownRequested w) ms acks p) = Stopped True"
  "in_proc (cfg_name cfg) (reg (batch_resolved cfg now i ms acks p w))
     = in_proc (cfg_name cfg) (endWorkerProcessing (cfg_name cfg) (reg w))"
  "registry_ok (reg w) \<Longrightarrow> registry_ok (reg (batch_resolved cfg now i ms acks p w))"
  by (auto simp: batch_resolved_def Let_def split_beta resolved_poller_def isHealthySqsPoll_def
      no_messages_def recordWorkerProcessing_ok heartbeat_ok endWorkerProcessing_ok)

lemma poller_ok_failed:
  assumes "poller_ok halted p" "\<not> is_stopped p"
  shows "poller_ok halted (failed_poller halted p)"
  using assms by (auto simp: poller_ok_def failed_poller_def)

lemma poller_ok_resolved:
  assumes "poller_ok halted p" "\<not> is_stopped p"
  shows "poller_ok halted (resolved_poller halted ms acks p)"
  using assms by (auto simp: poller_ok_def resolved_poller_def)

lemma not_handling_after [simp]:
  "\<not> handling_phase (phase (failed_poller halted p))"
  "\<not> handling_phase (phase (resolved_poller halted ms acks p))"
  by (simp_all add: failed_poller_def resolved_poller_def)

lemma handling_count_pos:
  assumes "i < length (pollers w)" "is_handling (pollers w ! i)"
  shows "0 < handling_count w"
proof -
  have "pollers w ! i \<in> set (filter is_handling (pollers w))" using assms by simp
  then show ?thesis unfolding handling_count_def by (cases "filter is_handling (pollers w)") auto
qed

lemma poller_event_inv:
  assumes inv: "worker_inv cfg w" and i: "i < length (pollers w)"
    and ev: "poller_event cfg now ev i (pollers w ! i) w = Some w'"
  shows "worker_inv cfg w'"
proof -
  let ?p = "pollers w ! i" and ?n = "cfg_name cfg"
  have ok: "poller_ok (shutdownRequested w) ?p" "registry_ok (reg w)"
      "in_proc ?n (reg w) = Some (handling_count w)"
    using inv i by (auto simp: worker_inv_def list_all_length split: if_splits)
  have pos: "is_handling ?p \<Longrightarrow> 0 < handling_count w" using handling_count_pos i by blast
  have run: "\<not> is_stopped ?p" using ev by (auto simp: poller_event_def split: phase.splits event.splits)
  note upd = worker_inv_update [OF inv i run]
  show ?thesis
  proof (cases "phase ?p")
    case LoopTop
    with ev have w': "w' = enter_loop i ?p w" by (auto simp: poller_event_def split: event.splits)
    show ?thesis unfolding w' enter_loop_def
      by (cases "shutdownRequested w \<or> groupAborted w";
          simp, rule upd [where k = "handling_count w"], insert ok LoopTop) (auto simp: poller_ok_def)
  next
    case Receiving
    then consider e where "w' = receive_failed cfg now i e ?p w"
      | ms where "w' = receive_returned cfg now i ms ?p w"
      using ev by (auto simp: poller_event_def split: event.splits)
    then show ?thesis
    proof cases
      case 1
      show ?thesis
      proof (cases "isAbortError e \<and> (shutdownRequested w \<or> groupAborted w)")
        case True
        then show ?thesis unfolding 1 receive_failed_def
          by (simp, intro upd [where k = "handling_count w"])
            (use ok Receiving in \<open>auto simp: poller_ok_def\<close>)
      next
        case False
        then have "w' = poll_failure cfg now i ?p w" by (simp only: 1 receive_failed_def if_False)
        then show ?thesis
          by (intro upd [where k = "handling_count w" and p' = "failed_poller (shutdownRequested w) ?p"])
            (use ok Receiving run in \<open>simp_all add: poll_failure_facts poller_ok_failed\<close>)
      qed
    next
      case 2
      show ?thesis
        unfolding 2 receive_returned_def Let_def
        by (cases "shutdownRequested w"; cases "no_messages ms"; simp,
            rule upd [where k = "handling_count w + (if shutdownRequested w \<or> no_messages ms then 0 else 1)"],
            insert ok Receiving)
          (auto simp: poller_ok_def worker_constants no_messages_def heartbeat_ok
            recordWorkerProcessing_ok beginWorkerProcessing_ok split: option.splits)
    qed
  next
    case (Handling ms)
    then consider a where "w' = batch_resolved cfg now i ms a ?p w"
      | "w' = stop_poller i True ?p (on_registry (endWorkerProcessing ?n) w)"
      | "w' = poll_failure cfg now i ?p (on_registry (endWorkerProcessing ?n) w)"
      using ev by (auto simp: poller_event_def split: event.splits)
    then show ?thesis
    proof cases
      case (1 a)
      then show ?thesis
        by (intro upd [where k = "handling_count w - 1"
              and p' = "resolved_poller (shutdownRequested w) ms a ?p"])
          (use ok Handling run pos in \<open>simp_all add: batch_resolved_facts poller_ok_resolved\<close>)
    next
      case 2
      then show ?thesis
        by (intro upd [where k = "handling_count w - 1" and p' = "?p\<lparr>phase := Stopped True\<rparr>"])
          (use ok Handling pos in \<open>auto simp: poller_ok_def endWorkerProcessing_ok\<close>)
    next
      case 3
      then show ?thesis
        by (intro upd [where k = "handling_count w - 1"
              and p' = "failed_poller (shutdownRequested w) ?p"])
          (use ok Handling run pos in
            \<open>simp_all add: poll_failure_facts poller_ok_failed endWorkerProcessing_ok\<close>)
    qed
  next
    case Sleeping
    with ev have w': "w' = set_poller i
        (?p\<lparr>phase := LoopTop, pollBackoffMs := min (pollBackoffMs ?p * 2) POLL_BACKOFF_MAX_MS\<rparr>) w"
      by (auto simp: poller_event_def split: event.splits)
    show ?thesis unfolding w'
      by (rule upd [where k = "handling_count w"])
        (use ok Sleeping in \<open>auto simp: poller_ok_def worker_constants\<close>)
  next
    case (Stopped b)
    with run show ?thesis by simp
  qed
qed

lemma worker_step_inv: "worker_inv cfg w \<Longrightarrow> worker_step cfg x w = Some w' \<Longrightarrow> worker_inv cfg w'"
proof -
  assume inv: "worker_inv cfg w" and step: "worker_step cfg x w = Some w'"
  show ?thesis
  proof (cases "event_poller (snd x)")
    case None
    then have "w' = w\<lparr>shutdownRequested := True\<rparr>" using step by (simp add: worker_step_def)
    then show ?thesis using inv
      by (auto simp: worker_inv_def handling_count_def poller_ok_def list_all_iff)
  next
    case (Some i)
    then show ?thesis using step poller_event_inv [OF inv] by (auto simp: worker_step_def split: if_splits)
  qed
qed

lemma run_worker_inv: "worker_inv cfg w \<Longrightarrow> run_worker cfg evs w = Some w' \<Longrightarrow> worker_inv cfg w'"
proof (induction evs arbitrary: w)
  case (Cons x evs)
  then obtain w1 where "worker_step cfg x w = Some w1" "run_worker cfg evs w1 = Some w'"
    by (auto simp: Option.bind_eq_Some_conv)
  with Cons show ?case using worker_step_inv by blast
qed simp

lemma start_worker_inv: "registry_ok r \<Longrightarrow> worker_inv cfg (start_worker cfg now halted r)"
  by (simp add: worker_inv_def start_worker_def handling_count_def registerWorker_ok list_all_iff
      list_ex_iff poller_ok_def worker_constants)

lemma worker_step_length: "worker_step cfg x w = Some w' \<Longrightarrow> length (pollers w') = length (pollers w)"
  by (auto simp: worker_step_def poller_event_def enter_loop_def receive_failed_def receive_returned_def
      Let_def poll_failure_facts batch_resolved_facts
      split: option.splits phase.splits event.splits if_splits)

lemma run_worker_length: "run_worker cfg evs w = Some w' \<Longrightarrow> length (pollers w') = length (pollers w)"
proof (induction evs arbitrary: w)
  case (Cons x evs)
  then show ?case using worker_step_length by (fastforce simp: Option.bind_eq_Some_conv)
qed simp

lemma run_worker_without_pollers:
  "run_worker cfg evs w = Some w' \<Longrightarrow> pollers w = [] \<Longrightarrow> reg w' = reg w"
proof (induction evs arbitrary: w)
  case (Cons x evs)
  then obtain w1 where w1: "worker_step cfg x w = Some w1" "run_worker cfg evs w1 = Some w'"
    by (auto simp: Option.bind_eq_Some_conv)
  have "reg w1 = reg w" "pollers w1 = []"
    using w1(1) Cons.prems(2) by (auto simp: worker_step_def split: option.splits)
  with Cons.IH [OF w1(2)] show ?case by simp
qed simp

text \<open>The length of the current run of failures of poller \<open>i\<close>, read off the events alone.\<close>

fun streak_after :: "nat \<Rightarrow> event \<Rightarrow> int \<Rightarrow> int" where
  "streak_after i (ReceiveFails j e) k = (if j = i then k + 1 else k)"
| "streak_after i (BatchFails j e) k = (if j = i then k + 1 else k)"
| "streak_after i (BatchResolves j acks) k = (if j = i then (if 0 < acks then 0 else k + 1) else k)"
| "streak_after i _ k = k"

definition failure_streak :: "nat \<Rightarrow> (int \<times> event) list \<Rightarrow> int \<Rightarrow> int" where
  "failure_streak i evs k = fold (\<lambda>x. streak_after i (snd x)) evs k"

lemma poller_event_other:
  assumes "poller_event cfg now ev j p w = Some w'" "i \<noteq> j"
  shows "pollers w' ! i = pollers w ! i"
  using assms
  by (auto simp: poller_event_def enter_loop_def receive_failed_def receive_returned_def Let_def
      poll_failure_facts batch_resolved_facts split: phase.splits event.splits if_splits)

lemma poller_event_streak:
  assumes "poller_event cfg now ev i p w = Some w'" "event_poller ev = Some i" "i < length (pollers w)"
    and "phase p \<noteq> Handling []" "\<not> is_stopped (pollers w' ! i)"
  shows "pollErrors (pollers w' ! i) = streak_after i ev (pollErrors p) \<and> \<not> is_stopped p"
  using assms
  by (auto simp: poller_event_def enter_loop_def receive_failed_def receive_returned_def Let_def
      poll_failure_facts batch_resolved_facts failed_poller_def resolved_poller_def
      split: phase.splits event.splits if_splits)

lemma run_worker_streak:
  "\<lbrakk>run_worker cfg evs w = Some w'; worker_inv cfg w; i < length (pollers w); \<not> is_stopped (pollers w' ! i)\<rbrakk>
   \<Longrightarrow> pollErrors (pollers w' ! i) = failure_streak i evs (pollErrors (pollers w ! i))
       \<and> \<not> is_stopped (pollers w ! i) \<and> length (pollers w') = length (pollers w)"
proof (induction evs arbitrary: w)
  case Nil
  then show ?case by (simp add: failure_streak_def)
next
  case (Cons x evs)
  then obtain w1 where w1: "worker_step cfg x w = Some w1" "run_worker cfg evs w1 = Some w'"
    by (auto simp: Option.bind_eq_Some_conv)
  have len: "length (pollers w1) = length (pollers w)"
    by (rule worker_step_length [OF w1(1)])
  have IH: "pollErrors (pollers w' ! i) = failure_streak i evs (pollErrors (pollers w1 ! i))"
      "\<not> is_stopped (pollers w1 ! i)" "length (pollers w') = length (pollers w1)"
    using Cons.IH [OF w1(2) worker_step_inv [OF Cons.prems(2) w1(1)]] Cons.prems(3,4) len by auto
  have "pollErrors (pollers w1 ! i) = streak_after i (snd x) (pollErrors (pollers w ! i))
        \<and> \<not> is_stopped (pollers w ! i)"
  proof (cases "event_poller (snd x)")
    case None
    then have "snd x = Shutdown" by (cases "snd x") auto
    then show ?thesis using w1(1) IH(2) by (auto simp: worker_step_def)
  next
    case (Some j)
    then have ev: "poller_event cfg (fst x) (snd x) j (pollers w ! j) w = Some w1" "j < length (pollers w)"
      using w1(1) by (auto simp: worker_step_def split: if_splits)
    show ?thesis
    proof (cases "j = i")
      case True
      have "phase (pollers w ! i) \<noteq> Handling []"
        using Cons.prems(2,3) by (auto simp: worker_inv_def list_all_length poller_ok_def)
      then show ?thesis using poller_event_streak [of cfg "fst x" "snd x" i] ev Some True IH(2) by simp
    next
      case False
      then have "streak_after i (snd x) k = k" for k using Some by (cases "snd x") auto
      then show ?thesis using poller_event_other [OF ev(1), of i] False IH(2) by simp
    qed
  qed
  then show ?case using IH len by (simp add: failure_streak_def)
qed

section \<open>Draining\<close>

text \<open>How many more turns a poller can take once a shutdown was requested or a sibling failed.\<close>

fun phase_rank :: "phase \<Rightarrow> nat" where
  "phase_rank Receiving = 4"
| "phase_rank (Handling ms) = 3"
| "phase_rank Sleeping = 2"
| "phase_rank LoopTop = 1"
| "phase_rank (Stopped b) = 0"

definition worker_rank :: "worker \<Rightarrow> nat" where
  "worker_rank w = sum_list (map (\<lambda>p. phase_rank (phase p)) (pollers w))"

definition halting :: "worker \<Rightarrow> bool" where
  "halting w \<longleftrightarrow> shutdownRequested w \<or> groupAborted w"

lemma sum_list_map_update:
  "i < length xs \<Longrightarrow> sum_list (map f (xs[i := y])) + f (xs ! i) = sum_list (map f xs) + (f y :: nat)"
proof (induction xs arbitrary: i)
  case (Cons x xs)
  then show ?case by (cases i) (auto simp: algebra_simps)
qed simp

lemma worker_rank_update:
  assumes "i < length (pollers w)" "pollers w' = (pollers w)[i := p']"
    and "phase_rank (phase p') < phase_rank (phase (pollers w ! i))"
  shows "worker_rank w' < worker_rank w"
proof -
  let ?f = "\<lambda>p. phase_rank (phase p)"
  have "sum_list (map ?f ((pollers w)[i := p'])) + ?f (pollers w ! i) = sum_list (map ?f (pollers w)) + ?f p'"
    using assms(1) by (rule sum_list_map_update)
  with assms(2,3) show ?thesis unfolding worker_rank_def by simp
qed

lemma poller_event_halting:
  assumes "halting w" "i < length (pollers w)" "poller_event cfg now ev i (pollers w ! i) w = Some w'"
  shows "halting w'" "worker_rank w' < worker_rank w"
    "shutdownRequested w' = shutdownRequested w"
proof -
  show "shutdownRequested w' = shutdownRequested w"
    using assms(3)
    by (auto simp: poller_event_def enter_loop_def receive_failed_def receive_returned_def Let_def
        poll_failure_facts batch_resolved_facts split: phase.splits event.splits if_splits)
  show "halting w'"
    using assms unfolding halting_def
    by (auto simp: poller_event_def enter_loop_def receive_failed_def receive_returned_def Let_def
        poll_failure_facts batch_resolved_facts split: phase.splits event.splits if_splits)
  obtain p' where "pollers w' = (pollers w)[i := p']"
      "phase_rank (phase p') < phase_rank (phase (pollers w ! i))"
    using assms unfolding halting_def
    by (auto simp: poller_event_def enter_loop_def receive_failed_def receive_returned_def Let_def
        poll_failure_facts batch_resolved_facts failed_poller_def resolved_poller_def
        split: phase.splits event.splits if_splits)
  then show "worker_rank w' < worker_rank w" using worker_rank_update [OF assms(2)] by blast
qed

lemma run_worker_rank:
  "halting w \<Longrightarrow> run_worker cfg evs w = Some w' \<Longrightarrow>
   halting w' \<and> length (filter (\<lambda>x. snd x \<noteq> Shutdown) evs) + worker_rank w' \<le> worker_rank w"
proof (induction evs arbitrary: w)
  case (Cons x evs)
  then obtain w1 where w1: "worker_step cfg x w = Some w1" "run_worker cfg evs w1 = Some w'"
    by (auto simp: Option.bind_eq_Some_conv)
  show ?case
  proof (cases "event_poller (snd x)")
    case None
    then have "snd x = Shutdown" by (cases "snd x") auto
    moreover have "w1 = w\<lparr>shutdownRequested := True\<rparr>" using w1(1) None by (simp add: worker_step_def)
    ultimately show ?thesis using Cons.IH [OF _ w1(2)] by (simp add: halting_def worker_rank_def)
  next
    case (Some i)
    then have ev: "i < length (pollers w)" "poller_event cfg (fst x) (snd x) i (pollers w ! i) w = Some w1"
      using w1(1) by (auto simp: worker_step_def split: if_splits)
    have "halting w1" "worker_rank w1 < worker_rank w"
      using poller_event_halting [OF Cons.prems(1) ev] by auto
    then show ?thesis using Cons.IH [OF _ w1(2)] by auto
  qed
qed simp

section \<open>Properties\<close>

text \<open>
  After every history of events of every number of pollers, the registry's in-flight count of
  the worker is the number of its pollers that hold a batch, each back-off lies between one and
  thirty seconds, and a poller with fifty consecutive errors has stopped.
\<close>

theorem worker_bookkeeping:
  assumes "run_worker cfg evs (start_worker cfg now halted (run_ops ops [])) = Some w" "bootstrapWorker cfg"
  shows "in_proc (cfg_name cfg) (reg w) = Some (int (length (filter is_handling (pollers w))))
         \<and> (\<forall>p \<in> set (pollers w). 1000 \<le> pollBackoffMs p \<and> pollBackoffMs p \<le> 30000
               \<and> 0 \<le> pollErrors p \<and> pollErrors p \<le> 50 \<and> (pollErrors p = 50 \<longrightarrow> is_stopped p))"
  using run_worker_inv [OF start_worker_inv [OF run_ops_ok [OF registry_ok_empty]] assms(1)] assms(2)
  by (auto simp: worker_inv_def handling_count_def poller_ok_def list_all_iff)

definition example_cfg :: worker_cfg where
  "example_cfg = \<lparr>cfg_name = lit ''w'', cfg_queueUrl = Some (lit ''q''), cfg_sqsClient = Inr (), cfg_visibilityTimeout = Fin 120, cfg_pollConcurrency = Fin 2\<rparr>"

lemma example_boots [simp]: "bootstrapWorker example_cfg"
  by (simp add: bootstrapWorker_def example_cfg_def)

lemma example_runs:
  "run_worker example_cfg [(0, Enter 0)] (start_worker example_cfg 0 False (run_ops [] [])) =
     Some ((start_worker example_cfg 0 False [])\<lparr>pollers :=
       [\<lparr>phase = Receiving, pollBackoffMs = 1000, pollErrors = 0\<rparr>,
        \<lparr>phase = LoopTop, pollBackoffMs = 1000, pollErrors = 0\<rparr>]\<rparr>)"
proof -
  have "nat (normalizeSqsWorkerCount (Fin 2)) = 2" by code_simp
  then have "pollers (start_worker example_cfg 0 False []) =
     [\<lparr>phase = LoopTop, pollBackoffMs = 1000, pollErrors = 0\<rparr>,
      \<lparr>phase = LoopTop, pollBackoffMs = 1000, pollErrors = 0\<rparr>]"
    by (simp add: start_worker_def) (simp add: example_cfg_def worker_constants numeral_2_eq_2)
  moreover have "shutdownRequested (start_worker example_cfg 0 False []) = False"
      "groupAborted (start_worker example_cfg 0 False []) = False"
    by (simp_all add: start_worker_def)
  ultimately show ?thesis
    by (simp add: worker_step_def poller_event_def enter_loop_def set_poller_def)
qed

lemma worker_bookkeeping_witness:
  "in_proc (lit ''w'') (reg ((start_worker example_cfg 0 False [])\<lparr>pollers :=
       [\<lparr>phase = Receiving, pollBackoffMs = 1000, pollErrors = 0\<rparr>,
        \<lparr>phase = LoopTop, pollBackoffMs = 1000, pollErrors = 0\<rparr>]\<rparr>)) = Some 0"
  using worker_bookkeeping [OF example_runs example_boots] by (simp add: example_cfg_def)

text \<open>
  C16: the circuit breaker. While a poller runs, its error counter is the number of failures since
  the last acknowledged batch: a failed receive, an unacknowledged batch and an unexpected error
  each add one, only an acknowledgement clears it, and idle polls leave it alone. It is below fifty,
  so the fiftieth failure in a row stops the poller.
\<close>

theorem circuit_breaker_counts_unbroken_failures:
  assumes "run_worker cfg evs (start_worker cfg now halted (run_ops ops [])) = Some w"
    and "i < length (pollers w)" "\<not> is_stopped (pollers w ! i)"
  shows "pollErrors (pollers w ! i) = failure_streak i evs 0 \<and> failure_streak i evs 0 < 50"
proof -
  let ?w0 = "start_worker cfg now halted (run_ops ops [])"
  have inv0: "worker_inv cfg ?w0" by (simp add: start_worker_inv run_ops_ok)
  have inv: "worker_inv cfg w" by (rule run_worker_inv [OF inv0 assms(1)])
  have i: "i < length (pollers ?w0)" using run_worker_length [OF assms(1)] assms(2) by simp
  have "pollErrors (pollers w ! i) = failure_streak i evs (pollErrors (pollers ?w0 ! i))"
    using run_worker_streak [OF assms(1) inv0 i assms(3)] by simp
  moreover have "pollErrors (pollers ?w0 ! i) = 0" using i by (simp add: start_worker_def split: if_splits)
  moreover have "poller_ok (shutdownRequested w) (pollers w ! i)"
    using inv assms(2) by (simp add: worker_inv_def list_all_length)
  ultimately show ?thesis using assms(3) by (auto simp: poller_ok_def)
qed

lemma circuit_breaker_counts_unbroken_failures_witness:
  "failure_streak 0 [(0, Enter 0)] 0 < 50"
proof -
  let ?w = "(start_worker example_cfg 0 False [])\<lparr>pollers :=
       [\<lparr>phase = Receiving, pollBackoffMs = 1000, pollErrors = 0\<rparr>,
        \<lparr>phase = LoopTop, pollBackoffMs = 1000, pollErrors = 0\<rparr>]\<rparr>"
  have "0 < length (pollers ?w)" "\<not> is_stopped (pollers ?w ! 0)" by simp_all
  from circuit_breaker_counts_unbroken_failures [OF example_runs this] show ?thesis by blast
qed

text \<open>
  C17: shutdown and sibling failure drain the worker. From the moment either is known, every run has
  at most four turns per poller, and when no turn is left every poller has stopped, so that
  \<^verbatim>\<open>startWorker\<close> settles.
\<close>

theorem halting_worker_drains:
  assumes "halting w" "run_worker cfg evs w = Some w'"
  shows "length (filter (\<lambda>x. snd x \<noteq> Shutdown) evs) \<le> 4 * length (pollers w)
         \<and> (finish_worker cfg e w' \<noteq> None
             \<or> (\<exists>ev. ev \<noteq> Shutdown \<and> worker_step cfg (now, ev) w' \<noteq> None))"
proof -
  have "phase_rank ph \<le> 4" for ph by (cases ph) auto
  then have "worker_rank w \<le> 4 * length (pollers w)"
    unfolding worker_rank_def using sum_list_mono [of "pollers w" "\<lambda>p. phase_rank (phase p)" "\<lambda>_. 4"]
    by (simp add: sum_list_triv)
  then have "length (filter (\<lambda>x. snd x \<noteq> Shutdown) evs) \<le> 4 * length (pollers w)"
    using run_worker_rank [OF assms] by simp
  moreover have "finish_worker cfg e w' \<noteq> None" if none: "\<not> (\<exists>ev. ev \<noteq> Shutdown \<and> worker_step cfg (now, ev) w' \<noteq> None)"
  proof -
    have "\<exists>b. phase (pollers w' ! i) = Stopped b" if i: "i < length (pollers w')" for i
    proof (rule ccontr)
      assume "\<not> ?thesis"
      then have "\<exists>ev. event_poller ev = Some i \<and> poller_event cfg now ev i (pollers w' ! i) w' \<noteq> None"
        by (cases "phase (pollers w' ! i)")
          (auto simp: poller_event_def intro: exI [of _ "Enter i"] exI [of _ "ReceiveReturns i None"]
            exI [of _ "BatchTimesOut i"] exI [of _ "Wakes i"])
      then obtain ev where ev: "event_poller ev = Some i"
          "poller_event cfg now ev i (pollers w' ! i) w' \<noteq> None" by blast
      then have "worker_step cfg (now, ev) w' \<noteq> None" "ev \<noteq> Shutdown"
        using i by (auto simp: worker_step_def)
      with none show False by blast
    qed
    then show ?thesis by (auto simp: finish_worker_def list_all_length)
  qed
  ultimately show ?thesis by blast
qed

lemma halting_worker_drains_witness:
  "\<exists>ev. ev \<noteq> Shutdown \<and> worker_step example_cfg (0, ev) (start_worker example_cfg 0 True []) \<noteq> None"
proof -
  let ?w = "start_worker example_cfg 0 True []"
  have "halting ?w" by (simp add: halting_def start_worker_def)
  moreover have "finish_worker example_cfg NotAnError ?w = None"
    using normalizeSqsWorkerCount_bounds(1) [of "cfg_pollConcurrency example_cfg"]
    by (simp add: finish_worker_def start_worker_def list_all_iff set_replicate_conv_if)
  ultimately show ?thesis
    using halting_worker_drains [of ?w example_cfg "[]" ?w NotAnError 0] by simp
qed

text \<open>
  C18: how a worker ends. With a queue URL and a client, once all pollers have stopped the worker
  promise resolves exactly when a shutdown was requested and no poller failed, and rejects
  otherwise; either way its registry entry is no longer alive. Without a URL or a client it
  resolves at once, shutdown or not, and the registry stays as it was: no entry is made, so the
  worker is reported missing.
\<close>

theorem worker_promise_outcome:
  assumes "run_worker cfg evs (start_worker cfg now halted (run_ops ops [])) = Some w"
    and "finish_worker cfg e w = Some (r, resolved)"
  shows "if bootstrapWorker cfg
         then (resolved \<longleftrightarrow> shutdownRequested w \<and> \<not> groupAborted w) \<and> (\<not> resolved \<longrightarrow> groupAborted w)
           \<and> (\<exists>entry. map_of r (cfg_name cfg) = Some entry \<and> \<not> alive entry)
         else resolved \<and> r = run_ops ops []"
proof (cases "bootstrapWorker cfg")
  case False
  then have "reg w = run_ops ops []"
    using run_worker_without_pollers [OF assms(1)] by (simp add: start_worker_def)
  then show ?thesis using assms(2) False by (simp add: finish_worker_def)
next
  case boot: True
  have inv: "worker_inv cfg w"
    by (rule run_worker_inv [OF _ assms(1)]) (simp add: start_worker_inv run_ops_ok)
  have entry: "\<exists>entry. map_of (markWorkerDead (cfg_name cfg) c (reg w)) (cfg_name cfg) = Some entry \<and> \<not> alive entry" for c
    using inv boot by (auto simp: worker_inv_def in_proc_def markWorkerDead_def map_of_with_entry)
  have "length (pollers w) \<noteq> 0"
    using normalizeSqsWorkerCount_bounds(1) [of "cfg_pollConcurrency cfg"] boot
    by (simp add: run_worker_length [OF assms(1)] start_worker_def)
  then obtain p where p: "p \<in> set (pollers w)" by (cases "pollers w") auto
  have stopped: "list_all (\<lambda>p. \<exists>b. phase p = Stopped b) (pollers w)"
    using assms(2) boot by (simp add: finish_worker_def split: if_splits)
  show ?thesis
  proof (cases "list_ex (\<lambda>p. phase p = Stopped True) (pollers w)")
    case True
    then show ?thesis using assms(2) stopped inv entry boot by (auto simp: finish_worker_def worker_inv_def)
  next
    case False
    then have "phase p = Stopped False"
      using stopped p by (auto simp: list_all_iff list_ex_iff) (metis (full_types))
    then have "shutdownRequested w" using inv p by (auto simp: worker_inv_def list_all_iff poller_ok_def)
    then show ?thesis using assms(2) stopped inv entry boot False
      by (auto simp: finish_worker_def worker_inv_def)
  qed
qed

lemma worker_promise_outcome_witness:
  "\<exists>w r. run_worker example_cfg [(0, Enter 0), (0, Enter 1)]
            (start_worker example_cfg 0 True (run_ops [] [])) = Some w
          \<and> finish_worker example_cfg NotAnError w = Some (r, True) \<and> shutdownRequested w"
proof -
  let ?w0 = "start_worker example_cfg 0 True (run_ops [] [])"
  let ?stop = "\<lparr>phase = Stopped False, pollBackoffMs = 1000, pollErrors = 0\<rparr>"
  define w where "w = ?w0\<lparr>pollers := [?stop, ?stop]\<rparr>"
  have "nat (normalizeSqsWorkerCount (Fin 2)) = 2" by code_simp
  then have run: "run_worker example_cfg [(0, Enter 0), (0, Enter 1)] ?w0 = Some w"
    by (simp add: start_worker_def w_def)
      (simp add: example_cfg_def worker_constants numeral_2_eq_2 worker_step_def
        poller_event_def enter_loop_def stop_poller_def set_poller_def)
  have "finish_worker example_cfg NotAnError w
      = Some (markWorkerDead (cfg_name example_cfg) NotAnError (reg w), True)"
    by (auto simp: finish_worker_def w_def)
  with worker_promise_outcome [OF run this] run show ?thesis by simp
qed

text \<open>A worker whose queue URL is not configured resolves in a process nobody asked to shut down.\<close>

lemma unconfigured_worker_resolves:
  "finish_worker (example_cfg\<lparr>cfg_queueUrl := None\<rparr>) NotAnError
     (start_worker (example_cfg\<lparr>cfg_queueUrl := None\<rparr>) 0 False []) = Some ([], True)"
  by (simp add: finish_worker_def start_worker_def bootstrapWorker_def)

end
