(* ===== verification/WorkerSupervisor.thy ===== *)
theory WorkerSupervisor
  imports WorkerRegistry
begin

text \<open>
  Worker lifecycles (lib/core/worker-supervisor.ts) and the coordinated shutdown of the process
  (server.ts), as one step relation: workers are watched and settle, signals and uncaught
  exceptions arrive, the grace timer may fire. The effects \<^verbatim>\<open>process.exit\<close>, the HTTP server's
  \<^verbatim>\<open>close\<close> and the callbacks are recorded in the state.
\<close>

section \<open>The supervisor\<close>

datatype stop_outcome = PromiseResolved | PromiseRejected

record worker_stop =
  stop_worker :: jstr
  stop_outcome :: stop_outcome
  stop_errorClass :: "jstr option"

record supervisor =
  expectedWorkers :: "jstr list"
  watchedWorkers :: "jstr list"
  settledWorkers :: "jstr list"
  sv_shutdownRequested :: bool
  fatalShutdown :: bool
  completionReported :: bool

text \<open>The two callbacks a settling worker can trigger, in the order they are called.\<close>

datatype callback = OnUnexpectedStop worker_stop | OnAllWorkersSettled int

definition createWorkerSupervisor :: "jstr list \<Rightarrow> supervisor res" where
  "createWorkerSupervisor names =
     (if card (set names) \<noteq> length names \<or> card (set names) = 0
      then Inl (Error ''Worker supervisor requires a non-empty unique worker list'')
      else Inr \<lparr>expectedWorkers = names, watchedWorkers = [], settledWorkers = [],
                sv_shutdownRequested = False, fatalShutdown = False, completionReported = False\<rparr>)"

definition requestGracefulShutdown :: "supervisor \<Rightarrow> supervisor" where
  "requestGracefulShutdown s = s\<lparr>sv_shutdownRequested := True\<rparr>"

text \<open>The error texts name the worker, which is a JavaScript string here; the model keeps the fixed part.\<close>

definition watch :: "jstr \<Rightarrow> supervisor \<Rightarrow> supervisor res" where
  "watch n s =
     (if n \<notin> set (expectedWorkers s) then Inl (Error ''Unknown worker: '')
      else if n \<in> set (watchedWorkers s) then Inl (Error ''Worker already watched: '')
      else Inr (s\<lparr>watchedWorkers := watchedWorkers s @ [n]\<rparr>))"

definition settle :: "worker_stop \<Rightarrow> supervisor \<Rightarrow> supervisor \<times> callback list" where
  "settle stop s =
     (if stop_worker stop \<in> set (settledWorkers s) then (s, [])
      else
        let s1 = s\<lparr>settledWorkers := settledWorkers s @ [stop_worker stop]\<rparr>;
            unexpected = (\<not> sv_shutdownRequested s1 \<and> \<not> fatalShutdown s1);
            s2 = (if unexpected then s1\<lparr>fatalShutdown := True, sv_shutdownRequested := True\<rparr> else s1);
            complete = (length (settledWorkers s2) = length (expectedWorkers s2) \<and> \<not> completionReported s2);
            s3 = (if complete then s2\<lparr>completionReported := True\<rparr> else s2)
        in (s3, (if unexpected then [OnUnexpectedStop stop] else [])
              @ (if complete then [OnAllWorkersSettled (if fatalShutdown s2 then 1 else 0)] else [])))"

section \<open>The process\<close>

text \<open>
  Why a coordinated shutdown starts: the \<^verbatim>\<open>reason\<close> text of the log line, which names the signal.
\<close>

datatype shutdown_reason = SIGTERM | SIGINT | UncaughtException | WorkerStopped | PreparationFailed

text \<open>
  How the process ends: \<^verbatim>\<open>process.exit\<close> with a code, or by itself, because nothing keeps the event
  loop alive any more. Nobody sets \<^verbatim>\<open>process.exitCode\<close>, so the code is then 0.
\<close>

datatype process_end = CallsExit int | EventLoopEmpty

fun exit_code :: "process_end \<Rightarrow> int" where
  "exit_code (CallsExit c) = c"
| "exit_code EventLoopEmpty = 0"

datatype preparation = Preparing | Prepared | NotPrepared
datatype http_server = NoServer | Created | Listening | Closing

text \<open>
  The module state of server.ts around the supervisor: whether the coordinated shutdown started
  and with which intended exit code, the HTTP server and how often it was told to close, whether the
  poll loops were told to stop, the grace timer, the progress of \<^verbatim>\<open>app.prepare()\<close>, the log lines
  of started shutdowns, and the end of the process.
\<close>

record server =
  supervision :: supervisor
  shutdownInProgress :: bool
  intendedExitCode :: int
  httpServer :: http_server
  http_closes :: nat
  polls_stopped :: bool
  timer_armed :: bool
  preparing :: preparation
  logged_starts :: "(shutdown_reason \<times> int) list"
  ended :: "process_end option"

definition initiateShutdown :: "shutdown_reason \<Rightarrow> int \<Rightarrow> server \<Rightarrow> server" where
  "initiateShutdown reason exitCode p =
     (if shutdownInProgress p then p
      else p\<lparr>shutdownInProgress := True, intendedExitCode := exitCode,
             supervision := requestGracefulShutdown (supervision p),
             logged_starts := logged_starts p @ [(reason, exitCode)],
             httpServer := (if httpServer p = NoServer then NoServer else Closing),
             http_closes := (if httpServer p = NoServer then http_closes p else Suc (http_closes p)),
             polls_stopped := True, timer_armed := True\<rparr>)"

definition finishShutdown :: "int \<Rightarrow> server \<Rightarrow> server" where
  "finishShutdown workerExitCode p =
     p\<lparr>timer_armed := False,
       ended := Some (CallsExit (if intendedExitCode p = 1 \<or> workerExitCode = 1 then 1 else 0))\<rparr>"

fun run_callback :: "callback \<Rightarrow> server \<Rightarrow> server" where
  "run_callback (OnUnexpectedStop stop) p = initiateShutdown WorkerStopped 1 p"
| "run_callback (OnAllWorkersSettled code) p = finishShutdown code p"

definition worker_settles :: "worker_stop \<Rightarrow> server \<Rightarrow> server" where
  "worker_settles stop p =
     (let (s, calls) = settle stop (supervision p) in fold run_callback calls (p\<lparr>supervision := s\<rparr>))"

fun watch_all :: "jstr list \<Rightarrow> supervisor \<Rightarrow> supervisor res" where
  "watch_all [] s = Inr s"
| "watch_all (n # ns) s = (case watch n s of Inl e \<Rightarrow> Inl e | Inr s' \<Rightarrow> watch_all ns s')"

text \<open>The process after the module was loaded: the supervisor exists and \<^verbatim>\<open>app.prepare()\<close> runs.\<close>

definition start_server :: "supervisor \<Rightarrow> server" where
  "start_server s =
     \<lparr>supervision = s, shutdownInProgress = False, intendedExitCode = 0, httpServer = NoServer,
      http_closes = 0, polls_stopped = False, timer_armed = False, preparing = Preparing,
      logged_starts = [], ended = None\<rparr>"

text \<open>
  What holds the event loop: the preparation, a listening HTTP server, and a worker that has not
  settled, whose receive request, handler or back-off timer is pending. The grace timer does not
  (\<^verbatim>\<open>shutdownTimer.unref()\<close>).
\<close>

definition keeps_alive :: "server \<Rightarrow> bool" where
  "keeps_alive p \<longleftrightarrow> preparing p = Preparing \<or> httpServer p = Listening
     \<or> (\<exists>n \<in> set (watchedWorkers (supervision p)). n \<notin> set (settledWorkers (supervision p)))"

text \<open>
  One event of the running process. The preparation succeeds, and then the server listens and every
  worker is watched in the same turn, or it fails before or after the server was created; a promise
  settles once, and only if it was watched; a signal or an uncaught exception arrives; the grace
  timer fires while armed; the process may end by itself once nothing holds the event loop. Nothing
  happens after the end.
\<close>

inductive server_step :: "server \<Rightarrow> server \<Rightarrow> bool" where
  prepared: "\<lbrakk>ended p = None; preparing p = Preparing;
     watch_all (expectedWorkers (supervision p)) (supervision p) = Inr s\<rbrakk>
     \<Longrightarrow> server_step p (p\<lparr>preparing := Prepared, httpServer := Listening, supervision := s\<rparr>)"
| not_prepared: "\<lbrakk>ended p = None; preparing p = Preparing; h = NoServer \<or> h = Created\<rbrakk>
     \<Longrightarrow> server_step p (initiateShutdown PreparationFailed 1 (p\<lparr>preparing := NotPrepared, httpServer := h\<rparr>))"
| settled: "\<lbrakk>ended p = None; stop_worker stop \<in> set (watchedWorkers (supervision p));
     stop_worker stop \<notin> set (settledWorkers (supervision p))\<rbrakk> \<Longrightarrow> server_step p (worker_settles stop p)"
| sigterm: "ended p = None \<Longrightarrow> server_step p (initiateShutdown SIGTERM 0 p)"
| sigint: "ended p = None \<Longrightarrow> server_step p (initiateShutdown SIGINT 0 p)"
| uncaught: "ended p = None \<Longrightarrow> server_step p (initiateShutdown UncaughtException 1 p)"
| grace_expired: "\<lbrakk>ended p = None; timer_armed p\<rbrakk> \<Longrightarrow> server_step p (p\<lparr>ended := Some (CallsExit 1)\<rparr>)"
| natural_end: "\<lbrakk>ended p = None; \<not> keeps_alive p\<rbrakk> \<Longrightarrow> server_step p (p\<lparr>ended := Some EventLoopEmpty\<rparr>)"

inductive_cases server_stepE [elim]: "server_step p q"

text \<open>
  The invariant of the process. The coordinated shutdown, its one log line and the supervisor agree
  on whether a shutdown was asked for; the HTTP server is closed at most once; a worker stop that was
  not asked for forces code 1; no worker is watched before the preparation succeeded and every worker
  afterwards; once every worker has settled the process has called exit; it ends by itself only when
  the preparation failed.
\<close>

abbreviation by_signal :: "(shutdown_reason \<times> int) list \<Rightarrow> bool" where
  "by_signal starts \<equiv> starts = [(SIGTERM, 0)] \<or> starts = [(SIGINT, 0)]"

definition server_ok :: "jstr list \<Rightarrow> server \<Rightarrow> bool" where
  "server_ok names p \<longleftrightarrow>
     expectedWorkers (supervision p) = names \<and> names \<noteq> [] \<and> distinct names
     \<and> distinct (settledWorkers (supervision p)) \<and> set (settledWorkers (supervision p)) \<subseteq> set (watchedWorkers (supervision p))
     \<and> watchedWorkers (supervision p) = (if preparing p = Prepared then names else [])
     \<and> (sv_shutdownRequested (supervision p) \<longleftrightarrow> shutdownInProgress p)
     \<and> (polls_stopped p \<longleftrightarrow> shutdownInProgress p)
     \<and> http_closes p \<le> (if shutdownInProgress p then 1 else 0)
     \<and> (settledWorkers (supervision p) \<noteq> [] \<longrightarrow> shutdownInProgress p)
     \<and> (fatalShutdown (supervision p) \<longrightarrow> shutdownInProgress p \<and> intendedExitCode p = 1
           \<and> preparing p = Prepared)
     \<and> intendedExitCode p \<in> {0, 1}
     \<and> (if shutdownInProgress p then intendedExitCode p = 0 \<longrightarrow> by_signal (logged_starts p)
        else logged_starts p = [])
     \<and> length (logged_starts p) \<le> 1
     \<and> (completionReported (supervision p) \<longleftrightarrow> length (settledWorkers (supervision p)) = length names)
     \<and> (completionReported (supervision p) \<longrightarrow> (\<exists>c. ended p = Some (CallsExit c)))
     \<and> (ended p = None \<and> shutdownInProgress p \<longrightarrow> timer_armed p)
     \<and> (timer_armed p \<longrightarrow> shutdownInProgress p)
     \<and> (preparing p = NotPrepared \<longrightarrow> shutdownInProgress p)
     \<and> (ended p = Some (CallsExit 0) \<longrightarrow> completionReported (supervision p) \<and> \<not> fatalShutdown (supervision p)
           \<and> intendedExitCode p = 0)
     \<and> (ended p = Some EventLoopEmpty \<longrightarrow> preparing p = NotPrepared)
     \<and> (ended p \<noteq> None \<longrightarrow> exit_code (the (ended p)) \<in> {0, 1} \<and> shutdownInProgress p)"

lemma start_server_ok: "createWorkerSupervisor names = Inr s \<Longrightarrow> server_ok names (start_server s)"
  by (auto simp: server_ok_def start_server_def createWorkerSupervisor_def card_distinct split: if_splits)

lemma initiateShutdown_ok:
  "c = 1 \<or> c = 0 \<and> (r = SIGTERM \<or> r = SIGINT) \<Longrightarrow> ended p = None \<Longrightarrow> server_ok names p
   \<Longrightarrow> server_ok names (initiateShutdown r c p)"
  by (auto simp: server_ok_def initiateShutdown_def requestGracefulShutdown_def)

lemma watch_all_watches:
  "watch_all ns s = Inr s' \<Longrightarrow> s' = s\<lparr>watchedWorkers := watchedWorkers s @ ns\<rparr>"
proof (induction ns arbitrary: s)
  case (Cons n ns)
  then have "watch_all ns (s\<lparr>watchedWorkers := watchedWorkers s @ [n]\<rparr>) = Inr s'"
    by (simp add: watch_def split: if_splits)
  from Cons.IH [OF this] show ?case by simp
qed simp

lemma watch_all_succeeds:
  "distinct ns \<Longrightarrow> set ns \<subseteq> set (expectedWorkers s) \<Longrightarrow> set ns \<inter> set (watchedWorkers s) = {}
   \<Longrightarrow> \<exists>s'. watch_all ns s = Inr s'"
  by (induction ns arbitrary: s) (auto simp: watch_def)

lemma prepared_ok:
  assumes "watch_all (expectedWorkers (supervision p)) (supervision p) = Inr s" "server_ok names p"
    and "preparing p = Preparing" "ended p = None"
  shows "server_ok names (p\<lparr>preparing := Prepared, httpServer := Listening, supervision := s\<rparr>)"
  using assms(2-4) unfolding watch_all_watches [OF assms(1)] by (auto simp: server_ok_def)

lemma not_prepared_ok:
  assumes "server_ok names p" "preparing p = Preparing" "ended p = None"
  shows "server_ok names (initiateShutdown PreparationFailed 1 (p\<lparr>preparing := NotPrepared, httpServer := h\<rparr>))"
  using assms by (auto simp: server_ok_def initiateShutdown_def requestGracefulShutdown_def)

text \<open>Once the preparation is over, only a failed one leaves a process that nothing keeps alive.\<close>

lemma natural_end_ok:
  assumes ok: "server_ok names p" and run: "ended p = None" and idle: "\<not> keeps_alive p"
  shows "server_ok names (p\<lparr>ended := Some EventLoopEmpty\<rparr>)"
proof -
  have "preparing p \<noteq> Prepared"
  proof
    assume "preparing p = Prepared"
    then have watched: "watchedWorkers (supervision p) = names"
      and facts: "distinct names" "distinct (settledWorkers (supervision p))"
        "set (settledWorkers (supervision p)) \<subseteq> set names"
      using ok unfolding server_ok_def by (elim conjE, simp)+
    have "set names \<subseteq> set (settledWorkers (supervision p))"
      using idle unfolding keeps_alive_def watched by blast
    with facts have "set (settledWorkers (supervision p)) = set names" by simp
    with facts have "length (settledWorkers (supervision p)) = length names"
      by (metis distinct_card)
    then show False using ok run by (auto simp: server_ok_def)
  qed
  then have "preparing p = NotPrepared" using idle by (cases "preparing p") (auto simp: keeps_alive_def)
  then show ?thesis using ok by (auto simp: server_ok_def)
qed

text \<open>The settling of one worker, with the supervisor's two decisions spelled out.\<close>

lemma settle_cases:
  assumes "stop_worker stop \<notin> set (settledWorkers s)"
  shows "settle stop s =
    (let unexpected = (\<not> sv_shutdownRequested s \<and> \<not> fatalShutdown s);
         complete = (Suc (length (settledWorkers s)) = length (expectedWorkers s) \<and> \<not> completionReported s)
     in (s\<lparr>settledWorkers := settledWorkers s @ [stop_worker stop],
            sv_shutdownRequested := sv_shutdownRequested s \<or> unexpected,
            fatalShutdown := fatalShutdown s \<or> unexpected,
            completionReported := completionReported s \<or> complete\<rparr>,
         (if unexpected then [OnUnexpectedStop stop] else [])
         @ (if complete then [OnAllWorkersSettled (if fatalShutdown s \<or> unexpected then 1 else 0)] else [])))"
  using assms by (cases s) (auto simp: settle_def Let_def)

lemma settle_ok:
  assumes ok: "server_ok names p" and run: "ended p = None"
    and stop: "stop_worker stop \<in> set (watchedWorkers (supervision p))"
      "stop_worker stop \<notin> set (settledWorkers (supervision p))"
  shows "server_ok names (worker_settles stop p)"
proof -
  let ?s = "supervision p"
  have "length (settledWorkers ?s) < length names \<or> \<not> completionReported ?s"
    using ok run by (auto simp: server_ok_def)
  moreover have "length (settledWorkers ?s) \<noteq> length names"
    using ok run by (auto simp: server_ok_def)
  ultimately have fresh: "\<not> completionReported ?s"
    using ok run by (auto simp: server_ok_def)
  note facts = ok [unfolded server_ok_def] run stop fresh
  show ?thesis
  proof (cases "shutdownInProgress p")
    case True
    then have "sv_shutdownRequested ?s" using ok by (simp add: server_ok_def)
    then show ?thesis
      using facts True
      unfolding server_ok_def worker_settles_def settle_cases [OF stop(2)] Let_def
      by (cases "Suc (length (settledWorkers ?s)) = length (expectedWorkers ?s)")
        (auto simp: finishShutdown_def)
  next
    case False
    then have "\<not> sv_shutdownRequested ?s" "\<not> fatalShutdown ?s" using ok by (auto simp: server_ok_def)
    then show ?thesis
      using facts False
      unfolding server_ok_def worker_settles_def settle_cases [OF stop(2)] Let_def
      by (cases "Suc (length (settledWorkers ?s)) = length (expectedWorkers ?s)")
        (auto simp: finishShutdown_def initiateShutdown_def requestGracefulShutdown_def)
  qed
qed

lemma server_step_ok: "server_step p q \<Longrightarrow> server_ok names p \<Longrightarrow> server_ok names q"
proof (induction rule: server_step.induct)
  case (prepared p s)
  then show ?case by (simp add: prepared_ok)
next
  case (not_prepared p h)
  then show ?case by (simp add: not_prepared_ok)
next
  case (settled p stop)
  then show ?case by (simp add: settle_ok)
next
  case (grace_expired p)
  then show ?case by (auto simp: server_ok_def)
next
  case (natural_end p)
  then show ?case by (simp add: natural_end_ok)
qed (simp_all add: initiateShutdown_ok)

lemma server_ok_all_settled:
  assumes "server_ok names p"
  shows "set (settledWorkers (supervision p)) = set names \<longleftrightarrow> completionReported (supervision p)"
proof -
  let ?l = "settledWorkers (supervision p)"
  have facts: "distinct ?l" "distinct names" "set ?l \<subseteq> set names"
      "completionReported (supervision p) \<longleftrightarrow> length ?l = length names"
    using assms by (auto simp: server_ok_def split: if_splits)
  then show ?thesis by (metis List.finite_set card_subset_eq distinct_card)
qed

lemma server_steps_ok:
  "server_step\<^sup>*\<^sup>* p q \<Longrightarrow> server_ok names p \<Longrightarrow> server_ok names q"
  by (induction rule: rtranclp_induct) (auto intro: server_step_ok)

lemma worker_settles_fatal:
  assumes "fatalShutdown (supervision p)" shows "fatalShutdown (supervision (worker_settles stop p))"
  using assms
  by (auto simp: worker_settles_def settle_def Let_def finishShutdown_def initiateShutdown_def
      requestGracefulShutdown_def)

lemma server_step_fatal: "server_step p q \<Longrightarrow> fatalShutdown (supervision p) \<Longrightarrow> fatalShutdown (supervision q)"
proof (induction rule: server_step.induct)
  case (prepared p s)
  from watch_all_watches [OF this(3)] this(4) show ?case by simp
next
  case (settled p stop)
  then show ?case by (simp add: worker_settles_fatal)
qed (simp_all add: initiateShutdown_def requestGracefulShutdown_def)

lemma server_steps_fatal:
  "server_step\<^sup>*\<^sup>* p q \<Longrightarrow> fatalShutdown (supervision p) \<Longrightarrow> fatalShutdown (supervision q)"
  by (induction rule: rtranclp_induct) (auto intro: server_step_fatal)

section \<open>Callbacks over a history\<close>

datatype sv_event = GracefulShutdown | Settles worker_stop

fun run_supervisor :: "sv_event list \<Rightarrow> supervisor \<Rightarrow> supervisor \<times> callback list" where
  "run_supervisor [] s = (s, [])"
| "run_supervisor (GracefulShutdown # evs) s = run_supervisor evs (requestGracefulShutdown s)"
| "run_supervisor (Settles stop # evs) s =
     (let (s1, calls) = settle stop s; (s2, more) = run_supervisor evs s1 in (s2, calls @ more))"

fun is_unexpected :: "callback \<Rightarrow> bool" where
  "is_unexpected (OnUnexpectedStop stop) = True"
| "is_unexpected _ = False"

definition sv_ok :: "supervisor \<Rightarrow> bool" where
  "sv_ok s \<longleftrightarrow> distinct (settledWorkers s) \<and> (fatalShutdown s \<longrightarrow> sv_shutdownRequested s)
     \<and> (completionReported s \<longrightarrow> length (expectedWorkers s) \<le> length (settledWorkers s))
     \<and> (\<not> completionReported s \<longrightarrow> length (settledWorkers s) < length (expectedWorkers s))"

lemma settle_sv:
  assumes "sv_ok s"
  shows "sv_ok (fst (settle stop s))"
    "length (filter is_unexpected (snd (settle stop s)))
       = (if fatalShutdown (fst (settle stop s)) \<and> \<not> fatalShutdown s then 1 else 0)"
    "filter (\<lambda>c. \<not> is_unexpected c) (snd (settle stop s)) =
       (if completionReported (fst (settle stop s)) \<and> \<not> completionReported s
        then [OnAllWorkersSettled (if fatalShutdown (fst (settle stop s)) then 1 else 0)] else [])"
    "fatalShutdown s \<Longrightarrow> fatalShutdown (fst (settle stop s))"
    "completionReported s \<Longrightarrow> completionReported (fst (settle stop s))"
    "sv_shutdownRequested s \<Longrightarrow> fatalShutdown (fst (settle stop s)) = fatalShutdown s"
    "sv_shutdownRequested s \<Longrightarrow> sv_shutdownRequested (fst (settle stop s))"
proof -
  have all: "sv_ok (fst (settle stop s)) \<and>
      length (filter is_unexpected (snd (settle stop s)))
        = (if fatalShutdown (fst (settle stop s)) \<and> \<not> fatalShutdown s then 1 else 0) \<and>
      filter (\<lambda>c. \<not> is_unexpected c) (snd (settle stop s)) =
        (if completionReported (fst (settle stop s)) \<and> \<not> completionReported s
         then [OnAllWorkersSettled (if fatalShutdown (fst (settle stop s)) then 1 else 0)] else []) \<and>
      (fatalShutdown s \<longrightarrow> fatalShutdown (fst (settle stop s))) \<and>
      (completionReported s \<longrightarrow> completionReported (fst (settle stop s))) \<and>
      (sv_shutdownRequested s \<longrightarrow> fatalShutdown (fst (settle stop s)) = fatalShutdown s) \<and>
      (sv_shutdownRequested s \<longrightarrow> sv_shutdownRequested (fst (settle stop s)))"
  proof (cases "stop_worker stop \<in> set (settledWorkers s)")
    case True
    then have "settle stop s = (s, [])" by (simp add: settle_def)
    then show ?thesis using assms by simp
  next
    case False
    show ?thesis
      unfolding settle_cases [OF False] Let_def
      by (cases "sv_shutdownRequested s"; cases "fatalShutdown s"; cases "completionReported s";
          cases "Suc (length (settledWorkers s)) = length (expectedWorkers s)")
        (use assms False in \<open>simp_all add: sv_ok_def\<close>)
  qed
  then show "sv_ok (fst (settle stop s))"
    "length (filter is_unexpected (snd (settle stop s)))
       = (if fatalShutdown (fst (settle stop s)) \<and> \<not> fatalShutdown s then 1 else 0)"
    "filter (\<lambda>c. \<not> is_unexpected c) (snd (settle stop s)) =
       (if completionReported (fst (settle stop s)) \<and> \<not> completionReported s
        then [OnAllWorkersSettled (if fatalShutdown (fst (settle stop s)) then 1 else 0)] else [])"
    "fatalShutdown s \<Longrightarrow> fatalShutdown (fst (settle stop s))"
    "completionReported s \<Longrightarrow> completionReported (fst (settle stop s))"
    "sv_shutdownRequested s \<Longrightarrow> fatalShutdown (fst (settle stop s)) = fatalShutdown s"
    "sv_shutdownRequested s \<Longrightarrow> sv_shutdownRequested (fst (settle stop s))"
    by blast+
qed

lemma run_supervisor_calls:
  assumes "sv_ok s" "run_supervisor evs s = (s', calls)"
  shows "length (filter is_unexpected calls) = (if fatalShutdown s' \<and> \<not> fatalShutdown s then 1 else 0)
     \<and> length (filter (\<lambda>c. \<not> is_unexpected c) calls)
         = (if completionReported s' \<and> \<not> completionReported s then 1 else 0)
     \<and> (fatalShutdown s \<longrightarrow> fatalShutdown s') \<and> (completionReported s \<longrightarrow> completionReported s')
     \<and> sv_ok s'"
  using assms
proof (induction evs s arbitrary: calls rule: run_supervisor.induct)
  case (1 s)
  then show ?case by auto
next
  case (2 evs s)
  then show ?case by (auto simp: requestGracefulShutdown_def sv_ok_def)
next
  case (3 stop evs s)
  let ?s1 = "fst (settle stop s)"
  define more where "more = snd (run_supervisor evs ?s1)"
  have more: "run_supervisor evs ?s1 = (s', more)" "calls = snd (settle stop s) @ more"
    using 3(3) by (auto simp: Let_def split_beta more_def)
  note IH = 3(1) [OF refl prod.collapse settle_sv(1) [OF 3(2)] more(1)]
  have two: "length (filter (\<lambda>c. \<not> is_unexpected c) (snd (settle stop s))) =
      (if completionReported ?s1 \<and> \<not> completionReported s then 1 else 0)"
    unfolding settle_sv(3) [OF 3(2)] by simp
  show ?case
    unfolding more(2) filter_append length_append settle_sv(2) [OF 3(2)] two
    using IH settle_sv(4,5) [OF 3(2), of stop]
    by (cases "fatalShutdown s"; cases "completionReported s"; cases "fatalShutdown ?s1";
        cases "completionReported ?s1") simp_all
qed

lemma graceful_no_unexpected:
  "\<lbrakk>sv_ok s; sv_shutdownRequested s; run_supervisor evs s = (s', calls)\<rbrakk> \<Longrightarrow> fatalShutdown s' = fatalShutdown s"
proof (induction evs s arbitrary: calls rule: run_supervisor.induct)
  case (2 evs s)
  then show ?case by (simp add: requestGracefulShutdown_def sv_ok_def)
next
  case (3 stop evs s)
  let ?s1 = "fst (settle stop s)"
  define more where "more = snd (run_supervisor evs ?s1)"
  have more: "run_supervisor evs ?s1 = (s', more)"
    using 3(4) by (auto simp: Let_def split_beta more_def)
  show ?case
    using 3(1) [OF refl prod.collapse settle_sv(1) [OF 3(2)] settle_sv(7) [OF 3(2,3)] more]
      settle_sv(6) [OF 3(2,3)] by simp
qed simp

lemma created_supervisor_ok:
  "createWorkerSupervisor names = Inr s \<Longrightarrow>
   sv_ok s \<and> \<not> fatalShutdown s \<and> \<not> completionReported s \<and> expectedWorkers s = names \<and> distinct names"
  by (auto simp: createWorkerSupervisor_def sv_ok_def card_distinct split: if_splits)

section \<open>Properties\<close>

text \<open>
  Over every history of settling workers and shutdown requests, the unexpected-stop callback
  runs at most once and the completion callback at most once. When the shutdown was requested
  first, a stop is never reported as unexpected.
\<close>

theorem supervisor_callbacks_at_most_once:
  assumes "createWorkerSupervisor names = Inr s" "run_supervisor evs s = (s', calls)"
  shows "length (filter is_unexpected calls) \<le> 1
         \<and> length (filter (\<lambda>c. \<not> is_unexpected c) calls) \<le> 1
         \<and> (evs = GracefulShutdown # rest \<longrightarrow> filter is_unexpected calls = [])"
proof -
  have ok: "sv_ok s" "\<not> fatalShutdown s" "\<not> completionReported s"
    using created_supervisor_ok [OF assms(1)] by auto
  note counts = run_supervisor_calls [OF ok(1) assms(2)]
  have "filter is_unexpected calls = []" if evs: "evs = GracefulShutdown # rest"
  proof -
    have "sv_ok (requestGracefulShutdown s)" "sv_shutdownRequested (requestGracefulShutdown s)"
        "\<not> fatalShutdown (requestGracefulShutdown s)"
      using ok by (auto simp: requestGracefulShutdown_def sv_ok_def)
    then have "\<not> fatalShutdown s'"
      using graceful_no_unexpected assms(2) unfolding evs by fastforce
    then show ?thesis using counts by simp
  qed
  then show ?thesis using counts by (auto split: if_splits)
qed

lemma supervisor_callbacks_at_most_once_witness:
  "\<exists>s s' calls. createWorkerSupervisor EXPECTED_WORKER_NAMES = Inr s
     \<and> run_supervisor [GracefulShutdown, Settles \<lparr>stop_worker = lit ''system-events'',
          stop_outcome = PromiseResolved, stop_errorClass = None\<rparr>] s = (s', calls)
     \<and> filter is_unexpected calls = []"
proof -
  obtain s where s: "createWorkerSupervisor EXPECTED_WORKER_NAMES = Inr s"
    by (simp add: createWorkerSupervisor_def EXPECTED_WORKER_NAMES_def)
  obtain s' calls where r: "run_supervisor [GracefulShutdown, Settles \<lparr>stop_worker = lit ''system-events'',
          stop_outcome = PromiseResolved, stop_errorClass = None\<rparr>] s = (s', calls)"
    by fastforce
  from supervisor_callbacks_at_most_once [OF s r] s r show ?thesis by auto
qed

text \<open>
  C13: the end of the process. In every state it can reach, one shutdown at most was started and
  the HTTP server was closed at most once; once every worker has settled the process has called
  exit. An exit code 0 has two causes only: the one shutdown was started by SIGTERM or SIGINT, every
  worker has settled and none unexpectedly; or the process ended by itself after its preparation
  had failed, when no worker was ever watched and nothing holds the event loop, not even the grace
  timer. A worker that stopped unexpectedly rules code 0 out. While a shutdown is under way, the exit
  of the grace timer stays possible.
\<close>

theorem process_exit_contract:
  assumes "createWorkerSupervisor names = Inr s" "server_step\<^sup>*\<^sup>* (start_server s) p"
  shows "length (logged_starts p) \<le> 1 \<and> http_closes p \<le> 1
         \<and> (set (settledWorkers (supervision p)) = set names \<longrightarrow> (\<exists>c. ended p = Some (CallsExit c)))
         \<and> (map_option exit_code (ended p) = Some 0 \<longrightarrow>
              (if ended p = Some EventLoopEmpty
               then preparing p = NotPrepared \<and> watchedWorkers (supervision p) = []
               else (logged_starts p = [(SIGTERM, 0)] \<or> logged_starts p = [(SIGINT, 0)])
                 \<and> set (settledWorkers (supervision p)) = set names))
         \<and> (fatalShutdown (supervision p) \<longrightarrow> map_option exit_code (ended p) \<noteq> Some 0)
         \<and> (shutdownInProgress p \<and> ended p = None \<longrightarrow> server_step p (p\<lparr>ended := Some (CallsExit 1)\<rparr>))"
proof -
  have ok: "server_ok names p"
    using server_steps_ok [OF assms(2)] start_server_ok [OF assms(1)] by blast
  have all: "set (settledWorkers (supervision p)) = set names \<longleftrightarrow> completionReported (supervision p)"
    using ok server_ok_all_settled by blast
  have "server_step p (p\<lparr>ended := Some (CallsExit 1)\<rparr>)" if "shutdownInProgress p" "ended p = None"
    by (rule server_step.grace_expired) (use ok that in \<open>auto simp: server_ok_def\<close>)
  moreover have "http_closes p \<le> 1" using ok by (auto simp: server_ok_def split: if_splits)
  moreover have "if ended p = Some EventLoopEmpty
       then preparing p = NotPrepared \<and> watchedWorkers (supervision p) = []
       else by_signal (logged_starts p) \<and> set (settledWorkers (supervision p)) = set names"
    if zero: "map_option exit_code (ended p) = Some 0"
  proof (cases "ended p = Some EventLoopEmpty")
    case True
    then show ?thesis using ok by (auto simp: server_ok_def)
  next
    case False
    with zero have "ended p = Some (CallsExit 0)" by (auto elim: exit_code.elims)
    then show ?thesis using ok unfolding all server_ok_def by (elim conjE) simp
  qed
  moreover have "map_option exit_code (ended p) \<noteq> Some 0" if "fatalShutdown (supervision p)"
    using ok that by (auto simp: server_ok_def elim: exit_code.elims)
  moreover have "completionReported (supervision p) \<longrightarrow> (\<exists>c. ended p = Some (CallsExit c))"
      "length (logged_starts p) \<le> 1"
    using ok by (simp_all add: server_ok_def)
  ultimately show ?thesis unfolding all by blast
qed

text \<open>
  Both causes occur: an orderly shutdown after SIGTERM, and a preparation that failed, whose
  process meant to exit with code 1 and may end by itself with code 0.
\<close>

definition three_workers :: supervisor where
  "three_workers = \<lparr>expectedWorkers = EXPECTED_WORKER_NAMES, watchedWorkers = [], settledWorkers = [],
     sv_shutdownRequested = False, fatalShutdown = False, completionReported = False\<rparr>"

lemma three_workers_created: "createWorkerSupervisor EXPECTED_WORKER_NAMES = Inr three_workers"
  by (simp add: createWorkerSupervisor_def three_workers_def EXPECTED_WORKER_NAMES_def)

definition failed_start :: server where
  "failed_start = initiateShutdown PreparationFailed 1 ((start_server three_workers)\<lparr>preparing := NotPrepared\<rparr>)"

lemma failed_start_reached:
  "server_step\<^sup>*\<^sup>* (start_server three_workers) (failed_start\<lparr>ended := Some EventLoopEmpty\<rparr>)"
proof -
  have "server_step (start_server three_workers) failed_start"
    using server_step.not_prepared [of "start_server three_workers" NoServer]
    by (simp add: failed_start_def start_server_def)
  moreover have "server_step failed_start (failed_start\<lparr>ended := Some EventLoopEmpty\<rparr>)"
    by (rule server_step.natural_end)
      (simp_all add: failed_start_def start_server_def initiateShutdown_def requestGracefulShutdown_def
        keeps_alive_def three_workers_def)
  ultimately show ?thesis by (meson converse_rtranclp_into_rtranclp r_into_rtranclp)
qed

lemma failed_preparation_can_exit_zero:
  "intendedExitCode (failed_start\<lparr>ended := Some EventLoopEmpty\<rparr>) = 1
   \<and> map_option exit_code (ended (failed_start\<lparr>ended := Some EventLoopEmpty\<rparr>)) = Some 0"
  by (simp add: failed_start_def initiateShutdown_def start_server_def)

lemma process_exit_contract_witness:
  "preparing (failed_start\<lparr>ended := Some EventLoopEmpty\<rparr>) = NotPrepared
   \<and> length (logged_starts (failed_start\<lparr>ended := Some EventLoopEmpty\<rparr>)) \<le> 1"
  using process_exit_contract [OF three_workers_created failed_start_reached] by simp

text \<open>
  A worker that stops while nobody has asked for a shutdown is fatal for the process: from that
  moment the shutdown is under way with code 1, and whatever happens afterwards the process never
  ends with code 0.
\<close>

theorem unexpected_stop_forces_failure_exit:
  assumes "createWorkerSupervisor names = Inr s" "server_step\<^sup>*\<^sup>* (start_server s) p" "ended p = None"
    and "\<not> shutdownInProgress p" "stop_worker stop \<in> set (watchedWorkers (supervision p))"
    and "server_step\<^sup>*\<^sup>* (worker_settles stop p) q"
  shows "shutdownInProgress q \<and> intendedExitCode q = 1 \<and> map_option exit_code (ended q) \<noteq> Some 0"
proof -
  have ok: "server_ok names p"
    using server_steps_ok [OF assms(2)] start_server_ok [OF assms(1)] by blast
  then have fresh: "settledWorkers (supervision p) = []" "\<not> sv_shutdownRequested (supervision p)"
      "\<not> fatalShutdown (supervision p)"
    using assms(4) by (auto simp: server_ok_def)
  then have new: "stop_worker stop \<notin> set (settledWorkers (supervision p))" by simp
  have ok1: "server_ok names (worker_settles stop p)" by (rule settle_ok [OF ok assms(3,5) new])
  have "fatalShutdown (supervision (worker_settles stop p))"
    unfolding worker_settles_def settle_cases [OF new] Let_def using fresh
    by (simp add: finishShutdown_def initiateShutdown_def requestGracefulShutdown_def)
  then have "fatalShutdown (supervision q)" using server_steps_fatal [OF assms(6)] by blast
  moreover have "server_ok names q" by (rule server_steps_ok [OF assms(6) ok1])
  ultimately show ?thesis by (auto simp: server_ok_def elim: exit_code.elims)
qed

end
