(* ===== verification/JsonText.thy ===== *)
theory JsonText
  imports JsNumber "HOL-Library.AList"
begin

text \<open>
  \<^verbatim>\<open>JSON.stringify\<close> and \<^verbatim>\<open>JSON.parse\<close> of the language on the value model: well-formed string
  escaping with lone surrogates, shortest decimal numbers, strict grammar, last duplicate key
  wins. The main fact is that parsing undoes printing on plain data with safe integers.
\<close>

section \<open>Printing strings\<close>

definition hex_unit :: "nat \<Rightarrow> unit16" where
  "hex_unit n = (if n < 10 then word_of_nat (48 + n) else word_of_nat (87 + n))"

definition hex4 :: "unit16 \<Rightarrow> jstr" where
  "hex4 c = (let n = unat c in
     [hex_unit (n div 4096), hex_unit (n div 256 mod 16), hex_unit (n div 16 mod 16), hex_unit (n mod 16)])"

definition is_high_surrogate :: "unit16 \<Rightarrow> bool" where
  "is_high_surrogate c \<longleftrightarrow> 55296 \<le> unat c \<and> unat c \<le> 56319"

definition is_low_surrogate :: "unit16 \<Rightarrow> bool" where
  "is_low_surrogate c \<longleftrightarrow> 56320 \<le> unat c \<and> unat c \<le> 57343"

definition unicode_escape :: "unit16 \<Rightarrow> jstr" where
  "unicode_escape c = [92, 117] @ hex4 c"

definition quote_unit :: "unit16 \<Rightarrow> jstr" where
  "quote_unit c =
     (if c = 8 then [92, 98] else if c = 9 then [92, 116] else if c = 10 then [92, 110]
      else if c = 12 then [92, 102] else if c = 13 then [92, 114]
      else if c = 34 then [92, 34] else if c = 92 then [92, 92]
      else if unat c < 32 then unicode_escape c else [c])"

fun quote_units :: "jstr \<Rightarrow> jstr" where
  "quote_units [] = []"
| "quote_units [c] =
     (if is_high_surrogate c \<or> is_low_surrogate c then unicode_escape c else quote_unit c)"
| "quote_units (c # d # s) =
     (if is_high_surrogate c
      then if is_low_surrogate d then c # d # quote_units s else unicode_escape c @ quote_units (d # s)
      else if is_low_surrogate c then unicode_escape c @ quote_units (d # s)
      else quote_unit c @ quote_units (d # s))"

definition json_quote :: "jstr \<Rightarrow> jstr" where
  "json_quote s = [34] @ quote_units s @ [34]"

section \<open>Printing numbers\<close>

text \<open>
  \<^verbatim>\<open>Number.prototype.toString\<close>: a safe integer prints its digits; any other finite number prints
  the shortest digits that read back as the same double.
\<close>

definition scaled :: "rat \<Rightarrow> int \<Rightarrow> rat" where
  "scaled r k = (if 0 \<le> k then r * 10 ^ nat k else r / 10 ^ nat (- k))"

function decimal_exponent :: "nat \<Rightarrow> rat \<Rightarrow> int \<Rightarrow> int" where
  "decimal_exponent 0 r n = n"
| "decimal_exponent (Suc f) r n =
     (if scaled 1 n \<le> r then decimal_exponent f r (n + 1)
      else if r < scaled 1 (n - 1) then decimal_exponent f r (n - 1) else n)"
  by pat_completeness auto
termination by (relation "measure fst") auto

definition shortest_digits :: "rat \<Rightarrow> int \<Rightarrow> int \<times> nat \<times> int" where
  "shortest_digits r n =
     (let ok = (\<lambda>k. round_double (scaled (of_int (round_even (scaled r (int k - n)))) (n - int k)) = Fin r);
          k = (case filter ok [1..<18] of [] \<Rightarrow> 17 | k # _ \<Rightarrow> k);
          s = round_even (scaled r (int k - n))
      in if s = 10 ^ k then (10 ^ (k - 1), k, n + 1) else (s, k, n))"

definition positive_text :: "rat \<Rightarrow> jstr" where
  "positive_text r =
     (let (s, k, n) = shortest_digits r (decimal_exponent 800 r 0); ds = dec_string s in
      if int k \<le> n \<and> n \<le> 21 then ds @ replicate (nat (n - int k)) 48
      else if 0 < n \<and> n \<le> 21 then take (nat n) ds @ [46] @ drop (nat n) ds
      else if - 6 < n \<and> n \<le> 0 then [48, 46] @ replicate (nat (- n)) 48 @ ds
      else let e = (if 0 \<le> n - 1 then [101, 43] @ dec_string (n - 1) else [101, 45] @ dec_string (1 - n))
           in if k = 1 then ds @ e else take 1 ds @ [46] @ drop 1 ds @ e)"

definition number_text :: "jnum \<Rightarrow> jstr" where
  "number_text x = (case safe_int_of_num x of
     Some n \<Rightarrow> int_string n
   | None \<Rightarrow> (case x of
       Fin r \<Rightarrow> if r < 0 then [45] @ positive_text (- r) else positive_text r
     | NaN \<Rightarrow> lit ''NaN'' | PInf \<Rightarrow> lit ''Infinity'' | NInf \<Rightarrow> lit ''-Infinity''))"

definition json_number :: "jnum \<Rightarrow> jstr" where
  "json_number x = (case x of Fin r \<Rightarrow> number_text x | _ \<Rightarrow> lit ''null'')"

section \<open>Printing values\<close>

fun join_with :: "jstr \<Rightarrow> jstr list \<Rightarrow> jstr" where
  "join_with sep [] = []"
| "join_with sep [x] = x"
| "join_with sep (x # y # xs) = x @ sep @ join_with sep (y # xs)"

text \<open>
  \<^verbatim>\<open>JSON.stringify(v)\<close>; \<open>None\<close> is its result \<^verbatim>\<open>undefined\<close>. Inside arrays that is \<^verbatim>\<open>null\<close>, inside
  objects the member is left out. An invalid date prints as \<^verbatim>\<open>null\<close>.
\<close>

fun json_stringify :: "js \<Rightarrow> jstr option" where
  "json_stringify JUndef = None"
| "json_stringify JFun = None"
| "json_stringify JNull = Some (lit ''null'')"
| "json_stringify (JBool b) = Some (if b then lit ''true'' else lit ''false'')"
| "json_stringify (JNum x) = Some (json_number x)"
| "json_stringify (JStr s) = Some (json_quote s)"
| "json_stringify (JDate d) = Some (case d of None \<Rightarrow> lit ''null'' | Some t \<Rightarrow> json_quote (to_iso t))"
| "json_stringify (JArr vs) = Some (lit ''['' @ join_with (lit '','')
     (map (\<lambda>v. case json_stringify v of None \<Rightarrow> lit ''null'' | Some t \<Rightarrow> t) vs) @ lit '']'')"
| "json_stringify (JObj p kvs) = Some (lit ''{'' @ join_with (lit '','')
     (concat (map (\<lambda>(k, v). case json_stringify v of None \<Rightarrow> [] | Some t \<Rightarrow> [json_quote k @ lit '':'' @ t]) kvs))
     @ lit ''}'')"

section \<open>Parsing\<close>

definition hex_value :: "unit16 \<Rightarrow> nat option" where
  "hex_value c = (let n = unat c in
     if 48 \<le> n \<and> n \<le> 57 then Some (n - 48) else if 97 \<le> n \<and> n \<le> 102 then Some (n - 87)
     else if 65 \<le> n \<and> n \<le> 70 then Some (n - 55) else None)"

fun parse_hex4 :: "jstr \<Rightarrow> (unit16 \<times> jstr) option" where
  "parse_hex4 (a # b # c # d # s) = (case (hex_value a, hex_value b, hex_value c, hex_value d) of
     (Some w, Some x, Some y, Some z) \<Rightarrow> Some (word_of_nat (4096 * w + 256 * x + 16 * y + z), s)
   | _ \<Rightarrow> None)"
| "parse_hex4 _ = None"

definition simple_escape :: "unit16 \<Rightarrow> unit16 option" where
  "simple_escape c =
     (if c = 34 then Some 34 else if c = 92 then Some 92 else if c = 47 then Some 47
      else if c = 98 then Some 8 else if c = 102 then Some 12 else if c = 110 then Some 10
      else if c = 114 then Some 13 else if c = 116 then Some 9 else None)"

lemma parse_hex4_length: "parse_hex4 s = Some (c, r) \<Longrightarrow> length r < length s"
  by (cases s rule: parse_hex4.cases) (auto split: option.splits)

text \<open>The characters after the opening quote, up to the closing one.\<close>

function parse_string :: "jstr \<Rightarrow> (jstr \<times> jstr) option" where
  "parse_string s = (case s of
     [] \<Rightarrow> None
   | c # t \<Rightarrow>
       if c = 34 then Some ([], t)
       else if c = 92 then (case t of
           [] \<Rightarrow> None
         | e # u \<Rightarrow>
             if e = 117 then (case parse_hex4 u of
                 None \<Rightarrow> None
               | Some (x, v) \<Rightarrow> map_option (\<lambda>(w, r). (x # w, r)) (parse_string v))
             else (case simple_escape e of
                 None \<Rightarrow> None
               | Some x \<Rightarrow> map_option (\<lambda>(w, r). (x # w, r)) (parse_string u)))
       else if unat c < 32 then None
       else map_option (\<lambda>(w, r). (c # w, r)) (parse_string t))"
  by auto
termination
  by (relation "measure length") (auto dest: parse_hex4_length)

declare parse_string.simps [simp del]

definition is_json_ws :: "unit16 \<Rightarrow> bool" where
  "is_json_ws c \<longleftrightarrow> c = 32 \<or> c = 9 \<or> c = 10 \<or> c = 13"

abbreviation skip_ws :: "jstr \<Rightarrow> jstr" where
  "skip_ws \<equiv> dropWhile is_json_ws"

text \<open>A number token: its sign, its unsigned text and the rest of the input.\<close>

definition scan_number :: "jstr \<Rightarrow> (bool \<times> jstr \<times> jstr) option" where
  "scan_number s =
     (let neg = (s \<noteq> [] \<and> hd s = 45); r0 = (if neg then tl s else s);
          ds = takeWhile is_digit r0;
          whole = (if ds \<noteq> [] \<and> hd ds = 48 then [48] else ds); r1 = drop (length whole) r0
      in if whole = [] then None
         else
           let frac = (if r1 \<noteq> [] \<and> hd r1 = 46 then [46] @ takeWhile is_digit (tl r1) else []);
               r2 = drop (length frac) r1
           in if length frac = 1 then None
              else
                let e = (if r2 \<noteq> [] \<and> (hd r2 = 101 \<or> hd r2 = 69) then [hd r2] else []);
                    r3 = drop (length e) r2;
                    sg = (if e \<noteq> [] \<and> r3 \<noteq> [] \<and> (hd r3 = 43 \<or> hd r3 = 45) then [hd r3] else []);
                    r4 = drop (length sg) r3;
                    es = (if e \<noteq> [] then takeWhile is_digit r4 else []);
                    r5 = drop (length es) r4
                in if e \<noteq> [] \<and> es = [] then None
                   else Some (neg, whole @ frac @ e @ sg @ es, r5))"

text \<open>
  Values, array elements after \<^verbatim>\<open>[\<close> or \<^verbatim>\<open>,\<close>, members after \<^verbatim>\<open>{\<close> or \<^verbatim>\<open>,\<close>. The fuel bounds the depth of
  the calls; two per character are enough, and \<open>json_parse\<close> supplies them.
\<close>

fun parse_value :: "nat \<Rightarrow> jstr \<Rightarrow> (js \<times> jstr) option"
  and parse_elements :: "nat \<Rightarrow> jstr \<Rightarrow> (js list \<times> jstr) option"
  and parse_members :: "nat \<Rightarrow> jstr \<Rightarrow> ((jstr \<times> js) list \<times> jstr) option" where
  "parse_value 0 s = None"
| "parse_value (Suc f) s = (case skip_ws s of
     [] \<Rightarrow> None
   | c # t \<Rightarrow>
       if c = 34 then map_option (\<lambda>(w, r). (JStr w, r)) (parse_string t)
       else if c = 91 then
         (case skip_ws t of
            d # u \<Rightarrow> if d = 93 then Some (JArr [], u)
                     else map_option (\<lambda>(vs, r). (JArr vs, r)) (parse_elements f t)
          | [] \<Rightarrow> None)
       else if c = 123 then
         (case skip_ws t of
            d # u \<Rightarrow> if d = 125 then Some (JObj ObjectProto [], u)
                     else map_option (\<lambda>(kvs, r). (JObj ObjectProto (fold (\<lambda>(k, v). AList.update k v) kvs []), r))
                            (parse_members f t)
          | [] \<Rightarrow> None)
       else if starts_with (c # t) (lit ''null'') then Some (JNull, drop 4 (c # t))
       else if starts_with (c # t) (lit ''true'') then Some (JBool True, drop 4 (c # t))
       else if starts_with (c # t) (lit ''false'') then Some (JBool False, drop 5 (c # t))
       else map_option (\<lambda>(neg, txt, r). (JNum (unsigned_number neg txt), r)) (scan_number (c # t)))"
| "parse_elements 0 s = None"
| "parse_elements (Suc f) s = (case parse_value f s of
     None \<Rightarrow> None
   | Some (v, r) \<Rightarrow> (case skip_ws r of
       c # u \<Rightarrow> if c = 44 then map_option (\<lambda>(vs, q). (v # vs, q)) (parse_elements f u)
                else if c = 93 then Some ([v], u) else None
     | [] \<Rightarrow> None))"
| "parse_members 0 s = None"
| "parse_members (Suc f) s = (case skip_ws s of
     c # t \<Rightarrow> if c \<noteq> 34 then None else (case parse_string t of
         None \<Rightarrow> None
       | Some (k, r) \<Rightarrow> (case skip_ws r of
           d # u \<Rightarrow> if d \<noteq> 58 then None else (case parse_value f u of
               None \<Rightarrow> None
             | Some (v, q) \<Rightarrow> (case skip_ws q of
                 e # w \<Rightarrow> if e = 44 then map_option (\<lambda>(kvs, z). ((k, v) # kvs, z)) (parse_members f w)
                          else if e = 125 then Some ([(k, v)], w) else None
               | [] \<Rightarrow> None))
         | [] \<Rightarrow> None))
   | [] \<Rightarrow> None)"

definition json_parse :: "jstr \<Rightarrow> js option" where
  "json_parse s = (case parse_value (2 * length s + 2) s of
     Some (v, r) \<Rightarrow> if skip_ws r = [] then Some v else None | None \<Rightarrow> None)"

section \<open>Parsing undoes printing\<close>

lemma unat_small: "n < 65536 \<Longrightarrow> unat (word_of_nat n :: unit16) = n"
  by (simp add: unat_of_nat)

lemma hex_value_hex_unit: "n < 16 \<Longrightarrow> hex_value (hex_unit n) = Some n"
proof -
  assume n: "n < 16"
  define k where "k = (if n < 10 then 48 + n else 87 + n)"
  have "hex_unit n = word_of_nat k" by (simp add: hex_unit_def k_def)
  moreover have "unat (word_of_nat k :: unit16) = k" using n by (intro unat_small) (simp add: k_def)
  ultimately show ?thesis using n unfolding hex_value_def Let_def by (auto simp: k_def)
qed

lemma parse_hex4_hex4: "parse_hex4 (hex4 c @ s) = Some (c, s)"
proof -
  let ?n = "unat c"
  have n: "?n < 65536" using unsigned_less [of c] by simp
  then have d: "?n div 4096 < 16" by simp
  have m: "?n div 256 mod 16 < 16" "?n div 16 mod 16 < 16" "?n mod 16 < 16" by simp_all
  have "?n = 4096 * (?n div 4096) + 256 * (?n div 256 mod 16) + 16 * (?n div 16 mod 16) + ?n mod 16"
  proof -
    have "?n = 16 * (?n div 16) + ?n mod 16" by simp
    moreover have "?n div 16 = 16 * (?n div 256) + ?n div 16 mod 16"
      using div_mult2_eq [of ?n 16 16] by simp
    moreover have "?n div 256 = 16 * (?n div 4096) + ?n div 256 mod 16"
      using div_mult2_eq [of ?n 256 16] by simp
    ultimately show ?thesis by linarith
  qed
  then have "(word_of_nat (4096 * (?n div 4096) + 256 * (?n div 256 mod 16) + 16 * (?n div 16 mod 16)
      + ?n mod 16) :: unit16) = word_of_nat ?n" by metis
  then have "(word_of_nat (4096 * (?n div 4096) + 256 * (?n div 256 mod 16) + 16 * (?n div 16 mod 16)
      + ?n mod 16) :: unit16) = c" by (simp only: of_nat_unat ucast_id)
  then show ?thesis
    by (simp add: hex4_def Let_def hex_value_hex_unit [OF d] hex_value_hex_unit [OF m(1)]
        hex_value_hex_unit [OF m(2)] hex_value_hex_unit [OF m(3)])
qed

abbreviation cons_result :: "unit16 \<Rightarrow> (jstr \<times> jstr) option \<Rightarrow> (jstr \<times> jstr) option" where
  "cons_result c \<equiv> map_option (\<lambda>(w, r). (c # w, r))"

lemma parse_string_escape: "parse_string (unicode_escape c @ t) = cons_result c (parse_string t)"
  by (subst parse_string.simps) (simp add: unicode_escape_def parse_hex4_hex4)

lemma parse_string_literal:
  "c \<noteq> 34 \<Longrightarrow> c \<noteq> 92 \<Longrightarrow> 32 \<le> unat c \<Longrightarrow> parse_string (c # t) = cons_result c (parse_string t)"
  by (subst parse_string.simps) simp

lemma parse_string_simple:
  "simple_escape e = Some c \<Longrightarrow> e \<noteq> 117 \<Longrightarrow> parse_string (92 # e # t) = cons_result c (parse_string t)"
  by (subst parse_string.simps) simp

lemma parse_string_unit: "parse_string (quote_unit c @ t) = cons_result c (parse_string t)"
proof -
  consider "c \<in> {8, 9, 10, 12, 13, 34, 92}" | "c \<notin> {8, 9, 10, 12, 13, 34, 92}" "unat c < 32"
    | "c \<notin> {8, 9, 10, 12, 13, 34, 92}" "32 \<le> unat c" by fastforce
  then show ?thesis
  proof cases
    case 1
    then show ?thesis
      by (auto simp: quote_unit_def parse_string_simple simple_escape_def)
  next
    case 2
    then show ?thesis by (simp add: quote_unit_def parse_string_escape)
  next
    case 3
    then show ?thesis by (simp add: quote_unit_def parse_string_literal)
  qed
qed

lemma surrogate_literal: "is_high_surrogate c \<or> is_low_surrogate c \<Longrightarrow> c \<noteq> 34 \<and> c \<noteq> 92 \<and> 32 \<le> unat c"
  by (auto simp: is_high_surrogate_def is_low_surrogate_def)

lemma parse_string_quote_units: "parse_string (quote_units s @ 34 # r) = Some (s, r)"
proof (induction s rule: quote_units.induct)
  case 1
  then show ?case by (subst parse_string.simps) simp
next
  case (2 c)
  have "parse_string (34 # r) = Some ([], r)" by (subst parse_string.simps) simp
  then show ?case by (simp add: parse_string_escape parse_string_unit)
next
  case (3 c d s)
  show ?case
  proof (cases "is_high_surrogate c \<and> is_low_surrogate d")
    case True
    then have "parse_string (quote_units s @ 34 # r) = Some (s, r)" using 3 by blast
    then show ?thesis
      using True surrogate_literal [of c] surrogate_literal [of d] by (simp add: parse_string_literal)
  next
    case False
    then have "parse_string (quote_units (d # s) @ 34 # r) = Some (d # s, r)" using 3 by blast
    then show ?thesis using False by (auto simp: parse_string_escape parse_string_unit)
  qed
qed

text \<open>Safe integers are their own doubles, and their digits read back.\<close>

lemma bit_length_bound: "0 \<le> n \<Longrightarrow> n < 2 ^ k \<Longrightarrow> bit_length n \<le> int k"
proof (induction n arbitrary: k rule: bit_length.induct)
  case (1 n)
  show ?case
  proof (cases "n \<le> 0")
    case True
    then show ?thesis by (simp add: bit_length.simps)
  next
    case False
    with 1(3) obtain j where k: "k = Suc j" by (cases k) auto
    have "bit_length (n div 2) \<le> int j" using 1(1) [of j] 1(2,3) False k by simp
    then show ?thesis using False k by (subst bit_length.simps) simp
  qed
qed

lemma round_even_int [simp]: "round_even (of_int n) = n"
  by (simp add: round_even_def)

lemma round_double_int:
  assumes "\<bar>n\<bar> \<le> max_safe"
  shows "round_double (of_int n) = Fin (of_int n)"
proof (cases "n = 0")
  case True
  then show ?thesis by (simp add: round_double_def)
next
  case False
  define a where "a = \<bar>n\<bar>"
  have a: "0 < a" "a < 2 ^ 53" using False assms by (auto simp: a_def max_safe_def)
  have abs_n: "\<bar>rat_of_int n\<bar> = of_int a" by (simp add: a_def)
  define e where "e = max (exponent_of (of_int a)) (-1022)"
  have "bit_length 1 = 1" by (simp add: bit_length.simps)
  then have "exponent_of (of_int a) \<le> bit_length a - 1"
    by (simp add: exponent_of_def Let_def quotient_of_int)
  moreover have "bit_length a \<le> 53" using bit_length_bound [of a 53] a by simp
  ultimately have e: "e \<le> 52" by (simp add: e_def)
  define k where "k = nat (52 - e)"
  have ulp: "pow2 (e - 52) = 1 / 2 ^ k"
    using e by (cases "e = 52") (simp_all add: pow2_def k_def)
  have "rat_of_int a / pow2 (e - 52) = of_int (a * 2 ^ k)" by (simp add: ulp)
  then have m: "of_int (round_even (rat_of_int a / pow2 (e - 52))) * pow2 (e - 52) = rat_of_int a"
    by (simp only: round_even_int ulp) simp
  have "rat_of_int a < pow2 1024"
  proof -
    have "rat_of_int a < of_int (2 ^ 53)" using a(2) by (simp only: of_int_less_iff)
    also have "\<dots> \<le> 2 ^ 1024" by (simp add: power_increasing)
    finally show ?thesis by (simp add: pow2_def)
  qed
  then have "round_double (of_int n) = Fin (if 0 < rat_of_int n then of_int a else - of_int a)"
    using False m unfolding round_double_def abs_n Let_def e_def [symmetric] by simp
  then show ?thesis by (simp add: a_def)
qed

lemma takeWhile_digits: "list_all is_digit s \<Longrightarrow> r = [] \<or> \<not> is_digit (hd r) \<Longrightarrow>
    takeWhile is_digit (s @ r) = s \<and> dropWhile is_digit (s @ r) = r"
  by (cases r) (auto simp: list_all_iff takeWhile_append dropWhile_append)

lemma unsigned_number_digits:
  assumes "is_digits s" "digits_value s = n" "n \<le> max_safe"
  shows "unsigned_number neg s = Fin (of_int (if neg then - n else n))"
proof -
  have ds: "list_all is_digit s" "s \<noteq> []" using assms(1) by (auto simp: is_digits_def)
  have n: "0 \<le> n" using digits_value_nonneg [OF ds(1)] assms(2) by simp
  have "s \<noteq> lit ''Infinity''"
  proof
    assume "s = lit ''Infinity''"
    then have "is_digit (hd (lit ''Infinity''))" using ds by (metis list.pred_set list.set_sel(1))
    moreover have "\<not> is_digit (hd (lit ''Infinity''))" by code_simp
    ultimately show False by simp
  qed
  moreover have ends: "takeWhile is_digit s = s" "dropWhile is_digit s = []"
    using takeWhile_digits [OF ds(1), of "[]"] by simp_all
  have "decimal_value s = Some (of_int n)"
    unfolding decimal_value_def ends using ds(2) assms(2) by (simp add: exponent_part_def)
  moreover have "round_double (rat_of_int (if neg then - n else n)) = Fin (of_int (if neg then - n else n))"
    using n assms(3) by (intro round_double_int) auto
  ultimately show ?thesis by (cases neg) (simp_all add: unsigned_number_def)
qed

lemma dec_string_head:
  "0 \<le> n \<Longrightarrow> hd (dec_string n) = 48 \<longleftrightarrow> n = 0"
proof (induction n rule: dec_string.induct)
  case (1 n)
  have zero: "(digit_unit k = 48) = (k = 0)" if "0 \<le> k" "k \<le> 9" for k
    using digit_unit_digit(2) [OF that] digit_unit_digit(2) [of 0] by (auto simp: digit_unit_def)
  show ?case
  proof (cases "n < 10")
    case True
    then show ?thesis using 1(2) zero [of n] by (simp add: dec_string.simps)
  next
    case False
    then have "dec_string n = dec_string (n div 10) @ [digit_unit (n mod 10)]"
      by (subst dec_string.simps) simp
    moreover have "dec_string (n div 10) \<noteq> []" using dec_string_digits [of "n div 10"] 1(2)
      by (simp add: is_digits_def)
    ultimately show ?thesis using 1 False by simp
  qed
qed

text \<open>What may follow a value in a JSON text.\<close>

definition ends_value :: "jstr \<Rightarrow> bool" where
  "ends_value r \<longleftrightarrow> r = [] \<or> hd r = 44 \<or> hd r = 93 \<or> hd r = 125 \<or> hd r = 10"

lemma scan_number_int:
  assumes "ends_value r"
  shows "scan_number (int_string n @ r) = Some (n < 0, dec_string \<bar>n\<bar>, r)"
proof -
  define ds where "ds = dec_string \<bar>n\<bar>"
  have ds: "list_all is_digit ds" "ds \<noteq> []"
    using dec_string_digits [of "\<bar>n\<bar>"] by (auto simp: ds_def is_digits_def)
  have r: "r = [] \<or> \<not> is_digit (hd r)" "r \<noteq> [] \<Longrightarrow> hd r \<noteq> 46 \<and> hd r \<noteq> 101 \<and> hd r \<noteq> 69"
    using assms by (auto simp: ends_value_def is_digit_def)
  have whole: "(if ds \<noteq> [] \<and> hd ds = 48 then [48] else ds) = ds"
  proof (cases "hd ds = 48")
    case True
    then have "n = 0" using dec_string_head [of "\<bar>n\<bar>"] by (simp add: ds_def)
    then show ?thesis by (simp add: ds_def dec_string.simps digit_unit_def)
  qed simp
  have dash: "hd (ds @ r) \<noteq> 45" using ds by (cases ds) (auto simp: is_digit_def)
  have "lit ''-'' = [45]" by code_simp
  then have split: "int_string n @ r = (if n < 0 then [45] else []) @ ds @ r"
    by (simp add: int_string_def ds_def)
  have body: "takeWhile is_digit (ds @ r) = ds" using takeWhile_digits [OF ds(1) r(1)] by simp
  have no_frac: "(r \<noteq> [] \<and> hd r = 46) = False" "(r \<noteq> [] \<and> (hd r = 101 \<or> hd r = 69)) = False"
    using r(2) by auto
  let ?s = "(if n < 0 then [45] else []) @ ds @ r"
  have neg: "(?s \<noteq> [] \<and> hd ?s = 45) = (n < 0)" using dash ds(2) by simp
  have rest: "(if n < 0 then tl ?s else ?s) = ds @ r" by simp
  have "scan_number ?s = Some (n < 0, ds, r)"
    unfolding scan_number_def neg rest Let_def body whole
    by (simp add: no_frac ds(2))
  then show ?thesis unfolding split ds_def .
qed

lemma number_text_int: "\<bar>n\<bar> \<le> max_safe \<Longrightarrow> json_number (Fin (of_int n)) = int_string n"
  by (simp add: json_number_def number_text_def)

text \<open>Plain data: what the program prints and reads back.\<close>

fun plain :: "js \<Rightarrow> bool" where
  "plain JNull = True"
| "plain (JBool b) = True"
| "plain (JNum x) = (safe_int_of_num x \<noteq> None)"
| "plain (JStr s) = True"
| "plain (JArr vs) = list_all plain vs"
| "plain (JObj p kvs) = (p = ObjectProto \<and> distinct (map fst kvs) \<and> list_all plain (map snd kvs))"
| "plain _ = False"

definition json_text :: "js \<Rightarrow> jstr" where
  "json_text v = the (json_stringify v)"

lemma plain_stringify: "plain v \<Longrightarrow> json_stringify v = Some (json_text v)"
  by (cases v) (auto simp: json_text_def)

definition member_text :: "jstr \<times> js \<Rightarrow> jstr" where
  "member_text kv = json_quote (fst kv) @ [58] @ json_text (snd kv)"

lemma json_text_simps:
  "json_text JNull = [110, 117, 108, 108]"
  "json_text (JBool True) = [116, 114, 117, 101]"
  "json_text (JBool False) = [102, 97, 108, 115, 101]"
  "json_text (JStr s) = json_quote s"
  "\<bar>n\<bar> \<le> max_safe \<Longrightarrow> json_text (JNum (Fin (of_int n))) = int_string n"
proof -
  have "lit ''null'' = [110, 117, 108, 108]" "lit ''true'' = [116, 114, 117, 101]"
    "lit ''false'' = [102, 97, 108, 115, 101]" by code_simp+
  then show "json_text JNull = [110, 117, 108, 108]" "json_text (JBool True) = [116, 114, 117, 101]"
    "json_text (JBool False) = [102, 97, 108, 115, 101]" "json_text (JStr s) = json_quote s"
    "\<bar>n\<bar> \<le> max_safe \<Longrightarrow> json_text (JNum (Fin (of_int n))) = int_string n"
    by (simp_all add: json_text_def number_text_int)
qed

lemma lit_brackets:
  "lit ''['' = [91]" "lit '']'' = [93]" "lit ''{'' = [123]" "lit ''}'' = [125]"
  "lit '','' = [44]" "lit '':'' = [58]"
  by code_simp+

lemma json_text_arr:
  assumes "list_all plain vs"
  shows "json_text (JArr vs) = [91] @ join_with [44] (map json_text vs) @ [93]"
proof -
  have eq: "map (\<lambda>v. case json_stringify v of None \<Rightarrow> lit ''null'' | Some t \<Rightarrow> t) vs = map json_text vs"
    using assms by (auto simp: list_all_iff plain_stringify)
  have "json_stringify (JArr vs) = Some ([91] @ join_with [44] (map json_text vs) @ [93])"
    unfolding json_stringify.simps lit_brackets eq ..
  then show ?thesis by (simp add: json_text_def)
qed

lemma json_text_obj:
  assumes "list_all plain (map snd kvs)"
  shows "json_text (JObj p kvs) = [123] @ join_with [44] (map member_text kvs) @ [125]"
proof -
  have "concat (map (\<lambda>(k, v). case json_stringify v of None \<Rightarrow> [] | Some t \<Rightarrow> [json_quote k @ lit '':'' @ t]) kvs)
        = map member_text kvs"
    using assms by (induction kvs) (auto simp: plain_stringify member_text_def lit_brackets)
  then show ?thesis by (simp add: json_text_def lit_brackets)
qed

definition value_head :: "unit16 \<Rightarrow> bool" where
  "value_head c \<longleftrightarrow> c \<in> {34, 91, 123, 110, 116, 102, 45} \<or> is_digit c"

lemma value_head_facts: "value_head c \<Longrightarrow> \<not> is_json_ws c \<and> c \<noteq> 93"
  by (auto simp: value_head_def is_json_ws_def is_digit_def)

lemma int_string_head:
  "int_string n \<noteq> []" "hd (int_string n) = 45 \<or> is_digit (hd (int_string n))"
proof -
  have "lit ''-'' = [45]" by code_simp
  moreover have "is_digits (dec_string n)" if "0 \<le> n" using dec_string_digits [OF that] by blast
  ultimately show "int_string n \<noteq> []" "hd (int_string n) = 45 \<or> is_digit (hd (int_string n))"
    by (auto simp: int_string_def is_digits_def list.pred_set not_less)
qed

lemma json_text_head: "plain v \<Longrightarrow> json_text v \<noteq> [] \<and> value_head (hd (json_text v))"
proof (cases v)
  case (JBool b)
  then show ?thesis by (cases b) (simp_all add: json_text_simps value_head_def)
next
  case (JNum x)
  assume "plain v"
  with JNum obtain n where "x = Fin (of_int n)" "\<bar>n\<bar> \<le> max_safe"
    by (auto simp: safe_int_of_num_Some_iff)
  then show ?thesis using JNum int_string_head [of n] by (auto simp: json_text_simps value_head_def)
qed (simp_all add: json_text_simps json_text_arr json_text_obj value_head_def json_quote_def)

definition parses :: "js \<Rightarrow> bool" where
  "parses v \<longleftrightarrow> (\<forall>r f. ends_value r \<longrightarrow> 2 * length (json_text v) \<le> f \<longrightarrow>
                    parse_value f (json_text v @ r) = Some (v, r))"

lemma skip_ws_head: "s \<noteq> [] \<Longrightarrow> \<not> is_json_ws (hd s) \<Longrightarrow> skip_ws s = s"
  by (cases s) auto

lemma delims_not_ws [simp]:
  "\<not> is_json_ws 44" "\<not> is_json_ws 93" "\<not> is_json_ws 125" "\<not> is_json_ws 58" "\<not> is_json_ws 34"
  by (simp_all add: is_json_ws_def)

lemma ends_value_delims [simp]:
  "ends_value (44 # r)" "ends_value (93 # r)" "ends_value (125 # r)"
  by (simp_all add: ends_value_def)

lemma parse_elements_text:
  assumes "vs \<noteq> []" "\<And>v. v \<in> set vs \<Longrightarrow> parses v"
    and "2 * length (join_with [44] (map json_text vs)) + 1 \<le> f"
  shows "parse_elements f (join_with [44] (map json_text vs) @ 93 # r) = Some (vs, r)"
  using assms
proof (induction vs arbitrary: f)
  case Nil
  then show ?case by simp
next
  case (Cons v vs)
  obtain g where f: "f = Suc g" using Cons.prems(3) by (cases f) auto
  show ?case
  proof (cases vs)
    case Nil
    then have "parse_value g (json_text v @ 93 # r) = Some (v, 93 # r)"
      using Cons.prems f by (simp add: parses_def)
    then show ?thesis using Nil f by simp
  next
    case (Cons w ws)
    let ?rest = "join_with [44] (map json_text vs)"
    have joined: "join_with [44] (map json_text (v # vs)) = json_text v @ [44] @ ?rest"
      using Cons by simp
    have "parse_value g (json_text v @ 44 # ?rest @ 93 # r) = Some (v, 44 # ?rest @ 93 # r)"
      using Cons.prems(2,3) f unfolding joined by (simp add: parses_def)
    moreover have "parse_elements g (?rest @ 93 # r) = Some (vs, r)"
      using Cons.IH [of g] Cons.prems(2,3) f Cons unfolding joined by simp
    ultimately show ?thesis unfolding joined f by simp
  qed
qed

lemma parse_members_text:
  assumes "kvs \<noteq> []" "\<And>v. v \<in> set (map snd kvs) \<Longrightarrow> parses v"
    and "2 * length (join_with [44] (map member_text kvs)) + 1 \<le> f"
  shows "parse_members f (join_with [44] (map member_text kvs) @ 125 # r) = Some (kvs, r)"
  using assms
proof (induction kvs arbitrary: f)
  case Nil
  then show ?case by simp
next
  case (Cons kv kvs)
  obtain k v where kv: "kv = (k, v)" by force
  obtain g where f: "f = Suc g" using Cons.prems(3) by (cases f) auto
  have member: "member_text (k, v) = 34 # quote_units k @ 34 # 58 # json_text v"
    by (simp add: member_text_def json_quote_def)
  have v: "parses v" using Cons.prems(2) kv by simp
  show ?case
  proof (cases kvs)
    case Nil
    then have "parse_value g (json_text v @ 125 # r) = Some (v, 125 # r)"
      using v Cons.prems(3) f member kv by (simp add: parses_def)
    then show ?thesis using Nil f by (simp add: member kv parse_string_quote_units)
  next
    case (Cons kw kws)
    let ?rest = "join_with [44] (map member_text kvs)"
    have joined: "join_with [44] (map member_text (kv # kvs)) = member_text kv @ [44] @ ?rest"
      using Cons by simp
    have "parse_value g (json_text v @ 44 # ?rest @ 125 # r) = Some (v, 44 # ?rest @ 125 # r)"
      using v Cons.prems(3) f member kv unfolding joined by (simp add: parses_def)
    moreover have "parse_members g (?rest @ 125 # r) = Some (kvs, r)"
      using Cons.IH [of g] Cons.prems(2,3) f Cons unfolding joined by simp
    ultimately show ?thesis unfolding joined f by (simp add: member kv parse_string_quote_units)
  qed
qed

lemma fold_update_distinct:
  "distinct (map fst (acc @ kvs)) \<Longrightarrow> fold (\<lambda>(k, v). AList.update k v) kvs acc = acc @ kvs"
proof (induction kvs arbitrary: acc)
  case (Cons kv kvs)
  obtain k v where kv: "kv = (k, v)" by force
  have "k \<notin> set (map fst acc)" using Cons.prems kv by auto
  then have "AList.update k v acc = acc @ [(k, v)]" by (induction acc) auto
  then show ?case using Cons.IH [of "acc @ [(k, v)]"] Cons.prems kv by simp
qed simp

lemma json_literals:
  "lit ''null'' = [110, 117, 108, 108]" "lit ''true'' = [116, 114, 117, 101]"
  "lit ''false'' = [102, 97, 108, 115, 101]"
  by code_simp+

lemma parse_value_scalar:
  assumes "ends_value r"
  shows "parse_value (Suc g) ([110, 117, 108, 108] @ r) = Some (JNull, r)"
    "parse_value (Suc g) ([116, 114, 117, 101] @ r) = Some (JBool True, r)"
    "parse_value (Suc g) ([102, 97, 108, 115, 101] @ r) = Some (JBool False, r)"
    "parse_value (Suc g) (json_quote s @ r) = Some (JStr s, r)"
  by (simp_all add: is_json_ws_def starts_with_def json_literals json_quote_def parse_string_quote_units)

lemma parse_value_number:
  assumes "ends_value r" "\<bar>n\<bar> \<le> max_safe"
  shows "parse_value (Suc g) (int_string n @ r) = Some (JNum (Fin (of_int n)), r)"
proof -
  obtain c t where ct: "int_string n @ r = c # t" "c = 45 \<or> is_digit c"
    using int_string_head [of n] by (cases "int_string n") auto
  then have c: "\<not> is_json_ws c" "c \<noteq> 34" "c \<noteq> 91" "c \<noteq> 123" "c \<noteq> 110" "c \<noteq> 116" "c \<noteq> 102"
    by (auto simp: is_json_ws_def is_digit_def)
  have ds: "is_digits (dec_string \<bar>n\<bar>)" "digits_value (dec_string \<bar>n\<bar>) = \<bar>n\<bar>"
    using dec_string_digits [of "\<bar>n\<bar>"] by auto
  have "unsigned_number (n < 0) (dec_string \<bar>n\<bar>) = Fin (of_int n)"
    using unsigned_number_digits [OF ds assms(2), of "n < 0"] by simp
  moreover have "scan_number (c # t) = Some (n < 0, dec_string \<bar>n\<bar>, r)"
    using scan_number_int [OF assms(1), of n] ct(1) by simp
  ultimately show ?thesis unfolding ct(1)
    using c by (simp add: starts_with_def json_literals)
qed

lemma parses_plain: "plain v \<Longrightarrow> parses v"
proof (induction v)
  case (JNum x)
  then obtain n where n: "x = Fin (of_int n)" "\<bar>n\<bar> \<le> max_safe"
    by (auto simp: safe_int_of_num_Some_iff)
  have "parse_value f (int_string n @ r) = Some (JNum x, r)"
    if "ends_value r" "2 * length (int_string n) \<le> f" for r f
    using parse_value_number [OF that(1) n(2)] that(2) int_string_head(1) [of n] n(1)
    by (cases f) auto
  then show ?case using n by (simp add: parses_def json_text_simps)
next
  case (JBool b)
  have "parse_value f (json_text (JBool b) @ r) = Some (JBool b, r)"
    if "ends_value r" "2 * length (json_text (JBool b)) \<le> f" for r f
    using that parse_value_scalar(2,3) [of r]
    by (cases f; cases b) (simp_all only: json_text_simps, simp_all)
  then show ?case by (simp add: parses_def)
next
  case JNull
  have "parse_value f (json_text JNull @ r) = Some (JNull, r)"
    if "ends_value r" "2 * length (json_text JNull) \<le> f" for r f
    using that parse_value_scalar(1) [of r]
    by (cases f) (simp_all only: json_text_simps, simp_all)
  then show ?case by (simp add: parses_def)
next
  case (JStr s)
  have "parse_value f (json_quote s @ r) = Some (JStr s, r)"
    if "ends_value r" "2 * length (json_quote s) \<le> f" for r f
    using that parse_value_scalar(4) [of r]
    by (cases f) (simp_all add: json_quote_def)
  then show ?case by (simp add: parses_def json_text_simps)
next
  case (JArr vs)
  then have plain: "list_all plain vs" by simp
  have "parse_value f (json_text (JArr vs) @ r) = Some (JArr vs, r)"
    if len: "ends_value r" "2 * length (json_text (JArr vs)) \<le> f" for r f
  proof -
    obtain g where f: "f = Suc g" using len(2) by (cases f) (simp_all add: json_text_arr [OF plain])
    show ?thesis
    proof (cases vs)
      case Nil
      then show ?thesis by (simp add: f json_text_arr is_json_ws_def)
    next
      case (Cons w ws)
      let ?e = "join_with [44] (map json_text vs)"
      have "plain w" using plain Cons by simp
      then have w: "json_text w \<noteq> []" "value_head (hd (json_text w))"
        using json_text_head by auto
      then obtain c u where cu: "?e @ 93 # r = c # u" "value_head c"
        using Cons by (cases "json_text w"; cases ws) auto
      have "2 * length ?e + 1 \<le> g" using len(2) f by (simp add: json_text_arr [OF plain])
      moreover have "parses v" if "v \<in> set vs" for v
        using JArr.IH [OF that] plain that by (simp add: list_all_iff)
      ultimately have "parse_elements g (?e @ 93 # r) = Some (vs, r)"
        using Cons by (intro parse_elements_text) auto
      then show ?thesis
        using value_head_facts [OF cu(2)] cu(1)
        by (simp add: f json_text_arr [OF plain] is_json_ws_def)
    qed
  qed
  then show ?case by (simp add: parses_def)
next
  case (JObj p kvs)
  then have p: "p = ObjectProto" "distinct (map fst kvs)" and plain: "list_all plain (map snd kvs)"
    by simp_all
  have "parse_value f (json_text (JObj p kvs) @ r) = Some (JObj p kvs, r)"
    if len: "ends_value r" "2 * length (json_text (JObj p kvs)) \<le> f" for r f
  proof -
    obtain g where f: "f = Suc g" using len(2) by (cases f) (simp_all add: json_text_obj [OF plain])
    show ?thesis
    proof (cases kvs)
      case Nil
      then show ?thesis by (simp add: f json_text_obj is_json_ws_def p)
    next
      case (Cons kw kws)
      let ?e = "join_with [44] (map member_text kvs)"
      obtain u where cu: "?e @ 125 # r = 34 # u"
        using Cons by (cases kws) (auto simp: member_text_def json_quote_def)
      have "parses v" if "v \<in> set (map snd kvs)" for v
        using JObj.IH plain that by (fastforce simp: list_all_iff)
      moreover have "2 * length ?e + 1 \<le> g" using len(2) f by (simp add: json_text_obj [OF plain])
      ultimately have "parse_members g (?e @ 125 # r) = Some (kvs, r)"
        using Cons by (intro parse_members_text) auto
      moreover have "fold (\<lambda>(k, v). AList.update k v) kvs [] = kvs"
        using fold_update_distinct [of "[]" kvs] p(2) by simp
      ultimately show ?thesis using cu
        by (simp add: f json_text_obj [OF plain] is_json_ws_def p(1))
    qed
  qed
  then show ?case by (simp add: parses_def)
qed simp_all

lemma json_parse_text: "plain v \<Longrightarrow> json_parse (json_text v) = Some v"
proof -
  assume "plain v"
  then have "parse_value (2 * length (json_text v) + 2) (json_text v @ []) = Some (v, [])"
    by (intro parses_plain [unfolded parses_def, rule_format]) (auto simp: ends_value_def)
  then show ?thesis by (simp only: json_parse_def append_Nil2 option.case prod.case dropWhile.simps simp_thms if_True)
qed

lemma json_text_inject: "plain v \<Longrightarrow> plain w \<Longrightarrow> json_text v = json_text w \<longleftrightarrow> v = w"
  using json_parse_text by (metis option.inject)

end
