(* ===== verification/MailText.thy ===== *)
theory MailText
  imports JsonText
begin

text \<open>
  The text side of sending a newsletter: \<^verbatim>\<open>replaceAll\<close>, \<^verbatim>\<open>safeStringify\<close> and \<^verbatim>\<open>formDataToObject\<close> of
  lib/core/common.ts, \<^verbatim>\<open>doSubstitution\<close> and \<^verbatim>\<open>preparePayload\<close> of lib/core/aws-utils.ts. Objects come
  from form data or from \<^verbatim>\<open>JSON.parse\<close>, so no value is shared and none is a date or a function.
  \<open>TypeError\<close> and \<open>SyntaxError\<close> stand for the exceptions the language throws itself.
\<close>

section \<open>Language conversions\<close>

abbreviation type_error :: "'a res" where "type_error \<equiv> Inl (Error ''TypeError'')"

lemma mapE_cong [fundef_cong]:
  "xs = ys \<Longrightarrow> (\<And>x. x \<in> set ys \<Longrightarrow> f x = g x) \<Longrightarrow> mapE f xs = mapE g ys"
  by (induction ys arbitrary: xs) auto

text \<open>
  \<^verbatim>\<open>String(v)\<close>. An object that came from a JSON text converts with the inherited \<^verbatim>\<open>toString\<close> unless it
  has a member of that name, which is no function.
\<close>

fun js_to_string :: "js \<Rightarrow> jstr res" where
  "js_to_string JUndef = Inr (lit ''undefined'')"
| "js_to_string JNull = Inr (lit ''null'')"
| "js_to_string (JBool b) = Inr (if b then lit ''true'' else lit ''false'')"
| "js_to_string (JNum NaN) = Inr (lit ''NaN'')"
| "js_to_string (JNum PInf) = Inr (lit ''Infinity'')"
| "js_to_string (JNum NInf) = Inr (lit ''-Infinity'')"
| "js_to_string (JNum (Fin r)) = Inr (number_text (Fin r))"
| "js_to_string (JStr s) = Inr s"
| "js_to_string (JArr vs) = bindE (mapE (\<lambda>v. if v = JUndef \<or> v = JNull then Inr [] else js_to_string v) vs)
     (\<lambda>ts. Inr (join_with (lit '','') ts))"
| "js_to_string (JObj p kvs) = (if lit ''toString'' \<in> fst ` set kvs then type_error else Inr (lit ''[object Object]''))"
| "js_to_string _ = type_error"

text \<open>Own property names are enumerated with the array indices first, in ascending order.\<close>

definition index_key :: "jstr \<Rightarrow> bool" where
  "index_key k \<longleftrightarrow> is_digits k \<and> dec_string (digits_value k) = k \<and> digits_value k < 4294967295"

definition key_order :: "(jstr \<times> 'a) list \<Rightarrow> (jstr \<times> 'a) list" where
  "key_order kvs = sort_key (\<lambda>kv. digits_value (fst kv)) (filter (\<lambda>kv. index_key (fst kv)) kvs)
     @ filter (\<lambda>kv. \<not> index_key (fst kv)) kvs"

fun ordered :: "js \<Rightarrow> js" where
  "ordered (JArr vs) = JArr (map ordered vs)"
| "ordered (JObj p kvs) = JObj p (key_order (map (\<lambda>(k, v). (k, ordered v)) kvs))"
| "ordered v = v"

text \<open>What every object inherits; a computed property read finds these too.\<close>

definition inherited_names :: "string list" where
  "inherited_names = [''constructor'', ''__defineGetter__'', ''__defineSetter__'', ''hasOwnProperty'', ''__lookupGetter__'',
     ''__lookupSetter__'', ''isPrototypeOf'', ''propertyIsEnumerable'', ''toString'', ''valueOf'', ''toLocaleString'']"

definition inherited :: "jstr \<Rightarrow> js" where
  "inherited k = (if k \<in> set (map lit inherited_names) then JFun
     else if k = lit ''__proto__'' then JObj NullProto [] else JUndef)"

fun lookup_key :: "js \<Rightarrow> jstr \<Rightarrow> js res" where
  "lookup_key JUndef k = type_error"
| "lookup_key JNull k = type_error"
| "lookup_key (JObj p kvs) k = Inr (case map_of kvs k of Some v \<Rightarrow> v | None \<Rightarrow> inherited k)"
| "lookup_key (JArr vs) k = Inr (if index_key k \<and> nat (digits_value k) < length vs then vs ! nat (digits_value k) else inherited k)"
| "lookup_key v k = Inr (inherited k)"

section \<open>replaceAll\<close>

text \<open>
  \<^verbatim>\<open>$$\<close>, \<^verbatim>\<open>$&\<close>, \<^verbatim>\<open>$`\<close> and \<^verbatim>\<open>$'\<close> in the replacement stand for a dollar sign, the match, what precedes and
  what follows it; the pattern has no groups, so every other dollar sign stands for itself.
\<close>

fun expand_replacement :: "jstr \<Rightarrow> jstr \<Rightarrow> jstr \<Rightarrow> jstr \<Rightarrow> jstr" where
  "expand_replacement matched preceding following [] = []"
| "expand_replacement matched preceding following [c] = [c]"
| "expand_replacement matched preceding following (c # d # t) =
     (if c \<noteq> 36 then c # expand_replacement matched preceding following (d # t)
      else if d = 36 then 36 # expand_replacement matched preceding following t
      else if d = 38 then matched @ expand_replacement matched preceding following t
      else if d = 96 then preceding @ expand_replacement matched preceding following t
      else if d = 39 then following @ expand_replacement matched preceding following t
      else c # expand_replacement matched preceding following (d # t))"

text \<open>
  The regular expression is the escaped search text with the flag \<^verbatim>\<open>g\<close>: its matches are the
  occurrences from left to right that do not overlap. An empty one matches between any two characters.
\<close>

lemma starts_with_shorter: "starts_with s p \<Longrightarrow> p \<noteq> [] \<Longrightarrow> length s - length p < length s"
  by (cases s) (auto simp: starts_with_def)

function replace_matches :: "jstr \<Rightarrow> jstr \<Rightarrow> jstr \<Rightarrow> jstr \<Rightarrow> jstr" where
  "replace_matches pat rep before s =
     (if pat \<noteq> [] \<and> starts_with s pat then
        expand_replacement pat before (drop (length pat) s) rep
        @ replace_matches pat rep (before @ pat) (drop (length pat) s)
      else
        (if pat = [] then expand_replacement [] before s rep else [])
        @ (case s of [] \<Rightarrow> [] | c # t \<Rightarrow> c # replace_matches pat rep (before @ [c]) t))"
  by pat_completeness auto

termination
  by (relation "measure (\<lambda>(pat, rep, before, s). length s)") (auto intro: starts_with_shorter)

declare replace_matches.simps [simp del]

definition replaceAll :: "jstr \<Rightarrow> jstr \<Rightarrow> jstr \<Rightarrow> jstr" where
  "replaceAll str search replacement = replace_matches search replacement [] str"

text \<open>\<^verbatim>\<open>replaceAll\<close> on the values it is called with: the text has a \<^verbatim>\<open>replace\<close> method only if it is a string.\<close>

definition replaceAll_js :: "js \<Rightarrow> jstr \<Rightarrow> js \<Rightarrow> js res" where
  "replaceAll_js str search replacement = (case str of
     JStr s \<Rightarrow> bindE (js_to_string replacement) (\<lambda>r. Inr (JStr (replaceAll s search r)))
   | _ \<Rightarrow> type_error)"

section \<open>Substitution\<close>

text \<open>\<^verbatim>\<open>Object.keys(substitutions)\<close> with the values behind the keys.\<close>

fun enumerable_entries :: "js \<Rightarrow> (jstr \<times> js) list res" where
  "enumerable_entries JUndef = type_error"
| "enumerable_entries JNull = type_error"
| "enumerable_entries (JObj p kvs) = Inr (key_order kvs)"
| "enumerable_entries (JArr vs) = Inr (map (\<lambda>(i, v). (dec_string (int i), v)) (enumerate 0 vs))"
| "enumerable_entries (JStr s) = Inr (map (\<lambda>(i, c). (dec_string (int i), JStr [c])) (enumerate 0 s))"
| "enumerable_entries _ = Inr []"

definition recipient_marker :: "jstr \<Rightarrow> jstr" where
  "recipient_marker key = lit ''%recipient.'' @ key @ lit ''%''"

definition doSubstitution :: "js \<Rightarrow> js \<Rightarrow> js res" where
  "doSubstitution inputText substitutions = bindE (enumerable_entries substitutions)
     (foldE (\<lambda>txt (key, v). replaceAll_js txt (recipient_marker key) v) inputText)"

section \<open>preparePayload\<close>

record prepared_email =
  pe_request :: js
  pe_recipientVariables :: js

definition email_tag :: "string \<Rightarrow> js \<Rightarrow> js" where
  "email_tag name v = obj [(''Name'', JStr (lit name)), (''Value'', v)]"

definition email_request :: "(string \<Rightarrow> jstr option) \<Rightarrow> js \<Rightarrow> jstr \<Rightarrow> js \<Rightarrow> js \<Rightarrow> js \<Rightarrow> jstr \<Rightarrow> js" where
  "email_request env input siteId receiverEmail txt html unsubscribe_url = obj
     [(''ConfigurationSetName'', case env ''NEWSLETTER_CONFIGURATION_SET_NAME'' of None \<Rightarrow> JUndef | Some s \<Rightarrow> JStr s),
      (''FromEmailAddress'', get_prop input ''from''),
      (''Destination'', obj [(''ToAddresses'', JArr [receiverEmail])]),
      (''ReplyToAddresses'', JArr [get_prop input ''h:Reply-To'']),
      (''Content'', obj [(''Simple'', obj
        [(''Subject'', obj [(''Data'', get_prop input ''subject'')]),
         (''Body'', obj [(''Text'', obj [(''Data'', txt)]), (''Html'', obj [(''Data'', html)])]),
         (''Headers'', JArr
            [email_tag ''List-Unsubscribe-Post'' (JStr (lit ''List-Unsubscribe=One-Click'')),
             email_tag ''List-Unsubscribe'' (JStr (lit ''<'' @ unsubscribe_url @ lit ''>''))])])]),
      (''EmailTags'', JArr
        [email_tag ''siteId'' (JStr siteId), email_tag ''batchId'' (get_prop input ''v:email-id''),
         email_tag ''ghost-email'' (JStr (lit ''true''))])]"

text \<open>The callback of \<^verbatim>\<open>receivers.map\<close>: its variables are looked up under the receiver's property name.\<close>

definition prepare_receiver :: "(string \<Rightarrow> jstr option) \<Rightarrow> js \<Rightarrow> jstr \<Rightarrow> js \<Rightarrow> js \<Rightarrow> prepared_email res" where
  "prepare_receiver env input siteId variables receiverEmail =
     bindE (if variables = JUndef \<or> variables = JNull then type_error else js_to_string receiverEmail) (\<lambda>key.
     bindE (lookup_key variables key) (\<lambda>vars.
     bindE (doSubstitution (get_prop input ''text'') vars) (\<lambda>txt.
     bindE (doSubstitution (get_prop input ''html'') vars) (\<lambda>html.
     bindE (js_to_string (get_prop vars ''unsubscribe_url'')) (\<lambda>url.
       Inr \<lparr>pe_request = email_request env input siteId receiverEmail txt html url, pe_recipientVariables = vars\<rparr>)))))"

text \<open>\<^verbatim>\<open>JSON.parse(v)\<close> converts its argument to a string first.\<close>

definition json_parse_js :: "js \<Rightarrow> js res" where
  "json_parse_js v = bindE (js_to_string v) (\<lambda>s. case json_parse s of None \<Rightarrow> Inl (Error ''SyntaxError'') | Some w \<Rightarrow> Inr w)"

definition receivers :: "js \<Rightarrow> js list" where
  "receivers input = (case get_prop input ''to'' of JArr vs \<Rightarrow> vs | v \<Rightarrow> [v])"

definition preparePayload :: "(string \<Rightarrow> jstr option) \<Rightarrow> js \<Rightarrow> jstr \<Rightarrow> prepared_email list res" where
  "preparePayload env input siteId =
     bindE (json_parse_js (get_prop input ''recipient-variables'')) (\<lambda>variables.
       mapE (prepare_receiver env input siteId variables) (receivers input))"

section \<open>safeStringify\<close>

text \<open>
  \<^verbatim>\<open>JSON.stringify(obj, replacer, 2)\<close>. The replacer drops a value it has met before; values without
  sharing pass it unchanged. \<open>d\<close> is the depth of the enclosing brackets.
\<close>

definition newline :: "nat \<Rightarrow> jstr" where
  "newline d = 10 # replicate (2 * d) 32"

definition bracketed :: "jstr \<Rightarrow> jstr \<Rightarrow> nat \<Rightarrow> jstr list \<Rightarrow> jstr" where
  "bracketed open_text close_text d ts = (if ts = [] then open_text @ close_text
     else open_text @ newline (Suc d) @ join_with (lit '','' @ newline (Suc d)) ts @ newline d @ close_text)"

fun indent_text :: "nat \<Rightarrow> js \<Rightarrow> jstr option" where
  "indent_text d (JArr vs) = Some (bracketed (lit ''['') (lit '']'') d
     (map (\<lambda>v. case indent_text (Suc d) v of None \<Rightarrow> lit ''null'' | Some t \<Rightarrow> t) vs))"
| "indent_text d (JObj p kvs) = Some (bracketed (lit ''{'') (lit ''}'') d
     (concat (map (\<lambda>(k, v). case indent_text (Suc d) v of None \<Rightarrow> [] | Some t \<Rightarrow> [json_quote k @ lit '': '' @ t]) kvs)))"
| "indent_text d v = json_stringify v"

definition safeStringify :: "js \<Rightarrow> jstr option" where
  "safeStringify v = indent_text 0 (ordered v)"

section \<open>formDataToObject\<close>

datatype form_value = FormString jstr | FormFile jstr

text \<open>
  A form is the list of its entries. \<^verbatim>\<open>key in obj\<close> also finds what the object inherits: such a value
  is no array and becomes the first element of one. Assigning to \<^verbatim>\<open>__proto__\<close> adds no property.
\<close>

definition add_form_value :: "(jstr \<times> js) list \<Rightarrow> jstr \<Rightarrow> jstr \<Rightarrow> (jstr \<times> js) list" where
  "add_form_value kvs key v =
     (if key = lit ''__proto__'' then kvs
      else case map_of kvs key of
        Some (JArr vs) \<Rightarrow> AList.update key (JArr (vs @ [JStr v])) kvs
      | Some w \<Rightarrow> AList.update key (JArr [w, JStr v]) kvs
      | None \<Rightarrow> AList.update key (if inherited key = JUndef then JStr v else JArr [inherited key, JStr v]) kvs)"

definition form_step :: "bool \<Rightarrow> jstr \<times> form_value \<Rightarrow> (jstr \<times> js) list \<Rightarrow> (jstr \<times> js) list" where
  "form_step includeFilenames entry kvs = (case entry of
     (key, FormFile name) \<Rightarrow> if includeFilenames then add_form_value kvs key name else kvs
   | (key, FormString s) \<Rightarrow> add_form_value kvs key s)"

definition formDataToObject :: "bool \<Rightarrow> (jstr \<times> form_value) list \<Rightarrow> js" where
  "formDataToObject includeFilenames form = JObj ObjectProto (fold (form_step includeFilenames) form [])"

lemma key_order_mset: "mset (key_order kvs) = mset kvs"
proof -
  have "mset (filter (\<lambda>kv. index_key (fst kv)) kvs) + mset (filter (\<lambda>kv. \<not> index_key (fst kv)) kvs) = mset kvs"
    by (induction kvs) auto
  then show ?thesis by (simp add: key_order_def)
qed

lemma key_order_set [simp]: "set (key_order kvs) = set kvs"
  by (metis key_order_mset set_mset_mset)

lemma key_order_distinct [simp]: "distinct (map fst (key_order kvs)) \<longleftrightarrow> distinct (map fst kvs)"
  by (metis key_order_mset mset_eq_imp_distinct_iff mset_map)

lemma map_of_key_order: "distinct (map fst kvs) \<Longrightarrow> map_of (key_order kvs) = map_of kvs"
  by (rule map_of_inject_set [THEN iffD2]) simp_all

section \<open>Replacing is splitting and joining\<close>

text \<open>\<^verbatim>\<open>s.split(pat)\<close>: the pieces between the occurrences found from left to right.\<close>

function split_text :: "jstr \<Rightarrow> jstr \<Rightarrow> jstr list" where
  "split_text pat s =
     (if pat \<noteq> [] \<and> starts_with s pat then [] # split_text pat (drop (length pat) s)
      else case s of [] \<Rightarrow> [[]] | c # t \<Rightarrow> (c # hd (split_text pat t)) # tl (split_text pat t))"
  by pat_completeness auto

termination
  by (relation "measure (\<lambda>(pat, s). length s)") (auto intro: starts_with_shorter)

declare split_text.simps [simp del]

fun occurs_in :: "jstr \<Rightarrow> jstr \<Rightarrow> bool" where
  "occurs_in pat [] = (pat = [])"
| "occurs_in pat (c # t) = (starts_with (c # t) pat \<or> occurs_in pat t)"

lemma starts_with_split: "starts_with s p \<Longrightarrow> s = p @ drop (length p) s"
  unfolding starts_with_def by (metis append_take_drop_id)

lemma starts_with_append: "starts_with s p \<Longrightarrow> starts_with (s @ t) p"
  using starts_with_split [of s p] unfolding starts_with_def
  by (metis append.assoc append_eq_conv_conj)

lemma expand_literal: "36 \<notin> set rep \<Longrightarrow> expand_replacement matched preceding following rep = rep"
  by (induction matched preceding following rep rule: expand_replacement.induct) auto

lemma join_with_Cons_append: "xs \<noteq> [] \<Longrightarrow> join_with sep ((x @ hd xs) # tl xs) = x @ join_with sep xs"
  by (cases xs; cases "tl xs") auto

lemma join_with_Nil_Cons: "xs \<noteq> [] \<Longrightarrow> join_with sep ([] # xs) = sep @ join_with sep xs"
  by (cases xs) auto

lemma split_text_cases [consumes 1]:
  assumes "pat \<noteq> []"
  obtains (hit) "starts_with s pat" "split_text pat s = [] # split_text pat (drop (length pat) s)"
  | (miss) c t where "\<not> starts_with s pat" "s = c # t"
      "split_text pat s = (c # hd (split_text pat t)) # tl (split_text pat t)"
  | (over) "s = []" "split_text pat s = [[]]"
proof -
  consider "starts_with s pat" | c t where "\<not> starts_with s pat" "s = c # t" | "\<not> starts_with s pat" "s = []"
    by (cases s) auto
  then show thesis
  proof cases
    case 1
    then have "split_text pat s = [] # split_text pat (drop (length pat) s)" using assms by (subst split_text.simps) simp
    then show thesis using 1 by (rule hit [rotated])
  next
    case 2
    then have "split_text pat s = (c # hd (split_text pat t)) # tl (split_text pat t)" by (subst split_text.simps) simp
    then show thesis using 2 by (intro miss)
  next
    case 3
    then have "split_text pat s = [[]]" by (subst split_text.simps) simp
    then show thesis using 3 by (intro over)
  qed
qed

lemma split_text_nonempty [simp]: "pat \<noteq> [] \<Longrightarrow> split_text pat s \<noteq> []"
  by (subst split_text.simps) (auto split: list.split)

lemma join_split_text:
  assumes "pat \<noteq> []" shows "join_with pat (split_text pat s) = s"
  using assms
proof (induction pat s rule: split_text.induct)
  case (1 pat s)
  from "1.prems" show ?case
  proof (cases rule: split_text_cases [where s = s])
    case hit
    then show ?thesis using "1.IH"(1) "1.prems" starts_with_split [OF hit(1)] by (simp add: join_with_Nil_Cons)
  next
    case (miss c t)
    then show ?thesis
      using "1.IH"(2) [OF _ miss(2)] "1.prems" join_with_Cons_append [of "split_text pat t" pat "[c]"] by simp
  qed simp
qed

lemma split_text_pieces:
  assumes "pat \<noteq> []" "piece \<in> set (split_text pat s)" shows "\<not> occurs_in pat piece"
  using assms
proof (induction pat s arbitrary: piece rule: split_text.induct)
  case (1 pat s)
  from "1.prems"(1) show ?case
  proof (cases rule: split_text_cases [where s = s])
    case hit
    then show ?thesis using "1.IH"(1) "1.prems" by auto
  next
    case (miss c t)
    let ?ps = "split_text pat t"
    have ih: "\<not> occurs_in pat q" if "q \<in> set ?ps" for q
      using "1.IH"(2) [OF _ miss(2)] miss(1) "1.prems"(1) that by blast
    have first: "\<not> starts_with (c # hd ?ps) pat"
    proof
      assume h: "starts_with (c # hd ?ps) pat"
      have "s = (c # hd ?ps) @ drop (length (hd ?ps)) t"
        using join_split_text [OF "1.prems"(1), of t] split_text_nonempty [OF "1.prems"(1), of t] miss(2)
        by (cases ?ps; cases "tl ?ps") (auto simp del: split_text_nonempty)
      then show False using starts_with_append [OF h] miss(1) by metis
    qed
    have "q \<in> set ?ps" if "q \<in> set (tl ?ps)" for q using that by (cases ?ps) auto
    then show ?thesis using first "1.prems" miss(3) ih by auto
  next
    case over
    then show ?thesis using "1.prems" by simp
  qed
qed

lemma replace_matches_split:
  assumes "pat \<noteq> []" "36 \<notin> set rep"
  shows "replace_matches pat rep before s = join_with rep (split_text pat s)"
  using assms
proof (induction pat rep before s rule: replace_matches.induct)
  case (1 pat rep before s)
  from "1.prems"(1) show ?case
  proof (cases rule: split_text_cases [where s = s])
    case hit
    then show ?thesis
      using "1.IH"(1) "1.prems" by (subst replace_matches.simps) (simp add: expand_literal join_with_Nil_Cons)
  next
    case (miss c t)
    have "replace_matches pat rep before s = c # replace_matches pat rep (before @ [c]) t"
      using miss "1.prems"(1) by (subst replace_matches.simps) simp
    then show ?thesis
      using "1.IH"(2) [OF _ miss(2)] miss "1.prems" join_with_Cons_append [of "split_text pat t" rep "[c]"] by simp
  next
    case over
    then show ?thesis using "1.prems" by (subst replace_matches.simps) (simp add: starts_with_def)
  qed
qed

lemma recipient_marker_nonempty [simp]: "recipient_marker k \<noteq> []"
  by (simp add: recipient_marker_def lit_def)

definition string_of :: "js \<Rightarrow> jstr" where
  "string_of v = (case v of JStr s \<Rightarrow> s | _ \<Rightarrow> [])"

definition literal_value :: "js \<Rightarrow> bool" where
  "literal_value v \<longleftrightarrow> (case v of JStr s \<Rightarrow> 36 \<notin> set s | _ \<Rightarrow> False)"

lemma literal_substitution:
  assumes "\<forall>v \<in> set (map snd kvs). literal_value v"
  shows "doSubstitution (JStr s) (JObj p kvs) =
     Inr (JStr (fold (\<lambda>(k, v) t. join_with (string_of v) (split_text (recipient_marker k) t)) (key_order kvs) s))"
proof -
  have "foldE (\<lambda>t (key, v). replaceAll_js t (recipient_marker key) v) (JStr s) ps =
      Inr (JStr (fold (\<lambda>(k, v) t. join_with (string_of v) (split_text (recipient_marker k) t)) ps s))"
    if "\<forall>v \<in> set (map snd ps). literal_value v" for ps
    using that
    by (induction ps arbitrary: s)
      (auto simp: replaceAll_js_def replaceAll_def literal_value_def string_of_def replace_matches_split split: js.splits)
  from this [of "key_order kvs"] show ?thesis using assms by (simp add: doSubstitution_def)
qed

section \<open>Reading back an indented text\<close>

definition indented :: "nat \<Rightarrow> js \<Rightarrow> jstr" where
  "indented d v = the (indent_text d v)"

definition parses_indented :: "js \<Rightarrow> bool" where
  "parses_indented v \<longleftrightarrow> (\<forall>d r f. ends_value r \<longrightarrow> 2 * length (indented d v) \<le> f \<longrightarrow>
                    parse_value f (indented d v @ r) = Some (v, r))"

lemma plain_indented: "plain v \<Longrightarrow> indent_text d v = Some (indented d v)"
  by (cases v) (auto simp: indented_def)

lemma newline_ws: "skip_ws (newline d @ s) = skip_ws s" "ends_value (newline d @ s)"
proof -
  have "skip_ws (replicate n 32 @ s) = skip_ws s" for n by (induction n) (auto simp: is_json_ws_def)
  then show "skip_ws (newline d @ s) = skip_ws s" by (simp add: newline_def is_json_ws_def)
  show "ends_value (newline d @ s)" by (simp add: newline_def ends_value_def)
qed

lemma parse_value_newline [simp]: "parse_value f (newline d @ s) = parse_value f s"
  by (cases f) (simp_all add: newline_ws)

lemma parse_value_space [simp]: "parse_value f (32 # s) = parse_value f s"
  by (cases f) (simp_all add: is_json_ws_def)

lemma parse_members_newline [simp]: "parse_members f (newline d @ s) = parse_members f s"
  by (cases f) (simp_all add: newline_ws)

lemma join_newline:
  "ts \<noteq> [] \<Longrightarrow> newline d @ join_with (lit '','' @ newline d) ts = join_with [44] (map (\<lambda>t. newline d @ t) ts)"
proof (induction ts)
  case (Cons t ts)
  then show ?case by (cases ts) (auto simp: lit_brackets)
qed simp

definition indented_member :: "nat \<Rightarrow> jstr \<times> js \<Rightarrow> jstr" where
  "indented_member d kv = json_quote (fst kv) @ [58, 32] @ indented d (snd kv)"

lemma indented_arr:
  assumes "list_all plain vs" "vs \<noteq> []"
  shows "indented d (JArr vs) = [91] @ join_with [44] (map (\<lambda>v. newline (Suc d) @ indented (Suc d) v) vs) @ newline d @ [93]"
proof -
  have "map (\<lambda>v. case indent_text (Suc d) v of None \<Rightarrow> lit ''null'' | Some t \<Rightarrow> t) vs = map (indented (Suc d)) vs"
    using assms(1) by (intro map_cong) (auto simp: list_all_iff plain_indented)
  then have "indented d (JArr vs) = bracketed (lit ''['') (lit '']'') d (map (indented (Suc d)) vs)"
    by (simp only: indented_def [of d "JArr vs"] indent_text.simps option.sel)
  then show ?thesis
    using assms(2) join_newline [of "map (indented (Suc d)) vs" "Suc d"] by (simp add: bracketed_def lit_brackets comp_def)
qed

lemma indented_obj:
  assumes "list_all plain (map snd kvs)" "kvs \<noteq> []"
  shows "indented d (JObj p kvs) = [123] @ join_with [44] (map (\<lambda>kv. newline (Suc d) @ indented_member (Suc d) kv) kvs)
     @ newline d @ [125]"
proof -
  have colon: "lit '': '' = [58, 32]" by code_simp
  have "concat (map (\<lambda>(k, v). case indent_text (Suc d) v of None \<Rightarrow> [] | Some t \<Rightarrow> [json_quote k @ lit '': '' @ t]) kvs)
      = map (indented_member (Suc d)) kvs"
    using assms(1) by (induction kvs) (auto simp: plain_indented indented_member_def colon)
  then have "indented d (JObj p kvs) = bracketed (lit ''{'') (lit ''}'') d (map (indented_member (Suc d)) kvs)"
    by (simp only: indented_def [of d "JObj p kvs"] indent_text.simps option.sel)
  then show ?thesis
    using assms(2) join_newline [of "map (indented_member (Suc d)) kvs" "Suc d"] by (simp add: bracketed_def lit_brackets comp_def)
qed

lemma indented_empty: "indented d (JArr []) = [91, 93]" "indented d (JObj p []) = [123, 125]"
  by (simp_all add: indented_def bracketed_def lit_brackets)

lemma indented_scalar:
  "indented d JNull = json_text JNull" "indented d (JBool b) = json_text (JBool b)"
  "indented d (JNum x) = json_text (JNum x)" "indented d (JStr s) = json_text (JStr s)"
  by (simp_all add: indented_def json_text_def)

lemma parse_elements_indented:
  assumes "vs \<noteq> []" "\<And>v. v \<in> set vs \<Longrightarrow> parses_indented v"
    and "2 * length (join_with [44] (map (\<lambda>v. newline e @ indented e v) vs)) + 1 \<le> f"
  shows "parse_elements f (join_with [44] (map (\<lambda>v. newline e @ indented e v) vs) @ newline d @ 93 # r) = Some (vs, r)"
  using assms
proof (induction vs arbitrary: f)
  case (Cons v vs)
  obtain g where f: "f = Suc g" using Cons.prems(3) by (cases f) auto
  show ?case
  proof (cases vs)
    case Nil
    then have "parse_value g (indented e v @ newline d @ 93 # r) = Some (v, newline d @ 93 # r)"
      using Cons.prems f newline_ws(2) by (simp add: parses_indented_def)
    then show ?thesis using Nil f by (simp add: newline_ws)
  next
    case (Cons w ws)
    let ?rest = "join_with [44] (map (\<lambda>v. newline e @ indented e v) vs)"
    have joined: "join_with [44] (map (\<lambda>v. newline e @ indented e v) (v # vs)) = newline e @ indented e v @ [44] @ ?rest"
      using Cons by simp
    have "parse_value g (indented e v @ 44 # ?rest @ newline d @ 93 # r) = Some (v, 44 # ?rest @ newline d @ 93 # r)"
      using Cons.prems(2,3) f unfolding joined by (simp add: parses_indented_def)
    moreover have "parse_elements g (?rest @ newline d @ 93 # r) = Some (vs, r)"
      using Cons.IH [of g] Cons.prems(2,3) f Cons unfolding joined by simp
    ultimately show ?thesis unfolding joined f by simp
  qed
qed simp

lemma parse_members_indented:
  assumes "kvs \<noteq> []" "\<And>v. v \<in> set (map snd kvs) \<Longrightarrow> parses_indented v"
    and "2 * length (join_with [44] (map (\<lambda>kv. newline e @ indented_member e kv) kvs)) + 1 \<le> f"
  shows "parse_members f (join_with [44] (map (\<lambda>kv. newline e @ indented_member e kv) kvs) @ newline d @ 125 # r) = Some (kvs, r)"
  using assms
proof (induction kvs arbitrary: f)
  case (Cons kv kvs)
  obtain k v where kv: "kv = (k, v)" by force
  obtain g where f: "f = Suc g" using Cons.prems(3) by (cases f) auto
  have member: "indented_member e (k, v) = 34 # quote_units k @ 34 # 58 # 32 # indented e v"
    by (simp add: indented_member_def json_quote_def)
  have v: "parses_indented v" using Cons.prems(2) kv by simp
  show ?case
  proof (cases kvs)
    case Nil
    then have "parse_value g (indented e v @ newline d @ 125 # r) = Some (v, newline d @ 125 # r)"
      using v Cons.prems(3) f member kv newline_ws(2) by (simp add: parses_indented_def)
    then show ?thesis using Nil f by (simp add: member kv parse_string_quote_units newline_ws)
  next
    case (Cons kw kws)
    let ?rest = "join_with [44] (map (\<lambda>kv. newline e @ indented_member e kv) kvs)"
    have joined: "join_with [44] (map (\<lambda>kv. newline e @ indented_member e kv) (kv # kvs))
        = newline e @ indented_member e kv @ [44] @ ?rest"
      using Cons by simp
    have "parse_value g (indented e v @ 44 # ?rest @ newline d @ 125 # r) = Some (v, 44 # ?rest @ newline d @ 125 # r)"
      using v Cons.prems(3) f member kv unfolding joined by (simp add: parses_indented_def)
    moreover have "parse_members g (?rest @ newline d @ 125 # r) = Some (kvs, r)"
      using Cons.IH [of g] Cons.prems(2,3) f Cons unfolding joined by simp
    ultimately show ?thesis unfolding joined f by (simp add: newline_ws member kv parse_string_quote_units)
  qed
qed simp

lemma indented_head: "plain v \<Longrightarrow> indented d v \<noteq> [] \<and> value_head (hd (indented d v))"
proof (cases v)
  case (JArr vs)
  assume "plain v"
  then show ?thesis using JArr by (cases "vs = []") (simp_all add: indented_arr indented_empty value_head_def)
next
  case (JObj p kvs)
  assume "plain v"
  then show ?thesis using JObj by (cases "kvs = []") (simp_all add: indented_obj indented_empty value_head_def)
qed (use json_text_head [of v] in \<open>simp_all add: indented_scalar\<close>)

lemma parses_indented_scalar:
  assumes "plain v" "\<And>d. indented d v = json_text v"
  shows "parses_indented v"
  using parses_plain [OF assms(1)] by (simp add: parses_indented_def parses_def assms(2))

lemma parses_indented_arr:
  assumes plain: "list_all plain vs" and parts: "\<And>v. v \<in> set vs \<Longrightarrow> parses_indented v"
  shows "parses_indented (JArr vs)"
  unfolding parses_indented_def
proof (intro allI impI)
  fix d r f assume len: "2 * length (indented d (JArr vs)) \<le> f"
  have pos: "0 < length (indented d (JArr vs))" using indented_head [of "JArr vs" d] plain by simp
  obtain g where f: "f = Suc g" using len pos by (cases f) auto
  show "parse_value f (indented d (JArr vs) @ r) = Some (JArr vs, r)"
  proof (cases vs)
    case Nil
    then show ?thesis by (simp add: f indented_empty is_json_ws_def)
  next
    case (Cons w ws)
    let ?e = "join_with [44] (map (\<lambda>v. newline (Suc d) @ indented (Suc d) v) vs)"
    have shape: "indented d (JArr vs) = 91 # ?e @ newline d @ [93]"
      using indented_arr [OF plain] Cons by simp
    have "2 * length ?e + 1 \<le> g" using len f unfolding shape by simp
    then have run: "parse_elements g (?e @ newline d @ 93 # r) = Some (vs, r)"
      using parts Cons by (intro parse_elements_indented) auto
    obtain x where x: "?e = newline (Suc d) @ indented (Suc d) w @ x"
      using Cons by (cases ws) auto
    obtain c u where cu: "indented (Suc d) w = c # u" "value_head c"
      using indented_head [of w "Suc d"] plain Cons by (cases "indented (Suc d) w") auto
    have "skip_ws (?e @ newline d @ 93 # r) = c # u @ x @ newline d @ 93 # r"
      using value_head_facts [OF cu(2)] by (simp add: x newline_ws cu(1))
    then show ?thesis
      unfolding shape f using run value_head_facts [OF cu(2)] by (simp add: is_json_ws_def)
  qed
qed

lemma parses_indented_obj:
  assumes plain: "list_all plain (map snd kvs)" "distinct (map fst kvs)"
    and parts: "\<And>v. v \<in> set (map snd kvs) \<Longrightarrow> parses_indented v"
  shows "parses_indented (JObj ObjectProto kvs)"
  unfolding parses_indented_def
proof (intro allI impI)
  let ?v = "JObj ObjectProto kvs"
  fix d r f assume len: "2 * length (indented d ?v) \<le> f"
  have pos: "0 < length (indented d ?v)" using indented_head [of ?v d] plain by simp
  obtain g where f: "f = Suc g" using len pos by (cases f) auto
  show "parse_value f (indented d ?v @ r) = Some (?v, r)"
  proof (cases kvs)
    case Nil
    then show ?thesis by (simp add: f indented_empty is_json_ws_def)
  next
    case (Cons w ws)
    let ?e = "join_with [44] (map (\<lambda>kv. newline (Suc d) @ indented_member (Suc d) kv) kvs)"
    have shape: "indented d ?v = 123 # ?e @ newline d @ [125]"
      using indented_obj [OF plain(1)] Cons by simp
    have "2 * length ?e + 1 \<le> g" using len f unfolding shape by simp
    then have run: "parse_members g (?e @ newline d @ 125 # r) = Some (kvs, r)"
      using parts Cons by (intro parse_members_indented) auto
    obtain x where "?e = newline (Suc d) @ 34 # x"
      using Cons by (cases ws) (auto simp: indented_member_def json_quote_def)
    then have "skip_ws (?e @ newline d @ 125 # r) = 34 # x @ newline d @ 125 # r"
      by (simp add: newline_ws)
    then show ?thesis
      unfolding shape f using run fold_update_distinct [of "[]" kvs] plain(2) by (simp add: is_json_ws_def)
  qed
qed

lemma parses_indented_plain: "plain v \<Longrightarrow> parses_indented v"
proof (induction v)
  case (JArr vs)
  then show ?case by (intro parses_indented_arr) (auto simp: list_all_iff)
next
  case (JObj p kvs)
  then have "parses_indented v" if "v \<in> set (map snd kvs)" for v
    using that by (force simp: list_all_iff)
  then show ?case using JObj.prems by (auto intro: parses_indented_obj)
qed (auto intro!: parses_indented_scalar simp: indented_scalar)

lemma plain_ordered: "plain v \<Longrightarrow> plain (ordered v)"
  by (induction v) (auto simp: list_all_iff comp_def split_def)

lemma safeStringify_parses:
  assumes "plain v"
  shows "\<exists>t. safeStringify v = Some t \<and> json_parse t = Some (ordered v)"
proof -
  have plain: "plain (ordered v)" using assms by (rule plain_ordered)
  let ?t = "indented 0 (ordered v)"
  have "parse_value (2 * length ?t + 2) (?t @ []) = Some (ordered v, [])"
    using parses_indented_plain [OF plain, unfolded parses_indented_def, rule_format, of "[]" 0 "2 * length ?t + 2"]
    by (simp add: ends_value_def del: parse_value.simps)
  then show ?thesis using plain_indented [OF plain] by (simp add: safeStringify_def json_parse_def del: parse_value.simps)
qed

lemma get_prop_ordered:
  assumes "distinct (map fst kvs)"
  shows "get_prop (ordered (JObj p kvs)) k = (case map_of kvs (lit k) of None \<Rightarrow> JUndef | Some v \<Rightarrow> ordered v)"
proof -
  have "map_of (key_order (map (\<lambda>(k, v). (k, ordered v)) kvs)) = map_of (map (\<lambda>(k, v). (k, ordered v)) kvs)"
    using assms by (intro map_of_key_order) (simp add: comp_def split_def)
  then show ?thesis by (simp add: map_of_map split: option.splits)
qed

section \<open>Properties\<close>

text \<open>
  C31: substitution equals the reference \<^verbatim>\<open>s.split(marker).join(value)\<close>, one recipient variable after
  the other in the order of \<^verbatim>\<open>Object.keys\<close>, for values that are strings without a dollar sign; and
  splitting cuts a text into pieces that hold no marker any more and that joined by the marker give the
  text back, so every placeholder is replaced and every other character is kept.
\<close>

theorem substitution_is_split_join:
  assumes "\<forall>v \<in> set (map snd kvs). literal_value v"
  shows "doSubstitution (JStr s) (JObj p kvs) =
       Inr (JStr (fold (\<lambda>(k, v) t. join_with (string_of v) (split_text (recipient_marker k) t)) (key_order kvs) s))
     \<and> (\<forall>k t. join_with (recipient_marker k) (split_text (recipient_marker k) t) = t
          \<and> \<not> (\<exists>piece \<in> set (split_text (recipient_marker k) t). occurs_in (recipient_marker k) piece))"
  using literal_substitution [OF assms] join_split_text split_text_pieces recipient_marker_nonempty by blast

theorem substitution_is_split_join_witness:
  "doSubstitution (JStr (lit ''Hi %recipient.name%, %recipient.name%!'')) (obj [(''name'', JStr (lit ''Ana''))])
     = Inr (JStr (lit ''Hi Ana, Ana!''))"
proof -
  have "\<forall>v \<in> set (map snd [(lit ''name'', JStr (lit ''Ana''))]). literal_value v" by code_simp
  note substitution_is_split_join [OF this, of "lit ''Hi %recipient.name%, %recipient.name%!''" ObjectProto]
  moreover have "fold (\<lambda>(k, v) t. join_with (string_of v) (split_text (recipient_marker k) t))
      (key_order [(lit ''name'', JStr (lit ''Ana''))]) (lit ''Hi %recipient.name%, %recipient.name%!'') = lit ''Hi Ana, Ana!''"
    by code_simp
  ultimately show ?thesis by simp
qed

text \<open>A dollar sign in a value is read as a replacement pattern, so the value does not arrive as it is.\<close>

lemma dollar_value_is_garbled:
  "doSubstitution (JStr (lit ''Hi %recipient.name%'')) (obj [(''name'', JStr (lit ''A$$AP''))]) = Inr (JStr (lit ''Hi A$AP''))"
  "doSubstitution (JStr (lit ''Hi %recipient.name%'')) (obj [(''name'', JStr (lit ''$&''))])
     = Inr (JStr (lit ''Hi %recipient.name%''))"
  by code_simp+

text \<open>
  What a prepared newsletter needs. The recipient variables are the JSON text that \<^verbatim>\<open>formDataToObject\<close>
  stores, of an object from receivers to objects of strings (\<^verbatim>\<open>MailgunRecipientVariables\<close>).
\<close>

fun js_string :: "js \<Rightarrow> bool" where
  "js_string (JStr _) = True"
| "js_string _ = False"

fun string_map :: "js \<Rightarrow> bool" where
  "string_map (JObj q vs) = list_all js_string (map snd vs)"
| "string_map _ = False"

text \<open>The type of what SES is sent: a \<^verbatim>\<open>SendEmailRequest\<close> with simple content.\<close>

definition tag_ok :: "js \<Rightarrow> bool" where
  "tag_ok v \<longleftrightarrow> js_string (get_prop v ''Name'') \<and> js_string (get_prop v ''Value'')"

definition js_list :: "(js \<Rightarrow> bool) \<Rightarrow> js \<Rightarrow> bool" where
  "js_list elem v = (case v of JArr vs \<Rightarrow> list_all elem vs | _ \<Rightarrow> False)"

definition send_email_request :: "js \<Rightarrow> bool" where
  "send_email_request r \<longleftrightarrow> js_string (get_prop r ''FromEmailAddress'')
     \<and> js_list js_string (get_prop (get_prop r ''Destination'') ''ToAddresses'')
     \<and> js_list js_string (get_prop r ''ReplyToAddresses'') \<and> js_list tag_ok (get_prop r ''EmailTags'')
     \<and> (let simple = get_prop (get_prop r ''Content'') ''Simple''; body = get_prop simple ''Body''
        in js_string (get_prop (get_prop simple ''Subject'') ''Data'')
           \<and> js_string (get_prop (get_prop body ''Text'') ''Data'') \<and> js_string (get_prop (get_prop body ''Html'') ''Data'')
           \<and> js_list tag_ok (get_prop simple ''Headers''))"

lemma string_form: "js_string v \<Longrightarrow> v = JStr (string_of v)"
  by (cases v) (auto simp: string_of_def)

lemma email_request_typed:
  "js_string r \<Longrightarrow> send_email_request (email_request env input siteId r t h url) \<longleftrightarrow>
     list_all (\<lambda>k. js_string (get_prop input k)) [''from'', ''h:Reply-To'', ''subject'', ''v:email-id''] \<and> js_string t \<and> js_string h"
  by (auto simp: send_email_request_def email_request_def js_list_def tag_ok_def email_tag_def Let_def)

lemma email_request_to [simp]:
  "get_prop (get_prop (email_request env input siteId r t h url) ''Destination'') ''ToAddresses'' = JArr [r]"
  by (simp add: email_request_def)

lemma substitution_of_strings:
  assumes "list_all js_string (map snd kvs)"
  shows "(\<exists>t. doSubstitution v (JObj p kvs) = Inr t) \<longleftrightarrow> kvs = [] \<or> js_string v"
    "doSubstitution v (JObj p kvs) = Inr t \<Longrightarrow> js_string t \<longleftrightarrow> js_string v"
proof -
  let ?run = "\<lambda>v ps. foldE (\<lambda>t (key, v). replaceAll_js t (recipient_marker key) v) v ps"
  have ends: "(\<exists>t. ?run v ps = Inr t) = (ps = [] \<or> js_string v) \<and> (\<forall>t. ?run v ps = Inr t \<longrightarrow> js_string t = js_string v)"
    if "list_all js_string (map snd ps)" for v ps
    using that
  proof (induction ps arbitrary: v)
    case (Cons kv ps)
    then obtain k w where "kv = (k, JStr w)" by (cases kv; cases "snd kv") auto
    then show ?case using Cons by (cases v) (simp_all add: replaceAll_js_def)
  qed simp
  have set: "set (key_order kvs) = set kvs" using key_order_mset [of kvs] by (rule mset_eq_setD)
  then have strings: "list_all js_string (map snd (key_order kvs))" using assms by (simp add: list_all_iff)
  have "key_order kvs = [] \<longleftrightarrow> kvs = []" using set by (metis set_empty)
  then show "(\<exists>t. doSubstitution v (JObj p kvs) = Inr t) \<longleftrightarrow> kvs = [] \<or> js_string v"
    "doSubstitution v (JObj p kvs) = Inr t \<Longrightarrow> js_string t \<longleftrightarrow> js_string v"
    using ends [OF strings, of v] by (auto simp: doSubstitution_def)
qed

text \<open>One receiver: when its request is prepared, and what it is then.\<close>

definition receiver_ready :: "js \<Rightarrow> (jstr \<times> js) list \<Rightarrow> js \<Rightarrow> bool" where
  "receiver_ready input entries r \<longleftrightarrow> (case map_of entries (string_of r) of
     Some (JObj q vs) \<Rightarrow> vs = [] \<or> js_string (get_prop input ''text'') \<and> js_string (get_prop input ''html'')
   | _ \<Rightarrow> False)"

definition typed_fields :: "js \<Rightarrow> bool" where
  "typed_fields input \<longleftrightarrow> list_all (\<lambda>k. js_string (get_prop input k))
     [''from'', ''h:Reply-To'', ''subject'', ''v:email-id'', ''text'', ''html'']"

lemma prepare_receiver_iff:
  assumes "js_string r" "inherited (string_of r) = JUndef" "\<forall>v \<in> set (map snd entries). string_map v"
  shows "(\<exists>e. prepare_receiver env input siteId (JObj p entries) r = Inr e) \<longleftrightarrow> receiver_ready input entries r"
    "prepare_receiver env input siteId (JObj p entries) r = Inr e \<Longrightarrow>
       get_prop (get_prop (pe_request e) ''Destination'') ''ToAddresses'' = JArr [r]
       \<and> map_of entries (string_of r) = Some (pe_recipientVariables e)
       \<and> (send_email_request (pe_request e) \<longleftrightarrow> typed_fields input)"
proof -
  have name: "js_to_string r = Inr (string_of r)" by (subst string_form [OF assms(1)]) simp
  have both: "(\<exists>e. prepare_receiver env input siteId (JObj p entries) r = Inr e) = receiver_ready input entries r
    \<and> (\<forall>e. prepare_receiver env input siteId (JObj p entries) r = Inr e \<longrightarrow>
         get_prop (get_prop (pe_request e) ''Destination'') ''ToAddresses'' = JArr [r]
         \<and> map_of entries (string_of r) = Some (pe_recipientVariables e)
         \<and> (send_email_request (pe_request e) \<longleftrightarrow> typed_fields input))"
  proof (cases "map_of entries (string_of r)")
    case None
    then show ?thesis
      by (simp add: prepare_receiver_def name assms(2) doSubstitution_def receiver_ready_def del: get_prop.simps)
  next
    case (Some v)
    then have "string_map v" using assms(3) by (force dest: map_of_SomeD)
    then obtain q vs where v: "v = JObj q vs" "list_all js_string (map snd vs)" by (cases v) auto
    have "js_to_string (get_prop (JObj q vs) ''unsubscribe_url'') \<noteq> Inl x" for x
    proof (cases "map_of vs (lit ''unsubscribe_url'')")
      case (Some u)
      then have "js_string u" using v(2) by (force simp: list_all_iff dest: map_of_SomeD)
      then show ?thesis using Some by (cases u) simp_all
    qed simp
    then obtain url where url: "js_to_string (get_prop (JObj q vs) ''unsubscribe_url'') = Inr url"
      by (cases "js_to_string (get_prop (JObj q vs) ''unsubscribe_url'')") auto
    let ?sub = "\<lambda>k. doSubstitution (get_prop input k) (JObj q vs)"
    note sub = substitution_of_strings [OF v(2), where p = q]
    have run: "prepare_receiver env input siteId (JObj p entries) r =
        bindE (?sub ''text'') (\<lambda>t. bindE (?sub ''html'') (\<lambda>h.
          Inr \<lparr>pe_request = email_request env input siteId r t h url, pe_recipientVariables = JObj q vs\<rparr>))"
      by (simp add: prepare_receiver_def name Some v(1) url del: get_prop.simps)
    show ?thesis
    proof (cases "receiver_ready input entries r")
      case True
      then obtain t h where th: "?sub ''text'' = Inr t" "?sub ''html'' = Inr h"
        using sub(1) [of "get_prop input ''text''"] sub(1) [of "get_prop input ''html''"]
        by (auto simp: receiver_ready_def Some v(1))
      have "js_string t = js_string (get_prop input ''text'')" "js_string h = js_string (get_prop input ''html'')"
        using sub(2) th by blast+
      then show ?thesis using True
        by (simp add: run th email_request_typed [OF assms(1)] typed_fields_def Some v(1) del: get_prop.simps)
    next
      case False
      then have "\<exists>e. ?sub ''text'' = Inl e \<or> (\<exists>t. ?sub ''text'' = Inr t) \<and> ?sub ''html'' = Inl e"
        using sub(1) [of "get_prop input ''text''"] sub(1) [of "get_prop input ''html''"]
        by (cases "?sub ''text''"; cases "?sub ''html''") (auto simp: receiver_ready_def Some v(1))
      then show ?thesis using False by (auto simp: run)
    qed
  qed
  then show "(\<exists>e. prepare_receiver env input siteId (JObj p entries) r = Inr e) \<longleftrightarrow> receiver_ready input entries r"
    "prepare_receiver env input siteId (JObj p entries) r = Inr e \<Longrightarrow>
       get_prop (get_prop (pe_request e) ''Destination'') ''ToAddresses'' = JArr [r]
       \<and> map_of entries (string_of r) = Some (pe_recipientVariables e)
       \<and> (send_email_request (pe_request e) \<longleftrightarrow> typed_fields input)"
    by blast+
qed

lemma list_all2_choice: "(\<exists>ys. list_all2 P xs ys) \<longleftrightarrow> (\<forall>x \<in> set xs. \<exists>y. P x y)"
proof (induction xs)
  case (Cons x xs)
  have "(\<exists>ys. list_all2 P (x # xs) ys) \<longleftrightarrow> (\<exists>y. P x y) \<and> (\<exists>ys. list_all2 P xs ys)"
    by (auto simp: list_all2_Cons1)
  then show ?case using Cons by simp
qed (rule iffI, simp, rule exI [of _ "[]"], simp)

text \<open>
  C32: when a newsletter can be prepared. The stored message has its recipient variables as a JSON
  text of an object of objects of strings, and its receivers are strings that are no names every
  object inherits. Then preparing it succeeds exactly when every receiver has an entry of variables,
  and text and HTML are strings unless that entry is empty; a receiver without an entry and a missing
  text throw. When it succeeds every receiver, in order, has exactly one request, addressed to it alone
  and with its own variables; and each request has the type SES asks for exactly when the sender, the
  reply address, the subject, the email id, the text and the HTML all are strings, of which
  \<^verbatim>\<open>MailgunMessage\<close> declares the reply address, the email id, the text and the HTML optional.
\<close>

theorem newsletter_prepared_iff:
  assumes "get_prop input ''recipient-variables'' = JStr t" "json_parse t = Some (JObj p entries)"
    and "\<forall>v \<in> set (map snd entries). string_map v"
    and "\<forall>r \<in> set (receivers input). js_string r \<and> inherited (string_of r) = JUndef"
  shows "((\<exists>emails. preparePayload env input siteId = Inr emails) \<longleftrightarrow>
           (\<forall>r \<in> set (receivers input). case map_of entries (string_of r) of
              Some (JObj q vs) \<Rightarrow> vs = [] \<or> js_string (get_prop input ''text'') \<and> js_string (get_prop input ''html'')
            | _ \<Rightarrow> False))
     \<and> (\<forall>emails. preparePayload env input siteId = Inr emails \<longrightarrow>
          list_all2 (\<lambda>r e. get_prop (get_prop (pe_request e) ''Destination'') ''ToAddresses'' = JArr [r]
             \<and> map_of entries (string_of r) = Some (pe_recipientVariables e)
             \<and> (send_email_request (pe_request e) \<longleftrightarrow> list_all (\<lambda>k. js_string (get_prop input k))
                  [''from'', ''h:Reply-To'', ''subject'', ''v:email-id'', ''text'', ''html'']))
           (receivers input) emails)"
proof -
  let ?prep = "prepare_receiver env input siteId (JObj p entries)"
  have run: "preparePayload env input siteId = mapE ?prep (receivers input)"
    by (simp add: preparePayload_def json_parse_js_def assms(1,2) del: get_prop.simps)
  have one: "(\<exists>e. ?prep r = Inr e) \<longleftrightarrow> receiver_ready input entries r"
      "?prep r = Inr e \<Longrightarrow> get_prop (get_prop (pe_request e) ''Destination'') ''ToAddresses'' = JArr [r]
       \<and> map_of entries (string_of r) = Some (pe_recipientVariables e)
       \<and> (send_email_request (pe_request e) \<longleftrightarrow> typed_fields input)" if "r \<in> set (receivers input)" for r e
    using prepare_receiver_iff [of r entries] assms(3,4) that by blast+
  have "(\<exists>emails. preparePayload env input siteId = Inr emails) \<longleftrightarrow>
      (\<forall>r \<in> set (receivers input). \<exists>e. ?prep r = Inr e)"
    unfolding run mapE_Inr_iff by (rule list_all2_choice)
  then have "(\<exists>emails. preparePayload env input siteId = Inr emails) \<longleftrightarrow>
      (\<forall>r \<in> set (receivers input). receiver_ready input entries r)" using one(1) by blast
  moreover have "list_all2 (\<lambda>r e. get_prop (get_prop (pe_request e) ''Destination'') ''ToAddresses'' = JArr [r]
       \<and> map_of entries (string_of r) = Some (pe_recipientVariables e)
       \<and> (send_email_request (pe_request e) \<longleftrightarrow> typed_fields input)) (receivers input) emails"
    if "preparePayload env input siteId = Inr emails" for emails
    using that unfolding run mapE_Inr_iff by (rule list.rel_mono_strong) (rule one(2))
  ultimately show ?thesis unfolding receiver_ready_def typed_fields_def by blast
qed

lemma preparePayload_length: "preparePayload env input siteId = Inr emails \<Longrightarrow> length emails = length (receivers input)"
  by (cases "json_parse_js (get_prop input ''recipient-variables'')")
    (auto simp: preparePayload_def mapE_Inr_iff dest: list_all2_lengthD)

definition example_message :: js where
  "example_message = obj [(''from'', JStr (lit ''n@x'')), (''h:Reply-To'', JStr (lit ''r@x'')), (''subject'', JStr (lit ''News'')),
     (''text'', JStr (lit ''Hi %recipient.name%'')), (''html'', JStr (lit ''<p>%recipient.name%</p>'')),
     (''v:email-id'', JStr (lit ''e1'')), (''to'', JArr [JStr (lit ''a@x''), JStr (lit ''b@x'')]),
     (''recipient-variables'', JStr (lit ''{\"a@x\":{\"name\":\"Ana\",\"unsubscribe_url\":\"u/1\"},\"b@x\":{\"name\":\"Bo\",\"unsubscribe_url\":\"u/2\"}}''))]"

definition example_variables :: js where
  "example_variables = obj [(''a@x'', obj [(''name'', JStr (lit ''Ana'')), (''unsubscribe_url'', JStr (lit ''u/1''))]),
     (''b@x'', obj [(''name'', JStr (lit ''Bo'')), (''unsubscribe_url'', JStr (lit ''u/2''))])]"

definition example_entries :: "(jstr \<times> js) list" where
  "example_entries = [(lit ''a@x'', obj [(''name'', JStr (lit ''Ana'')), (''unsubscribe_url'', JStr (lit ''u/1''))]),
     (lit ''b@x'', obj [(''name'', JStr (lit ''Bo'')), (''unsubscribe_url'', JStr (lit ''u/2''))])]"

lemma newsletter_prepared_iff_witness:
  "\<exists>emails. preparePayload (\<lambda>_. None) example_message (lit ''s1'') = Inr emails \<and> length emails = 2"
proof -
  obtain t where t: "get_prop example_message ''recipient-variables'' = JStr t" "json_parse t = Some (JObj ObjectProto example_entries)"
  proof -
    have "get_prop example_message ''recipient-variables''
        = JStr (string_of (get_prop example_message ''recipient-variables''))" by code_simp
    moreover have "json_parse (string_of (get_prop example_message ''recipient-variables''))
        = Some (JObj ObjectProto example_entries)" by code_simp
    ultimately show thesis by (rule that)
  qed
  have r: "receivers example_message = [JStr (lit ''a@x''), JStr (lit ''b@x'')]" by code_simp
  have "\<forall>v \<in> set (map snd example_entries). string_map v" by code_simp
  moreover have "\<forall>r \<in> set (receivers example_message). js_string r \<and> inherited (string_of r) = JUndef" by code_simp
  moreover have "\<forall>r \<in> set (receivers example_message). receiver_ready example_message example_entries r" by code_simp
  ultimately obtain emails where "preparePayload (\<lambda>_. None) example_message (lit ''s1'') = Inr emails"
    using newsletter_prepared_iff [OF t, of "\<lambda>_. None" "lit ''s1''"] unfolding receiver_ready_def by blast
  moreover from this have "length emails = 2"
    using preparePayload_length [of "\<lambda>_. None" example_message "lit ''s1''" emails] by (simp add: r)
  ultimately show ?thesis by blast
qed

text \<open>A message of the declared type whose text is left out cannot be prepared.\<close>

lemma missing_text_throws:
  "preparePayload (\<lambda>_. None) (obj [(''from'', JStr (lit ''n@x'')), (''subject'', JStr (lit ''News'')), (''to'', JStr (lit ''a@x'')),
     (''html'', JStr (lit ''Hi'')), (''recipient-variables'', JStr (lit ''{\"a@x\":{\"unsubscribe_url\":\"u\"}}''))]) (lit ''s1'') = type_error"
  by code_simp

end
