(* ===== verification/TaskQueue.thy ===== *)
theory TaskQueue
  imports Prelude
begin

text \<open>
  The rate-limited task queue of the newsletter sender (lib/task-queue/queue.ts). A task is its id and
  the work behind it; when it settles, and whether it throws, is decided outside. The code between
  two awaits is one operation here, so every interleaving of timers and settling tasks is a list of
  events. Durations are rational numbers of milliseconds.
\<close>

section \<open>State\<close>

record 'a queue_stats =
  qs_min :: "('a \<times> rat) option"
  qs_max :: "('a \<times> rat) option"
  qs_avg :: rat
  qs_settledCount :: nat
  qs_totalDuration :: rat
  qs_realRate :: rat
  qs_failedItems :: "'a list"
  qs_failedCount :: nat

text \<open>
  \<open>tq_running\<close> lists the tasks \<^verbatim>\<open>runningCount\<close> counts, \<open>tq_waiters\<close> is the number of \<^verbatim>\<open>waitPromises\<close>, and
  \<open>tq_delivered\<close> records what was handed to the finish listeners and to how many waiters. While
  \<open>tq_processing\<close> holds, the loop of \<^verbatim>\<open>process\<close> sleeps on its timer.
\<close>

record 'a task_queue =
  tq_rateLimitDelay :: "rat option"
  tq_maxConcurrent :: int
  tq_startTime :: "rat option"
  tq_settledCount :: nat
  tq_averageSum :: rat
  tq_failedCount :: nat
  tq_failedItems :: "'a list"
  tq_min :: "('a \<times> rat) option"
  tq_max :: "('a \<times> rat) option"
  tq_queue :: "'a list"
  tq_head :: nat
  tq_running :: "'a list"
  tq_processing :: bool
  tq_waiters :: nat
  tq_delivered :: "('a queue_stats \<times> nat) list"

definition new_queue :: "rat \<Rightarrow> int \<Rightarrow> 'a task_queue" where
  "new_queue rateLimit maxConcurrent = \<lparr>tq_rateLimitDelay = (if rateLimit = 0 then None else Some (1000 / rateLimit)), tq_maxConcurrent = maxConcurrent,
     tq_startTime = None, tq_settledCount = 0, tq_averageSum = 0, tq_failedCount = 0, tq_failedItems = [],
     tq_min = None, tq_max = None, tq_queue = [], tq_head = 0, tq_running = [], tq_processing = False,
     tq_waiters = 0, tq_delivered = []\<rparr>"

text \<open>\<^verbatim>\<open>this.startTime\<close> as a condition: \<^verbatim>\<open>null\<close> and 0 are false.\<close>

definition clock_running :: "'a task_queue \<Rightarrow> bool" where
  "clock_running q \<longleftrightarrow> tq_startTime q \<noteq> None \<and> tq_startTime q \<noteq> Some 0"

text \<open>\<^verbatim>\<open>this.rateLimitDelay > 0\<close>; dividing by a rate of 0 gives \<^verbatim>\<open>Infinity\<close>, which is \<open>None\<close> here.\<close>

definition delay_positive :: "'a task_queue \<Rightarrow> bool" where
  "delay_positive q = (case tq_rateLimitDelay q of None \<Rightarrow> True | Some d \<Rightarrow> d > 0)"

definition all_started :: "'a task_queue \<Rightarrow> bool" where
  "all_started q \<longleftrightarrow> length (tq_queue q) \<le> tq_head q"

section \<open>Operations\<close>

definition getStats :: "rat \<Rightarrow> 'a task_queue \<Rightarrow> 'a queue_stats" where
  "getStats now q = (let totalDuration = (if clock_running q then now - the (tq_startTime q) else 0) in
     \<lparr>qs_min = tq_min q, qs_max = tq_max q,
      qs_avg = (if tq_settledCount q = 0 then 0 else tq_averageSum q / of_nat (tq_settledCount q)),
      qs_settledCount = tq_settledCount q, qs_totalDuration = totalDuration,
      qs_realRate = (if totalDuration = 0 then 0 else of_nat (tq_settledCount q) / totalDuration * 1000),
      qs_failedItems = tq_failedItems q, qs_failedCount = tq_failedCount q\<rparr>)"

definition triggerFinish :: "rat \<Rightarrow> 'a task_queue \<Rightarrow> 'a task_queue" where
  "triggerFinish now q =
     (if clock_running q
      then q\<lparr>tq_startTime := None, tq_waiters := 0, tq_delivered := tq_delivered q @ [(getStats now q, tq_waiters q)]\<rparr>
      else q)"

definition start_task :: "'a task_queue \<Rightarrow> 'a task_queue" where
  "start_task q = q\<lparr>tq_head := Suc (tq_head q), tq_running := tq_running q @ [tq_queue q ! tq_head q]\<rparr>"

text \<open>The periodic cleanup at the end of a turn of the loop.\<close>

definition compact :: "'a task_queue \<Rightarrow> 'a task_queue" where
  "compact q = (if tq_head q > 1000 then q\<lparr>tq_queue := drop (tq_head q) (tq_queue q), tq_head := 0\<rparr> else q)"

text \<open>The loop of \<^verbatim>\<open>process\<close>, up to its next await or its end.\<close>

function process_loop :: "'a task_queue \<Rightarrow> 'a task_queue" where
  "process_loop q =
     (if tq_head q < length (tq_queue q) then
        if int (length (tq_running q)) \<ge> tq_maxConcurrent q then q\<lparr>tq_processing := False\<rparr>
        else if delay_positive q then start_task q
        else process_loop (compact (start_task q))
      else q\<lparr>tq_processing := False\<rparr>)"
  by pat_completeness auto

termination
  by (relation "measure (\<lambda>q. length (tq_queue q) - tq_head q)") (auto simp: compact_def start_task_def)

declare process_loop.simps [simp del]

definition process :: "'a task_queue \<Rightarrow> 'a task_queue" where
  "process q = (if tq_processing q \<or> all_started q then q else process_loop (q\<lparr>tq_processing := True\<rparr>))"

definition enqueue :: "rat \<Rightarrow> 'a \<Rightarrow> 'a task_queue \<Rightarrow> 'a task_queue" where
  "enqueue now item q =
     (let q1 = (if tq_startTime q = None
                then q\<lparr>tq_startTime := Some now, tq_settledCount := 0, tq_averageSum := 0, tq_failedCount := 0,
                      tq_failedItems := [], tq_min := None, tq_max := None\<rparr>
                else q)
      in process (q1\<lparr>tq_queue := tq_queue q1 @ [item]\<rparr>))"

text \<open>\<^verbatim>\<open>waitUntilFinished\<close>: the statistics at once, or one more waiter.\<close>

definition waitUntilFinished :: "rat \<Rightarrow> 'a task_queue \<Rightarrow> 'a queue_stats option \<times> 'a task_queue" where
  "waitUntilFinished now q =
     (if all_started q \<and> tq_running q = [] then (Some (getStats now q), q)
      else (None, q\<lparr>tq_waiters := Suc (tq_waiters q)\<rparr>))"

definition clear :: "rat \<Rightarrow> 'a task_queue \<Rightarrow> 'a task_queue" where
  "clear now q = (let q1 = q\<lparr>tq_queue := [], tq_head := 0\<rparr> in
     if tq_running q1 = [] then triggerFinish now q1 else q1)"

definition updateMetrics :: "'a \<Rightarrow> rat \<Rightarrow> 'a task_queue \<Rightarrow> 'a task_queue" where
  "updateMetrics item duration q = q\<lparr>
     tq_min := (case tq_min q of Some (i, t) \<Rightarrow> if duration < t then Some (item, duration) else Some (i, t)
                | None \<Rightarrow> Some (item, duration)),
     tq_max := (case tq_max q of Some (i, t) \<Rightarrow> if duration > t then Some (item, duration) else Some (i, t)
                | None \<Rightarrow> Some (item, duration)),
     tq_averageSum := tq_averageSum q + duration, tq_settledCount := Suc (tq_settledCount q)\<rparr>"

text \<open>\<^verbatim>\<open>executeTask\<close> from the end of its await on: the \<open>i\<close>-th running task returned or threw.\<close>

definition settle_task :: "rat \<Rightarrow> nat \<Rightarrow> bool \<Rightarrow> rat \<Rightarrow> 'a task_queue \<Rightarrow> 'a task_queue" where
  "settle_task now i failed duration q =
     (let item = tq_running q ! i;
          q1 = (if failed then q\<lparr>tq_failedCount := Suc (tq_failedCount q),
                  tq_failedItems := (if length (tq_failedItems q) < 500 then tq_failedItems q @ [item] else tq_failedItems q)\<rparr>
                else q);
          q2 = (updateMetrics item duration q1)\<lparr>tq_running := take i (tq_running q) @ drop (Suc i) (tq_running q)\<rparr>
      in if all_started q2 \<and> tq_running q2 = [] then triggerFinish now q2 else process q2)"

section \<open>Events\<close>

datatype qevent = TimerFired | TaskSettled rat nat bool rat

fun queue_event :: "qevent \<Rightarrow> 'a task_queue \<Rightarrow> 'a task_queue option" where
  "queue_event TimerFired q = (if tq_processing q then Some (process_loop (compact q)) else None)"
| "queue_event (TaskSettled now i failed duration) q =
     (if i < length (tq_running q) then Some (settle_task now i failed duration q) else None)"

fun run_queue :: "qevent list \<Rightarrow> 'a task_queue \<Rightarrow> 'a task_queue option" where
  "run_queue [] q = Some q"
| "run_queue (e # es) q = (case queue_event e q of None \<Rightarrow> None | Some q' \<Rightarrow> run_queue es q')"

definition enqueue_all :: "rat \<Rightarrow> 'a list \<Rightarrow> 'a task_queue \<Rightarrow> 'a task_queue" where
  "enqueue_all now items q = foldl (\<lambda>q i. enqueue now i q) q items"

section \<open>The loop\<close>

definition waiting_tasks :: "'a task_queue \<Rightarrow> 'a list" where
  "waiting_tasks q = drop (tq_head q) (tq_queue q)"

lemma all_started_iff: "all_started q \<longleftrightarrow> waiting_tasks q = []"
  by (simp add: all_started_def waiting_tasks_def)

text \<open>What the loop leaves alone, and what it moves.\<close>

definition same_books :: "'a task_queue \<Rightarrow> 'a task_queue \<Rightarrow> bool" where
  "same_books q q' \<longleftrightarrow> tq_maxConcurrent q' = tq_maxConcurrent q \<and> tq_startTime q' = tq_startTime q
     \<and> tq_settledCount q' = tq_settledCount q \<and> tq_failedCount q' = tq_failedCount q
     \<and> tq_waiters q' = tq_waiters q \<and> tq_delivered q' = tq_delivered q"

lemma compact_facts:
  "waiting_tasks (compact q) = waiting_tasks q" "same_books q (compact q)" "tq_running (compact q) = tq_running q"
  "tq_processing (compact q) = tq_processing q"
  by (simp_all add: compact_def waiting_tasks_def same_books_def)

lemma start_task_facts:
  "tq_head q < length (tq_queue q) \<Longrightarrow> waiting_tasks q = tq_queue q ! tq_head q # waiting_tasks (start_task q)"
  "same_books q (start_task q)" "tq_running (start_task q) = tq_running q @ [tq_queue q ! tq_head q]"
  "tq_processing (start_task q) = tq_processing q"
  by (simp_all add: start_task_def waiting_tasks_def same_books_def Cons_nth_drop_Suc)

lemma process_loop_facts:
  assumes "int (length (tq_running q)) \<le> tq_maxConcurrent q" "tq_processing q"
  shows "same_books q (process_loop q) \<and> int (length (tq_running (process_loop q))) \<le> tq_maxConcurrent q
     \<and> (\<exists>k. tq_running (process_loop q) = tq_running q @ take k (waiting_tasks q)
          \<and> waiting_tasks (process_loop q) = drop k (waiting_tasks q) \<and> k \<le> length (waiting_tasks q)
          \<and> (tq_processing (process_loop q) \<longrightarrow> 0 < k))
     \<and> (tq_processing (process_loop q) \<or> waiting_tasks (process_loop q) = []
          \<or> int (length (tq_running (process_loop q))) = tq_maxConcurrent q)"
  using assms
proof (induction q rule: process_loop.induct)
  case (1 q)
  note IH = "1.IH" and small = "1.prems"
  let ?more = "tq_head q < length (tq_queue q)" and ?full = "int (length (tq_running q)) \<ge> tq_maxConcurrent q"
  consider (empty) "\<not> ?more" | (full) "?more" "?full" | (sleep) "?more" "\<not> ?full" "delay_positive q"
    | (go) "?more" "\<not> ?full" "\<not> delay_positive q" by blast
  then show ?case
  proof cases
    case empty
    then have "process_loop q = q\<lparr>tq_processing := False\<rparr>" by (subst process_loop.simps) simp
    then show ?thesis using empty small
      by (auto simp: same_books_def waiting_tasks_def intro: exI [of _ 0])
  next
    case full
    then have "process_loop q = q\<lparr>tq_processing := False\<rparr>" by (subst process_loop.simps) simp
    then show ?thesis using full small
      by (auto simp: same_books_def waiting_tasks_def intro!: exI [of _ 0])
  next
    case sleep
    then have run: "process_loop q = start_task q" by (subst process_loop.simps) simp
    show ?thesis unfolding run
      using sleep small start_task_facts [of q] by (auto intro!: exI [of _ 1])
  next
    case go
    then have run: "process_loop q = process_loop (compact (start_task q))" by (subst process_loop.simps) simp
    let ?q = "compact (start_task q)"
    have q: "waiting_tasks q = tq_queue q ! tq_head q # waiting_tasks ?q" "same_books q ?q"
        "tq_running ?q = tq_running q @ [tq_queue q ! tq_head q]" "tq_processing ?q"
      using start_task_facts [of q] compact_facts [of "start_task q"] go small by (auto simp: same_books_def)
    have "int (length (tq_running ?q)) \<le> tq_maxConcurrent ?q" using q(2,3) go by (simp add: same_books_def)
    note ih = IH [OF go this q(4)]
    then obtain k where "tq_running (process_loop ?q) = tq_running ?q @ take k (waiting_tasks ?q)"
        "waiting_tasks (process_loop ?q) = drop k (waiting_tasks ?q)" "k \<le> length (waiting_tasks ?q)" by blast
    then have "tq_running (process_loop q) = tq_running q @ take (Suc k) (waiting_tasks q)
        \<and> waiting_tasks (process_loop q) = drop (Suc k) (waiting_tasks q) \<and> Suc k \<le> length (waiting_tasks q)"
      by (simp add: run q)
    then show ?thesis using ih q(2) unfolding run by (auto simp: same_books_def)
  qed
qed

section \<open>The invariant\<close>

fun settled_by :: "qevent list \<Rightarrow> 'a task_queue \<Rightarrow> ('a \<times> bool) list" where
  "settled_by [] q = []"
| "settled_by (e # es) q = (case queue_event e q of
     None \<Rightarrow> []
   | Some q' \<Rightarrow> (case e of TaskSettled now i failed d \<Rightarrow> [(tq_running q ! i, failed)] | TimerFired \<Rightarrow> []) @ settled_by es q')"

definition books_ok :: "nat \<Rightarrow> nat \<Rightarrow> ('a \<times> bool) list \<Rightarrow> 'a task_queue \<Rightarrow> bool" where
  "books_ok n w settled q \<longleftrightarrow>
     (if length settled < n
      then clock_running q \<and> tq_delivered q = [] \<and> tq_waiters q = w \<and> tq_settledCount q = length settled
           \<and> tq_failedCount q = length (filter snd settled)
      else \<exists>stats. tq_delivered q = [(stats, w)] \<and> tq_waiters q = 0 \<and> qs_settledCount stats = n
           \<and> qs_failedCount stats = length (filter snd settled))"

definition queue_inv :: "'a list \<Rightarrow> nat \<Rightarrow> ('a \<times> bool) list \<Rightarrow> 'a task_queue \<Rightarrow> bool" where
  "queue_inv xs w settled q \<longleftrightarrow>
     (\<exists>started. xs = started @ waiting_tasks q \<and> mset started = mset (tq_running q) + mset (map fst settled))
     \<and> int (length (tq_running q)) \<le> tq_maxConcurrent q \<and> 1 \<le> tq_maxConcurrent q
     \<and> (tq_processing q \<or> waiting_tasks q = [] \<or> tq_running q \<noteq> [])
     \<and> books_ok (length xs) w settled q"

definition rank :: "'a task_queue \<Rightarrow> nat" where
  "rank q = 2 * length (waiting_tasks q) + length (tq_running q) + (if tq_processing q then 1 else 0)"

lemma books_same: "same_books q q' \<Longrightarrow> books_ok n w settled q \<Longrightarrow> books_ok n w settled q'"
  by (cases "length settled < n") (auto simp: same_books_def books_ok_def clock_running_def)

lemma inv_processing:
  "queue_inv xs w settled q \<Longrightarrow> queue_inv xs w settled (q\<lparr>tq_processing := True\<rparr>)"
  by (simp add: queue_inv_def waiting_tasks_def books_ok_def clock_running_def getStats_def cong: if_cong)

text \<open>A loop that was entered keeps the invariant, and uses up what it was entered with.\<close>

lemma loop_inv:
  assumes "\<exists>started. xs = started @ waiting_tasks q \<and> mset started = mset (tq_running q) + mset (map fst settled)"
    and "int (length (tq_running q)) \<le> tq_maxConcurrent q" "1 \<le> tq_maxConcurrent q"
    and "books_ok (length xs) w settled q" "tq_processing q"
  shows "queue_inv xs w settled (process_loop q) \<and> rank (process_loop q) < rank q"
proof -
  note facts = process_loop_facts [OF assms(2,5)]
  from facts obtain k where k: "tq_running (process_loop q) = tq_running q @ take k (waiting_tasks q)"
      "waiting_tasks (process_loop q) = drop k (waiting_tasks q)" "k \<le> length (waiting_tasks q)"
      "tq_processing (process_loop q) \<longrightarrow> 0 < k" by blast
  obtain started where "xs = started @ waiting_tasks q" "mset started = mset (tq_running q) + mset (map fst settled)"
    using assms(1) by blast
  then have "xs = (started @ take k (waiting_tasks q)) @ waiting_tasks (process_loop q)
      \<and> mset (started @ take k (waiting_tasks q)) = mset (tq_running (process_loop q)) + mset (map fst settled)"
    by (simp add: k)
  moreover have "tq_processing (process_loop q) \<or> waiting_tasks (process_loop q) = [] \<or> tq_running (process_loop q) \<noteq> []"
    using facts assms(3) by auto
  moreover have "books_ok (length xs) w settled (process_loop q)" using facts books_same assms(4) by blast
  moreover have "rank (process_loop q) < rank q" using k assms(5) by (auto simp: rank_def)
  ultimately show ?thesis using facts assms(3) unfolding queue_inv_def same_books_def by auto
qed

lemma timer_step:
  assumes "queue_inv xs w settled q" "tq_processing q"
  shows "queue_inv xs w settled (process_loop (compact q)) \<and> rank (process_loop (compact q)) < rank q"
proof -
  note c = compact_facts [of q]
  have "rank (compact q) = rank q" by (simp add: rank_def c)
  then show ?thesis
    using loop_inv [of xs "compact q" settled w] assms c(2) books_same [OF c(2)]
    by (auto simp: queue_inv_def c same_books_def)
qed

lemma mset_take_drop_nth: "i < length xs \<Longrightarrow> mset (take i xs @ drop (Suc i) xs) + {#xs ! i#} = mset xs"
  by (metis Cons_nth_drop_Suc append_take_drop_id mset.simps(2) mset_append add_mset_add_single union_mset_add_mset_right
      add.right_neutral)

lemma settle_step:
  assumes inv: "queue_inv xs w settled q" and i: "i < length (tq_running q)"
  shows "queue_inv xs w (settled @ [(tq_running q ! i, failed)]) (settle_task now i failed duration q)
     \<and> rank (settle_task now i failed duration q) < rank q"
proof -
  let ?item = "tq_running q ! i" let ?settled = "settled @ [(?item, failed)]"
  define q1 where "q1 = (if failed then q\<lparr>tq_failedCount := Suc (tq_failedCount q),
      tq_failedItems := (if length (tq_failedItems q) < 500 then tq_failedItems q @ [?item] else tq_failedItems q)\<rparr> else q)"
  define q2 where "q2 = (updateMetrics ?item duration q1)\<lparr>tq_running := take i (tq_running q) @ drop (Suc i) (tq_running q)\<rparr>"
  have same: "tq_maxConcurrent q2 = tq_maxConcurrent q" "waiting_tasks q2 = waiting_tasks q" "tq_processing q2 = tq_processing q"
      "tq_startTime q2 = tq_startTime q" "tq_waiters q2 = tq_waiters q" "tq_delivered q2 = tq_delivered q"
      "tq_settledCount q2 = Suc (tq_settledCount q)"
      "tq_failedCount q2 = tq_failedCount q + (if failed then 1 else 0)"
      "tq_running q2 = take i (tq_running q) @ drop (Suc i) (tq_running q)"
    by (simp_all add: q2_def q1_def updateMetrics_def waiting_tasks_def)
  have shorter: "length (tq_running q2) + 1 = length (tq_running q)" using i by (simp add: same)
  obtain started where st: "xs = started @ waiting_tasks q" "mset started = mset (tq_running q) + mset (map fst settled)"
    using inv by (auto simp: queue_inv_def)
  have len: "length xs = length (waiting_tasks q) + length (tq_running q) + length settled"
  proof -
    have "length started = size (mset (tq_running q) + mset (map fst settled))" using st(2) by (metis size_mset)
    then show ?thesis using st(1) by simp
  qed
  have parts: "\<exists>started. xs = started @ waiting_tasks q2 \<and> mset started = mset (tq_running q2) + mset (map fst ?settled)"
    using st mset_take_drop_nth [OF i] by (intro exI [of _ started]) (simp add: same)
  have open_books: "clock_running q" "tq_delivered q = []" "tq_waiters q = w" "tq_settledCount q = length settled"
      "tq_failedCount q = length (filter snd settled)"
  proof -
    have "length settled < length xs" using len i by linarith
    then show "clock_running q" "tq_delivered q = []" "tq_waiters q = w" "tq_settledCount q = length settled"
      "tq_failedCount q = length (filter snd settled)"
      using inv by (simp_all add: queue_inv_def books_ok_def)
  qed
  have settle: "settle_task now i failed duration q =
      (if all_started q2 \<and> tq_running q2 = [] then triggerFinish now q2 else process q2)"
    by (simp only: settle_task_def q2_def q1_def Let_def)
  have small: "int (length (tq_running q2)) \<le> tq_maxConcurrent q2" "1 \<le> tq_maxConcurrent q2"
    using inv shorter by (auto simp: queue_inv_def same(1))
  have clock: "clock_running q2" using open_books(1) by (simp add: clock_running_def same)
  show ?thesis
  proof (cases "all_started q2 \<and> tq_running q2 = []")
    case True
    then have ended: "waiting_tasks q = []" "length xs = length ?settled"
      using len shorter by (simp_all add: all_started_iff same(2))
    have fin: "settle_task now i failed duration q = q2\<lparr>tq_startTime := None, tq_waiters := 0,
        tq_delivered := tq_delivered q2 @ [(getStats now q2, tq_waiters q2)]\<rparr>" (is "_ = ?q3")
      using True clock by (simp add: settle triggerFinish_def)
    have "waiting_tasks ?q3 = waiting_tasks q2" by (simp add: waiting_tasks_def)
    moreover have "books_ok (length xs) w ?settled ?q3"
      using ended(2) open_books by (simp add: books_ok_def same getStats_def Let_def)
    ultimately show ?thesis
      using parts small ended(1) shorter unfolding fin queue_inv_def rank_def by (auto simp: same)
  next
    case False
    then have more: "length ?settled < length xs"
    proof -
      have "0 < length (waiting_tasks q) + length (tq_running q2)"
        using False by (simp only: all_started_iff same(2) add_gr_0 length_greater_0_conv) blast
      moreover have "length ?settled = length settled + 1" by simp
      ultimately show ?thesis using len shorter by linarith
    qed
    then have books: "books_ok (length xs) w ?settled q2"
      using open_books clock by (simp add: books_ok_def same)
    show ?thesis
    proof (cases "tq_processing q2 \<or> all_started q2")
      case True
      then have "settle_task now i failed duration q = q2" using False by (auto simp: settle process_def)
      then show ?thesis
        using parts small books True shorter by (auto simp: queue_inv_def rank_def all_started_iff same(2,3))
    next
      case idle: False
      let ?q3 = "q2\<lparr>tq_processing := True\<rparr>"
      have run: "settle_task now i failed duration q = process_loop ?q3"
        using False idle by (simp add: settle process_def)
      have "waiting_tasks ?q3 = waiting_tasks q2" "books_ok (length xs) w ?settled ?q3"
        using books by (simp_all add: waiting_tasks_def books_ok_def clock_running_def cong: if_cong)
      then have "queue_inv xs w ?settled (process_loop ?q3) \<and> rank (process_loop ?q3) < rank ?q3"
        using parts small by (intro loop_inv) auto
      moreover have "rank ?q3 = 2 * length (waiting_tasks q2) + length (tq_running q2) + 1"
        by (simp add: rank_def waiting_tasks_def)
      then have "rank ?q3 \<le> rank q"
        using shorter by (simp only: rank_def same(2))
      ultimately show ?thesis unfolding run by (auto simp del: One_nat_def)
    qed
  qed
qed

lemma run_inv:
  "run_queue es q = Some q' \<Longrightarrow> queue_inv xs w settled q \<Longrightarrow>
     queue_inv xs w (settled @ settled_by es q) q' \<and> length es + rank q' \<le> rank q"
proof (induction es arbitrary: q settled)
  case (Cons e es)
  then obtain q1 where q1: "queue_event e q = Some q1" "run_queue es q1 = Some q'" by (auto split: option.splits)
  let ?more = "case e of TaskSettled now i failed d \<Rightarrow> [(tq_running q ! i, failed)] | TimerFired \<Rightarrow> []"
  have "queue_inv xs w (settled @ ?more) q1 \<and> rank q1 < rank q"
    using q1(1) timer_step [OF Cons.prems(2)] settle_step [OF Cons.prems(2)]
    by (cases e) (auto split: if_splits)
  then show ?case using Cons.IH [OF q1(2)] q1(1) by fastforce
qed simp

section \<open>Starting\<close>

text \<open>
  Between enqueueing calls no timer fires and no task settles, so after the first task the loop sleeps
  or, without a rate limit, starts each task at once until the limit is reached.
\<close>

definition filling :: "rat \<Rightarrow> 'a list \<Rightarrow> 'a task_queue \<Rightarrow> bool" where
  "filling t xs q \<longleftrightarrow> xs = tq_running q @ waiting_tasks q \<and> tq_head q \<le> length (tq_queue q)
     \<and> int (length (tq_running q)) \<le> tq_maxConcurrent q
     \<and> (tq_processing q \<or> waiting_tasks q = [] \<or> tq_running q \<noteq> []) \<and> 1 \<le> tq_maxConcurrent q
     \<and> tq_settledCount q = 0 \<and> tq_failedCount q = 0 \<and> tq_waiters q = 0 \<and> tq_delivered q = []
     \<and> (xs = [] \<longrightarrow> tq_startTime q = None \<and> \<not> tq_processing q) \<and> (xs \<noteq> [] \<longrightarrow> tq_startTime q = Some t)"

lemma process_loop_head: "tq_head q \<le> length (tq_queue q) \<Longrightarrow> tq_head (process_loop q) \<le> length (tq_queue (process_loop q))"
proof (induction q rule: process_loop.induct)
  case (1 q)
  show ?case
    using "1.IH" "1.prems" by (subst (1 2) process_loop.simps) (auto simp: start_task_def compact_def)
qed

lemma filling_enqueue:
  assumes "filling t xs q"
  shows "filling t (xs @ [x]) (enqueue t x q) \<and> rank (enqueue t x q) \<le> rank q + 2"
proof -
  define q1 where "q1 = (if tq_startTime q = None
      then q\<lparr>tq_startTime := Some t, tq_settledCount := 0, tq_averageSum := 0, tq_failedCount := 0,
             tq_failedItems := [], tq_min := None, tq_max := None\<rparr> else q)"
  define q2 where "q2 = q1\<lparr>tq_queue := tq_queue q1 @ [x]\<rparr>"
  have q2: "tq_running q2 = tq_running q" "tq_head q2 = tq_head q" "tq_queue q2 = tq_queue q @ [x]"
      "tq_maxConcurrent q2 = tq_maxConcurrent q" "tq_processing q2 = tq_processing q" "tq_startTime q2 = Some t"
      "tq_settledCount q2 = 0" "tq_failedCount q2 = 0" "tq_waiters q2 = 0" "tq_delivered q2 = []"
    using assms by (auto simp: q2_def q1_def filling_def)
  have waiting: "waiting_tasks q2 = waiting_tasks q @ [x]"
    using assms q2 by (simp add: waiting_tasks_def filling_def)
  have run: "enqueue t x q = process q2" by (simp add: enqueue_def q2_def q1_def Let_def)
  show ?thesis
  proof (cases "tq_processing q2")
    case True
    then have "enqueue t x q = q2" by (simp add: run process_def)
    then show ?thesis using assms True q2 waiting by (auto simp: filling_def rank_def)
  next
    case False
    let ?q = "q2\<lparr>tq_processing := True\<rparr>"
    have loop: "enqueue t x q = process_loop ?q" using False waiting by (simp add: run process_def all_started_iff)
    have w: "waiting_tasks ?q = waiting_tasks q @ [x]" using waiting by (simp add: waiting_tasks_def)
    note facts = process_loop_facts [of ?q]
    have "int (length (tq_running ?q)) \<le> tq_maxConcurrent ?q" using assms q2 by (simp add: filling_def)
    note facts = process_loop_facts [OF this, simplified]
    then obtain k where k: "tq_running (process_loop ?q) = tq_running q @ take k (waiting_tasks ?q)"
        "waiting_tasks (process_loop ?q) = drop k (waiting_tasks ?q)" "k \<le> length (waiting_tasks ?q)"
        "tq_processing (process_loop ?q) \<longrightarrow> 0 < k" by (auto simp: q2)
    have "rank (process_loop ?q) \<le> rank q + 2"
      using k w False q2(5) by (auto simp: rank_def)
    moreover have "filling t (xs @ [x]) (process_loop ?q)"
      unfolding filling_def
    proof (intro conjI)
      show "xs @ [x] = tq_running (process_loop ?q) @ waiting_tasks (process_loop ?q)"
        using assms unfolding k(1,2) filling_def by (simp only: append.assoc append_take_drop_id w)
      show "tq_head (process_loop ?q) \<le> length (tq_queue (process_loop ?q))"
        using assms q2 by (intro process_loop_head) (simp add: filling_def)
    qed (use facts assms q2 in \<open>auto simp: same_books_def filling_def\<close>)
    ultimately show ?thesis by (simp add: loop)
  qed
qed

lemma filling_all: "filling t ys q \<Longrightarrow> filling t (ys @ xs) (enqueue_all t xs q) \<and> rank (enqueue_all t xs q) \<le> rank q + 2 * length xs"
proof (induction xs arbitrary: ys q)
  case (Cons x xs)
  from filling_enqueue [OF Cons.prems, of x] Cons.IH [of "ys @ [x]" "enqueue t x q"]
  show ?case by (auto simp: enqueue_all_def)
qed (simp add: enqueue_all_def)

lemma started_inv:
  assumes "0 < t" "1 \<le> maxConcurrent" "xs \<noteq> []"
    and "q = snd (waitUntilFinished t (enqueue_all t xs (new_queue rateLimit maxConcurrent)))"
  shows "queue_inv xs 1 [] q \<and> rank q \<le> 2 * length xs"
proof -
  let ?q = "enqueue_all t xs (new_queue rateLimit maxConcurrent)"
  have "filling t [] (new_queue rateLimit maxConcurrent)"
    using assms(2) by (simp add: filling_def new_queue_def waiting_tasks_def)
  from filling_all [OF this, of xs] have f: "filling t xs ?q" "rank ?q \<le> 2 * length xs"
    by (simp_all add: rank_def new_queue_def waiting_tasks_def)
  have "\<not> (all_started ?q \<and> tq_running ?q = [])" using f(1) assms(3) by (auto simp: filling_def all_started_iff)
  then have q: "q = ?q\<lparr>tq_waiters := Suc (tq_waiters ?q)\<rparr>" by (auto simp: assms(4) waitUntilFinished_def)
  have "waiting_tasks q = waiting_tasks ?q" "tq_running q = tq_running ?q" by (simp_all add: q waiting_tasks_def)
  then show ?thesis
    using f assms(1,3) by (auto simp: q queue_inv_def filling_def books_ok_def clock_running_def rank_def)
qed

lemma process_loop_limit [simp]: "tq_maxConcurrent (process_loop q) = tq_maxConcurrent q"
proof (induction q rule: process_loop.induct)
  case (1 q)
  then show ?case by (subst process_loop.simps) (auto simp: start_task_def compact_def)
qed

lemma process_limit [simp]: "tq_maxConcurrent (process q) = tq_maxConcurrent q"
  by (simp add: process_def)

lemma enqueue_all_limit: "tq_maxConcurrent (enqueue_all now xs q) = tq_maxConcurrent q"
  unfolding enqueue_all_def by (induction xs arbitrary: q) (simp_all add: enqueue_def Let_def)

lemma event_limit: "queue_event e q = Some q' \<Longrightarrow> tq_maxConcurrent q' = tq_maxConcurrent q"
  by (cases e) (auto simp: compact_def settle_task_def triggerFinish_def updateMetrics_def Let_def split: if_splits)

lemma run_limit: "run_queue es q = Some q' \<Longrightarrow> tq_maxConcurrent q' = tq_maxConcurrent q"
  by (induction es arbitrary: q) (auto split: option.splits dest: event_limit)

section \<open>Every task once, in order, and an answer at the end\<close>

definition queue_enabled :: "'a task_queue \<Rightarrow> bool" where
  "queue_enabled q \<longleftrightarrow> tq_processing q \<or> tq_running q \<noteq> []"

lemma enabled_iff: "queue_enabled q \<longleftrightarrow> (\<exists>e. queue_event e q \<noteq> None)"
proof
  assume "queue_enabled q"
  then consider "tq_processing q" | "tq_running q \<noteq> []" by (auto simp: queue_enabled_def)
  then show "\<exists>e. queue_event e q \<noteq> None"
  proof cases
    case 1 then show ?thesis by (intro exI [of _ TimerFired]) simp
  next
    case 2 then show ?thesis by (intro exI [of _ "TaskSettled 0 0 False 0"]) simp
  qed
next
  assume "\<exists>e. queue_event e q \<noteq> None"
  then obtain e where "queue_event e q \<noteq> None" ..
  then show "queue_enabled q" by (cases e) (auto simp: queue_enabled_def split: if_splits)
qed

definition newsletter_queue :: "rat \<Rightarrow> rat \<Rightarrow> int \<Rightarrow> 'a list \<Rightarrow> 'a task_queue" where
  "newsletter_queue now rateLimit maxConcurrent items =
     snd (waitUntilFinished now (enqueue_all now items (new_queue rateLimit maxConcurrent)))"

lemma run_settles:
  assumes "0 < t" "1 \<le> maxConcurrent" "xs \<noteq> []"
    and run: "run_queue es (newsletter_queue t rateLimit maxConcurrent xs) = Some q"
  defines "settled \<equiv> settled_by es (newsletter_queue t rateLimit maxConcurrent xs)"
  shows "int (length (tq_running q)) \<le> maxConcurrent \<and> length es \<le> 2 * length xs
     \<and> (\<exists>started. xs = started @ waiting_tasks q \<and> mset started = mset (tq_running q) + mset (map fst settled))
     \<and> ((\<exists>e. queue_event e q \<noteq> None) \<or>
        mset (map fst settled) = mset xs \<and> (\<exists>stats. tq_delivered q = [(stats, 1)] \<and> tq_waiters q = 0
          \<and> qs_settledCount stats = length xs \<and> qs_failedCount stats = length (filter snd settled)))"
proof -
  let ?q = "newsletter_queue t rateLimit maxConcurrent xs"
  have start: "queue_inv xs 1 [] ?q" "rank ?q \<le> 2 * length xs"
    using started_inv [OF assms(1-3) newsletter_queue_def] by auto
  from run_inv [OF run start(1)] start(2)
  have inv: "queue_inv xs 1 settled q" and short: "length es \<le> 2 * length xs" by (auto simp: settled_def)
  have limit: "tq_maxConcurrent q = maxConcurrent"
    using run_limit [OF run] enqueue_all_limit [of t xs "new_queue rateLimit maxConcurrent"]
    by (simp add: newsletter_queue_def waitUntilFinished_def new_queue_def)
  obtain started where st: "xs = started @ waiting_tasks q" "mset started = mset (tq_running q) + mset (map fst settled)"
    using inv by (auto simp: queue_inv_def)
  have "mset (map fst settled) = mset xs \<and> (\<exists>stats. tq_delivered q = [(stats, 1)] \<and> tq_waiters q = 0
          \<and> qs_settledCount stats = length xs \<and> qs_failedCount stats = length (filter snd settled))"
    if "\<not> queue_enabled q"
  proof -
    from that have quiet: "tq_running q = []" "waiting_tasks q = []" using inv by (auto simp: queue_enabled_def queue_inv_def)
    then have all: "mset (map fst settled) = mset xs" using st by simp
    then have "length settled = length xs" using mset_eq_length by fastforce
    then show ?thesis using all inv by (auto simp: queue_inv_def books_ok_def)
  qed
  then show ?thesis using inv limit short st unfolding enabled_iff [symmetric] queue_inv_def by blast
qed

text \<open>
  C12: a newsletter's tasks, enqueued together on a fresh queue and then awaited, under any schedule of
  the rate limit's timer and of tasks settling or throwing in any order: never more than
  \<^verbatim>\<open>maxConcurrent\<close> tasks run; tasks start in the order they were enqueued, and every task is either
  waiting, running or settled, exactly once; the schedule has at most two events per task; and the
  queue never gets stuck, since as long as an event is not possible any more every task has settled
  and the one waiter has been given the statistics, which count every task and every failure.
\<close>

theorem task_queue_settles_everything_once:
  assumes "0 < t" "1 \<le> maxConcurrent" "xs \<noteq> []"
    and "run_queue es (newsletter_queue t rateLimit maxConcurrent xs) = Some q"
    and "settled = settled_by es (newsletter_queue t rateLimit maxConcurrent xs)"
  shows "int (length (tq_running q)) \<le> maxConcurrent \<and> length es \<le> 2 * length xs
     \<and> (\<exists>started. xs = started @ waiting_tasks q \<and> mset started = mset (tq_running q) + mset (map fst settled))
     \<and> ((\<exists>e. queue_event e q \<noteq> None) \<or>
        mset (map fst settled) = mset xs \<and> (\<exists>stats. tq_delivered q = [(stats, 1)] \<and> tq_waiters q = 0
          \<and> qs_settledCount stats = length xs \<and> qs_failedCount stats = length (filter snd settled)))"
  unfolding assms(5) by (rule run_settles [OF assms(1-4)])

text \<open>Three tasks at most two at a time: the second fails and settles first.\<close>

definition example_schedule :: "qevent list" where
  "example_schedule = [TimerFired, TaskSettled 140 1 True 100, TaskSettled 150 0 False 150, TimerFired,
     TaskSettled 200 0 False 60, TimerFired]"

definition example_end :: "nat task_queue" where
  "example_end = the (run_queue example_schedule (newsletter_queue 1 25 2 [1, 2, 3]))"

lemma example_schedule_runs:
  "run_queue example_schedule (newsletter_queue 1 25 2 [1::nat, 2, 3]) = Some example_end"
  "settled_by example_schedule (newsletter_queue 1 25 2 [1::nat, 2, 3]) = [(2, True), (1, False), (3, False)]"
  by code_simp+

theorem task_queue_settles_everything_once_witness:
  "int (length (tq_running example_end)) \<le> 2 \<and> (\<exists>stats. tq_delivered example_end = [(stats, 1)] \<and> qs_failedCount stats = 1)"
proof -
  have "tq_running example_end = [] \<and> \<not> tq_processing example_end" by code_simp
  then have "\<not> (\<exists>e. queue_event e example_end \<noteq> None)"
    unfolding enabled_iff [symmetric] queue_enabled_def by blast
  then show ?thesis
    using task_queue_settles_everything_once [OF _ _ _ example_schedule_runs(1) refl] unfolding example_schedule_runs(2)
    by fastforce
qed

end
