(* ===== verification/NewsletterSend.thy ===== *)
theory NewsletterSend
  imports MailText TaskQueue
begin

text \<open>
  Queueing and sending a newsletter (service/newsletter-service.ts with its part of
  service/database/db.ts). Every call to SES, SQS or the database is one step whose outcome is chosen
  outside: it fails, it happens, or it happens and its answer is lost. The database compares addresses
  with its collation, the parameter \<open>same\<close>.
\<close>

section \<open>Rows\<close>

record newsletter_batch =
  br_id :: jstr
  br_siteId :: jstr
  br_batchId :: jstr
  br_contents :: jstr
  br_fromEmail :: jstr

record sent_message =
  mr_messageId :: jstr
  mr_batchId :: jstr
  mr_toEmail :: jstr
  mr_recipientData :: jstr
  mr_formatedContents :: jstr

text \<open>An error text \<^verbatim>\<open>String(error)\<close> is kept as the exception itself.\<close>

record send_error =
  er_messageId :: jstr
  er_error :: exn
  er_batchId :: jstr
  er_toEmail :: jstr
  er_recipientData :: jstr
  er_formatedContents :: jstr

record queued_message =
  qm_body :: jstr
  qm_siteId :: jstr
  qm_from :: jstr

record mail_world =
  mw_batches :: "newsletter_batch list"
  mw_messages :: "sent_message list"
  mw_errors :: "send_error list"
  mw_queued :: "queued_message list"

section \<open>The database calls\<close>

abbreviation prisma_error :: "string \<Rightarrow> 'a res" where "prisma_error code \<equiv> Inl (Error code)"

text \<open>
  Prisma refuses values of the wrong type, a second row under a unique key (P2002) and a row whose
  parent is missing (P2003). Identifiers the database or the client draws at random are arguments.
\<close>

definition createNewsletterBatchEntry :: "jstr \<Rightarrow> jstr \<Rightarrow> js \<Rightarrow> mail_world \<Rightarrow> (jstr \<times> mail_world) res" where
  "createNewsletterBatchEntry uuid siteId message w =
     (let batchId = (if truthy (get_prop message ''v:email-id'') then get_prop message ''v:email-id''
                     else JStr (lit ''no-batch-id-provided''))
      in case (batchId, safeStringify message, get_prop message ''from'') of
           (JStr b, Some contents, JStr sender) \<Rightarrow>
             if uuid \<in> br_id ` set (mw_batches w) then prisma_error ''P2002''
             else Inr (uuid, w\<lparr>mw_batches := mw_batches w @
               [\<lparr>br_id = uuid, br_siteId = siteId, br_batchId = b, br_contents = contents, br_fromEmail = sender\<rparr>]\<rparr>)
         | _ \<Rightarrow> prisma_error ''PrismaClientValidationError'')"

definition createNewsletterEntry :: "js \<Rightarrow> jstr \<Rightarrow> jstr \<Rightarrow> jstr \<Rightarrow> jstr \<Rightarrow> mail_world \<Rightarrow> mail_world res" where
  "createNewsletterEntry messageId batchId toEmail recipientData formatedContents w = (case messageId of
     JStr m \<Rightarrow>
       if m \<in> mr_messageId ` set (mw_messages w) then prisma_error ''P2002''
       else if batchId \<notin> br_id ` set (mw_batches w) then prisma_error ''P2003''
       else Inr (w\<lparr>mw_messages := mw_messages w @
         [\<lparr>mr_messageId = m, mr_batchId = batchId, mr_toEmail = toEmail, mr_recipientData = recipientData,
           mr_formatedContents = formatedContents\<rparr>]\<rparr>)
   | _ \<Rightarrow> prisma_error ''PrismaClientValidationError'')"

definition createNewsletterErrorEntry ::
  "jstr \<Rightarrow> exn \<Rightarrow> js \<Rightarrow> jstr \<Rightarrow> jstr \<Rightarrow> jstr \<Rightarrow> mail_world \<Rightarrow> mail_world res" where
  "createNewsletterErrorEntry messageId err batchId toEmail recipientData formatedContents w = (case batchId of
     JStr b \<Rightarrow>
       if messageId \<in> er_messageId ` set (mw_errors w) then prisma_error ''P2002''
       else if b \<notin> br_id ` set (mw_batches w) then prisma_error ''P2003''
       else Inr (w\<lparr>mw_errors := mw_errors w @
         [\<lparr>er_messageId = messageId, er_error = err, er_batchId = b, er_toEmail = toEmail,
           er_recipientData = recipientData, er_formatedContents = formatedContents\<rparr>]\<rparr>)
   | _ \<Rightarrow> prisma_error ''PrismaClientValidationError'')"

definition checkNewsletterAlreadySent :: "(jstr \<Rightarrow> jstr \<Rightarrow> bool) \<Rightarrow> jstr \<Rightarrow> jstr \<Rightarrow> mail_world \<Rightarrow> bool" where
  "checkNewsletterAlreadySent same batchId toEmail w \<longleftrightarrow>
     (\<exists>m \<in> set (mw_messages w). mr_batchId m = batchId \<and> same (mr_toEmail m) toEmail)"

definition getNewsletterContent :: "jstr \<Rightarrow> mail_world \<Rightarrow> js res" where
  "getNewsletterContent batchId w = (case filter (\<lambda>b. br_id b = batchId) (mw_batches w) of
     [] \<Rightarrow> Inr JNull
   | b # _ \<Rightarrow> if br_contents b = [] then Inr JNull
              else case json_parse (br_contents b) of
                None \<Rightarrow> Inl (Error ''Failed to parse newsletter batch contents'') | Some v \<Rightarrow> Inr v)"

section \<open>Queueing\<close>

text \<open>How a call ends: it fails, it happens and answers, or it happens and the answer is lost.\<close>

datatype reply = Fails exn | Answers js | AnswerLost js exn

text \<open>\<^verbatim>\<open>addNewsletterToQueue\<close>: a row that was stored before a failure stays.\<close>

definition addNewsletterToQueue :: "jstr \<Rightarrow> reply \<Rightarrow> js \<Rightarrow> jstr \<Rightarrow> mail_world \<Rightarrow> (js \<times> js) res \<times> mail_world" where
  "addNewsletterToQueue uuid sqs message siteId w =
     (if \<not> truthy message then (Inl (Error ''Message body is empty or invalid.''), w)
      else case createNewsletterBatchEntry uuid siteId message w of
        Inl e \<Rightarrow> (Inl e, w)
      | Inr (batch, w1) \<Rightarrow>
          (let queued = w1\<lparr>mw_queued := mw_queued w1 @
                 [\<lparr>qm_body = batch, qm_siteId = siteId, qm_from = string_of (get_prop message ''from'')\<rparr>]\<rparr>
           in case sqs of
                Fails e \<Rightarrow> (Inl e, w1)
              | Answers messageId \<Rightarrow> (Inr (get_prop message ''v:email-id'', messageId), queued)
              | AnswerLost messageId e \<Rightarrow> (Inl e, queued)))"

text \<open>The route \<^verbatim>\<open>POST /v3/:siteId/messages\<close>: the status and, when queued, the id in the answer.\<close>

definition with_email_id :: "js \<Rightarrow> js" where
  "with_email_id data = (case data of
     JObj p kvs \<Rightarrow> JObj p (AList.update (lit ''v:email-id'')
        (if truthy (get_prop data ''v:email-id'') then get_prop data ''v:email-id'' else JStr (lit ''no-batch-id-provided'')) kvs)
   | v \<Rightarrow> v)"

definition post_message :: "jstr \<Rightarrow> reply \<Rightarrow> (jstr \<times> form_value) list \<Rightarrow> jstr \<Rightarrow> mail_world \<Rightarrow> (int \<times> js) \<times> mail_world" where
  "post_message uuid sqs form siteId w =
     (if siteId = [] then ((400, JUndef), w)
      else case addNewsletterToQueue uuid sqs (with_email_id (formDataToObject False form)) siteId w of
        (Inl e, w') \<Rightarrow> ((500, JUndef), w')
      | (Inr (batchId, messageId), w') \<Rightarrow> ((200, batchId), w'))"

section \<open>Sending to one recipient\<close>

text \<open>Where \<^verbatim>\<open>sendSingleEmail\<close> waits: for the check, for SES, for either write, or it has ended.\<close>

datatype send_phase = Checking | Sending | Reporting exn | Recording js | Failing exn | Skipped | Sent | Failed exn

record send_task =
  st_request :: js
  st_toEmail :: jstr
  st_recipientData :: jstr
  st_formatedContents :: jstr
  st_phase :: send_phase

definition to_email :: "prepared_email \<Rightarrow> jstr res" where
  "to_email prepared = js_to_string (get_prop (get_prop (pe_request prepared) ''Destination'') ''ToAddresses'')"

text \<open>Up to the first await; an address that cannot be joined throws there.\<close>

definition start_send :: "bool \<Rightarrow> prepared_email \<Rightarrow> send_task" where
  "start_send persist prepared =
     (let addr = to_email prepared; toEmail = (case addr of Inl e \<Rightarrow> [] | Inr a \<Rightarrow> a)
      in \<lparr>st_request = pe_request prepared, st_toEmail = toEmail,
         st_recipientData = the (json_stringify (ordered (obj [(''toEmail'', JStr toEmail), (''variables'', pe_recipientVariables prepared)]))),
         st_formatedContents = (if persist then the (safeStringify (pe_request prepared)) else []),
         st_phase = (case addr of Inl e \<Rightarrow> Failing e | Inr a \<Rightarrow> if a = [] then Sending else Checking)\<rparr>)"

definition write_report :: "jstr \<Rightarrow> js \<Rightarrow> exn \<Rightarrow> send_task \<Rightarrow> mail_world \<Rightarrow> mail_world" where
  "write_report errorId emailBatchId e t w =
     (case createNewsletterErrorEntry errorId e emailBatchId (st_toEmail t) (st_recipientData t) (st_formatedContents t) w of
        Inl _ \<Rightarrow> w | Inr w' \<Rightarrow> w')"

fun send_step :: "(jstr \<Rightarrow> jstr \<Rightarrow> bool) \<Rightarrow> jstr \<Rightarrow> js \<Rightarrow> jstr \<Rightarrow> reply \<Rightarrow> send_task \<Rightarrow> mail_world \<Rightarrow> send_phase \<times> mail_world" where
  "send_step same batchId emailBatchId errorId reply t w = (case st_phase t of
     Checking \<Rightarrow> (case reply of
         Answers _ \<Rightarrow> (if checkNewsletterAlreadySent same batchId (st_toEmail t) w then Skipped else Sending, w)
       | Fails e \<Rightarrow> (Failed e, w) | AnswerLost _ e \<Rightarrow> (Failed e, w))
   | Sending \<Rightarrow> (case reply of
         Answers messageId \<Rightarrow> (Recording messageId, w) | Fails e \<Rightarrow> (Reporting e, w) | AnswerLost _ e \<Rightarrow> (Reporting e, w))
   | Reporting e \<Rightarrow> (Failed e, case reply of Fails _ \<Rightarrow> w | _ \<Rightarrow> write_report errorId emailBatchId e t w)
   | Recording messageId \<Rightarrow>
       (case createNewsletterEntry messageId batchId (st_toEmail t) (st_recipientData t) (st_formatedContents t) w of
          Inl e' \<Rightarrow> (Failed (case reply of Fails e \<Rightarrow> e | _ \<Rightarrow> e'), w)
        | Inr w' \<Rightarrow> (case reply of Answers _ \<Rightarrow> (Sent, w') | Fails e \<Rightarrow> (Failed e, w) | AnswerLost _ e \<Rightarrow> (Failed e, w')))
   | Failing e \<Rightarrow> (Failed e, w)
   | p \<Rightarrow> (p, w))"

text \<open>SES took the message in this step.\<close>

definition ses_accepts :: "reply \<Rightarrow> send_task \<Rightarrow> bool" where
  "ses_accepts reply t \<longleftrightarrow> st_phase t = Sending \<and> (case reply of Fails _ \<Rightarrow> False | _ \<Rightarrow> True)"

fun ended :: "send_phase \<Rightarrow> bool option" where
  "ended Skipped = Some False"
| "ended Sent = Some False"
| "ended (Failed _) = Some True"
| "ended _ = None"

section \<open>Processing a batch\<close>

record attempt =
  at_batchId :: jstr
  at_emailBatchId :: js
  at_tasks :: "send_task list"
  at_queue :: "nat task_queue"
  at_answer :: "nat queue_stats option"

text \<open>
  \<^verbatim>\<open>Number(process.env.X) || fallback\<close>. The queue's rate is read only through the sign of \<^verbatim>\<open>1000 / rate\<close>,
  which is not positive for an infinite rate either; an infinite limit is never reached, like the
  number of emails \<open>n\<close>; a fraction is reached from its ceiling on.
\<close>

definition number_or :: "jnum \<Rightarrow> rat \<Rightarrow> jnum" where
  "number_or x fallback = (if x = NaN \<or> x = Fin 0 then Fin fallback else x)"

definition rate_limit :: "(string \<Rightarrow> jstr option) \<Rightarrow> rat" where
  "rate_limit env = (case number_or (env_number env ''RATE_LIMIT'') 20 of Fin r \<Rightarrow> r | _ \<Rightarrow> -1)"

definition max_concurrent :: "(string \<Rightarrow> jstr option) \<Rightarrow> nat \<Rightarrow> int" where
  "max_concurrent env n = (case number_or (env_number env ''MAX_CONCURRENT'') 100 of
     Fin r \<Rightarrow> \<lceil>r\<rceil> | NInf \<Rightarrow> 0 | _ \<Rightarrow> max 1 (int n))"

definition batch_emails :: "(string \<Rightarrow> jstr option) \<Rightarrow> jstr \<Rightarrow> jstr \<Rightarrow> mail_world \<Rightarrow> (js \<times> prepared_email list) res" where
  "batch_emails env siteId batchId w = bindE (getNewsletterContent batchId w) (\<lambda>contents.
     if \<not> truthy contents then Inl (Error ''Newsletter batch not found'')
     else bindE (preparePayload env contents siteId) (\<lambda>emails. Inr (get_prop contents ''v:email-id'', emails)))"

definition processBatch :: "(string \<Rightarrow> jstr option) \<Rightarrow> bool \<Rightarrow> rat \<Rightarrow> jstr \<Rightarrow> jstr \<Rightarrow> mail_world \<Rightarrow> attempt res" where
  "processBatch env persist now siteId batchId w =
     bindE (batch_emails env siteId batchId w) (\<lambda>(emailBatchId, emails).
       let n = length emails;
           (answer, queue) = waitUntilFinished now (enqueue_all now [0..<n] (new_queue (rate_limit env) (max_concurrent env n)))
       in Inr \<lparr>at_batchId = batchId, at_emailBatchId = emailBatchId, at_tasks = map (start_send persist) emails,
               at_queue = queue, at_answer = answer\<rparr>)"

text \<open>\<^verbatim>\<open>validateAndSend\<close>: the message's body and attributes, each perhaps missing.\<close>

definition validateAndSend :: "(string \<Rightarrow> jstr option) \<Rightarrow> bool \<Rightarrow> rat \<Rightarrow> jstr option \<Rightarrow> jstr option \<Rightarrow> jstr option \<Rightarrow> mail_world \<Rightarrow> attempt res" where
  "validateAndSend env persist now body siteId sender w = (case (body, siteId, sender) of
     (Some (b # bs), Some (s # ss), Some (f # fs)) \<Rightarrow> processBatch env persist now (s # ss) (b # bs) w
   | _ \<Rightarrow> Inl (Error ''Invalid newsletter SQS message''))"

datatype attempt_event = QueueTimer | TaskReply nat reply jstr rat rat

fun index_of :: "'a \<Rightarrow> 'a list \<Rightarrow> nat" where
  "index_of x [] = 0"
| "index_of x (y # ys) = (if x = y then 0 else Suc (index_of x ys))"

definition task_reply :: "(jstr \<Rightarrow> jstr \<Rightarrow> bool) \<Rightarrow> nat \<Rightarrow> reply \<Rightarrow> jstr \<Rightarrow> rat \<Rightarrow> rat \<Rightarrow> attempt \<Rightarrow> mail_world \<Rightarrow> attempt \<times> mail_world" where
  "task_reply same i reply errorId now duration a w =
     (let t = at_tasks a ! i;
          (phase, w') = send_step same (at_batchId a) (at_emailBatchId a) errorId reply t w;
          a' = a\<lparr>at_tasks := (at_tasks a)[i := t\<lparr>st_phase := phase\<rparr>]\<rparr>
      in (case ended phase of
            None \<Rightarrow> a'
          | Some failed \<Rightarrow> a'\<lparr>at_queue := settle_task now (index_of i (tq_running (at_queue a))) failed duration (at_queue a)\<rparr>, w'))"

fun attempt_step :: "(jstr \<Rightarrow> jstr \<Rightarrow> bool) \<Rightarrow> attempt_event \<Rightarrow> attempt \<Rightarrow> mail_world \<Rightarrow> (attempt \<times> mail_world) option" where
  "attempt_step same QueueTimer a w =
     map_option (\<lambda>q. (a\<lparr>at_queue := q\<rparr>, w)) (queue_event TimerFired (at_queue a))"
| "attempt_step same (TaskReply i reply errorId now duration) a w =
     (if i \<in> set (tq_running (at_queue a)) then Some (task_reply same i reply errorId now duration a w) else None)"

text \<open>How \<^verbatim>\<open>processBatch\<close> ends, once its queue has answered.\<close>

definition attempt_result :: "attempt \<Rightarrow> unit res option" where
  "attempt_result a = map_option
     (\<lambda>stats. if qs_failedCount stats > 0
              then Inl (Error (nat_text (qs_failedCount stats) @ ''/'' @ nat_text (length (at_tasks a)) @ '' emails failed''))
              else Inr ())
     (case at_answer a of Some stats \<Rightarrow> Some stats
      | None \<Rightarrow> (case tq_delivered (at_queue a) of [] \<Rightarrow> None | (stats, w) # _ \<Rightarrow> Some stats))"

section \<open>What was posted is what is sent from\<close>

text \<open>Form objects: distinct keys over strings and lists of strings.\<close>

definition form_entry :: "js \<Rightarrow> bool" where
  "form_entry v \<longleftrightarrow> (case v of JStr s \<Rightarrow> True | JArr vs \<Rightarrow> list_all js_string vs | _ \<Rightarrow> False)"

definition form_object :: "(jstr \<times> js) list \<Rightarrow> bool" where
  "form_object kvs \<longleftrightarrow> distinct (map fst kvs) \<and> list_all form_entry (map snd kvs)"

lemma form_entry_strings: "js_string v \<Longrightarrow> plain v \<and> ordered v = v"
  by (cases v) auto

lemma form_entry_plain: "form_entry v \<Longrightarrow> plain v \<and> ordered v = v"
  by (cases v) (auto simp: form_entry_def list_all_iff form_entry_strings intro: map_idI)

lemma form_object_update:
  assumes "form_object kvs" "form_entry v" shows "form_object (AList.update k v kvs)"
proof -
  have "form_entry (snd kv)" if "kv \<in> set (AList.update k v kvs)" for kv
    using assms that by (induction kvs) (auto simp: form_object_def list_all_iff split: if_splits)
  then show ?thesis using assms distinct_update [of kvs k v] by (auto simp: form_object_def list_all_iff)
qed

lemma form_step_object:
  assumes "form_object kvs" "inherited (fst entry) = JUndef"
  shows "form_object (form_step includeFilenames entry kvs)"
proof -
  have "form_object (add_form_value kvs k s)" if k: "inherited k = JUndef" for k s
  proof (cases "map_of kvs k")
    case None
    then show ?thesis using assms(1) k by (simp add: add_form_value_def form_object_update form_entry_def)
  next
    case (Some v)
    then have "v \<in> set (map snd kvs)" by (force dest: map_of_SomeD)
    then have "form_entry v" using assms(1) by (auto simp: form_object_def list_all_iff)
    then show ?thesis using assms(1) Some
      by (cases v) (auto simp: add_form_value_def form_entry_def intro!: form_object_update)
  qed
  then show ?thesis using assms by (auto simp: form_step_def split: prod.splits form_value.splits)
qed

lemma formDataToObject_object:
  assumes "\<forall>entry \<in> set form. inherited (fst entry) = JUndef"
  shows "\<exists>kvs. formDataToObject b form = JObj ObjectProto kvs \<and> form_object kvs"
proof -
  have "form_object (fold (form_step b) form kvs)" if "form_object kvs" for kvs
    using assms that by (induction form arbitrary: kvs) (auto simp: form_step_object)
  from this [of "[]"] show ?thesis by (simp add: formDataToObject_def form_object_def)
qed

text \<open>
  What a form says, independently of how it is folded into an object: the texts posted under a name,
  in their order. A single text is stored as a string, several as a list, files are left out.
\<close>

definition posted_values :: "(jstr \<times> form_value) list \<Rightarrow> jstr \<Rightarrow> jstr list" where
  "posted_values form k = List.map_filter
     (\<lambda>(key, v). case v of FormString s \<Rightarrow> if key = k then Some s else None | FormFile _ \<Rightarrow> None) form"

fun stored_value :: "jstr list \<Rightarrow> js option" where
  "stored_value [] = None"
| "stored_value [s] = Some (JStr s)"
| "stored_value ss = Some (JArr (map JStr ss))"

lemma stored_value_append:
  "stored_value (ss @ [s]) = Some (case stored_value ss of
     None \<Rightarrow> JStr s | Some (JArr vs) \<Rightarrow> JArr (vs @ [JStr s]) | Some v \<Rightarrow> JArr [v, JStr s])"
  by (cases ss rule: stored_value.cases) auto

lemma posted_values_simps [simp]:
  "posted_values [] k = []"
  "posted_values (form @ [(key, FormString s)]) k = posted_values form k @ (if key = k then [s] else [])"
  "posted_values (form @ [(key, FormFile name)]) k = posted_values form k"
  by (simp_all add: posted_values_def List.map_filter_def)

lemma add_form_value_stored:
  assumes "inherited key = JUndef" "map_of kvs key = stored_value ss"
  shows "map_of (add_form_value kvs key s) = (map_of kvs)(key := stored_value (ss @ [s]))"
proof -
  have "key \<noteq> lit ''__proto__''" using assms(1) by (auto simp: inherited_def inherited_names_def)
  then show ?thesis
    using assms by (cases ss rule: stored_value.cases) (auto simp: add_form_value_def update_conv')
qed

lemma form_step_simps:
  "form_step False (key, FormString s) kvs = add_form_value kvs key s"
  "form_step False (key, FormFile name) kvs = kvs"
  by (simp_all add: form_step_def)

lemma form_object_values:
  assumes "\<forall>entry \<in> set form. inherited (fst entry) = JUndef"
  shows "map_of (fold (form_step False) form []) k = stored_value (posted_values form k)"
  using assms
proof (induction form arbitrary: k rule: rev_induct)
  case (snoc entry form)
  obtain key v where entry: "entry = (key, v)" by (cases entry)
  have IH: "map_of (fold (form_step False) form []) k = stored_value (posted_values form k)" for k
    using snoc by simp
  show ?case
  proof (cases v)
    case (FormString s)
    have "inherited key = JUndef" using snoc.prems entry by simp
    from add_form_value_stored [OF this IH] show ?thesis
      by (simp add: entry FormString form_step_simps IH)
  next
    case (FormFile name)
    then show ?thesis by (simp add: entry form_step_simps IH)
  qed
qed simp

lemma form_object_stored:
  assumes "form_object kvs"
  shows "\<exists>t stored. safeStringify (JObj ObjectProto kvs) = Some t \<and> json_parse t = Some (JObj ObjectProto stored)
     \<and> t \<noteq> [] \<and> distinct (map fst stored) \<and> map_of stored = map_of kvs"
proof -
  let ?v = "JObj ObjectProto kvs"
  have entries: "plain v \<and> ordered v = v" if "v \<in> set (map snd kvs)" for v
    using assms form_entry_plain that by (auto simp: form_object_def list_all_iff)
  then have "plain ?v" using assms by (auto simp: form_object_def list_all_iff)
  then obtain t where t: "safeStringify ?v = Some t" "json_parse t = Some (ordered ?v)"
    using safeStringify_parses by blast
  have "map (\<lambda>(k, v). (k, ordered v)) kvs = kvs" by (intro map_idI) (use entries in force)
  then have "ordered ?v = JObj ObjectProto (key_order kvs)" by simp
  moreover have "t \<noteq> []" using t(2) by (auto simp: json_parse_def)
  moreover have "distinct (map fst kvs)" using assms by (simp add: form_object_def)
  ultimately show ?thesis using t map_of_key_order [of kvs] by auto
qed

lemma with_email_id_object:
  assumes "form_object kvs"
  shows "\<exists>kvs'. with_email_id (JObj ObjectProto kvs) = JObj ObjectProto kvs' \<and> form_object kvs'
     \<and> map_of kvs' = (map_of kvs)(lit ''v:email-id'' \<mapsto>
          (case map_of kvs (lit ''v:email-id'') of None \<Rightarrow> JStr (lit ''no-batch-id-provided'')
           | Some v \<Rightarrow> if truthy v then v else JStr (lit ''no-batch-id-provided'')))"
proof -
  let ?id = "get_prop (JObj ObjectProto kvs) ''v:email-id''"
  have "form_entry ?id" if "truthy ?id"
    using assms that by (force simp: form_object_def list_all_iff dest: map_of_SomeD split: option.splits)
  then have "form_object (AList.update (lit ''v:email-id'')
      (if truthy ?id then ?id else JStr (lit ''no-batch-id-provided'')) kvs)"
    by (intro form_object_update [OF assms]) (simp add: form_entry_def del: get_prop.simps)
  then show ?thesis by (auto simp: with_email_id_def update_conv' split: option.splits)
qed

text \<open>
  C34: what the API stores when it answers 200. The form has names only that no object inherits
  (\<^verbatim>\<open>toString\<close>, \<^verbatim>\<open>constructor\<close> and the like are excluded). Then exactly one text was posted as
  sender and at most one as email id, the id in the answer is that text, or the default when it was
  missing or empty; one batch row with the site, the id and the sender was added and one message
  naming row, site and sender was queued; and what the sender of the newsletter reads from that row has,
  under every name, the texts posted under it in their order: one as a string, several as a list. The
  email id alone is read with its default, and posted files are left out.
\<close>

theorem posted_form_reads_back:
  assumes "post_message uuid sqs form siteId w = ((200, answer), w')"
    and "\<forall>entry \<in> set form. inherited (fst entry) = JUndef"
  shows "\<exists>emailId sender t stored. answer = JStr emailId \<and> posted_values form (lit ''from'') = [sender]
     \<and> (case posted_values form (lit ''v:email-id'') of [] \<Rightarrow> emailId = lit ''no-batch-id-provided''
        | [s] \<Rightarrow> emailId = (if s = [] then lit ''no-batch-id-provided'' else s) | _ \<Rightarrow> False)
     \<and> mw_batches w' = mw_batches w @ [\<lparr>br_id = uuid, br_siteId = siteId, br_batchId = emailId,
          br_contents = t, br_fromEmail = sender\<rparr>]
     \<and> mw_queued w' = mw_queued w @ [\<lparr>qm_body = uuid, qm_siteId = siteId, qm_from = sender\<rparr>]
     \<and> getNewsletterContent uuid w' = Inr (JObj ObjectProto stored) \<and> distinct (map fst stored)
     \<and> (\<forall>k. map_of stored k = (if k = lit ''v:email-id'' then Some (JStr emailId)
          else case posted_values form k of [] \<Rightarrow> None | [s] \<Rightarrow> Some (JStr s) | ss \<Rightarrow> Some (JArr (map JStr ss))))"
proof -
  let ?id = "lit ''v:email-id''" and ?default = "lit ''no-batch-id-provided''"
  have stored_cases: "stored_value ss = (case ss of [] \<Rightarrow> None | [s] \<Rightarrow> Some (JStr s) | ss \<Rightarrow> Some (JArr (map JStr ss)))" for ss
    by (cases ss rule: stored_value.cases) simp_all
  have object: "formDataToObject False form = JObj ObjectProto (fold (form_step False) form [])"
      "form_object (fold (form_step False) form [])"
    using formDataToObject_object [OF assms(2), of False] by (simp_all add: formDataToObject_def)
  obtain kvs where message: "with_email_id (formDataToObject False form) = JObj ObjectProto kvs" "form_object kvs"
      "map_of kvs = (map_of (fold (form_step False) form []))(?id \<mapsto>
          (case map_of (fold (form_step False) form []) ?id of None \<Rightarrow> JStr ?default
           | Some v \<Rightarrow> if truthy v then v else JStr ?default))"
    using with_email_id_object [OF object(2)] unfolding object(1) by blast
  note vals = form_object_values [OF assms(2)]
  have kvs: "map_of kvs k = (if k = ?id then Some (case stored_value (posted_values form ?id) of None \<Rightarrow> JStr ?default
           | Some v \<Rightarrow> if truthy v then v else JStr ?default) else stored_value (posted_values form k))" for k
    by (simp add: message(3) vals)
  let ?message = "JObj ObjectProto kvs"
  obtain t stored where t: "safeStringify ?message = Some t" "json_parse t = Some (JObj ObjectProto stored)" "t \<noteq> []"
      "distinct (map fst stored)" "map_of stored = map_of kvs"
    using form_object_stored [OF message(2)] by blast
  obtain messageId where run: "addNewsletterToQueue uuid sqs ?message siteId w = (Inr (answer, messageId), w')"
    using assms(1) message(1) by (auto simp: post_message_def split: if_splits prod.splits sum.splits)
  then obtain w1 where w1: "createNewsletterBatchEntry uuid siteId ?message w = Inr (uuid, w1)"
    by (auto simp: addNewsletterToQueue_def createNewsletterBatchEntry_def Let_def split: if_splits sum.splits option.splits js.splits)
  have id: "get_prop ?message ''v:email-id'' = the (map_of kvs ?id)" "truthy (get_prop ?message ''v:email-id'')"
    by (auto simp: kvs lit_def split: option.splits)
  obtain emailId sender where row: "get_prop ?message ''v:email-id'' = JStr emailId" "get_prop ?message ''from'' = JStr sender"
      "uuid \<notin> br_id ` set (mw_batches w)" "w1 = w\<lparr>mw_batches := mw_batches w @
      [\<lparr>br_id = uuid, br_siteId = siteId, br_batchId = emailId, br_contents = t, br_fromEmail = sender\<rparr>]\<rparr>"
    using w1 id(2) by (auto simp: createNewsletterBatchEntry_def Let_def t(1) simp del: get_prop.simps split: if_splits js.splits)
  have w': "answer = JStr emailId" "w' = w1\<lparr>mw_queued := mw_queued w1 @
      [\<lparr>qm_body = uuid, qm_siteId = siteId, qm_from = sender\<rparr>]\<rparr>"
    using run w1 row(1,2) by (auto simp: addNewsletterToQueue_def Let_def string_of_def simp del: get_prop.simps split: reply.splits)
  have "filter (\<lambda>b. br_id b = uuid) (mw_batches w) = []" using row(3) by (auto simp: filter_empty_conv)
  then have content: "getNewsletterContent uuid w' = Inr (JObj ObjectProto stored)"
    using t(2,3) by (simp add: getNewsletterContent_def w'(2) row(4))
  have "stored_value (posted_values form (lit ''from'')) = Some (JStr sender)"
    using row(2) by (auto simp: kvs lit_def split: option.splits)
  then have from_posted: "posted_values form (lit ''from'') = [sender]"
    by (cases "posted_values form (lit ''from'')" rule: stored_value.cases) simp_all
  have "the (map_of kvs ?id) = JStr emailId" using id(1) row(1) by simp
  then have emailId: "case posted_values form ?id of [] \<Rightarrow> emailId = ?default
      | [s] \<Rightarrow> emailId = (if s = [] then ?default else s) | _ \<Rightarrow> False"
    by (cases "posted_values form ?id" rule: stored_value.cases) (auto simp: kvs split: if_splits)
  have "map_of stored k = (if k = ?id then Some (JStr emailId) else stored_value (posted_values form k))" for k
    using \<open>the (map_of kvs ?id) = JStr emailId\<close> by (simp add: t(5) kvs)
  then show ?thesis
    using w'(1) from_posted emailId content t(4) unfolding stored_cases
    by (intro exI [of _ emailId] exI [of _ sender] exI [of _ t] exI [of _ stored]) (simp add: w'(2) row(4))
qed

text \<open>A form with two receivers and no email id.\<close>

theorem posted_form_reads_back_witness:
  "\<exists>w' stored. getNewsletterContent (lit ''b1'') w' = Inr (JObj ObjectProto stored)
     \<and> map_of stored (lit ''to'') = Some (JArr [JStr (lit ''a''), JStr (lit ''b'')])"
proof -
  let ?form = "[(lit ''from'', FormString (lit ''n'')), (lit ''to'', FormString (lit ''a'')), (lit ''to'', FormString (lit ''b''))]"
  let ?w = "\<lparr>mw_batches = [], mw_messages = [], mw_errors = [], mw_queued = []\<rparr>"
  let ?message = "obj [(''from'', JStr (lit ''n'')), (''to'', JArr [JStr (lit ''a''), JStr (lit ''b'')]),
      (''v:email-id'', JStr (lit ''no-batch-id-provided''))]"
  have message: "with_email_id (formDataToObject False ?form) = ?message" by code_simp
  have names: "\<forall>entry \<in> set ?form. inherited (fst entry) = JUndef" by code_simp
  have "plain ?message" by simp
  then obtain t where "safeStringify ?message = Some t" using safeStringify_parses by blast
  moreover have "lit ''s1'' \<noteq> []" by (simp add: lit_def)
  ultimately obtain w' where "post_message (lit ''b1'') (Answers JUndef) ?form (lit ''s1'') ?w
      = ((200, JStr (lit ''no-batch-id-provided'')), w')"
    by (simp add: post_message_def addNewsletterToQueue_def createNewsletterBatchEntry_def message Let_def)
  from posted_form_reads_back [OF this names] obtain stored where "getNewsletterContent (lit ''b1'') w' = Inr (JObj ObjectProto stored)"
      "\<forall>k. map_of stored k = (if k = lit ''v:email-id'' then Some (JStr (lit ''no-batch-id-provided''))
          else case posted_values ?form k of [] \<Rightarrow> None | [s] \<Rightarrow> Some (JStr s) | ss \<Rightarrow> Some (JArr (map JStr ss)))"
    by auto
  moreover have "posted_values ?form (lit ''to'') = [lit ''a'', lit ''b'']" "lit ''to'' \<noteq> lit ''v:email-id''" by code_simp+
  ultimately show ?thesis by fastforce
qed

end
