(* ===== verification/NewsletterDelivery.thy ===== *)
theory NewsletterDelivery
  imports NewsletterSend
begin

text \<open>
  Any number of attempts at newsletter batches over one database and SES: deliveries of the same SQS
  message may overlap (a handler that timed out goes on in the background), and an attempt may die at
  any point. The system counts what SES accepted, what was accepted but never recorded, and the
  attempts that started while another one at the same batch was running.
\<close>

section \<open>The system\<close>

record mail_system =
  ms_world :: mail_world
  ms_attempts :: "attempt list"
  ms_accepted :: "(jstr \<times> jstr) list"
  ms_lost :: "(jstr \<times> jstr) list"
  ms_overlaps :: "jstr list"
  ms_acked :: "jstr list"

text \<open>
  \<open>StartSend\<close> delivers a message to \<^verbatim>\<open>validateAndSend\<close> at a positive \<^verbatim>\<open>performance.now()\<close>; \<open>FinishSend\<close>
  ends an attempt whose queue has answered, and the worker deletes the message if it resolved.
\<close>

datatype mail_event =
    StartSend rat "jstr option" "jstr option" "jstr option"
  | StepSend nat attempt_event
  | FinishSend nat
  | CrashSend nat

definition accepted_by :: "attempt_event \<Rightarrow> attempt \<Rightarrow> (jstr \<times> jstr) list" where
  "accepted_by ev a = (case ev of
     QueueTimer \<Rightarrow> []
   | TaskReply i reply errorId now duration \<Rightarrow>
       if ses_accepts reply (at_tasks a ! i) then [(at_batchId a, st_toEmail (at_tasks a ! i))] else [])"

text \<open>The mail went out, and this step gave up without a row for it.\<close>

definition is_recording :: "send_task \<Rightarrow> bool" where
  "is_recording t \<longleftrightarrow> (case st_phase t of Recording m \<Rightarrow> True | _ \<Rightarrow> False)"

definition lost_by :: "attempt_event \<Rightarrow> attempt \<Rightarrow> mail_world \<Rightarrow> mail_world \<Rightarrow> (jstr \<times> jstr) list" where
  "lost_by ev a w w' = (case ev of
     QueueTimer \<Rightarrow> []
   | TaskReply i reply errorId now duration \<Rightarrow>
       (let t = at_tasks a ! i in
        if st_phase t = Sending \<and> (case reply of AnswerLost _ _ \<Rightarrow> True | _ \<Rightarrow> False)
           \<or> is_recording t \<and> mw_messages w' = mw_messages w
        then [(at_batchId a, st_toEmail t)] else []))"

definition lost_in_crash :: "attempt \<Rightarrow> (jstr \<times> jstr) list" where
  "lost_in_crash a = map (\<lambda>t. (at_batchId a, st_toEmail t)) (filter is_recording (at_tasks a))"

definition remove_nth :: "nat \<Rightarrow> 'a list \<Rightarrow> 'a list" where
  "remove_nth k xs = take k xs @ drop (Suc k) xs"

fun mail_step :: "(jstr \<Rightarrow> jstr \<Rightarrow> bool) \<Rightarrow> (string \<Rightarrow> jstr option) \<Rightarrow> bool \<Rightarrow> mail_event \<Rightarrow> mail_system \<Rightarrow> mail_system option" where
  "mail_step same env persist (StartSend now body siteId sender) s =
     (if now \<le> 0 then None
      else case validateAndSend env persist now body siteId sender (ms_world s) of
        Inl e \<Rightarrow> Some s
      | Inr a \<Rightarrow> Some (s\<lparr>ms_attempts := ms_attempts s @ [a],
          ms_overlaps := ms_overlaps s @ (if at_batchId a \<in> at_batchId ` set (ms_attempts s) then [at_batchId a] else [])\<rparr>))"
| "mail_step same env persist (StepSend k ev) s =
     (if k \<ge> length (ms_attempts s) then None
      else let a = ms_attempts s ! k in
        case attempt_step same ev a (ms_world s) of
          None \<Rightarrow> None
        | Some (a', w') \<Rightarrow> Some (s\<lparr>ms_world := w', ms_attempts := (ms_attempts s)[k := a'],
            ms_accepted := ms_accepted s @ accepted_by ev a,
            ms_lost := ms_lost s @ lost_by ev a (ms_world s) w'\<rparr>))"
| "mail_step same env persist (FinishSend k) s =
     (if k \<ge> length (ms_attempts s) then None
      else let a = ms_attempts s ! k in
        case attempt_result a of
          None \<Rightarrow> None
        | Some result \<Rightarrow> Some (s\<lparr>ms_attempts := remove_nth k (ms_attempts s),
            ms_acked := ms_acked s @ (case result of Inr _ \<Rightarrow> [at_batchId a] | Inl _ \<Rightarrow> [])\<rparr>))"
| "mail_step same env persist (CrashSend k) s =
     (if k \<ge> length (ms_attempts s) then None
      else Some (s\<lparr>ms_attempts := remove_nth k (ms_attempts s), ms_lost := ms_lost s @ lost_in_crash (ms_attempts s ! k)\<rparr>))"

definition idle_system :: "mail_world \<Rightarrow> mail_system" where
  "idle_system w = \<lparr>ms_world = w, ms_attempts = [], ms_accepted = [], ms_lost = [], ms_overlaps = [], ms_acked = []\<rparr>"

inductive mail_reachable :: "(jstr \<Rightarrow> jstr \<Rightarrow> bool) \<Rightarrow> (string \<Rightarrow> jstr option) \<Rightarrow> bool \<Rightarrow> mail_world \<Rightarrow> mail_system \<Rightarrow> bool"
  for same env persist w where
  idle: "mail_reachable same env persist w (idle_system w)"
| step: "mail_reachable same env persist w s \<Longrightarrow> mail_step same env persist ev s = Some s' \<Longrightarrow> mail_reachable same env persist w s'"

section \<open>Lists\<close>

lemma filter_update_length:
  "i < length xs \<Longrightarrow> length (filter P (xs[i := y])) + (if P (xs ! i) then 1 else 0) = length (filter P xs) + (if P y then 1 else (0::nat))"
proof (induction xs arbitrary: i)
  case (Cons x xs)
  then show ?case by (cases i) (simp, use Cons.IH [of "i - 1"] in \<open>simp split: if_splits\<close>)
qed simp

lemma sum_list_update:
  fixes f :: "'a \<Rightarrow> nat"
  shows "k < length xs \<Longrightarrow> sum_list (map f (xs[k := y])) + f (xs ! k) = sum_list (map f xs) + f y"
proof (induction xs arbitrary: k)
  case (Cons x xs)
  then show ?case by (cases k) (simp, use Cons.IH [of "k - 1"] in simp)
qed simp

lemma sum_list_remove_nth:
  fixes f :: "'a \<Rightarrow> nat"
  shows "k < length xs \<Longrightarrow> sum_list (map f (remove_nth k xs)) + f (xs ! k) = sum_list (map f xs)"
  using arg_cong [OF id_take_nth_drop [of k xs], of "\<lambda>l. sum_list (map f l)"] by (simp add: remove_nth_def)

lemma set_remove_nth: "set (remove_nth k xs) \<subseteq> set xs"
  by (auto simp: remove_nth_def dest: in_set_takeD in_set_dropD)

lemma index_of_less [simp]: "x \<in> set xs \<Longrightarrow> index_of x xs < length xs" and nth_index_of [simp]: "x \<in> set xs \<Longrightarrow> xs ! index_of x xs = x"
  by (induction xs) auto

section \<open>One step of a task\<close>

lemma stored_rows:
  "createNewsletterEntry m b addr d f w = Inr w' \<Longrightarrow> mw_batches w' = mw_batches w
     \<and> (\<exists>row. mw_messages w' = mw_messages w @ [row] \<and> mr_batchId row = b \<and> mr_toEmail row = addr)"
  by (auto simp: createNewsletterEntry_def split: js.splits if_splits)

lemma report_rows: "mw_messages (write_report i b e t w) = mw_messages w" "mw_batches (write_report i b e t w) = mw_batches w"
  by (auto simp: write_report_def createNewsletterErrorEntry_def split: js.splits)

lemma send_step_rows:
  assumes "send_step same b eid errorId reply t w = (p, w')"
  shows "mw_batches w' = mw_batches w \<and> (mw_messages w' = mw_messages w
     \<or> is_recording t \<and> (\<exists>row. mw_messages w' = mw_messages w @ [row] \<and> mr_batchId row = b \<and> mr_toEmail row = st_toEmail t))"
  using assms report_rows
  by (cases "st_phase t")
    (auto simp: is_recording_def split: reply.splits sum.splits dest!: stored_rows)

lemma sent_mono:
  assumes "send_step same b eid errorId reply t w = (p, w')" "checkNewsletterAlreadySent same c r w"
  shows "checkNewsletterAlreadySent same c r w'"
  using send_step_rows [OF assms(1)] assms(2) by (auto simp: checkNewsletterAlreadySent_def)

lemma ended_sent:
  assumes "send_step same b eid errorId reply t w = (p, w')" "ended p = Some False" "ended (st_phase t) = None" "\<And>x. same x x"
  shows "checkNewsletterAlreadySent same b (st_toEmail t) w'"
  using assms
  by (cases "st_phase t")
    (auto simp: checkNewsletterAlreadySent_def split: reply.splits sum.splits if_splits dest!: stored_rows)

section \<open>The invariant of an attempt\<close>

definition known_address :: "prepared_email \<Rightarrow> jstr" where
  "known_address e = (case to_email e of Inl _ \<Rightarrow> [] | Inr r \<Rightarrow> r)"

definition settled_ok :: "(nat \<times> bool) list \<Rightarrow> send_task list \<Rightarrow> bool" where
  "settled_ok settled tasks \<longleftrightarrow> (\<forall>(i, failed) \<in> set settled. ended (st_phase (tasks ! i)) = Some failed)"

definition queue_ok :: "attempt \<Rightarrow> bool" where
  "queue_ok a \<longleftrightarrow>
     (if at_tasks a = [] then tq_running (at_queue a) = [] \<and> \<not> tq_processing (at_queue a)
        \<and> (\<exists>stats. at_answer a = Some stats \<and> qs_failedCount stats = 0)
      else at_answer a = None
        \<and> (\<exists>settled. queue_inv [0..<length (at_tasks a)] 1 settled (at_queue a) \<and> settled_ok settled (at_tasks a)))"

definition attempt_ok :: "(jstr \<Rightarrow> jstr \<Rightarrow> bool) \<Rightarrow> (string \<Rightarrow> jstr option) \<Rightarrow> mail_world \<Rightarrow> attempt \<Rightarrow> bool" where
  "attempt_ok same env w a \<longleftrightarrow> queue_ok a
     \<and> (\<exists>siteId emails. batch_emails env siteId (at_batchId a) w = Inr (at_emailBatchId a, emails)
          \<and> map st_toEmail (at_tasks a) = map known_address emails)
     \<and> (\<forall>t \<in> set (at_tasks a). ended (st_phase t) = Some False \<longrightarrow>
          checkNewsletterAlreadySent same (at_batchId a) (st_toEmail t) w)"

lemma batch_emails_world: "mw_batches w' = mw_batches w \<Longrightarrow> batch_emails env siteId b w' = batch_emails env siteId b w"
  by (simp add: batch_emails_def getNewsletterContent_def)

lemma attempt_ok_mono:
  assumes "attempt_ok same env w a" "mw_batches w' = mw_batches w"
    and "\<And>b r. checkNewsletterAlreadySent same b r w \<Longrightarrow> checkNewsletterAlreadySent same b r w'"
  shows "attempt_ok same env w' a"
  using assms batch_emails_world [OF assms(2)] by (auto simp: attempt_ok_def)

text \<open>Tasks that have settled are not running any more.\<close>

lemma running_not_settled:
  assumes "queue_inv [0..<n] w settled q" "i \<in> set (tq_running q)"
  shows "i < n \<and> (i, f) \<notin> set settled"
proof -
  from assms(1) obtain started where st: "[0..<n] = started @ waiting_tasks q"
      "mset started = mset (tq_running q) + mset (map fst settled)" by (auto simp: queue_inv_def)
  have "distinct started" using st(1) by (metis distinct_append distinct_upt)
  then have "count (mset (tq_running q) + mset (map fst settled)) i \<le> 1"
    unfolding st(2) [symmetric] by (metis distinct_count_atmost_1 le_refl less_le_not_le linorder_le_less_linear zero_le_one)
  moreover have "0 < count (mset (tq_running q)) i" using assms(2) by simp
  ultimately have "count (mset (map fst settled)) i = 0" unfolding count_union by linarith
  then have "i \<notin> set (map fst settled)" by (simp add: count_eq_zero_iff)
  then have "(i, f) \<notin> set settled" by force
  moreover have "i \<in># mset started" unfolding st(2) using assms(2) by simp
  then have "i \<in> set [0..<n]" using st(1) by simp
  ultimately show ?thesis by simp
qed

lemma running_task: "queue_ok a \<Longrightarrow> i \<in> set (tq_running (at_queue a)) \<Longrightarrow> i < length (at_tasks a)"
  using running_not_settled by (fastforce simp: queue_ok_def split: if_splits)

lemma queue_ok_timer:
  assumes "queue_ok a" "tq_processing (at_queue a)"
  shows "queue_ok (a\<lparr>at_queue := process_loop (compact (at_queue a))\<rparr>)"
  using assms timer_step by (fastforce simp: queue_ok_def split: if_splits)

text \<open>A reply to a running task, which may end it.\<close>

lemma queue_ok_reply:
  assumes ok: "queue_ok a" and i: "i \<in> set (tq_running (at_queue a))"
    and a': "a' = a\<lparr>at_tasks := (at_tasks a)[i := t]\<rparr>"
  shows "ended (st_phase t) = None \<Longrightarrow> queue_ok a'"
    and "ended (st_phase t) = Some failed \<Longrightarrow>
      queue_ok (a'\<lparr>at_queue := settle_task now (index_of i (tq_running (at_queue a))) failed duration (at_queue a)\<rparr>)"
proof -
  let ?n = "length (at_tasks a)"
  have ne: "at_tasks a \<noteq> []" using ok i by (auto simp: queue_ok_def split: if_splits)
  then obtain settled where q: "at_answer a = None" "queue_inv [0..<?n] 1 settled (at_queue a)" "settled_ok settled (at_tasks a)"
    using ok by (auto simp: queue_ok_def)
  have keep: "settled_ok settled ((at_tasks a)[i := t])"
    using q(3) running_not_settled [OF q(2) i] by (fastforce simp: settled_ok_def nth_list_update)
  show "queue_ok a'" if "ended (st_phase t) = None"
    using q ne keep by (auto simp: queue_ok_def a')
  let ?k = "index_of i (tq_running (at_queue a))"
  show "queue_ok (a'\<lparr>at_queue := settle_task now ?k failed duration (at_queue a)\<rparr>)" if "ended (st_phase t) = Some failed"
  proof -
    have "queue_inv [0..<?n] 1 (settled @ [(i, failed)]) (settle_task now ?k failed duration (at_queue a))"
      using settle_step [OF q(2), of ?k failed now duration] i by simp
    moreover have "settled_ok (settled @ [(i, failed)]) ((at_tasks a)[i := t])"
      using keep that running_not_settled [OF q(2) i] by (auto simp: settled_ok_def)
    ultimately show ?thesis using q(1) ne by (auto simp: queue_ok_def a')
  qed
qed

text \<open>An attempt that resolves has recorded every recipient.\<close>

lemma resolved_all_ended:
  assumes "queue_ok a" "attempt_result a = Some result"
  shows "(\<forall>t \<in> set (at_tasks a). ended (st_phase t) \<noteq> None)
     \<and> (result = Inr () \<longrightarrow> (\<forall>t \<in> set (at_tasks a). ended (st_phase t) = Some False))"
proof (cases "at_tasks a = []")
  case False
  let ?n = "length (at_tasks a)" and ?q = "at_queue a"
  obtain settled where q: "at_answer a = None" "queue_inv [0..<?n] 1 settled ?q" "settled_ok settled (at_tasks a)"
    using assms(1) False by (auto simp: queue_ok_def)
  from assms(2) q(1) have "tq_delivered ?q \<noteq> []" by (auto simp: attempt_result_def split: list.splits)
  then obtain stats where stats: "\<not> length settled < ?n" "tq_delivered ?q = [(stats, 1)]"
      "qs_failedCount stats = length (filter snd settled)"
    using q(2) by (auto simp: queue_inv_def books_ok_def split: if_splits)
  from q(2) obtain started where st: "[0..<?n] = started @ waiting_tasks ?q"
      "mset started = mset (tq_running ?q) + mset (map fst settled)" by (auto simp: queue_inv_def)
  have "length started = length (tq_running ?q) + length settled" using arg_cong [OF st(2), of size] by simp
  moreover have "length started + length (waiting_tasks ?q) = ?n" using arg_cong [OF st(1), of length] by simp
  ultimately have "length (waiting_tasks ?q) = 0" "length (tq_running ?q) = 0" using stats(1) by linarith+
  then have "waiting_tasks ?q = []" "tq_running ?q = []" by simp_all
  then have all: "mset (map fst settled) = mset [0..<?n]" using st by simp
  then have mem: "\<exists>f. (i, f) \<in> set settled" if "i < ?n" for i
    using mset_eq_setD [OF all] that by force
  have "ended (st_phase t) \<noteq> None \<and> (result = Inr () \<longrightarrow> ended (st_phase t) = Some False)"
    if t: "t \<in> set (at_tasks a)" for t
  proof -
    obtain i where i: "i < ?n" "t = at_tasks a ! i" using t by (auto simp: in_set_conv_nth)
    then obtain f where f: "(i, f) \<in> set settled" using mem by blast
    then have "ended (st_phase t) = Some f" using q(3) i(2) by (auto simp: settled_ok_def)
    moreover have "\<not> f" if "result = Inr ()"
    proof -
      have "filter snd settled = []" using assms(2) that q(1) stats(2,3) by (auto simp: attempt_result_def split: if_splits)
      then show ?thesis using f by (auto simp: filter_empty_conv)
    qed
    ultimately show ?thesis by auto
  qed
  then show ?thesis by blast
qed simp

section \<open>Starting and stepping an attempt\<close>

lemma started_pending:
  assumes "xs \<noteq> []" "1 \<le> maxConcurrent"
  shows "fst (waitUntilFinished t (enqueue_all t xs (new_queue rateLimit maxConcurrent))) = None"
proof -
  let ?q = "enqueue_all t xs (new_queue rateLimit maxConcurrent)"
  have "filling t [] (new_queue rateLimit maxConcurrent)"
    using assms(2) by (simp add: filling_def new_queue_def waiting_tasks_def)
  from filling_all [OF this, of xs] have "filling t xs ?q" by simp
  then show ?thesis using assms(1) by (auto simp: filling_def all_started_iff waitUntilFinished_def)
qed

lemma start_send_facts: "st_toEmail (start_send persist e) = known_address e" "ended (st_phase (start_send persist e)) = None"
  by (auto simp: start_send_def known_address_def Let_def split: sum.splits)

lemma processBatch_ok:
  assumes "processBatch env persist now siteId b w = Inr a" "0 < now" "\<And>n. 1 \<le> max_concurrent env n"
  shows "attempt_ok same env w a"
proof -
  obtain eid emails where e: "batch_emails env siteId b w = Inr (eid, emails)"
    using assms(1) by (auto simp: processBatch_def)
  let ?n = "length emails"
  let ?w = "waitUntilFinished now (enqueue_all now [0..<?n] (new_queue (rate_limit env) (max_concurrent env ?n)))"
  have a: "a = \<lparr>at_batchId = b, at_emailBatchId = eid, at_tasks = map (start_send persist) emails,
      at_queue = snd ?w, at_answer = fst ?w\<rparr>"
    using assms(1) by (simp add: processBatch_def e Let_def split_def)
  have "queue_ok a"
  proof (cases "emails = []")
    case True
    then show ?thesis
      by (simp add: queue_ok_def a enqueue_all_def waitUntilFinished_def new_queue_def all_started_def getStats_def Let_def)
  next
    case False
    then have "queue_inv [0..<?n] 1 [] (snd ?w)" "fst ?w = None"
      using started_inv [OF assms(2,3) _ refl, of "[0..<?n]"] started_pending [OF _ assms(3), of "[0..<?n]"] by auto
    then show ?thesis using False by (auto simp: queue_ok_def a settled_ok_def)
  qed
  then show ?thesis
    using e start_send_facts [of persist] unfolding attempt_ok_def by (fastforce simp: a)
qed

lemma validateAndSend_ok:
  assumes "validateAndSend env persist now body siteId sender w = Inr a" "0 < now" "\<And>n. 1 \<le> max_concurrent env n"
  shows "attempt_ok same env w a \<and> (\<forall>t \<in> set (at_tasks a). \<not> is_recording t \<and> (st_phase t = Sending \<longrightarrow> st_toEmail t = []))"
proof -
  obtain s b where run: "processBatch env persist now s b w = Inr a"
    using assms(1) by (auto simp: validateAndSend_def split: option.splits list.splits)
  then obtain emails where "at_tasks a = map (start_send persist) emails"
    by (auto simp: processBatch_def split_def Let_def)
  then show ?thesis
    using processBatch_ok [OF run assms(2,3)]
    by (auto simp: start_send_def is_recording_def Let_def split: sum.splits)
qed

lemma attempt_step_world:
  assumes "attempt_step same ev a w = Some (a', w')"
  shows "mw_batches w' = mw_batches w \<and> at_batchId a' = at_batchId a
     \<and> (\<forall>b r. checkNewsletterAlreadySent same b r w \<longrightarrow> checkNewsletterAlreadySent same b r w')"
proof (cases ev)
  case (TaskReply i reply errorId now duration)
  obtain p where "send_step same (at_batchId a) (at_emailBatchId a) errorId reply (at_tasks a ! i) w = (p, w')"
    using assms TaskReply by (auto simp: task_reply_def Let_def split: if_splits prod.splits)
  note send_step_rows [OF this] sent_mono [OF this]
  moreover have "at_batchId a' = at_batchId a"
    using assms TaskReply by (auto simp: task_reply_def Let_def split: if_splits prod.splits option.splits)
  ultimately show ?thesis by blast
qed (use assms in auto)

lemma task_reply_cases:
  assumes "attempt_step same (TaskReply i reply errorId now duration) a w = Some (a', w')" "queue_ok a"
  obtains p where "i < length (at_tasks a)" "i \<in> set (tq_running (at_queue a))"
    "send_step same (at_batchId a) (at_emailBatchId a) errorId reply (at_tasks a ! i) w = (p, w')"
    "at_tasks a' = (at_tasks a)[i := (at_tasks a ! i)\<lparr>st_phase := p\<rparr>]" "queue_ok a'"
    "at_emailBatchId a' = at_emailBatchId a"
proof -
  have i: "i \<in> set (tq_running (at_queue a))" using assms(1) by (auto split: if_splits)
  obtain p w1 where p: "send_step same (at_batchId a) (at_emailBatchId a) errorId reply (at_tasks a ! i) w = (p, w1)"
    by force
  let ?t = "(at_tasks a ! i)\<lparr>st_phase := p\<rparr>"
  note q = queue_ok_reply [OF assms(2) i refl, of ?t]
  show thesis
  proof (rule that [OF running_task [OF assms(2) i] i])
    show "send_step same (at_batchId a) (at_emailBatchId a) errorId reply (at_tasks a ! i) w = (p, w')"
      "at_tasks a' = (at_tasks a)[i := ?t]" "queue_ok a'" "at_emailBatchId a' = at_emailBatchId a"
      using assms(1) i p q by (cases "ended p"; auto simp: task_reply_def Let_def simp del: send_step.simps)+
  qed
qed

lemma attempt_step_ok:
  assumes step: "attempt_step same ev a w = Some (a', w')" and ok: "attempt_ok same env w a" and same: "\<And>x. same x x"
  shows "attempt_ok same env w' a'"
proof -
  note world = attempt_step_world [OF step]
  show ?thesis
  proof (cases ev)
    case QueueTimer
    then have "w' = w" "a' = a\<lparr>at_queue := process_loop (compact (at_queue a))\<rparr>" "tq_processing (at_queue a)"
      using step by (auto split: if_splits)
    then show ?thesis using ok queue_ok_timer [of a] by (auto simp: attempt_ok_def)
  next
    case (TaskReply i reply errorId now duration)
    have "queue_ok a" using ok by (simp add: attempt_ok_def)
    from task_reply_cases [OF step [unfolded TaskReply] this] obtain p where p:
        "i < length (at_tasks a)" "send_step same (at_batchId a) (at_emailBatchId a) errorId reply (at_tasks a ! i) w = (p, w')"
        "at_tasks a' = (at_tasks a)[i := (at_tasks a ! i)\<lparr>st_phase := p\<rparr>]" "queue_ok a'"
        "at_emailBatchId a' = at_emailBatchId a" by metis
    have addresses: "map st_toEmail (at_tasks a') = map st_toEmail (at_tasks a)"
      by (simp add: p(3) map_update list_update_same_conv p(1))
    have old: "checkNewsletterAlreadySent same (at_batchId a) (st_toEmail t) w'"
      if "t \<in> set (at_tasks a)" "ended (st_phase t) = Some False" for t
      using ok that world by (auto simp: attempt_ok_def)
    have "checkNewsletterAlreadySent same (at_batchId a) (st_toEmail t) w'"
      if t: "t \<in> set (at_tasks a')" "ended (st_phase t) = Some False" for t
    proof (cases "t \<in> set (at_tasks a)")
      case True
      then show ?thesis using old t by blast
    next
      case False
      then have t': "t = (at_tasks a ! i)\<lparr>st_phase := p\<rparr>" using t(1) set_update_subset_insert p(3) by fastforce
      show ?thesis
      proof (cases "ended (st_phase (at_tasks a ! i))")
        case None
        then show ?thesis using ended_sent [OF p(2)] t(2) same by (simp add: t')
      next
        case (Some f)
        then have "p = st_phase (at_tasks a ! i)" using p(2) by (cases "st_phase (at_tasks a ! i)") auto
        then show ?thesis using False t' p(1) by simp
      qed
    qed
    then show ?thesis
      using ok world p(4,5) addresses batch_emails_world unfolding attempt_ok_def by metis
  qed
qed

section \<open>The invariant of the system\<close>

lemma mail_step_batches:
  "mail_step same env persist ev s = Some s' \<Longrightarrow> mw_batches (ms_world s') = mw_batches (ms_world s)
     \<and> (\<forall>b r. checkNewsletterAlreadySent same b r (ms_world s) \<longrightarrow> checkNewsletterAlreadySent same b r (ms_world s'))"
  by (cases ev) (auto simp: Let_def split: if_splits option.splits sum.splits dest: attempt_step_world)

lemma remove_nth_subset: "x \<in> set (remove_nth k xs) \<Longrightarrow> x \<in> set xs"
  using set_remove_nth by fast

lemma mail_step_attempts:
  assumes step: "mail_step same env persist ev s = Some s'" and ok: "\<forall>a \<in> set (ms_attempts s). attempt_ok same env (ms_world s) a"
    and same: "\<And>x. same x x" and limit: "\<And>n. 1 \<le> max_concurrent env n"
  shows "\<forall>a \<in> set (ms_attempts s'). attempt_ok same env (ms_world s') a"
proof -
  note world = mail_step_batches [OF step]
  then have keep: "attempt_ok same env (ms_world s') a" if "a \<in> set (ms_attempts s)" for a
    using ok that attempt_ok_mono by blast
  show ?thesis
  proof (cases ev)
    case (StartSend now body siteId sender)
    show ?thesis
      using step keep ok validateAndSend_ok [of env persist now body siteId sender "ms_world s", OF _ _ limit]
      by (auto simp: StartSend split: if_splits sum.splits)
  next
    case (StepSend k e)
    then obtain a' w' where a': "attempt_step same e (ms_attempts s ! k) (ms_world s) = Some (a', w')"
        "ms_attempts s' = (ms_attempts s)[k := a']" "ms_world s' = w'" "k < length (ms_attempts s)"
      using step by (auto simp: Let_def split: if_splits option.splits prod.splits)
    then have "attempt_ok same env w' a'" using ok same attempt_step_ok by (meson nth_mem)
    then show ?thesis using keep a' set_update_subset_insert by fastforce
  next
    case (FinishSend k)
    then have "set (ms_attempts s') \<subseteq> set (ms_attempts s)"
      using step set_remove_nth by (auto simp: Let_def remove_nth_subset split: if_splits option.splits)
    then show ?thesis using keep by blast
  next
    case (CrashSend k)
    then have "set (ms_attempts s') \<subseteq> set (ms_attempts s)"
      using step by (auto simp: remove_nth_subset split: if_splits)
    then show ?thesis using keep by blast
  qed
qed

definition fully_recorded :: "(jstr \<Rightarrow> jstr \<Rightarrow> bool) \<Rightarrow> (string \<Rightarrow> jstr option) \<Rightarrow> jstr \<Rightarrow> mail_world \<Rightarrow> bool" where
  "fully_recorded same env b w \<longleftrightarrow> (\<exists>siteId eid emails. batch_emails env siteId b w = Inr (eid, emails)
     \<and> (\<forall>e \<in> set emails. checkNewsletterAlreadySent same b (known_address e) w))"

lemma fully_recorded_mono:
  assumes "mw_batches w' = mw_batches w" "\<And>b r. checkNewsletterAlreadySent same b r w \<Longrightarrow> checkNewsletterAlreadySent same b r w'"
    and "fully_recorded same env b w"
  shows "fully_recorded same env b w'"
  using assms(2,3) unfolding fully_recorded_def batch_emails_world [OF assms(1)] by blast

lemma resolved_recorded:
  assumes "attempt_ok same env w a" "attempt_result a = Some (Inr ())"
  shows "fully_recorded same env (at_batchId a) w"
proof -
  obtain siteId emails where e: "batch_emails env siteId (at_batchId a) w = Inr (at_emailBatchId a, emails)"
      "map st_toEmail (at_tasks a) = map known_address emails"
    using assms(1) by (auto simp: attempt_ok_def)
  have "checkNewsletterAlreadySent same (at_batchId a) (st_toEmail t) w" if "t \<in> set (at_tasks a)" for t
    using resolved_all_ended [of a "Inr ()"] assms that by (auto simp: attempt_ok_def)
  then have "checkNewsletterAlreadySent same (at_batchId a) r w" if "r \<in> set (map known_address emails)" for r
    using that unfolding e(2) [symmetric] by auto
  then have "\<forall>e \<in> set emails. checkNewsletterAlreadySent same (at_batchId a) (known_address e) w" by simp
  then show ?thesis using e(1) unfolding fully_recorded_def by blast
qed

lemma reachable_ok:
  assumes "mail_reachable same env persist w s" "\<And>x. same x x" "\<And>n. 1 \<le> max_concurrent env n"
  shows "(\<forall>a \<in> set (ms_attempts s). attempt_ok same env (ms_world s) a)
     \<and> (\<forall>b \<in> set (ms_acked s). fully_recorded same env b (ms_world s)) \<and> mw_batches (ms_world s) = mw_batches w"
  using assms(1)
proof (induction rule: mail_reachable.induct)
  case idle
  then show ?case by (simp add: idle_system_def)
next
  case (step s ev s')
  note world = mail_step_batches [OF step.hyps(2)]
  have old: "fully_recorded same env b (ms_world s')" if "b \<in> set (ms_acked s)" for b
    using step.IH that fully_recorded_mono world by blast
  have "fully_recorded same env b (ms_world s')" if "b \<in> set (ms_acked s')" for b
  proof (cases ev)
    case (FinishSend k)
    then obtain r where r: "k < length (ms_attempts s)" "attempt_result (ms_attempts s ! k) = Some r" "ms_world s' = ms_world s"
        "ms_acked s' = ms_acked s @ (case r of Inr _ \<Rightarrow> [at_batchId (ms_attempts s ! k)] | Inl _ \<Rightarrow> [])"
      using step.hyps(2) by (auto simp: Let_def split: if_splits option.splits)
    then have "attempt_ok same env (ms_world s) (ms_attempts s ! k)" using step.IH by simp
    then show ?thesis using r that old resolved_recorded [of same env "ms_world s" "ms_attempts s ! k"]
      by (auto split: sum.splits)
  qed (use step.hyps(2) that old in \<open>auto simp: Let_def split: if_splits option.splits sum.splits prod.splits\<close>)
  then show ?case using mail_step_attempts [OF step.hyps(2)] step.IH assms(2,3) world by simp
qed

section \<open>Counting sends\<close>

text \<open>Tasks that may still reach SES, tasks whose mail is out but not yet recorded, and the rows.\<close>

definition may_send :: "(jstr \<Rightarrow> jstr \<Rightarrow> bool) \<Rightarrow> jstr \<Rightarrow> jstr \<Rightarrow> mail_world \<Rightarrow> send_task \<Rightarrow> bool" where
  "may_send same b r w t \<longleftrightarrow> st_toEmail t = r
     \<and> (st_phase t = Sending \<or> st_phase t = Checking \<and> \<not> checkNewsletterAlreadySent same b r w)"

definition can_send :: "(jstr \<Rightarrow> jstr \<Rightarrow> bool) \<Rightarrow> jstr \<Rightarrow> jstr \<Rightarrow> mail_world \<Rightarrow> attempt \<Rightarrow> nat" where
  "can_send same b r w a = (if at_batchId a = b then length (filter (may_send same b r w) (at_tasks a)) else 0)"

definition unrecorded :: "jstr \<Rightarrow> jstr \<Rightarrow> attempt \<Rightarrow> nat" where
  "unrecorded b r a = (if at_batchId a = b then length (filter (\<lambda>t. st_toEmail t = r \<and> is_recording t) (at_tasks a)) else 0)"

definition sent_rows :: "jstr \<Rightarrow> jstr \<Rightarrow> mail_world \<Rightarrow> nat" where
  "sent_rows b r w = length (filter (\<lambda>m. mr_batchId m = b \<and> mr_toEmail m = r) (mw_messages w))"

lemma can_send_mono:
  assumes "\<And>b r. checkNewsletterAlreadySent same b r w \<Longrightarrow> checkNewsletterAlreadySent same b r w'"
  shows "can_send same b r w' a \<le> can_send same b r w a"
proof -
  have "length (filter (may_send same b r w') ts) \<le> length (filter (may_send same b r w) ts)" for ts
    by (induction ts) (auto simp: may_send_def dest: assms)
  then show ?thesis by (simp add: can_send_def)
qed

lemma sent_rows_none: "sent_rows b r w \<noteq> 0 \<Longrightarrow> same r r \<Longrightarrow> checkNewsletterAlreadySent same b r w"
  by (auto simp: sent_rows_def checkNewsletterAlreadySent_def filter_empty_conv)

text \<open>One reply, seen from one task.\<close>

lemma reply_counts:
  assumes "send_step same c eid errorId reply t w = (p, w')" "t' = t\<lparr>st_phase := p\<rparr>" "ended (st_phase t) = None \<or> p = st_phase t"
  defines "A \<equiv> (if ses_accepts reply t then 1 else (0::nat))"
    and "L \<equiv> (if st_phase t = Sending \<and> (case reply of AnswerLost _ _ \<Rightarrow> True | _ \<Rightarrow> False)
               \<or> is_recording t \<and> mw_messages w' = mw_messages w then 1 else (0::nat))"
  shows "(if st_toEmail t = r then A else 0) + (if may_send same c r w t' then 1 else 0)
       \<le> (if may_send same c r w t then 1 else 0) + (if st_toEmail t = r then L else 0)" (is ?may)
    and "(if st_toEmail t = r then A else 0) + (if st_toEmail t = r \<and> is_recording t then 1 else 0) + sent_rows c r w
       \<le> (if st_toEmail t = r then L else 0) + (if st_toEmail t' = r \<and> is_recording t' then 1 else 0) + sent_rows c r w'" (is ?rows)
    and "b \<noteq> c \<Longrightarrow> sent_rows b r w' = sent_rows b r w" (is "_ \<Longrightarrow> ?other")
proof -
  have t': "st_toEmail t' = st_toEmail t" "st_phase t' = p" by (simp_all add: assms(2))
  show ?may
    using assms(1) unfolding A_def L_def may_send_def ses_accepts_def t'
    by (cases "st_phase t"; cases reply) (auto simp: is_recording_def split: sum.splits)
  note rows = send_step_rows [OF assms(1)]
  show ?rows
  proof (cases "mw_messages w' = mw_messages w")
    case True
    then have "sent_rows c r w' = sent_rows c r w" by (simp add: sent_rows_def)
    moreover consider "is_recording t" | "st_phase t = Sending" | "\<not> is_recording t" "st_phase t \<noteq> Sending" by blast
    then have "(if st_toEmail t = r then A else 0) + (if st_toEmail t = r \<and> is_recording t then 1 else 0)
       \<le> (if st_toEmail t = r then L else 0) + (if st_toEmail t' = r \<and> is_recording t' then 1 else 0)"
    proof cases
      case 1
      then have "st_phase t \<noteq> Sending" by (auto simp: is_recording_def)
      then show ?thesis using 1 True by (simp add: A_def L_def ses_accepts_def)
    next
      case 2
      then show ?thesis using assms(1) by (cases reply) (auto simp: A_def L_def ses_accepts_def t' is_recording_def)
    next
      case 3
      then show ?thesis by (simp add: A_def ses_accepts_def)
    qed
    ultimately show ?thesis by simp
  next
    case False
    then obtain row where row: "is_recording t" "mw_messages w' = mw_messages w @ [row]" "mr_batchId row = c"
        "mr_toEmail row = st_toEmail t" using rows by blast
    then have "sent_rows c r w' = sent_rows c r w + (if st_toEmail t = r then 1 else 0)" by (simp add: sent_rows_def)
    then show ?thesis
      using row(1) unfolding A_def ses_accepts_def is_recording_def by (auto split: send_phase.splits)
  qed
  show ?other if "b \<noteq> c" using rows that by (auto simp: sent_rows_def)
qed

lemma ended_stays: "send_step same c eid errorId reply t w = (p, w') \<Longrightarrow> ended (st_phase t) = None \<or> p = st_phase t"
  by (cases "st_phase t") auto

lemma attempt_counts:
  assumes step: "attempt_step same ev a w = Some (a', w')" and ok: "queue_ok a"
  shows "count_list (accepted_by ev a) (b, r) + can_send same b r w' a' \<le> can_send same b r w a + count_list (lost_by ev a w w') (b, r)"
    and "count_list (accepted_by ev a) (b, r) + unrecorded b r a + sent_rows b r w
       \<le> count_list (lost_by ev a w w') (b, r) + unrecorded b r a' + sent_rows b r w'"
proof -
  note world = attempt_step_world [OF step]
  have both: "count_list (accepted_by ev a) (b, r) + can_send same b r w a' \<le> can_send same b r w a + count_list (lost_by ev a w w') (b, r)
     \<and> count_list (accepted_by ev a) (b, r) + unrecorded b r a + sent_rows b r w
       \<le> count_list (lost_by ev a w w') (b, r) + unrecorded b r a' + sent_rows b r w'"
  proof (cases ev)
    case QueueTimer
    then have "w' = w" "at_tasks a' = at_tasks a" using step by (auto split: if_splits)
    then show ?thesis using world by (simp add: QueueTimer accepted_by_def lost_by_def can_send_def unrecorded_def)
  next
    case (TaskReply i reply errorId now duration)
    from task_reply_cases [OF step [unfolded TaskReply] ok] obtain p where p: "i < length (at_tasks a)"
        "send_step same (at_batchId a) (at_emailBatchId a) errorId reply (at_tasks a ! i) w = (p, w')"
        "at_tasks a' = (at_tasks a)[i := (at_tasks a ! i)\<lparr>st_phase := p\<rparr>]" by metis
    let ?t = "at_tasks a ! i"
    note counts = reply_counts [OF p(2) refl ended_stays [OF p(2)], where r = r]
    show ?thesis
    proof (cases "at_batchId a = b")
      case True
      have "count_list (accepted_by ev a) (b, r) = (if st_toEmail ?t = r then if ses_accepts reply ?t then 1 else 0 else 0)"
        "count_list (lost_by ev a w w') (b, r) = (if st_toEmail ?t = r then if st_phase ?t = Sending
             \<and> (case reply of AnswerLost _ _ \<Rightarrow> True | _ \<Rightarrow> False) \<or> is_recording ?t \<and> mw_messages w' = mw_messages w
           then 1 else 0 else 0)"
        using True by (auto simp: TaskReply accepted_by_def lost_by_def Let_def)
      moreover note counts(1,2)
        filter_update_length [OF p(1), of "may_send same b r w" "?t\<lparr>st_phase := p\<rparr>"]
        filter_update_length [OF p(1), of "\<lambda>t. st_toEmail t = r \<and> is_recording t" "?t\<lparr>st_phase := p\<rparr>"]
      ultimately show ?thesis
        unfolding can_send_def unrecorded_def p(3) True world [THEN conjunct2, THEN conjunct1]
        by (simp only: if_True True simp_thms) linarith
    next
      case False
      then have "count_list (accepted_by ev a) (b, r) = 0" "count_list (lost_by ev a w w') (b, r) = 0"
        by (auto simp: TaskReply accepted_by_def lost_by_def Let_def)
      then show ?thesis using counts(3) [of b] False world by (simp add: can_send_def unrecorded_def)
    qed
  qed
  then show "count_list (accepted_by ev a) (b, r) + can_send same b r w' a' \<le> can_send same b r w a + count_list (lost_by ev a w w') (b, r)"
    using can_send_mono [of same w w' b r a'] world by fastforce
  from both show "count_list (accepted_by ev a) (b, r) + unrecorded b r a + sent_rows b r w
       \<le> count_list (lost_by ev a w w') (b, r) + unrecorded b r a' + sent_rows b r w'" by blast
qed

definition send_budget :: "(jstr \<Rightarrow> jstr \<Rightarrow> bool) \<Rightarrow> jstr \<Rightarrow> jstr \<Rightarrow> mail_system \<Rightarrow> bool" where
  "send_budget same b r s \<longleftrightarrow>
     count_list (ms_accepted s) (b, r) + sum_list (map (can_send same b r (ms_world s)) (ms_attempts s))
       \<le> 1 + count_list (ms_lost s) (b, r) + count_list (ms_overlaps s) b
     \<and> count_list (ms_accepted s) (b, r)
       \<le> count_list (ms_lost s) (b, r) + sum_list (map (unrecorded b r) (ms_attempts s)) + sent_rows b r (ms_world s)"

lemma crash_count: "count_list (lost_in_crash a) (b, r) = unrecorded b r a"
proof -
  have "count_list (map (\<lambda>t. (c, st_toEmail t)) (filter is_recording ts)) (b, r)
      = (if c = b then length (filter (\<lambda>t. st_toEmail t = r \<and> is_recording t) ts) else 0)" for c ts
    by (induction ts) auto
  then show ?thesis by (simp add: lost_in_crash_def unrecorded_def)
qed

lemma can_send_sum_mono:
  assumes "\<And>b r. checkNewsletterAlreadySent same b r w \<Longrightarrow> checkNewsletterAlreadySent same b r w'"
  shows "sum_list (map (can_send same b r w') as) \<le> sum_list (map (can_send same b r w) as)"
  by (rule sum_list_mono) (rule can_send_mono [OF assms])

lemma ended_unrecorded:
  assumes "queue_ok a" "attempt_result a = Some res"
  shows "unrecorded b r a = 0"
  using resolved_all_ended [OF assms] by (auto simp: unrecorded_def is_recording_def filter_empty_conv split: send_phase.splits)

lemma no_attempt_sums:
  assumes "b \<notin> at_batchId ` set as"
  shows "sum_list (map (can_send same b r w) as) = 0" "sum_list (map (unrecorded b r) as) = 0"
  using assms by (auto simp: can_send_def unrecorded_def)

lemma new_attempt_sends:
  assumes "attempt_ok same env w a" "\<forall>t \<in> set (at_tasks a). st_phase t = Sending \<longrightarrow> st_toEmail t = []" "r \<noteq> []"
    and "\<forall>siteId eid emails. batch_emails env siteId b w = Inr (eid, emails) \<longrightarrow> count_list (map known_address emails) r \<le> 1"
  shows "can_send same b r w a \<le> (if checkNewsletterAlreadySent same b r w then 0 else 1)"
proof (cases "at_batchId a = b")
  case True
  then obtain siteId emails where "batch_emails env siteId b w = Inr (at_emailBatchId a, emails)"
      "map st_toEmail (at_tasks a) = map known_address emails"
    using assms(1) by (auto simp: attempt_ok_def)
  then have "count_list (map st_toEmail (at_tasks a)) r \<le> 1" using assms(4) by simp
  moreover have "length (filter (may_send same b r w) ts) \<le> count_list (map st_toEmail ts) r" for ts
    by (induction ts) (auto simp: may_send_def)
  moreover have "filter (may_send same b r w) (at_tasks a) = []" if "checkNewsletterAlreadySent same b r w"
    using assms(2,3) that by (auto simp: may_send_def filter_empty_conv)
  ultimately show ?thesis using True by (fastforce simp: can_send_def intro: le_trans)
qed (simp add: can_send_def)

lemma budget_step:
  assumes step: "mail_step same env persist ev s = Some s'" and budget: "send_budget same b r s"
    and ok: "\<forall>a \<in> set (ms_attempts s). attempt_ok same env (ms_world s) a"
    and same: "\<And>x. same x x" and limit: "\<And>n. 1 \<le> max_concurrent env n" and r: "r \<noteq> []"
    and once: "\<forall>siteId eid emails. batch_emails env siteId b (ms_world s) = Inr (eid, emails)
      \<longrightarrow> count_list (map known_address emails) r \<le> 1"
  shows "send_budget same b r s'"
proof (cases ev)
  case (StartSend now body siteId sender)
  show ?thesis
  proof (cases "validateAndSend env persist now body siteId sender (ms_world s)")
    case (Inl e)
    then show ?thesis using step budget by (simp add: StartSend split: if_splits)
  next
    case (Inr a)
    then have s': "s' = s\<lparr>ms_attempts := ms_attempts s @ [a],
        ms_overlaps := ms_overlaps s @ (if at_batchId a \<in> at_batchId ` set (ms_attempts s) then [at_batchId a] else [])\<rparr>" "0 < now"
      using step by (auto simp: StartSend split: if_splits)
    note a = validateAndSend_ok [OF Inr s'(2) limit, of same]
    have new: "can_send same b r (ms_world s) a \<le> (if checkNewsletterAlreadySent same b r (ms_world s) then 0 else 1)"
      using a once r by (intro new_attempt_sends) auto
    have quiet: "unrecorded b r a = 0" using a by (auto simp: unrecorded_def filter_empty_conv)
    show ?thesis
    proof (cases "b \<in> at_batchId ` set (ms_attempts s)")
      case True
      then have "at_batchId a = b \<Longrightarrow> count_list (ms_overlaps s') b = Suc (count_list (ms_overlaps s) b)" by (simp add: s'(1))
      moreover have "at_batchId a \<noteq> b \<Longrightarrow> can_send same b r (ms_world s) a = 0" by (simp add: can_send_def)
      ultimately show ?thesis using budget new quiet unfolding send_budget_def
        by (cases "at_batchId a = b") (auto simp: s'(1) split: if_splits)
    next
      case False
      have none: "sum_list (map (can_send same b r (ms_world s)) (ms_attempts s)) = 0"
        "sum_list (map (unrecorded b r) (ms_attempts s)) = 0"
        using no_attempt_sums [OF False] by blast+
      have "sent_rows b r (ms_world s) = 0" if "\<not> checkNewsletterAlreadySent same b r (ms_world s)"
        using that sent_rows_none [of b r "ms_world s" same] same by blast
      then show ?thesis using budget new quiet none False unfolding send_budget_def
        by (cases "checkNewsletterAlreadySent same b r (ms_world s)") (auto simp: s'(1) simp del: sum_list_eq_0_iff)
    qed
  qed
next
  case (StepSend k e)
  let ?a = "ms_attempts s ! k"
  obtain a' w' where k: "k < length (ms_attempts s)" and a': "attempt_step same e ?a (ms_world s) = Some (a', w')"
    and s': "s' = s\<lparr>ms_world := w', ms_attempts := (ms_attempts s)[k := a'], ms_accepted := ms_accepted s @ accepted_by e ?a,
      ms_lost := ms_lost s @ lost_by e ?a (ms_world s) w'\<rparr>"
    using step by (auto simp: StepSend Let_def split: if_splits option.splits prod.splits)
  have "queue_ok ?a" using ok k by (simp add: attempt_ok_def)
  note counts = attempt_counts [OF a' this, of b r]
  note sums = sum_list_update [OF k, of "can_send same b r w'" a'] sum_list_update [OF k, of "unrecorded b r" a']
  have mono: "sum_list (map (can_send same b r w') (ms_attempts s)) + can_send same b r (ms_world s) ?a
      \<le> sum_list (map (can_send same b r (ms_world s)) (ms_attempts s)) + can_send same b r w' ?a"
  proof -
    have w: "checkNewsletterAlreadySent same b r (ms_world s) \<Longrightarrow> checkNewsletterAlreadySent same b r w'" for b r
      using attempt_step_world [OF a'] by blast
    show ?thesis
      using can_send_sum_mono [of same "ms_world s" w', OF w, of b r "remove_nth k (ms_attempts s)"]
        sum_list_remove_nth [OF k, of "can_send same b r w'"] sum_list_remove_nth [OF k, of "can_send same b r (ms_world s)"]
      by linarith
  qed
  from budget counts sums mono show ?thesis unfolding send_budget_def s' by simp
next
  case (FinishSend k)
  let ?a = "ms_attempts s ! k"
  obtain result where k: "k < length (ms_attempts s)" "attempt_result ?a = Some result"
    "ms_attempts s' = remove_nth k (ms_attempts s)" "ms_world s' = ms_world s" "ms_accepted s' = ms_accepted s"
    "ms_lost s' = ms_lost s" "ms_overlaps s' = ms_overlaps s"
    using step by (auto simp: FinishSend Let_def split: if_splits option.splits)
  have "unrecorded b r ?a = 0" using ended_unrecorded [OF _ k(2)] ok k(1) by (simp add: attempt_ok_def)
  then show ?thesis
    using budget sum_list_remove_nth [OF k(1), of "can_send same b r (ms_world s)"] sum_list_remove_nth [OF k(1), of "unrecorded b r"]
    unfolding send_budget_def k(3-7) by linarith
next
  case (CrashSend k)
  then have k: "k < length (ms_attempts s)" "s' = s\<lparr>ms_attempts := remove_nth k (ms_attempts s),
      ms_lost := ms_lost s @ lost_in_crash (ms_attempts s ! k)\<rparr>"
    using step by (auto split: if_splits)
  then show ?thesis
    using budget sum_list_remove_nth [OF k(1), of "can_send same b r (ms_world s)"] sum_list_remove_nth [OF k(1), of "unrecorded b r"]
    unfolding send_budget_def k(2) by (simp add: crash_count)
qed

lemma reachable_budget:
  assumes "mail_reachable same env persist w s" "\<And>x. same x x" "\<And>n. 1 \<le> max_concurrent env n" "r \<noteq> []"
    and "\<forall>siteId eid emails. batch_emails env siteId b w = Inr (eid, emails) \<longrightarrow> count_list (map known_address emails) r \<le> 1"
  shows "send_budget same b r s"
  using assms(1)
proof (induction rule: mail_reachable.induct)
  case idle
  then show ?case by (simp add: idle_system_def send_budget_def)
next
  case (step s ev s')
  note ok = reachable_ok [OF step.hyps(1) assms(2,3)]
  then have "batch_emails env siteId b (ms_world s) = batch_emails env siteId b w" for siteId
    by (intro batch_emails_world) blast
  then show ?case using budget_step [OF step.hyps(2) step.IH _ assms(2,3,4)] ok assms(5) by simp
qed

text \<open>The addresses a stored batch is for; the site only tags the requests.\<close>

definition batch_addresses :: "(string \<Rightarrow> jstr option) \<Rightarrow> jstr \<Rightarrow> mail_world \<Rightarrow> jstr list" where
  "batch_addresses env b w = (case batch_emails env [] b w of Inl _ \<Rightarrow> [] | Inr (eid, emails) \<Rightarrow> map known_address emails)"

lemma prepare_receiver_site:
  "prepare_receiver env input siteId vars r = Inr e \<Longrightarrow>
     \<exists>e'. prepare_receiver env input [] vars r = Inr e' \<and> known_address e' = known_address e"
  by (auto simp: prepare_receiver_def known_address_def to_email_def simp del: get_prop.simps split: if_splits)

lemma batch_addresses_site:
  assumes "batch_emails env siteId b w = Inr (eid, emails)"
  shows "batch_addresses env b w = map known_address emails"
proof -
  obtain contents vars where c: "getNewsletterContent b w = Inr contents" "truthy contents"
      "json_parse_js (get_prop contents ''recipient-variables'') = Inr vars"
      "mapE (prepare_receiver env contents siteId vars) (receivers contents) = Inr emails"
    using assms by (auto simp: batch_emails_def preparePayload_def)
  have "\<exists>es. mapE (prepare_receiver env contents [] vars) rs = Inr es \<and> map known_address es = map known_address emails"
    if "mapE (prepare_receiver env contents siteId vars) rs = Inr emails" for rs
    using that
  proof (induction rs arbitrary: emails)
    case (Cons r rs)
    then obtain e es where "prepare_receiver env contents siteId vars r = Inr e" "emails = e # es"
        "mapE (prepare_receiver env contents siteId vars) rs = Inr es" by auto
    then show ?case using prepare_receiver_site [of env contents siteId vars r e] Cons.IH [of es] by auto
  qed simp
  from this [OF c(4)] obtain es where "batch_emails env [] b w = Inr (get_prop contents ''v:email-id'', es)"
      "map known_address es = map known_address emails"
    using c(1-3) by (auto simp: batch_emails_def preparePayload_def)
  then show ?thesis by (simp add: batch_addresses_def)
qed

section \<open>Properties\<close>

text \<open>
  C33: when the worker deletes a batch's message, every recipient of the batch has a row in
  \<^verbatim>\<open>NewsletterMessages\<close>, under any interleaving of attempts, lost answers and crashes; batch rows are
  never changed. The database's comparison of addresses may be any reflexive relation.
\<close>

theorem acknowledged_batches_are_recorded:
  assumes "mail_reachable same env persist w s" "\<forall>x. same x x" "\<forall>n. 1 \<le> max_concurrent env n"
  shows "mw_batches (ms_world s) = mw_batches w
     \<and> \<not> (\<exists>b \<in> set (ms_acked s). \<exists>r \<in> set (batch_addresses env b w). \<not> checkNewsletterAlreadySent same b r (ms_world s))"
proof -
  have same: "same x x" and limit: "1 \<le> max_concurrent env n" for x n using assms(2,3) by blast+
  note ok = reachable_ok [OF assms(1) same limit]
  have "checkNewsletterAlreadySent same b r (ms_world s)"
    if acked: "b \<in> set (ms_acked s)" "r \<in> set (batch_addresses env b w)" for b r
  proof -
    obtain siteId eid emails where e: "batch_emails env siteId b (ms_world s) = Inr (eid, emails)"
        "\<forall>e \<in> set emails. checkNewsletterAlreadySent same b (known_address e) (ms_world s)"
      using ok acked(1) unfolding fully_recorded_def by blast
    moreover have "batch_emails env siteId b w = Inr (eid, emails)"
      using e(1) ok batch_emails_world [of "ms_world s" w] by metis
    ultimately show ?thesis using acked(2) batch_addresses_site [of env siteId b w eid emails] by auto
  qed
  then show ?thesis using ok by blast
qed

text \<open>
  C6: how often SES is made to accept a mail for one recipient of a batch that lists the address once:
  at most once, plus once for every accepted mail whose row never was written (a lost answer, a failed
  write or a crash between the two), plus once for every attempt that was started while another attempt
  at the batch was still running. Without losses and overlaps nobody gets the newsletter twice, however
  often the message is redelivered.
\<close>

theorem recipient_mailed_at_most_once_more_than_lost:
  assumes "mail_reachable same env persist w s" "\<forall>x. same x x" "\<forall>n. 1 \<le> max_concurrent env n" "r \<noteq> []"
    and "count_list (batch_addresses env b w) r \<le> 1"
  shows "count_list (ms_accepted s) (b, r) \<le> 1 + count_list (ms_lost s) (b, r) + count_list (ms_overlaps s) b"
proof -
  have same: "same x x" and limit: "1 \<le> max_concurrent env n" for x n using assms(2,3) by blast+
  have "\<forall>siteId eid emails. batch_emails env siteId b w = Inr (eid, emails) \<longrightarrow> count_list (map known_address emails) r \<le> 1"
    using assms(5) batch_addresses_site by metis
  from reachable_budget [OF assms(1) same limit assms(4) this] show ?thesis unfolding send_budget_def by linarith
qed

text \<open>
  One recipient; SES takes the mail of the first attempt but its row is not written, so the message
  comes back. The second attempt sends again, records and is acknowledged: two mails, one loss.
\<close>

definition example_variables :: js where
  "example_variables = obj [(''a'', JObj ObjectProto [])]"

definition example_letter :: js where
  "example_letter = obj [(''to'', JStr (lit ''a'')), (''text'', JStr []), (''html'', JStr []),
     (''recipient-variables'', JStr (json_text example_variables))]"

definition example_world :: mail_world where
  "example_world = \<lparr>mw_batches = [\<lparr>br_id = lit ''b1'', br_siteId = lit ''s1'', br_batchId = lit ''e1'',
     br_contents = the (safeStringify example_letter), br_fromEmail = lit ''f''\<rparr>], mw_messages = [], mw_errors = [], mw_queued = []\<rparr>"

definition example_email :: "jstr \<Rightarrow> prepared_email" where
  "example_email siteId = \<lparr>pe_request = email_request (\<lambda>_. None) example_letter siteId (JStr (lit ''a'')) (JStr []) (JStr []) (lit ''undefined''),
     pe_recipientVariables = JObj ObjectProto []\<rparr>"

lemma example_emails:
  "batch_emails (\<lambda>_. None) siteId (lit ''b1'') example_world = Inr (JUndef, [example_email siteId])"
proof -
  have plain: "plain example_letter" "plain example_variables" by (simp_all add: example_letter_def example_variables_def)
  have "\<not> index_key (lit ''to'')" "\<not> index_key (lit ''text'')" "\<not> index_key (lit ''html'')"
    "\<not> index_key (lit ''recipient-variables'')" by code_simp+
  then have "ordered example_letter = example_letter" by (simp add: example_letter_def key_order_def)
  then obtain t where t: "safeStringify example_letter = Some t" "json_parse t = Some example_letter"
    using safeStringify_parses [OF plain(1)] by metis
  have "t \<noteq> []" using t(2) by (auto simp: json_parse_def)
  then have "getNewsletterContent (lit ''b1'') example_world = Inr example_letter"
    by (simp add: getNewsletterContent_def example_world_def t)
  moreover have "json_parse (json_text example_variables) = Some example_variables"
    by (rule json_parse_text [OF plain(2)])
  ultimately show ?thesis
    by (simp add: batch_emails_def preparePayload_def json_parse_js_def receivers_def prepare_receiver_def example_letter_def
        example_variables_def example_email_def doSubstitution_def key_order_def)
qed

definition example_queue :: "nat task_queue" where
  "example_queue = snd (waitUntilFinished 5 (enqueue_all 5 [0..<1] (new_queue 20 100)))"

definition example_attempt :: "js \<Rightarrow> jstr \<Rightarrow> attempt" where
  "example_attempt request recipientData = \<lparr>at_batchId = lit ''b1'', at_emailBatchId = JUndef,
     at_tasks = [\<lparr>st_request = request, st_toEmail = lit ''a'', st_recipientData = recipientData, st_formatedContents = [], st_phase = Checking\<rparr>],
     at_queue = example_queue, at_answer = None\<rparr>"

lemma validateAndSend_complete:
  "b \<noteq> [] \<Longrightarrow> s \<noteq> [] \<Longrightarrow> f \<noteq> [] \<Longrightarrow>
     validateAndSend env persist now (Some b) (Some s) (Some f) w = processBatch env persist now s b w"
  by (cases b; cases s; cases f) (simp_all add: validateAndSend_def)

lemma example_start:
  "\<exists>request recipientData. validateAndSend (\<lambda>_. None) False 5 (Some (lit ''b1'')) (Some (lit ''s1'')) (Some (lit ''f'')) example_world
     = Inr (example_attempt request recipientData)"
proof -
  have queue: "waitUntilFinished 5 (enqueue_all 5 [0..<1] (new_queue 20 100)) = (None, example_queue)"
    using started_pending [of "[0..<1]" 100 5 20] by (simp add: example_queue_def prod_eq_iff)
  have limits: "rate_limit (\<lambda>_. None) = 20" "max_concurrent (\<lambda>_. None) 1 = 100" by code_simp+
  obtain request recipientData where "start_send False (example_email (lit ''s1'')) = \<lparr>st_request = request, st_toEmail = lit ''a'',
     st_recipientData = recipientData, st_formatedContents = [], st_phase = Checking\<rparr>"
    by (simp add: start_send_def to_email_def example_email_def lit_def Let_def)
  then have "processBatch (\<lambda>_. None) False 5 (lit ''s1'') (lit ''b1'') example_world = Inr (example_attempt request recipientData)"
    using queue limits by (simp add: processBatch_def example_emails example_attempt_def)
  then show ?thesis using validateAndSend_complete [of "lit ''b1''" "lit ''s1''" "lit ''f''"] by (auto simp: lit_def)
qed

definition first_delivery :: "mail_event list" where
  "first_delivery = [StepSend 0 (TaskReply 0 (Answers JUndef) [] 9 3), StepSend 0 (TaskReply 0 (Answers (JStr (lit ''m1''))) [] 9 3),
     StepSend 0 (TaskReply 0 (Fails (Error ''P1001'')) [] 9 3), StepSend 0 QueueTimer, FinishSend 0]"

definition second_delivery :: "mail_event list" where
  "second_delivery = [StepSend 0 (TaskReply 0 (Answers JUndef) [] 9 3), StepSend 0 (TaskReply 0 (Answers (JStr (lit ''m2''))) [] 9 3),
     StepSend 0 (TaskReply 0 (Answers JUndef) [] 9 3), StepSend 0 QueueTimer, FinishSend 0]"

fun run_mail :: "(jstr \<Rightarrow> jstr \<Rightarrow> bool) \<Rightarrow> (string \<Rightarrow> jstr option) \<Rightarrow> bool \<Rightarrow> mail_event list \<Rightarrow> mail_system \<Rightarrow> mail_system option" where
  "run_mail same env persist [] s = Some s"
| "run_mail same env persist (e # es) s = (case mail_step same env persist e s of
     None \<Rightarrow> None | Some s' \<Rightarrow> run_mail same env persist es s')"

lemma run_mail_reachable:
  "run_mail same env persist es s = Some s' \<Longrightarrow> mail_reachable same env persist w s \<Longrightarrow> mail_reachable same env persist w s'"
  by (induction es arbitrary: s) (auto split: option.splits intro: mail_reachable.step)

definition world_of :: "jstr \<Rightarrow> mail_world" where
  "world_of contents = \<lparr>mw_batches = [\<lparr>br_id = lit ''b1'', br_siteId = lit ''s1'', br_batchId = lit ''e1'',
     br_contents = contents, br_fromEmail = lit ''f''\<rparr>], mw_messages = [], mw_errors = [], mw_queued = []\<rparr>"

definition delivering :: "jstr \<Rightarrow> attempt list \<Rightarrow> nat \<Rightarrow> mail_system" where
  "delivering contents as n = \<lparr>ms_world = world_of contents, ms_attempts = as, ms_accepted = replicate n (lit ''b1'', lit ''a''),
     ms_lost = replicate n (lit ''b1'', lit ''a''), ms_overlaps = [], ms_acked = []\<rparr>"

lemma example_first:
  "run_mail (=) (\<lambda>_. None) False first_delivery (delivering c [example_attempt q d] 0) = Some (delivering c [] 1)"
  by code_simp

lemma example_second:
  "map_option (\<lambda>s. (ms_acked s, ms_accepted s, ms_lost s, ms_overlaps s))
     (run_mail (=) (\<lambda>_. None) False second_delivery (delivering c [example_attempt q d] 1))
   = Some ([lit ''b1''], [(lit ''b1'', lit ''a''), (lit ''b1'', lit ''a'')], [(lit ''b1'', lit ''a'')], [])"
  by code_simp

lemma two_deliveries:
  "\<exists>s. mail_reachable (=) (\<lambda>_. None) False example_world s \<and> ms_acked s = [lit ''b1'']
     \<and> ms_accepted s = [(lit ''b1'', lit ''a''), (lit ''b1'', lit ''a'')] \<and> ms_lost s = [(lit ''b1'', lit ''a'')] \<and> ms_overlaps s = []"
proof -
  let ?start = "StartSend 5 (Some (lit ''b1'')) (Some (lit ''s1'')) (Some (lit ''f''))"
  let ?c = "the (safeStringify example_letter)"
  have world: "example_world = world_of ?c" by (simp add: example_world_def world_of_def)
  obtain q d where a: "validateAndSend (\<lambda>_. None) False 5 (Some (lit ''b1'')) (Some (lit ''s1'')) (Some (lit ''f'')) example_world
      = Inr (example_attempt q d)" using example_start by blast
  have start: "mail_step (=) (\<lambda>_. None) False ?start (delivering ?c [] n) = Some (delivering ?c [example_attempt q d] n)" for n
    using a by (simp add: delivering_def world)
  have "mail_reachable (=) (\<lambda>_. None) False example_world (delivering ?c [] 0)"
    using mail_reachable.idle [of "(=)" "\<lambda>_. None" False example_world] by (simp add: idle_system_def delivering_def world)
  then have "mail_reachable (=) (\<lambda>_. None) False example_world (delivering ?c [example_attempt q d] 0)"
    using start by (rule mail_reachable.step)
  with example_first have "mail_reachable (=) (\<lambda>_. None) False example_world (delivering ?c [] 1)"
    by (rule run_mail_reachable)
  then have again: "mail_reachable (=) (\<lambda>_. None) False example_world (delivering ?c [example_attempt q d] 1)"
    using start by (rule mail_reachable.step)
  obtain s where s: "run_mail (=) (\<lambda>_. None) False second_delivery (delivering ?c [example_attempt q d] 1) = Some s"
      "ms_acked s = [lit ''b1'']" "ms_accepted s = [(lit ''b1'', lit ''a''), (lit ''b1'', lit ''a'')]"
      "ms_lost s = [(lit ''b1'', lit ''a'')]" "ms_overlaps s = []"
    using example_second [of ?c q d] by auto
  then show ?thesis using run_mail_reachable [OF s(1) again] by blast
qed

lemma example_limits: "\<forall>n. 1 \<le> max_concurrent (\<lambda>_. None) n"
proof -
  have "number_or (env_number (\<lambda>_. None) ''MAX_CONCURRENT'') 100 = Fin 100" by code_simp
  then show ?thesis by (simp add: max_concurrent_def)
qed

lemma example_addresses: "batch_addresses (\<lambda>_. None) (lit ''b1'') example_world = [lit ''a'']"
  by (simp add: batch_addresses_def example_emails known_address_def to_email_def example_email_def)

theorem acknowledged_batches_are_recorded_witness:
  "\<exists>w. checkNewsletterAlreadySent (=) (lit ''b1'') (lit ''a'') w \<and> length (mw_batches w) = 1"
proof -
  obtain s where s: "mail_reachable (=) (\<lambda>_. None) False example_world s" "ms_acked s = [lit ''b1'']"
    using two_deliveries by blast
  have "\<forall>x::jstr. x = x" by simp
  from acknowledged_batches_are_recorded [OF s(1) this example_limits]
  show ?thesis by (intro exI [of _ "ms_world s"]) (simp add: s(2) example_addresses, simp add: example_world_def)
qed

theorem recipient_mailed_at_most_once_more_than_lost_witness:
  "\<exists>s. mail_reachable (=) (\<lambda>_. None) False example_world s \<and> count_list (ms_accepted s) (lit ''b1'', lit ''a'') = 2
     \<and> count_list (ms_accepted s) (lit ''b1'', lit ''a'') \<le> 1 + 1 + (0::nat)"
proof -
  obtain s where s: "mail_reachable (=) (\<lambda>_. None) False example_world s"
      "ms_accepted s = [(lit ''b1'', lit ''a''), (lit ''b1'', lit ''a'')]" "ms_lost s = [(lit ''b1'', lit ''a'')]" "ms_overlaps s = []"
    using two_deliveries by blast
  have "\<forall>x::jstr. x = x" "lit ''a'' \<noteq> []" "count_list (batch_addresses (\<lambda>_. None) (lit ''b1'') example_world) (lit ''a'') \<le> 1"
    using example_addresses by (simp, simp add: lit_def, simp)
  from recipient_mailed_at_most_once_more_than_lost [OF s(1) this(1) example_limits this(2,3)]
  show ?thesis using s by (intro exI [of _ s]) simp
qed

end
