(* ===== verification/EventProcessor.thy ===== *)
theory EventProcessor
  imports MailText JsDate
begin

text \<open>
  SES notifications: reading one (\<^verbatim>\<open>parseNotificationEvent\<close> of lib/core/aws-utils.ts), the handler
  every event queue uses (lib/core/event-processor.ts with service/events-service/index.ts and
  service/system-email-notification.ts) and its rows (service/database/db.ts), the reconciliation of
  orphans included. Text dates outside the format \<^verbatim>\<open>Date\<close> prints, and the text of a built-in function,
  are left to the engine: \<open>date_of\<close> and \<open>native_text\<close>.
\<close>

section \<open>Reading a notification\<close>

record notification_event =
  ne_notificationId :: jstr
  ne_type :: jstr
  ne_newsletter :: bool
  ne_transactional :: bool
  ne_messageId :: js
  ne_timestamp :: int
  ne_raw :: jstr

definition awsToMailgunType :: "(string \<times> string) list" where
  "awsToMailgunType = [(''Reject'', ''Rejected''), (''Bounce'', ''Failed''), (''Complaint'', ''Complained''),
     (''Subscription'', ''Unsubscribed''), (''Click'', ''Clicked''), (''Open'', ''Opened''),
     (''RenderingFailure'', ''Rejected''), (''Delivery'', ''Delivered''), (''Send'', ''Accepted'')]"

definition ascii_lower :: "jstr \<Rightarrow> jstr" where
  "ascii_lower = map (\<lambda>c. if 65 \<le> unat c \<and> unat c \<le> 90 then c + 32 else c)"

text \<open>\<^verbatim>\<open>String(awsToMailgunType[key] || "unknown").toLocaleLowerCase()\<close>.\<close>

definition event_type :: "(jstr \<Rightarrow> jstr) \<Rightarrow> jstr \<Rightarrow> jstr" where
  "event_type native_text key = ascii_lower
     (case map_of (map (\<lambda>(k, v). (lit k, v)) awsToMailgunType) key of
        Some v \<Rightarrow> lit v
      | None \<Rightarrow> (case inherited key of
          JUndef \<Rightarrow> lit ''unknown'' | JFun \<Rightarrow> native_text key | _ \<Rightarrow> lit ''[object Object]''))"

text \<open>A property read that throws on \<^verbatim>\<open>undefined\<close> and \<^verbatim>\<open>null\<close>, and \<^verbatim>\<open>v?.k\<close>.\<close>

definition read_prop :: "js \<Rightarrow> string \<Rightarrow> js res" where
  "read_prop v k = (if v = JUndef \<or> v = JNull then type_error else Inr (get_prop v k))"

text \<open>\<^verbatim>\<open>v?.length > 0\<close>; an array or an object is compared through its text.\<close>

fun positive :: "js \<Rightarrow> bool res" where
  "positive (JNum x) = Inr (case x of Fin r \<Rightarrow> r > 0 | PInf \<Rightarrow> True | _ \<Rightarrow> False)"
| "positive (JBool b) = Inr b"
| "positive JUndef = Inr False"
| "positive JNull = Inr False"
| "positive v = bindE (js_to_string v) (\<lambda>s.
     Inr (case string_to_number s of Fin r \<Rightarrow> r > 0 | PInf \<Rightarrow> True | _ \<Rightarrow> False))"

fun has_length :: "js \<Rightarrow> bool res" where
  "has_length (JArr vs) = Inr (vs \<noteq> [])"
| "has_length (JStr s) = Inr (s \<noteq> [])"
| "has_length v = positive (get_prop v ''length'')"

text \<open>\<^verbatim>\<open>new Date(value)\<close>: a number is clipped to the range of dates.\<close>

definition time_clip :: "rat \<Rightarrow> int option" where
  "time_clip r = (if \<bar>r\<bar> > 8640000000000000 then None else Some (if r < 0 then \<lceil>r\<rceil> else \<lfloor>r\<rfloor>))"

fun new_date :: "(jstr \<Rightarrow> int option) \<Rightarrow> js \<Rightarrow> int option res" where
  "new_date date_of (JNum x) = Inr (case x of Fin r \<Rightarrow> time_clip r | _ \<Rightarrow> None)"
| "new_date date_of (JBool b) = Inr (Some (if b then 1 else 0))"
| "new_date date_of v = bindE (js_to_string v) (\<lambda>s. Inr (date_of s))"

definition normalizeEventTimestamp :: "(jstr \<Rightarrow> int option) \<Rightarrow> js \<Rightarrow> int \<Rightarrow> int res" where
  "normalizeEventTimestamp date_of v now =
     (if \<not> truthy v then Inr now
      else bindE (new_date date_of v) (\<lambda>d. Inr (case d of None \<Rightarrow> now | Some t \<Rightarrow> t)))"

definition parse_text :: "jstr \<Rightarrow> js res" where
  "parse_text s = (case json_parse s of None \<Rightarrow> Inl (Error ''SyntaxError'') | Some v \<Rightarrow> Inr v)"

definition unwrap_sns :: "js \<Rightarrow> js res" where
  "unwrap_sns parsed = bindE (read_prop parsed ''Type'') (\<lambda>t.
     if t = JStr (lit ''Notification'') then json_parse_js (get_prop parsed ''Message'') else Inr parsed)"

definition parseNotificationEvent ::
  "(jstr \<Rightarrow> jstr) \<Rightarrow> (jstr \<Rightarrow> int option) \<Rightarrow> int \<Rightarrow> jstr \<Rightarrow> jstr \<Rightarrow> notification_event res" where
  "parseNotificationEvent native_text date_of now messageId inputEvent =
     bindE (parse_text inputEvent) (\<lambda>parsed.
     bindE (unwrap_sns parsed) (\<lambda>event.
     bindE (read_prop event ''eventType'') (\<lambda>et.
     bindE (js_to_string et) (\<lambda>key.
     bindE (Inr (get_prop event ''mail'')) (\<lambda>mail.
     bindE (read_prop mail ''messageId'') (\<lambda>mid.
     bindE (has_length (get_prop (get_prop mail ''tags'') ''ghost-email'')) (\<lambda>newsletter.
     bindE (has_length (get_prop (get_prop mail ''tags'') ''transactional-email'')) (\<lambda>transactional.
     bindE (normalizeEventTimestamp date_of
        (let opened = get_prop (get_prop event ''open'') ''timestamp''
         in if truthy opened then opened else get_prop mail ''timestamp'') now) (\<lambda>timestamp.
       Inr \<lparr>ne_notificationId = messageId, ne_type = event_type native_text key, ne_newsletter = newsletter,
            ne_transactional = transactional, ne_messageId = mid, ne_timestamp = timestamp, ne_raw = inputEvent\<rparr>)))))))))"

section \<open>Rows\<close>

record notification_row =
  nr_id :: jstr
  nr_notificationId :: jstr
  nr_messageId :: jstr
  nr_type :: jstr
  nr_rawEvent :: jstr
  nr_timestamp :: int
  nr_created :: int

record orphan_row =
  or_id :: jstr
  or_notificationId :: jstr
  or_messageId :: jstr
  or_type :: jstr
  or_rawEvent :: jstr
  or_timestamp :: int
  or_reason :: jstr
  or_reconciledAt :: "int option"

text \<open>The message ids with a newsletter or a system mail, and the three tables of notifications.\<close>

record event_store =
  es_newsletters :: "jstr list"
  es_systemMails :: "jstr list"
  es_notifications :: "notification_row list"
  es_systemNotifications :: "notification_row list"
  es_orphans :: "orphan_row list"

section \<open>The database calls\<close>

text \<open>Exceptions are values here: the handler looks into what the database threw.\<close>

type_synonym 'a db = "js + 'a"

definition prisma_failure :: "string \<Rightarrow> 'a db" where
  "prisma_failure code = Inl (obj [(''code'', JStr (lit code))])"

text \<open>A violated foreign key: Prisma names the field.\<close>

definition foreign_key_failure :: "'a db" where
  "foreign_key_failure = Inl (obj [(''code'', JStr (lit ''P2003'')), (''meta'', obj [(''field_name'', JStr (lit ''messageId''))])])"

definition isNewsletterNotificationForeignKeyError :: "js \<Rightarrow> bool" where
  "isNewsletterNotificationForeignKeyError e \<longleftrightarrow>
     is_object e \<and> get_prop e ''code'' = JStr (lit ''P2003'') \<and> is_object (get_prop e ''meta'')
     \<and> (case get_prop (get_prop e ''meta'') ''field_name'' of JStr s \<Rightarrow> s \<noteq> [] | _ \<Rightarrow> False)"

definition lookup_in :: "jstr list \<Rightarrow> js \<Rightarrow> bool db" where
  "lookup_in ids messageId = (case messageId of JStr m \<Rightarrow> Inr (m \<in> set ids) | _ \<Rightarrow> prisma_failure ''PrismaClientValidationError'')"

definition getNewsletterMessage :: "js \<Rightarrow> event_store \<Rightarrow> bool db" where
  "getNewsletterMessage messageId s = lookup_in (es_newsletters s) messageId"

definition getSystemMessage :: "js \<Rightarrow> event_store \<Rightarrow> bool db" where
  "getSystemMessage messageId s = lookup_in (es_systemMails s) messageId"

text \<open>
  Prisma's \<^verbatim>\<open>upsert\<close> by a unique key: the row that has it is updated, otherwise one is created. A fresh
  \<open>id\<close> and the time are the database's.
\<close>

definition upsert_row :: "('r \<Rightarrow> jstr) \<Rightarrow> jstr \<Rightarrow> ('r \<Rightarrow> 'r) \<Rightarrow> 'r \<Rightarrow> 'r list \<Rightarrow> 'r list" where
  "upsert_row key k put new rows =
     (if k \<in> key ` set rows then map (\<lambda>r. if key r = k then put r else r) rows else rows @ [new])"

definition upsert_notification ::
  "jstr list \<Rightarrow> jstr \<times> int \<Rightarrow> jstr \<Rightarrow> js \<Rightarrow> jstr \<Rightarrow> jstr \<Rightarrow> int \<Rightarrow> notification_row list \<Rightarrow> notification_row list db" where
  "upsert_notification parents fresh notificationId messageId type raw timestamp rows = (case messageId of
     JStr m \<Rightarrow>
       if m \<notin> set parents then foreign_key_failure
       else Inr (upsert_row nr_notificationId notificationId
         (\<lambda>r. r\<lparr>nr_messageId := m, nr_type := type, nr_rawEvent := raw, nr_timestamp := timestamp\<rparr>)
         \<lparr>nr_id = fst fresh, nr_notificationId = notificationId, nr_messageId = m, nr_type = type,
          nr_rawEvent = raw, nr_timestamp = timestamp, nr_created = snd fresh\<rparr> rows)
   | _ \<Rightarrow> prisma_failure ''PrismaClientValidationError'')"

definition saveNewsletterNotification :: "jstr \<times> int \<Rightarrow> notification_event \<Rightarrow> event_store \<Rightarrow> event_store db" where
  "saveNewsletterNotification fresh ev s = bindE
     (upsert_notification (es_newsletters s) fresh (ne_notificationId ev) (ne_messageId ev) (ne_type ev) (ne_raw ev)
        (ne_timestamp ev) (es_notifications s))
     (\<lambda>rows. Inr (s\<lparr>es_notifications := rows\<rparr>))"

definition saveSystemEmailEvent :: "jstr \<times> int \<Rightarrow> notification_event \<Rightarrow> event_store \<Rightarrow> event_store db" where
  "saveSystemEmailEvent fresh ev s = bindE
     (upsert_notification (es_systemMails s) fresh (ne_notificationId ev) (ne_messageId ev) (ne_type ev) (ne_raw ev)
        (ne_timestamp ev) (es_systemNotifications s))
     (\<lambda>rows. Inr (s\<lparr>es_systemNotifications := rows\<rparr>))"

definition saveNewsletterNotificationOrphan :: "jstr \<times> int \<Rightarrow> notification_event \<Rightarrow> event_store \<Rightarrow> event_store db" where
  "saveNewsletterNotificationOrphan fresh ev s = (case ne_messageId ev of
     JStr m \<Rightarrow> Inr (s\<lparr>es_orphans := upsert_row or_notificationId (ne_notificationId ev)
         (\<lambda>r. r\<lparr>or_messageId := m, or_type := ne_type ev, or_rawEvent := ne_raw ev, or_timestamp := ne_timestamp ev,
               or_reason := lit ''missing_parent''\<rparr>)
         \<lparr>or_id = fst fresh, or_notificationId = ne_notificationId ev, or_messageId = m, or_type = ne_type ev,
          or_rawEvent = ne_raw ev, or_timestamp = ne_timestamp ev, or_reason = lit ''missing_parent'', or_reconciledAt = None\<rparr>
         (es_orphans s)\<rparr>)
   | _ \<Rightarrow> prisma_failure ''PrismaClientValidationError'')"

section \<open>Reconciling an orphan\<close>

datatype reconciliation = Absent | ParentMissing | Reconciled | AlreadyReconciled

text \<open>One transaction: a failed upsert leaves the store as it was.\<close>

definition reconcileNewsletterNotificationOrphan ::
  "jstr \<times> int \<Rightarrow> int \<Rightarrow> jstr \<Rightarrow> event_store \<Rightarrow> (reconciliation \<times> event_store) db" where
  "reconcileNewsletterNotificationOrphan fresh now notificationId s =
     (case filter (\<lambda>r. or_notificationId r = notificationId) (es_orphans s) of
        [] \<Rightarrow> Inr (Absent, s)
      | orphan # _ \<Rightarrow>
          if or_reconciledAt orphan \<noteq> None then Inr (AlreadyReconciled, s)
          else if or_messageId orphan \<notin> set (es_newsletters s) then Inr (ParentMissing, s)
          else bindE (upsert_notification (es_newsletters s) fresh (or_notificationId orphan) (JStr (or_messageId orphan))
                 (or_type orphan) (or_rawEvent orphan) (or_timestamp orphan) (es_notifications s)) (\<lambda>rows.
            Inr (Reconciled, s\<lparr>es_notifications := rows,
              es_orphans := map (\<lambda>r. if or_id r = or_id orphan then r\<lparr>or_reconciledAt := Some now\<rparr> else r) (es_orphans s)\<rparr>)))"

section \<open>The handler\<close>

text \<open>What a queue configures; \<^verbatim>\<open>persistMissingParentNotification\<close> and the error test are optional.\<close>

record 's event_config =
  ec_lookup :: "js \<Rightarrow> 's \<Rightarrow> bool db"
  ec_save :: "jstr \<times> int \<Rightarrow> notification_event \<Rightarrow> 's \<Rightarrow> 's db"
  ec_persist :: "(jstr \<times> int \<Rightarrow> notification_event \<Rightarrow> 's \<Rightarrow> 's db) option"
  ec_missing :: "(js \<Rightarrow> bool) option"

definition newsletter_events :: "event_store event_config" where
  "newsletter_events = \<lparr>ec_lookup = getNewsletterMessage, ec_save = saveNewsletterNotification,
     ec_persist = Some saveNewsletterNotificationOrphan, ec_missing = Some isNewsletterNotificationForeignKeyError\<rparr>"

definition system_events :: "event_store event_config" where
  "system_events = \<lparr>ec_lookup = getSystemMessage, ec_save = saveSystemEmailEvent, ec_persist = None, ec_missing = None\<rparr>"

datatype handler_error = Failure exn | DbError js | TrackedEventMessageMissing

datatype event_phase =
    LookingUp notification_event
  | Saving notification_event
  | Persisting notification_event
  | Acked "notification_event option"
  | Refused handler_error

text \<open>The handler up to its first await; an untracked event is acknowledged there.\<close>

definition start_event :: "(jstr \<Rightarrow> jstr) \<Rightarrow> (jstr \<Rightarrow> int option) \<Rightarrow> int \<Rightarrow> jstr option \<Rightarrow> jstr option \<Rightarrow> event_phase" where
  "start_event native_text date_of now body messageId = (case (body, messageId) of
     (Some (b # bs), Some (m # ms)) \<Rightarrow>
       (case parseNotificationEvent native_text date_of now (m # ms) (b # bs) of
          Inl e \<Rightarrow> Refused (Failure e)
        | Inr ev \<Rightarrow> if \<not> ne_newsletter ev \<and> \<not> ne_transactional ev then Acked None else LookingUp ev)
   | _ \<Rightarrow> Refused (Failure (Error ''Invalid SQS event message'')))"

text \<open>A database call fails before it does anything, happens, or happens without its answer arriving.\<close>

datatype db_reply = DbFails js | DbAnswers | DbAnswerLost js

definition missing_parent :: "'s event_config \<Rightarrow> notification_event \<Rightarrow> event_phase" where
  "missing_parent cfg ev = (case ec_persist cfg of None \<Rightarrow> Refused TrackedEventMessageMissing | Some _ \<Rightarrow> Persisting ev)"

definition save_failed :: "'s event_config \<Rightarrow> notification_event \<Rightarrow> js \<Rightarrow> event_phase" where
  "save_failed cfg ev e =
     (if ec_persist cfg \<noteq> None \<and> (case ec_missing cfg of None \<Rightarrow> False | Some is_missing \<Rightarrow> is_missing e)
      then missing_parent cfg ev else Refused (DbError e))"

fun event_step :: "'s event_config \<Rightarrow> jstr \<times> int \<Rightarrow> db_reply \<Rightarrow> event_phase \<Rightarrow> 's \<Rightarrow> (event_phase \<times> 's) option" where
  "event_step cfg fresh reply (LookingUp ev) s = Some (case (reply, ec_lookup cfg (ne_messageId ev) s) of
      (DbFails e, _) \<Rightarrow> (Refused (DbError e), s)
    | (_, Inl e) \<Rightarrow> (Refused (DbError e), s)
    | (DbAnswerLost e, _) \<Rightarrow> (Refused (DbError e), s)
    | (DbAnswers, Inr found) \<Rightarrow> (if found then Saving ev else missing_parent cfg ev, s))"
| "event_step cfg fresh reply (Saving ev) s = Some (case (reply, ec_save cfg fresh ev s) of
      (DbFails e, _) \<Rightarrow> (save_failed cfg ev e, s)
    | (_, Inl e) \<Rightarrow> (save_failed cfg ev e, s)
    | (DbAnswerLost e, Inr s') \<Rightarrow> (save_failed cfg ev e, s')
    | (DbAnswers, Inr s') \<Rightarrow> (Acked (Some ev), s'))"
| "event_step cfg fresh reply (Persisting ev) s = (case ec_persist cfg of None \<Rightarrow> None | Some persist \<Rightarrow>
     Some (case (reply, persist fresh ev s) of
      (DbFails e, _) \<Rightarrow> (Refused (DbError e), s)
    | (_, Inl e) \<Rightarrow> (Refused (DbError e), s)
    | (DbAnswerLost e, Inr s') \<Rightarrow> (Refused (DbError e), s')
    | (DbAnswers, Inr s') \<Rightarrow> (Acked (Some ev), s')))"
| "event_step cfg fresh reply p s = None"

section \<open>What an acknowledgement promises\<close>

text \<open>
  The contract between the handler and a queue's tables: after a successful write the store holds the
  event.
\<close>

locale event_contract =
  fixes cfg :: "'s event_config" and holds :: "notification_event \<Rightarrow> 's \<Rightarrow> bool"
  assumes save_holds: "ec_save cfg fresh ev s = Inr s' \<Longrightarrow> holds ev s'"
    and persist_holds: "ec_persist cfg = Some persist \<Longrightarrow> persist fresh ev s = Inr s' \<Longrightarrow> holds ev s'"
    and save_keeps: "ec_save cfg fresh ev s = Inr s' \<Longrightarrow> holds ev' s \<Longrightarrow> ne_notificationId ev' \<noteq> ne_notificationId ev \<Longrightarrow> holds ev' s'"
    and persist_keeps: "ec_persist cfg = Some persist \<Longrightarrow> persist fresh ev s = Inr s' \<Longrightarrow> holds ev' s
      \<Longrightarrow> ne_notificationId ev' \<noteq> ne_notificationId ev \<Longrightarrow> holds ev' s'"
begin

lemma acked_holds: "event_step cfg fresh reply p s = Some (Acked (Some ev), s') \<Longrightarrow> holds ev s'"
  by (cases p) (auto simp: missing_parent_def save_failed_def save_holds persist_holds
      split: db_reply.splits sum.splits option.splits if_splits)

text \<open>A step for another notification does not disturb what is held.\<close>

definition concerns :: "event_phase \<Rightarrow> notification_event \<Rightarrow> bool" where
  "concerns p ev \<longleftrightarrow> p = LookingUp ev \<or> p = Saving ev \<or> p = Persisting ev"

lemma other_step_keeps:
  assumes "event_step cfg fresh reply p s = Some (p', s')" "holds ev s"
    and "\<And>ev'. concerns p ev' \<Longrightarrow> ne_notificationId ev' \<noteq> ne_notificationId ev"
  shows "holds ev s'"
proof (cases p)
  case (Saving ev')
  then have "s' = s \<or> ec_save cfg fresh ev' s = Inr s'"
    using assms(1) by (auto split: db_reply.splits sum.splits)
  then show ?thesis using save_keeps assms(2,3) Saving by (metis concerns_def)
next
  case (Persisting ev')
  then obtain persist where "ec_persist cfg = Some persist" "s' = s \<or> persist fresh ev' s = Inr s'"
    using assms(1) by (auto split: db_reply.splits sum.splits option.splits)
  then show ?thesis using persist_keeps assms(2,3) Persisting by (metis concerns_def)
qed (use assms in \<open>auto split: db_reply.splits sum.splits\<close>)

end

definition stored_as :: "notification_event \<Rightarrow> notification_row \<Rightarrow> bool" where
  "stored_as ev r \<longleftrightarrow> nr_notificationId r = ne_notificationId ev \<and> JStr (nr_messageId r) = ne_messageId ev
     \<and> nr_type r = ne_type ev \<and> nr_rawEvent r = ne_raw ev \<and> nr_timestamp r = ne_timestamp ev"

definition orphaned_as :: "notification_event \<Rightarrow> orphan_row \<Rightarrow> bool" where
  "orphaned_as ev r \<longleftrightarrow> or_notificationId r = ne_notificationId ev \<and> JStr (or_messageId r) = ne_messageId ev
     \<and> or_type r = ne_type ev \<and> or_rawEvent r = ne_raw ev \<and> or_timestamp r = ne_timestamp ev"

definition newsletter_holds :: "notification_event \<Rightarrow> event_store \<Rightarrow> bool" where
  "newsletter_holds ev s \<longleftrightarrow> (\<exists>r \<in> set (es_notifications s). stored_as ev r) \<or> (\<exists>r \<in> set (es_orphans s). orphaned_as ev r)"

definition system_holds :: "notification_event \<Rightarrow> event_store \<Rightarrow> bool" where
  "system_holds ev s \<longleftrightarrow> (\<exists>r \<in> set (es_systemNotifications s). stored_as ev r)"

lemma upsert_row_stores:
  "(\<And>r. key r = k \<Longrightarrow> P (put r)) \<Longrightarrow> P new \<Longrightarrow> \<exists>r \<in> set (upsert_row key k put new rows). P r"
  by (auto simp: upsert_row_def)

lemma upsert_row_keeps: "r \<in> set rows \<Longrightarrow> key r \<noteq> k \<Longrightarrow> r \<in> set (upsert_row key k put new rows)"
  by (auto simp: upsert_row_def image_iff)

lemma upsert_row_keys:
  "(\<And>r. key (put r) = key r) \<Longrightarrow> key new = k \<Longrightarrow>
     map key (upsert_row key k put new rows) = (if k \<in> key ` set rows then map key rows else map key rows @ [k])"
  by (auto simp: upsert_row_def)

lemma upsert_row_again:
  "(\<And>r. key (put r) = key r) \<Longrightarrow> (\<And>r. put (put r) = put r) \<Longrightarrow> key new = k \<Longrightarrow> put new = new \<Longrightarrow>
     upsert_row key k put new' (upsert_row key k put new rows) = upsert_row key k put new rows"
proof (cases "k \<in> key ` set rows")
  case True
  assume keep: "\<And>r. key (put r) = key r" and same: "\<And>r. put (put r) = put r"
  let ?f = "\<lambda>r. if key r = k then put r else r"
  have f: "key (?f r) = key r" for r by (simp add: keep)
  have "key ` set (map ?f rows) = (\<lambda>r. key (?f r)) ` set rows" by (simp only: set_map image_image)
  then have "k \<in> key ` set (map ?f rows)" using True unfolding f by (rule ssubst)
  moreover have "map ?f (map ?f rows) = map ?f rows" by (simp add: keep same)
  ultimately show ?thesis using True unfolding upsert_row_def by (simp only: if_True)
next
  case False
  assume new: "key new = k" "put new = new"
  have "map (\<lambda>r. if key r = k then put r else r) rows = rows" using False by (intro map_idI) auto
  then show ?thesis using False new by (simp add: upsert_row_def)
qed

lemma upsert_stores:
  assumes "upsert_notification parents fresh n m t raw ts rows = Inr rows'"
  shows "\<exists>r \<in> set rows'. nr_notificationId r = n \<and> JStr (nr_messageId r) = m \<and> nr_type r = t \<and> nr_rawEvent r = raw \<and> nr_timestamp r = ts"
  using assms
  by (auto simp: upsert_notification_def foreign_key_failure_def prisma_failure_def split: js.splits if_splits
      intro!: upsert_row_stores)

lemma upsert_keeps:
  assumes "upsert_notification parents fresh n m t raw ts rows = Inr rows'" "r \<in> set rows" "nr_notificationId r \<noteq> n"
  shows "r \<in> set rows'"
  using assms
  by (auto simp: upsert_notification_def foreign_key_failure_def prisma_failure_def split: js.splits if_splits
      intro!: upsert_row_keeps)

lemma newsletter_save:
  assumes "saveNewsletterNotification fresh ev s = Inr s'"
  shows "es_orphans s' = es_orphans s" "\<exists>r \<in> set (es_notifications s'). stored_as ev r"
    "\<And>r. r \<in> set (es_notifications s) \<Longrightarrow> nr_notificationId r \<noteq> ne_notificationId ev \<Longrightarrow> r \<in> set (es_notifications s')"
  using assms
  by (auto simp: saveNewsletterNotification_def stored_as_def dest: upsert_stores upsert_keeps)

lemma orphan_save:
  assumes "saveNewsletterNotificationOrphan fresh ev s = Inr s'"
  shows "es_notifications s' = es_notifications s" "\<exists>r \<in> set (es_orphans s'). orphaned_as ev r"
    "\<And>r. r \<in> set (es_orphans s) \<Longrightarrow> or_notificationId r \<noteq> ne_notificationId ev \<Longrightarrow> r \<in> set (es_orphans s')"
  using assms
  by (auto simp: saveNewsletterNotificationOrphan_def prisma_failure_def orphaned_as_def split: js.splits
      intro!: upsert_row_stores upsert_row_keeps)

lemma system_save:
  assumes "saveSystemEmailEvent fresh ev s = Inr s'"
  shows "\<exists>r \<in> set (es_systemNotifications s'). stored_as ev r"
    "\<And>r. r \<in> set (es_systemNotifications s) \<Longrightarrow> nr_notificationId r \<noteq> ne_notificationId ev \<Longrightarrow> r \<in> set (es_systemNotifications s')"
  using assms
  by (auto simp: saveSystemEmailEvent_def stored_as_def dest: upsert_stores upsert_keeps)

lemma stored_id: "stored_as ev r \<Longrightarrow> nr_notificationId r = ne_notificationId ev"
  and orphaned_id: "orphaned_as ev r' \<Longrightarrow> or_notificationId r' = ne_notificationId ev"
  by (simp_all add: stored_as_def orphaned_as_def)

interpretation newsletter_contract: event_contract newsletter_events newsletter_holds
proof
  fix fresh ev and s s' :: event_store and persist and ev'
  show "newsletter_holds ev s'" if "ec_save newsletter_events fresh ev s = Inr s'"
    using newsletter_save(2) [of fresh ev s s'] that by (simp add: newsletter_events_def newsletter_holds_def)
  show "newsletter_holds ev s'" if "ec_persist newsletter_events = Some persist" "persist fresh ev s = Inr s'"
    using orphan_save(2) [of fresh ev s s'] that by (simp add: newsletter_events_def newsletter_holds_def)
  show "newsletter_holds ev' s'" if "ec_save newsletter_events fresh ev s = Inr s'" "newsletter_holds ev' s"
      "ne_notificationId ev' \<noteq> ne_notificationId ev"
  proof -
    have "saveNewsletterNotification fresh ev s = Inr s'" using that(1) by (simp add: newsletter_events_def)
    note save = newsletter_save(1,3) [OF this]
    show ?thesis using that(2,3) save stored_id unfolding newsletter_holds_def by metis
  qed
  show "newsletter_holds ev' s'" if "ec_persist newsletter_events = Some persist" "persist fresh ev s = Inr s'" "newsletter_holds ev' s"
      "ne_notificationId ev' \<noteq> ne_notificationId ev"
  proof -
    have "saveNewsletterNotificationOrphan fresh ev s = Inr s'" using that(1,2) by (simp add: newsletter_events_def)
    note save = orphan_save(1,3) [OF this]
    show ?thesis using that(3,4) save orphaned_id unfolding newsletter_holds_def by metis
  qed
qed

interpretation system_contract: event_contract system_events system_holds
proof
  fix fresh ev and s s' :: event_store and persist and ev'
  show "system_holds ev s'" if "ec_save system_events fresh ev s = Inr s'"
    using system_save(1) [of fresh ev s s'] that by (simp add: system_events_def system_holds_def)
  show "system_holds ev' s'" if "ec_save system_events fresh ev s = Inr s'" "system_holds ev' s"
      "ne_notificationId ev' \<noteq> ne_notificationId ev"
  proof -
    have "saveSystemEmailEvent fresh ev s = Inr s'" using that(1) by (simp add: system_events_def)
    note save = system_save(2) [OF this]
    show ?thesis using that(2,3) save stored_id unfolding system_holds_def by metis
  qed
qed (simp_all add: system_events_def)

section \<open>Redelivery\<close>

text \<open>A handler whose database calls all answer: at most a lookup, a save and an orphan.\<close>

fun run_handler :: "nat \<Rightarrow> 's event_config \<Rightarrow> jstr \<times> int \<Rightarrow> event_phase \<Rightarrow> 's \<Rightarrow> event_phase \<times> 's" where
  "run_handler 0 cfg fresh p s = (p, s)"
| "run_handler (Suc n) cfg fresh p s = (case event_step cfg fresh DbAnswers p s of
     None \<Rightarrow> (p, s) | Some (p', s') \<Rightarrow> run_handler n cfg fresh p' s')"

definition handle_event :: "'s event_config \<Rightarrow> jstr \<times> int \<Rightarrow> notification_event \<Rightarrow> 's \<Rightarrow> event_phase \<times> 's" where
  "handle_event cfg fresh ev s = run_handler 3 cfg fresh (LookingUp ev) s"

lemma lookup_in_Inr: "lookup_in ids m = Inr b \<longleftrightarrow> (\<exists>k. m = JStr k \<and> b = (k \<in> set ids))"
  by (auto simp: lookup_in_def prisma_failure_def split: js.splits)

lemma upsert_known: "k \<in> set parents \<Longrightarrow> \<exists>rows'. upsert_notification parents fresh n (JStr k) t raw ts rows = Inr rows'"
  by (simp add: upsert_notification_def)

lemma upsert_again:
  "upsert_notification parents fresh n m t raw ts rows = Inr rows' \<Longrightarrow>
     upsert_notification parents fresh' n m t raw ts rows' = Inr rows'"
  by (auto simp: upsert_notification_def foreign_key_failure_def prisma_failure_def split: js.splits if_splits
      intro!: upsert_row_again)

lemma handle_newsletter:
  "handle_event newsletter_events fresh ev s = (case ne_messageId ev of
     JStr k \<Rightarrow> (case (if k \<in> set (es_newsletters s) then saveNewsletterNotification fresh ev s
                       else saveNewsletterNotificationOrphan fresh ev s) of
         Inr s' \<Rightarrow> (Acked (Some ev), s') | Inl e \<Rightarrow> (Refused (DbError e), s))
   | _ \<Rightarrow> (Refused (DbError (obj [(''code'', JStr (lit ''PrismaClientValidationError''))])), s))"
  by (auto simp: handle_event_def eval_nat_numeral newsletter_events_def getNewsletterMessage_def lookup_in_def prisma_failure_def
      missing_parent_def saveNewsletterNotification_def upsert_notification_def saveNewsletterNotificationOrphan_def
      split: js.splits)

lemma handle_system:
  "handle_event system_events fresh ev s = (case ne_messageId ev of
     JStr k \<Rightarrow> (if k \<in> set (es_systemMails s)
       then (case saveSystemEmailEvent fresh ev s of Inr s' \<Rightarrow> (Acked (Some ev), s') | Inl e \<Rightarrow> (Refused (DbError e), s))
       else (Refused TrackedEventMessageMissing, s))
   | _ \<Rightarrow> (Refused (DbError (obj [(''code'', JStr (lit ''PrismaClientValidationError''))])), s))"
  by (auto simp: handle_event_def eval_nat_numeral system_events_def getSystemMessage_def lookup_in_def prisma_failure_def
      missing_parent_def saveSystemEmailEvent_def upsert_notification_def split: js.splits)

text \<open>
  The whole handler on a raw message, from the reading of its text to the acknowledgement, with every
  database call answering. \<open>now\<close> is the clock the reading falls back to.
\<close>

definition handle_message :: "'s event_config \<Rightarrow> (jstr \<Rightarrow> jstr) \<Rightarrow> (jstr \<Rightarrow> int option) \<Rightarrow> jstr option \<Rightarrow> jstr option
     \<Rightarrow> jstr \<times> int \<Rightarrow> int \<Rightarrow> 's \<Rightarrow> event_phase \<times> 's" where
  "handle_message cfg native_text date_of body messageId fresh now s =
     run_handler 3 cfg fresh (start_event native_text date_of now body messageId) s"

text \<open>The time a notification carries itself: that of the opening, or else that of the mail, if it can be read.\<close>

definition carried_time :: "(jstr \<Rightarrow> int option) \<Rightarrow> jstr \<Rightarrow> int option" where
  "carried_time date_of body = (case bindE (parse_text body) unwrap_sns of
     Inl _ \<Rightarrow> None
   | Inr event \<Rightarrow>
       let opened = get_prop (get_prop event ''open'') ''timestamp'';
           v = (if truthy opened then opened else get_prop (get_prop event ''mail'') ''timestamp'')
       in if truthy v then (case new_date date_of v of Inr d \<Rightarrow> d | Inl _ \<Rightarrow> None) else None)"

lemma normalize_time_Inr:
  "normalizeEventTimestamp date_of v now = Inr t \<longleftrightarrow>
     (if truthy v then \<exists>d. new_date date_of v = Inr d \<and> t = (case d of None \<Rightarrow> now | Some t \<Rightarrow> t) else t = now)"
  by (cases "new_date date_of v") (auto simp: normalizeEventTimestamp_def)

lemma parse_again:
  assumes "parseNotificationEvent native_text date_of now messageId body = Inr ev"
  shows "ne_timestamp ev = (case carried_time date_of body of None \<Rightarrow> now | Some t \<Rightarrow> t)"
    "parseNotificationEvent native_text date_of later messageId body =
       Inr (ev\<lparr>ne_timestamp := (case carried_time date_of body of None \<Rightarrow> later | Some t \<Rightarrow> t)\<rparr>)"
proof -
  let ?opened = "\<lambda>event. get_prop (get_prop event ''open'') ''timestamp''"
  let ?v = "\<lambda>event. if truthy (?opened event) then ?opened event else get_prop (get_prop event ''mail'') ''timestamp''"
  obtain parsed event et key mid newsletter transactional t where run:
      "parse_text body = Inr parsed" "unwrap_sns parsed = Inr event" "read_prop event ''eventType'' = Inr et"
      "js_to_string et = Inr key" "read_prop (get_prop event ''mail'') ''messageId'' = Inr mid"
      "has_length (get_prop (get_prop (get_prop event ''mail'') ''tags'') ''ghost-email'') = Inr newsletter"
      "has_length (get_prop (get_prop (get_prop event ''mail'') ''tags'') ''transactional-email'') = Inr transactional"
      "normalizeEventTimestamp date_of (?v event) now = Inr t"
      "ev = \<lparr>ne_notificationId = messageId, ne_type = event_type native_text key, ne_newsletter = newsletter,
            ne_transactional = transactional, ne_messageId = mid, ne_timestamp = t, ne_raw = body\<rparr>"
    using assms by (auto simp: parseNotificationEvent_def Let_def bindE_Inr_iff simp del: get_prop.simps)
  have time: "normalizeEventTimestamp date_of (?v event) x
      = Inr (case carried_time date_of body of None \<Rightarrow> x | Some t \<Rightarrow> t)" for x
    using run(8) unfolding normalize_time_Inr
    by (auto simp: carried_time_def run(1,2) Let_def simp del: get_prop.simps split: if_splits option.splits)
  show "ne_timestamp ev = (case carried_time date_of body of None \<Rightarrow> now | Some t \<Rightarrow> t)"
    using run(8,9) time [of now] by simp
  show "parseNotificationEvent native_text date_of later messageId body =
       Inr (ev\<lparr>ne_timestamp := (case carried_time date_of body of None \<Rightarrow> later | Some t \<Rightarrow> t)\<rparr>)"
    using run time [of later] by (simp add: parseNotificationEvent_def Let_def del: get_prop.simps)
qed

lemma handle_message_acked:
  assumes "handle_message cfg native_text date_of body messageId fresh now s = (Acked (Some ev), s')"
  obtains b m where "body = Some b" "messageId = Some m" "b \<noteq> []" "m \<noteq> []"
    "parseNotificationEvent native_text date_of now m b = Inr ev" "ne_newsletter ev \<or> ne_transactional ev"
    "handle_event cfg fresh ev s = (Acked (Some ev), s')"
proof -
  have start: "\<exists>ev0. start_event native_text date_of now body messageId = LookingUp ev0"
    using assms by (auto simp: handle_message_def start_event_def eval_nat_numeral
        split: option.splits list.splits sum.splits if_splits)
  then obtain ev0 where ev0: "start_event native_text date_of now body messageId = LookingUp ev0" by blast
  then have run: "handle_event cfg fresh ev0 s = (Acked (Some ev), s')"
    using assms by (simp add: handle_message_def handle_event_def)
  then have "ev0 = ev"
    by (auto simp: handle_event_def eval_nat_numeral missing_parent_def save_failed_def
        split: sum.splits option.splits if_splits)
  moreover obtain b bs m ms where msg: "body = Some (b # bs)" "messageId = Some (m # ms)"
    using ev0 by (auto simp: start_event_def split: option.splits list.splits)
  ultimately show thesis
    using ev0 run by (intro that [of "b # bs" "m # ms"]) (auto simp: start_event_def split: sum.splits if_splits)
qed

lemma handle_message_parsed:
  assumes "parseNotificationEvent native_text date_of now m b = Inr ev" "ne_newsletter ev \<or> ne_transactional ev" "b \<noteq> []" "m \<noteq> []"
  shows "handle_message cfg native_text date_of (Some b) (Some m) fresh now s = handle_event cfg fresh ev s"
  using assms by (cases b; cases m) (auto simp: handle_message_def handle_event_def start_event_def)

text \<open>The store with the event times of the rows of one notification left open.\<close>

definition untimed_row :: "jstr \<Rightarrow> notification_row \<Rightarrow> notification_row" where
  "untimed_row n r = (if nr_notificationId r = n then r\<lparr>nr_timestamp := 0\<rparr> else r)"

definition untimed_orphan :: "jstr \<Rightarrow> orphan_row \<Rightarrow> orphan_row" where
  "untimed_orphan n r = (if or_notificationId r = n then r\<lparr>or_timestamp := 0\<rparr> else r)"

definition untimed :: "jstr \<Rightarrow> event_store \<Rightarrow> event_store" where
  "untimed n s = s\<lparr>es_notifications := map (untimed_row n) (es_notifications s),
     es_systemNotifications := map (untimed_row n) (es_systemNotifications s),
     es_orphans := map (untimed_orphan n) (es_orphans s)\<rparr>"

lemma upsert_row_retimed:
  assumes "\<And>r. key (put r) = key r" "\<And>r. key r = k \<Longrightarrow> g (put' (put r)) = g (put r)" "key new = k" "g (put' new) = g new"
  shows "map g (upsert_row key k put' new' (upsert_row key k put new rows)) = map g (upsert_row key k put new rows)"
proof (cases "k \<in> key ` set rows")
  case True
  let ?f = "\<lambda>r. if key r = k then put r else r"
  have f: "key (?f r) = key r" for r by (simp add: assms(1))
  have "key ` set (map ?f rows) = (\<lambda>r. key (?f r)) ` set rows" by (simp only: set_map image_image)
  then have "k \<in> key ` set (map ?f rows)" using True unfolding f by (rule ssubst)
  moreover have "map g (map (\<lambda>r. if key r = k then put' r else r) (map ?f rows)) = map g (map ?f rows)"
    by (simp add: assms(1,2))
  ultimately show ?thesis using True unfolding upsert_row_def by (simp only: if_True)
next
  case False
  have "map (\<lambda>r. if key r = k then put' r else r) rows = rows" using False by (intro map_idI) auto
  then show ?thesis using False assms(3,4) by (simp add: upsert_row_def)
qed

lemma upsert_retimed:
  assumes "upsert_notification parents fresh n m t raw ts rows = Inr rows'"
  shows "\<exists>rows2. upsert_notification parents fresh' n m t raw ts' rows' = Inr rows2
     \<and> map (untimed_row n) rows2 = map (untimed_row n) rows'"
proof -
  obtain k where k: "m = JStr k" "k \<in> set parents"
    using assms by (auto simp: upsert_notification_def foreign_key_failure_def prisma_failure_def split: js.splits if_splits)
  show ?thesis
    using assms unfolding upsert_notification_def k(1) using k(2)
    by (auto simp: untimed_row_def intro!: upsert_row_retimed)
qed

text \<open>Handling the same event again, perhaps with another time.\<close>

lemma handled_again:
  assumes cfg: "cfg = newsletter_events \<or> cfg = system_events"
    and first: "handle_event cfg fresh ev s = (Acked (Some ev), s')"
  shows "\<exists>s2. handle_event cfg fresh' (ev\<lparr>ne_timestamp := t\<rparr>) s' = (Acked (Some (ev\<lparr>ne_timestamp := t\<rparr>)), s2)
     \<and> untimed (ne_notificationId ev) s2 = untimed (ne_notificationId ev) s' \<and> (t = ne_timestamp ev \<longrightarrow> s2 = s')"
proof -
  let ?ev = "ev\<lparr>ne_timestamp := t\<rparr>" and ?n = "ne_notificationId ev"
  let ?up = "\<lambda>parents fresh t. upsert_notification parents fresh ?n (ne_messageId ev) (ne_type ev) (ne_raw ev) t"
  have rows: "\<exists>rows2. ?up parents fresh' t rows' = Inr rows2 \<and> map (untimed_row ?n) rows2 = map (untimed_row ?n) rows'
      \<and> (t = ne_timestamp ev \<longrightarrow> rows2 = rows')" if "?up parents fresh (ne_timestamp ev) rows = Inr rows'" for parents rows rows'
    using upsert_retimed [OF that, of fresh' t] upsert_again [OF that, of fresh'] by auto
  from cfg show ?thesis
  proof
    assume cfg: "cfg = newsletter_events"
    obtain k where k: "ne_messageId ev = JStr k" using first unfolding cfg handle_newsletter by (cases "ne_messageId ev") auto
    show ?thesis
    proof (cases "k \<in> set (es_newsletters s)")
      case True
      then obtain rows' where save: "?up (es_newsletters s) fresh (ne_timestamp ev) (es_notifications s) = Inr rows'"
          "s' = s\<lparr>es_notifications := rows'\<rparr>"
        using first unfolding cfg handle_newsletter k by (auto simp: saveNewsletterNotification_def k split: sum.splits)
      from rows [OF save(1)] obtain rows2 where rows2: "?up (es_newsletters s) fresh' t rows' = Inr rows2"
          "map (untimed_row ?n) rows2 = map (untimed_row ?n) rows'" "t = ne_timestamp ev \<longrightarrow> rows2 = rows'" by blast
      show ?thesis
        using True rows2 unfolding cfg handle_newsletter
        by (simp add: k save(2) saveNewsletterNotification_def untimed_def)
    next
      case False
      then have save: "saveNewsletterNotificationOrphan fresh ev s = Inr s'"
        using first unfolding cfg handle_newsletter k by (auto split: sum.splits)
      let ?put = "\<lambda>t r. r\<lparr>or_messageId := k, or_type := ne_type ev, or_rawEvent := ne_raw ev, or_timestamp := t,
          or_reason := lit ''missing_parent''\<rparr>"
      let ?new = "\<lambda>fresh t. \<lparr>or_id = fst fresh, or_notificationId = ?n, or_messageId = k, or_type = ne_type ev,
          or_rawEvent = ne_raw ev, or_timestamp = t, or_reason = lit ''missing_parent'', or_reconciledAt = None\<rparr>"
      let ?orphans = "upsert_row or_notificationId ?n (?put (ne_timestamp ev)) (?new fresh (ne_timestamp ev)) (es_orphans s)"
      let ?again = "\<lambda>t. upsert_row or_notificationId ?n (?put t) (?new fresh' t) ?orphans"
      have s': "s' = s\<lparr>es_orphans := ?orphans\<rparr>" using save by (simp add: saveNewsletterNotificationOrphan_def k)
      have "map (untimed_orphan ?n) (?again t) = map (untimed_orphan ?n) ?orphans"
        by (rule upsert_row_retimed) (simp_all add: untimed_orphan_def)
      moreover have "?again (ne_timestamp ev) = ?orphans" by (rule upsert_row_again) simp_all
      ultimately show ?thesis
        using False unfolding cfg handle_newsletter
        by (auto simp: k s' saveNewsletterNotificationOrphan_def untimed_def)
    qed
  next
    assume cfg: "cfg = system_events"
    obtain k where k: "ne_messageId ev = JStr k" using first unfolding cfg handle_system by (cases "ne_messageId ev") auto
    then obtain rows' where save: "k \<in> set (es_systemMails s)"
        "?up (es_systemMails s) fresh (ne_timestamp ev) (es_systemNotifications s) = Inr rows'"
        "s' = s\<lparr>es_systemNotifications := rows'\<rparr>"
      using first unfolding cfg handle_system k by (auto simp: saveSystemEmailEvent_def k split: sum.splits if_splits)
    from rows [OF save(2)] obtain rows2 where rows2: "?up (es_systemMails s) fresh' t rows' = Inr rows2"
        "map (untimed_row ?n) rows2 = map (untimed_row ?n) rows'" "t = ne_timestamp ev \<longrightarrow> rows2 = rows'" by blast
    show ?thesis
      using save(1) rows2 unfolding cfg handle_system
      by (simp add: k save(3) saveSystemEmailEvent_def untimed_def)
  qed
qed

text \<open>An event that was kept as an orphan and comes again once its newsletter is recorded.\<close>

lemma handled_after_parent:
  assumes first: "handle_event newsletter_events fresh ev s = (Acked (Some ev), s')"
    and k: "ne_messageId ev = JStr k" "k \<in> set parents"
  shows "\<exists>s2. handle_event newsletter_events fresh' (ev\<lparr>ne_timestamp := t\<rparr>) (s'\<lparr>es_newsletters := parents\<rparr>)
       = (Acked (Some (ev\<lparr>ne_timestamp := t\<rparr>)), s2)
     \<and> es_orphans s2 = es_orphans s' \<and> (\<exists>r \<in> set (es_notifications s2). stored_as (ev\<lparr>ne_timestamp := t\<rparr>) r)
     \<and> {r \<in> set (es_notifications s'). nr_notificationId r \<noteq> ne_notificationId ev} \<subseteq> set (es_notifications s2)"
proof -
  let ?s = "s'\<lparr>es_newsletters := parents\<rparr>" and ?ev = "ev\<lparr>ne_timestamp := t\<rparr>"
  obtain rows where "upsert_notification parents fresh' (ne_notificationId ev) (JStr k) (ne_type ev) (ne_raw ev) t
      (es_notifications s') = Inr rows"
    using upsert_known [OF k(2)] by blast
  then obtain s2 where save: "saveNewsletterNotification fresh' ?ev ?s = Inr s2"
    by (simp add: saveNewsletterNotification_def k(1))
  have "handle_event newsletter_events fresh' ?ev ?s = (Acked (Some ?ev), s2)"
    unfolding handle_newsletter using save k by simp
  with newsletter_save [OF save] show ?thesis by auto
qed

text \<open>
  C35: redelivery, from the raw message on. A message that was acknowledged as a tracked event comes
  again, later, with other identifiers and times drawn by the database; its text is read again. It is
  acknowledged again as the same event. If the message carries a readable time of its own, no row
  changes; if it does not, the reading falls back to the clock, and nothing but the event time of the
  rows of this notification can differ. No second row is made either way. When the newsletter
  of an orphaned event was recorded in between, the second delivery stores the notification, and leaves
  the orphan and every other notification as they are.
\<close>

theorem redelivered_message_keeps_rows:
  assumes "cfg = newsletter_events \<or> cfg = system_events"
    and "handle_message cfg native_text date_of body messageId fresh now s = (Acked (Some ev), s')"
  shows "let time = carried_time date_of (the body); ev2 = ev\<lparr>ne_timestamp := (case time of None \<Rightarrow> later | Some t \<Rightarrow> t)\<rparr>
     in (\<exists>s2. handle_message cfg native_text date_of body messageId fresh' later s' = (Acked (Some ev2), s2)
          \<and> (if time = None then untimed (ne_notificationId ev) s2 = untimed (ne_notificationId ev) s' else ev2 = ev \<and> s2 = s'))
      \<and> (cfg = newsletter_events \<and> ne_messageId ev = JStr k \<and> k \<notin> set (es_newsletters s) \<longrightarrow>
          (\<exists>s2. handle_message cfg native_text date_of body messageId fresh' later
                  (s'\<lparr>es_newsletters := es_newsletters s' @ [k]\<rparr>) = (Acked (Some ev2), s2)
             \<and> es_orphans s2 = es_orphans s' \<and> (\<exists>r \<in> set (es_notifications s2). stored_as ev2 r)
             \<and> {r \<in> set (es_notifications s'). nr_notificationId r \<noteq> ne_notificationId ev} \<subseteq> set (es_notifications s2)))"
proof -
  obtain b m where msg: "body = Some b" "messageId = Some m" "b \<noteq> []" "m \<noteq> []"
      "parseNotificationEvent native_text date_of now m b = Inr ev" "ne_newsletter ev \<or> ne_transactional ev"
      "handle_event cfg fresh ev s = (Acked (Some ev), s')"
    by (rule handle_message_acked [OF assms(2)])
  let ?time = "carried_time date_of b"
  define t where "t = (case ?time of None \<Rightarrow> later | Some t \<Rightarrow> t)"
  have second: "handle_message cfg native_text date_of body messageId fresh' later x
      = handle_event cfg fresh' (ev\<lparr>ne_timestamp := t\<rparr>) x" for x
    using handle_message_parsed [OF parse_again(2) [OF msg(5)]] msg(3,4,6) by (simp add: msg(1,2) t_def)
  have same: "t = ne_timestamp ev" if "?time \<noteq> None"
    using parse_again(1) [OF msg(5)] that by (auto simp: t_def)
  have again: "\<exists>s2. handle_message cfg native_text date_of body messageId fresh' later s' = (Acked (Some (ev\<lparr>ne_timestamp := t\<rparr>)), s2)
      \<and> (if ?time = None then untimed (ne_notificationId ev) s2 = untimed (ne_notificationId ev) s'
         else ev\<lparr>ne_timestamp := t\<rparr> = ev \<and> s2 = s')"
    using handled_again [OF assms(1) msg(7), of fresh' t] same unfolding second by auto
  have "\<exists>s2. handle_message cfg native_text date_of body messageId fresh' later
              (s'\<lparr>es_newsletters := es_newsletters s' @ [k]\<rparr>) = (Acked (Some (ev\<lparr>ne_timestamp := t\<rparr>)), s2)
         \<and> es_orphans s2 = es_orphans s' \<and> (\<exists>r \<in> set (es_notifications s2). stored_as (ev\<lparr>ne_timestamp := t\<rparr>) r)
         \<and> {r \<in> set (es_notifications s'). nr_notificationId r \<noteq> ne_notificationId ev} \<subseteq> set (es_notifications s2)"
    if "cfg = newsletter_events" "ne_messageId ev = JStr k"
    using handled_after_parent [of fresh ev s s' k "es_newsletters s' @ [k]" fresh' t] msg(7) that
    unfolding second by simp
  with again show ?thesis unfolding Let_def msg(1) option.sel t_def by blast
qed

definition example_event :: notification_event where
  "example_event = \<lparr>ne_notificationId = lit ''q1'', ne_type = lit ''opened'', ne_newsletter = True, ne_transactional = False,
     ne_messageId = JStr (lit ''m1''), ne_timestamp = 7, ne_raw = lit ''{}''\<rparr>"

definition example_store :: event_store where
  "example_store = \<lparr>es_newsletters = [], es_systemMails = [], es_notifications = [], es_systemNotifications = [],
     es_orphans = [\<lparr>or_id = lit ''o1'', or_notificationId = lit ''q1'', or_messageId = lit ''m1'', or_type = lit ''opened'',
       or_rawEvent = lit ''{}'', or_timestamp = 7, or_reason = lit ''missing_parent'', or_reconciledAt = None\<rparr>]\<rparr>"

text \<open>An opened newsletter without a time, delivered at 8 and again at 9.\<close>

definition example_body :: jstr where
  "example_body = lit ''{\"eventType\":\"Open\",\"mail\":{\"messageId\":\"m1\",\"tags\":{\"ghost-email\":[\"true\"]}}}''"

definition example_opened :: notification_event where
  "example_opened = \<lparr>ne_notificationId = lit ''q1'', ne_type = lit ''opened'', ne_newsletter = True, ne_transactional = False,
     ne_messageId = JStr (lit ''m1''), ne_timestamp = 8, ne_raw = example_body\<rparr>"

lemma example_body_parses: "parseNotificationEvent (\<lambda>k. k) (\<lambda>_. None) 8 (lit ''q1'') example_body = Inr example_opened"
  by code_simp

lemma redelivered_message_keeps_rows_witness:
  "\<exists>s2. handle_message newsletter_events (\<lambda>k. k) (\<lambda>_. None) (Some example_body) (Some (lit ''q1'')) (lit ''n2'', 9) 9
       (example_store\<lparr>es_orphans := [hd (es_orphans example_store)\<lparr>or_id := lit ''n1'', or_rawEvent := example_body, or_timestamp := 8\<rparr>]\<rparr>)
     = (Acked (Some (example_opened\<lparr>ne_timestamp := 9\<rparr>)), s2) \<and> length (es_orphans s2) = 1"
proof -
  let ?s = "example_store\<lparr>es_orphans := []\<rparr>"
  let ?s' = "example_store\<lparr>es_orphans := [hd (es_orphans example_store)\<lparr>or_id := lit ''n1'', or_rawEvent := example_body, or_timestamp := 8\<rparr>]\<rparr>"
  have "example_body \<noteq> []" "lit ''q1'' \<noteq> []" by (simp_all add: example_body_def lit_def)
  from handle_message_parsed [OF example_body_parses _ this, of newsletter_events "(lit ''n1'', 8)" ?s]
  have first: "handle_message newsletter_events (\<lambda>k. k) (\<lambda>_. None) (Some example_body) (Some (lit ''q1'')) (lit ''n1'', 8) 8 ?s
      = (Acked (Some example_opened), ?s')"
    by (simp add: example_opened_def)
      (simp add: handle_newsletter example_store_def saveNewsletterNotificationOrphan_def upsert_row_def)
  have time: "carried_time (\<lambda>_. None) example_body = None" by code_simp
  have id: "ne_notificationId example_opened = lit ''q1''" by (simp add: example_opened_def)
  obtain s2 where s2: "handle_message newsletter_events (\<lambda>k. k) (\<lambda>_. None) (Some example_body) (Some (lit ''q1'')) (lit ''n2'', 9) 9 ?s'
      = (Acked (Some (example_opened\<lparr>ne_timestamp := 9\<rparr>)), s2)" "untimed (lit ''q1'') s2 = untimed (lit ''q1'') ?s'"
    using redelivered_message_keeps_rows [OF disjI1 [OF refl] first, of 9 "(lit ''n2'', 9)" "[]"]
    by (auto simp: time id Let_def)
  then have "length (es_orphans (untimed (lit ''q1'') s2)) = 1" by (simp add: untimed_def)
  then have "length (es_orphans s2) = 1" by (simp add: untimed_def)
  with s2(1) show ?thesis by blast
qed

section \<open>Reconciliation\<close>

lemma reconcile_cases:
  assumes "reconcileNewsletterNotificationOrphan fresh now n s = Inr (res, s')"
  obtains (absent) "res = Absent" "s' = s" "n \<notin> or_notificationId ` set (es_orphans s)"
  | (again) orphan where "res = AlreadyReconciled" "s' = s" "orphan \<in> set (es_orphans s)" "or_notificationId orphan = n"
      "or_reconciledAt orphan \<noteq> None"
  | (missing) orphan where "res = ParentMissing" "s' = s" "orphan \<in> set (es_orphans s)" "or_notificationId orphan = n"
      "or_reconciledAt orphan = None" "or_messageId orphan \<notin> set (es_newsletters s)"
  | (moved) orphan rows where "res = Reconciled" "orphan \<in> set (es_orphans s)" "or_notificationId orphan = n"
      "or_reconciledAt orphan = None" "or_messageId orphan \<in> set (es_newsletters s)"
      "upsert_notification (es_newsletters s) fresh n (JStr (or_messageId orphan))
         (or_type orphan) (or_rawEvent orphan) (or_timestamp orphan) (es_notifications s) = Inr rows"
      "s' = s\<lparr>es_notifications := rows,
         es_orphans := map (\<lambda>r. if or_id r = or_id orphan then r\<lparr>or_reconciledAt := Some now\<rparr> else r) (es_orphans s)\<rparr>"
proof (cases "filter (\<lambda>r. or_notificationId r = n) (es_orphans s)")
  case Nil
  then have "n \<notin> or_notificationId ` set (es_orphans s)" by (auto simp: filter_empty_conv)
  then show thesis using assms Nil absent by (simp add: reconcileNewsletterNotificationOrphan_def)
next
  case (Cons orphan more)
  then have "orphan \<in> set (filter (\<lambda>r. or_notificationId r = n) (es_orphans s))" by simp
  then have orphan: "orphan \<in> set (es_orphans s)" "or_notificationId orphan = n" by auto
  note run = assms [unfolded reconcileNewsletterNotificationOrphan_def Cons list.case]
  show thesis
  proof (cases "or_reconciledAt orphan = None")
    case False
    then show thesis using run orphan by (intro again [of orphan]) auto
  next
    case open_orphan: True
    show thesis
    proof (cases "or_messageId orphan \<in> set (es_newsletters s)")
      case False
      then show thesis using run orphan open_orphan by (intro missing [of orphan]) auto
    next
      case True
      with run open_orphan obtain rows where "upsert_notification (es_newsletters s) fresh (or_notificationId orphan)
          (JStr (or_messageId orphan)) (or_type orphan) (or_rawEvent orphan) (or_timestamp orphan) (es_notifications s) = Inr rows"
        "res = Reconciled" "s' = s\<lparr>es_notifications := rows,
          es_orphans := map (\<lambda>r. if or_id r = or_id orphan then r\<lparr>or_reconciledAt := Some now\<rparr> else r) (es_orphans s)\<rparr>"
        by auto
      then show thesis using orphan open_orphan True by (intro moved [of orphan rows]) simp_all
    qed
  qed
qed

lemma map_update_distinct:
  assumes "distinct (map key rows)" "row \<in> set rows"
  shows "set (map (\<lambda>r. if key r = key row then f r else r) rows) = insert (f row) (set rows - {row})"
proof -
  have "r = row" if "r \<in> set rows" "key r = key row" for r
    using assms that by (auto simp: distinct_map inj_on_def)
  then have "set (map (\<lambda>r. if key r = key row then f r else r) rows) = (\<lambda>r. if r = row then f row else r) ` set rows"
    unfolding set_map using assms(2) by (intro image_cong) auto
  then show ?thesis using assms(2) by auto
qed

text \<open>
  C36: what an explicit reconciliation does. Only \<open>Reconciled\<close> changes anything, and it is the answer
  exactly for an orphan that is open and whose parent exists: its notification is then stored with the
  orphan's data, the orphan is kept and marked with the time, every other orphan and every other
  notification stays, and a second call answers \<open>AlreadyReconciled\<close> and changes nothing.
\<close>

theorem reconciliation_moves_orphan:
  assumes "reconcileNewsletterNotificationOrphan fresh now n s = Inr (res, s')"
    and "distinct (map or_notificationId (es_orphans s))" "distinct (map or_id (es_orphans s))"
  shows "res = Absent \<and> s' = s \<and> n \<notin> or_notificationId ` set (es_orphans s)
     \<or> (\<exists>orphan \<in> set (es_orphans s). or_notificationId orphan = n \<and>
        (res = AlreadyReconciled \<and> s' = s \<and> or_reconciledAt orphan \<noteq> None
         \<or> res = ParentMissing \<and> s' = s \<and> or_reconciledAt orphan = None \<and> or_messageId orphan \<notin> set (es_newsletters s)
         \<or> res = Reconciled \<and> or_reconciledAt orphan = None \<and> or_messageId orphan \<in> set (es_newsletters s)
           \<and> (\<exists>r \<in> set (es_notifications s'). nr_notificationId r = n \<and> nr_messageId r = or_messageId orphan
                \<and> nr_type r = or_type orphan \<and> nr_rawEvent r = or_rawEvent orphan \<and> nr_timestamp r = or_timestamp orphan)
           \<and> {r \<in> set (es_notifications s). nr_notificationId r \<noteq> n} \<subseteq> set (es_notifications s')
           \<and> set (es_orphans s') = insert (orphan\<lparr>or_reconciledAt := Some now\<rparr>) (set (es_orphans s) - {orphan})
           \<and> reconcileNewsletterNotificationOrphan fresh' later n s' = Inr (AlreadyReconciled, s')))"
  using assms(1)
proof (cases rule: reconcile_cases)
  case (moved orphan rows)
  have orphans: "set (es_orphans s') = insert (orphan\<lparr>or_reconciledAt := Some now\<rparr>) (set (es_orphans s) - {orphan})"
    using map_update_distinct [OF assms(3) moved(2), of "\<lambda>r. r\<lparr>or_reconciledAt := Some now\<rparr>"] by (simp add: moved(7))
  have "map or_notificationId (es_orphans s') = map or_notificationId (es_orphans s)" by (simp add: moved(7))
  then have ids: "distinct (map or_notificationId (es_orphans s'))" using assms(2) by simp
  have marked: "orphan\<lparr>or_reconciledAt := Some now\<rparr> \<in> set (es_orphans s')" unfolding orphans by simp
  have second: "reconcileNewsletterNotificationOrphan fresh' later n s' = Inr (AlreadyReconciled, s')"
  proof -
    obtain o1 more where o1: "filter (\<lambda>r. or_notificationId r = n) (es_orphans s') = o1 # more"
      using marked moved(3) by (cases "filter (\<lambda>r. or_notificationId r = n) (es_orphans s')") (auto simp: filter_empty_conv)
    then have "o1 \<in> set (filter (\<lambda>r. or_notificationId r = n) (es_orphans s'))" by simp
    then have "o1 \<in> set (es_orphans s')" "or_notificationId o1 = n" by auto
    then have "o1 = orphan\<lparr>or_reconciledAt := Some now\<rparr>" using ids marked moved(3) by (auto simp: distinct_map inj_on_def)
    then show ?thesis using o1 by (simp add: reconcileNewsletterNotificationOrphan_def)
  qed
  have "{r \<in> set (es_notifications s). nr_notificationId r \<noteq> n} \<subseteq> set (es_notifications s')"
    using upsert_keeps [OF moved(6)] by (auto simp: moved(7))
  moreover have "\<exists>r \<in> set (es_notifications s'). nr_notificationId r = n \<and> nr_messageId r = or_messageId orphan
      \<and> nr_type r = or_type orphan \<and> nr_rawEvent r = or_rawEvent orphan \<and> nr_timestamp r = or_timestamp orphan"
    using upsert_stores [OF moved(6)] by (simp add: moved(7))
  ultimately show ?thesis using moved(1-5) orphans second by blast
qed (blast | simp)+

theorem reconciliation_moves_orphan_witness:
  "\<exists>s'. reconcileNewsletterNotificationOrphan (lit ''n1'', 8) 9 (lit ''q1'') (example_store\<lparr>es_newsletters := [lit ''m1'']\<rparr>) = Inr (Reconciled, s')
     \<and> reconcileNewsletterNotificationOrphan (lit ''n2'', 9) 11 (lit ''q1'') s' = Inr (AlreadyReconciled, s')"
proof -
  let ?s = "example_store\<lparr>es_newsletters := [lit ''m1'']\<rparr>"
  obtain s' where run: "reconcileNewsletterNotificationOrphan (lit ''n1'', 8) 9 (lit ''q1'') ?s = Inr (Reconciled, s')"
    by (simp add: reconcileNewsletterNotificationOrphan_def example_store_def upsert_notification_def)
  have "distinct (map or_notificationId (es_orphans ?s))" "distinct (map or_id (es_orphans ?s))" by (simp_all add: example_store_def)
  from reconciliation_moves_orphan [OF run this, of "(lit ''n2'', 9)" 11]
  show ?thesis using run by auto
qed

end
