(* ===== verification/EventDelivery.thy ===== *)
theory EventDelivery
  imports EventProcessor
begin

text \<open>
  Any number of event handlers at once over one database, together with what else touches the tables:
  mails being recorded, orphans being reconciled, and the retention run deleting a newsletter message
  with its notifications. A handler can stop between any two steps.
\<close>

section \<open>The system\<close>

datatype event_queue = NewsletterQueue | SystemQueue

definition queue_config :: "event_queue \<Rightarrow> event_store event_config" where
  "queue_config q = (case q of NewsletterQueue \<Rightarrow> newsletter_events | SystemQueue \<Rightarrow> system_events)"

text \<open>\<open>vs_removed\<close> lists the notification ids of rows the retention run deleted.\<close>

record event_system =
  vs_store :: event_store
  vs_handlers :: "(event_queue \<times> event_phase) list"
  vs_acked :: "(event_queue \<times> notification_event) list"
  vs_removed :: "jstr list"

text \<open>\<open>Deliver\<close> carries what the environment supplies to the parser: the texts of built-in functions, the date parser and the time.\<close>

datatype event_move =
    Deliver event_queue "jstr \<Rightarrow> jstr" "jstr \<Rightarrow> int option" int "jstr option" "jstr option"
  | StepHandler nat "jstr \<times> int" db_reply
  | ReconcileOrphan "jstr \<times> int" int jstr
  | MailRecorded event_queue jstr
  | RetentionDeletes jstr

definition newly_acked :: "event_queue \<Rightarrow> event_phase \<Rightarrow> (event_queue \<times> notification_event) list" where
  "newly_acked q p = (case p of Acked (Some ev) \<Rightarrow> [(q, ev)] | _ \<Rightarrow> [])"

fun event_action :: "event_move \<Rightarrow> event_system \<Rightarrow> event_system option" where
  "event_action (Deliver q native_text date_of now body messageId) s =
     Some (s\<lparr>vs_handlers := vs_handlers s @ [(q, start_event native_text date_of now body messageId)]\<rparr>)"
| "event_action (StepHandler i fresh reply) s =
     (if i \<ge> length (vs_handlers s) then None
      else let (q, p) = vs_handlers s ! i in
        case event_step (queue_config q) fresh reply p (vs_store s) of
          None \<Rightarrow> None
        | Some (p', st) \<Rightarrow> Some (s\<lparr>vs_store := st, vs_handlers := (vs_handlers s)[i := (q, p')], vs_acked := vs_acked s @ newly_acked q p'\<rparr>))"
| "event_action (ReconcileOrphan fresh now n) s =
     (case reconcileNewsletterNotificationOrphan fresh now n (vs_store s) of
        Inl _ \<Rightarrow> Some s | Inr (res, st) \<Rightarrow> Some (s\<lparr>vs_store := st\<rparr>))"
| "event_action (MailRecorded q m) s = Some (s\<lparr>vs_store := (case q of
       NewsletterQueue \<Rightarrow> (vs_store s)\<lparr>es_newsletters := es_newsletters (vs_store s) @ [m]\<rparr>
     | SystemQueue \<Rightarrow> (vs_store s)\<lparr>es_systemMails := es_systemMails (vs_store s) @ [m]\<rparr>)\<rparr>)"
| "event_action (RetentionDeletes m) s = Some (s\<lparr>
     vs_store := (vs_store s)\<lparr>es_newsletters := filter (\<lambda>k. k \<noteq> m) (es_newsletters (vs_store s)),
       es_notifications := filter (\<lambda>r. nr_messageId r \<noteq> m) (es_notifications (vs_store s))\<rparr>,
     vs_removed := vs_removed s @ map nr_notificationId (filter (\<lambda>r. nr_messageId r = m) (es_notifications (vs_store s)))\<rparr>)"

definition quiet_system :: "event_store \<Rightarrow> event_system" where
  "quiet_system st = \<lparr>vs_store = st, vs_handlers = [], vs_acked = [], vs_removed = []\<rparr>"

inductive event_reachable :: "event_store \<Rightarrow> event_system \<Rightarrow> bool" for st where
  quiet: "event_reachable st (quiet_system st)"
| act: "event_reachable st s \<Longrightarrow> event_action a s = Some s' \<Longrightarrow> event_reachable st s'"

section \<open>Tables stay consistent\<close>

text \<open>Unique notification ids, and no notification without its parent.\<close>

definition tables_ok :: "event_store \<Rightarrow> bool" where
  "tables_ok st \<longleftrightarrow> distinct (map nr_notificationId (es_notifications st))
     \<and> distinct (map nr_notificationId (es_systemNotifications st)) \<and> distinct (map or_notificationId (es_orphans st))
     \<and> nr_messageId ` set (es_notifications st) \<subseteq> set (es_newsletters st)
     \<and> nr_messageId ` set (es_systemNotifications st) \<subseteq> set (es_systemMails st)"

lemma upsert_ok:
  assumes "upsert_notification parents fresh n m t raw ts rows = Inr rows'"
    and "distinct (map nr_notificationId rows)" "nr_messageId ` set rows \<subseteq> set parents"
  shows "distinct (map nr_notificationId rows') \<and> nr_messageId ` set rows' \<subseteq> set parents
     \<and> set (map nr_notificationId rows) \<subseteq> set (map nr_notificationId rows')"
proof -
  obtain k where k: "m = JStr k" "k \<in> set parents"
    using assms(1) by (auto simp: upsert_notification_def foreign_key_failure_def prisma_failure_def split: js.splits if_splits)
  let ?put = "\<lambda>r. r\<lparr>nr_messageId := k, nr_type := t, nr_rawEvent := raw, nr_timestamp := ts\<rparr>"
  let ?new = "\<lparr>nr_id = fst fresh, nr_notificationId = n, nr_messageId = k, nr_type = t, nr_rawEvent = raw, nr_timestamp = ts, nr_created = snd fresh\<rparr>"
  have rows': "rows' = upsert_row nr_notificationId n ?put ?new rows" using assms(1) k by (simp add: upsert_notification_def)
  have ids: "map nr_notificationId rows' = (if n \<in> nr_notificationId ` set rows then map nr_notificationId rows else map nr_notificationId rows @ [n])"
    unfolding rows' by (rule upsert_row_keys) simp_all
  have "nr_messageId ` set rows' \<subseteq> insert k (nr_messageId ` set rows)" unfolding rows' by (auto simp: upsert_row_def)
  then show ?thesis using ids assms(2,3) k(2) by auto
qed

lemma save_newsletter_ok:
  assumes "saveNewsletterNotification fresh ev st = Inr st'" "tables_ok st"
  shows "tables_ok st' \<and> set (map nr_notificationId (es_notifications st)) \<subseteq> set (map nr_notificationId (es_notifications st'))
     \<and> es_orphans st' = es_orphans st \<and> es_systemNotifications st' = es_systemNotifications st"
proof -
  obtain rows where "upsert_notification (es_newsletters st) fresh (ne_notificationId ev) (ne_messageId ev) (ne_type ev) (ne_raw ev)
      (ne_timestamp ev) (es_notifications st) = Inr rows" "st' = st\<lparr>es_notifications := rows\<rparr>"
    using assms(1) by (auto simp: saveNewsletterNotification_def)
  with upsert_ok [OF this(1)] assms(2) show ?thesis by (simp add: tables_ok_def)
qed

lemma save_system_ok:
  assumes "saveSystemEmailEvent fresh ev st = Inr st'" "tables_ok st"
  shows "tables_ok st' \<and> set (map nr_notificationId (es_systemNotifications st)) \<subseteq> set (map nr_notificationId (es_systemNotifications st'))
     \<and> es_orphans st' = es_orphans st \<and> es_notifications st' = es_notifications st"
proof -
  obtain rows where "upsert_notification (es_systemMails st) fresh (ne_notificationId ev) (ne_messageId ev) (ne_type ev) (ne_raw ev)
      (ne_timestamp ev) (es_systemNotifications st) = Inr rows" "st' = st\<lparr>es_systemNotifications := rows\<rparr>"
    using assms(1) by (auto simp: saveSystemEmailEvent_def)
  with upsert_ok [OF this(1)] assms(2) show ?thesis by (simp add: tables_ok_def)
qed

lemma save_orphan_ok:
  assumes "saveNewsletterNotificationOrphan fresh ev st = Inr st'" "tables_ok st"
  shows "tables_ok st' \<and> set (map or_notificationId (es_orphans st)) \<subseteq> set (map or_notificationId (es_orphans st'))
     \<and> es_notifications st' = es_notifications st \<and> es_systemNotifications st' = es_systemNotifications st"
proof -
  obtain m where m: "ne_messageId ev = JStr m"
    using assms(1) by (cases "ne_messageId ev") (auto simp: saveNewsletterNotificationOrphan_def prisma_failure_def)
  let ?put = "\<lambda>r. r\<lparr>or_messageId := m, or_type := ne_type ev, or_rawEvent := ne_raw ev, or_timestamp := ne_timestamp ev,
      or_reason := lit ''missing_parent''\<rparr>"
  let ?new = "\<lparr>or_id = fst fresh, or_notificationId = ne_notificationId ev, or_messageId = m, or_type = ne_type ev,
      or_rawEvent = ne_raw ev, or_timestamp = ne_timestamp ev, or_reason = lit ''missing_parent'', or_reconciledAt = None\<rparr>"
  have st': "st' = st\<lparr>es_orphans := upsert_row or_notificationId (ne_notificationId ev) ?put ?new (es_orphans st)\<rparr>"
    using assms(1) by (simp add: saveNewsletterNotificationOrphan_def m)
  then have orphans: "es_orphans st' = upsert_row or_notificationId (ne_notificationId ev) ?put ?new (es_orphans st)" by simp
  have "map or_notificationId (es_orphans st') = (if ne_notificationId ev \<in> or_notificationId ` set (es_orphans st)
      then map or_notificationId (es_orphans st) else map or_notificationId (es_orphans st) @ [ne_notificationId ev])"
    unfolding orphans by (rule upsert_row_keys) simp_all
  moreover have "es_notifications st' = es_notifications st" "es_newsletters st' = es_newsletters st"
    "es_systemMails st' = es_systemMails st" "es_systemNotifications st' = es_systemNotifications st" by (simp_all add: st')
  ultimately show ?thesis using assms(2) by (auto simp: tables_ok_def)
qed

lemma reconcile_ok:
  assumes "reconcileNewsletterNotificationOrphan fresh now n st = Inr (res, st')" "tables_ok st"
  shows "tables_ok st' \<and> set (map nr_notificationId (es_notifications st)) \<subseteq> set (map nr_notificationId (es_notifications st'))
     \<and> map or_notificationId (es_orphans st') = map or_notificationId (es_orphans st)
     \<and> es_systemNotifications st' = es_systemNotifications st"
  using assms(1)
proof (cases rule: reconcile_cases)
  case (moved orphan rows)
  have orphans: "map or_notificationId (es_orphans st') = map or_notificationId (es_orphans st)" by (simp add: moved(7))
  have parts: "es_notifications st' = rows" "es_newsletters st' = es_newsletters st" "es_systemMails st' = es_systemMails st"
    "es_systemNotifications st' = es_systemNotifications st" by (simp_all add: moved(7))
  from upsert_ok [OF moved(6)] assms(2) show ?thesis unfolding tables_ok_def parts orphans by blast
qed (simp_all add: assms(2))

section \<open>Acknowledged events stay\<close>

text \<open>What keeps an acknowledged event: a row of its own, or the deletion of that row by the retention run.\<close>

definition kept :: "event_system \<Rightarrow> event_queue \<Rightarrow> jstr \<Rightarrow> bool" where
  "kept s q n \<longleftrightarrow> (case q of
     NewsletterQueue \<Rightarrow> n \<in> set (map nr_notificationId (es_notifications (vs_store s)))
       \<or> n \<in> set (map or_notificationId (es_orphans (vs_store s))) \<or> n \<in> set (vs_removed s)
   | SystemQueue \<Rightarrow> n \<in> set (map nr_notificationId (es_systemNotifications (vs_store s))))"

lemma step_store:
  assumes "event_step (queue_config q) fresh reply p st = Some (p', st')" "tables_ok st"
  shows "tables_ok st' \<and> set (map nr_notificationId (es_notifications st)) \<subseteq> set (map nr_notificationId (es_notifications st'))
     \<and> set (map or_notificationId (es_orphans st)) \<subseteq> set (map or_notificationId (es_orphans st'))
     \<and> set (map nr_notificationId (es_systemNotifications st)) \<subseteq> set (map nr_notificationId (es_systemNotifications st'))"
proof -
  have "st' = st \<or> (\<exists>ev. saveNewsletterNotification fresh ev st = Inr st' \<or> saveSystemEmailEvent fresh ev st = Inr st'
      \<or> saveNewsletterNotificationOrphan fresh ev st = Inr st')"
    using assms(1)
    by (cases q; cases p)
      (auto simp: queue_config_def newsletter_events_def system_events_def split: db_reply.splits sum.splits option.splits)
  then show ?thesis
  proof (elim disjE exE)
    fix ev assume "saveNewsletterNotification fresh ev st = Inr st'"
    from save_newsletter_ok [OF this assms(2)] show ?thesis by simp
  next
    fix ev assume "saveSystemEmailEvent fresh ev st = Inr st'"
    from save_system_ok [OF this assms(2)] show ?thesis by simp
  next
    fix ev assume "saveNewsletterNotificationOrphan fresh ev st = Inr st'"
    from save_orphan_ok [OF this assms(2)] show ?thesis by simp
  qed (simp add: assms(2))
qed

lemma acked_kept:
  assumes "event_step (queue_config q) fresh reply p (vs_store s) = Some (Acked (Some ev), st')"
  shows "kept (s\<lparr>vs_store := st', vs_handlers := hs, vs_acked := as\<rparr>) q (ne_notificationId ev)"
proof (cases q)
  case NewsletterQueue
  with assms have "newsletter_holds ev st'" by (simp add: queue_config_def newsletter_contract.acked_holds)
  then have "ne_notificationId ev \<in> nr_notificationId ` set (es_notifications st')
      \<or> ne_notificationId ev \<in> or_notificationId ` set (es_orphans st')"
    unfolding newsletter_holds_def by (metis imageI stored_id orphaned_id)
  then show ?thesis by (auto simp: NewsletterQueue kept_def)
next
  case SystemQueue
  with assms have "system_holds ev st'" by (simp add: queue_config_def system_contract.acked_holds)
  then have "ne_notificationId ev \<in> nr_notificationId ` set (es_systemNotifications st')"
    unfolding system_holds_def by (metis imageI stored_id)
  then show ?thesis by (simp add: SystemQueue kept_def)
qed

lemma action_kept:
  assumes "event_action a s = Some s'" "tables_ok (vs_store s)"
  shows "tables_ok (vs_store s') \<and> (kept s q n \<longrightarrow> kept s' q n)
     \<and> (\<forall>(q, ev) \<in> set (vs_acked s') - set (vs_acked s). kept s' q (ne_notificationId ev))"
proof (cases a)
  case (Deliver q native_text date_of now body messageId)
  then show ?thesis using assms by (auto simp: kept_def split: event_queue.splits)
next
  case (StepHandler i fresh reply)
  obtain q0 p where i: "i < length (vs_handlers s)" "vs_handlers s ! i = (q0, p)"
    using assms(1) StepHandler by (cases "vs_handlers s ! i") (auto split: if_splits)
  then obtain p' st where step: "event_step (queue_config q0) fresh reply p (vs_store s) = Some (p', st)"
    and s': "s' = s\<lparr>vs_store := st, vs_handlers := (vs_handlers s)[i := (q0, p')], vs_acked := vs_acked s @ newly_acked q0 p'\<rparr>"
    using assms(1) StepHandler by (auto split: option.splits)
  note store = step_store [OF step assms(2)]
  have "kept s q n \<longrightarrow> kept s' q n" using store by (auto simp: kept_def s' split: event_queue.splits)
  moreover have "\<forall>(q, ev) \<in> set (vs_acked s') - set (vs_acked s). kept s' q (ne_notificationId ev)"
  proof (cases "\<exists>ev. p' = Acked (Some ev)")
    case True
    then obtain ev where ev: "p' = Acked (Some ev)" by blast
    then have "kept s' q0 (ne_notificationId ev)" unfolding s' using step by (intro acked_kept) simp
    then show ?thesis unfolding s' newly_acked_def ev by auto
  next
    case False
    then have "newly_acked q0 p' = []" by (auto simp: newly_acked_def split: event_phase.splits option.splits)
    then show ?thesis by (simp add: s')
  qed
  ultimately show ?thesis using store by (simp add: s')
next
  case (ReconcileOrphan fresh now m)
  show ?thesis
  proof (cases "reconcileNewsletterNotificationOrphan fresh now m (vs_store s)")
    case (Inl e)
    then show ?thesis using assms ReconcileOrphan by simp
  next
    case (Inr r)
    obtain res st where r: "r = (res, st)" by force
    have "s' = s\<lparr>vs_store := st\<rparr>" using assms(1) ReconcileOrphan Inr r by simp
    moreover have "set (map or_notificationId (es_orphans st)) = set (map or_notificationId (es_orphans (vs_store s)))"
      using reconcile_ok [OF Inr [unfolded r] assms(2)] by metis
    ultimately show ?thesis
      using reconcile_ok [OF Inr [unfolded r] assms(2)] by (auto simp: kept_def split: event_queue.splits)
  qed
next
  case (MailRecorded q0 m)
  have wider: "A \<subseteq> set ks \<Longrightarrow> A \<subseteq> set (ks @ [m])" for A ks by auto
  show ?thesis
  proof (cases q0)
    case NewsletterQueue
    then have s': "s' = s\<lparr>vs_store := (vs_store s)\<lparr>es_newsletters := es_newsletters (vs_store s) @ [m]\<rparr>\<rparr>"
      using assms(1) MailRecorded by simp
    show ?thesis using assms(2) wider by (simp add: s' kept_def tables_ok_def del: set_append split: event_queue.splits)
  next
    case SystemQueue
    then have s': "s' = s\<lparr>vs_store := (vs_store s)\<lparr>es_systemMails := es_systemMails (vs_store s) @ [m]\<rparr>\<rparr>"
      using assms(1) MailRecorded by simp
    show ?thesis using assms(2) wider by (simp add: s' kept_def tables_ok_def del: set_append split: event_queue.splits)
  qed
next
  case (RetentionDeletes m)
  let ?rows = "es_notifications (vs_store s)"
  let ?rest = "filter (\<lambda>r. nr_messageId r \<noteq> m) ?rows" and ?gone = "filter (\<lambda>r. nr_messageId r = m) ?rows"
  have rest: "distinct (map nr_notificationId ?rest) \<and> nr_messageId ` set ?rest \<subseteq> set (filter (\<lambda>k. k \<noteq> m) (es_newsletters (vs_store s)))"
    using assms(2) by (auto simp: tables_ok_def distinct_map_filter)
  have split: "set (map nr_notificationId ?rows) = set (map nr_notificationId ?rest) \<union> set (map nr_notificationId ?gone)" by auto
  have s': "s' = s\<lparr>vs_store := (vs_store s)\<lparr>es_newsletters := filter (\<lambda>k. k \<noteq> m) (es_newsletters (vs_store s)), es_notifications := ?rest\<rparr>,
     vs_removed := vs_removed s @ map nr_notificationId ?gone\<rparr>" using assms(1) RetentionDeletes by simp
  have "kept s q n \<longrightarrow> kept s' q n" using split by (auto simp: kept_def s' simp del: set_map split: event_queue.splits)
  moreover have "tables_ok (vs_store s')" using rest assms(2) by (simp add: s' tables_ok_def)
  moreover have "vs_acked s' = vs_acked s" by (simp add: s')
  ultimately show ?thesis by simp
qed

lemma reachable_kept:
  assumes "event_reachable st s" "tables_ok st"
  shows "tables_ok (vs_store s) \<and> (\<forall>(q, ev) \<in> set (vs_acked s). kept s q (ne_notificationId ev))"
  using assms(1)
proof (induction rule: event_reachable.induct)
  case quiet
  then show ?case using assms(2) by (simp add: quiet_system_def)
next
  case (act s a s')
  note step = action_kept [OF act.hyps(2) conjunct1 [OF act.IH]]
  have "kept s' q (ne_notificationId ev)" if "(q, ev) \<in> set (vs_acked s')" for q ev
  proof (cases "(q, ev) \<in> set (vs_acked s)")
    case True
    then show ?thesis using act.IH step by auto
  next
    case False
    then have "(q, ev) \<in> set (vs_acked s') - set (vs_acked s)" using that by blast
    then show ?thesis using step by fast
  qed
  then show ?case using step by auto
qed

text \<open>
  C5: no acknowledged event is lost. Over any interleaving of handlers, with failing database calls and
  lost answers, mails being recorded, orphans reconciled and messages deleted by the retention run: for
  every tracked event a newsletter handler acknowledged there is still a notification or an orphan with
  its notification id, unless the retention run deleted that row with its message; for the system
  queue there always is one; ids stay unique in each table, and no notification is without its parent.
\<close>

theorem acknowledged_events_are_kept:
  assumes "event_reachable st s" "tables_ok st"
  shows "tables_ok (vs_store s) \<and> \<not> (\<exists>(q, ev) \<in> set (vs_acked s). \<not> kept s q (ne_notificationId ev))"
  using reachable_kept [OF assms] by blast

text \<open>A parent that disappears between the lookup and the save: the event ends as an orphan, and is reconciled later.\<close>

definition empty_store :: event_store where
  "empty_store = \<lparr>es_newsletters = [lit ''m1''], es_systemMails = [], es_notifications = [], es_systemNotifications = [], es_orphans = []\<rparr>"

definition example_body :: js where
  "example_body = obj [(''eventType'', JStr (lit ''Open'')), (''mail'', obj [(''messageId'', JStr (lit ''m1'')),
     (''timestamp'', jint 7), (''tags'', obj [(''ghost-email'', JArr [JStr (lit ''true'')])])])]"

definition example_opened :: notification_event where
  "example_opened = \<lparr>ne_notificationId = lit ''q1'', ne_type = lit ''opened'', ne_newsletter = True, ne_transactional = False,
     ne_messageId = JStr (lit ''m1''), ne_timestamp = 7, ne_raw = json_text example_body\<rparr>"

lemma example_delivered:
  "start_event (\<lambda>_. []) (\<lambda>_. None) 5 (Some (json_text example_body)) (Some (lit ''q1'')) = LookingUp example_opened"
proof -
  have "plain example_body" using safe_int_of_num_int [of 7] by (simp add: example_body_def max_safe_def)
  then have parse: "json_parse (json_text example_body) = Some example_body" by (rule json_parse_text)
  then have ne: "json_text example_body \<noteq> []" by (auto simp: json_parse_def)
  have type: "event_type (\<lambda>_. []) (lit ''Open'') = lit ''opened''" by code_simp
  define raw where "raw = json_text example_body"
  have parsed: "parse_text raw = Inr example_body" by (simp add: parse_text_def parse raw_def)
  have sns: "unwrap_sns example_body = Inr example_body" by (simp add: unwrap_sns_def read_prop_def example_body_def)
  have "parseNotificationEvent (\<lambda>_. []) (\<lambda>_. None) 5 (lit ''q1'') raw
      = Inr \<lparr>ne_notificationId = lit ''q1'', ne_type = lit ''opened'', ne_newsletter = True, ne_transactional = False,
          ne_messageId = JStr (lit ''m1''), ne_timestamp = 7, ne_raw = raw\<rparr>"
    unfolding parseNotificationEvent_def parsed bindE_simps sns
    by (simp add: read_prop_def example_body_def type normalizeEventTimestamp_def time_clip_def Let_def)
  then have "parseNotificationEvent (\<lambda>_. []) (\<lambda>_. None) 5 (lit ''q1'') (json_text example_body) = Inr example_opened"
    by (simp add: raw_def example_opened_def)
  moreover have "lit ''q1'' \<noteq> []" by simp
  ultimately show ?thesis using ne
    by (cases "json_text example_body"; cases "lit ''q1''") (simp_all add: start_event_def example_opened_def)
qed

theorem acknowledged_events_are_kept_witness:
  "\<exists>s. event_reachable empty_store s \<and> vs_acked s = [(NewsletterQueue, example_opened)] \<and> kept s NewsletterQueue (lit ''q1'')"
proof -
  have s0: "event_reachable empty_store (quiet_system empty_store)" by (rule event_reachable.quiet)
  let ?deliver = "Deliver NewsletterQueue (\<lambda>_. []) (\<lambda>_. None) 5 (Some (json_text example_body)) (Some (lit ''q1''))"
  let ?fresh = "(lit ''n1'', 6)"
  obtain s1 where s1: "event_action ?deliver (quiet_system empty_store) = Some s1"
      "s1 = (quiet_system empty_store)\<lparr>vs_handlers := [(NewsletterQueue, LookingUp example_opened)]\<rparr>"
    by (simp add: quiet_system_def example_delivered)
  obtain s2 where s2: "event_action (StepHandler 0 ?fresh DbAnswers) s1 = Some s2"
      "s2 = s1\<lparr>vs_handlers := [(NewsletterQueue, Saving example_opened)]\<rparr>"
    by (simp add: s1(2) quiet_system_def queue_config_def newsletter_events_def getNewsletterMessage_def lookup_in_def
        empty_store_def example_opened_def newly_acked_def)
  obtain s3 where s3: "event_action (RetentionDeletes (lit ''m1'')) s2 = Some s3"
      "s3 = s2\<lparr>vs_store := empty_store\<lparr>es_newsletters := []\<rparr>\<rparr>"
    by (simp add: s2(2) s1(2) quiet_system_def empty_store_def)
  obtain s4 where s4: "event_action (StepHandler 0 ?fresh DbAnswers) s3 = Some s4"
      "s4 = s3\<lparr>vs_handlers := [(NewsletterQueue, Persisting example_opened)]\<rparr>"
    by (simp add: s3(2) s2(2) s1(2) quiet_system_def queue_config_def newsletter_events_def saveNewsletterNotification_def
        upsert_notification_def foreign_key_failure_def save_failed_def missing_parent_def isNewsletterNotificationForeignKeyError_def
        empty_store_def example_opened_def newly_acked_def)
  obtain s5 where s5: "event_action (StepHandler 0 ?fresh DbAnswers) s4 = Some s5" "vs_acked s5 = [(NewsletterQueue, example_opened)]"
    by (simp add: s4(2) s3(2) s2(2) s1(2) quiet_system_def queue_config_def newsletter_events_def saveNewsletterNotificationOrphan_def
        empty_store_def example_opened_def newly_acked_def)
  have "event_reachable empty_store s5"
    by (rule event_reachable.act [OF event_reachable.act [OF event_reachable.act [OF event_reachable.act
        [OF event_reachable.act [OF s0 s1(1)] s2(1)] s3(1)] s4(1)] s5(1)])
  moreover have "tables_ok empty_store" by (simp add: tables_ok_def empty_store_def)
  ultimately have "event_reachable empty_store s5" "kept s5 NewsletterQueue (ne_notificationId example_opened)"
    using acknowledged_events_are_kept [of empty_store s5] s5(2) by auto
  then show ?thesis using s5(2) by (intro exI [of _ s5]) (simp add: example_opened_def)
qed

end
