(* ===== verification/Utf8.thy ===== *)
theory Utf8
  imports JsonText
begin

text \<open>
  UTF-8 as the program uses it: \<^verbatim>\<open>TextEncoder.encode\<close> and \<^verbatim>\<open>Buffer.byteLength\<close>, where a lone
  surrogate becomes U+FFFD, and \<^verbatim>\<open>new TextDecoder('utf-8', { fatal: true })\<close>, which refuses malformed
  input and drops a leading byte order mark. Strings without lone surrogates survive the way to
  bytes and back; quoted JSON text has none.
\<close>

type_synonym byte = "8 word"

definition byte_of :: "nat \<Rightarrow> byte" where
  "byte_of n = word_of_nat n"

definition unit_of :: "nat \<Rightarrow> unit16" where
  "unit_of n = word_of_nat n"

definition code_point_bytes :: "nat \<Rightarrow> byte list" where
  "code_point_bytes n = map byte_of
     (if n < 128 then [n]
      else if n < 2048 then [192 + n div 64, 128 + n mod 64]
      else if n < 65536 then [224 + n div 4096, 128 + n div 64 mod 64, 128 + n mod 64]
      else [240 + n div 262144, 128 + n div 4096 mod 64, 128 + n div 64 mod 64, 128 + n mod 64])"

definition surrogate_code_point :: "unit16 \<Rightarrow> unit16 \<Rightarrow> nat" where
  "surrogate_code_point c d = 65536 + (unat c - 55296) * 1024 + (unat d - 56320)"

fun utf8_encode :: "jstr \<Rightarrow> byte list" where
  "utf8_encode [] = []"
| "utf8_encode [c] = code_point_bytes (if is_high_surrogate c \<or> is_low_surrogate c then 65533 else unat c)"
| "utf8_encode (c # d # s) =
     (if is_high_surrogate c
      then if is_low_surrogate d then code_point_bytes (surrogate_code_point c d) @ utf8_encode s
           else code_point_bytes 65533 @ utf8_encode (d # s)
      else if is_low_surrogate c then code_point_bytes 65533 @ utf8_encode (d # s)
      else code_point_bytes (unat c) @ utf8_encode (d # s))"

text \<open>\<^verbatim>\<open>Buffer.byteLength(s)\<close>\<close>

definition utf8_length :: "jstr \<Rightarrow> int" where
  "utf8_length s = int (length (utf8_encode s))"

definition code_point_units :: "nat \<Rightarrow> jstr" where
  "code_point_units n =
     (if n < 65536 then [unit_of n]
      else [unit_of (55296 + (n - 65536) div 1024), unit_of (56320 + (n - 65536) mod 1024)])"

definition is_continuation :: "byte \<Rightarrow> bool" where
  "is_continuation b \<longleftrightarrow> 128 \<le> unat b \<and> unat b < 192"

text \<open>The decoder's table of well-formed sequences: no overlong form, no surrogate, nothing past U+10FFFF.\<close>

fun utf8_units :: "byte list \<Rightarrow> jstr option" where
  "utf8_units [] = Some []"
| "utf8_units (a # bs) =
     (let n = unat a in
      if n < 128 then map_option ((@) (code_point_units n)) (utf8_units bs)
      else if 194 \<le> n \<and> n < 224 then
        (case bs of
           b # r \<Rightarrow> if is_continuation b
             then map_option ((@) (code_point_units ((n - 192) * 64 + (unat b - 128)))) (utf8_units r)
             else None
         | _ \<Rightarrow> None)
      else if 224 \<le> n \<and> n < 240 then
        (case bs of
           b # c # r \<Rightarrow> if is_continuation b \<and> is_continuation c \<and> (n = 224 \<longrightarrow> 160 \<le> unat b)
               \<and> (n = 237 \<longrightarrow> unat b < 160)
             then map_option ((@) (code_point_units
                    ((n - 224) * 4096 + (unat b - 128) * 64 + (unat c - 128)))) (utf8_units r)
             else None
         | _ \<Rightarrow> None)
      else if 240 \<le> n \<and> n < 245 then
        (case bs of
           b # c # d # r \<Rightarrow> if is_continuation b \<and> is_continuation c \<and> is_continuation d
               \<and> (n = 240 \<longrightarrow> 144 \<le> unat b) \<and> (n = 244 \<longrightarrow> unat b < 144)
             then map_option ((@) (code_point_units ((n - 240) * 262144 + (unat b - 128) * 4096
                    + (unat c - 128) * 64 + (unat d - 128)))) (utf8_units r)
             else None
         | _ \<Rightarrow> None)
      else None)"

definition utf8_bom :: "byte list" where
  "utf8_bom = [239, 187, 191]"

definition utf8_decode :: "byte list \<Rightarrow> jstr option" where
  "utf8_decode bs = utf8_units (if take 3 bs = utf8_bom then drop 3 bs else bs)"

fun well_formed_utf16 :: "jstr \<Rightarrow> bool" where
  "well_formed_utf16 [] = True"
| "well_formed_utf16 [c] = (\<not> is_high_surrogate c \<and> \<not> is_low_surrogate c)"
| "well_formed_utf16 (c # d # s) =
     (if is_high_surrogate c then is_low_surrogate d \<and> well_formed_utf16 s
      else \<not> is_low_surrogate c \<and> well_formed_utf16 (d # s))"

section \<open>Decoding inverts encoding\<close>

lemma unat_byte_of [simp]: "n < 256 \<Longrightarrow> unat (byte_of n) = n"
  by (simp add: byte_of_def unat_of_nat)

lemma unit_of_unat [simp]: "unit_of (unat c) = c"
  by (simp add: unit_of_def)

definition scalar_value :: "nat \<Rightarrow> bool" where
  "scalar_value n \<longleftrightarrow> n < 55296 \<or> 57344 \<le> n \<and> n < 1114112"

lemma digits64:
  fixes n :: nat
  shows "n div 64 * 64 + n mod 64 = n"
    "n div 4096 * 4096 + n div 64 mod 64 * 64 + n mod 64 = n"
    "n div 262144 * 262144 + n div 4096 mod 64 * 4096 + n div 64 mod 64 * 64 + n mod 64 = n"
proof -
  have d: "n div 64 div 64 = n div 4096" "n div 4096 div 64 = n div 262144" by (simp_all flip: div_mult2_eq)
  show 1: "n div 64 * 64 + n mod 64 = n" by simp
  have 2: "n div 4096 * 64 + n div 64 mod 64 = n div 64" using div_mult_mod_eq [of "n div 64" 64] by (simp add: d)
  have 3: "n div 262144 * 64 + n div 4096 mod 64 = n div 4096" using div_mult_mod_eq [of "n div 4096" 64] by (simp add: d)
  show "n div 4096 * 4096 + n div 64 mod 64 * 64 + n mod 64 = n" using 1 2 by linarith
  show "n div 262144 * 262144 + n div 4096 mod 64 * 4096 + n div 64 mod 64 * 64 + n mod 64 = n"
    using 1 2 3 by linarith
qed

lemma decode_code_point:
  assumes "scalar_value n"
  shows "utf8_units (code_point_bytes n @ bs) = map_option ((@) (code_point_units n)) (utf8_units bs)"
proof -
  have m: "n mod 64 < 64" "n div 64 mod 64 < 64" "n div 4096 mod 64 < 64" by simp_all
  consider "n < 128" | "128 \<le> n" "n < 2048" | "2048 \<le> n" "n < 65536" | "65536 \<le> n" "n < 1114112"
    using assms by (fastforce simp: scalar_value_def)
  then show ?thesis
  proof cases
    case 1
    then show ?thesis by (simp add: code_point_bytes_def)
  next
    case 2
    define h l where "h = n div 64" and "l = n mod 64"
    have "2 \<le> h" "h < 32" "l < 64" and n: "h * 64 + l = n"
      using 2 m digits64(1) [of n] by (simp_all add: h_def l_def less_eq_div_iff_mult_less_eq div_less_iff_less_mult)
    moreover have "code_point_bytes n = [byte_of (192 + h), byte_of (128 + l)]"
      using 2 by (simp add: code_point_bytes_def h_def l_def)
    ultimately show ?thesis
      by (simp add: Let_def is_continuation_def)
  next
    case 3
    define h m l where "h = n div 4096" and "m = n div 64 mod 64" and "l = n mod 64"
    have n: "h * 4096 + m * 64 + l = n" and "h < 16" "m < 64" "l < 64"
      using 3 digits64(2) [of n] by (simp_all add: h_def m_def l_def div_less_iff_less_mult)
    moreover from this have "h = 0 \<longrightarrow> 32 \<le> m" using 3 by linarith
    moreover have "h = 13 \<longrightarrow> m < 32" using n \<open>m < 64\<close> \<open>l < 64\<close> assms 3 by (auto simp: scalar_value_def)
    moreover have "code_point_bytes n = [byte_of (224 + h), byte_of (128 + m), byte_of (128 + l)]"
      using 3 by (simp add: code_point_bytes_def h_def m_def l_def)
    ultimately show ?thesis by (simp add: Let_def is_continuation_def)
  next
    case 4
    define h m k l where "h = n div 262144" and "m = n div 4096 mod 64" and "k = n div 64 mod 64" and "l = n mod 64"
    have n: "h * 262144 + m * 4096 + k * 64 + l = n" and "h < 5" "m < 64" "k < 64" "l < 64"
      using 4 digits64(3) [of n] by (simp_all add: h_def m_def k_def l_def div_less_iff_less_mult)
    moreover from this have "h = 0 \<longrightarrow> 16 \<le> m" "h = 4 \<longrightarrow> m < 16" using 4 by linarith+
    moreover have "code_point_bytes n = [byte_of (240 + h), byte_of (128 + m), byte_of (128 + k), byte_of (128 + l)]"
      using 4 by (simp add: code_point_bytes_def h_def m_def k_def l_def)
    ultimately show ?thesis by (simp add: Let_def is_continuation_def)
  qed
qed

lemma surrogate_ranges:
  "is_high_surrogate c \<Longrightarrow> 55296 \<le> unat c \<and> unat c < 56320"
  "is_low_surrogate c \<Longrightarrow> 56320 \<le> unat c \<and> unat c < 57344"
  by (simp_all add: is_high_surrogate_def is_low_surrogate_def)

lemma unat_unit16_less: "unat (c :: unit16) < 65536"
  using unsigned_less [of c, where 'a = nat] by simp

lemma units_surrogate_pair:
  assumes "is_high_surrogate c" "is_low_surrogate d"
  shows "scalar_value (surrogate_code_point c d)" "code_point_units (surrogate_code_point c d) = [c, d]"
proof -
  note r = surrogate_ranges(1) [OF assms(1)] surrogate_ranges(2) [OF assms(2)]
  obtain a b where ab: "unat c = 55296 + a" "a < 1024" "unat d = 56320 + b" "b < 1024"
  proof
    show "unat c = 55296 + (unat c - 55296)" "unat d = 56320 + (unat d - 56320)"
      "unat c - 55296 < 1024" "unat d - 56320 < 1024" using r by linarith+
  qed
  then have n: "surrogate_code_point c d = 65536 + a * 1024 + b" by (simp add: surrogate_code_point_def)
  show "scalar_value (surrogate_code_point c d)" using ab by (simp add: n scalar_value_def)
  have c: "unit_of (55296 + a) = c" and d: "unit_of (56320 + b) = d"
    using ab by (metis unit_of_unat)+
  show "code_point_units (surrogate_code_point c d) = [c, d]"
    using ab by (simp add: n code_point_units_def c d)
qed

lemma utf8_units_encode: "well_formed_utf16 s \<Longrightarrow> utf8_units (utf8_encode s) = Some s"
proof (induction s rule: well_formed_utf16.induct)
  case (2 c)
  have "scalar_value (unat c)"
    using 2 unat_unit16_less [of c] by (auto simp: scalar_value_def is_high_surrogate_def is_low_surrogate_def)
  from decode_code_point [OF this, of "[]"] show ?case
    using 2 unat_unit16_less [of c] by (simp add: code_point_units_def)
next
  case (3 c d s)
  show ?case
  proof (cases "is_high_surrogate c")
    case True
    then show ?thesis using 3 by (simp add: decode_code_point units_surrogate_pair)
  next
    case False
    have "scalar_value (unat c)"
      using 3 False unat_unit16_less [of c] by (auto simp: scalar_value_def is_high_surrogate_def is_low_surrogate_def)
    then show ?thesis using 3 False unat_unit16_less [of c] by (simp add: decode_code_point code_point_units_def)
  qed
qed simp

section \<open>JSON text is well formed\<close>

lemma well_formed_append: "well_formed_utf16 a \<Longrightarrow> well_formed_utf16 (a @ b) = well_formed_utf16 b"
proof (induction a rule: well_formed_utf16.induct)
  case (2 c)
  then show ?case by (cases b) auto
qed (auto split: if_splits)

lemma not_surrogate_well_formed: "\<not> is_high_surrogate c \<Longrightarrow> \<not> is_low_surrogate c \<Longrightarrow>
    well_formed_utf16 (c # s) = well_formed_utf16 s"
  using well_formed_append [of "[c]" s] by simp

lemma small_not_surrogate: "unat c < 55296 \<Longrightarrow> \<not> is_high_surrogate c \<and> \<not> is_low_surrogate c"
  by (simp add: is_high_surrogate_def is_low_surrogate_def)

lemma ascii_well_formed: "list_all (\<lambda>c. unat c < 55296) s \<Longrightarrow> well_formed_utf16 s"
  by (induction s) (simp_all add: not_surrogate_well_formed small_not_surrogate)

lemma hex_unit_small: "n < 16 \<Longrightarrow> unat (hex_unit n) < 55296"
  by (simp add: hex_unit_def unat_small del: of_nat_add)

lemma escape_well_formed: "well_formed_utf16 (unicode_escape c)"
proof (rule ascii_well_formed)
  have "unat c div 4096 < 16" using unat_unit16_less [of c] by (simp add: div_less_iff_less_mult)
  then show "list_all (\<lambda>c. unat c < 55296) (unicode_escape c)"
    by (simp add: unicode_escape_def hex4_def hex_unit_small Let_def)
qed

lemma quote_unit_well_formed: "\<not> is_high_surrogate c \<Longrightarrow> \<not> is_low_surrogate c \<Longrightarrow> well_formed_utf16 (quote_unit c)"
  by (simp add: quote_unit_def escape_well_formed not_surrogate_well_formed small_not_surrogate)

lemma quote_units_well_formed: "well_formed_utf16 (quote_units s)"
proof (induction s rule: quote_units.induct)
  case (3 c d s)
  then show ?case
    by (auto simp: well_formed_append escape_well_formed quote_unit_well_formed)
qed (auto simp: escape_well_formed quote_unit_well_formed)

lemma json_quote_well_formed: "well_formed_utf16 (json_quote s)"
  by (simp add: json_quote_def not_surrogate_well_formed small_not_surrogate well_formed_append
      quote_units_well_formed)

lemma join_well_formed:
  "well_formed_utf16 sep \<Longrightarrow> list_all well_formed_utf16 ts \<Longrightarrow> well_formed_utf16 (join_with sep ts)"
  by (induction sep ts rule: join_with.induct) (simp_all add: well_formed_append)

lemma digits_well_formed: "list_all is_digit s \<Longrightarrow> well_formed_utf16 s"
  by (rule ascii_well_formed) (auto simp: list_all_iff is_digit_def)

lemma int_string_well_formed: "well_formed_utf16 (int_string n)"
proof -
  have "well_formed_utf16 (dec_string m)" if "0 \<le> m" for m
    using dec_string_digits [OF that] digits_well_formed by (auto simp: is_digits_def)
  moreover have "lit ''-'' = [45]" by code_simp
  ultimately show ?thesis
    by (simp add: int_string_def not_surrogate_well_formed small_not_surrogate)
qed

lemma json_text_well_formed: "plain v \<Longrightarrow> well_formed_utf16 (json_text v)"
proof (induction v)
  case (JArr vs)
  then have "list_all well_formed_utf16 (map json_text vs)" by (auto simp: list_all_iff)
  then show ?case
    using JArr.prems by (simp add: json_text_arr not_surrogate_well_formed small_not_surrogate
        well_formed_append join_well_formed)
next
  case (JObj p kvs)
  have "well_formed_utf16 (json_text v)" if "v \<in> set (map snd kvs)" for v
    using JObj that by (fastforce simp: list_all_iff)
  then have "list_all well_formed_utf16 (map member_text kvs)"
    by (auto simp: list_all_iff member_text_def well_formed_append json_quote_well_formed
        not_surrogate_well_formed small_not_surrogate)
  then show ?case
    using JObj.prems by (simp add: json_text_obj not_surrogate_well_formed small_not_surrogate
        well_formed_append join_well_formed)
next
  case (JNum x)
  then show ?case
    by (auto simp: json_text_simps(5) int_string_well_formed safe_int_of_num_Some_iff)
next
  case (JBool b)
  then show ?case
    by (cases b) (simp_all add: json_text_simps not_surrogate_well_formed small_not_surrogate)
qed (simp_all add: json_text_simps json_quote_well_formed not_surrogate_well_formed small_not_surrogate)

end
