(* ===== verification/Base64.thy ===== *)
theory Base64
  imports Utf8
begin

text \<open>
  Base64 as the program meets it: \<^verbatim>\<open>Buffer.from(s, "base64url")\<close> and \<^verbatim>\<open>"base64"\<close>, which take both
  alphabets, skip every other character and stop at the first padding sign; \<^verbatim>\<open>toString("base64url")\<close>, which pads nothing; \<^verbatim>\<open>btoa\<close> and
  the strict \<^verbatim>\<open>atob\<close>. And \<^verbatim>\<open>Buffer.toString("utf8")\<close>, which replaces malformed bytes by U+FFFD.
\<close>

section \<open>Sextets\<close>

definition sextet_unit :: "bool \<Rightarrow> nat \<Rightarrow> unit16" where
  "sextet_unit url n = unit_of
     (if n < 26 then 65 + n else if n < 52 then 97 + (n - 26) else if n < 62 then 48 + (n - 52)
      else if n = 62 then (if url then 45 else 43) else (if url then 95 else 47))"

definition unit_sextet :: "unit16 \<Rightarrow> nat option" where
  "unit_sextet c =
     (let n = unat c
      in if 65 \<le> n \<and> n \<le> 90 then Some (n - 65) else if 97 \<le> n \<and> n \<le> 122 then Some (n - 97 + 26)
         else if 48 \<le> n \<and> n \<le> 57 then Some (n - 48 + 52)
         else if n = 43 \<or> n = 45 then Some 62 else if n = 47 \<or> n = 95 then Some 63 else None)"

fun sextets :: "byte list \<Rightarrow> nat list" where
  "sextets [] = []"
| "sextets [a] = [unat a div 4, unat a mod 4 * 16]"
| "sextets [a, b] = [unat a div 4, unat a mod 4 * 16 + unat b div 16, unat b mod 16 * 4]"
| "sextets (a # b # c # bs) =
     unat a div 4 # (unat a mod 4 * 16 + unat b div 16) # (unat b mod 16 * 4 + unat c div 64) # unat c mod 64 # sextets bs"

fun sextet_bytes :: "nat list \<Rightarrow> byte list" where
  "sextet_bytes (p # q # r # s # ns) =
     byte_of (p * 4 + q div 16) # byte_of (q mod 16 * 16 + r div 4) # byte_of (r mod 4 * 64 + s) # sextet_bytes ns"
| "sextet_bytes [p, q, r] = [byte_of (p * 4 + q div 16), byte_of (q mod 16 * 16 + r div 4)]"
| "sextet_bytes [p, q] = [byte_of (p * 4 + q div 16)]"
| "sextet_bytes ns = []"

definition base64_encode :: "bool \<Rightarrow> byte list \<Rightarrow> jstr" where
  "base64_encode url bs = map (sextet_unit url) (sextets bs)"

definition buffer_from_base64 :: "jstr \<Rightarrow> byte list" where
  "buffer_from_base64 s = sextet_bytes (List.map_filter unit_sextet (takeWhile (\<lambda>c. c \<noteq> 61) s))"

text \<open>\<^verbatim>\<open>btoa\<close> of a text within Latin-1 and \<^verbatim>\<open>atob\<close>; both throw outside their domain.\<close>

definition btoa :: "jstr \<Rightarrow> jstr option" where
  "btoa s = (if list_all (\<lambda>c. unat c < 256) s
     then Some (base64_encode False (map (byte_of \<circ> unat) s) @ replicate ((3 - length s mod 3) mod 3) 61) else None)"

definition is_ascii_space :: "unit16 \<Rightarrow> bool" where
  "is_ascii_space c \<longleftrightarrow> c \<in> {9, 10, 12, 13, 32}"

definition strip_padding :: "jstr \<Rightarrow> jstr" where
  "strip_padding s = (if length s mod 4 \<noteq> 0 then s
     else if drop (length s - 2) s = [61, 61] then take (length s - 2) s
     else if drop (length s - 1) s = [61] then take (length s - 1) s else s)"

definition atob :: "jstr \<Rightarrow> jstr option" where
  "atob s = (let t = strip_padding (filter (\<lambda>c. \<not> is_ascii_space c) s)
     in if length t mod 4 = 1 \<or> \<not> list_all (\<lambda>c. unit_sextet c \<noteq> None \<and> c \<noteq> 45 \<and> c \<noteq> 95) t then None
        else Some (map (unit_of \<circ> unat) (sextet_bytes (List.map_filter unit_sextet t))))"

lemma unat_byte_less: "unat (b :: byte) < 256"
  using unsigned_less [of b] by simp

lemma sextets_less: "n \<in> set (sextets bs) \<Longrightarrow> n < 64"
proof (induction bs rule: sextets.induct)
  case (2 a)
  then show ?case using unat_byte_less [of a] by auto
next
  case (3 a b)
  then show ?case using unat_byte_less [of a] unat_byte_less [of b] by auto
next
  case (4 a b c bs)
  then show ?case using unat_byte_less [of a] unat_byte_less [of b] unat_byte_less [of c] by auto
qed simp

lemma unat_unit_of: "n < 65536 \<Longrightarrow> unat (unit_of n) = n"
  by (simp add: unit_of_def unat_small)

lemma unit_sextet_unit: "n < 64 \<Longrightarrow> unit_sextet (sextet_unit url n) = Some n"
  unfolding sextet_unit_def by (auto simp: unit_sextet_def unat_unit_of Let_def split: if_splits)

lemma map_filter_sextets: "List.map_filter unit_sextet (base64_encode url bs) = sextets bs"
proof -
  have "\<forall>n \<in> set ns. n < 64 \<Longrightarrow> List.map_filter unit_sextet (map (sextet_unit url) ns) = ns" for ns
    by (induction ns) (simp_all add: List.map_filter_simps unit_sextet_unit)
  then show ?thesis unfolding base64_encode_def using sextets_less by blast
qed

lemma byte_of_unat: "byte_of (unat b) = b"
  by (simp add: byte_of_def)

lemma sextet_bytes_sextets: "sextet_bytes (sextets bs) = bs"
proof (induction bs rule: sextets.induct)
  case (2 a)
  have "unat a div 4 * 4 + unat a mod 4 * 16 div 16 = unat a" by simp
  then show ?case by (simp add: byte_of_unat)
next
  case (3 a b)
  have "(unat a mod 4 * 16 + unat b div 16) div 16 = unat a mod 4" using unat_byte_less [of b] by simp
  moreover have "(unat a mod 4 * 16 + unat b div 16) mod 16 * 16 + unat b mod 16 * 4 div 4 = unat b"
    using unat_byte_less [of b] by simp
  ultimately show ?case by (simp add: byte_of_unat)
next
  case (4 a b c bs)
  have 1: "(unat a mod 4 * 16 + unat b div 16) div 16 = unat a mod 4" using unat_byte_less [of b] by simp
  have 2: "(unat a mod 4 * 16 + unat b div 16) mod 16 = unat b div 16" using unat_byte_less [of b] by simp
  have 3: "(unat b mod 16 * 4 + unat c div 64) div 4 = unat b mod 16" using unat_byte_less [of c] by simp
  have 4: "(unat b mod 16 * 4 + unat c div 64) mod 4 = unat c div 64" using unat_byte_less [of c] by simp
  have 5: "unat b div 16 * 16 + unat b mod 16 = unat b" "unat c div 64 * 64 + unat c mod 64 = unat c" by simp_all
  show ?case by (simp only: sextets.simps sextet_bytes.simps 1 2 3 4 5 "4.IH" byte_of_unat div_mult_mod_eq)
qed simp

lemma base64_absent: "32 \<notin> set (base64_encode url bs)" "46 \<notin> set (base64_encode url bs)" "61 \<notin> set (base64_encode url bs)"
proof -
  have "c \<in> set (base64_encode url bs) \<Longrightarrow> unit_sextet c \<noteq> None" for c
    unfolding base64_encode_def using sextets_less unit_sextet_unit by fastforce
  moreover have "unit_sextet 32 = None" "unit_sextet 46 = None" "unit_sextet 61 = None" by (simp_all add: unit_sextet_def Let_def)
  ultimately show "32 \<notin> set (base64_encode url bs)" "46 \<notin> set (base64_encode url bs)" "61 \<notin> set (base64_encode url bs)"
    by blast+
qed

theorem buffer_base64_roundtrip: "buffer_from_base64 (base64_encode url bs) = bs"
proof -
  have "takeWhile (\<lambda>c. c \<noteq> 61) (base64_encode url bs) = base64_encode url bs"
    unfolding takeWhile_eq_all_conv using base64_absent(3) [of url bs] by blast
  then show ?thesis by (simp only: buffer_from_base64_def map_filter_sextets sextet_bytes_sextets)
qed

section \<open>Lossy UTF-8\<close>

text \<open>
  The WHATWG decoder: what a lead byte starts is the code point so far, how many bytes are missing and
  the range of the next; a byte out of range is read again as a lead.
\<close>

definition utf8_lead :: "nat \<Rightarrow> (nat \<times> nat \<times> nat \<times> nat) option" where
  "utf8_lead n =
     (if 194 \<le> n \<and> n < 224 then Some (n - 192, 1, 128, 191)
      else if 224 \<le> n \<and> n < 240 then Some (n - 224, 2, if n = 224 then 160 else 128, if n = 237 then 159 else 191)
      else if 240 \<le> n \<and> n < 245 then Some (n - 240, 3, if n = 240 then 144 else 128, if n = 244 then 143 else 191)
      else None)"

fun utf8_lossy :: "(nat \<times> nat \<times> nat \<times> nat) option \<Rightarrow> byte list \<Rightarrow> jstr" where
  "utf8_lossy None [] = []"
| "utf8_lossy (Some _) [] = [unit_of 65533]"
| "utf8_lossy None (b # bs) =
     (if unat b < 128 then unit_of (unat b) # utf8_lossy None bs
      else case utf8_lead (unat b) of
        None \<Rightarrow> unit_of 65533 # utf8_lossy None bs
      | Some st \<Rightarrow> utf8_lossy (Some st) bs)"
| "utf8_lossy (Some (cp, k, lo, hi)) (b # bs) =
     (if lo \<le> unat b \<and> unat b \<le> hi
      then let cp' = cp * 64 + (unat b - 128)
        in if k \<le> 1 then code_point_units cp' @ utf8_lossy None bs else utf8_lossy (Some (cp', k - 1, 128, 191)) bs
      else unit_of 65533 #
        (if unat b < 128 then unit_of (unat b) # utf8_lossy None bs
         else case utf8_lead (unat b) of
           None \<Rightarrow> unit_of 65533 # utf8_lossy None bs
         | Some st \<Rightarrow> utf8_lossy (Some st) bs))"

definition buffer_to_utf8 :: "byte list \<Rightarrow> jstr" where
  "buffer_to_utf8 bs = utf8_lossy None bs"

lemma lossy_next:
  "lo \<le> unat b \<Longrightarrow> unat b \<le> hi \<Longrightarrow> utf8_lossy (Some (cp, Suc (Suc k), lo, hi)) (b # bs) = utf8_lossy (Some (cp * 64 + (unat b - 128), Suc k, 128, 191)) bs"
  "lo \<le> unat b \<Longrightarrow> unat b \<le> hi \<Longrightarrow> utf8_lossy (Some (cp, Suc 0, lo, hi)) (b # bs) = code_point_units (cp * 64 + (unat b - 128)) @ utf8_lossy None bs"
  by (simp_all add: Let_def)

lemma lossy_sequence:
  assumes "\<not> unat a < 128" "utf8_lead (unat a) = Some (cp, k, lo, hi)" "lo \<le> unat b" "unat b \<le> hi" "is_continuation c"
  shows "k = 2 \<Longrightarrow> utf8_lossy None (a # b # c # r)
      = code_point_units (cp * 4096 + (unat b - 128) * 64 + (unat c - 128)) @ utf8_lossy None r"
    and "k = 3 \<Longrightarrow> is_continuation d \<Longrightarrow> utf8_lossy None (a # b # c # d # r)
      = code_point_units (cp * 262144 + (unat b - 128) * 4096 + (unat c - 128) * 64 + (unat d - 128)) @ utf8_lossy None r"
proof -
  have c: "128 \<le> unat c" "unat c \<le> 191" using assms(5) by (simp_all add: is_continuation_def)
  note steps = lossy_next [OF assms(3,4)]
  define x y where "x = unat b - 128" and "y = unat c - 128"
  show "utf8_lossy None (a # b # c # r)
      = code_point_units (cp * 4096 + (unat b - 128) * 64 + (unat c - 128)) @ utf8_lossy None r" if "k = 2"
  proof -
    have "utf8_lossy None (a # b # c # r) = utf8_lossy (Some (cp, Suc (Suc 0), lo, hi)) (b # c # r)"
      using assms(1,2) that by (simp add: numeral_2_eq_2)
    also have "\<dots> = code_point_units ((cp * 64 + x) * 64 + y) @ utf8_lossy None r"
      unfolding steps(1) lossy_next(2) [OF c] x_def y_def ..
    also have "(cp * 64 + x) * 64 + y = cp * 4096 + x * 64 + y" by simp
    finally show ?thesis by (simp only: x_def y_def)
  qed
  show "utf8_lossy None (a # b # c # d # r)
      = code_point_units (cp * 262144 + (unat b - 128) * 4096 + (unat c - 128) * 64 + (unat d - 128)) @ utf8_lossy None r"
    if "k = 3" "is_continuation d"
  proof -
    have d: "128 \<le> unat d" "unat d \<le> 191" using that(2) by (simp_all add: is_continuation_def)
    define z where "z = unat d - 128"
    have "utf8_lossy None (a # b # c # d # r) = utf8_lossy (Some (cp, Suc (Suc (Suc 0)), lo, hi)) (b # c # d # r)"
      using assms(1,2) that by (simp add: numeral_3_eq_3)
    also have "\<dots> = code_point_units (((cp * 64 + x) * 64 + y) * 64 + z) @ utf8_lossy None r"
      unfolding steps(1) lossy_next(1) [OF c] lossy_next(2) [OF d] x_def y_def z_def ..
    also have "((cp * 64 + x) * 64 + y) * 64 + z = cp * 262144 + x * 4096 + y * 64 + z" by simp
    finally show ?thesis by (simp only: x_def y_def z_def)
  qed
qed

lemma lossy_agrees: "utf8_units bs = Some s \<Longrightarrow> utf8_lossy None bs = s"
proof (induction bs arbitrary: s rule: utf8_units.induct)
  case (2 a bs)
  consider (ascii) "unat a < 128" | (two) "194 \<le> unat a" "unat a < 224" | (three) "224 \<le> unat a" "unat a < 240"
    | (four) "240 \<le> unat a" "unat a < 245"
    using 2(5) by (auto simp: Let_def split: if_splits)
  then show ?case
  proof cases
    case ascii
    then show ?thesis using 2(1,5) by (auto simp: code_point_units_def)
  next
    case two
    then obtain b r where "bs = b # r" using 2(5) by (cases bs) auto
    then show ?thesis using 2(2) [of "unat a" b r] 2(5) two
      by (auto simp: utf8_lead_def is_continuation_def split: if_splits)
  next
    case three
    then obtain b c r where bs: "bs = b # c # r" using 2(5) by (cases bs; cases "tl bs") auto
    with 2(5) three obtain t where t: "utf8_units r = Some t"
      "s = code_point_units ((unat a - 224) * 4096 + (unat b - 128) * 64 + (unat c - 128)) @ t"
      and cont: "is_continuation b" "is_continuation c" "unat a = 224 \<longrightarrow> 160 \<le> unat b" "unat a = 237 \<longrightarrow> unat b < 160"
      by (auto simp: Let_def split: if_splits)
    have "utf8_lossy None r = t" using 2(3) [of "unat a" b "c # r" c r] three bs cont t(1) by simp
    moreover obtain lo hi where "utf8_lead (unat a) = Some (unat a - 224, 2, lo, hi)" "lo \<le> unat b" "unat b \<le> hi"
      using three cont by (auto simp: utf8_lead_def is_continuation_def)
    ultimately show ?thesis using three cont lossy_sequence(1) [of a _ 2 lo hi b c r] by (simp add: bs t(2))
  next
    case four
    then obtain b c d r where bs: "bs = b # c # d # r" using 2(5) by (cases bs; cases "tl bs"; cases "tl (tl bs)") auto
    with 2(5) four obtain t where t: "utf8_units r = Some t"
      "s = code_point_units ((unat a - 240) * 262144 + (unat b - 128) * 4096 + (unat c - 128) * 64 + (unat d - 128)) @ t"
      and cont: "is_continuation b" "is_continuation c" "is_continuation d" "unat a = 240 \<longrightarrow> 144 \<le> unat b" "unat a = 244 \<longrightarrow> unat b < 144"
      by (auto simp: Let_def split: if_splits)
    have "utf8_lossy None r = t" using 2(4) [of "unat a" b "c # d # r" c "d # r" d r] four bs cont t(1) by simp
    moreover obtain lo hi where "utf8_lead (unat a) = Some (unat a - 240, 3, lo, hi)" "lo \<le> unat b" "unat b \<le> hi"
      using four cont by (auto simp: utf8_lead_def is_continuation_def)
    ultimately show ?thesis using four cont lossy_sequence(2) [of a _ 3 lo hi b c d r] by (simp add: bs t(2))
  qed
qed simp

theorem buffer_utf8_roundtrip: "well_formed_utf16 s \<Longrightarrow> buffer_to_utf8 (utf8_encode s) = s"
  by (simp add: buffer_to_utf8_def lossy_agrees utf8_units_encode)

text \<open>What is decoded is well formed: every code point a pending sequence can still become is a scalar value.\<close>

definition pending_ok :: "nat \<times> nat \<times> nat \<times> nat \<Rightarrow> bool" where
  "pending_ok st = (case st of (cp, k, lo, hi) \<Rightarrow> 1 \<le> k \<and> 128 \<le> lo \<and> hi \<le> 191 \<and>
     (\<forall>n. (cp * 64 + (lo - 128)) * 64 ^ (k - 1) \<le> n \<and> n < (cp * 64 + (hi - 128) + 1) * 64 ^ (k - 1) \<longrightarrow> scalar_value n))"

lemma lead_ok: "utf8_lead n = Some st \<Longrightarrow> pending_ok st"
  by (auto simp: utf8_lead_def pending_ok_def scalar_value_def split: if_splits)

lemma step_ok:
  assumes "pending_ok (cp, k, lo, hi)" "lo \<le> b" "b \<le> hi" "\<not> k \<le> 1"
  shows "pending_ok (cp * 64 + (b - 128), k - 1, 128, 191)"
proof -
  obtain j where k: "k = Suc (Suc j)" using assms(4) by (cases k; cases "k - 1") auto
  have "(cp * 64 + (lo - 128)) * 64 ^ Suc j \<le> (cp * 64 + (b - 128)) * 64 ^ Suc j" using assms(2) by (intro mult_right_mono) auto
  moreover have "(cp * 64 + (b - 128) + 1) * 64 ^ Suc j \<le> (cp * 64 + (hi - 128) + 1) * 64 ^ Suc j"
    using assms(3) by (intro mult_right_mono) auto
  ultimately show ?thesis using assms(1) by (auto simp: pending_ok_def k algebra_simps)
qed

lemma scalar_units_well_formed: "scalar_value n \<Longrightarrow> well_formed_utf16 (code_point_units n)"
proof (cases "n < 65536")
  case True
  then show "scalar_value n \<Longrightarrow> well_formed_utf16 (code_point_units n)"
    by (auto simp: code_point_units_def scalar_value_def is_high_surrogate_def is_low_surrogate_def unit_of_def unat_small)
next
  case False
  assume n: "scalar_value n"
  then have "(n - 65536) div 1024 < 1024" using False by (simp add: scalar_value_def div_less_iff_less_mult)
  then have "unat (unit_of (55296 + (n - 65536) div 1024)) = 55296 + (n - 65536) div 1024"
    "unat (unit_of (56320 + (n - 65536) mod 1024)) = 56320 + (n - 65536) mod 1024"
    by (simp_all add: unit_of_def unat_small del: of_nat_add)
  then show "well_formed_utf16 (code_point_units n)" using False \<open>(n - 65536) div 1024 < 1024\<close>
    by (simp add: code_point_units_def is_high_surrogate_def is_low_surrogate_def less_Suc_eq_le [symmetric])
qed

lemma replacement_well_formed: "well_formed_utf16 (unit_of 65533 # s) = well_formed_utf16 s"
  by (rule not_surrogate_well_formed) (simp_all add: is_high_surrogate_def is_low_surrogate_def unit_of_def)

lemma ascii_unit_well_formed: "n < 128 \<Longrightarrow> well_formed_utf16 (unit_of n # s) = well_formed_utf16 s"
  by (rule not_surrogate_well_formed) (simp_all add: is_high_surrogate_def is_low_surrogate_def unit_of_def unat_small)

lemma lossy_well_formed: "(case st of None \<Rightarrow> True | Some p \<Rightarrow> pending_ok p) \<Longrightarrow> well_formed_utf16 (utf8_lossy st bs)"
proof (induction st bs rule: utf8_lossy.induct)
  case (2 p)
  then show ?case using replacement_well_formed [of "[]"] by simp
next
  case (3 b bs)
  then show ?case by (auto simp: ascii_unit_well_formed replacement_well_formed lead_ok split: option.splits)
next
  case (4 cp k lo hi b bs)
  show ?case
  proof (cases "lo \<le> unat b \<and> unat b \<le> hi")
    case in_range: True
    show ?thesis
    proof (cases "k \<le> 1")
      case True
      then have "k - 1 = 0" by simp
      then have "(\<forall>n. cp * 64 + (lo - 128) \<le> n \<and> n < cp * 64 + (hi - 128) + 1 \<longrightarrow> scalar_value n)"
        using 4(6) by (simp add: pending_ok_def)
      moreover have "cp * 64 + (lo - 128) \<le> cp * 64 + (unat b - 128)" "cp * 64 + (unat b - 128) < cp * 64 + (hi - 128) + 1"
        using in_range by auto
      ultimately have "scalar_value (cp * 64 + (unat b - 128))" by blast
      then show ?thesis using 4 in_range True by (simp add: well_formed_append scalar_units_well_formed)
    next
      case False
      then show ?thesis using 4 in_range step_ok [of cp k lo hi "unat b"] by simp
    qed
  next
    case False
    then show ?thesis using 4 by (auto simp: ascii_unit_well_formed replacement_well_formed lead_ok split: option.splits)
  qed
qed simp

lemma buffer_to_utf8_well_formed: "well_formed_utf16 (buffer_to_utf8 bs)"
  by (simp add: buffer_to_utf8_def lossy_well_formed)

lemma utf8_encode_inject: "well_formed_utf16 s \<Longrightarrow> well_formed_utf16 t \<Longrightarrow> utf8_encode s = utf8_encode t \<longleftrightarrow> s = t"
  by (metis buffer_utf8_roundtrip)

end
