(* ===== verification/EventsParams.thy ===== *)
theory EventsParams
  imports Base64 EventProcessor
begin

text \<open>
  The query of the events endpoint: its validation, the opaque cursor and the link to the next page
  (\<^verbatim>\<open>validateQueryParams\<close>, \<^verbatim>\<open>encodeEventsCursor\<close>, \<^verbatim>\<open>decodeEventsCursor\<close>, \<^verbatim>\<open>getNextPageUrl\<close> of
  service/events-service/events-utils.ts). A URL is its query pairs beside everything else. The case
  tables of Unicode (\<open>lower\<close>) and dates in other formats than the ISO one (\<open>other\<close>) are the engine's.
\<close>

datatype query_failure = QueryValidation string | AnalyticsBusy | OtherFailure exn

type_synonym 'a qres = "query_failure + 'a"

datatype event_order = Ascending | Descending

definition order_text :: "event_order \<Rightarrow> jstr" where
  "order_text ord = (case ord of Ascending \<Rightarrow> lit ''asc'' | Descending \<Rightarrow> lit ''desc'')"

record events_cursor =
  cu_created :: jstr
  cu_id :: jstr
  cu_order :: event_order

record query_params =
  qp_start :: int
  qp_limit :: int
  qp_event :: jstr
  qp_begin :: rat
  qp_end :: rat
  qp_order :: event_order
  qp_cursor :: "events_cursor option"

definition bad_parameter :: "string \<Rightarrow> 'a qres" where
  "bad_parameter key = Inl (QueryValidation (''Invalid query parameter: '' @ key))"

section \<open>Numbers\<close>

text \<open>\<^verbatim>\<open>/^-?\d+$/\<close> and \<^verbatim>\<open>/^-?\d+(?:\.\d+)?$/\<close>\<close>

definition unsigned_part :: "jstr \<Rightarrow> jstr" where
  "unsigned_part s = (case s of [] \<Rightarrow> [] | c # r \<Rightarrow> if c = 45 then r else s)"

definition integer_format :: "jstr \<Rightarrow> bool" where
  "integer_format s \<longleftrightarrow> is_digits (unsigned_part s)"

definition seconds_format :: "jstr \<Rightarrow> bool" where
  "seconds_format s \<longleftrightarrow> (let u = unsigned_part s; frac = dropWhile is_digit u
     in is_digits (takeWhile is_digit u) \<and> (frac = [] \<or> hd frac = 46 \<and> is_digits (tl frac)))"

definition parseInteger :: "jstr option \<Rightarrow> string \<Rightarrow> int option \<Rightarrow> int qres" where
  "parseInteger value key fallback = (case (value, fallback) of
     (None, Some n) \<Rightarrow> Inr n
   | (None, None) \<Rightarrow> bad_parameter key
   | (Some v, _) \<Rightarrow> if \<not> integer_format v then bad_parameter key
       else (case safe_int_of_num (string_to_number v) of None \<Rightarrow> bad_parameter key | Some n \<Rightarrow> Inr n))"

text \<open>\<^verbatim>\<open>new Date(seconds * 1000).getTime()\<close>, the product rounded to a double\<close>

definition date_of_seconds :: "rat \<Rightarrow> int option" where
  "date_of_seconds r = (case round_double (r * 1000) of Fin t \<Rightarrow> time_clip t | _ \<Rightarrow> None)"

definition parseUnixSeconds :: "jstr option \<Rightarrow> string \<Rightarrow> rat \<Rightarrow> rat qres" where
  "parseUnixSeconds value key fallback = (case value of
     None \<Rightarrow> Inr fallback
   | Some v \<Rightarrow> if v = [] then Inr fallback
       else if \<not> seconds_format v then bad_parameter key
       else (case string_to_number v of
           Fin r \<Rightarrow> if date_of_seconds r = None then bad_parameter key else Inr r
         | _ \<Rightarrow> bad_parameter key))"

section \<open>The cursor\<close>

definition cursor_object :: "events_cursor \<Rightarrow> js" where
  "cursor_object c = obj [(''v'', jint 1), (''created'', JStr (cu_created c)), (''id'', JStr (cu_id c)),
     (''order'', JStr (order_text (cu_order c)))]"

definition encodeEventsCursor :: "events_cursor \<Rightarrow> jstr" where
  "encodeEventsCursor c = base64_encode True (utf8_encode (json_text (cursor_object c)))"

text \<open>\<^verbatim>\<open>new Date(text)\<close>\<close>

definition read_date :: "(jstr \<Rightarrow> int option) \<Rightarrow> jstr \<Rightarrow> int option" where
  "read_date other s = (if matches utc_pattern s then date_parse s else other s)"

definition bad_cursor :: "'a qres" where
  "bad_cursor = Inl (QueryValidation ''Invalid pagination cursor'')"

definition decodeEventsCursor :: "(jstr \<Rightarrow> int option) \<Rightarrow> jstr \<Rightarrow> event_order \<Rightarrow> events_cursor qres" where
  "decodeEventsCursor other v ord = (case json_parse (buffer_to_utf8 (buffer_from_base64 v)) of
     None \<Rightarrow> bad_cursor
   | Some parsed \<Rightarrow>
       if \<not> is_object parsed then bad_cursor
       else let created = (case get_prop parsed ''created'' of JStr s \<Rightarrow> read_date other s | _ \<Rightarrow> None)
         in if get_prop parsed ''v'' \<noteq> jint 1 then bad_cursor
            else (case (get_prop parsed ''id'', created, get_prop parsed ''order'') of
                (JStr i, Some t, JStr o1) \<Rightarrow>
                  if i = [] \<or> o1 \<noteq> order_text ord then bad_cursor
                  else Inr \<lparr>cu_created = to_iso t, cu_id = i, cu_order = ord\<rparr>
              | _ \<Rightarrow> bad_cursor))"

text \<open>\<^verbatim>\<open>URLSearchParams\<close>: \<^verbatim>\<open>get\<close>, \<^verbatim>\<open>delete\<close> and \<^verbatim>\<open>set\<close>\<close>

type_synonym search_params = "(jstr \<times> jstr) list"

definition search_get :: "search_params \<Rightarrow> string \<Rightarrow> jstr option" where
  "search_get q k = map_of q (lit k)"

definition search_delete :: "search_params \<Rightarrow> string \<Rightarrow> search_params" where
  "search_delete q k = filter (\<lambda>(k', _). k' \<noteq> lit k) q"

fun search_set :: "search_params \<Rightarrow> string \<Rightarrow> jstr \<Rightarrow> search_params" where
  "search_set [] k v = [(lit k, v)]"
| "search_set ((k', v') # q) k v = (if k' = lit k then (lit k, v) # search_delete q k else (k', v') # search_set q k v)"

record page_url =
  pu_rest :: jstr
  pu_query :: search_params

definition getNextPageUrl :: "page_url \<Rightarrow> events_cursor option \<Rightarrow> page_url" where
  "getNextPageUrl url cursor = (case cursor of
     None \<Rightarrow> url
   | Some c \<Rightarrow> url\<lparr>pu_query := search_set (search_delete (pu_query url) ''start'') ''cursor'' (encodeEventsCursor c)\<rparr>)"

section \<open>Event types\<close>

text \<open>A match of \<^verbatim>\<open>/\s+OR\s+/i\<close> at the start gives what follows it.\<close>

definition match_or :: "jstr \<Rightarrow> jstr option" where
  "match_or s = (if s = [] \<or> \<not> is_ws (hd s) then None
     else case dropWhile is_ws s of
       a # b # t \<Rightarrow> if a \<in> {79, 111} \<and> b \<in> {82, 114} \<and> t \<noteq> [] \<and> is_ws (hd t) then Some (dropWhile is_ws t) else None
     | _ \<Rightarrow> None)"

lemma match_or_length: "match_or s = Some r \<Longrightarrow> length r < length s"
proof -
  assume "match_or s = Some r"
  then obtain a b t where "dropWhile is_ws s = a # b # t" "r = dropWhile is_ws t"
    by (auto simp: match_or_def split: if_splits list.splits)
  then show ?thesis using length_dropWhile_le [of is_ws s] length_dropWhile_le [of is_ws t] by simp
qed

text \<open>\<^verbatim>\<open>split\<close>: the piece collected so far, and the rest of the text\<close>

function split_or :: "jstr \<Rightarrow> jstr \<Rightarrow> jstr list" where
  "split_or piece [] = [piece]"
| "split_or piece (c # s) = (case match_or (c # s) of
     None \<Rightarrow> split_or (piece @ [c]) s | Some rest \<Rightarrow> piece # split_or [] rest)"
  by pat_completeness auto
termination
  by (relation "measure (\<lambda>(_, s). length s)") (auto dest: match_or_length)

lemma split_or_length: "length (split_or piece s) \<le> Suc (length s)"
proof (induction piece s rule: split_or.induct)
  case (2 piece c s)
  then show ?case using match_or_length [of "c # s"] by (fastforce split: option.split)
qed simp

definition eventTypes :: "(jstr \<Rightarrow> jstr) \<Rightarrow> jstr \<Rightarrow> jstr list" where
  "eventTypes lower type = map (\<lambda>s. lower (trim s)) (split_or [] type)"

section \<open>Validation\<close>

definition read_order :: "(jstr \<Rightarrow> jstr) \<Rightarrow> jstr option \<Rightarrow> event_order qres" where
  "read_order lower ascending = (case ascending of
     None \<Rightarrow> Inr Descending
   | Some a \<Rightarrow> if a = [] then Inr Descending
       else if lower a \<in> {lit ''yes'', lit ''true'', lit ''1''} then Inr Ascending
       else if lower a \<in> {lit ''no'', lit ''false'', lit ''0''} then Inr Descending
       else bad_parameter ''ascending'')"

text \<open>\<^verbatim>\<open>Date.now() / 1000\<close>, with the time an argument\<close>

definition default_end :: "int \<Rightarrow> rat" where
  "default_end now = (case round_double (of_int now / 1000) of Fin r \<Rightarrow> r | _ \<Rightarrow> 0)"

definition validateQueryParams ::
  "(jstr \<Rightarrow> jstr) \<Rightarrow> (jstr \<Rightarrow> int option) \<Rightarrow> int \<Rightarrow> search_params \<Rightarrow> query_params qres" where
  "validateQueryParams lower other now q =
     (let event = (case search_get q ''event'' of None \<Rightarrow> [] | Some e \<Rightarrow> e) in
      if trim event = [] then Inl (QueryValidation ''Missing required query parameter: event'')
      else if length event > 512 \<or> length (eventTypes lower event) > 16 then Inl (QueryValidation ''Too many event types'')
      else bindE (parseInteger (search_get q ''limit'') ''limit'' (Some 300)) (\<lambda>limit.
      if limit < 1 \<or> limit > 300 then bad_parameter ''limit''
      else bindE (parseInteger (search_get q ''start'') ''start'' (Some 0)) (\<lambda>start.
      if start < 0 \<or> start > 10000 then bad_parameter ''start''
      else bindE (parseUnixSeconds (search_get q ''begin'') ''begin'' 0) (\<lambda>begin.
      bindE (parseUnixSeconds (search_get q ''end'') ''end'' (default_end now)) (\<lambda>until.
      if begin \<ge> until then bad_parameter ''begin/end''
      else bindE (read_order lower (search_get q ''ascending'')) (\<lambda>ord.
      bindE (case search_get q ''cursor'' of None \<Rightarrow> Inr None
        | Some v \<Rightarrow> bindE (decodeEventsCursor other v ord) (\<lambda>c. Inr (Some c))) (\<lambda>cursor.
      Inr \<lparr>qp_start = start, qp_limit = limit, qp_event = event, qp_begin = begin, qp_end = until, qp_order = ord,
           qp_cursor = cursor\<rparr>)))))))"

section \<open>A link resumes its query\<close>

definition cursor_ok :: "events_cursor \<Rightarrow> bool" where
  "cursor_ok c \<longleftrightarrow> cu_id c \<noteq> [] \<and> (\<exists>t. in_iso_range t \<and> cu_created c = to_iso t)"

lemma order_text_inject [simp]: "order_text a = order_text b \<longleftrightarrow> a = b"
  by (cases a; cases b) (simp_all add: order_text_def)

lemma plain_cursor: "plain (cursor_object c)"
  using safe_int_of_num_int [of 1] by (simp add: cursor_object_def max_safe_def)

lemma read_date_iso: "in_iso_range t \<Longrightarrow> read_date other (to_iso t) = Some t"
  by (simp add: read_date_def to_iso_matches date_parse_to_iso)

lemma decode_encode_cursor:
  assumes "cursor_ok c"
  shows "decodeEventsCursor other (encodeEventsCursor c) (cu_order c) = Inr c"
proof -
  obtain t where t: "in_iso_range t" "cu_created c = to_iso t" and id: "cu_id c \<noteq> []" using assms by (auto simp: cursor_ok_def)
  have parsed: "json_parse (buffer_to_utf8 (buffer_from_base64 (encodeEventsCursor c))) = Some (cursor_object c)"
    by (simp add: encodeEventsCursor_def buffer_base64_roundtrip buffer_utf8_roundtrip json_text_well_formed plain_cursor json_parse_text)
  have props: "get_prop (cursor_object c) ''created'' = JStr (to_iso t)" "get_prop (cursor_object c) ''v'' = jint 1"
    "get_prop (cursor_object c) ''id'' = JStr (cu_id c)" "get_prop (cursor_object c) ''order'' = JStr (order_text (cu_order c))"
    "is_object (cursor_object c)"
    by (simp_all add: cursor_object_def t(2))
  show ?thesis unfolding decodeEventsCursor_def parsed by (simp add: props read_date_iso t id Let_def)
qed

lemma search_get_delete: "search_get (search_delete q k) k' = (if k = k' then None else search_get q k')"
  by (induction q) (auto simp: search_get_def search_delete_def)

lemma search_get_set: "search_get (search_set q k v) k' = (if k = k' then Some v else search_get q k')"
proof (induction q k v rule: search_set.induct)
  case (1 k v)
  then show ?case by (simp add: search_get_def)
next
  case (2 k1 v1 q k v)
  then show ?case using search_get_delete [of q k k'] by (auto simp: search_get_def)
qed

lemma next_page_get:
  "search_get (pu_query (getNextPageUrl url (Some c))) k =
     (if k = ''cursor'' then Some (encodeEventsCursor c) else if k = ''start'' then None else search_get (pu_query url) k)"
  by (simp add: getNextPageUrl_def search_get_set search_get_delete)

lemma bad_parameter_guard: "(if b then bad_parameter key else m) = Inr p \<longleftrightarrow> \<not> b \<and> m = Inr p"
  by (simp add: bad_parameter_def)

lemma validated_iff:
  "validateQueryParams lower other now q = Inr p \<longleftrightarrow>
     search_get q ''event'' = Some (qp_event p) \<and> trim (qp_event p) \<noteq> [] \<and> length (qp_event p) \<le> 512
     \<and> length (eventTypes lower (qp_event p)) \<le> 16
     \<and> parseInteger (search_get q ''limit'') ''limit'' (Some 300) = Inr (qp_limit p) \<and> 1 \<le> qp_limit p \<and> qp_limit p \<le> 300
     \<and> parseInteger (search_get q ''start'') ''start'' (Some 0) = Inr (qp_start p) \<and> 0 \<le> qp_start p \<and> qp_start p \<le> 10000
     \<and> parseUnixSeconds (search_get q ''begin'') ''begin'' 0 = Inr (qp_begin p)
     \<and> parseUnixSeconds (search_get q ''end'') ''end'' (default_end now) = Inr (qp_end p) \<and> qp_begin p < qp_end p
     \<and> read_order lower (search_get q ''ascending'') = Inr (qp_order p)
     \<and> (case search_get q ''cursor'' of None \<Rightarrow> qp_cursor p = None
        | Some v \<Rightarrow> \<exists>c. decodeEventsCursor other v (qp_order p) = Inr c \<and> qp_cursor p = Some c)"
  (is "?run = Inr p \<longleftrightarrow> ?checks")
proof
  assume run: "?run = Inr p"
  define event where "event = (case search_get q ''event'' of None \<Rightarrow> [] | Some e \<Rightarrow> e)"
  from run have event: "trim event \<noteq> []" "length event \<le> 512" "length (eventTypes lower event) \<le> 16"
    unfolding validateQueryParams_def Let_def event_def [symmetric] by (simp_all split: if_splits)
  have get: "search_get q ''event'' = Some event" using event(1) by (auto simp: event_def split: option.splits)
  have small: "\<not> (length event > 512 \<or> length (eventTypes lower event) > 16)" using event by simp
  obtain limit start since until ord cursor where
    checks: "parseInteger (search_get q ''limit'') ''limit'' (Some 300) = Inr limit" "\<not> (limit < 1 \<or> limit > 300)"
      "parseInteger (search_get q ''start'') ''start'' (Some 0) = Inr start" "\<not> (start < 0 \<or> start > 10000)"
      "parseUnixSeconds (search_get q ''begin'') ''begin'' 0 = Inr since"
      "parseUnixSeconds (search_get q ''end'') ''end'' (default_end now) = Inr until" "\<not> since \<ge> until"
      "read_order lower (search_get q ''ascending'') = Inr ord"
    and cursor: "(case search_get q ''cursor'' of None \<Rightarrow> Inr None
        | Some v \<Rightarrow> bindE (decodeEventsCursor other v ord) (\<lambda>c. Inr (Some c))) = Inr cursor"
    and p: "p = \<lparr>qp_start = start, qp_limit = limit, qp_event = event, qp_begin = since, qp_end = until, qp_order = ord,
           qp_cursor = cursor\<rparr>"
    using run unfolding validateQueryParams_def Let_def event_def [symmetric] if_not_P [OF event(1)] if_not_P [OF small]
      bindE_Inr_iff bad_parameter_guard Inr_inject by blast
  have "case search_get q ''cursor'' of None \<Rightarrow> cursor = None
      | Some v \<Rightarrow> \<exists>c. decodeEventsCursor other v ord = Inr c \<and> cursor = Some c"
    using cursor by (cases "search_get q ''cursor''") auto
  then show ?checks using checks event get unfolding p by (cases "search_get q ''cursor''") simp_all
next
  assume ?checks
  then show "?run = Inr p"
    unfolding validateQueryParams_def Let_def by (cases "search_get q ''cursor''") (simp_all add: not_le, auto)
qed

text \<open>
  C38: the link of a page resumes its query. When a request was accepted and its page ends with the
  cursor of a stored event, the request behind \<^verbatim>\<open>paging.next\<close> is accepted as well, with the same types,
  limit, begin and order, the cursor read back exactly, and no offset; an end that was given stays, and
  one that was not is the later time.
\<close>

theorem next_link_resumes_query:
  assumes "validateQueryParams lower other now (pu_query url) = Inr p"
    and "cursor_ok c" "cu_order c = qp_order p"
    and "search_get (pu_query url) ''end'' \<in> {None, Some []} \<Longrightarrow> qp_begin p < default_end later"
  shows "validateQueryParams lower other later (pu_query (getNextPageUrl url (Some c)))
     = Inr (p\<lparr>qp_start := 0, qp_cursor := Some c,
         qp_end := if search_get (pu_query url) ''end'' \<in> {None, Some []} then default_end later else qp_end p\<rparr>)"
proof -
  let ?q = "pu_query url"
  note first = iffD1 [OF validated_iff assms(1)]
  let ?until = "if search_get ?q ''end'' \<in> {None, Some []} then default_end later else qp_end p"
  have "parseUnixSeconds (search_get ?q ''end'') ''end'' (default_end now) = Inr (qp_end p)" using first by blast
  then have until: "parseUnixSeconds (search_get ?q ''end'') ''end'' (default_end later) = Inr ?until"
    by (auto simp: parseUnixSeconds_def split: option.splits)
  have less: "qp_begin p < ?until" using first assms(4) by simp
  have cursor: "decodeEventsCursor other (encodeEventsCursor c) (qp_order p) = Inr c"
    using decode_encode_cursor [OF assms(2)] assms(3) by simp
  have start: "parseInteger None ''start'' (Some 0) = Inr 0" by (simp add: parseInteger_def)
  show ?thesis unfolding validated_iff next_page_get using first until less cursor start by simp
qed


definition example_link :: page_url where
  "example_link = \<lparr>pu_rest = lit ''http://localhost/v3/s1/events'', pu_query = [(lit ''event'', lit ''opened''), (lit ''ascending'', lit ''yes'')]\<rparr>"

definition example_cursor :: events_cursor where
  "example_cursor = \<lparr>cu_created = to_iso 1700000000123, cu_id = lit ''e1'', cu_order = Ascending\<rparr>"

lemma example_accepted:
  "validateQueryParams (\<lambda>s. s) (\<lambda>_. None) 5000 (pu_query example_link) = Inr \<lparr>qp_start = 0, qp_limit = 300,
     qp_event = lit ''opened'', qp_begin = 0, qp_end = 5, qp_order = Ascending, qp_cursor = None\<rparr>"
proof -
  have "trim (lit ''opened'') = lit ''opened''" by (simp add: trim_idem_iff lit_def is_ws_def)
  then have event: "trim (lit ''opened'') \<noteq> []" by simp
  have types: "length (eventTypes (\<lambda>s. s) (lit ''opened'')) \<le> 16"
    using split_or_length [of "[]" "lit ''opened''"] by (simp add: eventTypes_def)
  have until: "default_end 5000 = 5" by code_simp
  have ord: "read_order (\<lambda>s. s) (Some (lit ''yes'')) = Inr Ascending" by (simp add: read_order_def)
  show ?thesis unfolding validated_iff
    by (simp add: example_link_def search_get_def event types until ord parseInteger_def parseUnixSeconds_def)
qed

theorem next_link_resumes_query_witness:
  "validateQueryParams (\<lambda>s. s) (\<lambda>_. None) 9000 (pu_query (getNextPageUrl example_link (Some example_cursor)))
     = Inr \<lparr>qp_start = 0, qp_limit = 300, qp_event = lit ''opened'', qp_begin = 0, qp_end = 9, qp_order = Ascending,
         qp_cursor = Some example_cursor\<rparr>"
proof -
  have "in_iso_range 1700000000123" by code_simp
  then have c: "cursor_ok example_cursor" by (auto simp: cursor_ok_def example_cursor_def)
  have later: "default_end 9000 = 9" by code_simp
  have "search_get (pu_query example_link) ''end'' = None" by code_simp
  then show ?thesis
    using next_link_resumes_query [OF example_accepted c, of 9000] later by (simp add: example_cursor_def)
qed

end
