(* ===== verification/EventsQuery.thy ===== *)
theory EventsQuery
  imports EventsParams
begin

text \<open>
  The page behind the events endpoint (\<^verbatim>\<open>buildEventIdQuery\<close>, \<^verbatim>\<open>getEmailEvents\<close> of
  service/events-service/events-utils.ts, \<^verbatim>\<open>formatAsMailgunEvent\<close> of lib/core/aws-utils.ts) and a client
  that follows its links. A table row is a notification joined with its message and batch. The database
  compares strings by a collation: \<open>coll\<close> gives the place of a string in it.
\<close>

section \<open>The order of a page\<close>

text \<open>What \<^verbatim>\<open>ORDER BY created, id\<close> compares, in either direction: the smaller comes first.\<close>

datatype 'o page_key = Asc int 'o | Desc int 'o

instantiation page_key :: (linorder) linorder
begin

definition less_eq_page_key :: "'a page_key \<Rightarrow> 'a page_key \<Rightarrow> bool" where
  "less_eq_page_key x y = (case (x, y) of
     (Asc s i, Asc t j) \<Rightarrow> s < t \<or> s = t \<and> i \<le> j
   | (Asc _ _, Desc _ _) \<Rightarrow> True
   | (Desc _ _, Asc _ _) \<Rightarrow> False
   | (Desc s i, Desc t j) \<Rightarrow> t < s \<or> s = t \<and> j \<le> i)"

definition less_page_key :: "'a page_key \<Rightarrow> 'a page_key \<Rightarrow> bool" where
  "less_page_key x y \<longleftrightarrow> x \<le> y \<and> \<not> y \<le> (x :: 'a page_key)"

instance
  by standard (auto simp: less_eq_page_key_def less_page_key_def split: page_key.splits)

end

lemma page_key_less [simp]:
  "Asc s i < Asc t j \<longleftrightarrow> s < t \<or> s = t \<and> i < j"
  "Desc s i < Desc t j \<longleftrightarrow> t < s \<or> s = t \<and> j < i"
  by (auto simp: less_page_key_def less_eq_page_key_def)

definition ordered_key :: "event_order \<Rightarrow> int \<Rightarrow> 'o \<Rightarrow> 'o page_key" where
  "ordered_key ord created i = (case ord of Ascending \<Rightarrow> Asc created i | Descending \<Rightarrow> Desc created i)"

lemma ordered_key_inject [simp]: "ordered_key ord s i = ordered_key ord t j \<longleftrightarrow> s = t \<and> i = j"
  by (simp add: ordered_key_def split: event_order.split)

section \<open>The query\<close>

record event_row =
  el_id :: jstr
  el_created :: int
  el_type :: jstr
  el_siteId :: jstr
  el_timestamp :: int
  el_messageId :: jstr
  el_rawEvent :: jstr
  el_toEmail :: jstr
  el_batchId :: jstr

record events_props =
  ep_siteId :: jstr
  ep_type :: jstr
  ep_begin :: rat
  ep_end :: rat
  ep_order :: event_order
  ep_start :: int
  ep_limit :: int
  ep_cursor :: "events_cursor option"
  ep_url :: page_url

record id_query =
  iq_types :: "jstr list"
  iq_siteId :: jstr
  iq_begin :: "int option"
  iq_end :: "int option"
  iq_seek :: "(int \<times> jstr) option"
  iq_order :: event_order
  iq_limit :: nat
  iq_offset :: nat

text \<open>\<^verbatim>\<open>[...new Set(values)]\<close>\<close>

definition first_occurrences :: "'a list \<Rightarrow> 'a list" where
  "first_occurrences xs = rev (remdups (rev xs))"

definition buildEventIdQuery :: "(jstr \<Rightarrow> jstr) \<Rightarrow> (jstr \<Rightarrow> int option) \<Rightarrow> events_props \<Rightarrow> id_query qres" where
  "buildEventIdQuery lower other p =
     (let offset = (if ep_cursor p = None then ep_start p else 0) in
      if offset > 10000 \<or> \<bar>offset + ep_limit p\<bar> > max_safe then bad_parameter ''start''
      else Inr \<lparr>iq_types = first_occurrences (eventTypes lower (ep_type p)), iq_siteId = ep_siteId p,
        iq_begin = date_of_seconds (ep_begin p), iq_end = date_of_seconds (ep_end p),
        iq_seek = (case ep_cursor p of None \<Rightarrow> None | Some c \<Rightarrow> map_option (\<lambda>t. (t, cu_id c)) (read_date other (cu_created c))),
        iq_order = ep_order p, iq_limit = nat (ep_limit p), iq_offset = nat offset\<rparr>)"

text \<open>What the database answers: each branch sorted and cut, the branches put together, sorted and cut again.\<close>

definition in_window :: "id_query \<Rightarrow> event_row \<Rightarrow> bool" where
  "in_window q r \<longleftrightarrow> (case (iq_begin q, iq_end q) of
     (Some a, Some b) \<Rightarrow> a < el_created r \<and> el_created r < b | _ \<Rightarrow> False)"

definition row_key :: "(jstr \<Rightarrow> 'o) \<Rightarrow> event_order \<Rightarrow> event_row \<Rightarrow> 'o page_key" where
  "row_key coll ord r = ordered_key ord (el_created r) (coll (el_id r))"

definition after_seek :: "(jstr \<Rightarrow> 'o::linorder) \<Rightarrow> id_query \<Rightarrow> event_row \<Rightarrow> bool" where
  "after_seek coll q r \<longleftrightarrow> (case iq_seek q of None \<Rightarrow> True
     | Some (t, i) \<Rightarrow> (case iq_order q of
         Ascending \<Rightarrow> t < el_created r \<or> el_created r = t \<and> coll i < coll (el_id r)
       | Descending \<Rightarrow> el_created r < t \<or> el_created r = t \<and> coll (el_id r) < coll i))"

definition in_branch :: "(jstr \<Rightarrow> 'o::linorder) \<Rightarrow> id_query \<Rightarrow> jstr \<Rightarrow> event_row \<Rightarrow> bool" where
  "in_branch coll q type r \<longleftrightarrow> coll (el_type r) = coll type \<and> coll (el_siteId r) = coll (iq_siteId q)
     \<and> in_window q r \<and> after_seek coll q r"

definition query_branch :: "(jstr \<Rightarrow> 'o::linorder) \<Rightarrow> id_query \<Rightarrow> event_row list \<Rightarrow> jstr \<Rightarrow> event_row list" where
  "query_branch coll q rows type =
     take (iq_offset q + iq_limit q) (sort_key (row_key coll (iq_order q)) (filter (in_branch coll q type) rows))"

definition run_id_query :: "(jstr \<Rightarrow> 'o::linorder) \<Rightarrow> id_query \<Rightarrow> event_row list \<Rightarrow> event_row list" where
  "run_id_query coll q rows = take (iq_limit q) (drop (iq_offset q)
     (sort_key (row_key coll (iq_order q)) (concat (map (query_branch coll q rows) (iq_types q)))))"

text \<open>The query it stands for: all rows of any of the types, sorted once.\<close>

definition selected_rows :: "(jstr \<Rightarrow> 'o::linorder) \<Rightarrow> id_query \<Rightarrow> event_row list \<Rightarrow> event_row list" where
  "selected_rows coll q rows =
     sort_key (row_key coll (iq_order q)) (filter (\<lambda>r. list_ex (\<lambda>t. in_branch coll q t r) (iq_types q)) rows)"

section \<open>Merging sorted, cut branches\<close>

lemma take_insort:
  fixes k :: "'a \<Rightarrow> 'b::linorder"
  shows "n \<le> length (filter (\<lambda>z. k z < k x) zs) \<Longrightarrow> sorted (map k zs) \<Longrightarrow> take n (insort_key k x zs) = take n zs"
proof (induction zs arbitrary: n)
  case (Cons z zs)
  show ?case
  proof (cases "k x \<le> k z")
    case True
    with Cons.prems(2) have "filter (\<lambda>y. k y < k x) (z # zs) = []" by (force simp: filter_empty_conv)
    with Cons.prems(1) show ?thesis by simp
  next
    case False
    then show ?thesis using Cons by (cases n) (simp_all add: not_le)
  qed
qed simp

lemma take_sort_extra:
  fixes k :: "'a \<Rightarrow> 'b::linorder"
  assumes "\<And>x. x \<in> set ds \<Longrightarrow> n \<le> length (filter (\<lambda>z. k z < k x) zs)"
  shows "take n (sort_key k (ds @ zs)) = take n (sort_key k zs)"
  using assms
proof (induction ds)
  case (Cons d ds)
  have more: "length (filter (\<lambda>z. k z < k d) zs) \<le> length (filter (\<lambda>z. k z < k d) (sort_key k (ds @ zs)))"
  proof -
    have "size (filter_mset (\<lambda>z. k z < k d) (mset zs)) \<le> size (filter_mset (\<lambda>z. k z < k d) (mset (sort_key k (ds @ zs))))"
      by simp
    then show ?thesis by (metis mset_filter size_mset)
  qed
  have "take n (sort_key k ((d # ds) @ zs)) = take n (insort_key k d (sort_key k (ds @ zs)))" by simp
  also have "\<dots> = take n (sort_key k (ds @ zs))"
    using more Cons.prems [of d] by (intro take_insort) simp_all
  finally show ?case using Cons by simp
qed simp

lemma sort_key_unique:
  fixes k :: "'a \<Rightarrow> 'b::linorder"
  assumes "distinct (map k xs)" "distinct (map k ys)" "set xs = set ys"
  shows "sort_key k xs = sort_key k ys"
proof (rule map_sorted_distinct_set_unique)
  show "inj_on k (set (sort_key k xs) \<union> set (sort_key k ys))" using assms(1,3) by (simp add: distinct_map)
  show "distinct (map k (sort_key k xs))" "distinct (map k (sort_key k ys))"
    using assms(1,2) by (simp_all add: distinct_map)
qed (simp_all add: assms(3))

lemma first_of_sorted:
  fixes k :: "'a \<Rightarrow> 'b::linorder"
  assumes "distinct (map k xs)" "x \<in> set xs" "x \<notin> set (take n (sort_key k xs))"
  shows "length (take n (sort_key k xs)) = n \<and> (\<forall>y \<in> set (take n (sort_key k xs)). k y < k x)"
proof
  have x: "x \<in> set (drop n (sort_key k xs))" using assms(2,3) by (metis set_sort Un_iff append_take_drop_id set_append)
  then show "length (take n (sort_key k xs)) = n" by (cases "n \<le> length (sort_key k xs)") auto
  show "\<forall>y \<in> set (take n (sort_key k xs)). k y < k x"
  proof
    fix y assume y: "y \<in> set (take n (sort_key k xs))"
    have "sorted (map k (take n (sort_key k xs) @ drop n (sort_key k xs)))" by simp
    then have "k y \<le> k x" using x y unfolding map_append sorted_append by (metis (no_types) imageI list.set_map)
    moreover have "x \<noteq> y" using y assms(3) by blast
    moreover have "y \<in> set xs" using y by (metis in_set_takeD set_sort)
    ultimately show "k y < k x" using assms(1,2) by (metis distinct_map inj_onD order_le_less)
  qed
qed

lemma in_cut: "x \<in> set (take n (sort_key k xs)) \<Longrightarrow> x \<in> set xs"
  by (metis in_set_takeD set_sort)

lemma take_merge:
  fixes k :: "'a \<Rightarrow> 'b::linorder"
  assumes "distinct (map k (concat Ls))"
  shows "take n (sort_key k (concat (map (\<lambda>xs. take n (sort_key k xs)) Ls))) = take n (sort_key k (concat Ls))"
proof -
  let ?cut = "\<lambda>xs. take n (sort_key k xs)"
  let ?kept = "concat (map ?cut Ls)"
  define rest where "rest = filter (\<lambda>x. x \<notin> set ?kept) (concat Ls)"
  have sub: "set ?kept \<subseteq> set (concat Ls)" by (auto dest: in_cut)
  have parts: "distinct (map k xs)" if "xs \<in> set Ls" for xs
    using assms that by (induction Ls) (auto simp: distinct_map inj_on_def)
  have kept: "distinct ?kept" if "distinct (concat Ls)"
    using that
  proof (induction Ls)
    case (Cons xs Ls)
    have "distinct (?cut xs)" "distinct (concat Ls)" "set xs \<inter> set (concat Ls) = {}" using Cons.prems by simp_all
    moreover have "set (?cut xs) \<subseteq> set xs" "set (concat (map ?cut Ls)) \<subseteq> set (concat Ls)" by (auto dest: in_cut)
    ultimately show ?case using Cons.IH unfolding list.map concat.simps distinct_append by blast
  qed simp
  have all: "distinct (concat Ls)" "inj_on k (set (concat Ls))" using assms by (simp_all only: distinct_map)
  have same: "set (rest @ ?kept) = set (concat Ls)" using sub unfolding rest_def set_append set_filter by blast
  have "distinct (rest @ ?kept)" using kept [OF all(1)] all(1) unfolding rest_def distinct_append set_filter by (intro conjI distinct_filter) blast+
  then have "distinct (map k (rest @ ?kept))" using all(2) same by (simp only: distinct_map)
  then have "sort_key k (rest @ ?kept) = sort_key k (concat Ls)"
    using assms same by (intro sort_key_unique)
  moreover have "n \<le> length (filter (\<lambda>z. k z < k x) ?kept)" if "x \<in> set rest" for x
  proof -
    obtain xs where xs: "xs \<in> set Ls" "x \<in> set xs" "x \<notin> set (?cut xs)" using \<open>x \<in> set rest\<close> by (auto simp: rest_def)
    note top = first_of_sorted [OF parts [OF xs(1)] xs(2,3)]
    obtain A B where "Ls = A @ xs # B" using split_list [OF xs(1)] by blast
    then have "filter (\<lambda>z. k z < k x) ?kept = filter (\<lambda>z. k z < k x) (concat (map ?cut A)) @ filter (\<lambda>z. k z < k x) (?cut xs)
        @ filter (\<lambda>z. k z < k x) (concat (map ?cut B))" by simp
    moreover have "filter (\<lambda>z. k z < k x) (?cut xs) = ?cut xs" using top by (intro filter_True) blast
    ultimately show ?thesis using top by simp
  qed
  ultimately show ?thesis using take_sort_extra [of rest n k ?kept] by simp
qed

end
