(* ===== verification/EventsPaging.thy ===== *)
theory EventsPaging
  imports EventsQuery
begin

text \<open>
  The merged query is the plain one; pages, the payload read and the answer of the endpoint; the gate
  that lets one analytics request run at a time; and a client following the links.
\<close>

section \<open>The merged query\<close>

lemma first_occurrences_set [simp]: "set (first_occurrences xs) = set xs" "distinct (first_occurrences xs)"
  by (simp_all add: first_occurrences_def)

definition unique_ids :: "(jstr \<Rightarrow> 'o) \<Rightarrow> event_row list \<Rightarrow> bool" where
  "unique_ids coll rows \<longleftrightarrow> distinct (map (\<lambda>r. coll (el_id r)) rows)"

lemma unique_keys: "unique_ids coll rows \<Longrightarrow> distinct rows \<and> inj_on (row_key coll ord) (set rows)"
  by (auto simp: unique_ids_def distinct_map inj_on_def row_key_def)

lemma branches_distinct:
  assumes "unique_ids coll rows" "distinct ts" "inj_on coll (set ts)"
  shows "distinct (map (row_key coll ord) (concat (map (\<lambda>t. filter (in_branch coll q t) rows) ts)))"
proof -
  have "distinct (concat (map (\<lambda>t. filter (in_branch coll q t) rows) ts))"
    using assms(2,3)
  proof (induction ts)
    case (Cons t ts)
    have "r \<notin> set (filter (in_branch coll q u) rows)" if "r \<in> set (filter (in_branch coll q t) rows)" "u \<in> set ts" for r u
      using that Cons.prems by (auto simp: in_branch_def inj_on_def)
    then show ?case using Cons assms(1) by (fastforce dest: unique_keys)
  qed simp
  moreover have "set (concat (map (\<lambda>t. filter (in_branch coll q t) rows) ts)) \<subseteq> set rows" by auto
  ultimately show ?thesis using unique_keys [OF assms(1), of ord] by (auto simp: distinct_map intro: inj_on_subset)
qed

lemma merged_query:
  assumes "unique_ids coll rows" "distinct (iq_types q)" "inj_on coll (set (iq_types q))"
  shows "run_id_query coll q rows = take (iq_limit q) (drop (iq_offset q) (selected_rows coll q rows))"
proof -
  let ?k = "row_key coll (iq_order q)"
  let ?Ls = "map (\<lambda>t. filter (in_branch coll q t) rows) (iq_types q)"
  let ?n = "iq_offset q + iq_limit q"
  have keys: "distinct (map ?k (concat ?Ls))" by (rule branches_distinct [OF assms])
  have "concat (map (query_branch coll q rows) (iq_types q)) = concat (map (\<lambda>xs. take ?n (sort_key ?k xs)) ?Ls)"
    by (simp add: query_branch_def comp_def cong: map_cong)
  then have "take ?n (sort_key ?k (concat (map (query_branch coll q rows) (iq_types q)))) = take ?n (sort_key ?k (concat ?Ls))"
    using take_merge [OF keys] by simp
  also have "sort_key ?k (concat ?Ls) = selected_rows coll q rows"
    unfolding selected_rows_def
  proof (rule sort_key_unique [OF keys])
    have "inj_on ?k (set (filter (\<lambda>r. list_ex (\<lambda>t. in_branch coll q t r) (iq_types q)) rows))"
      using unique_keys [OF assms(1), of "iq_order q"] by (auto intro: inj_on_subset)
    then show "distinct (map ?k (filter (\<lambda>r. list_ex (\<lambda>t. in_branch coll q t r) (iq_types q)) rows))"
      using unique_keys [OF assms(1)] by (simp add: distinct_map)
  qed (auto simp: list_ex_iff)
  finally have "drop (iq_offset q) (take (iq_limit q + iq_offset q) (sort_key ?k (concat (map (query_branch coll q rows) (iq_types q)))))
      = drop (iq_offset q) (take (iq_limit q + iq_offset q) (selected_rows coll q rows))"
    by (simp add: add.commute)
  then show ?thesis unfolding run_id_query_def by (simp add: take_drop)
qed

lemma built_query:
  assumes "buildEventIdQuery lower other p = Inr q"
  shows "distinct (iq_types q)" "set (iq_types q) = set (eventTypes lower (ep_type p))" "iq_order q = ep_order p"
    "iq_limit q = nat (ep_limit p)" "iq_offset q = (if ep_cursor p = None then nat (ep_start p) else 0)"
    "iq_siteId q = ep_siteId p" "iq_begin q = date_of_seconds (ep_begin p)" "iq_end q = date_of_seconds (ep_end p)"
    "iq_seek q = (case ep_cursor p of None \<Rightarrow> None | Some c \<Rightarrow> map_option (\<lambda>t. (t, cu_id c)) (read_date other (cu_created c)))"
  using assms by (auto simp: buildEventIdQuery_def Let_def bad_parameter_guard)

text \<open>
  C37: cutting each branch before merging loses nothing. For a table with unique ids and types the
  collation tells apart, the union of the branches, each sorted and cut to a page and an offset, gives
  exactly the page of the plain query that sorts all matching rows once.
\<close>

theorem merged_branches_are_the_query:
  assumes "buildEventIdQuery lower other p = Inr q" "unique_ids coll rows"
    and "inj_on coll (set (eventTypes lower (ep_type p)))"
  shows "run_id_query coll q rows = take (iq_limit q) (drop (iq_offset q) (selected_rows coll q rows))"
  using merged_query [OF assms(2) built_query(1) [OF assms(1)]] assms(3) built_query(2) [OF assms(1)] by simp

section \<open>A page and its answer\<close>

record mailgun_item =
  mi_event :: jstr
  mi_id :: jstr
  mi_timestamp :: int
  mi_recipient :: jstr
  mi_messageId :: jstr
  mi_bounced :: bool

text \<open>\<^verbatim>\<open>v == "Bounce"\<close>: an array or an object is compared by its text.\<close>

definition equals_bounce :: "js \<Rightarrow> bool res" where
  "equals_bounce v = (case v of
     JStr s \<Rightarrow> Inr (s = lit ''Bounce'')
   | JArr _ \<Rightarrow> bindE (js_to_string v) (\<lambda>s. Inr (s = lit ''Bounce''))
   | JObj _ _ \<Rightarrow> bindE (js_to_string v) (\<lambda>s. Inr (s = lit ''Bounce''))
   | _ \<Rightarrow> Inr False)"

text \<open>\<open>mi_bounced\<close> stands for the two members severity \<^verbatim>\<open>permanent\<close> and reason \<^verbatim>\<open>suppress-bounce\<close>.\<close>

definition format_event :: "event_row \<Rightarrow> mailgun_item res" where
  "format_event r =
     bindE (parse_text (el_rawEvent r)) (\<lambda>originalSESEvent.
     bindE (read_prop originalSESEvent ''eventType'') (\<lambda>type.
     bindE (equals_bounce type) (\<lambda>bounced.
     Inr \<lparr>mi_event = el_type r, mi_id = el_id r @ lit ''-'' @ el_messageId r, mi_timestamp = el_timestamp r div 1000,
          mi_recipient = el_toEmail r, mi_messageId = el_batchId r, mi_bounced = bounced\<rparr>)))"

definition formatAsMailgunEvent :: "event_row list \<Rightarrow> page_url \<Rightarrow> (mailgun_item list \<times> page_url) res" where
  "formatAsMailgunEvent rows url = bindE (mapE format_event rows) (\<lambda>items. Inr (items, url))"

definition next_cursor :: "event_order \<Rightarrow> events_cursor option \<Rightarrow> event_row list \<Rightarrow> events_cursor option" where
  "next_cursor ord cursor ids = (if ids = [] then cursor
     else Some \<lparr>cu_created = to_iso (el_created (last ids)), cu_id = el_id (last ids), cu_order = ord\<rparr>)"

text \<open>The payloads of the selected ids, from the table as it is by then.\<close>

definition payload_rows :: "event_row list \<Rightarrow> event_row list \<Rightarrow> event_row list" where
  "payload_rows ids rows =
     (let byId = map_of (rev (map (\<lambda>r. (el_id r, r)) (filter (\<lambda>r. el_id r \<in> el_id ` set ids) rows)))
      in List.map_filter (\<lambda>r. byId (el_id r)) ids)"

definition page_answer :: "events_props \<Rightarrow> event_row list \<Rightarrow> event_row list \<Rightarrow> (mailgun_item list \<times> page_url) qres" where
  "page_answer p ids rows = map_sum OtherFailure id
     (formatAsMailgunEvent (if ids = [] then [] else payload_rows ids rows)
        (getNextPageUrl (ep_url p) (next_cursor (ep_order p) (ep_cursor p) ids)))"

section \<open>One analytics request at a time\<close>

text \<open>\<open>an_active\<close> is \<^verbatim>\<open>analyticsActive\<close>; a request waits for its ids, then for its payloads, then is answered.\<close>

datatype analytics_request =
    Selecting events_props id_query
  | ReadingPayloads events_props "event_row list"
  | Answered "(mailgun_item list \<times> page_url) qres"

record analytics =
  an_active :: bool
  an_requests :: "analytics_request list"

datatype analytics_event =
    Ask events_props
  | IdsArrive nat "event_row list"
  | PayloadsArrive nat "event_row list"
  | CallFails nat exn

definition answer_request :: "analytics \<Rightarrow> nat \<Rightarrow> (mailgun_item list \<times> page_url) qres \<Rightarrow> analytics" where
  "answer_request s i r = s\<lparr>an_active := False, an_requests := (an_requests s)[i := Answered r]\<rparr>"

fun getEmailEvents ::
  "(jstr \<Rightarrow> 'o::linorder) \<Rightarrow> (jstr \<Rightarrow> jstr) \<Rightarrow> (jstr \<Rightarrow> int option) \<Rightarrow> analytics_event \<Rightarrow> analytics \<Rightarrow> analytics option" where
  "getEmailEvents coll lower other (Ask p) s = Some
     (if an_active s then s\<lparr>an_requests := an_requests s @ [Answered (Inl AnalyticsBusy)]\<rparr>
      else case buildEventIdQuery lower other p of
          Inl e \<Rightarrow> s\<lparr>an_requests := an_requests s @ [Answered (Inl e)]\<rparr>
        | Inr q \<Rightarrow> s\<lparr>an_active := True, an_requests := an_requests s @ [Selecting p q]\<rparr>)"
| "getEmailEvents coll lower other (IdsArrive i rows) s =
     (if i < length (an_requests s) then case an_requests s ! i of
        Selecting p q \<Rightarrow> Some (let ids = run_id_query coll q rows
          in if ids = [] then answer_request s i (page_answer p [] [])
             else s\<lparr>an_requests := (an_requests s)[i := ReadingPayloads p ids]\<rparr>)
      | _ \<Rightarrow> None else None)"
| "getEmailEvents coll lower other (PayloadsArrive i rows) s =
     (if i < length (an_requests s) then case an_requests s ! i of
        ReadingPayloads p ids \<Rightarrow> Some (answer_request s i (page_answer p ids rows)) | _ \<Rightarrow> None else None)"
| "getEmailEvents coll lower other (CallFails i e) s =
     (if i < length (an_requests s) then case an_requests s ! i of
        Answered _ \<Rightarrow> None | _ \<Rightarrow> Some (answer_request s i (Inl (OtherFailure e))) else None)"

definition open_request :: "analytics_request \<Rightarrow> bool" where
  "open_request r = (case r of Answered _ \<Rightarrow> False | _ \<Rightarrow> True)"

definition single_flight :: "analytics \<Rightarrow> bool" where
  "single_flight s \<longleftrightarrow> length (filter open_request (an_requests s)) = (if an_active s then 1 else 0)"

lemma filter_update_count:
  "i < length xs \<Longrightarrow> length (filter P (xs[i := y])) + (if P (xs ! i) then 1 else 0) = length (filter P xs) + (if P y then 1 else 0)"
proof (induction xs arbitrary: i)
  case (Cons x xs)
  show ?case
  proof (cases i)
    case (Suc j)
    then show ?thesis using Cons.IH [of j] Cons.prems by simp
  qed simp
qed simp

lemma single_flight_step:
  assumes "single_flight s" "getEmailEvents coll lower other ev s = Some s'"
  shows "single_flight s'"
proof -
  have count: "length (filter open_request ((an_requests s)[i := r])) = length (filter open_request (an_requests s)) - 1"
    if "i < length (an_requests s)" "open_request (an_requests s ! i)" "\<not> open_request r" for i r
    using filter_update_count [of i "an_requests s" open_request r] that by simp
  have same: "length (filter open_request ((an_requests s)[i := r])) = length (filter open_request (an_requests s))"
    if "i < length (an_requests s)" "open_request (an_requests s ! i)" "open_request r" for i r
    using filter_update_count [of i "an_requests s" open_request r] that by simp
  have pos: "an_active s" if "i < length (an_requests s)" "open_request (an_requests s ! i)" for i
    using assms(1) that nth_mem [OF that(1)] by (auto simp: single_flight_def filter_empty_conv split: if_splits)
  show ?thesis
  proof (cases ev)
    case (Ask p)
    then show ?thesis using assms by (auto simp: single_flight_def open_request_def split: if_splits sum.splits)
  next
    case (IdsArrive i rows)
    then obtain p q where i: "i < length (an_requests s)" "an_requests s ! i = Selecting p q"
      using assms(2) by (auto split: if_splits analytics_request.splits)
    then have "open_request (an_requests s ! i)" by (simp add: open_request_def)
    then show ?thesis using assms IdsArrive i pos [OF i(1)] count [OF i(1)] same [OF i(1)]
      by (auto simp: single_flight_def answer_request_def open_request_def Let_def split: if_splits)
  next
    case (PayloadsArrive i rows)
    then obtain p ids where i: "i < length (an_requests s)" "an_requests s ! i = ReadingPayloads p ids"
      using assms(2) by (auto split: if_splits analytics_request.splits)
    then have "open_request (an_requests s ! i)" by (simp add: open_request_def)
    then show ?thesis using assms PayloadsArrive i pos [OF i(1)] count [OF i(1)]
      by (auto simp: single_flight_def answer_request_def open_request_def split: if_splits)
  next
    case (CallFails i e)
    then have i: "i < length (an_requests s)" "open_request (an_requests s ! i)"
      "s' = answer_request s i (Inl (OtherFailure e))"
      using assms(2) by (auto simp: open_request_def split: if_splits analytics_request.splits)
    then show ?thesis using assms(1) pos [OF i(1,2)] count [OF i(1,2)]
      by (auto simp: single_flight_def answer_request_def open_request_def split: if_splits)
  qed
qed

end
