(* ===== verification/EventsTraversal.thy ===== *)
theory EventsTraversal
  imports EventsPaging
begin

text \<open>
  The endpoint (app/v3/[siteId]/events/[[...slug]]/route.ts), the gate over any run, and a client that
  follows the links from page to page while the table changes under it.
\<close>

section \<open>The endpoint\<close>

text \<open>\<^verbatim>\<open>fetchAnalyticsEvents\<close>\<close>

definition fetchAnalyticsEvents :: "query_params \<Rightarrow> jstr \<Rightarrow> page_url \<Rightarrow> events_props" where
  "fetchAnalyticsEvents qp siteId url = \<lparr>ep_siteId = siteId, ep_type = qp_event qp, ep_begin = qp_begin qp, ep_end = qp_end qp,
     ep_order = qp_order qp, ep_start = qp_start qp, ep_limit = qp_limit qp, ep_cursor = qp_cursor qp, ep_url = url\<rparr>"

text \<open>Status, \<^verbatim>\<open>Retry-After\<close> and what the body says\<close>

datatype route_body = EventsBody "mailgun_item list \<times> page_url" | MessageBody string

definition events_response :: "(mailgun_item list \<times> page_url) qres \<Rightarrow> int \<times> string option \<times> route_body" where
  "events_response r = (case r of
     Inr events \<Rightarrow> (200, None, EventsBody events)
   | Inl AnalyticsBusy \<Rightarrow> (503, Some ''5'', MessageBody ''Analytics busy; retry shortly'')
   | Inl (QueryValidation m) \<Rightarrow> (400, None, MessageBody m)
   | Inl (OtherFailure e) \<Rightarrow> (500, None, MessageBody ''Unable to fetch analytics events''))"

text \<open>The handler up to the first query: a refused query string is answered at once.\<close>

definition fetchAnalyticsEvent ::
  "(jstr \<Rightarrow> 'o::linorder) \<Rightarrow> (jstr \<Rightarrow> jstr) \<Rightarrow> (jstr \<Rightarrow> int option) \<Rightarrow> int \<Rightarrow> jstr \<Rightarrow> search_params \<Rightarrow> page_url \<Rightarrow> analytics \<Rightarrow> analytics option" where
  "fetchAnalyticsEvent coll lower other now siteId q publicUrl s = (case validateQueryParams lower other now q of
     Inl e \<Rightarrow> Some (s\<lparr>an_requests := an_requests s @ [Answered (Inl e)]\<rparr>)
   | Inr qp \<Rightarrow> getEmailEvents coll lower other (Ask (fetchAnalyticsEvents qp siteId publicUrl)) s)"

section \<open>The address a proxy saw\<close>

record web_url =
  wu_protocol :: jstr
  wu_username :: jstr
  wu_password :: jstr
  wu_hostname :: jstr
  wu_port :: jstr
  wu_pathname :: jstr
  wu_search :: jstr
  wu_hash :: jstr

definition first_value :: "jstr option \<Rightarrow> jstr option" where
  "first_value h = map_option (\<lambda>s. trim (takeWhile (\<lambda>c. c \<noteq> 44) s)) h"

text \<open>\<^verbatim>\<open>/^[a-z0-9.-]+(?::\d{1,5})?$/i\<close>\<close>

definition host_unit :: "unit16 \<Rightarrow> bool" where
  "host_unit c \<longleftrightarrow> (let n = unat c in 97 \<le> n \<and> n \<le> 122 \<or> 65 \<le> n \<and> n \<le> 90 \<or> 48 \<le> n \<and> n \<le> 57 \<or> n = 46 \<or> n = 45)"

definition host_format :: "jstr \<Rightarrow> bool" where
  "host_format s \<longleftrightarrow> takeWhile host_unit s \<noteq> [] \<and> (let r = dropWhile host_unit s
     in r = [] \<or> hd r = 58 \<and> is_digits (tl r) \<and> length (tl r) \<le> 5)"

text \<open>\<open>parse_url\<close> is the \<^verbatim>\<open>URL\<close> constructor; \<open>None\<close> is its \<^verbatim>\<open>TypeError\<close>.\<close>

definition publicRequestUrl :: "(jstr \<Rightarrow> web_url option) \<Rightarrow> jstr option \<Rightarrow> jstr option \<Rightarrow> web_url \<Rightarrow> web_url" where
  "publicRequestUrl parse_url host_header proto_header url =
     (case (first_value host_header, map_option ascii_lower (first_value proto_header)) of
        (Some host, Some proto) \<Rightarrow>
          if host = [] \<or> proto \<notin> {lit ''http'', lit ''https''} \<or> \<not> host_format host then url
          else (case parse_url (proto @ lit ''://'' @ host) of
              None \<Rightarrow> url
            | Some origin \<Rightarrow>
                if wu_username origin \<noteq> [] \<or> wu_password origin \<noteq> [] \<or> wu_pathname origin \<noteq> lit ''/''
                   \<or> wu_search origin \<noteq> [] \<or> wu_hash origin \<noteq> [] then url
                else url\<lparr>wu_protocol := wu_protocol origin, wu_hostname := wu_hostname origin, wu_port := wu_port origin\<rparr>)
      | _ \<Rightarrow> url)"

section \<open>The gate\<close>

inductive analytics_reachable ::
  "(jstr \<Rightarrow> 'o::linorder) \<Rightarrow> (jstr \<Rightarrow> jstr) \<Rightarrow> (jstr \<Rightarrow> int option) \<Rightarrow> analytics \<Rightarrow> bool" for coll lower other where
  idle: "analytics_reachable coll lower other \<lparr>an_active = False, an_requests = []\<rparr>"
| event: "analytics_reachable coll lower other s \<Longrightarrow> getEmailEvents coll lower other ev s = Some s'
    \<Longrightarrow> analytics_reachable coll lower other s'"

lemma reachable_single_flight: "analytics_reachable coll lower other s \<Longrightarrow> single_flight s"
proof (induction rule: analytics_reachable.induct)
  case idle
  then show ?case by (simp add: single_flight_def)
qed (blast intro: single_flight_step)

text \<open>
  C39: one analytics request at a time. After any run at most one request is at work, and a new one is
  answered as busy exactly when another is at work: a request that was answered, refused or failed
  never leaves the gate closed.
\<close>

theorem analytics_single_flight:
  assumes "analytics_reachable coll lower other s" "getEmailEvents coll lower other (Ask p) s = Some s'"
  shows "length (filter open_request (an_requests s')) \<le> 1
     \<and> (last (an_requests s') = Answered (Inl AnalyticsBusy) \<longleftrightarrow> filter open_request (an_requests s) \<noteq> [])"
proof -
  have flight: "single_flight s" using assms(1) by (rule reachable_single_flight)
  have "single_flight s'" using flight assms(2) by (rule single_flight_step)
  moreover have "buildEventIdQuery lower other p \<noteq> Inl AnalyticsBusy"
    by (simp add: buildEventIdQuery_def Let_def bad_parameter_def)
  ultimately show ?thesis using flight assms(2)
    by (auto simp: single_flight_def split: if_splits sum.splits)
qed

section \<open>Following the links\<close>

text \<open>
  A client asks again and again with the cursor of the page before. At each visit the table is
  another one, and so may be the end of the window.
\<close>

fun follow_links ::
  "(jstr \<Rightarrow> 'o::linorder) \<Rightarrow> (jstr \<Rightarrow> jstr) \<Rightarrow> (jstr \<Rightarrow> int option) \<Rightarrow> events_props \<Rightarrow> (rat \<times> event_row list) list
   \<Rightarrow> events_cursor option \<Rightarrow> event_row list list" where
  "follow_links coll lower other p [] cursor = []"
| "follow_links coll lower other p ((until, rows) # visits) cursor =
     (case buildEventIdQuery lower other (p\<lparr>ep_end := until, ep_cursor := cursor\<rparr>) of
        Inl _ \<Rightarrow> []
      | Inr q \<Rightarrow> let ids = run_id_query coll q rows
          in ids # follow_links coll lower other p visits (next_cursor (ep_order p) cursor ids))"

text \<open>The rows a request is about, at a visit with this end.\<close>

definition asked_for :: "(jstr \<Rightarrow> 'o) \<Rightarrow> (jstr \<Rightarrow> jstr) \<Rightarrow> events_props \<Rightarrow> rat \<Rightarrow> event_row \<Rightarrow> bool" where
  "asked_for coll lower p until r \<longleftrightarrow> coll (el_type r) \<in> coll ` set (eventTypes lower (ep_type p))
     \<and> coll (el_siteId r) = coll (ep_siteId p)
     \<and> (case (date_of_seconds (ep_begin p), date_of_seconds until) of
          (Some a, Some b) \<Rightarrow> a < el_created r \<and> el_created r < b | _ \<Rightarrow> False)"

definition cursor_of_row :: "event_order \<Rightarrow> event_row \<Rightarrow> events_cursor" where
  "cursor_of_row ord r = \<lparr>cu_created = to_iso (el_created r), cu_id = el_id r, cu_order = ord\<rparr>"

definition beyond :: "(jstr \<Rightarrow> 'o::linorder) \<Rightarrow> event_order \<Rightarrow> event_row option \<Rightarrow> event_row \<Rightarrow> bool" where
  "beyond coll ord pos r \<longleftrightarrow> (case pos of None \<Rightarrow> True | Some a \<Rightarrow> row_key coll ord a < row_key coll ord r)"

lemma after_seek_beyond:
  assumes "iq_seek q = Some (el_created a, el_id a)"
  shows "after_seek coll q r \<longleftrightarrow> beyond coll (iq_order q) (Some a) r"
  using assms by (auto simp: after_seek_def beyond_def row_key_def ordered_key_def split: event_order.split)

lemma visit_page:
  assumes "buildEventIdQuery lower other (p\<lparr>ep_end := until, ep_cursor := map_option (cursor_of_row (ep_order p)) pos\<rparr>) = Inr q"
    and "unique_ids coll rows" "inj_on coll (set (eventTypes lower (ep_type p)))"
    and "ep_start p = 0" "1 \<le> ep_limit p" "pred_option (\<lambda>a. in_iso_range (el_created a)) pos"
  defines "page \<equiv> run_id_query coll q rows" and "key \<equiv> row_key coll (ep_order p)"
  shows "sorted (map key page)" "distinct (map key page)" "set page \<subseteq> set rows"
    "r \<in> set page \<Longrightarrow> asked_for coll lower p until r \<and> beyond coll (ep_order p) pos r"
    "r \<in> set rows \<Longrightarrow> asked_for coll lower p until r \<Longrightarrow> beyond coll (ep_order p) pos r \<Longrightarrow> r \<notin> set page
       \<Longrightarrow> page \<noteq> [] \<and> key (last page) < key r"
proof -
  note q = built_query [OF assms(1)]
  have seek: "after_seek coll q r \<longleftrightarrow> beyond coll (ep_order p) pos r" for r
  proof (cases pos)
    case None
    then show ?thesis using q(9) by (simp add: after_seek_def beyond_def)
  next
    case (Some a)
    then have "iq_seek q = Some (el_created a, el_id a)"
      using q(9) assms(6) by (simp add: cursor_of_row_def read_date_iso)
    from after_seek_beyond [OF this] show ?thesis using Some q(3) by simp
  qed
  define all where "all = selected_rows coll q rows"
  have all: "set all = {r \<in> set rows. asked_for coll lower p until r \<and> beyond coll (ep_order p) pos r}"
    using seek q(2,6,7,8)
    by (auto simp: all_def selected_rows_def list_ex_iff in_branch_def asked_for_def in_window_def)
  have page: "page = take (nat (ep_limit p)) all"
    using merged_query [OF assms(2) q(1)] assms(3) q(2,4,5) assms(4) by (simp add: page_def all_def)
  have key: "key = row_key coll (iq_order q)" using q(3) by (simp add: key_def)
  have sorted: "sorted (map key all)" by (simp add: all_def selected_rows_def key)
  have distinct: "distinct (map key all)"
    using unique_keys [OF assms(2), of "iq_order q"] by (auto simp: all_def selected_rows_def key distinct_map intro: inj_on_subset)
  have split: "map key all = map key page @ map key (drop (nat (ep_limit p)) all)" unfolding page by (simp flip: map_append)
  show "sorted (map key page)" using sorted unfolding split by (simp add: sorted_append)
  show "distinct (map key page)" using distinct unfolding split by simp
  have sub: "set page \<subseteq> set all" unfolding page by (rule set_take_subset)
  then show "set page \<subseteq> set rows" using all by blast
  show "asked_for coll lower p until r \<and> beyond coll (ep_order p) pos r" if "r \<in> set page" using that sub all by blast
  show "page \<noteq> [] \<and> key (last page) < key r"
    if "r \<in> set rows" "asked_for coll lower p until r" "beyond coll (ep_order p) pos r" "r \<notin> set page"
  proof -
    have "r \<in> set all" using that all by simp
    then have rest: "r \<in> set (drop (nat (ep_limit p)) all)"
      using that(4) unfolding page by (metis Un_iff append_take_drop_id set_append)
    then have "page \<noteq> []" using assms(5) unfolding page by (cases all) auto
    moreover have "key (last page) < key r"
    proof -
      have "last page \<in> set page" using \<open>page \<noteq> []\<close> by simp
      then have "key (last page) \<le> key r" using sorted rest unfolding split sorted_append by auto
      moreover have "key (last page) \<noteq> key r" using distinct rest \<open>last page \<in> set page\<close> unfolding split by fastforce
      ultimately show ?thesis by simp
    qed
    ultimately show ?thesis by blast
  qed
qed

definition visits_ok :: "(jstr \<Rightarrow> 'o) \<Rightarrow> (rat \<times> event_row list) list \<Rightarrow> bool" where
  "visits_ok coll visits \<longleftrightarrow> (\<forall>(until, rows) \<in> set visits. unique_ids coll rows \<and> (\<forall>r \<in> set rows. in_iso_range (el_created r)))"

lemma sorted_last: "sorted xs \<Longrightarrow> x \<in> set xs \<Longrightarrow> x \<le> (last xs :: 'a::linorder)"
  by (induction xs) auto

lemma follow_pages:
  fixes coll :: "jstr \<Rightarrow> 'o::linorder" and other :: "jstr \<Rightarrow> int option"
  assumes "visits_ok coll visits" "inj_on coll (set (eventTypes lower (ep_type p)))" "ep_start p = 0"
    and "1 \<le> ep_limit p" "ep_limit p \<le> 300" "pred_option (\<lambda>a. in_iso_range (el_created a)) pos"
  defines "pages \<equiv> follow_links coll lower other p visits (map_option (cursor_of_row (ep_order p)) pos)"
    and "key \<equiv> row_key coll (ep_order p)"
  shows "length pages = length visits \<and> sorted_wrt (\<lambda>x y. key x < key y) (concat pages)
     \<and> (\<forall>r \<in> set (concat pages). beyond coll (ep_order p) pos r \<and> (\<exists>(until, rows) \<in> set visits. r \<in> set rows))
     \<and> (\<forall>r. (\<forall>(until, rows) \<in> set visits. r \<in> set rows \<and> asked_for coll lower p until r) \<longrightarrow> beyond coll (ep_order p) pos r
          \<longrightarrow> r \<in> set (concat pages) \<or> visits = [] \<or> last pages \<noteq> [])"
  using assms(1,6) unfolding pages_def
proof (induction visits arbitrary: pos)
  case (Cons v visits)
  obtain until rows where v: "v = (until, rows)" by force
  let ?at = "map_option (cursor_of_row (ep_order p)) pos"
  have rows: "unique_ids coll rows" "\<forall>r \<in> set rows. in_iso_range (el_created r)" and visits: "visits_ok coll visits"
    using Cons.prems(1) by (auto simp: v visits_ok_def)
  have "\<bar>ep_limit p\<bar> \<le> max_safe" using assms(4,5) by (simp add: max_safe_def)
  then obtain q where q: "buildEventIdQuery lower other (p\<lparr>ep_end := until, ep_cursor := ?at\<rparr>) = Inr q"
    using assms(3) by (auto simp: buildEventIdQuery_def Let_def bad_parameter_guard)
  define page where "page = run_id_query coll q rows"
  note visit = visit_page [OF q rows(1) assms(2,3,4) Cons.prems(2), folded page_def key_def]
  define pos' where "pos' = (if page = [] then pos else Some (last page))"
  have cursor: "next_cursor (ep_order p) ?at page = map_option (cursor_of_row (ep_order p)) pos'"
    by (simp add: next_cursor_def pos'_def cursor_of_row_def)
  have iso: "pred_option (\<lambda>a. in_iso_range (el_created a)) pos'"
  proof -
    have "page \<noteq> [] \<Longrightarrow> last page \<in> set rows" using visit(3) by (meson last_in_set subsetD)
    then show ?thesis using Cons.prems(2) rows(2) by (simp add: pos'_def)
  qed
  let ?rest = "follow_links coll lower other p visits (map_option (cursor_of_row (ep_order p)) pos')"
  have pages: "follow_links coll lower other p (v # visits) ?at = page # ?rest"
    by (simp add: v q page_def [symmetric] cursor Let_def)
  note rest = Cons.IH [OF visits iso]
  have increasing: "sorted_wrt (\<lambda>x y. key x < key y) page"
    using visit(1,2) unfolding sorted_wrt_map [of "(<)" key, symmetric] strict_sorted_iff by blast
  have further: "beyond coll (ep_order p) pos r \<and> (\<forall>x \<in> set page. key x < key r)" if "beyond coll (ep_order p) pos' r" for r
  proof (cases "page = []")
    case True
    then show ?thesis using that by (simp add: pos'_def)
  next
    case False
    then have less: "key (last page) < key r" using that by (simp add: pos'_def beyond_def key_def)
    have "key x \<le> key (last page)" if "x \<in> set page" for x
      using sorted_last [OF visit(1), of "key x"] that False by (simp add: last_map)
    moreover have "beyond coll (ep_order p) pos (last page)" using visit(4) [of "last page"] False by simp
    ultimately show ?thesis using less by (fastforce simp: beyond_def key_def split: option.splits)
  qed
  show ?case
    unfolding pages
  proof (intro conjI)
    show "length (page # ?rest) = length (v # visits)" using rest by simp
    have "\<forall>y \<in> set (concat ?rest). \<forall>x \<in> set page. key x < key y" using rest further by blast
    then show "sorted_wrt (\<lambda>x y. key x < key y) (concat (page # ?rest))"
      using rest increasing by (simp only: concat.simps sorted_wrt_append) blast
    show "\<forall>r \<in> set (concat (page # ?rest)). beyond coll (ep_order p) pos r \<and> (\<exists>(until, rows) \<in> set (v # visits). r \<in> set rows)"
      using rest further visit(3,4) by (fastforce simp: v)
    show "\<forall>r. (\<forall>(until, rows) \<in> set (v # visits). r \<in> set rows \<and> asked_for coll lower p until r) \<longrightarrow> beyond coll (ep_order p) pos r
        \<longrightarrow> r \<in> set (concat (page # ?rest)) \<or> v # visits = [] \<or> last (page # ?rest) \<noteq> []"
    proof (intro allI impI)
      fix r assume r: "\<forall>(until, rows) \<in> set (v # visits). r \<in> set rows \<and> asked_for coll lower p until r" "beyond coll (ep_order p) pos r"
      show "r \<in> set (concat (page # ?rest)) \<or> v # visits = [] \<or> last (page # ?rest) \<noteq> []"
      proof (cases "r \<in> set page")
        case False
        then have "page \<noteq> []" "key (last page) < key r" using visit(5) [of r] r by (simp_all add: v)
        then have "beyond coll (ep_order p) pos' r" by (simp add: pos'_def beyond_def key_def)
        then have "r \<in> set (concat ?rest) \<or> visits = [] \<or> last ?rest \<noteq> []" using rest r(1) by auto
        moreover have "visits = [] \<longleftrightarrow> ?rest = []" using rest by (metis length_0_conv)
        ultimately show ?thesis using \<open>page \<noteq> []\<close> by auto
      qed simp
    qed
  qed
qed simp

text \<open>
  C7: following the links yields every event once. A client starts without a cursor and follows the
  links while events arrive, are updated and are deleted: no event is selected twice, every selected
  row was in a table the client visited, and once a page comes back empty, every row that
  matched at each visit has been selected. Ids are unique and keep their time of creation.
\<close>

theorem following_links_yields_every_event_once:
  fixes coll :: "jstr \<Rightarrow> 'o::linorder"
  assumes "ep_start p = 0" "ep_cursor p = None" "1 \<le> ep_limit p" "ep_limit p \<le> 300"
    and "inj_on coll (set (eventTypes lower (ep_type p)))" "visits_ok coll visits"
    and same: "\<And>a b r r'. a \<in> set visits \<Longrightarrow> b \<in> set visits \<Longrightarrow> r \<in> set (snd a) \<Longrightarrow> r' \<in> set (snd b)
      \<Longrightarrow> coll (el_id r) = coll (el_id r') \<Longrightarrow> el_created r = el_created r'"
  shows "length (follow_links coll lower other p visits (ep_cursor p)) = length visits
     \<and> distinct (map (\<lambda>r. coll (el_id r)) (concat (follow_links coll lower other p visits (ep_cursor p))))
     \<and> set (concat (follow_links coll lower other p visits (ep_cursor p))) \<subseteq> \<Union> ((\<lambda>v. set (snd v)) ` set visits)
     \<and> (last (follow_links coll lower other p visits (ep_cursor p)) = [] \<and> visits \<noteq> [] \<longrightarrow>
         (\<forall>r. (\<forall>(until, rows) \<in> set visits. r \<in> set rows \<and> asked_for coll lower p until r)
            \<longrightarrow> r \<in> set (concat (follow_links coll lower other p visits (ep_cursor p)))))"
proof -
  define pages where "pages = follow_links coll lower other p visits (ep_cursor p)"
  let ?key = "row_key coll (ep_order p)"
  have facts: "length pages = length visits \<and> sorted_wrt (\<lambda>x y. ?key x < ?key y) (concat pages)
     \<and> (\<forall>r \<in> set (concat pages). beyond coll (ep_order p) None r \<and> (\<exists>(until, rows) \<in> set visits. r \<in> set rows))
     \<and> (\<forall>r. (\<forall>(until, rows) \<in> set visits. r \<in> set rows \<and> asked_for coll lower p until r) \<longrightarrow> beyond coll (ep_order p) None r
          \<longrightarrow> r \<in> set (concat pages) \<or> visits = [] \<or> last pages \<noteq> [])"
    using follow_pages [OF assms(6,5,1,3,4), of None, where other = other] assms(2) by (simp add: pages_def)
  have "sorted_wrt (<) (map ?key (concat pages))" using facts unfolding sorted_wrt_map by blast
  then have "distinct (map ?key (concat pages))" by (simp only: strict_sorted_iff)
  moreover have "inj_on (\<lambda>r. coll (el_id r)) (set (concat pages))"
  proof (rule inj_onI)
    fix r r' assume r: "r \<in> set (concat pages)" "r' \<in> set (concat pages)" "coll (el_id r) = coll (el_id r')"
    obtain a where "a \<in> set visits" "r \<in> set (snd a)" using facts r(1) by fastforce
    moreover obtain b where "b \<in> set visits" "r' \<in> set (snd b)" using facts r(2) by fastforce
    ultimately have "?key r = ?key r'" using same [of a b r r'] r(3) by (simp add: row_key_def)
    then show "r = r'" using \<open>distinct (map ?key (concat pages))\<close> r(1,2) by (meson distinct_map inj_onD)
  qed
  ultimately have "distinct (map (\<lambda>r. coll (el_id r)) (concat pages))" by (simp add: distinct_map)
  moreover have "set (concat pages) \<subseteq> \<Union> ((\<lambda>v. set (snd v)) ` set visits)" using facts by fastforce
  moreover have "beyond coll (ep_order p) None r" for r by (simp add: beyond_def)
  ultimately show ?thesis using facts unfolding pages_def [symmetric] by blast
qed

section \<open>An example\<close>

definition opened_event :: event_row where
  "opened_event = \<lparr>el_id = lit ''e1'', el_created = 2000, el_type = lit ''opened'', el_siteId = lit ''s1'', el_timestamp = 1000,
     el_messageId = lit ''m1'', el_rawEvent = lit ''{}'', el_toEmail = lit ''a@b'', el_batchId = lit ''b1''\<rparr>"

definition failed_event :: event_row where
  "failed_event = opened_event\<lparr>el_id := lit ''e2'', el_type := lit ''failed'', el_created := 1000\<rparr>"

definition example_props :: events_props where
  "example_props = \<lparr>ep_siteId = lit ''s1'', ep_type = lit ''opened OR failed'', ep_begin = 0, ep_end = 10, ep_order = Ascending,
     ep_start = 0, ep_limit = 5, ep_cursor = None, ep_url = \<lparr>pu_rest = [], pu_query = []\<rparr>\<rparr>"

lemma example_types: "eventTypes (\<lambda>s. s) (lit ''opened OR failed'') = [lit ''opened'', lit ''failed'']"
proof -
  have "split_or [] (lit ''opened OR failed'') = [lit ''opened'', lit ''failed'']"
    by (simp add: lit_def match_or_def is_ws_def)
  moreover have "trim (lit ''opened'') = lit ''opened''" "trim (lit ''failed'') = lit ''failed''"
    unfolding trim_idem_iff by (simp_all add: lit_def is_ws_def)
  ultimately show ?thesis by (simp add: eventTypes_def)
qed

lemma example_dates: "date_of_seconds 0 = Some 0" "date_of_seconds 10 = Some 10000"
  by code_simp+

lemma example_built:
  "buildEventIdQuery (\<lambda>s. s) (\<lambda>_. None) example_props = Inr \<lparr>iq_types = [lit ''opened'', lit ''failed''], iq_siteId = lit ''s1'',
     iq_begin = Some 0, iq_end = Some 10000, iq_seek = None, iq_order = Ascending, iq_limit = 5, iq_offset = 0\<rparr>"
  by (simp add: buildEventIdQuery_def example_props_def example_types example_dates first_occurrences_def max_safe_def)

theorem merged_branches_are_the_query_witness:
  "\<exists>q. buildEventIdQuery (\<lambda>s. s) (\<lambda>_. None) example_props = Inr q
     \<and> run_id_query (\<lambda>s. s) q [opened_event, failed_event] = take 5 (drop 0 (selected_rows (\<lambda>s. s) q [opened_event, failed_event]))
     \<and> in_branch (\<lambda>s. s) q (lit ''failed'') failed_event"
proof -
  have "unique_ids (\<lambda>s. s) [opened_event, failed_event]" by (simp add: unique_ids_def opened_event_def failed_event_def)
  from merged_branches_are_the_query [OF example_built this] show ?thesis
    by (simp add: example_built in_branch_def in_window_def after_seek_def failed_event_def opened_event_def)
qed

theorem following_links_yields_every_event_once_witness:
  "opened_event \<in> set (concat (follow_links (\<lambda>s. s) (\<lambda>s. s) (\<lambda>_. None) example_props
     [(10, [opened_event, failed_event]), (10, [opened_event])] None))"
proof -
  let ?visits = "[(10, [opened_event, failed_event]), (10 :: rat, [opened_event])]"
  have iso: "in_iso_range 2000" "in_iso_range 1000" by code_simp+
  have unique: "unique_ids (\<lambda>s. s) [opened_event, failed_event]" by (simp add: unique_ids_def opened_event_def failed_event_def)
  have visits: "visits_ok (\<lambda>s. s) ?visits"
    using unique iso by (simp add: visits_ok_def unique_ids_def opened_event_def failed_event_def)
  have props: "ep_start example_props = 0" "ep_cursor example_props = None" "1 \<le> ep_limit example_props" "ep_limit example_props \<le> 300"
    "ep_order example_props = Ascending" "example_props\<lparr>ep_end := 10, ep_cursor := None\<rparr> = example_props"
    by (simp_all add: example_props_def)
  let ?q = "\<lparr>iq_types = [lit ''opened'', lit ''failed''], iq_siteId = lit ''s1'', iq_begin = Some 0, iq_end = Some 10000,
     iq_seek = None, iq_order = Ascending, iq_limit = 5, iq_offset = 0\<rparr>"
  let ?q2 = "\<lparr>iq_types = [lit ''opened'', lit ''failed''], iq_siteId = lit ''s1'', iq_begin = Some 0, iq_end = Some 10000,
     iq_seek = Some (2000, lit ''e1''), iq_order = Ascending, iq_limit = 5, iq_offset = 0\<rparr>"
  have first: "run_id_query (\<lambda>s. s) ?q [opened_event, failed_event] = [failed_event, opened_event]"
    by (simp add: run_id_query_def query_branch_def in_branch_def in_window_def after_seek_def opened_event_def failed_event_def
        row_key_def ordered_key_def less_eq_page_key_def)
  have cursor: "next_cursor Ascending None [failed_event, opened_event] = Some \<lparr>cu_created = to_iso 2000, cu_id = lit ''e1'', cu_order = Ascending\<rparr>"
    by (simp add: next_cursor_def opened_event_def)
  have built: "buildEventIdQuery (\<lambda>s. s) (\<lambda>_. None) (example_props\<lparr>ep_end := 10, ep_cursor :=
      Some \<lparr>cu_created = to_iso 2000, cu_id = lit ''e1'', cu_order = Ascending\<rparr>\<rparr>) = Inr ?q2"
    using iso by (simp add: buildEventIdQuery_def example_props_def example_types example_dates first_occurrences_def max_safe_def read_date_iso)
  have second: "run_id_query (\<lambda>s. s) ?q2 [opened_event] = []"
    by (simp add: run_id_query_def query_branch_def in_branch_def in_window_def after_seek_def opened_event_def)
  have follow: "follow_links (\<lambda>s. s) (\<lambda>s. s) (\<lambda>_. None) example_props ?visits None = [[failed_event, opened_event], []]"
    by (simp add: props example_built first cursor built second)
  have same: "el_created r = el_created r'" if "a \<in> set ?visits" "b \<in> set ?visits" "r \<in> set (snd a)" "r' \<in> set (snd b)" "el_id r = el_id r'" for a b r r'
  proof -
    have "r \<in> {opened_event, failed_event}" "r' \<in> {opened_event, failed_event}" using that by auto
    then show ?thesis using that(5) by (elim insertE emptyE) (simp_all add: opened_event_def failed_event_def)
  qed
  have inj: "inj_on (\<lambda>s. s) (set (eventTypes (\<lambda>s. s) (ep_type example_props)))" by simp
  have asked: "asked_for (\<lambda>s. s) (\<lambda>s. s) example_props 10 opened_event"
    by (simp add: asked_for_def example_props_def example_types example_dates opened_event_def)
  have "\<forall>(until, rows) \<in> set ?visits. opened_event \<in> set rows \<and> asked_for (\<lambda>s. s) (\<lambda>s. s) example_props until opened_event"
    using asked by simp
  then show ?thesis
    using following_links_yields_every_event_once [where other = "\<lambda>_. None", OF props(1-4) inj visits same]
    unfolding props(2) follow by simp
qed

definition gate_open :: analytics where
  "gate_open = \<lparr>an_active = False, an_requests = []\<rparr>"

theorem analytics_single_flight_witness:
  "\<exists>s s'. getEmailEvents (\<lambda>s. s) (\<lambda>s. s) (\<lambda>_. None) (Ask example_props) gate_open = Some s
     \<and> getEmailEvents (\<lambda>s. s) (\<lambda>s. s) (\<lambda>_. None) (Ask example_props) s = Some s' \<and> last (an_requests s') = Answered (Inl AnalyticsBusy)"
proof -
  have s0: "analytics_reachable (\<lambda>s. s) (\<lambda>s. s) (\<lambda>_. None) gate_open"
    unfolding gate_open_def by (rule analytics_reachable.idle)
  obtain s q where s: "getEmailEvents (\<lambda>s. s) (\<lambda>s. s) (\<lambda>_. None) (Ask example_props) gate_open = Some s"
    "an_requests s = [Selecting example_props q]" by (simp add: gate_open_def example_built)
  obtain s' where s': "getEmailEvents (\<lambda>s. s) (\<lambda>s. s) (\<lambda>_. None) (Ask example_props) s = Some s'" by simp
  have "analytics_reachable (\<lambda>s. s) (\<lambda>s. s) (\<lambda>_. None) s" using s0 s(1) by (rule analytics_reachable.event)
  from analytics_single_flight [OF this s'] have "last (an_requests s') = Answered (Inl AnalyticsBusy)"
    by (simp add: s(2) open_request_def)
  then show ?thesis using s(1) s' by blast
qed

end
