(* ===== verification/RetentionPolicy.thy ===== *)
theory RetentionPolicy
  imports JsonText
begin

text \<open>
  The retention policy, its evidence and the hashed manifest
  (service/newsletter-retention.ts). Inputs are dynamically typed values, as at the boundary of
  the command; every throw is an \<open>Inl\<close>. SHA-256 is the parameter \<open>sha\<close>, from the text hashed to
  the hex digest.
\<close>

section \<open>Policy\<close>

record retention_policy =
  pol_siteId :: jstr
  pol_cutoff :: jstr
  pol_dryRun :: bool
  pol_maxBatches :: int
  pol_maxMessages :: int
  pol_policyVersion :: int

definition strict_iso_error :: "string \<Rightarrow> exn" where
  "strict_iso_error field = Error (field @ '' must be a strict UTC ISO-8601 string'')"

definition normalizeSiteId :: "js \<Rightarrow> jstr res" where
  "normalizeSiteId v = trimmed_string v (Error ''siteId must be a non-empty string'')"

definition clampPositiveInteger :: "js \<Rightarrow> int \<Rightarrow> int \<Rightarrow> string \<Rightarrow> string \<Rightarrow> int res" where
  "clampPositiveInteger v fallback hi field hi_text = (case v of
     JUndef \<Rightarrow> Inr fallback
   | JNum x \<Rightarrow> (case int_of_num x of
       Some n \<Rightarrow> if n \<le> 0 then Inl (Error (field @ '' must be a positive integer''))
                 else if n > hi then Inl (Error (field @ '' must not exceed '' @ hi_text)) else Inr n
     | None \<Rightarrow> Inl (Error (field @ '' must be a positive integer'')))
   | _ \<Rightarrow> Inl (Error (field @ '' must be a positive integer'')))"

definition parseNewsletterRetentionPolicy :: "js \<Rightarrow> retention_policy res" where
  "parseNewsletterRetentionPolicy input =
     (if \<not> is_object input then Inl (Error ''siteId must be a non-empty string'')
      else bindE (normalizeSiteId (get_prop input ''siteId'')) (\<lambda>siteId.
           bindE (parse_strict_utc (get_prop input ''cutoff'') (strict_iso_error ''cutoff'')) (\<lambda>cutoff.
           bindE (clampPositiveInteger (get_prop input ''maxBatches'') 10 100 ''maxBatches'' ''100'') (\<lambda>maxBatches.
           bindE (clampPositiveInteger (get_prop input ''maxMessages'') 1000 10000 ''maxMessages'' ''10000'') (\<lambda>maxMessages.
             Inr \<lparr>pol_siteId = siteId, pol_cutoff = to_iso cutoff,
                  pol_dryRun = (get_prop input ''apply'' \<noteq> JBool True),
                  pol_maxBatches = maxBatches, pol_maxMessages = maxMessages,
                  pol_policyVersion = 1\<rparr>)))))"

lemma clampPositiveInteger_Inr_iff:
  "clampPositiveInteger v d hi f t = Inr n \<longleftrightarrow>
     (v = JUndef \<and> n = d) \<or> (v = jint n \<and> 0 < n \<and> n \<le> hi)"
  by (auto simp: clampPositiveInteger_def int_of_num_Some_iff split: js.splits option.splits)

section \<open>Evidence\<close>

record retention_evidence =
  ev_now :: jstr
  ev_backup_verifiedAt :: jstr
  ev_backup_restoredAt :: jstr
  ev_restore_verifiedAt :: jstr
  ev_restore_restoredAt :: jstr
  ev_queueCheckedAt :: jstr
  ev_proxyCheckedAt :: jstr

definition MAX_BACKUP_RESTORE_AGE_MS :: int where "MAX_BACKUP_RESTORE_AGE_MS = 24 * 60 * 60000"
definition MAX_HEALTH_AGE_MS :: int where "MAX_HEALTH_AGE_MS = 15 * 60000"

definition ensureFreshEvidence :: "string \<Rightarrow> int \<Rightarrow> int \<Rightarrow> int \<Rightarrow> unit res" where
  "ensureFreshEvidence label t now maxAge =
     (if t > now then Inl (Error (label @ '' is stale''))
      else if now - t > maxAge then Inl (Error (label @ '' is stale'')) else Inr ())"

definition evidence_time :: "js \<Rightarrow> string \<Rightarrow> string \<Rightarrow> int res" where
  "evidence_time input part field =
     parse_strict_utc (get_prop (get_prop input part) field) (strict_iso_error (part @ ''.'' @ field))"

definition parseNewsletterRetentionEvidence :: "js \<Rightarrow> retention_evidence res" where
  "parseNewsletterRetentionEvidence input =
     (if \<not> is_object input then Inl (Error ''evidence must be a plain object'')
      else bindE (parse_strict_utc (get_prop input ''now'') (strict_iso_error ''now'')) (\<lambda>now.
           bindE (evidence_time input ''backup'' ''verifiedAt'') (\<lambda>bv.
           bindE (evidence_time input ''backup'' ''restoredAt'') (\<lambda>br.
           bindE (evidence_time input ''restore'' ''verifiedAt'') (\<lambda>rv.
           bindE (evidence_time input ''restore'' ''restoredAt'') (\<lambda>rr.
           bindE (evidence_time input ''health'' ''queueCheckedAt'') (\<lambda>qc.
           bindE (evidence_time input ''health'' ''proxyCheckedAt'') (\<lambda>pc.
             if get_prop (get_prop input ''health'') ''queueHealthy'' \<noteq> JBool True
                \<or> get_prop (get_prop input ''health'') ''proxyHealthy'' \<noteq> JBool True
             then Inl (Error ''health evidence must be healthy'')
             else
               bindE (ensureFreshEvidence ''backup evidence'' bv now MAX_BACKUP_RESTORE_AGE_MS) (\<lambda>_.
               bindE (ensureFreshEvidence ''backup evidence'' br now MAX_BACKUP_RESTORE_AGE_MS) (\<lambda>_.
               bindE (ensureFreshEvidence ''restore evidence'' rv now MAX_BACKUP_RESTORE_AGE_MS) (\<lambda>_.
               bindE (ensureFreshEvidence ''restore evidence'' rr now MAX_BACKUP_RESTORE_AGE_MS) (\<lambda>_.
               bindE (ensureFreshEvidence ''health evidence'' qc now MAX_HEALTH_AGE_MS) (\<lambda>_.
               bindE (ensureFreshEvidence ''health evidence'' pc now MAX_HEALTH_AGE_MS) (\<lambda>_.
                 Inr \<lparr>ev_now = to_iso now, ev_backup_verifiedAt = to_iso bv,
                      ev_backup_restoredAt = to_iso br, ev_restore_verifiedAt = to_iso rv,
                      ev_restore_restoredAt = to_iso rr, ev_queueCheckedAt = to_iso qc,
                      ev_proxyCheckedAt = to_iso pc\<rparr>))))))))))))))"

lemma ensureFreshEvidence_Inr_iff [simp]:
  "ensureFreshEvidence l t now age = Inr u \<longleftrightarrow> t \<le> now \<and> now - t \<le> age"
  by (auto simp: ensureFreshEvidence_def)

text \<open>A field that prints a time at most \<open>age\<close> before \<open>now\<close>, and not after it.\<close>

definition fresh_time :: "js \<Rightarrow> string \<Rightarrow> string \<Rightarrow> int \<Rightarrow> int \<Rightarrow> bool" where
  "fresh_time input part field now age \<longleftrightarrow>
     (\<exists>t. get_prop (get_prop input part) field = JStr (to_iso t) \<and> in_iso_range t
          \<and> t \<le> now \<and> now - t \<le> age)"

section \<open>Canonical JSON\<close>

text \<open>Object members are sorted by key; the sort looks at the keys only, so printing first is the same.\<close>

fun canonicalJson :: "js \<Rightarrow> jstr" where
  "canonicalJson (JArr vs) = lit ''['' @ join_with (lit '','') (map canonicalJson vs) @ lit '']''"
| "canonicalJson (JObj p kvs) = lit ''{'' @ join_with (lit '','')
     (map snd (sort_by (\<lambda>l r. compare_strings (fst l) (fst r))
        (map (\<lambda>(k, v). (k, json_quote k @ lit '':'' @ canonicalJson v)) kvs))) @ lit ''}''"
| "canonicalJson (JDate d) = lit ''{}''"
| "canonicalJson v = (case json_stringify v of Some t \<Rightarrow> t | None \<Rightarrow> lit ''undefined'')"

text \<open>The value whose plain text this is: the same data with every object's members in key order.\<close>

fun sort_members :: "js \<Rightarrow> js" where
  "sort_members (JArr vs) = JArr (map sort_members vs)"
| "sort_members (JObj p kvs) = JObj p (sort_by (\<lambda>l r. compare_strings (fst l) (fst r))
     (map (\<lambda>(k, v). (k, sort_members v)) kvs))"
| "sort_members v = v"

lemma insert_by_map:
  "(\<And>x y. cmp' (f x) (f y) = cmp x y) \<Longrightarrow> insert_by cmp' (f x) (map f xs) = map f (insert_by cmp x xs)"
  by (induction xs) auto

lemma sort_by_map:
  "(\<And>x y. cmp' (f x) (f y) = cmp x y) \<Longrightarrow> sort_by cmp' (map f xs) = map f (sort_by cmp xs)"
  by (induction xs) (auto simp: sort_by_Cons insert_by_map)

lemma distinct_sorted_members:
  assumes "distinct (map fst kvs)"
  shows "distinct (map fst (map (\<lambda>(k, v). (k, f v)) kvs))"
    "distinct (map fst (sort_by cmp (map (\<lambda>(k, v). (k, f v)) kvs)))"
proof -
  have "map fst (map (\<lambda>(k, v). (k, f v)) kvs) = map fst kvs" by (simp add: split_beta comp_def)
  then show distinct: "distinct (map fst (map (\<lambda>(k, v). (k, f v)) kvs))" using assms by (simp only:)
  have "mset (map fst (sort_by cmp xs)) = mset (map fst xs)" for xs :: "('a \<times> 'c) list"
    by (simp only: mset_map mset_sort_by)
  then show "distinct (map fst (sort_by cmp (map (\<lambda>(k, v). (k, f v)) kvs)))"
    using distinct mset_eq_imp_distinct_iff by blast
qed

lemma plain_sort_members: "plain v \<Longrightarrow> plain (sort_members v)"
proof (induction v)
  case (JObj p kvs)
  then have "distinct (map fst (sort_by (\<lambda>l r. compare_strings (fst l) (fst r))
      (map (\<lambda>(k, v). (k, sort_members v)) kvs)))"
    by (intro distinct_sorted_members) simp
  moreover have "plain (sort_members v)" if "(k, v) \<in> set kvs" for k v
    using JObj that by (fastforce simp: list_all_iff)
  ultimately show ?case using JObj.prems by (auto simp: list_all_iff)
qed (auto simp: list_all_iff)

lemma member_sort_commutes:
  assumes "\<And>v. v \<in> set (map snd kvs) \<Longrightarrow> canonicalJson v = json_text (sort_members v)"
  shows "map snd (sort_by (\<lambda>l r. compare_strings (fst l) (fst r))
            (map (\<lambda>(k, v). (k, json_quote k @ [58] @ canonicalJson v)) kvs))
         = map member_text (sort_by (\<lambda>l r. compare_strings (fst l) (fst r))
            (map (\<lambda>(k, v). (k, sort_members v)) kvs))"
proof -
  let ?cmp = "\<lambda>l r. compare_strings (fst l) (fst r)"
  let ?f = "\<lambda>kv. (fst kv, member_text kv)"
  have "map (\<lambda>(k, v). (k, json_quote k @ [58] @ canonicalJson v)) kvs
        = map ?f (map (\<lambda>(k, v). (k, sort_members v)) kvs)"
    using assms by (force simp: member_text_def)
  also have "sort_by ?cmp \<dots> = map ?f (sort_by ?cmp (map (\<lambda>(k, v). (k, sort_members v)) kvs))"
    by (rule sort_by_map) simp
  finally show ?thesis by (simp add: comp_def)
qed

lemma canonicalJson_text: "plain v \<Longrightarrow> canonicalJson v = json_text (sort_members v)"
proof (induction v)
  case (JNum x)
  then show ?case by (simp add: json_text_def)
next
  case (JArr vs)
  then have "map canonicalJson vs = map json_text (map sort_members vs)"
    by (auto simp: list_all_iff)
  moreover have "list_all plain (map sort_members vs)"
    using JArr.prems plain_sort_members by (auto simp: list_all_iff)
  ultimately show ?case by (simp only: canonicalJson.simps sort_members.simps lit_brackets json_text_arr)
next
  case (JObj p kvs)
  let ?s = "sort_by (\<lambda>l r. compare_strings (fst l) (fst r)) (map (\<lambda>(k, v). (k, sort_members v)) kvs)"
  have "list_all plain (map snd ?s)" using plain_sort_members [OF JObj.prems] by simp
  moreover have "canonicalJson v = json_text (sort_members v)" if "v \<in> set (map snd kvs)" for v
    using JObj that by (fastforce simp: list_all_iff)
  ultimately show ?case
    by (simp only: canonicalJson.simps sort_members.simps lit_brackets json_text_obj member_sort_commutes)
qed (simp_all add: json_text_def)

lemma map_of_sort_members:
  assumes "distinct (map fst kvs)"
  shows "map_of (sort_by cmp (map (\<lambda>(k, v). (k, f v)) kvs)) k = map_option f (map_of kvs k)"
proof -
  let ?kvs = "map (\<lambda>(k, v). (k, f v)) kvs"
  have "map_of (sort_by cmp ?kvs) = map_of ?kvs"
    by (subst map_of_inject_set) (simp_all only: distinct_sorted_members [OF assms] set_sort_by)
  then show ?thesis by (simp add: map_of_map)
qed

lemma get_prop_sort_members: "plain v \<Longrightarrow> get_prop (sort_members v) k = sort_members (get_prop v k)"
  by (cases v) (auto simp: map_of_sort_members split: option.split)

text \<open>Equal canonical text means the same data up to the order of object members.\<close>

lemma canonicalJson_inject:
  "plain v \<Longrightarrow> plain w \<Longrightarrow> canonicalJson v = canonicalJson w \<longleftrightarrow> sort_members v = sort_members w"
  by (simp add: canonicalJson_text json_text_inject plain_sort_members)

section \<open>The manifest\<close>

record manifest_batch =
  mb_batchId :: jstr
  mb_createdAt :: jstr
  mb_messageCount :: int
  mb_notificationCount :: int
  mb_errorCount :: int

record retention_manifest =
  mf_siteId :: jstr
  mf_cutoff :: jstr
  mf_policyVersion :: int
  mf_batches :: "manifest_batch list"
  mf_hash :: jstr

definition normalizePolicyVersion :: "js \<Rightarrow> int res" where
  "normalizePolicyVersion v =
     (if v = JUndef then Inr 1 else safe_positive v (Error ''policyVersion must be a positive safe integer''))"

definition normalizeCount :: "js \<Rightarrow> string \<Rightarrow> int res" where
  "normalizeCount v field = safe_count v (Error (field @ '' must be a non-negative safe integer''))"

definition normalizeManifestBatch :: "js \<Rightarrow> manifest_batch res" where
  "normalizeManifestBatch b =
     (if \<not> is_object_not_array b then Inl (Error ''manifest batch must be a plain object'')
      else bindE (nonblank_string (get_prop b ''batchId'') (Error ''batchId must be a non-empty string'')) (\<lambda>batchId.
           bindE (parse_strict_utc (get_prop b ''createdAt'') (strict_iso_error ''createdAt'')) (\<lambda>createdAt.
           bindE (normalizeCount (get_prop b ''messageCount'') ''messageCount'') (\<lambda>messages.
           bindE (normalizeCount (get_prop b ''notificationCount'') ''notificationCount'') (\<lambda>notifications.
           bindE (normalizeCount (get_prop b ''errorCount'') ''errorCount'') (\<lambda>errors.
             Inr \<lparr>mb_batchId = batchId, mb_createdAt = to_iso createdAt, mb_messageCount = messages,
                  mb_notificationCount = notifications, mb_errorCount = errors\<rparr>))))))"

definition compare_manifest_batches :: "manifest_batch \<Rightarrow> manifest_batch \<Rightarrow> int" where
  "compare_manifest_batches l r =
     js_or (js_or (js_or (js_or
       (compare_strings (mb_createdAt l) (mb_createdAt r))
       (compare_strings (mb_batchId l) (mb_batchId r)))
       (mb_messageCount l - mb_messageCount r))
       (mb_notificationCount l - mb_notificationCount r))
       (mb_errorCount l - mb_errorCount r)"

text \<open>The objects as the code writes them, members in source order.\<close>

definition batch_object :: "manifest_batch \<Rightarrow> js" where
  "batch_object b = obj [(''batchId'', JStr (mb_batchId b)), (''createdAt'', JStr (mb_createdAt b)),
     (''messageCount'', jint (mb_messageCount b)), (''notificationCount'', jint (mb_notificationCount b)),
     (''errorCount'', jint (mb_errorCount b))]"

definition manifest_payload :: "jstr \<Rightarrow> manifest_batch list \<Rightarrow> jstr \<Rightarrow> int \<Rightarrow> js" where
  "manifest_payload siteId batches cutoff version = obj [(''siteId'', JStr siteId),
     (''batches'', JArr (map batch_object batches)), (''cutoff'', JStr cutoff),
     (''policyVersion'', jint version)]"

definition hashCanonicalJson :: "(jstr \<Rightarrow> jstr) \<Rightarrow> js \<Rightarrow> jstr" where
  "hashCanonicalJson sha v = sha (canonicalJson v)"

definition js_elements :: "js \<Rightarrow> js list" where
  "js_elements v = (case v of JArr vs \<Rightarrow> vs | _ \<Rightarrow> [])"

definition is_array :: "js \<Rightarrow> bool" where
  "is_array v = (case v of JArr vs \<Rightarrow> True | _ \<Rightarrow> False)"

definition buildNewsletterRetentionManifest :: "(jstr \<Rightarrow> jstr) \<Rightarrow> js \<Rightarrow> retention_manifest res" where
  "buildNewsletterRetentionManifest sha input =
     (if \<not> is_object_not_array input \<or> \<not> is_array (get_prop input ''batches'')
      then Inl (Error ''manifest input must be a plain object with batches'')
      else bindE (normalizeSiteId (get_prop input ''siteId'')) (\<lambda>siteId.
           bindE (parse_strict_utc (get_prop input ''cutoff'') (strict_iso_error ''cutoff'')) (\<lambda>cutoff.
           bindE (normalizePolicyVersion (get_prop input ''policyVersion'')) (\<lambda>version.
           bindE (mapE normalizeManifestBatch (js_elements (get_prop input ''batches''))) (\<lambda>normalized.
             let batches = sort_by compare_manifest_batches normalized
             in Inr \<lparr>mf_siteId = siteId, mf_cutoff = to_iso cutoff, mf_policyVersion = version,
                     mf_batches = batches,
                     mf_hash = hashCanonicalJson sha
                       (manifest_payload siteId batches (to_iso cutoff) version)\<rparr>)))))"

text \<open>The manifest as an object, as it is handed on and read back.\<close>

definition manifest_object :: "retention_manifest \<Rightarrow> js" where
  "manifest_object m = obj [(''siteId'', JStr (mf_siteId m)),
     (''batches'', JArr (map batch_object (mf_batches m))), (''cutoff'', JStr (mf_cutoff m)),
     (''policyVersion'', jint (mf_policyVersion m)), (''hash'', JStr (mf_hash m))]"

interpretation manifest_order: total_comparator compare_manifest_batches
proof -
  let ?c = "\<lambda>l r. js_or (js_or (js_or (js_or
       (compare_strings (mb_createdAt l) (mb_createdAt r))
       (compare_strings (mb_batchId l) (mb_batchId r)))
       (mb_messageCount l - mb_messageCount r))
       (mb_notificationCount l - mb_notificationCount r))
       (mb_errorCount l - mb_errorCount (r :: manifest_batch))"
  have "comparator_laws ?c"
    by (intro comparator_js_or comparator_compare_strings comparator_diff)
  then have "comparator_laws compare_manifest_batches"
    unfolding compare_manifest_batches_def [abs_def] .
  then show "total_comparator compare_manifest_batches"
    by (rule total_comparator.intro)
      (unfold_locales, auto simp: compare_manifest_batches_def)
qed

section \<open>What the manifest fixes\<close>

definition batch_ok :: "manifest_batch \<Rightarrow> bool" where
  "batch_ok b \<longleftrightarrow> trim (mb_batchId b) \<noteq> [] \<and> (\<exists>t. mb_createdAt b = to_iso t \<and> in_iso_range t)
     \<and> 0 \<le> mb_messageCount b \<and> mb_messageCount b \<le> max_safe
     \<and> 0 \<le> mb_notificationCount b \<and> mb_notificationCount b \<le> max_safe
     \<and> 0 \<le> mb_errorCount b \<and> mb_errorCount b \<le> max_safe"

lemma get_prop_obj: "get_prop (obj kvs) k = (case map_of kvs k of Some v \<Rightarrow> v | None \<Rightarrow> JUndef)"
  by (simp add: map_of_lit)

lemma batch_object_props:
  "get_prop (batch_object b) ''batchId'' = JStr (mb_batchId b)"
  "get_prop (batch_object b) ''createdAt'' = JStr (mb_createdAt b)"
  "get_prop (batch_object b) ''messageCount'' = jint (mb_messageCount b)"
  "get_prop (batch_object b) ''notificationCount'' = jint (mb_notificationCount b)"
  "get_prop (batch_object b) ''errorCount'' = jint (mb_errorCount b)"
  "is_object_not_array (batch_object b)"
  by (simp_all add: batch_object_def)

lemma normalizeManifestBatch_Inr_iff:
  "normalizeManifestBatch v = Inr b \<longleftrightarrow>
     is_object_not_array v \<and> batch_ok b
     \<and> get_prop v ''batchId'' = JStr (mb_batchId b) \<and> get_prop v ''createdAt'' = JStr (mb_createdAt b)
     \<and> get_prop v ''messageCount'' = jint (mb_messageCount b)
     \<and> get_prop v ''notificationCount'' = jint (mb_notificationCount b)
     \<and> get_prop v ''errorCount'' = jint (mb_errorCount b)"
  by (cases b) (auto simp: normalizeManifestBatch_def normalizeCount_def batch_ok_def)

lemma normalize_batch_object: "batch_ok b \<Longrightarrow> normalizeManifestBatch (batch_object b) = Inr b"
  by (simp add: normalizeManifestBatch_Inr_iff batch_object_props)

lemma mapE_batch_objects:
  "list_all batch_ok bs \<Longrightarrow> mapE normalizeManifestBatch (map batch_object bs) = Inr bs"
  by (induction bs) (simp_all add: normalize_batch_object)

lemma normalizePolicyVersion_Inr_iff:
  "normalizePolicyVersion v = Inr n \<longleftrightarrow> (v = JUndef \<and> n = 1) \<or> (v = jint n \<and> 0 < n \<and> n \<le> max_safe)"
  by (auto simp: normalizePolicyVersion_def)

text \<open>The manifest a successful build returns, in terms of the input.\<close>

definition manifest_of ::
  "(jstr \<Rightarrow> jstr) \<Rightarrow> jstr \<Rightarrow> int \<Rightarrow> int \<Rightarrow> manifest_batch list \<Rightarrow> retention_manifest" where
  "manifest_of sha siteId cutoff version batches =
     \<lparr>mf_siteId = siteId, mf_cutoff = to_iso cutoff, mf_policyVersion = version, mf_batches = batches,
      mf_hash = hashCanonicalJson sha (manifest_payload siteId batches (to_iso cutoff) version)\<rparr>"

lemma build_manifest_Inr_iff:
  "buildNewsletterRetentionManifest sha v = Inr m \<longleftrightarrow>
     is_object_not_array v \<and>
     (\<exists>bs siteId cutoff version batches.
        get_prop v ''batches'' = JArr bs \<and> get_prop v ''siteId'' = JStr siteId \<and> siteId \<noteq> [] \<and> trim siteId = siteId
        \<and> get_prop v ''cutoff'' = JStr (to_iso cutoff) \<and> in_iso_range cutoff
        \<and> normalizePolicyVersion (get_prop v ''policyVersion'') = Inr version
        \<and> mapE normalizeManifestBatch bs = Inr batches
        \<and> m = manifest_of sha siteId cutoff version (sort_by compare_manifest_batches batches))"
  by (cases "get_prop v ''batches''")
    (auto simp: buildNewsletterRetentionManifest_def is_array_def js_elements_def normalizeSiteId_def
      manifest_of_def Let_def)

lemma built_batches_ok:
  "mapE normalizeManifestBatch bs = Inr batches \<Longrightarrow> b \<in> set batches \<Longrightarrow> batch_ok b"
  using mapE_setD by (fastforce simp: normalizeManifestBatch_Inr_iff)

lemma plain_batch_object: "batch_ok b \<Longrightarrow> plain (batch_object b)"
  by (simp add: batch_object_def batch_ok_def)

lemma plain_payload:
  assumes "list_all batch_ok batches" "0 < version" "version \<le> max_safe"
  shows "plain (manifest_payload siteId batches cutoff version)"
  using assms by (simp add: manifest_payload_def plain_batch_object list_all_iff)

lemma payload_props:
  "get_prop (manifest_payload s bs c v) ''siteId'' = JStr s"
  "get_prop (manifest_payload s bs c v) ''batches'' = JArr (map batch_object bs)"
  "get_prop (manifest_payload s bs c v) ''cutoff'' = JStr c"
  "get_prop (manifest_payload s bs c v) ''policyVersion'' = jint v"
  by (simp_all add: manifest_payload_def)

lemma batch_object_inject:
  assumes "batch_ok b" "batch_ok b'" "sort_members (batch_object b) = sort_members (batch_object b')"
  shows "b = b'"
proof -
  have eq: "sort_members (get_prop (batch_object b) k) = sort_members (get_prop (batch_object b') k)" for k
    using assms(3) by (simp flip: get_prop_sort_members add: plain_batch_object assms(1,2))
  show ?thesis
    using eq [of "''batchId''"] eq [of "''createdAt''"] eq [of "''messageCount''"]
      eq [of "''notificationCount''"] eq [of "''errorCount''"]
    unfolding batch_object_props sort_members.simps js.inject jnum.inject of_int_eq_iff
    by (cases b; cases b') simp
qed

text \<open>The hashed text determines every field of the manifest and the list of its batches.\<close>

lemma payload_text_inject:
  assumes "list_all batch_ok bs" "list_all batch_ok bs'" "0 < v" "v \<le> max_safe" "0 < v'" "v' \<le> max_safe"
    and "canonicalJson (manifest_payload s bs c v) = canonicalJson (manifest_payload s' bs' c' v')"
  shows "s = s' \<and> bs = bs' \<and> c = c' \<and> v = v'"
proof -
  let ?p = "manifest_payload s bs c v" and ?q = "manifest_payload s' bs' c' v'"
  have plain: "plain ?p" "plain ?q" using assms by (simp_all add: plain_payload)
  have eq: "sort_members (get_prop ?p k) = sort_members (get_prop ?q k)" for k
    using assms(7) by (simp flip: get_prop_sort_members add: plain canonicalJson_inject)
  have "s = s'" "c = c'" using eq [of "''siteId''"] eq [of "''cutoff''"] by (simp_all add: payload_props)
  moreover have "v = v'" using eq [of "''policyVersion''"] by (simp add: payload_props)
  moreover have "map (\<lambda>b. sort_members (batch_object b)) bs = map (\<lambda>b. sort_members (batch_object b)) bs'"
    using eq [of "''batches''"] by (simp add: payload_props comp_def)
  then have "list_all2 (\<lambda>b b'. sort_members (batch_object b) = sort_members (batch_object b')) bs bs'"
    by (simp add: list_all2_conv_all_nth list_eq_iff_nth_eq)
  then have "bs = bs'"
    using assms(1,2)
    by (auto simp: list_all2_conv_all_nth list_all_length list_eq_iff_nth_eq intro: batch_object_inject)
  ultimately show ?thesis by simp
qed

lemma mf_hash_manifest_of:
  "mf_hash (manifest_of sha s c v bs) = sha (canonicalJson (manifest_payload s bs (to_iso c) v))"
  by (simp add: manifest_of_def hashCanonicalJson_def)

section \<open>Properties\<close>

text \<open>
  C20: which policies are accepted, and what they say. The input must be an object whose siteId is a
  non-empty trimmed string, whose cutoff is the exact printed form of a time, and whose caps are
  absent or positive integers within the hard limits; the run is a dry run unless \<^verbatim>\<open>apply\<close> is
  exactly \<^verbatim>\<open>true\<close>. Nothing else is accepted.
\<close>

theorem policy_accepted_iff:
  "parseNewsletterRetentionPolicy v = Inr p \<longleftrightarrow>
     is_object v
     \<and> get_prop v ''siteId'' = JStr (pol_siteId p) \<and> pol_siteId p \<noteq> [] \<and> trim (pol_siteId p) = pol_siteId p
     \<and> (\<exists>t. get_prop v ''cutoff'' = JStr (to_iso t) \<and> in_iso_range t \<and> pol_cutoff p = to_iso t)
     \<and> (get_prop v ''maxBatches'' = JUndef \<and> pol_maxBatches p = 10
        \<or> get_prop v ''maxBatches'' = jint (pol_maxBatches p) \<and> 0 < pol_maxBatches p \<and> pol_maxBatches p \<le> 100)
     \<and> (get_prop v ''maxMessages'' = JUndef \<and> pol_maxMessages p = 1000
        \<or> get_prop v ''maxMessages'' = jint (pol_maxMessages p) \<and> 0 < pol_maxMessages p \<and> pol_maxMessages p \<le> 10000)
     \<and> (pol_dryRun p \<longleftrightarrow> get_prop v ''apply'' \<noteq> JBool True)
     \<and> pol_policyVersion p = 1"
  by (cases p) (auto simp: parseNewsletterRetentionPolicy_def normalizeSiteId_def
      clampPositiveInteger_Inr_iff)

text \<open>
  C21: which evidence is accepted. The reference time and all six evidence times are exact printed
  times, both health flags are \<^verbatim>\<open>true\<close>, backup and restore evidence is at most 24 hours old and
  health evidence at most 15 minutes, and none lies in the future; every other input is refused.
\<close>

theorem evidence_accepted_iff:
  "(\<exists>e. parseNewsletterRetentionEvidence v = Inr e) \<longleftrightarrow>
     is_object v
     \<and> (\<exists>now. get_prop v ''now'' = JStr (to_iso now) \<and> in_iso_range now
          \<and> fresh_time v ''backup'' ''verifiedAt'' now 86400000
          \<and> fresh_time v ''backup'' ''restoredAt'' now 86400000
          \<and> fresh_time v ''restore'' ''verifiedAt'' now 86400000
          \<and> fresh_time v ''restore'' ''restoredAt'' now 86400000
          \<and> fresh_time v ''health'' ''queueCheckedAt'' now 900000
          \<and> fresh_time v ''health'' ''proxyCheckedAt'' now 900000)
     \<and> get_prop (get_prop v ''health'') ''queueHealthy'' = JBool True
     \<and> get_prop (get_prop v ''health'') ''proxyHealthy'' = JBool True"
  unfolding parseNewsletterRetentionEvidence_def evidence_time_def fresh_time_def
  by (simp add: MAX_BACKUP_RESTORE_AGE_MS_def MAX_HEALTH_AGE_MS_def) blast

definition example_manifest_batch :: manifest_batch where
  "example_manifest_batch = \<lparr>mb_batchId = lit ''b'', mb_createdAt = to_iso 0, mb_messageCount = 2,
     mb_notificationCount = 1, mb_errorCount = 0\<rparr>"

definition example_manifest_batch2 :: manifest_batch where
  "example_manifest_batch2 = example_manifest_batch\<lparr>mb_batchId := lit ''c''\<rparr>"

definition example_manifest_input :: "manifest_batch list \<Rightarrow> js" where
  "example_manifest_input bs = obj [(''siteId'', JStr (lit ''site'')), (''cutoff'', JStr (to_iso 86400000)),
     (''batches'', JArr (map batch_object bs))]"

lemma example_manifest_builds:
  assumes "list_all batch_ok bs"
  shows "buildNewsletterRetentionManifest sha (example_manifest_input bs)
    = Inr (manifest_of sha (lit ''site'') 86400000 1 (sort_by compare_manifest_batches bs))"
proof -
  have "in_iso_range 86400000" by code_simp
  moreover have "trim (lit ''site'') = lit ''site''"
    by (simp add: trim_idem_iff) (simp add: lit_def is_ws_def)
  moreover have "mapE normalizeManifestBatch (map batch_object bs) = Inr bs"
    using assms by (rule mapE_batch_objects)
  ultimately show ?thesis
    by (simp add: build_manifest_Inr_iff example_manifest_input_def normalizePolicyVersion_Inr_iff) blast
qed

lemma example_manifest_batches_ok:
  "list_all batch_ok [example_manifest_batch, example_manifest_batch2]"
  "list_all batch_ok [example_manifest_batch2, example_manifest_batch]"
proof -
  have "in_iso_range 0" by code_simp
  moreover have "trim (lit ''b'') = lit ''b''" "trim (lit ''c'') = lit ''c''"
    by (simp_all add: trim_idem_iff) (simp_all add: lit_def is_ws_def)
  ultimately have "batch_ok example_manifest_batch" "batch_ok example_manifest_batch2"
    unfolding batch_ok_def example_manifest_batch2_def example_manifest_batch_def max_safe_def by auto
  then show "list_all batch_ok [example_manifest_batch, example_manifest_batch2]"
    "list_all batch_ok [example_manifest_batch2, example_manifest_batch]" by simp_all
qed

text \<open>
  The manifest, its hash included, does not depend on the order in which the batches arrive.
\<close>

theorem manifest_order_independent:
  assumes "buildNewsletterRetentionManifest sha v = Inr m"
    and "get_prop v ''batches'' = JArr bs" "get_prop v' ''batches'' = JArr bs'" "mset bs = mset bs'"
    and "is_object_not_array v'" "get_prop v' ''siteId'' = get_prop v ''siteId''"
      "get_prop v' ''cutoff'' = get_prop v ''cutoff''"
      "get_prop v' ''policyVersion'' = get_prop v ''policyVersion''"
  shows "buildNewsletterRetentionManifest sha v' = Inr m"
proof -
  obtain siteId cutoff version batches where run:
      "get_prop v ''siteId'' = JStr siteId" "siteId \<noteq> []" "trim siteId = siteId"
      "get_prop v ''cutoff'' = JStr (to_iso cutoff)" "in_iso_range cutoff"
      "normalizePolicyVersion (get_prop v ''policyVersion'') = Inr version"
      "mapE normalizeManifestBatch bs = Inr batches"
      "m = manifest_of sha siteId cutoff version (sort_by compare_manifest_batches batches)"
    using assms(1,2) by (auto simp: build_manifest_Inr_iff)
  obtain batches' where b': "mapE normalizeManifestBatch bs' = Inr batches'" "mset batches' = mset batches"
    using mapE_cong_mset [OF assms(4) run(7)] by blast
  have "sort_by compare_manifest_batches batches' = sort_by compare_manifest_batches batches"
    by (rule manifest_order.sort_by_mset_cong [OF b'(2)])
  then show ?thesis
    using assms(3,5,6,7,8) run b'(1) by (auto simp: build_manifest_Inr_iff)
qed

lemma manifest_order_independent_witness:
  "buildNewsletterRetentionManifest (\<lambda>s. s)
     (example_manifest_input [example_manifest_batch2, example_manifest_batch])
   = Inr (manifest_of (\<lambda>s. s) (lit ''site'') 86400000 1
       (sort_by compare_manifest_batches [example_manifest_batch, example_manifest_batch2]))"
  by (rule manifest_order_independent [OF example_manifest_builds [OF example_manifest_batches_ok(1)],
        where bs = "map batch_object [example_manifest_batch, example_manifest_batch2]"
          and bs' = "map batch_object [example_manifest_batch2, example_manifest_batch]"])
    (simp_all add: example_manifest_input_def add_mset_commute)

text \<open>
  A manifest rebuilt from its own fields is the same manifest, so the stored hash can be checked
  by building it again.
\<close>

theorem manifest_rebuild_is_identity:
  assumes "buildNewsletterRetentionManifest sha v = Inr m"
  shows "buildNewsletterRetentionManifest sha (manifest_object m) = Inr m"
proof -
  obtain bs siteId cutoff version batches where run: "siteId \<noteq> []" "trim siteId = siteId"
      "in_iso_range cutoff" "normalizePolicyVersion (get_prop v ''policyVersion'') = Inr version"
      "mapE normalizeManifestBatch bs = Inr batches"
      "m = manifest_of sha siteId cutoff version (sort_by compare_manifest_batches batches)"
    using assms by (auto simp: build_manifest_Inr_iff)
  let ?sorted = "sort_by compare_manifest_batches batches"
  have "mapE normalizeManifestBatch (map batch_object ?sorted) = Inr ?sorted"
    by (rule mapE_batch_objects) (use built_batches_ok [OF run(5)] in \<open>simp add: list_all_iff\<close>)
  moreover have "sort_by compare_manifest_batches ?sorted = ?sorted"
    by (rule manifest_order.sort_by_idem [OF manifest_order.sort_by_sorted])
  moreover have "0 < version" "version \<le> max_safe"
    using run(4) by (auto simp: normalizePolicyVersion_Inr_iff max_safe_def)
  ultimately show ?thesis
    using run(1,2,3)
    by (simp add: build_manifest_Inr_iff run(6) manifest_object_def manifest_of_def
        normalizePolicyVersion_Inr_iff) blast
qed

lemma manifest_rebuild_is_identity_witness:
  "buildNewsletterRetentionManifest (\<lambda>s. s) (manifest_object (manifest_of (\<lambda>s. s) (lit ''site'') 86400000 1
       (sort_by compare_manifest_batches [example_manifest_batch, example_manifest_batch2])))
   = Inr (manifest_of (\<lambda>s. s) (lit ''site'') 86400000 1
       (sort_by compare_manifest_batches [example_manifest_batch, example_manifest_batch2]))"
  by (rule manifest_rebuild_is_identity [OF example_manifest_builds [OF example_manifest_batches_ok(1)]])

text \<open>
  The hash binds the manifest. Two built manifests with the same hash are the same manifest, or
  their canonical texts are two different texts with the same SHA-256 digest.
\<close>

theorem manifest_hash_binds:
  assumes "buildNewsletterRetentionManifest sha v = Inr m" "buildNewsletterRetentionManifest sha w = Inr n"
    and "mf_hash m = mf_hash n"
  shows "m = n \<or> (\<exists>x y. x \<noteq> y \<and> sha x = sha y
           \<and> x = canonicalJson (manifest_payload (mf_siteId m) (mf_batches m) (mf_cutoff m) (mf_policyVersion m))
           \<and> y = canonicalJson (manifest_payload (mf_siteId n) (mf_batches n) (mf_cutoff n) (mf_policyVersion n)))"
proof -
  obtain bs s c ver batches where m: "mapE normalizeManifestBatch bs = Inr batches"
      "normalizePolicyVersion (get_prop v ''policyVersion'') = Inr ver"
      "m = manifest_of sha s c ver (sort_by compare_manifest_batches batches)"
    using assms(1) by (auto simp: build_manifest_Inr_iff)
  obtain bs' s' c' ver' batches' where n: "mapE normalizeManifestBatch bs' = Inr batches'"
      "normalizePolicyVersion (get_prop w ''policyVersion'') = Inr ver'"
      "n = manifest_of sha s' c' ver' (sort_by compare_manifest_batches batches')"
    using assms(2) by (auto simp: build_manifest_Inr_iff)
  let ?x = "canonicalJson (manifest_payload (mf_siteId m) (mf_batches m) (mf_cutoff m) (mf_policyVersion m))"
  let ?y = "canonicalJson (manifest_payload (mf_siteId n) (mf_batches n) (mf_cutoff n) (mf_policyVersion n))"
  have ok: "list_all batch_ok (mf_batches m)" "list_all batch_ok (mf_batches n)"
    using built_batches_ok [OF m(1)] built_batches_ok [OF n(1)] by (auto simp: m(3) n(3) manifest_of_def list_all_iff)
  have ver: "0 < mf_policyVersion m" "mf_policyVersion m \<le> max_safe"
      "0 < mf_policyVersion n" "mf_policyVersion n \<le> max_safe"
    using m(2) n(2) by (auto simp: m(3) n(3) manifest_of_def normalizePolicyVersion_Inr_iff max_safe_def)
  have hash: "mf_hash m = sha ?x" "mf_hash n = sha ?y"
    by (simp_all add: m(3) n(3) manifest_of_def hashCanonicalJson_def)
  show ?thesis
  proof (cases "?x = ?y")
    case True
    then have "mf_siteId m = mf_siteId n \<and> mf_batches m = mf_batches n \<and> mf_cutoff m = mf_cutoff n
        \<and> mf_policyVersion m = mf_policyVersion n"
      using payload_text_inject [OF ok ver] by blast
    then have "m = n" using assms(3) by (cases m; cases n) simp
    then show ?thesis ..
  next
    case False
    moreover have "sha ?x = sha ?y" using assms(3) hash by simp
    ultimately show ?thesis by blast
  qed
qed

lemma manifest_hash_binds_witness:
  "manifest_of (\<lambda>s. s) (lit ''site'') 86400000 1
     (sort_by compare_manifest_batches [example_manifest_batch, example_manifest_batch2])
   = manifest_of (\<lambda>s. s) (lit ''site'') 86400000 1
     (sort_by compare_manifest_batches [example_manifest_batch2, example_manifest_batch])"
proof -
  have "sort_by compare_manifest_batches [example_manifest_batch, example_manifest_batch2]
      = sort_by compare_manifest_batches [example_manifest_batch2, example_manifest_batch]"
    by (rule manifest_order.sort_by_mset_cong) (simp add: add_mset_commute)
  then show ?thesis
    using manifest_hash_binds [OF example_manifest_builds [OF example_manifest_batches_ok(1), of "\<lambda>s. s"]
        example_manifest_builds [OF example_manifest_batches_ok(2), of "\<lambda>s. s"]] by auto
qed

end
