(* ===== verification/RetentionPlan.thy ===== *)
theory RetentionPlan
  imports RetentionPolicy
begin

text \<open>
  The selection plan and the process-local anti-overlap lock (service/newsletter-retention-plan.ts).
  The plan accepts the candidate batches all together or not at all. The lock table maps a name to
  the token of its holder; a token stands for the \<^verbatim>\<open>Symbol\<close> each lock object carries, and tokens are
  numbered in the order of creation.
\<close>

section \<open>Selection plan\<close>

text \<open>A planned batch has the five public fields of a manifest batch.\<close>

type_synonym selection_candidate = manifest_batch

record selection_totals =
  st_messageCount :: int
  st_notificationCount :: int
  st_errorCount :: int

record selection_plan =
  sp_siteId :: jstr
  sp_cutoff :: jstr
  sp_batchCount :: int
  sp_totals :: selection_totals
  sp_batches :: "selection_candidate list"

definition normalizeOpaqueId :: "js \<Rightarrow> string \<Rightarrow> jstr res" where
  "normalizeOpaqueId v field = nonempty_string v (Error (field @ '' must be a non-empty string''))"

definition normalizeCount :: "js \<Rightarrow> string \<Rightarrow> int res" where
  "normalizeCount v field = safe_count v (Error (field @ '' must be a non-negative integer''))"

definition parseStrictUtcIso :: "js \<Rightarrow> string \<Rightarrow> int res" where
  "parseStrictUtcIso v field = parse_strict_utc v (strict_iso_error field)"

definition parseCandidateCreatedAt :: "js \<Rightarrow> int res" where
  "parseCandidateCreatedAt v = (case v of
     JDate (Some t) \<Rightarrow> Inr t
   | JDate None \<Rightarrow> Inl (Error ''createdAt must be a strict UTC ISO-8601 string or Date'')
   | _ \<Rightarrow> parseStrictUtcIso v ''createdAt'')"

definition normalizeSelectionCandidate :: "jstr \<Rightarrow> int \<Rightarrow> js \<Rightarrow> selection_candidate res" where
  "normalizeSelectionCandidate siteId cutoff c =
     (if \<not> is_object_not_array c then Inl (Error ''candidate batch must be a plain object'')
      else if get_prop c ''siteId'' \<noteq> JStr siteId
      then Inl (Error ''candidate batch tenant scope must exactly match policy siteId'')
      else bindE (normalizeOpaqueId (get_prop c ''batchId'') ''batchId'') (\<lambda>batchId.
           bindE (parseCandidateCreatedAt (get_prop c ''createdAt'')) (\<lambda>createdAt.
             if createdAt \<ge> cutoff
             then Inl (Error ''candidate batch createdAt must be strictly before the retention cutoff'')
             else
               bindE (normalizeCount (get_prop c ''messageCount'') ''messageCount'') (\<lambda>messages.
               bindE (normalizeCount (get_prop c ''notificationCount'') ''notificationCount'') (\<lambda>notifications.
               bindE (normalizeCount (get_prop c ''errorCount'') ''errorCount'') (\<lambda>errors.
               bindE (normalizeCount (get_prop c ''orphanCount'') ''orphanCount'') (\<lambda>orphans.
                 if get_prop c ''correlationComplete'' \<noteq> JBool True
                 then Inl (Error ''candidate batch correlation must be complete'')
                 else if orphans \<noteq> 0 then Inl (Error ''candidate batch orphanCount must be zero'')
                 else Inr \<lparr>mb_batchId = batchId, mb_createdAt = to_iso createdAt, mb_messageCount = messages,
                           mb_notificationCount = notifications, mb_errorCount = errors\<rparr>)))))))"

definition normalizeSelectionCandidates :: "js \<Rightarrow> jstr \<Rightarrow> int \<Rightarrow> selection_candidate list res" where
  "normalizeSelectionCandidates cands siteId cutoff =
     (case cands of
        JArr cs \<Rightarrow> mapE (normalizeSelectionCandidate siteId cutoff) cs
      | _ \<Rightarrow> Inl (Error ''candidates must be an array''))"

definition compareSelectionCandidates :: "selection_candidate \<Rightarrow> selection_candidate \<Rightarrow> int" where
  "compareSelectionCandidates l r =
     js_or (js_or (js_or (js_or
       (compare_strings (mb_createdAt l) (mb_createdAt r))
       (compare_strings (mb_batchId l) (mb_batchId r)))
       (mb_messageCount l - mb_messageCount r))
       (mb_notificationCount l - mb_notificationCount r))
       (mb_errorCount l - mb_errorCount r)"

definition add_candidate_totals :: "selection_totals \<Rightarrow> selection_candidate \<Rightarrow> selection_totals res" where
  "add_candidate_totals acc c =
     bindE (safe_add (st_messageCount acc) (mb_messageCount c) ''selectedTotals.messageCount'') (\<lambda>m.
     bindE (safe_add (st_notificationCount acc) (mb_notificationCount c) ''selectedTotals.notificationCount'') (\<lambda>n.
     bindE (safe_add (st_errorCount acc) (mb_errorCount c) ''selectedTotals.errorCount'') (\<lambda>e.
       Inr \<lparr>st_messageCount = m, st_notificationCount = n, st_errorCount = e\<rparr>)))"

definition no_totals :: selection_totals where
  "no_totals = \<lparr>st_messageCount = 0, st_notificationCount = 0, st_errorCount = 0\<rparr>"

text \<open>The policy is a parsed one; the other fields are what the caller passed.\<close>

definition buildNewsletterRetentionSelectionPlan ::
  "retention_policy \<Rightarrow> js \<Rightarrow> js \<Rightarrow> js \<Rightarrow> js \<Rightarrow> selection_plan res" where
  "buildNewsletterRetentionSelectionPlan policy evidence queueHealthy dlqHealthy candidates =
     bindE (parseNewsletterRetentionEvidence evidence) (\<lambda>_.
       if queueHealthy \<noteq> JBool True \<or> dlqHealthy \<noteq> JBool True
       then Inl (Error ''queue or DLQ evidence must be healthy'')
       else
         bindE (parseStrictUtcIso (JStr (pol_cutoff policy)) ''cutoff'') (\<lambda>cutoff.
         bindE (normalizeSelectionCandidates candidates (pol_siteId policy) cutoff) (\<lambda>normalized.
           let selected = sort_by compareSelectionCandidates normalized in
             if int (length selected) > pol_maxBatches policy
             then Inl (Error ''selected batch count exceeds the hard batch cap'')
             else
               bindE (foldE add_candidate_totals no_totals selected) (\<lambda>totals.
                 if st_messageCount totals > pol_maxMessages policy
                 then Inl (Error ''selected message count exceeds the hard message cap'')
                 else Inr \<lparr>sp_siteId = pol_siteId policy, sp_cutoff = pol_cutoff policy,
                           sp_batchCount = int (length selected), sp_totals = totals,
                           sp_batches = selected\<rparr>))))"

section \<open>Process-local anti-overlap lock\<close>

record lock_table =
  held_tokens :: "jstr \<Rightarrow> nat option"
  next_token :: nat

record overlap_lock =
  lock_name :: jstr
  lock_token :: nat

definition normalizeLockName :: "js \<Rightarrow> jstr res" where
  "normalizeLockName v = nonempty_string v (Error ''lock name must be a non-empty string'')"

definition createProcessLocalAntiOverlapLock :: "js \<Rightarrow> lock_table \<Rightarrow> (overlap_lock \<times> lock_table) res" where
  "createProcessLocalAntiOverlapLock name tbl =
     bindE (normalizeLockName name) (\<lambda>n.
       Inr (\<lparr>lock_name = n, lock_token = next_token tbl\<rparr>, tbl\<lparr>next_token := Suc (next_token tbl)\<rparr>))"

definition lock_tryAcquire :: "overlap_lock \<Rightarrow> lock_table \<Rightarrow> bool \<times> lock_table" where
  "lock_tryAcquire lk tbl =
     (if held_tokens tbl (lock_name lk) \<noteq> None then (False, tbl)
      else (True, tbl\<lparr>held_tokens := (held_tokens tbl)(lock_name lk \<mapsto> lock_token lk)\<rparr>))"

definition lock_release :: "overlap_lock \<Rightarrow> lock_table \<Rightarrow> bool \<times> lock_table" where
  "lock_release lk tbl =
     (if held_tokens tbl (lock_name lk) \<noteq> Some (lock_token lk) then (False, tbl)
      else (True, tbl\<lparr>held_tokens := (held_tokens tbl)(lock_name lk := None)\<rparr>))"

definition lock_isHeld :: "overlap_lock \<Rightarrow> lock_table \<Rightarrow> bool" where
  "lock_isHeld lk tbl \<longleftrightarrow> held_tokens tbl (lock_name lk) = Some (lock_token lk)"

text \<open>
  The work runs on the lock table and on whatever state it needs; it may take locks of its own. The
  \<^verbatim>\<open>finally\<close> block releases on a return and on a throw alike.
\<close>

definition withProcessLocalAntiOverlapLock ::
  "overlap_lock \<Rightarrow> (lock_table \<times> 'w \<Rightarrow> 'a res \<times> lock_table \<times> 'w) \<Rightarrow> lock_table \<times> 'w
   \<Rightarrow> 'a res \<times> lock_table \<times> 'w" where
  "withProcessLocalAntiOverlapLock lk work s =
     (case lock_tryAcquire lk (fst s) of
        (False, _) \<Rightarrow> (Inl (LockHeld (lock_name lk)), s)
      | (True, tbl) \<Rightarrow> (case work (tbl, snd s) of
          (r, tbl', w) \<Rightarrow> (r, snd (lock_release lk tbl'), w)))"

section \<open>What the plan accepts\<close>

definition candidate_time :: "js \<Rightarrow> int \<Rightarrow> bool" where
  "candidate_time v t \<longleftrightarrow> v = JDate (Some t) \<or> v = JStr (to_iso t) \<and> in_iso_range t"

text \<open>Candidate \<open>c\<close> is acceptable for the site before the cutoff, and \<open>b\<close> is its public row.\<close>

definition eligible :: "jstr \<Rightarrow> int \<Rightarrow> js \<Rightarrow> selection_candidate \<Rightarrow> bool" where
  "eligible siteId cutoff c b \<longleftrightarrow> is_object_not_array c
     \<and> get_prop c ''siteId'' = JStr siteId \<and> get_prop c ''batchId'' = JStr (mb_batchId b) \<and> mb_batchId b \<noteq> []
     \<and> (\<exists>t < cutoff. mb_createdAt b = to_iso t \<and> candidate_time (get_prop c ''createdAt'') t)
     \<and> get_prop c ''messageCount'' = jint (mb_messageCount b)
     \<and> 0 \<le> mb_messageCount b \<and> mb_messageCount b \<le> max_safe
     \<and> get_prop c ''notificationCount'' = jint (mb_notificationCount b)
     \<and> 0 \<le> mb_notificationCount b \<and> mb_notificationCount b \<le> max_safe
     \<and> get_prop c ''errorCount'' = jint (mb_errorCount b)
     \<and> 0 \<le> mb_errorCount b \<and> mb_errorCount b \<le> max_safe
     \<and> get_prop c ''orphanCount'' = jint 0 \<and> get_prop c ''correlationComplete'' = JBool True"

lemma parseCandidateCreatedAt_Inr_iff:
  "parseCandidateCreatedAt v = Inr t \<longleftrightarrow> candidate_time v t"
  by (auto simp: candidate_time_def parseCandidateCreatedAt_def parseStrictUtcIso_def split: js.splits option.splits)

lemma normalizeSelectionCandidate_Inr_iff:
  "normalizeSelectionCandidate siteId cutoff c = Inr b \<longleftrightarrow> eligible siteId cutoff c b"
proof
  assume run: "normalizeSelectionCandidate siteId cutoff c = Inr b"
  then obtain t where "candidate_time (get_prop c ''createdAt'') t" "\<not> t \<ge> cutoff" "mb_createdAt b = to_iso t"
    unfolding normalizeSelectionCandidate_def bindE_Inr_iff if_Inl_Inr_iff parseCandidateCreatedAt_Inr_iff
    by (auto simp del: not_le)
  then have "\<exists>t < cutoff. mb_createdAt b = to_iso t \<and> candidate_time (get_prop c ''createdAt'') t"
    by (metis not_le)
  with run show "eligible siteId cutoff c b"
    by (auto simp: normalizeSelectionCandidate_def normalizeOpaqueId_def normalizeCount_def eligible_def)
next
  assume ok: "eligible siteId cutoff c b"
  then obtain t where "t < cutoff" "mb_createdAt b = to_iso t" "parseCandidateCreatedAt (get_prop c ''createdAt'') = Inr t"
    by (auto simp: eligible_def parseCandidateCreatedAt_Inr_iff)
  with ok show "normalizeSelectionCandidate siteId cutoff c = Inr b"
    by (cases b) (simp add: normalizeSelectionCandidate_def normalizeOpaqueId_def normalizeCount_def eligible_def)
qed

lemma normalizeSelectionCandidates_Inr_iff:
  "normalizeSelectionCandidates cands siteId cutoff = Inr bs \<longleftrightarrow>
     (\<exists>cs. cands = JArr cs \<and> list_all2 (eligible siteId cutoff) cs bs)"
  by (auto simp: normalizeSelectionCandidates_def mapE_Inr_iff normalizeSelectionCandidate_Inr_iff split: js.splits)

lemma eligible_counts:
  "eligible siteId cutoff c b \<Longrightarrow> 0 \<le> mb_messageCount b \<and> 0 \<le> mb_notificationCount b \<and> 0 \<le> mb_errorCount b"
  by (simp add: eligible_def)

lemma compareSelectionCandidates_eq: "compareSelectionCandidates = compare_manifest_batches"
  by (intro ext) (simp add: compareSelectionCandidates_def compare_manifest_batches_def)

interpretation candidate_order: total_comparator compareSelectionCandidates
  unfolding compareSelectionCandidates_eq by (rule manifest_order.total_comparator_axioms)

definition message_total :: "selection_candidate list \<Rightarrow> int" where
  "message_total bs = (\<Sum>b\<leftarrow>bs. mb_messageCount b)"

definition notification_total :: "selection_candidate list \<Rightarrow> int" where
  "notification_total bs = (\<Sum>b\<leftarrow>bs. mb_notificationCount b)"

definition error_total :: "selection_candidate list \<Rightarrow> int" where
  "error_total bs = (\<Sum>b\<leftarrow>bs. mb_errorCount b)"

lemmas total_defs = message_total_def notification_total_def error_total_def

lemma total_simps [simp]:
  "message_total [] = 0" "notification_total [] = 0" "error_total [] = 0"
  "message_total (b # bs) = mb_messageCount b + message_total bs"
  "notification_total (b # bs) = mb_notificationCount b + notification_total bs"
  "error_total (b # bs) = mb_errorCount b + error_total bs"
  by (simp_all add: total_defs)

definition counts_nonneg :: "selection_candidate \<Rightarrow> bool" where
  "counts_nonneg b \<longleftrightarrow> 0 \<le> mb_messageCount b \<and> 0 \<le> mb_notificationCount b \<and> 0 \<le> mb_errorCount b"

lemma totals_nonneg:
  "list_all counts_nonneg bs \<Longrightarrow> 0 \<le> message_total bs \<and> 0 \<le> notification_total bs \<and> 0 \<le> error_total bs"
  by (induction bs) (auto simp: counts_nonneg_def)

lemma totals_mset:
  "mset bs = mset bs' \<Longrightarrow> message_total bs = message_total bs' \<and> notification_total bs = notification_total bs'
     \<and> error_total bs = error_total bs'"
  by (simp add: total_defs flip: sum_mset_sum_list)

lemma totals_sorted [simp]:
  "message_total (sort_by cmp bs) = message_total bs" "notification_total (sort_by cmp bs) = notification_total bs"
  "error_total (sort_by cmp bs) = error_total bs"
  using totals_mset [of "sort_by cmp bs" bs] by simp_all

lemma add_candidate_totals_fold:
  assumes "list_all counts_nonneg bs" "0 \<le> st_messageCount t" "0 \<le> st_notificationCount t" "0 \<le> st_errorCount t"
    and "st_messageCount t \<le> max_safe" "st_notificationCount t \<le> max_safe" "st_errorCount t \<le> max_safe"
  shows "foldE add_candidate_totals t bs = Inr t' \<longleftrightarrow>
     st_messageCount t' = st_messageCount t + message_total bs
     \<and> st_notificationCount t' = st_notificationCount t + notification_total bs
     \<and> st_errorCount t' = st_errorCount t + error_total bs
     \<and> st_messageCount t' \<le> max_safe \<and> st_notificationCount t' \<le> max_safe \<and> st_errorCount t' \<le> max_safe"
  using assms
proof (induction bs arbitrary: t)
  case Nil
  then show ?case by (cases t; cases t') auto
next
  case (Cons b bs)
  let ?t = "\<lparr>st_messageCount = st_messageCount t + mb_messageCount b,
    st_notificationCount = st_notificationCount t + mb_notificationCount b,
    st_errorCount = st_errorCount t + mb_errorCount b\<rparr>"
  have b: "counts_nonneg b" "list_all counts_nonneg bs" using Cons.prems(1) by simp_all
  note pos = totals_nonneg [OF b(2)] b(1) [unfolded counts_nonneg_def]
  have "foldE add_candidate_totals t (b # bs) = Inr t' \<longleftrightarrow>
      add_candidate_totals t b = Inr ?t \<and> foldE add_candidate_totals ?t bs = Inr t'"
    by (auto simp: add_candidate_totals_def)
  also have "add_candidate_totals t b = Inr ?t \<longleftrightarrow> st_messageCount t + mb_messageCount b \<le> max_safe
      \<and> st_notificationCount t + mb_notificationCount b \<le> max_safe \<and> st_errorCount t + mb_errorCount b \<le> max_safe"
    using Cons.prems pos by (auto simp: add_candidate_totals_def)
  finally show ?case using Cons.IH [of ?t] Cons.prems b pos by (auto simp: algebra_simps)
qed

definition plan_of :: "retention_policy \<Rightarrow> selection_candidate list \<Rightarrow> selection_plan" where
  "plan_of policy bs = \<lparr>sp_siteId = pol_siteId policy, sp_cutoff = pol_cutoff policy,
     sp_batchCount = int (length bs),
     sp_totals = \<lparr>st_messageCount = message_total bs, st_notificationCount = notification_total bs,
       st_errorCount = error_total bs\<rparr>,
     sp_batches = sort_by compareSelectionCandidates bs\<rparr>"

lemma eligible_counts_nonneg:
  "list_all2 (eligible siteId cutoff) cs bs \<Longrightarrow> list_all counts_nonneg bs"
  by (induction rule: list_all2_induct) (simp_all add: eligible_def counts_nonneg_def)

lemma candidate_totals:
  "list_all counts_nonneg bs \<Longrightarrow> foldE add_candidate_totals no_totals bs = Inr t \<longleftrightarrow>
     t = \<lparr>st_messageCount = message_total bs, st_notificationCount = notification_total bs, st_errorCount = error_total bs\<rparr>
     \<and> message_total bs \<le> max_safe \<and> notification_total bs \<le> max_safe \<and> error_total bs \<le> max_safe"
  by (subst add_candidate_totals_fold) (cases t; auto simp: no_totals_def max_safe_def)+

section \<open>Locks that exclude each other\<close>

text \<open>
  What the program needs of a lock: taking a free name records its holder, taking a held name fails
  and changes nothing, and only the holder can free the name. A history is a list of attempts.
\<close>

datatype 'o lock_op = Acquire 'o | Release 'o

locale exclusive_lock =
  fixes holder :: "'s \<Rightarrow> 'n \<Rightarrow> 't option"
    and name_of :: "'o \<Rightarrow> 'n" and token_of :: "'o \<Rightarrow> 't"
    and acquire :: "'o \<Rightarrow> 's \<Rightarrow> bool \<times> 's"
    and release :: "'o \<Rightarrow> 's \<Rightarrow> bool \<times> 's"
  assumes acquire_ok: "fst (acquire lk s) \<longleftrightarrow> holder s (name_of lk) = None"
    and acquire_holder: "holder (snd (acquire lk s)) =
      (if holder s (name_of lk) = None then (holder s)(name_of lk \<mapsto> token_of lk) else holder s)"
    and release_ok: "fst (release lk s) \<longleftrightarrow> holder s (name_of lk) = Some (token_of lk)"
    and release_holder: "holder (snd (release lk s)) =
      (if holder s (name_of lk) = Some (token_of lk) then (holder s)(name_of lk := None) else holder s)"
begin

definition perform :: "'o lock_op \<Rightarrow> 's \<Rightarrow> bool \<times> 's" where
  "perform op s = (case op of Acquire lk \<Rightarrow> acquire lk s | Release lk \<Rightarrow> release lk s)"

fun history :: "'o lock_op list \<Rightarrow> 's \<Rightarrow> bool list \<times> 's" where
  "history [] s = ([], s)"
| "history (op # ops) s = (case perform op s of (ok, s') \<Rightarrow>
     (case history ops s' of (oks, s'') \<Rightarrow> (ok # oks, s'')))"

lemma history_length: "length (fst (history ops s)) = length ops"
  by (induction ops arbitrary: s) (auto simp: split_beta)

text \<open>While one object holds a name, every attempt on it fails, until the holder releases it.\<close>

lemma held_excludes:
  assumes "holder s (name_of lk) = Some (token_of lk)"
    and "\<And>lk'. Release lk' \<in> set ops \<Longrightarrow> name_of lk' = name_of lk \<Longrightarrow> token_of lk' \<noteq> token_of lk"
  shows "holder (snd (history ops s)) (name_of lk) = Some (token_of lk)
     \<and> (\<forall>i lk'. i < length ops \<longrightarrow> ops ! i = Acquire lk' \<longrightarrow> name_of lk' = name_of lk \<longrightarrow> \<not> fst (history ops s) ! i)"
  using assms
proof (induction ops arbitrary: s)
  case (Cons op ops)
  let ?s = "snd (perform op s)"
  have held: "holder ?s (name_of lk) = Some (token_of lk)"
  proof (cases op)
    case (Acquire l)
    then show ?thesis using Cons.prems(1) by (auto simp: perform_def acquire_holder)
  next
    case (Release l)
    then show ?thesis using Cons.prems by (auto simp: perform_def release_holder)
  qed
  have fails: "\<not> fst (perform op s)" if "op = Acquire lk'" "name_of lk' = name_of lk" for lk'
    using that Cons.prems(1) by (simp add: perform_def acquire_ok)
  show ?case
    using Cons.IH [OF held] Cons.prems(2) fails by (auto simp: split_beta nth_Cons split: nat.split)
qed simp

lemma reacquired_after_release:
  assumes "holder s (name_of lk) = Some (token_of lk)" "name_of lk' = name_of lk"
  shows "fst (release lk s) \<and> fst (acquire lk' (snd (release lk s)))"
  using assms by (simp add: release_ok acquire_ok release_holder)

end

interpretation process_lock: exclusive_lock held_tokens lock_name lock_token lock_tryAcquire lock_release
  by unfold_locales (auto simp: lock_tryAcquire_def lock_release_def)

section \<open>Properties\<close>

lemma plan_built_iff:
  "buildNewsletterRetentionSelectionPlan policy evidence queueHealthy dlqHealthy candidates = Inr plan \<longleftrightarrow>
     (\<exists>e. parseNewsletterRetentionEvidence evidence = Inr e)
     \<and> queueHealthy = JBool True \<and> dlqHealthy = JBool True
     \<and> (\<exists>cutoff cs bs. pol_cutoff policy = to_iso cutoff \<and> in_iso_range cutoff \<and> candidates = JArr cs
          \<and> list_all2 (eligible (pol_siteId policy) cutoff) cs bs
          \<and> int (length cs) \<le> pol_maxBatches policy
          \<and> message_total bs \<le> pol_maxMessages policy
          \<and> message_total bs \<le> max_safe \<and> notification_total bs \<le> max_safe \<and> error_total bs \<le> max_safe
          \<and> plan = plan_of policy bs)"
proof -
  have totals: "foldE add_candidate_totals no_totals (sort_by compareSelectionCandidates bs) = Inr t \<longleftrightarrow>
      t = \<lparr>st_messageCount = message_total bs, st_notificationCount = notification_total bs, st_errorCount = error_total bs\<rparr>
      \<and> message_total bs \<le> max_safe \<and> notification_total bs \<le> max_safe \<and> error_total bs \<le> max_safe"
    if "list_all2 (eligible siteId cutoff) cs bs" for siteId cutoff cs bs t
    using eligible_counts_nonneg [OF that] by (subst candidate_totals) (simp_all add: list_all_iff)
  have same_length: "length bs = length cs" if "list_all2 (eligible siteId cutoff) cs bs" for siteId cutoff cs bs
    using that by (simp add: list_all2_lengthD)
  have body: "(let selected = sort_by compareSelectionCandidates bs in
             if int (length selected) > pol_maxBatches policy then Inl e1
             else bindE (foldE add_candidate_totals no_totals selected) (\<lambda>totals.
               if st_messageCount totals > pol_maxMessages policy then Inl e2
               else Inr \<lparr>sp_siteId = pol_siteId policy, sp_cutoff = pol_cutoff policy,
                         sp_batchCount = int (length selected), sp_totals = totals,
                         sp_batches = selected\<rparr>)) = Inr plan
      \<longleftrightarrow> int (length cs) \<le> pol_maxBatches policy
          \<and> message_total bs \<le> pol_maxMessages policy
          \<and> message_total bs \<le> max_safe \<and> notification_total bs \<le> max_safe \<and> error_total bs \<le> max_safe
          \<and> plan = plan_of policy bs"
    if "list_all2 (eligible siteId cutoff) cs bs" for siteId cutoff cs bs e1 e2
    by (auto simp: totals [OF that] same_length [OF that] not_less plan_of_def Let_def)
  show ?thesis
    unfolding buildNewsletterRetentionSelectionPlan_def parseStrictUtcIso_def bindE_Inr_iff if_Inl_Inr_iff
      parse_strict_utc_Inr_iff js.inject normalizeSelectionCandidates_Inr_iff de_Morgan_disj not_not
    using body by blast
qed

text \<open>
  C22: which selections are planned, and the plan they get. The evidence is acceptable, queue and
  dead-letter queue are healthy, every candidate belongs to the policy's site, is older than the
  cutoff and has complete correlation with no orphan, and neither the number of batches nor the sum of
  their messages exceeds the caps of the policy. The plan holds all candidates with their exact
  totals; nothing else is planned.
\<close>

theorem selection_planned_iff:
  "buildNewsletterRetentionSelectionPlan policy evidence queueHealthy dlqHealthy candidates = Inr plan \<longleftrightarrow>
     (\<exists>e. parseNewsletterRetentionEvidence evidence = Inr e)
     \<and> queueHealthy = JBool True \<and> dlqHealthy = JBool True
     \<and> (\<exists>cutoff cs bs. pol_cutoff policy = to_iso cutoff \<and> in_iso_range cutoff \<and> candidates = JArr cs
          \<and> list_all2 (eligible (pol_siteId policy) cutoff) cs bs
          \<and> int (length cs) \<le> pol_maxBatches policy
          \<and> message_total bs \<le> pol_maxMessages policy
          \<and> message_total bs \<le> max_safe \<and> notification_total bs \<le> max_safe \<and> error_total bs \<le> max_safe
          \<and> plan = plan_of policy bs)"
  by (rule plan_built_iff)

text \<open>
  C4: the anti-overlap lock excludes. Once a lock object has taken its name, every attempt of any
  object to take that name fails, over every later history of attempts and releases in which the
  holder itself does not release; after its release the name can be taken again.
\<close>

theorem lock_excludes_until_released:
  assumes "lock_tryAcquire lk tbl = (True, tbl')"
    and "\<And>lk'. Release lk' \<in> set ops \<Longrightarrow> lock_name lk' = lock_name lk \<Longrightarrow> lock_token lk' \<noteq> lock_token lk"
  shows "lock_isHeld lk (snd (process_lock.history ops tbl'))
     \<and> (\<forall>i < length ops. \<forall>lk'. ops ! i = Acquire lk' \<longrightarrow> lock_name lk' = lock_name lk
          \<longrightarrow> \<not> fst (process_lock.history ops tbl') ! i)
     \<and> fst (lock_tryAcquire lk (snd (lock_release lk (snd (process_lock.history ops tbl')))))"
proof -
  have held: "held_tokens tbl' (lock_name lk) = Some (lock_token lk)"
    using assms(1) by (auto simp: lock_tryAcquire_def split: if_splits)
  note excludes = process_lock.held_excludes [OF held assms(2)]
  then show ?thesis
    using process_lock.reacquired_after_release [of "snd (process_lock.history ops tbl')" lk lk]
    by (auto simp: lock_isHeld_def)
qed

lemma lock_excludes_until_released_witness:
  "\<not> fst (process_lock.history
      [Acquire \<lparr>lock_name = lit ''s'', lock_token = 1\<rparr>, Release \<lparr>lock_name = lit ''s'', lock_token = 1\<rparr>]
      \<lparr>held_tokens = [lit ''s'' \<mapsto> 0], next_token = 2\<rparr>) ! 0"
proof -
  let ?lk = "\<lparr>lock_name = lit ''s'', lock_token = 0\<rparr>"
  have "lock_tryAcquire ?lk \<lparr>held_tokens = Map.empty, next_token = 2\<rparr>
      = (True, \<lparr>held_tokens = [lit ''s'' \<mapsto> 0], next_token = 2\<rparr>)"
    by (simp add: lock_tryAcquire_def)
  from lock_excludes_until_released [OF this, of "[Acquire \<lparr>lock_name = lit ''s'', lock_token = 1\<rparr>,
      Release \<lparr>lock_name = lit ''s'', lock_token = 1\<rparr>]"] show ?thesis by force
qed

text \<open>
  The lock never outlives the work. Whatever the work returns or throws, if it leaves this lock
  alone then the name has the same holder afterwards as before; when the name was taken, the work
  does not run at all and the call throws.
\<close>

theorem with_lock_releases:
  assumes "\<And>tbl w. lock_isHeld lk tbl \<Longrightarrow> lock_isHeld lk (fst (snd (work (tbl, w))))"
  shows "held_tokens (fst (snd (withProcessLocalAntiOverlapLock lk work s))) (lock_name lk)
       = held_tokens (fst s) (lock_name lk)
     \<and> (held_tokens (fst s) (lock_name lk) \<noteq> None \<longrightarrow>
          withProcessLocalAntiOverlapLock lk work s = (Inl (LockHeld (lock_name lk)), s))"
  using assms [of "(fst s)\<lparr>held_tokens := (held_tokens (fst s))(lock_name lk \<mapsto> lock_token lk)\<rparr>" "snd s"]
  by (auto simp: withProcessLocalAntiOverlapLock_def lock_tryAcquire_def lock_release_def lock_isHeld_def
      Let_def split_beta)

lemma with_lock_releases_witness:
  "held_tokens (fst (snd (withProcessLocalAntiOverlapLock \<lparr>lock_name = lit ''s'', lock_token = 0\<rparr>
      (\<lambda>s. (Inl (Error ''x'') :: unit res, s)) (\<lparr>held_tokens = Map.empty, next_token = 1\<rparr>, ())))) (lit ''s'') = None"
  using with_lock_releases [of "\<lparr>lock_name = lit ''s'', lock_token = 0\<rparr>" "\<lambda>s. (Inl (Error ''x'') :: unit res, s)"
      "(\<lparr>held_tokens = Map.empty, next_token = 1\<rparr>, ())"]
  by simp

end
