(* ===== verification/JsonKeys.thy ===== *)
theory JsonKeys
  imports JsonText
begin

text \<open>
  The scanner that rejects an escrow line with a repeated object key before the line is parsed
  (\<^verbatim>\<open>JsonDuplicateKeyScanner\<close> in service/newsletter-retention-escrow.ts). The model passes the
  rest of the text instead of an index. Each nested call gets one unit of fuel less; two units per
  character are enough (\<open>scan_fuel\<close>), and \<open>ensureUniqueJsonKeys\<close> supplies that.
\<close>

section \<open>The scanner\<close>

definition invalid_json :: exn where
  "invalid_json = Error ''escrow line must be valid JSON''"

definition expect_unit :: "unit16 \<Rightarrow> jstr \<Rightarrow> jstr res" where
  "expect_unit c s = (case s of d # t \<Rightarrow> if d = c then Inr t else Inl invalid_json | [] \<Rightarrow> Inl invalid_json)"

definition scan_string :: "jstr \<Rightarrow> (jstr \<times> jstr) res" where
  "scan_string s = bindE (expect_unit 34 s) (\<lambda>t.
     case parse_string t of None \<Rightarrow> Inl invalid_json | Some r \<Rightarrow> Inr r)"

definition scan_digits :: "jstr \<Rightarrow> jstr res" where
  "scan_digits s = (if s = [] \<or> \<not> is_digit (hd s) then Inl invalid_json else Inr (dropWhile is_digit s))"

definition at_unit :: "unit16 \<Rightarrow> jstr \<Rightarrow> bool" where
  "at_unit c s \<longleftrightarrow> s \<noteq> [] \<and> hd s = c"

definition scan_number_token :: "jstr \<Rightarrow> jstr res" where
  "scan_number_token s =
     (let s1 = (if at_unit 45 s then tl s else s) in
      bindE (if at_unit 48 s1 then Inr (tl s1) else scan_digits s1) (\<lambda>s2.
      bindE (if at_unit 46 s2 then scan_digits (tl s2) else Inr s2) (\<lambda>s3.
        if at_unit 101 s3 \<or> at_unit 69 s3
        then scan_digits (if at_unit 43 (tl s3) \<or> at_unit 45 (tl s3) then tl (tl s3) else tl s3)
        else Inr s3)))"

definition scan_literal :: "string \<Rightarrow> jstr \<Rightarrow> jstr res" where
  "scan_literal l s = (if take (length l) s \<noteq> lit l then Inl invalid_json else Inr (drop (length l) s))"

fun scan_value :: "nat \<Rightarrow> jstr \<Rightarrow> jstr res"
  and scan_members :: "nat \<Rightarrow> jstr set \<Rightarrow> jstr \<Rightarrow> jstr res"
  and scan_elements :: "nat \<Rightarrow> jstr \<Rightarrow> jstr res" where
  "scan_value 0 s = Inl invalid_json"
| "scan_value (Suc f) s = (case skip_ws s of
     [] \<Rightarrow> Inl invalid_json
   | c # t \<Rightarrow>
       if c = 123 then
         (let u = skip_ws t in if at_unit 125 u then Inr (tl u) else scan_members f {} u)
       else if c = 91 then
         (let u = skip_ws t in if at_unit 93 u then Inr (tl u) else scan_elements f u)
       else if c = 34 then bindE (scan_string (c # t)) (\<lambda>r. Inr (snd r))
       else if c = 116 then scan_literal ''true'' (c # t)
       else if c = 102 then scan_literal ''false'' (c # t)
       else if c = 110 then scan_literal ''null'' (c # t)
       else if c = 45 \<or> is_digit c then scan_number_token (c # t)
       else Inl invalid_json)"
| "scan_members 0 keys s = Inl invalid_json"
| "scan_members (Suc f) keys s =
     bindE (scan_string (skip_ws s)) (\<lambda>r.
       if fst r \<in> keys then Inl (Error ''escrow line must contain unique JSON keys'')
       else bindE (expect_unit 58 (skip_ws (snd r))) (\<lambda>t.
            bindE (scan_value f t) (\<lambda>u.
              let w = skip_ws u in
                if at_unit 44 w then scan_members f (insert (fst r) keys) (tl w)
                else if at_unit 125 w then Inr (tl w)
                else Inl invalid_json)))"
| "scan_elements 0 s = Inl invalid_json"
| "scan_elements (Suc f) s =
     bindE (scan_value f s) (\<lambda>u.
       let w = skip_ws u in
         if at_unit 44 w then scan_elements f (tl w)
         else if at_unit 93 w then Inr (tl w)
         else Inl invalid_json)"

definition ensureUniqueJsonKeys :: "jstr \<Rightarrow> unit res" where
  "ensureUniqueJsonKeys s =
     bindE (scan_value (Suc (2 * length s)) (skip_ws s)) (\<lambda>r.
       if skip_ws r = [] then Inr () else Inl invalid_json)"

section \<open>Enough fuel\<close>

lemma skip_ws_length: "length (skip_ws s) \<le> length s"
  by (rule length_dropWhile_le)

lemma parse_string_length: "parse_string s = Some (k, r) \<Longrightarrow> length r < length s"
proof (induction s arbitrary: k r rule: parse_string.induct)
  case (1 s)
  show ?case
  proof (cases s)
    case Nil
    then show ?thesis using "1.prems" by (simp add: parse_string.simps)
  next
    case (Cons c t)
    have run: "parse_string (c # t) = Some (k, r)" using "1.prems" Cons by simp
    consider "c = 34" | "c \<noteq> 34" "c = 92" | "c \<noteq> 34" "c \<noteq> 92" by blast
    then show ?thesis
    proof cases
      case 1
      then show ?thesis using run Cons by (simp add: parse_string.simps [of "34 # t"])
    next
      case 2
      note IH = "1.IH" [OF Cons]
      show ?thesis
      proof (cases t)
        case Nil
        then show ?thesis using run 2 by (simp add: parse_string.simps [of "[92]"])
      next
        case (Cons e u)
        show ?thesis
        proof (cases "e = 117")
          case True
          then obtain x v w where "parse_hex4 u = Some (x, v)" "parse_string v = Some (w, r)"
            using run 2 Cons by (auto simp: parse_string.simps [of "92 # 117 # u"] split: option.splits)
          then show ?thesis
            using IH(1) [OF 2 Cons True] parse_hex4_length [of u x v] Cons \<open>s = c # t\<close> by fastforce
        next
          case False
          then obtain x w where "simple_escape e = Some x" "parse_string u = Some (w, r)"
            using run 2 Cons by (auto simp: parse_string.simps [of "92 # e # u"] split: option.splits)
          then show ?thesis using IH(2) [OF 2 Cons False] Cons \<open>s = c # t\<close> by fastforce
        qed
      qed
    next
      case 3
      then obtain w where "\<not> unat c < 32" "parse_string t = Some (w, r)"
        using run by (auto simp: parse_string.simps [of "c # t"] split: if_splits)
      then show ?thesis using "1.IH"(3) [OF Cons 3] Cons by fastforce
    qed
  qed
qed

lemma expect_unit_length: "expect_unit c s = Inr t \<Longrightarrow> length t < length s"
  by (cases s) (auto simp: expect_unit_def split: if_splits)

lemma scan_string_length: "scan_string s = Inr r \<Longrightarrow> length (snd r) < length s"
proof -
  assume "scan_string s = Inr r"
  then obtain t where "expect_unit 34 s = Inr t" "parse_string t = Some r"
    by (auto simp: scan_string_def split: option.splits)
  then show ?thesis
    using expect_unit_length parse_string_length [of t "fst r" "snd r"] by fastforce
qed

lemma scan_digits_length: "scan_digits s = Inr r \<Longrightarrow> length r < length s"
  by (cases s) (auto simp: scan_digits_def le_imp_less_Suc length_dropWhile_le split: if_splits)

lemma at_unit_tl: "at_unit c s \<Longrightarrow> length (tl s) < length s"
  by (simp add: at_unit_def)

lemma length_tl_le: "length (tl s) \<le> length s"
  by simp

lemma scan_number_token_length: "scan_number_token s = Inr r \<Longrightarrow> length r < length s"
proof -
  assume run: "scan_number_token s = Inr r"
  define s1 where "s1 = (if at_unit 45 s then tl s else s)"
  from run obtain s2 s3 where
      2: "(if at_unit 48 s1 then Inr (tl s1) else scan_digits s1) = Inr s2"
    and 3: "(if at_unit 46 s2 then scan_digits (tl s2) else Inr s2) = Inr s3"
    and r: "(if at_unit 101 s3 \<or> at_unit 69 s3
        then scan_digits (if at_unit 43 (tl s3) \<or> at_unit 45 (tl s3) then tl (tl s3) else tl s3)
        else Inr s3) = Inr r"
    unfolding scan_number_token_def Let_def s1_def [symmetric] by auto
  have "length s1 \<le> length s" by (simp add: s1_def)
  moreover have "length s2 < length s1"
    using 2 by (auto split: if_splits dest: at_unit_tl scan_digits_length)
  moreover have "length s3 \<le> length s2"
    using 3 by (auto split: if_splits dest!: scan_digits_length)
  moreover have "length r \<le> length s3"
    using r by (auto split: if_splits dest!: scan_digits_length)
  ultimately show ?thesis by linarith
qed

lemma scan_literal_length: "scan_literal l s = Inr r \<Longrightarrow> l \<noteq> [] \<Longrightarrow> length r < length s"
proof -
  assume run: "scan_literal l s = Inr r" and l: "l \<noteq> []"
  then have "take (length l) s = lit l" "r = drop (length l) s" by (auto simp: scan_literal_def split: if_splits)
  then have "length s \<ge> length l" by (metis length_lit length_take min.absorb_iff2 min.commute)
  with \<open>r = drop (length l) s\<close> l show ?thesis by (cases l) auto
qed

lemma scan_length:
  "scan_value f s = Inr r \<Longrightarrow> length r < length s"
  "scan_members f keys s = Inr r \<Longrightarrow> length r < length s"
  "scan_elements f s = Inr r \<Longrightarrow> length r < length s"
proof (induction f s and f keys s and f s arbitrary: r and r and r
    rule: scan_value_scan_members_scan_elements.induct)
  case (2 f s)
  show ?case
  proof (cases "skip_ws s")
    case Nil
    show ?thesis using "2.prems" unfolding scan_value.simps Nil by simp
  next
    case (Cons c t)
    have small: "length t < length s" using skip_ws_length [of s] Cons by simp
    have members: "length r < Suc (length t)" if "c = 123" "\<not> at_unit 125 (skip_ws t)" "scan_members f {} (skip_ws t) = Inr r"
      using "2.IH"(1) [OF Cons that(1) refl that(2,3)] skip_ws_length [of t] by linarith
    have elements: "length r < Suc (length t)" if "c = 91" "\<not> at_unit 93 (skip_ws t)" "scan_elements f (skip_ws t) = Inr r"
      using "2.IH"(2) [OF Cons _ that(1) refl that(2,3)] skip_ws_length [of t] that(1) by simp
    have tail: "length (tl (skip_ws t)) < Suc (length t)"
      using skip_ws_length [of t] length_tl_le [of "skip_ws t"] by linarith
    have "length r < length (c # t)"
      using "2.prems" members elements tail unfolding scan_value.simps Cons
      by (auto simp: Let_def split: if_splits dest!: scan_string_length scan_literal_length scan_number_token_length)
    then show ?thesis using small by simp
  qed
next
  case (4 f keys s)
  then obtain k t u where run: "scan_string (skip_ws s) = Inr k" "fst k \<notin> keys"
      "expect_unit 58 (skip_ws (snd k)) = Inr t" "scan_value f t = Inr u"
      "(let w = skip_ws u in if at_unit 44 w then scan_members f (insert (fst k) keys) (tl w)
         else if at_unit 125 w then Inr (tl w) else Inl invalid_json) = Inr r"
    by auto
  have "length (snd k) < length s" using scan_string_length [OF run(1)] skip_ws_length [of s] by linarith
  moreover have "length t < length (snd k)"
    using expect_unit_length [OF run(3)] skip_ws_length [of "snd k"] by linarith
  moreover have "length u < length t" using "4.IH"(1) [OF run(2,4)] .
  moreover have "length r \<le> length u"
    using run(5) "4.IH"(2) [OF run(2) refl] skip_ws_length [of u]
    by (fastforce simp: Let_def split: if_splits)
  ultimately show ?case by linarith
next
  case (6 f s)
  then obtain u where run: "scan_value f s = Inr u"
      "(let w = skip_ws u in if at_unit 44 w then scan_elements f (tl w)
         else if at_unit 93 w then Inr (tl w) else Inl invalid_json) = Inr r"
    by auto
  have "length u < length s" using "6.IH"(1) [OF run(1)] .
  moreover have "length r \<le> length u"
    using run(2) "6.IH"(2) [OF refl] skip_ws_length [of u]
    by (fastforce simp: Let_def split: if_splits)
  ultimately show ?case by linarith
qed simp_all

lemma scan_fuel:
  "2 * length s < f \<Longrightarrow> scan_value (Suc f) s = scan_value f s"
  "2 * length s < f \<Longrightarrow> scan_members (Suc f) keys s = scan_members f keys s"
  "2 * length s + 1 < f \<Longrightarrow> scan_elements (Suc f) s = scan_elements f s"
proof (induction f arbitrary: s keys)
  case (Suc f)
  {
    case 1
    show ?case
    proof (cases "skip_ws s")
      case Nil
      show ?thesis unfolding scan_value.simps Nil by simp
    next
      case (Cons c t)
      have "2 * length (skip_ws t) < f" "2 * length (skip_ws t) + 1 < f"
        using 1 skip_ws_length [of s] skip_ws_length [of t] Cons by simp_all
      from Suc.IH(2) [OF this(1)] Suc.IH(3) [OF this(2)] show ?thesis
        by (simp only: scan_value.simps Cons list.case Let_def)
    qed
  next
    case 2
    have same: "bindE (scan_value (Suc f) t) (\<lambda>u. let w = skip_ws u in
            if at_unit 44 w then scan_members (Suc f) ks (tl w) else if at_unit 125 w then Inr (tl w) else Inl invalid_json)
        = bindE (scan_value f t) (\<lambda>u. let w = skip_ws u in
            if at_unit 44 w then scan_members f ks (tl w) else if at_unit 125 w then Inr (tl w) else Inl invalid_json)"
      if read: "scan_string (skip_ws s) = Inr r" "expect_unit 58 (skip_ws (snd r)) = Inr t" for r t ks
    proof -
      have t: "2 * length t < f"
        using 2 scan_string_length [OF read(1)] expect_unit_length [OF read(2)]
          skip_ws_length [of s] skip_ws_length [of "snd r"] by linarith
      have rest: "2 * length (tl (skip_ws u)) < f" if "scan_value f t = Inr u" for u
        using scan_length(1) [OF that] t skip_ws_length [of u] length_tl_le [of "skip_ws u"] by linarith
      show ?thesis unfolding Suc.IH(1) [OF t]
        using Suc.IH(2) [OF rest] by (cases "scan_value f t") (simp_all add: Let_def)
    qed
    note step = scan_members.simps(2) [of "Suc f" keys s] scan_members.simps(2) [of f keys s]
    show ?case
    proof (cases "scan_string (skip_ws s)")
      case read: (Inr r)
      show ?thesis
      proof (cases "expect_unit 58 (skip_ws (snd r))")
        case (Inr t)
        show ?thesis unfolding step read Inr bindE_simps same [OF read Inr] ..
      qed (simp only: step read bindE_simps)
    qed (simp only: step bindE_simps)
  next
    case 3
    then have t: "2 * length s < f" by linarith
    have rest: "2 * length (tl (skip_ws u)) + 1 < f" if "scan_value f s = Inr u" for u
      using scan_length(1) [OF that] 3 skip_ws_length [of u] length_tl_le [of "skip_ws u"] by linarith
    show ?case unfolding scan_elements.simps(2) [of "Suc f" s] scan_elements.simps(2) [of f s] Suc.IH(1) [OF t]
      using Suc.IH(3) [OF rest] by (cases "scan_value f s") (simp_all only: bindE_simps Let_def)
  }
qed simp_all

text \<open>So the answer does not depend on the fuel once there are two units per character.\<close>

lemma scan_value_fuel_irrelevant: "2 * length s < f \<Longrightarrow> scan_value f s = scan_value (Suc (2 * length s)) s"
proof (induction f)
  case (Suc f)
  then show ?case using scan_fuel(1) [of s f] by (cases "2 * length s = f") auto
qed simp

section \<open>Printed data has unique keys\<close>

definition scans :: "js \<Rightarrow> bool" where
  "scans v \<longleftrightarrow> (\<forall>r f. ends_value r \<longrightarrow> 2 * length (json_text v) \<le> f \<longrightarrow> scan_value f (json_text v @ r) = Inr r)"

lemma scan_elements_text:
  assumes "vs \<noteq> []" "\<And>v. v \<in> set vs \<Longrightarrow> scans v"
    and "2 * length (join_with [44] (map json_text vs)) + 1 \<le> f"
  shows "scan_elements f (join_with [44] (map json_text vs) @ 93 # r) = Inr r"
  using assms
proof (induction vs arbitrary: f)
  case (Cons v vs)
  obtain g where f: "f = Suc g" using Cons.prems(3) by (cases f) auto
  show ?case
  proof (cases vs)
    case Nil
    then have "scan_value g (json_text v @ 93 # r) = Inr (93 # r)"
      using Cons.prems f by (simp add: scans_def)
    then show ?thesis using Nil f by (simp add: at_unit_def)
  next
    case (Cons w ws)
    let ?rest = "join_with [44] (map json_text vs)"
    have joined: "join_with [44] (map json_text (v # vs)) = json_text v @ [44] @ ?rest" using Cons by simp
    have "scan_value g (json_text v @ 44 # ?rest @ 93 # r) = Inr (44 # ?rest @ 93 # r)"
      using Cons.prems(2,3) f unfolding joined by (simp add: scans_def)
    moreover have "scan_elements g (?rest @ 93 # r) = Inr r"
      using Cons.IH [of g] Cons.prems(2,3) f Cons unfolding joined by simp
    ultimately show ?thesis unfolding joined f by (simp add: at_unit_def)
  qed
qed simp

lemma scan_string_quote: "scan_string (34 # quote_units k @ 34 # r) = Inr (k, r)"
  by (simp add: scan_string_def expect_unit_def parse_string_quote_units)

lemma scan_members_text:
  assumes "kvs \<noteq> []" "\<And>v. v \<in> set (map snd kvs) \<Longrightarrow> scans v" "distinct (map fst kvs)"
    and "keys \<inter> fst ` set kvs = {}"
    and "2 * length (join_with [44] (map member_text kvs)) + 1 \<le> f"
  shows "scan_members f keys (join_with [44] (map member_text kvs) @ 125 # r) = Inr r"
  using assms
proof (induction kvs arbitrary: f keys)
  case (Cons kv kvs)
  obtain k v where kv: "kv = (k, v)" by force
  obtain g where f: "f = Suc g" using Cons.prems(5) by (cases f) auto
  have member: "member_text (k, v) = 34 # quote_units k @ 34 # 58 # json_text v"
    by (simp add: member_text_def json_quote_def)
  have v: "scans v" and k: "k \<notin> keys" using Cons.prems(2,4) kv by auto
  show ?case
  proof (cases kvs)
    case Nil
    then have "scan_value g (json_text v @ 125 # r) = Inr (125 # r)"
      using v Cons.prems(5) f member kv by (simp add: scans_def)
    then show ?thesis using Nil f k by (simp add: member kv scan_string_quote expect_unit_def at_unit_def)
  next
    case (Cons kw kws)
    let ?rest = "join_with [44] (map member_text kvs)"
    have joined: "join_with [44] (map member_text (kv # kvs)) = member_text kv @ [44] @ ?rest" using Cons by simp
    have "scan_value g (json_text v @ 44 # ?rest @ 125 # r) = Inr (44 # ?rest @ 125 # r)"
      using v Cons.prems(5) f member kv unfolding joined by (simp add: scans_def)
    moreover have "insert k keys \<inter> fst ` set kvs = {}" using Cons.prems(3,4) kv by auto
    then have "scan_members g (insert k keys) (?rest @ 125 # r) = Inr r"
      using Cons.IH [of "insert k keys" g] Cons.prems(2,3,5) f kv Cons unfolding joined by simp
    ultimately show ?thesis unfolding joined f
      using k by (simp add: member kv scan_string_quote expect_unit_def at_unit_def)
  qed
qed simp

lemma scan_int:
  assumes "ends_value r"
  shows "scan_number_token (int_string n @ r) = Inr r"
proof -
  define ds where "ds = dec_string \<bar>n\<bar>"
  have ds: "list_all is_digit ds" "ds \<noteq> []"
    using dec_string_digits [of "\<bar>n\<bar>"] by (auto simp: ds_def is_digits_def)
  have r: "r = [] \<or> \<not> is_digit (hd r)" "\<not> at_unit 46 r" "\<not> at_unit 101 r" "\<not> at_unit 69 r"
    using assms by (auto simp: ends_value_def is_digit_def at_unit_def)
  have "lit ''-'' = [45]" by code_simp
  then have split: "int_string n @ r = (if n < 0 then [45] else []) @ ds @ r"
    by (simp add: int_string_def ds_def)
  have no_minus: "\<not> at_unit 45 (ds @ r)" using ds by (cases ds) (auto simp: is_digit_def at_unit_def)
  have body: "(if at_unit 48 (ds @ r) then Inr (tl (ds @ r)) else scan_digits (ds @ r)) = Inr r"
  proof (cases "hd ds = 48")
    case True
    then have "n = 0" using dec_string_head [of "\<bar>n\<bar>"] by (simp add: ds_def)
    then show ?thesis by (simp add: ds_def dec_string.simps digit_unit_def at_unit_def)
  next
    case False
    have "dropWhile is_digit (ds @ r) = r"
      using ds(1) r(1) by (cases r) (auto simp: list_all_iff dropWhile_append)
    then show ?thesis using False ds by (cases ds) (auto simp: at_unit_def scan_digits_def)
  qed
  have "(let s1 = (if at_unit 45 (int_string n @ r) then tl (int_string n @ r) else int_string n @ r) in s1) = ds @ r"
    using no_minus unfolding split by (cases "n < 0") (auto simp: at_unit_def)
  then show ?thesis unfolding scan_number_token_def Let_def by (simp only: body bindE_simps r if_False simp_thms)
qed

lemma scans_plain: "plain v \<Longrightarrow> scans v"
proof (induction v)
  case (JNum x)
  then obtain n where n: "x = Fin (of_int n)" "\<bar>n\<bar> \<le> max_safe"
    by (auto simp: safe_int_of_num_Some_iff)
  have "scan_value f (int_string n @ r) = Inr r" if ends: "ends_value r" "2 * length (int_string n) \<le> f" for r f
  proof -
    obtain c t where ct: "int_string n @ r = c # t" "c = 45 \<or> is_digit c"
      using int_string_head [of n] by (cases "int_string n") auto
    then have c: "\<not> is_json_ws c" "c \<noteq> 34" "c \<noteq> 91" "c \<noteq> 123" "c \<noteq> 110" "c \<noteq> 116" "c \<noteq> 102"
      by (auto simp: is_json_ws_def is_digit_def)
    obtain g where "f = Suc g" using ends(2) int_string_head(1) [of n] by (cases f) auto
    then show ?thesis using scan_int [OF ends(1), of n] c ct(2) unfolding ct(1) by simp
  qed
  then show ?case using n by (simp add: scans_def json_text_simps)
next
  case (JBool b)
  have "scan_value f (json_text (JBool b) @ r) = Inr r"
    if "2 * length (json_text (JBool b)) \<le> f" for r f
    using that by (cases f; cases b)
      (simp_all only: json_text_simps, simp_all add: is_json_ws_def scan_literal_def json_literals)
  then show ?case by (simp add: scans_def)
next
  case JNull
  have "scan_value f (json_text JNull @ r) = Inr r" if "2 * length (json_text JNull) \<le> f" for r f
    using that by (cases f) (simp_all only: json_text_simps, simp_all add: is_json_ws_def scan_literal_def json_literals)
  then show ?case by (simp add: scans_def)
next
  case (JStr s)
  have "scan_value f (json_quote s @ r) = Inr r" if "2 * length (json_quote s) \<le> f" for r f
    using that by (cases f) (simp_all add: json_quote_def scan_string_quote)
  then show ?case by (simp add: scans_def json_text_simps)
next
  case (JArr vs)
  then have plain: "list_all plain vs" by simp
  have "scan_value f (json_text (JArr vs) @ r) = Inr r"
    if len: "2 * length (json_text (JArr vs)) \<le> f" for r f
  proof -
    obtain g where f: "f = Suc g" using len by (cases f) (simp_all add: json_text_arr [OF plain])
    show ?thesis
    proof (cases vs)
      case Nil
      then show ?thesis by (simp add: f json_text_arr is_json_ws_def at_unit_def)
    next
      case (Cons w ws)
      let ?e = "join_with [44] (map json_text vs)"
      have "plain w" using plain Cons by simp
      then have w: "json_text w \<noteq> []" "value_head (hd (json_text w))" using json_text_head by auto
      then obtain c u where cu: "?e @ 93 # r = c # u" "value_head c"
        using Cons by (cases "json_text w"; cases ws) auto
      have "2 * length ?e + 1 \<le> g" using len f by (simp add: json_text_arr [OF plain])
      moreover have "scans v" if "v \<in> set vs" for v
        using JArr.IH [OF that] plain that by (simp add: list_all_iff)
      ultimately have "scan_elements g (?e @ 93 # r) = Inr r"
        using Cons by (intro scan_elements_text) auto
      then show ?thesis
        using value_head_facts [OF cu(2)] cu(1)
        by (simp add: f json_text_arr [OF plain] is_json_ws_def at_unit_def)
    qed
  qed
  then show ?case by (simp add: scans_def)
next
  case (JObj p kvs)
  then have p: "p = ObjectProto" "distinct (map fst kvs)" and plain: "list_all plain (map snd kvs)"
    by simp_all
  have "scan_value f (json_text (JObj p kvs) @ r) = Inr r"
    if len: "2 * length (json_text (JObj p kvs)) \<le> f" for r f
  proof -
    obtain g where f: "f = Suc g" using len by (cases f) (simp_all add: json_text_obj [OF plain])
    show ?thesis
    proof (cases kvs)
      case Nil
      then show ?thesis by (simp add: f json_text_obj is_json_ws_def at_unit_def)
    next
      case (Cons kw kws)
      let ?e = "join_with [44] (map member_text kvs)"
      obtain u where cu: "?e @ 125 # r = 34 # u"
        using Cons by (cases kws) (auto simp: member_text_def json_quote_def)
      have "scans v" if "v \<in> set (map snd kvs)" for v
        using JObj.IH plain that by (fastforce simp: list_all_iff)
      moreover have "2 * length ?e + 1 \<le> g" using len f by (simp add: json_text_obj [OF plain])
      ultimately have "scan_members g {} (?e @ 125 # r) = Inr r"
        using Cons p(2) by (intro scan_members_text) auto
      then show ?thesis using cu
        by (simp add: f json_text_obj [OF plain] is_json_ws_def at_unit_def)
    qed
  qed
  then show ?case by (simp add: scans_def)
qed simp_all

lemma unique_keys_text: "plain v \<Longrightarrow> ensureUniqueJsonKeys (json_text v) = Inr ()"
proof -
  assume plain: "plain v"
  have "scan_value (Suc (2 * length (json_text v))) (json_text v @ []) = Inr []"
    using scans_plain [OF plain] by (auto simp: scans_def ends_value_def simp del: scan_value.simps)
  moreover have "skip_ws (json_text v) = json_text v"
    using json_text_head [OF plain] value_head_facts by (intro skip_ws_head) auto
  ultimately show ?thesis by (simp del: scan_value.simps add: ensureUniqueJsonKeys_def)
qed

end
