(* ===== verification/EscrowFormat.thy ===== *)
theory EscrowFormat
  imports RetentionPlan JsonKeys Utf8
begin

text \<open>
  The line format of the escrow file (service/newsletter-retention-escrow.ts): the header, one line
  per database row and the footer, each a JSON object with exactly the expected keys, printed in one
  canonical way. A record of the source with its \<^verbatim>\<open>kind\<close> tag is a constructor here; the object an
  item stands for is \<open>header_object\<close>, \<open>record_object\<close> and \<open>footer_object\<close>.
\<close>

section \<open>Rows, records, header and footer\<close>

record batch_row =
  br_id :: jstr
  br_siteId :: jstr
  br_fromEmail :: jstr
  br_contents :: jstr
  br_batchId :: jstr
  br_created :: jstr

record message_row =
  mr_id :: jstr
  mr_messageId :: jstr
  mr_toEmail :: jstr
  mr_newsletterBatchId :: jstr
  mr_created :: jstr
  mr_formatedContents :: jstr
  mr_recipientData :: "jstr option"

record error_row =
  xr_id :: jstr
  xr_toEmail :: jstr
  xr_error :: jstr
  xr_created :: jstr
  xr_newsletterBatchId :: jstr
  xr_messageId :: jstr
  xr_formatedContents :: jstr
  xr_recipientData :: "jstr option"

record notification_row =
  nr_id :: jstr
  nr_type :: jstr
  nr_notificationId :: jstr
  nr_messageId :: jstr
  nr_rawEvent :: jstr
  nr_timestamp :: jstr
  nr_created :: jstr

datatype escrow_kind = NewsletterBatch | NewsletterMessages | NewsletterErrors | NewsletterNotifications

datatype escrow_record =
    BatchRecord int batch_row
  | MessageRecord int message_row
  | ErrorRecord int error_row
  | NotificationRecord int notification_row

record escrow_header =
  eh_version :: int
  eh_siteId :: jstr
  eh_cutoff :: jstr
  eh_policyVersion :: int
  eh_publicManifestHash :: jstr
  eh_schemaFingerprint :: jstr

record escrow_counts =
  ec_batches :: int
  ec_messages :: int
  ec_errors :: int
  ec_notifications :: int

record escrow_footer =
  ef_counts :: escrow_counts
  ef_contentHash :: jstr

record verification_result =
  vr_version :: int
  vr_siteId :: jstr
  vr_cutoff :: jstr
  vr_policyVersion :: int
  vr_publicManifestHash :: jstr
  vr_schemaFingerprint :: jstr
  vr_contentHash :: jstr
  vr_counts :: escrow_counts

datatype escrow_line = HeaderLine escrow_header | FooterLine escrow_footer | RecordLine escrow_record

fun record_kind :: "escrow_record \<Rightarrow> escrow_kind" where
  "record_kind (BatchRecord i r) = NewsletterBatch"
| "record_kind (MessageRecord i r) = NewsletterMessages"
| "record_kind (ErrorRecord i r) = NewsletterErrors"
| "record_kind (NotificationRecord i r) = NewsletterNotifications"

fun kind_text :: "escrow_kind \<Rightarrow> string" where
  "kind_text NewsletterBatch = ''newsletterBatch''"
| "kind_text NewsletterMessages = ''newsletterMessages''"
| "kind_text NewsletterErrors = ''newsletterErrors''"
| "kind_text NewsletterNotifications = ''newsletterNotifications''"

fun manifest_index :: "escrow_record \<Rightarrow> int" where
  "manifest_index (BatchRecord i r) = i"
| "manifest_index (MessageRecord i r) = i"
| "manifest_index (ErrorRecord i r) = i"
| "manifest_index (NotificationRecord i r) = i"

section \<open>Field checks\<close>

definition normalizeVersion :: "js \<Rightarrow> int res" where
  "normalizeVersion v = (if v \<noteq> jint 1 then Inl (Error ''version must equal 1'') else Inr 1)"

definition normalizePositiveSafeInteger :: "js \<Rightarrow> string \<Rightarrow> int res" where
  "normalizePositiveSafeInteger v field = safe_positive v (Error (field @ '' must be a positive safe integer''))"

definition normalizeNonNegativeSafeInteger :: "js \<Rightarrow> string \<Rightarrow> int res" where
  "normalizeNonNegativeSafeInteger v field = safe_count v (Error (field @ '' must be a non-negative safe integer''))"

definition normalizeManifestIndex :: "js \<Rightarrow> int res" where
  "normalizeManifestIndex v = safe_count v (Error ''manifestIndex must be a non-negative safe integer'')"

definition normalizeStrictSiteId :: "js \<Rightarrow> string \<Rightarrow> jstr res" where
  "normalizeStrictSiteId v field = trimmed_string v (Error (field @ '' must be a non-empty string''))"

definition normalizeStrictIdentifier :: "js \<Rightarrow> string \<Rightarrow> jstr res" where
  "normalizeStrictIdentifier v field = trimmed_string v (Error (field @ '' must be a non-empty string''))"

definition normalizeString :: "js \<Rightarrow> string \<Rightarrow> jstr res" where
  "normalizeString v field = any_string v (Error (field @ '' must be a string''))"

definition normalizeUtcMillis :: "js \<Rightarrow> string \<Rightarrow> jstr res" where
  "normalizeUtcMillis v field =
     bindE (parse_strict_utc v (Error (field @ '' must be a canonical UTC millisecond string'')))
       (\<lambda>t. Inr (to_iso t))"

definition normalizeHash :: "js \<Rightarrow> string \<Rightarrow> jstr res" where
  "normalizeHash v field = hash_string v (Error (field @ '' must be a lowercase 64-hex string''))"

definition normalizeRecipientData :: "js \<Rightarrow> jstr option res" where
  "normalizeRecipientData v = (case v of
     JNull \<Rightarrow> Inr None
   | JStr s \<Rightarrow> Inr (Some s)
   | _ \<Rightarrow> Inl (Error ''recipientData must be a string or null''))"

section \<open>Normalization\<close>

definition HEADER_KEYS :: "string list" where
  "HEADER_KEYS = [''kind'', ''version'', ''siteId'', ''cutoff'', ''policyVersion'', ''publicManifestHash'',
     ''schemaFingerprint'']"

definition FOOTER_KEYS :: "string list" where
  "FOOTER_KEYS = [''kind'', ''counts'', ''contentHash'']"

definition VERIFICATION_RESULT_KEYS :: "string list" where
  "VERIFICATION_RESULT_KEYS = [''version'', ''siteId'', ''cutoff'', ''policyVersion'', ''publicManifestHash'',
     ''schemaFingerprint'', ''contentHash'', ''counts'']"

definition COUNT_KEYS :: "string list" where
  "COUNT_KEYS = [''batches'', ''messages'', ''errors'', ''notifications'']"

definition BATCH_ROW_KEYS :: "string list" where
  "BATCH_ROW_KEYS = [''id'', ''siteId'', ''fromEmail'', ''contents'', ''batchId'', ''created'']"

definition MESSAGE_ROW_KEYS :: "string list" where
  "MESSAGE_ROW_KEYS = [''id'', ''messageId'', ''toEmail'', ''newsletterBatchId'', ''created'',
     ''formatedContents'', ''recipientData'']"

definition ERROR_ROW_KEYS :: "string list" where
  "ERROR_ROW_KEYS = [''id'', ''toEmail'', ''error'', ''created'', ''newsletterBatchId'', ''messageId'',
     ''formatedContents'', ''recipientData'']"

definition NOTIFICATION_ROW_KEYS :: "string list" where
  "NOTIFICATION_ROW_KEYS = [''id'', ''type'', ''notificationId'', ''messageId'', ''rawEvent'', ''timestamp'',
     ''created'']"

definition normalizeEscrowHeader :: "js \<Rightarrow> escrow_header res" where
  "normalizeEscrowHeader v =
     bindE (expect_exact_keys v HEADER_KEYS ''header'') (\<lambda>_.
     bindE (normalizeVersion (get_prop v ''version'')) (\<lambda>version.
     bindE (normalizeStrictSiteId (get_prop v ''siteId'') ''siteId'') (\<lambda>siteId.
     bindE (normalizeUtcMillis (get_prop v ''cutoff'') ''cutoff'') (\<lambda>cutoff.
     bindE (normalizePositiveSafeInteger (get_prop v ''policyVersion'') ''policyVersion'') (\<lambda>policyVersion.
     bindE (normalizeHash (get_prop v ''publicManifestHash'') ''publicManifestHash'') (\<lambda>manifestHash.
     bindE (normalizeHash (get_prop v ''schemaFingerprint'') ''schemaFingerprint'') (\<lambda>fingerprint.
       Inr \<lparr>eh_version = version, eh_siteId = siteId, eh_cutoff = cutoff, eh_policyVersion = policyVersion,
            eh_publicManifestHash = manifestHash, eh_schemaFingerprint = fingerprint\<rparr>)))))))"

definition normalize_counts :: "js \<Rightarrow> escrow_counts res" where
  "normalize_counts c =
     bindE (normalizeNonNegativeSafeInteger (get_prop c ''batches'') ''batches'') (\<lambda>b.
     bindE (normalizeNonNegativeSafeInteger (get_prop c ''messages'') ''messages'') (\<lambda>m.
     bindE (normalizeNonNegativeSafeInteger (get_prop c ''errors'') ''errors'') (\<lambda>e.
     bindE (normalizeNonNegativeSafeInteger (get_prop c ''notifications'') ''notifications'') (\<lambda>n.
       Inr \<lparr>ec_batches = b, ec_messages = m, ec_errors = e, ec_notifications = n\<rparr>))))"

definition normalizeEscrowFooter :: "js \<Rightarrow> escrow_footer res" where
  "normalizeEscrowFooter v =
     bindE (expect_exact_keys v FOOTER_KEYS ''footer'') (\<lambda>_.
     bindE (expect_exact_keys (get_prop v ''counts'') COUNT_KEYS ''footer counts'') (\<lambda>_.
     bindE (normalize_counts (get_prop v ''counts'')) (\<lambda>counts.
     bindE (normalizeHash (get_prop v ''contentHash'') ''contentHash'') (\<lambda>contentHash.
       Inr \<lparr>ef_counts = counts, ef_contentHash = contentHash\<rparr>))))"

definition normalizeBatchRow :: "js \<Rightarrow> batch_row res" where
  "normalizeBatchRow v =
     bindE (expect_exact_keys v BATCH_ROW_KEYS ''record row'') (\<lambda>_.
     bindE (normalizeStrictIdentifier (get_prop v ''id'') ''id'') (\<lambda>i.
     bindE (normalizeStrictSiteId (get_prop v ''siteId'') ''siteId'') (\<lambda>siteId.
     bindE (normalizeStrictIdentifier (get_prop v ''fromEmail'') ''fromEmail'') (\<lambda>fromEmail.
     bindE (normalizeString (get_prop v ''contents'') ''contents'') (\<lambda>contents.
     bindE (normalizeStrictIdentifier (get_prop v ''batchId'') ''batchId'') (\<lambda>batchId.
     bindE (normalizeUtcMillis (get_prop v ''created'') ''created'') (\<lambda>created.
       Inr \<lparr>br_id = i, br_siteId = siteId, br_fromEmail = fromEmail, br_contents = contents,
            br_batchId = batchId, br_created = created\<rparr>)))))))"

definition normalizeMessageRow :: "js \<Rightarrow> message_row res" where
  "normalizeMessageRow v =
     bindE (expect_exact_keys v MESSAGE_ROW_KEYS ''record row'') (\<lambda>_.
     bindE (normalizeStrictIdentifier (get_prop v ''id'') ''id'') (\<lambda>i.
     bindE (normalizeStrictIdentifier (get_prop v ''messageId'') ''messageId'') (\<lambda>messageId.
     bindE (normalizeStrictIdentifier (get_prop v ''toEmail'') ''toEmail'') (\<lambda>toEmail.
     bindE (normalizeStrictIdentifier (get_prop v ''newsletterBatchId'') ''newsletterBatchId'') (\<lambda>batch.
     bindE (normalizeUtcMillis (get_prop v ''created'') ''created'') (\<lambda>created.
     bindE (normalizeString (get_prop v ''formatedContents'') ''formatedContents'') (\<lambda>contents.
     bindE (normalizeRecipientData (get_prop v ''recipientData'')) (\<lambda>recipient.
       Inr \<lparr>mr_id = i, mr_messageId = messageId, mr_toEmail = toEmail, mr_newsletterBatchId = batch,
            mr_created = created, mr_formatedContents = contents, mr_recipientData = recipient\<rparr>))))))))"

definition normalizeErrorRow :: "js \<Rightarrow> error_row res" where
  "normalizeErrorRow v =
     bindE (expect_exact_keys v ERROR_ROW_KEYS ''record row'') (\<lambda>_.
     bindE (normalizeStrictIdentifier (get_prop v ''id'') ''id'') (\<lambda>i.
     bindE (normalizeStrictIdentifier (get_prop v ''toEmail'') ''toEmail'') (\<lambda>toEmail.
     bindE (normalizeString (get_prop v ''error'') ''error'') (\<lambda>err.
     bindE (normalizeUtcMillis (get_prop v ''created'') ''created'') (\<lambda>created.
     bindE (normalizeStrictIdentifier (get_prop v ''newsletterBatchId'') ''newsletterBatchId'') (\<lambda>batch.
     bindE (normalizeStrictIdentifier (get_prop v ''messageId'') ''messageId'') (\<lambda>messageId.
     bindE (normalizeString (get_prop v ''formatedContents'') ''formatedContents'') (\<lambda>contents.
     bindE (normalizeRecipientData (get_prop v ''recipientData'')) (\<lambda>recipient.
       Inr \<lparr>xr_id = i, xr_toEmail = toEmail, xr_error = err, xr_created = created,
            xr_newsletterBatchId = batch, xr_messageId = messageId, xr_formatedContents = contents,
            xr_recipientData = recipient\<rparr>)))))))))"

definition normalizeNotificationRow :: "js \<Rightarrow> notification_row res" where
  "normalizeNotificationRow v =
     bindE (expect_exact_keys v NOTIFICATION_ROW_KEYS ''record row'') (\<lambda>_.
     bindE (normalizeStrictIdentifier (get_prop v ''id'') ''id'') (\<lambda>i.
     bindE (normalizeStrictIdentifier (get_prop v ''type'') ''type'') (\<lambda>t.
     bindE (normalizeStrictIdentifier (get_prop v ''notificationId'') ''notificationId'') (\<lambda>notificationId.
     bindE (normalizeStrictIdentifier (get_prop v ''messageId'') ''messageId'') (\<lambda>messageId.
     bindE (normalizeString (get_prop v ''rawEvent'') ''rawEvent'') (\<lambda>rawEvent.
     bindE (normalizeUtcMillis (get_prop v ''timestamp'') ''timestamp'') (\<lambda>timestamp.
     bindE (normalizeUtcMillis (get_prop v ''created'') ''created'') (\<lambda>created.
       Inr \<lparr>nr_id = i, nr_type = t, nr_notificationId = notificationId, nr_messageId = messageId,
            nr_rawEvent = rawEvent, nr_timestamp = timestamp, nr_created = created\<rparr>))))))))"

definition normalizeEscrowRecord :: "js \<Rightarrow> escrow_record res" where
  "normalizeEscrowRecord v =
     bindE (expect_exact_keys v [''kind'', ''manifestIndex'', ''row''] ''record'') (\<lambda>_.
       let kind = get_prop v ''kind''; i = get_prop v ''manifestIndex''; row = get_prop v ''row'' in
       if kind = JStr (lit ''newsletterBatch'') then
         bindE (normalizeManifestIndex i) (\<lambda>n. bindE (normalizeBatchRow row) (\<lambda>r. Inr (BatchRecord n r)))
       else if kind = JStr (lit ''newsletterMessages'') then
         bindE (normalizeManifestIndex i) (\<lambda>n. bindE (normalizeMessageRow row) (\<lambda>r. Inr (MessageRecord n r)))
       else if kind = JStr (lit ''newsletterErrors'') then
         bindE (normalizeManifestIndex i) (\<lambda>n. bindE (normalizeErrorRow row) (\<lambda>r. Inr (ErrorRecord n r)))
       else if kind = JStr (lit ''newsletterNotifications'') then
         bindE (normalizeManifestIndex i) (\<lambda>n. bindE (normalizeNotificationRow row) (\<lambda>r. Inr (NotificationRecord n r)))
       else Inl (Error ''record kind must be a known model''))"

section \<open>Objects and their canonical text\<close>

definition nullable_string :: "jstr option \<Rightarrow> js" where
  "nullable_string s = (case s of None \<Rightarrow> JNull | Some t \<Rightarrow> JStr t)"

definition header_object :: "escrow_header \<Rightarrow> js" where
  "header_object h = obj [(''kind'', JStr (lit ''header'')), (''version'', jint (eh_version h)),
     (''siteId'', JStr (eh_siteId h)), (''cutoff'', JStr (eh_cutoff h)),
     (''policyVersion'', jint (eh_policyVersion h)),
     (''publicManifestHash'', JStr (eh_publicManifestHash h)),
     (''schemaFingerprint'', JStr (eh_schemaFingerprint h))]"

definition counts_object :: "escrow_counts \<Rightarrow> js" where
  "counts_object c = obj [(''batches'', jint (ec_batches c)), (''messages'', jint (ec_messages c)),
     (''errors'', jint (ec_errors c)), (''notifications'', jint (ec_notifications c))]"

definition footer_object :: "escrow_footer \<Rightarrow> js" where
  "footer_object f = obj [(''kind'', JStr (lit ''footer'')), (''counts'', counts_object (ef_counts f)),
     (''contentHash'', JStr (ef_contentHash f))]"

definition batch_row_object :: "batch_row \<Rightarrow> js" where
  "batch_row_object r = obj [(''id'', JStr (br_id r)), (''siteId'', JStr (br_siteId r)),
     (''fromEmail'', JStr (br_fromEmail r)), (''contents'', JStr (br_contents r)),
     (''batchId'', JStr (br_batchId r)), (''created'', JStr (br_created r))]"

definition message_row_object :: "message_row \<Rightarrow> js" where
  "message_row_object r = obj [(''id'', JStr (mr_id r)), (''messageId'', JStr (mr_messageId r)),
     (''toEmail'', JStr (mr_toEmail r)), (''newsletterBatchId'', JStr (mr_newsletterBatchId r)),
     (''created'', JStr (mr_created r)), (''formatedContents'', JStr (mr_formatedContents r)),
     (''recipientData'', nullable_string (mr_recipientData r))]"

definition error_row_object :: "error_row \<Rightarrow> js" where
  "error_row_object r = obj [(''id'', JStr (xr_id r)), (''toEmail'', JStr (xr_toEmail r)),
     (''error'', JStr (xr_error r)), (''created'', JStr (xr_created r)),
     (''newsletterBatchId'', JStr (xr_newsletterBatchId r)), (''messageId'', JStr (xr_messageId r)),
     (''formatedContents'', JStr (xr_formatedContents r)),
     (''recipientData'', nullable_string (xr_recipientData r))]"

definition notification_row_object :: "notification_row \<Rightarrow> js" where
  "notification_row_object r = obj [(''id'', JStr (nr_id r)), (''type'', JStr (nr_type r)),
     (''notificationId'', JStr (nr_notificationId r)), (''messageId'', JStr (nr_messageId r)),
     (''rawEvent'', JStr (nr_rawEvent r)), (''timestamp'', JStr (nr_timestamp r)),
     (''created'', JStr (nr_created r))]"

fun row_object :: "escrow_record \<Rightarrow> js" where
  "row_object (BatchRecord i r) = batch_row_object r"
| "row_object (MessageRecord i r) = message_row_object r"
| "row_object (ErrorRecord i r) = error_row_object r"
| "row_object (NotificationRecord i r) = notification_row_object r"

definition record_object :: "escrow_record \<Rightarrow> js" where
  "record_object r = obj [(''kind'', JStr (lit (kind_text (record_kind r)))),
     (''manifestIndex'', jint (manifest_index r)), (''row'', row_object r)]"

definition joinCanonicalObject :: "(string \<times> jstr) list \<Rightarrow> jstr" where
  "joinCanonicalObject entries =
     lit ''{'' @ join_with (lit '','') (map (\<lambda>(k, t). json_quote (lit k) @ lit '':'' @ t) entries) @ lit ''}''"

abbreviation stringifyString :: "jstr \<Rightarrow> jstr" where
  "stringifyString \<equiv> json_quote"

abbreviation stringifyNumber :: "int \<Rightarrow> jstr" where
  "stringifyNumber \<equiv> int_string"

definition stringify_nullable :: "jstr option \<Rightarrow> jstr" where
  "stringify_nullable s = (case s of None \<Rightarrow> lit ''null'' | Some t \<Rightarrow> stringifyString t)"

fun serializeRecordRow :: "escrow_record \<Rightarrow> jstr" where
  "serializeRecordRow (BatchRecord i r) = joinCanonicalObject
     [(''id'', stringifyString (br_id r)), (''siteId'', stringifyString (br_siteId r)),
      (''fromEmail'', stringifyString (br_fromEmail r)), (''contents'', stringifyString (br_contents r)),
      (''batchId'', stringifyString (br_batchId r)), (''created'', stringifyString (br_created r))]"
| "serializeRecordRow (MessageRecord i r) = joinCanonicalObject
     [(''id'', stringifyString (mr_id r)), (''messageId'', stringifyString (mr_messageId r)),
      (''toEmail'', stringifyString (mr_toEmail r)),
      (''newsletterBatchId'', stringifyString (mr_newsletterBatchId r)),
      (''created'', stringifyString (mr_created r)),
      (''formatedContents'', stringifyString (mr_formatedContents r)),
      (''recipientData'', stringify_nullable (mr_recipientData r))]"
| "serializeRecordRow (ErrorRecord i r) = joinCanonicalObject
     [(''id'', stringifyString (xr_id r)), (''toEmail'', stringifyString (xr_toEmail r)),
      (''error'', stringifyString (xr_error r)), (''created'', stringifyString (xr_created r)),
      (''newsletterBatchId'', stringifyString (xr_newsletterBatchId r)),
      (''messageId'', stringifyString (xr_messageId r)),
      (''formatedContents'', stringifyString (xr_formatedContents r)),
      (''recipientData'', stringify_nullable (xr_recipientData r))]"
| "serializeRecordRow (NotificationRecord i r) = joinCanonicalObject
     [(''id'', stringifyString (nr_id r)), (''type'', stringifyString (nr_type r)),
      (''notificationId'', stringifyString (nr_notificationId r)),
      (''messageId'', stringifyString (nr_messageId r)), (''rawEvent'', stringifyString (nr_rawEvent r)),
      (''timestamp'', stringifyString (nr_timestamp r)), (''created'', stringifyString (nr_created r))]"

definition header_line :: "escrow_header \<Rightarrow> jstr" where
  "header_line h = joinCanonicalObject
     [(''kind'', stringifyString (lit ''header'')), (''version'', stringifyNumber (eh_version h)),
      (''siteId'', stringifyString (eh_siteId h)), (''cutoff'', stringifyString (eh_cutoff h)),
      (''policyVersion'', stringifyNumber (eh_policyVersion h)),
      (''publicManifestHash'', stringifyString (eh_publicManifestHash h)),
      (''schemaFingerprint'', stringifyString (eh_schemaFingerprint h))]"

definition record_line :: "escrow_record \<Rightarrow> jstr" where
  "record_line r = joinCanonicalObject
     [(''kind'', stringifyString (lit (kind_text (record_kind r)))),
      (''manifestIndex'', stringifyNumber (manifest_index r)), (''row'', serializeRecordRow r)]"

definition footer_line :: "escrow_footer \<Rightarrow> jstr" where
  "footer_line f = joinCanonicalObject
     [(''kind'', stringifyString (lit ''footer'')),
      (''counts'', joinCanonicalObject
         [(''batches'', stringifyNumber (ec_batches (ef_counts f))),
          (''messages'', stringifyNumber (ec_messages (ef_counts f))),
          (''errors'', stringifyNumber (ec_errors (ef_counts f))),
          (''notifications'', stringifyNumber (ec_notifications (ef_counts f)))]),
      (''contentHash'', stringifyString (ef_contentHash f))]"

definition serializeNewsletterRetentionEscrowHeader :: "js \<Rightarrow> jstr res" where
  "serializeNewsletterRetentionEscrowHeader v = bindE (normalizeEscrowHeader v) (\<lambda>h. Inr (header_line h))"

definition serializeNewsletterRetentionEscrowRecord :: "js \<Rightarrow> jstr res" where
  "serializeNewsletterRetentionEscrowRecord v = bindE (normalizeEscrowRecord v) (\<lambda>r. Inr (record_line r))"

definition serializeNewsletterRetentionEscrowFooter :: "js \<Rightarrow> jstr res" where
  "serializeNewsletterRetentionEscrowFooter v = bindE (normalizeEscrowFooter v) (\<lambda>f. Inr (footer_line f))"

section \<open>Reading a line\<close>

definition parseEscrowLine :: "jstr \<Rightarrow> escrow_line res" where
  "parseEscrowLine t =
     (if t = [] then Inl (Error ''escrow line must be valid JSON'')
      else bindE (ensureUniqueJsonKeys t) (\<lambda>_.
        case json_parse t of
          None \<Rightarrow> Inl (Error ''escrow line must be valid JSON'')
        | Some v \<Rightarrow>
            if \<not> is_object_not_array v then Inl (Error ''escrow line must be a plain object'')
            else if get_prop v ''kind'' = JStr (lit ''header'')
            then bindE (normalizeEscrowHeader v) (\<lambda>h. Inr (HeaderLine h))
            else if get_prop v ''kind'' = JStr (lit ''footer'')
            then bindE (normalizeEscrowFooter v) (\<lambda>f. Inr (FooterLine f))
            else bindE (normalizeEscrowRecord v) (\<lambda>r. Inr (RecordLine r))))"

definition parseNewsletterRetentionEscrowRecord :: "js \<Rightarrow> escrow_record res" where
  "parseNewsletterRetentionEscrowRecord v = normalizeEscrowRecord v"

definition verification_of :: "escrow_header \<Rightarrow> escrow_footer \<Rightarrow> verification_result" where
  "verification_of h f = \<lparr>vr_version = eh_version h, vr_siteId = eh_siteId h, vr_cutoff = eh_cutoff h,
     vr_policyVersion = eh_policyVersion h, vr_publicManifestHash = eh_publicManifestHash h,
     vr_schemaFingerprint = eh_schemaFingerprint h, vr_contentHash = ef_contentHash f,
     vr_counts = ef_counts f\<rparr>"

definition parseNewsletterRetentionEscrowVerificationResult :: "js \<Rightarrow> verification_result res" where
  "parseNewsletterRetentionEscrowVerificationResult v =
     bindE (expect_exact_keys v VERIFICATION_RESULT_KEYS ''escrow verification result'') (\<lambda>_.
     bindE (normalizeEscrowHeader (obj [(''kind'', JStr (lit ''header'')), (''version'', get_prop v ''version''),
              (''siteId'', get_prop v ''siteId''), (''cutoff'', get_prop v ''cutoff''),
              (''policyVersion'', get_prop v ''policyVersion''),
              (''publicManifestHash'', get_prop v ''publicManifestHash''),
              (''schemaFingerprint'', get_prop v ''schemaFingerprint'')])) (\<lambda>h.
     bindE (normalizeEscrowFooter (obj [(''kind'', JStr (lit ''footer'')), (''counts'', get_prop v ''counts''),
              (''contentHash'', get_prop v ''contentHash'')])) (\<lambda>f.
       Inr (verification_of h f))))"

definition verification_object :: "verification_result \<Rightarrow> js" where
  "verification_object r = obj [(''version'', jint (vr_version r)), (''siteId'', JStr (vr_siteId r)),
     (''cutoff'', JStr (vr_cutoff r)), (''policyVersion'', jint (vr_policyVersion r)),
     (''publicManifestHash'', JStr (vr_publicManifestHash r)),
     (''schemaFingerprint'', JStr (vr_schemaFingerprint r)), (''contentHash'', JStr (vr_contentHash r)),
     (''counts'', counts_object (vr_counts r))]"

section \<open>Normalization inverts the objects\<close>

definition strict_text :: "jstr \<Rightarrow> bool" where
  "strict_text s \<longleftrightarrow> s \<noteq> [] \<and> trim s = s"

definition printed_time :: "jstr \<Rightarrow> bool" where
  "printed_time s \<longleftrightarrow> (\<exists>t. in_iso_range t \<and> s = to_iso t)"

definition safe_nat :: "int \<Rightarrow> bool" where
  "safe_nat n \<longleftrightarrow> 0 \<le> n \<and> n \<le> max_safe"

definition header_ok :: "escrow_header \<Rightarrow> bool" where
  "header_ok h \<longleftrightarrow> eh_version h = 1 \<and> strict_text (eh_siteId h) \<and> printed_time (eh_cutoff h)
     \<and> 0 < eh_policyVersion h \<and> eh_policyVersion h \<le> max_safe
     \<and> is_hash64 (eh_publicManifestHash h) \<and> is_hash64 (eh_schemaFingerprint h)"

definition counts_ok :: "escrow_counts \<Rightarrow> bool" where
  "counts_ok c \<longleftrightarrow> safe_nat (ec_batches c) \<and> safe_nat (ec_messages c) \<and> safe_nat (ec_errors c)
     \<and> safe_nat (ec_notifications c)"

definition footer_ok :: "escrow_footer \<Rightarrow> bool" where
  "footer_ok f \<longleftrightarrow> counts_ok (ef_counts f) \<and> is_hash64 (ef_contentHash f)"

fun row_ok :: "escrow_record \<Rightarrow> bool" where
  "row_ok (BatchRecord i r) \<longleftrightarrow> strict_text (br_id r) \<and> strict_text (br_siteId r) \<and> strict_text (br_fromEmail r)
     \<and> strict_text (br_batchId r) \<and> printed_time (br_created r)"
| "row_ok (MessageRecord i r) \<longleftrightarrow> strict_text (mr_id r) \<and> strict_text (mr_messageId r) \<and> strict_text (mr_toEmail r)
     \<and> strict_text (mr_newsletterBatchId r) \<and> printed_time (mr_created r)"
| "row_ok (ErrorRecord i r) \<longleftrightarrow> strict_text (xr_id r) \<and> strict_text (xr_toEmail r) \<and> printed_time (xr_created r)
     \<and> strict_text (xr_newsletterBatchId r) \<and> strict_text (xr_messageId r)"
| "row_ok (NotificationRecord i r) \<longleftrightarrow> strict_text (nr_id r) \<and> strict_text (nr_type r)
     \<and> strict_text (nr_notificationId r) \<and> strict_text (nr_messageId r) \<and> printed_time (nr_timestamp r)
     \<and> printed_time (nr_created r)"

definition escrow_record_ok :: "escrow_record \<Rightarrow> bool" where
  "escrow_record_ok r \<longleftrightarrow> safe_nat (manifest_index r) \<and> row_ok r"

lemma expect_exact_keys_obj:
  "map fst kvs = keys \<Longrightarrow> expect_exact_keys (obj kvs) keys label = Inr ()"
  by (auto simp: expect_exact_keys_def list_all_iff image_image split_beta comp_def
      intro!: rev_image_eqI [where f = fst])

lemma recipient_Inr_iff: "normalizeRecipientData v = Inr s \<longleftrightarrow> v = nullable_string s"
  by (auto simp: normalizeRecipientData_def nullable_string_def split: js.splits option.splits)

lemma utc_Inr_iff: "normalizeUtcMillis v f = Inr s \<longleftrightarrow> v = JStr s \<and> printed_time s"
  by (auto simp: normalizeUtcMillis_def printed_time_def)

lemma version_Inr_iff: "normalizeVersion v = Inr n \<longleftrightarrow> v = jint 1 \<and> n = 1"
  by (auto simp: normalizeVersion_def)

lemma identifier_Inr_iff: "normalizeStrictIdentifier v f = Inr s \<longleftrightarrow> v = JStr s \<and> strict_text s"
  "normalizeStrictSiteId v f = Inr s \<longleftrightarrow> v = JStr s \<and> strict_text s"
  by (auto simp: normalizeStrictIdentifier_def normalizeStrictSiteId_def strict_text_def)

lemma count_Inr_iff: "normalizeNonNegativeSafeInteger v f = Inr n \<longleftrightarrow> v = jint n \<and> safe_nat n"
  "normalizeManifestIndex v = Inr n \<longleftrightarrow> v = jint n \<and> safe_nat n"
  by (auto simp: normalizeNonNegativeSafeInteger_def normalizeManifestIndex_def safe_nat_def)

lemma positive_Inr_iff: "normalizePositiveSafeInteger v f = Inr n \<longleftrightarrow> v = jint n \<and> 0 < n \<and> n \<le> max_safe"
  by (auto simp: normalizePositiveSafeInteger_def)

lemma string_Inr_iff: "normalizeString v f = Inr s \<longleftrightarrow> v = JStr s"
  "normalizeHash v f = Inr s \<longleftrightarrow> v = JStr s \<and> is_hash64 s"
  by (auto simp: normalizeString_def normalizeHash_def)

lemmas field_iffs = recipient_Inr_iff utc_Inr_iff version_Inr_iff identifier_Inr_iff count_Inr_iff
  positive_Inr_iff string_Inr_iff

lemma exact_keys:
  "expect_exact_keys (header_object h) HEADER_KEYS l = Inr ()"
  "expect_exact_keys (footer_object f) FOOTER_KEYS l = Inr ()"
  "expect_exact_keys (counts_object c) COUNT_KEYS l = Inr ()"
  "expect_exact_keys (batch_row_object b) BATCH_ROW_KEYS l = Inr ()"
  "expect_exact_keys (message_row_object m) MESSAGE_ROW_KEYS l = Inr ()"
  "expect_exact_keys (error_row_object e) ERROR_ROW_KEYS l = Inr ()"
  "expect_exact_keys (notification_row_object n) NOTIFICATION_ROW_KEYS l = Inr ()"
  "expect_exact_keys (record_object r) [''kind'', ''manifestIndex'', ''row''] l = Inr ()"
  "expect_exact_keys (verification_object w) VERIFICATION_RESULT_KEYS l = Inr ()"
  unfolding header_object_def footer_object_def counts_object_def batch_row_object_def message_row_object_def
    error_row_object_def notification_row_object_def record_object_def verification_object_def
    HEADER_KEYS_def FOOTER_KEYS_def COUNT_KEYS_def BATCH_ROW_KEYS_def MESSAGE_ROW_KEYS_def ERROR_ROW_KEYS_def
    NOTIFICATION_ROW_KEYS_def VERIFICATION_RESULT_KEYS_def
  by (rule expect_exact_keys_obj; simp)+

lemma header_props:
  "get_prop (header_object h) ''version'' = jint (eh_version h)"
  "get_prop (header_object h) ''siteId'' = JStr (eh_siteId h)"
  "get_prop (header_object h) ''cutoff'' = JStr (eh_cutoff h)"
  "get_prop (header_object h) ''policyVersion'' = jint (eh_policyVersion h)"
  "get_prop (header_object h) ''publicManifestHash'' = JStr (eh_publicManifestHash h)"
  "get_prop (header_object h) ''schemaFingerprint'' = JStr (eh_schemaFingerprint h)"
  "get_prop (header_object h) ''kind'' = JStr (lit ''header'')"
  "is_object_not_array (header_object h)"
  by (simp_all add: header_object_def)

lemma footer_props:
  "get_prop (footer_object f) ''counts'' = counts_object (ef_counts f)"
  "get_prop (footer_object f) ''contentHash'' = JStr (ef_contentHash f)"
  "get_prop (footer_object f) ''kind'' = JStr (lit ''footer'')"
  "is_object_not_array (footer_object f)"
  by (simp_all add: footer_object_def)

lemma counts_props:
  "get_prop (counts_object c) ''batches'' = jint (ec_batches c)"
  "get_prop (counts_object c) ''messages'' = jint (ec_messages c)"
  "get_prop (counts_object c) ''errors'' = jint (ec_errors c)"
  "get_prop (counts_object c) ''notifications'' = jint (ec_notifications c)"
  by (simp_all add: counts_object_def)

lemma record_props:
  "get_prop (record_object r) ''kind'' = JStr (lit (kind_text (record_kind r)))"
  "get_prop (record_object r) ''manifestIndex'' = jint (manifest_index r)"
  "get_prop (record_object r) ''row'' = row_object r"
  "is_object_not_array (record_object r)"
  by (simp_all add: record_object_def)

lemma header_Inr_iff:
  "normalizeEscrowHeader v = Inr h \<longleftrightarrow> expect_exact_keys v HEADER_KEYS ''header'' = Inr () \<and> header_ok h
     \<and> get_prop v ''version'' = jint (eh_version h) \<and> get_prop v ''siteId'' = JStr (eh_siteId h)
     \<and> get_prop v ''cutoff'' = JStr (eh_cutoff h) \<and> get_prop v ''policyVersion'' = jint (eh_policyVersion h)
     \<and> get_prop v ''publicManifestHash'' = JStr (eh_publicManifestHash h)
     \<and> get_prop v ''schemaFingerprint'' = JStr (eh_schemaFingerprint h)"
  by (cases h) (auto simp: normalizeEscrowHeader_def field_iffs header_ok_def)

lemma counts_Inr_iff:
  "normalize_counts v = Inr c \<longleftrightarrow> counts_ok c
     \<and> get_prop v ''batches'' = jint (ec_batches c) \<and> get_prop v ''messages'' = jint (ec_messages c)
     \<and> get_prop v ''errors'' = jint (ec_errors c) \<and> get_prop v ''notifications'' = jint (ec_notifications c)"
  by (cases c) (auto simp: normalize_counts_def field_iffs counts_ok_def)

lemma footer_Inr_iff:
  "normalizeEscrowFooter v = Inr f \<longleftrightarrow> expect_exact_keys v FOOTER_KEYS ''footer'' = Inr ()
     \<and> expect_exact_keys (get_prop v ''counts'') COUNT_KEYS ''footer counts'' = Inr () \<and> footer_ok f
     \<and> normalize_counts (get_prop v ''counts'') = Inr (ef_counts f)
     \<and> get_prop v ''contentHash'' = JStr (ef_contentHash f)"
  by (cases f) (auto simp: normalizeEscrowFooter_def field_iffs footer_ok_def counts_Inr_iff)

lemma normalize_header_object: "header_ok h \<Longrightarrow> normalizeEscrowHeader (header_object h) = Inr h"
  by (simp add: header_Inr_iff exact_keys header_props header_ok_def)

lemma normalize_footer_object: "footer_ok f \<Longrightarrow> normalizeEscrowFooter (footer_object f) = Inr f"
  by (simp add: footer_Inr_iff exact_keys footer_props counts_Inr_iff counts_props footer_ok_def)

lemma normalize_batch_row: "normalizeBatchRow v = Inr r \<Longrightarrow> row_ok (BatchRecord i r)"
  and normalize_message_row: "normalizeMessageRow v = Inr m \<Longrightarrow> row_ok (MessageRecord i m)"
  and normalize_error_row: "normalizeErrorRow v = Inr e \<Longrightarrow> row_ok (ErrorRecord i e)"
  and normalize_notification_row: "normalizeNotificationRow v = Inr n \<Longrightarrow> row_ok (NotificationRecord i n)"
  by (auto simp: normalizeBatchRow_def normalizeMessageRow_def normalizeErrorRow_def normalizeNotificationRow_def
      field_iffs)

lemma normalize_batch_row_object: "row_ok (BatchRecord i r) \<Longrightarrow> normalizeBatchRow (batch_row_object r) = Inr r"
  by (cases r) (simp add: normalizeBatchRow_def exact_keys field_iffs, simp add: batch_row_object_def)

lemma normalize_message_row_object: "row_ok (MessageRecord i r) \<Longrightarrow> normalizeMessageRow (message_row_object r) = Inr r"
  by (cases r) (simp add: normalizeMessageRow_def exact_keys field_iffs, simp add: message_row_object_def)

lemma normalize_error_row_object: "row_ok (ErrorRecord i r) \<Longrightarrow> normalizeErrorRow (error_row_object r) = Inr r"
  by (cases r) (simp add: normalizeErrorRow_def exact_keys field_iffs, simp add: error_row_object_def)

lemma normalize_notification_row_object:
  "row_ok (NotificationRecord i r) \<Longrightarrow> normalizeNotificationRow (notification_row_object r) = Inr r"
  by (cases r) (simp add: normalizeNotificationRow_def exact_keys field_iffs, simp add: notification_row_object_def)

lemma normalize_record_object: "escrow_record_ok r \<Longrightarrow> normalizeEscrowRecord (record_object r) = Inr r"
  by (cases r) (simp_all add: normalizeEscrowRecord_def exact_keys record_props Let_def escrow_record_ok_def
      count_Inr_iff normalize_batch_row_object normalize_message_row_object normalize_error_row_object
      normalize_notification_row_object)

lemma normalize_record_ok: "normalizeEscrowRecord v = Inr r \<Longrightarrow> escrow_record_ok r"
  by (auto simp: normalizeEscrowRecord_def Let_def escrow_record_ok_def count_Inr_iff
      dest: normalize_batch_row normalize_message_row normalize_error_row normalize_notification_row
      simp del: row_ok.simps split: if_splits)

section \<open>The canonical text is the printed object\<close>

lemma joinCanonicalObject_text:
  "list_all plain (map snd kvs) \<Longrightarrow> joinCanonicalObject (map (\<lambda>(k, v). (k, json_text v)) kvs) = json_text (obj kvs)"
  by (simp add: joinCanonicalObject_def json_text_obj lit_brackets member_text_def comp_def split_beta list_all_iff
      cong: map_cong)

lemma plain_nullable [simp]: "plain (nullable_string s)"
  by (cases s) (simp_all add: nullable_string_def)

lemma json_text_nullable: "json_text (nullable_string s) = stringify_nullable s"
  by (cases s) (simp_all add: nullable_string_def stringify_nullable_def json_text_simps json_literals)

lemma plain_rows: "plain (row_object r)"
  by (cases r) (simp_all add: batch_row_object_def message_row_object_def error_row_object_def notification_row_object_def)

lemma plain_jint: "plain (jint n) \<longleftrightarrow> \<bar>n\<bar> \<le> max_safe"
  by simp

lemma header_bounds: "header_ok h \<Longrightarrow> \<bar>eh_version h\<bar> \<le> max_safe \<and> \<bar>eh_policyVersion h\<bar> \<le> max_safe"
  by (auto simp: header_ok_def max_safe_def)

lemma safe_nat_bound: "safe_nat n \<Longrightarrow> \<bar>n\<bar> \<le> max_safe"
  by (simp add: safe_nat_def)

lemma plain_objects:
  "header_ok h \<Longrightarrow> plain (header_object h)"
  "counts_ok c \<Longrightarrow> plain (counts_object c)"
  "footer_ok f \<Longrightarrow> plain (footer_object f)"
  "escrow_record_ok r \<Longrightarrow> plain (record_object r)"
proof -
  show "plain (header_object h)" if "header_ok h" for h
    using header_bounds [OF that] by (simp add: header_object_def)
  show counts: "plain (counts_object c)" if "counts_ok c" for c
    using that by (simp add: counts_object_def counts_ok_def safe_nat_bound)
  show "plain (footer_object f)" if "footer_ok f" for f
    using that counts by (simp add: footer_object_def footer_ok_def)
  show "plain (record_object r)" if "escrow_record_ok r" for r
    using that by (simp add: record_object_def escrow_record_ok_def plain_rows safe_nat_bound)
qed

lemma header_line_text:
  assumes "header_ok h"
  shows "header_line h = json_text (header_object h)"
proof -
  note b = header_bounds [OF assms]
  have "list_all plain [JStr (lit ''header''), jint (eh_version h), JStr (eh_siteId h), JStr (eh_cutoff h),
      jint (eh_policyVersion h), JStr (eh_publicManifestHash h), JStr (eh_schemaFingerprint h)]"
    using b by simp
  then show ?thesis
    using joinCanonicalObject_text [of "[(''kind'', JStr (lit ''header'')), (''version'', jint (eh_version h)),
     (''siteId'', JStr (eh_siteId h)), (''cutoff'', JStr (eh_cutoff h)),
     (''policyVersion'', jint (eh_policyVersion h)),
     (''publicManifestHash'', JStr (eh_publicManifestHash h)),
     (''schemaFingerprint'', JStr (eh_schemaFingerprint h))]"] b
    by (simp add: header_line_def header_object_def json_text_simps)
qed

lemma counts_text:
  assumes "counts_ok c"
  shows "json_text (counts_object c) = joinCanonicalObject
     [(''batches'', stringifyNumber (ec_batches c)), (''messages'', stringifyNumber (ec_messages c)),
      (''errors'', stringifyNumber (ec_errors c)), (''notifications'', stringifyNumber (ec_notifications c))]"
proof -
  have b: "\<bar>ec_batches c\<bar> \<le> max_safe" "\<bar>ec_messages c\<bar> \<le> max_safe" "\<bar>ec_errors c\<bar> \<le> max_safe"
      "\<bar>ec_notifications c\<bar> \<le> max_safe"
    using assms by (simp_all add: counts_ok_def safe_nat_bound)
  then show ?thesis
    using joinCanonicalObject_text [of "[(''batches'', jint (ec_batches c)), (''messages'', jint (ec_messages c)),
     (''errors'', jint (ec_errors c)), (''notifications'', jint (ec_notifications c))]"]
    by (simp add: counts_object_def json_text_simps)
qed

lemma footer_line_text:
  assumes "footer_ok f"
  shows "footer_line f = json_text (footer_object f)"
proof -
  have c: "counts_ok (ef_counts f)" using assms by (simp add: footer_ok_def)
  then show ?thesis
    using joinCanonicalObject_text [of "[(''kind'', JStr (lit ''footer'')), (''counts'', counts_object (ef_counts f)),
     (''contentHash'', JStr (ef_contentHash f))]"] plain_objects(2) [OF c]
    by (simp add: footer_line_def footer_object_def json_text_simps counts_text)
qed

lemma row_text: "json_text (row_object r) = serializeRecordRow r"
proof (cases r)
  case (BatchRecord i b)
  then show ?thesis
    using joinCanonicalObject_text [of "[(''id'', JStr (br_id b)), (''siteId'', JStr (br_siteId b)),
     (''fromEmail'', JStr (br_fromEmail b)), (''contents'', JStr (br_contents b)),
     (''batchId'', JStr (br_batchId b)), (''created'', JStr (br_created b))]"]
    by (simp add: batch_row_object_def json_text_simps)
next
  case (MessageRecord i m)
  then show ?thesis
    using joinCanonicalObject_text [of "[(''id'', JStr (mr_id m)), (''messageId'', JStr (mr_messageId m)),
     (''toEmail'', JStr (mr_toEmail m)), (''newsletterBatchId'', JStr (mr_newsletterBatchId m)),
     (''created'', JStr (mr_created m)), (''formatedContents'', JStr (mr_formatedContents m)),
     (''recipientData'', nullable_string (mr_recipientData m))]"]
    by (simp add: message_row_object_def json_text_simps json_text_nullable)
next
  case (ErrorRecord i e)
  then show ?thesis
    using joinCanonicalObject_text [of "[(''id'', JStr (xr_id e)), (''toEmail'', JStr (xr_toEmail e)),
     (''error'', JStr (xr_error e)), (''created'', JStr (xr_created e)),
     (''newsletterBatchId'', JStr (xr_newsletterBatchId e)), (''messageId'', JStr (xr_messageId e)),
     (''formatedContents'', JStr (xr_formatedContents e)),
     (''recipientData'', nullable_string (xr_recipientData e))]"]
    by (simp add: error_row_object_def json_text_simps json_text_nullable)
next
  case (NotificationRecord i n)
  then show ?thesis
    using joinCanonicalObject_text [of "[(''id'', JStr (nr_id n)), (''type'', JStr (nr_type n)),
     (''notificationId'', JStr (nr_notificationId n)), (''messageId'', JStr (nr_messageId n)),
     (''rawEvent'', JStr (nr_rawEvent n)), (''timestamp'', JStr (nr_timestamp n)),
     (''created'', JStr (nr_created n))]"]
    by (simp add: notification_row_object_def json_text_simps)
qed

lemma record_line_text:
  assumes "escrow_record_ok r"
  shows "record_line r = json_text (record_object r)"
proof -
  have b: "\<bar>manifest_index r\<bar> \<le> max_safe" using assms by (simp add: escrow_record_ok_def safe_nat_bound)
  then show ?thesis
    using joinCanonicalObject_text [of "[(''kind'', JStr (lit (kind_text (record_kind r)))),
     (''manifestIndex'', jint (manifest_index r)), (''row'', row_object r)]"] plain_rows [of r]
    by (simp add: record_line_def record_object_def json_text_simps row_text)
qed

section \<open>Reading back what was written\<close>

lemma json_text_nonempty: "plain v \<Longrightarrow> json_text v \<noteq> []"
  using json_text_head by blast

lemma parse_header_line: "header_ok h \<Longrightarrow> parseEscrowLine (header_line h) = Inr (HeaderLine h)"
  by (simp add: parseEscrowLine_def header_line_text json_text_nonempty plain_objects unique_keys_text
      json_parse_text header_props normalize_header_object)

lemma parse_footer_line: "footer_ok f \<Longrightarrow> parseEscrowLine (footer_line f) = Inr (FooterLine f)"
  by (simp add: parseEscrowLine_def footer_line_text json_text_nonempty plain_objects unique_keys_text
      json_parse_text footer_props normalize_footer_object)

lemma parse_record_line: "escrow_record_ok r \<Longrightarrow> parseEscrowLine (record_line r) = Inr (RecordLine r)"
  by (cases "record_kind r")
    (simp_all add: parseEscrowLine_def record_line_text json_text_nonempty plain_objects unique_keys_text
      json_parse_text record_props normalize_record_object)

fun line_ok :: "escrow_line \<Rightarrow> bool" where
  "line_ok (HeaderLine h) = header_ok h"
| "line_ok (FooterLine f) = footer_ok f"
| "line_ok (RecordLine r) = escrow_record_ok r"

fun line_text :: "escrow_line \<Rightarrow> jstr" where
  "line_text (HeaderLine h) = header_line h"
| "line_text (FooterLine f) = footer_line f"
| "line_text (RecordLine r) = record_line r"

lemma parse_line_text: "line_ok l \<Longrightarrow> parseEscrowLine (line_text l) = Inr l"
  by (cases l) (simp_all add: parse_header_line parse_footer_line parse_record_line)

lemma parse_line_ok: "parseEscrowLine t = Inr l \<Longrightarrow> line_ok l"
  by (auto simp: parseEscrowLine_def header_Inr_iff footer_Inr_iff split: option.splits if_splits
      dest: normalize_record_ok)

lemma line_text_object: "line_ok l \<Longrightarrow> \<exists>v. plain v \<and> is_object_not_array v \<and> line_text l = json_text v"
  by (cases l) (auto simp: header_line_text footer_line_text record_line_text
      intro: plain_objects header_props(8) footer_props(4) record_props(4))

lemma line_text_brace: "line_ok l \<Longrightarrow> \<exists>t. line_text l = 123 # t"
  by (cases l) (simp_all add: header_line_def footer_line_def record_line_def joinCanonicalObject_def lit_brackets)

lemma line_text_well_formed: "line_ok l \<Longrightarrow> well_formed_utf16 (line_text l)"
  using line_text_object json_text_well_formed by fastforce

lemma utf8_encode_brace: "utf8_encode (123 # t) = 123 # utf8_encode t"
proof -
  have "byte_of 123 = 123" by (simp add: byte_of_def)
  then show ?thesis
    by (cases t) (simp_all add: is_high_surrogate_def is_low_surrogate_def code_point_bytes_def)
qed

lemma decode_line: "line_ok l \<Longrightarrow> utf8_decode (utf8_encode (line_text l)) = Some (line_text l)"
proof -
  assume ok: "line_ok l"
  then obtain t where "line_text l = 123 # t" using line_text_brace by blast
  then have "take 3 (utf8_encode (line_text l)) \<noteq> utf8_bom"
    by (simp add: utf8_encode_brace utf8_bom_def take_Cons')
  then show ?thesis
    using utf8_units_encode [OF line_text_well_formed [OF ok]] by (simp add: utf8_decode_def)
qed

definition verification_ok :: "verification_result \<Rightarrow> bool" where
  "verification_ok r \<longleftrightarrow> vr_version r = 1 \<and> strict_text (vr_siteId r) \<and> printed_time (vr_cutoff r)
     \<and> 0 < vr_policyVersion r \<and> vr_policyVersion r \<le> max_safe \<and> is_hash64 (vr_publicManifestHash r)
     \<and> is_hash64 (vr_schemaFingerprint r) \<and> is_hash64 (vr_contentHash r) \<and> counts_ok (vr_counts r)"

lemma verification_of_ok: "header_ok h \<Longrightarrow> footer_ok f \<Longrightarrow> verification_ok (verification_of h f)"
  by (simp add: verification_ok_def verification_of_def header_ok_def footer_ok_def)

lemma parse_verification_ok:
  "parseNewsletterRetentionEscrowVerificationResult v = Inr r \<Longrightarrow> verification_ok r"
  by (auto simp: parseNewsletterRetentionEscrowVerificationResult_def header_Inr_iff footer_Inr_iff
      intro: verification_of_ok)

lemma verification_props:
  "get_prop (verification_object r) ''version'' = jint (vr_version r)"
  "get_prop (verification_object r) ''siteId'' = JStr (vr_siteId r)"
  "get_prop (verification_object r) ''cutoff'' = JStr (vr_cutoff r)"
  "get_prop (verification_object r) ''policyVersion'' = jint (vr_policyVersion r)"
  "get_prop (verification_object r) ''publicManifestHash'' = JStr (vr_publicManifestHash r)"
  "get_prop (verification_object r) ''schemaFingerprint'' = JStr (vr_schemaFingerprint r)"
  "get_prop (verification_object r) ''contentHash'' = JStr (vr_contentHash r)"
  "get_prop (verification_object r) ''counts'' = counts_object (vr_counts r)"
  by (simp_all add: verification_object_def)

lemma plain_verification_object:
  assumes "verification_ok r"
  shows "plain (verification_object r)"
proof -
  have "\<bar>vr_version r\<bar> \<le> max_safe" "\<bar>vr_policyVersion r\<bar> \<le> max_safe" "plain (counts_object (vr_counts r))"
    using assms by (simp_all add: verification_ok_def max_safe_def plain_objects)
  then show ?thesis by (simp add: verification_object_def)
qed

text \<open>Up to the order of members, a verification result is determined by its object.\<close>

lemma verification_object_inject:
  assumes "verification_ok r" "verification_ok r'"
    and "sort_members (verification_object r) = sort_members (verification_object r')"
  shows "r = r'"
proof -
  have eq: "sort_members (get_prop (verification_object r) k) = sort_members (get_prop (verification_object r') k)" for k
    using assms(3) by (simp flip: get_prop_sort_members add: plain_verification_object assms(1,2))
  have counts: "plain (counts_object (vr_counts r))" "plain (counts_object (vr_counts r'))"
    using assms(1,2) by (simp_all add: plain_objects verification_ok_def)
  have "sort_members (counts_object (vr_counts r)) = sort_members (counts_object (vr_counts r'))"
    using eq [of "''counts''"] by (simp only: verification_props)
  then have count_eq: "sort_members (get_prop (counts_object (vr_counts r)) k)
      = sort_members (get_prop (counts_object (vr_counts r')) k)" for k
    by (simp flip: get_prop_sort_members add: counts)
  have "vr_counts r = vr_counts r'"
    using count_eq [of "''batches''"] count_eq [of "''messages''"] count_eq [of "''errors''"]
      count_eq [of "''notifications''"]
    by (cases "vr_counts r"; cases "vr_counts r'") (simp add: counts_object_def)
  then show ?thesis
    using eq [of "''version''"] eq [of "''siteId''"] eq [of "''cutoff''"] eq [of "''policyVersion''"]
      eq [of "''publicManifestHash''"] eq [of "''schemaFingerprint''"] eq [of "''contentHash''"]
    unfolding verification_props sort_members.simps js.inject jnum.inject of_int_eq_iff
    by (cases r; cases r') simp
qed

lemma parse_verification_object:
  assumes "verification_ok r"
  shows "parseNewsletterRetentionEscrowVerificationResult (verification_object r) = Inr r"
proof -
  let ?h = "\<lparr>eh_version = vr_version r, eh_siteId = vr_siteId r, eh_cutoff = vr_cutoff r,
    eh_policyVersion = vr_policyVersion r, eh_publicManifestHash = vr_publicManifestHash r,
    eh_schemaFingerprint = vr_schemaFingerprint r\<rparr>"
  let ?f = "\<lparr>ef_counts = vr_counts r, ef_contentHash = vr_contentHash r\<rparr>"
  have "header_ok ?h" "footer_ok ?f" using assms by (simp_all add: verification_ok_def header_ok_def footer_ok_def)
  then have "normalizeEscrowHeader (header_object ?h) = Inr ?h" "normalizeEscrowFooter (footer_object ?f) = Inr ?f"
    by (simp_all only: normalize_header_object normalize_footer_object)
  then show ?thesis
    unfolding parseNewsletterRetentionEscrowVerificationResult_def exact_keys bindE_simps verification_props
    by (simp add: header_object_def footer_object_def verification_of_def)
qed

definition example_hash :: jstr where
  "example_hash = replicate 64 97"

lemma example_hash_ok: "is_hash64 example_hash"
  by (simp add: example_hash_def is_hash64_def is_lower_hex_def list_all_iff)

definition example_header :: escrow_header where
  "example_header = \<lparr>eh_version = 1, eh_siteId = lit ''site'', eh_cutoff = to_iso 0, eh_policyVersion = 1,
     eh_publicManifestHash = example_hash, eh_schemaFingerprint = example_hash\<rparr>"

lemma example_header_ok: "header_ok example_header"
proof -
  have "in_iso_range 0" by code_simp
  moreover have "trim (lit ''site'') = lit ''site''"
    by (simp add: trim_idem_iff) (simp add: lit_def is_ws_def)
  ultimately show ?thesis
    by (auto simp: header_ok_def example_header_def strict_text_def printed_time_def example_hash_ok max_safe_def)
qed

section \<open>Properties\<close>

text \<open>
  C24: a canonical line reads back as what it was printed from. Exactly the well-formed headers,
  records and footers have a printed line that passes the duplicate-key scan, parses, and gives that
  item again; and the line survives the way through UTF-8 bytes.
\<close>

theorem escrow_line_roundtrip:
  "(parseEscrowLine (line_text l) = Inr l \<longleftrightarrow> line_ok l)
   \<and> (line_ok l \<longrightarrow> utf8_decode (utf8_encode (line_text l)) = Some (line_text l))"
  using parse_line_text parse_line_ok decode_line by blast

lemma escrow_line_roundtrip_witness:
  "parseEscrowLine (header_line example_header) = Inr (HeaderLine example_header)
   \<and> utf8_decode (utf8_encode (header_line example_header)) = Some (header_line example_header)"
  using escrow_line_roundtrip [of "HeaderLine example_header"] by (simp add: example_header_ok)

end
