(* ===== verification/EscrowAccumulator.thy ===== *)
theory EscrowAccumulator
  imports EscrowFormat
begin

text \<open>
  The streaming verifier of an escrow file (\<^verbatim>\<open>NewsletterRetentionEscrowAccumulatorState\<close> in
  service/newsletter-retention-escrow.ts): a state machine fed one line at a time. A line that
  throws leaves the accumulator failed for good; what a failing line had already changed is not
  kept in the model, since a failed accumulator refuses every further line and nothing else is read
  from it. SHA-256 is the parameter \<open>sha\<close> applied to the text hashed so far.
\<close>

section \<open>State\<close>

datatype escrow_phase = AwaitHeader | ParentPhase | MessagesPhase | ErrorsPhase | NotificationsPhase | FooterReady

record accumulator =
  ac_lineBytesLimit :: int
  ac_totalBytesLimit :: int
  ac_recordLimit :: int
  ac_batchLimit :: int
  ac_messageLimit :: int
  ac_hashed :: jstr
  ac_totalBytes :: int
  ac_totalRecords :: int
  ac_seenFooter :: bool
  ac_failed :: bool
  ac_resolved :: "verification_result option"
  ac_header :: "escrow_header option"
  ac_counts :: escrow_counts
  ac_manifestIndex :: int
  ac_phase :: escrow_phase
  ac_lastIds :: "escrow_kind \<Rightarrow> jstr option"
  ac_seenRowIds :: "escrow_kind \<Rightarrow> jstr set"
  ac_seenMessageIds :: "jstr set"
  ac_seenErrorMessageIds :: "jstr set"
  ac_seenNotificationIds :: "jstr set"
  ac_currentBatchId :: "jstr option"
  ac_currentMessageIds :: "jstr set"

record accumulator_options =
  op_lineBytesLimit :: js
  op_totalBytesLimit :: js
  op_recordLimit :: js
  op_batchLimit :: js
  op_messageLimit :: js

definition normalizeEscrowLimit :: "js \<Rightarrow> int \<Rightarrow> string \<Rightarrow> int res" where
  "normalizeEscrowLimit v fallback field =
     (if v = JUndef then Inr fallback
      else bindE (safe_positive v (Error (field @ '' must be a positive safe integer within the hard limit''))) (\<lambda>n.
        if n > fallback then Inl (Error (field @ '' must be a positive safe integer within the hard limit''))
        else Inr n))"

definition MAX_LINE_BYTES :: int where "MAX_LINE_BYTES = 16777216"
definition MAX_TOTAL_BYTES :: int where "MAX_TOTAL_BYTES = 536870912"
definition MAX_RECORDS :: int where "MAX_RECORDS = 250000"
definition MAX_BATCHES :: int where "MAX_BATCHES = 100"
definition MAX_MESSAGES :: int where "MAX_MESSAGES = 100000"

definition no_counts :: escrow_counts where
  "no_counts = \<lparr>ec_batches = 0, ec_messages = 0, ec_errors = 0, ec_notifications = 0\<rparr>"

definition fresh_accumulator :: "int \<Rightarrow> int \<Rightarrow> int \<Rightarrow> int \<Rightarrow> int \<Rightarrow> accumulator" where
  "fresh_accumulator line totalBytes records batches messages =
     \<lparr>ac_lineBytesLimit = line, ac_totalBytesLimit = totalBytes, ac_recordLimit = records,
      ac_batchLimit = batches, ac_messageLimit = messages, ac_hashed = [], ac_totalBytes = 0,
      ac_totalRecords = 0, ac_seenFooter = False, ac_failed = False, ac_resolved = None,
      ac_header = None, ac_counts = no_counts, ac_manifestIndex = -1, ac_phase = AwaitHeader,
      ac_lastIds = (\<lambda>_. None), ac_seenRowIds = (\<lambda>_. {}), ac_seenMessageIds = {},
      ac_seenErrorMessageIds = {}, ac_seenNotificationIds = {}, ac_currentBatchId = None,
      ac_currentMessageIds = {}\<rparr>"

definition createNewsletterRetentionEscrowAccumulator :: "accumulator_options \<Rightarrow> accumulator res" where
  "createNewsletterRetentionEscrowAccumulator opts =
     bindE (normalizeEscrowLimit (op_lineBytesLimit opts) MAX_LINE_BYTES ''lineBytesLimit'') (\<lambda>line.
     bindE (normalizeEscrowLimit (op_totalBytesLimit opts) MAX_TOTAL_BYTES ''totalBytesLimit'') (\<lambda>total.
     bindE (normalizeEscrowLimit (op_recordLimit opts) MAX_RECORDS ''recordLimit'') (\<lambda>records.
     bindE (normalizeEscrowLimit (op_batchLimit opts) MAX_BATCHES ''batchLimit'') (\<lambda>batches.
     bindE (normalizeEscrowLimit (op_messageLimit opts) MAX_MESSAGES ''messageLimit'') (\<lambda>messages.
       Inr (fresh_accumulator line total records batches messages))))))"

section \<open>Lines and bounded counters\<close>

datatype raw_line = TextLine jstr | ByteLine "byte list" | OtherLine

definition normalizeRawLine :: "raw_line \<Rightarrow> (jstr \<times> int) res" where
  "normalizeRawLine l = (case l of
     TextLine t \<Rightarrow> Inr (t, utf8_length t)
   | OtherLine \<Rightarrow> Inl (Error ''escrow line must be a string or Uint8Array'')
   | ByteLine bs \<Rightarrow> (case utf8_decode bs of
       None \<Rightarrow> Inl (Error ''escrow line must be valid UTF-8'')
     | Some t \<Rightarrow> Inr (t, int (length bs))))"

definition addSafeInteger :: "int \<Rightarrow> int \<Rightarrow> int \<Rightarrow> string \<Rightarrow> int res" where
  "addSafeInteger current increment hi message =
     (if \<bar>current\<bar> > max_safe \<or> \<bar>increment\<bar> > max_safe \<or> \<bar>hi\<bar> > max_safe then Inl (Error message)
      else if \<bar>current + increment\<bar> > max_safe \<or> current + increment > hi then Inl (Error message)
      else Inr (current + increment))"

section \<open>Checks on records\<close>

definition phaseRank :: "escrow_phase \<Rightarrow> nat" where
  "phaseRank p = (case p of ParentPhase \<Rightarrow> 0 | MessagesPhase \<Rightarrow> 1 | ErrorsPhase \<Rightarrow> 2
     | NotificationsPhase \<Rightarrow> 3 | _ \<Rightarrow> 4)"

definition kindRank :: "escrow_kind \<Rightarrow> nat" where
  "kindRank k = (case k of NewsletterBatch \<Rightarrow> 0 | NewsletterMessages \<Rightarrow> 1 | NewsletterErrors \<Rightarrow> 2
     | NewsletterNotifications \<Rightarrow> 3)"

definition assertKindOrder :: "escrow_kind \<Rightarrow> accumulator \<Rightarrow> unit res" where
  "assertKindOrder k st =
     (if kindRank k < phaseRank (ac_phase st)
      then Inl (Error ''record order must be parent, messages, errors, notifications'') else Inr ())"

definition ensureCurrentManifestIndex :: "int \<Rightarrow> accumulator \<Rightarrow> unit res" where
  "ensureCurrentManifestIndex i st =
     (if i \<noteq> ac_manifestIndex st then Inl (Error ''manifestIndex must be sequential starting at 0'') else Inr ())"

definition ensureBatchExists :: "escrow_kind \<Rightarrow> accumulator \<Rightarrow> unit res" where
  "ensureBatchExists k st =
     (if ac_currentBatchId st = None \<or> ac_currentBatchId st = Some []
      then Inl (Error (kind_text k @ '' must follow a parent row'')) else Inr ())"

definition assertAscendingId :: "escrow_kind \<Rightarrow> jstr \<Rightarrow> accumulator \<Rightarrow> accumulator res" where
  "assertAscendingId k i st = (case ac_lastIds st k of
     Some previous \<Rightarrow> if previous \<ge> i then Inl (Error ''record ids must be sorted by kind'')
                      else Inr (st\<lparr>ac_lastIds := (ac_lastIds st)(k := Some i)\<rparr>)
   | None \<Rightarrow> Inr (st\<lparr>ac_lastIds := (ac_lastIds st)(k := Some i)\<rparr>))"

definition assertUniqueRowId :: "escrow_kind \<Rightarrow> jstr \<Rightarrow> accumulator \<Rightarrow> accumulator res" where
  "assertUniqueRowId k i st =
     (if i \<in> ac_seenRowIds st k then Inl (Error ''row id must be unique within its model'')
      else Inr (st\<lparr>ac_seenRowIds := (ac_seenRowIds st)(k := insert i (ac_seenRowIds st k))\<rparr>))"

definition assertUniqueMessageId :: "jstr \<Rightarrow> accumulator \<Rightarrow> accumulator res" where
  "assertUniqueMessageId i st =
     (if i \<in> ac_seenMessageIds st then Inl (Error ''messageId must be unique within newsletterMessages'')
      else Inr (st\<lparr>ac_seenMessageIds := insert i (ac_seenMessageIds st)\<rparr>))"

definition assertUniqueErrorMessageId :: "jstr \<Rightarrow> accumulator \<Rightarrow> accumulator res" where
  "assertUniqueErrorMessageId i st =
     (if i \<in> ac_seenErrorMessageIds st then Inl (Error ''messageId must be unique within newsletterErrors'')
      else Inr (st\<lparr>ac_seenErrorMessageIds := insert i (ac_seenErrorMessageIds st)\<rparr>))"

definition assertUniqueNotificationId :: "jstr \<Rightarrow> accumulator \<Rightarrow> accumulator res" where
  "assertUniqueNotificationId i st =
     (if i \<in> ac_seenNotificationIds st then Inl (Error ''notificationId must be unique'')
      else Inr (st\<lparr>ac_seenNotificationIds := insert i (ac_seenNotificationIds st)\<rparr>))"

definition startManifest :: "int \<Rightarrow> accumulator \<Rightarrow> accumulator" where
  "startManifest i st = st\<lparr>ac_manifestIndex := i, ac_phase := ParentPhase, ac_lastIds := (\<lambda>_. None),
     ac_currentMessageIds := {}, ac_currentBatchId := None\<rparr>"

section \<open>Consuming a record\<close>

definition header_siteId :: "accumulator \<Rightarrow> jstr option" where
  "header_siteId st = map_option eh_siteId (ac_header st)"

definition consumeBatchRecord :: "int \<Rightarrow> batch_row \<Rightarrow> accumulator \<Rightarrow> accumulator res" where
  "consumeBatchRecord i r st =
     (if ac_phase st \<noteq> ParentPhase then Inl (Error ''manifestIndex must contain a parent row first'')
      else bindE (ensureCurrentManifestIndex i st) (\<lambda>_.
           bindE (assertKindOrder NewsletterBatch st) (\<lambda>_.
           bindE (assertAscendingId NewsletterBatch (br_id r) st) (\<lambda>st.
           bindE (assertUniqueRowId NewsletterBatch (br_id r) st) (\<lambda>st.
             if Some (br_siteId r) \<noteq> header_siteId st then Inl (Error ''batch siteId must match escrow siteId'')
             else bindE (addSafeInteger (ec_batches (ac_counts st)) 1 (ac_batchLimit st) ''batch limit exceeded'') (\<lambda>n.
               Inr (st\<lparr>ac_currentBatchId := Some (br_id r), ac_phase := MessagesPhase,
                       ac_counts := (ac_counts st)\<lparr>ec_batches := n\<rparr>\<rparr>)))))))"

definition consumeMessageRecord :: "int \<Rightarrow> message_row \<Rightarrow> accumulator \<Rightarrow> accumulator res" where
  "consumeMessageRecord i r st =
     bindE (ensureBatchExists NewsletterMessages st) (\<lambda>_.
     bindE (ensureCurrentManifestIndex i st) (\<lambda>_.
     bindE (assertKindOrder NewsletterMessages st) (\<lambda>_.
     bindE (assertAscendingId NewsletterMessages (mr_id r) st) (\<lambda>st.
       if Some (mr_newsletterBatchId r) \<noteq> ac_currentBatchId st
       then Inl (Error ''newsletterBatchId must match the current parent row'')
       else
         bindE (assertUniqueRowId NewsletterMessages (mr_id r) st) (\<lambda>st.
         bindE (assertUniqueMessageId (mr_messageId r) st) (\<lambda>st.
         bindE (addSafeInteger (ec_messages (ac_counts st)) 1 (ac_messageLimit st) ''message limit exceeded'') (\<lambda>n.
           Inr (st\<lparr>ac_currentMessageIds := insert (mr_messageId r) (ac_currentMessageIds st),
                   ac_phase := MessagesPhase, ac_counts := (ac_counts st)\<lparr>ec_messages := n\<rparr>\<rparr>))))))))"

definition consumeErrorRecord :: "int \<Rightarrow> error_row \<Rightarrow> accumulator \<Rightarrow> accumulator res" where
  "consumeErrorRecord i r st =
     bindE (ensureBatchExists NewsletterErrors st) (\<lambda>_.
     bindE (ensureCurrentManifestIndex i st) (\<lambda>_.
     bindE (assertKindOrder NewsletterErrors st) (\<lambda>_.
     bindE (assertAscendingId NewsletterErrors (xr_id r) st) (\<lambda>st.
       if Some (xr_newsletterBatchId r) \<noteq> ac_currentBatchId st
       then Inl (Error ''newsletterBatchId must match the current parent row'')
       else
         bindE (assertUniqueRowId NewsletterErrors (xr_id r) st) (\<lambda>st.
         bindE (assertUniqueErrorMessageId (xr_messageId r) st) (\<lambda>st.
         bindE (addSafeInteger (ec_errors (ac_counts st)) 1 max_safe ''escrow count overflow'') (\<lambda>n.
           Inr (st\<lparr>ac_phase := ErrorsPhase, ac_counts := (ac_counts st)\<lparr>ec_errors := n\<rparr>\<rparr>))))))))"

definition consumeNotificationRecord :: "int \<Rightarrow> notification_row \<Rightarrow> accumulator \<Rightarrow> accumulator res" where
  "consumeNotificationRecord i r st =
     bindE (ensureBatchExists NewsletterNotifications st) (\<lambda>_.
     bindE (ensureCurrentManifestIndex i st) (\<lambda>_.
     bindE (assertKindOrder NewsletterNotifications st) (\<lambda>_.
     bindE (assertAscendingId NewsletterNotifications (nr_id r) st) (\<lambda>st.
       if nr_messageId r \<notin> ac_currentMessageIds st
       then Inl (Error ''notification.messageId must reference a message row'')
       else
         bindE (assertUniqueRowId NewsletterNotifications (nr_id r) st) (\<lambda>st.
         bindE (assertUniqueNotificationId (nr_notificationId r) st) (\<lambda>st.
         bindE (addSafeInteger (ec_notifications (ac_counts st)) 1 max_safe ''escrow count overflow'') (\<lambda>n.
           Inr (st\<lparr>ac_phase := NotificationsPhase, ac_counts := (ac_counts st)\<lparr>ec_notifications := n\<rparr>\<rparr>))))))))"

text \<open>The manifest index moves on with a parent row only, one at a time from 0.\<close>

definition enter_manifest :: "escrow_record \<Rightarrow> accumulator \<Rightarrow> accumulator res" where
  "enter_manifest r st =
     (if ac_manifestIndex st = -1 then
        (if manifest_index r \<noteq> 0 then Inl (Error ''manifestIndex must be sequential starting at 0'')
         else if record_kind r \<noteq> NewsletterBatch
         then Inl (Error ''manifestIndex must contain a parent row first'')
         else Inr (startManifest (manifest_index r) st))
      else if manifest_index r = ac_manifestIndex st + 1 then
        (if record_kind r \<noteq> NewsletterBatch
         then Inl (Error ''manifestIndex must be sequential starting at 0'')
         else Inr (startManifest (manifest_index r) st))
      else if manifest_index r \<noteq> ac_manifestIndex st
      then Inl (Error ''manifestIndex must be sequential starting at 0'')
      else Inr st)"

definition consumeRecord :: "escrow_record \<Rightarrow> accumulator \<Rightarrow> accumulator res" where
  "consumeRecord r st =
     (if ac_header st = None then Inl (Error ''header must appear before records'')
      else bindE (enter_manifest r st) (\<lambda>st.
        case r of
          BatchRecord i b \<Rightarrow> consumeBatchRecord i b st
        | MessageRecord i m \<Rightarrow> consumeMessageRecord i m st
        | ErrorRecord i e \<Rightarrow> consumeErrorRecord i e st
        | NotificationRecord i n \<Rightarrow> consumeNotificationRecord i n st))"

section \<open>Consuming a line\<close>

definition consumeHeader :: "escrow_header \<Rightarrow> accumulator \<Rightarrow> accumulator res" where
  "consumeHeader h st =
     (if ac_header st \<noteq> None then Inl (Error ''header must appear exactly once'')
      else Inr (st\<lparr>ac_header := Some h, ac_phase := ParentPhase\<rparr>))"

definition consumeFooter :: "(jstr \<Rightarrow> jstr) \<Rightarrow> escrow_footer \<Rightarrow> accumulator \<Rightarrow> verification_result res" where
  "consumeFooter sha f st = (case ac_header st of
     None \<Rightarrow> Inl (Error ''header must appear before footer'')
   | Some h \<Rightarrow>
       if ef_counts f \<noteq> ac_counts st then Inl (Error ''footer counts must match observed counts'')
       else if ef_contentHash f \<noteq> sha (ac_hashed st)
       then Inl (Error ''footer contentHash must match observed content'')
       else Inr \<lparr>vr_version = eh_version h, vr_siteId = eh_siteId h, vr_cutoff = eh_cutoff h,
                 vr_policyVersion = eh_policyVersion h, vr_publicManifestHash = eh_publicManifestHash h,
                 vr_schemaFingerprint = eh_schemaFingerprint h, vr_contentHash = sha (ac_hashed st),
                 vr_counts = ac_counts st\<rparr>)"

definition updateHash :: "jstr \<Rightarrow> accumulator \<Rightarrow> accumulator" where
  "updateHash t st = st\<lparr>ac_hashed := ac_hashed st @ t @ [10]\<rparr>"

definition noncanonical :: exn where
  "noncanonical = Error ''escrow line must use canonical encoding''"

definition consumeLine ::
  "(jstr \<Rightarrow> jstr) \<Rightarrow> raw_line \<Rightarrow> accumulator \<Rightarrow> (verification_result option \<times> accumulator) res" where
  "consumeLine sha l st =
     (if ac_seenFooter st then Inl (Error ''records after footer are not allowed'')
      else bindE (normalizeRawLine l) (\<lambda>(t, byteLength).
        if byteLength > ac_lineBytesLimit st then Inl (Error ''escrow line exceeds byte limit'')
        else
          bindE (addSafeInteger (ac_totalBytes st) (byteLength + 1) (ac_totalBytesLimit st)
                   ''escrow byte budget exceeded'') (\<lambda>bytes.
            let st1 = st\<lparr>ac_totalBytes := bytes\<rparr> in
            bindE (parseEscrowLine t) (\<lambda>parsed. case parsed of
              HeaderLine h \<Rightarrow>
                bindE (serializeNewsletterRetentionEscrowHeader (header_object h)) (\<lambda>canonical.
                  if t \<noteq> canonical then Inl noncanonical
                  else bindE (consumeHeader h st1) (\<lambda>st2. Inr (None, updateHash canonical st2)))
            | FooterLine f \<Rightarrow>
                bindE (serializeNewsletterRetentionEscrowFooter (footer_object f)) (\<lambda>canonical.
                  if t \<noteq> canonical then Inl noncanonical
                  else bindE (consumeFooter sha f st1) (\<lambda>result.
                    Inr (Some result, st1\<lparr>ac_seenFooter := True, ac_resolved := Some result\<rparr>)))
            | RecordLine r \<Rightarrow>
                bindE (addSafeInteger (ac_totalRecords st1) 1 (ac_recordLimit st1) ''escrow record limit exceeded'')
                  (\<lambda>records.
                bindE (serializeNewsletterRetentionEscrowRecord (record_object r)) (\<lambda>canonical.
                  if t \<noteq> canonical then Inl noncanonical
                  else bindE (consumeRecord r (st1\<lparr>ac_totalRecords := records\<rparr>)) (\<lambda>st2.
                    Inr (None, updateHash canonical st2))))))))"

definition consume ::
  "(jstr \<Rightarrow> jstr) \<Rightarrow> raw_line \<Rightarrow> accumulator \<Rightarrow> verification_result option res \<times> accumulator" where
  "consume sha l st =
     (if ac_failed st then (Inl (Error ''escrow accumulator is failed''), st)
      else (case consumeLine sha l st of
              Inl e \<Rightarrow> (Inl e, st\<lparr>ac_failed := True\<rparr>)
            | Inr (result, st') \<Rightarrow> (Inr result, st')))"

definition finalize :: "accumulator \<Rightarrow> verification_result res" where
  "finalize st = (case ac_resolved st of
     Some result \<Rightarrow> Inr result
   | None \<Rightarrow> Inl (Error ''escrow footer is required''))"

end
