(* ===== verification/EscrowStream.thy ===== *)
theory EscrowStream
  imports EscrowAccumulator
begin

text \<open>
  What the accumulator accepts, said without its state: an escrow file is a header, the records of
  whole batches in manifest order, and a footer. The batches are data (\<open>escrow_batch\<close>), their
  validity a predicate on them, and \<open>state_after\<close> is the accumulator that has read them.
\<close>

section \<open>Batches and their records\<close>

record escrow_batch =
  eb_row :: batch_row
  eb_messages :: "message_row list"
  eb_errors :: "error_row list"
  eb_notifications :: "notification_row list"

definition batch_records :: "int \<Rightarrow> escrow_batch \<Rightarrow> escrow_record list" where
  "batch_records i b = BatchRecord i (eb_row b) # map (MessageRecord i) (eb_messages b)
     @ map (ErrorRecord i) (eb_errors b) @ map (NotificationRecord i) (eb_notifications b)"

fun all_records :: "int \<Rightarrow> escrow_batch list \<Rightarrow> escrow_record list" where
  "all_records i [] = []"
| "all_records i (b # bs) = batch_records i b @ all_records (i + 1) bs"

definition batch_message_ids :: "escrow_batch \<Rightarrow> jstr list" where
  "batch_message_ids b = map mr_messageId (eb_messages b)"

definition row_ids :: "escrow_kind \<Rightarrow> escrow_batch \<Rightarrow> jstr list" where
  "row_ids k b = (case k of
     NewsletterBatch \<Rightarrow> [br_id (eb_row b)]
   | NewsletterMessages \<Rightarrow> map mr_id (eb_messages b)
   | NewsletterErrors \<Rightarrow> map xr_id (eb_errors b)
   | NewsletterNotifications \<Rightarrow> map nr_id (eb_notifications b))"

text \<open>Rows sorted strictly by id, children of their parent, notifications of their messages.\<close>

definition batch_valid :: "jstr \<Rightarrow> escrow_batch \<Rightarrow> bool" where
  "batch_valid siteId b \<longleftrightarrow> br_siteId (eb_row b) = siteId \<and> br_id (eb_row b) \<noteq> []
     \<and> (\<forall>k. sorted_wrt (<) (row_ids k b))
     \<and> (\<forall>m \<in> set (eb_messages b). mr_newsletterBatchId m = br_id (eb_row b))
     \<and> (\<forall>e \<in> set (eb_errors b). xr_newsletterBatchId e = br_id (eb_row b))
     \<and> (\<forall>n \<in> set (eb_notifications b). nr_messageId n \<in> set (batch_message_ids b))"

definition ids_unique :: "escrow_batch list \<Rightarrow> bool" where
  "ids_unique bs \<longleftrightarrow> (\<forall>k. distinct (concat (map (row_ids k) bs)))
     \<and> distinct (concat (map batch_message_ids bs))
     \<and> distinct (concat (map (\<lambda>b. map xr_messageId (eb_errors b)) bs))
     \<and> distinct (concat (map (\<lambda>b. map nr_notificationId (eb_notifications b)) bs))"

definition counts_of :: "escrow_batch list \<Rightarrow> escrow_counts" where
  "counts_of bs = \<lparr>ec_batches = int (length bs), ec_messages = (\<Sum>b\<leftarrow>bs. int (length (eb_messages b))),
     ec_errors = (\<Sum>b\<leftarrow>bs. int (length (eb_errors b))),
     ec_notifications = (\<Sum>b\<leftarrow>bs. int (length (eb_notifications b)))\<rparr>"

definition within_limits :: "accumulator \<Rightarrow> escrow_batch list \<Rightarrow> bool" where
  "within_limits st bs \<longleftrightarrow> ec_batches (counts_of bs) \<le> ac_batchLimit st
     \<and> ec_messages (counts_of bs) \<le> ac_messageLimit st
     \<and> ec_errors (counts_of bs) \<le> max_safe \<and> ec_notifications (counts_of bs) \<le> max_safe"

definition batches_valid :: "jstr \<Rightarrow> accumulator \<Rightarrow> escrow_batch list \<Rightarrow> bool" where
  "batches_valid siteId st bs \<longleftrightarrow> list_all (batch_valid siteId) bs \<and> ids_unique bs \<and> within_limits st bs"

section \<open>The accumulator after some batches\<close>

definition phase_after :: "escrow_batch list \<Rightarrow> escrow_phase" where
  "phase_after bs = (if bs = [] then ParentPhase
     else if eb_notifications (last bs) \<noteq> [] then NotificationsPhase
     else if eb_errors (last bs) \<noteq> [] then ErrorsPhase else MessagesPhase)"

definition last_id :: "escrow_batch list \<Rightarrow> escrow_kind \<Rightarrow> jstr option" where
  "last_id bs k = (if bs = [] \<or> row_ids k (last bs) = [] then None else Some (last (row_ids k (last bs))))"

definition state_after :: "accumulator \<Rightarrow> escrow_batch list \<Rightarrow> accumulator" where
  "state_after st bs = st\<lparr>ac_counts := counts_of bs, ac_manifestIndex := int (length bs) - 1,
     ac_phase := phase_after bs, ac_lastIds := last_id bs,
     ac_seenRowIds := (\<lambda>k. set (concat (map (row_ids k) bs))),
     ac_seenMessageIds := set (concat (map batch_message_ids bs)),
     ac_seenErrorMessageIds := set (concat (map (\<lambda>b. map xr_messageId (eb_errors b)) bs)),
     ac_seenNotificationIds := set (concat (map (\<lambda>b. map nr_notificationId (eb_notifications b)) bs)),
     ac_currentBatchId := (if bs = [] then None else Some (br_id (eb_row (last bs)))),
     ac_currentMessageIds := (if bs = [] then {} else set (batch_message_ids (last bs)))\<rparr>"

text \<open>The batches extended by one more record, where the record may come next.\<close>

fun grow :: "escrow_batch list \<Rightarrow> escrow_record \<Rightarrow> escrow_batch list option" where
  "grow bs (BatchRecord i r) =
     (if i = int (length bs)
      then Some (bs @ [\<lparr>eb_row = r, eb_messages = [], eb_errors = [], eb_notifications = []\<rparr>]) else None)"
| "grow bs (MessageRecord i r) =
     (if bs \<noteq> [] \<and> i = int (length bs) - 1 \<and> eb_errors (last bs) = [] \<and> eb_notifications (last bs) = []
      then Some (butlast bs @ [(last bs)\<lparr>eb_messages := eb_messages (last bs) @ [r]\<rparr>]) else None)"
| "grow bs (ErrorRecord i r) =
     (if bs \<noteq> [] \<and> i = int (length bs) - 1 \<and> eb_notifications (last bs) = []
      then Some (butlast bs @ [(last bs)\<lparr>eb_errors := eb_errors (last bs) @ [r]\<rparr>]) else None)"
| "grow bs (NotificationRecord i r) =
     (if bs \<noteq> [] \<and> i = int (length bs) - 1
      then Some (butlast bs @ [(last bs)\<lparr>eb_notifications := eb_notifications (last bs) @ [r]\<rparr>]) else None)"

lemma all_records_append: "all_records i (bs @ cs) = all_records i bs @ all_records (i + int (length bs)) cs"
  by (induction bs arbitrary: i) (simp_all add: algebra_simps)

lemma all_records_snoc: "all_records i (bs @ [b]) = all_records i bs @ batch_records (i + int (length bs)) b"
  by (simp add: all_records_append)

lemma grow_records: "grow bs r = Some bs' \<Longrightarrow> all_records 0 bs' = all_records 0 bs @ [r]"
proof (cases bs rule: rev_cases)
  case Nil
  assume "grow bs r = Some bs'"
  with Nil show ?thesis by (cases r) (auto simp: batch_records_def split: if_splits)
next
  case (snoc pre b)
  assume "grow bs r = Some bs'"
  with snoc show ?thesis
    by (cases r) (auto simp: all_records_append batch_records_def add.commute split: if_splits)
qed

lemma grow_complete:
  assumes "all_records 0 bs' = recs @ [r]"
  shows "\<exists>bs. recs = all_records 0 bs \<and> grow bs r = Some bs'"
proof (cases bs' rule: rev_cases)
  case Nil
  then show ?thesis using assms by simp
next
  case (snoc pre c)
  let ?i = "int (length pre)"
  have split: "recs @ [r] = all_records 0 pre @ batch_records ?i c"
    using assms snoc by (simp add: all_records_snoc)
  consider "eb_notifications c \<noteq> []" | "eb_notifications c = []" "eb_errors c \<noteq> []"
    | "eb_notifications c = []" "eb_errors c = []" "eb_messages c \<noteq> []"
    | "eb_notifications c = []" "eb_errors c = []" "eb_messages c = []" by blast
  then show ?thesis
  proof cases
    case 1
    then obtain ns n where ns: "eb_notifications c = ns @ [n]" by (meson rev_exhaust)
    let ?b = "c\<lparr>eb_notifications := ns\<rparr>"
    have "recs = all_records 0 (pre @ [?b])" "r = NotificationRecord ?i n"
      using split by (simp_all add: all_records_snoc batch_records_def ns)
    moreover have "?b\<lparr>eb_notifications := ns @ [n]\<rparr> = c" using ns by simp
    ultimately show ?thesis using snoc by (intro exI [of _ "pre @ [?b]"]) simp
  next
    case 2
    then obtain es e where es: "eb_errors c = es @ [e]" by (meson rev_exhaust)
    let ?b = "c\<lparr>eb_errors := es\<rparr>"
    have "recs = all_records 0 (pre @ [?b])" "r = ErrorRecord ?i e"
      using split 2 by (simp_all add: all_records_snoc batch_records_def es)
    moreover have "?b\<lparr>eb_errors := es @ [e]\<rparr> = c" using es by simp
    ultimately show ?thesis using snoc 2 by (intro exI [of _ "pre @ [?b]"]) simp
  next
    case 3
    then obtain ms m where ms: "eb_messages c = ms @ [m]" by (meson rev_exhaust)
    let ?b = "c\<lparr>eb_messages := ms\<rparr>"
    have "recs = all_records 0 (pre @ [?b])" "r = MessageRecord ?i m"
      using split 3 by (simp_all add: all_records_snoc batch_records_def ms)
    moreover have "?b\<lparr>eb_messages := ms @ [m]\<rparr> = c" using ms by simp
    ultimately show ?thesis using snoc 3 by (intro exI [of _ "pre @ [?b]"]) simp
  next
    case 4
    then have "recs = all_records 0 pre" "r = BatchRecord ?i (eb_row c)"
      using split by (simp_all add: batch_records_def)
    moreover have "\<lparr>eb_row = eb_row c, eb_messages = [], eb_errors = [], eb_notifications = []\<rparr> = c"
      using 4 by (cases c) simp
    ultimately show ?thesis using snoc by (intro exI [of _ pre]) simp
  qed
qed

section \<open>One record\<close>

lemma assert_iffs:
  "assertKindOrder k st = Inr u \<longleftrightarrow> phaseRank (ac_phase st) \<le> kindRank k"
  "ensureCurrentManifestIndex i st = Inr u \<longleftrightarrow> i = ac_manifestIndex st"
  "ensureBatchExists k st = Inr u \<longleftrightarrow> (\<exists>b. ac_currentBatchId st = Some b \<and> b \<noteq> [])"
  "assertAscendingId k x st = Inr s \<longleftrightarrow> (\<forall>p. ac_lastIds st k = Some p \<longrightarrow> p < x)
     \<and> s = st\<lparr>ac_lastIds := (ac_lastIds st)(k := Some x)\<rparr>"
  "assertUniqueRowId k x st = Inr s \<longleftrightarrow> x \<notin> ac_seenRowIds st k
     \<and> s = st\<lparr>ac_seenRowIds := (ac_seenRowIds st)(k := insert x (ac_seenRowIds st k))\<rparr>"
  "assertUniqueMessageId x st = Inr s \<longleftrightarrow> x \<notin> ac_seenMessageIds st
     \<and> s = st\<lparr>ac_seenMessageIds := insert x (ac_seenMessageIds st)\<rparr>"
  "assertUniqueErrorMessageId x st = Inr s \<longleftrightarrow> x \<notin> ac_seenErrorMessageIds st
     \<and> s = st\<lparr>ac_seenErrorMessageIds := insert x (ac_seenErrorMessageIds st)\<rparr>"
  "assertUniqueNotificationId x st = Inr s \<longleftrightarrow> x \<notin> ac_seenNotificationIds st
     \<and> s = st\<lparr>ac_seenNotificationIds := insert x (ac_seenNotificationIds st)\<rparr>"
  by (auto simp: assertKindOrder_def ensureCurrentManifestIndex_def ensureBatchExists_def assertAscendingId_def
      assertUniqueRowId_def assertUniqueMessageId_def assertUniqueErrorMessageId_def
      assertUniqueNotificationId_def split: option.splits if_splits)

lemma addSafeInteger_Inr_iff:
  "addSafeInteger a b hi msg = Inr n \<longleftrightarrow> \<bar>a\<bar> \<le> max_safe \<and> \<bar>b\<bar> \<le> max_safe \<and> \<bar>hi\<bar> \<le> max_safe
     \<and> \<bar>a + b\<bar> \<le> max_safe \<and> a + b \<le> hi \<and> n = a + b"
  by (auto simp: addSafeInteger_def)

lemma sorted_snoc:
  "sorted_wrt (<) (xs @ [x]) \<longleftrightarrow> sorted_wrt (<) xs \<and> (xs = [] \<or> last xs < (x :: jstr))"
proof (cases xs rule: rev_cases)
  case (snoc ys y)
  then show ?thesis by (fastforce simp: sorted_wrt_append)
qed simp

lemma counts_of_snoc:
  "counts_of (bs @ [b]) = \<lparr>ec_batches = ec_batches (counts_of bs) + 1,
     ec_messages = ec_messages (counts_of bs) + int (length (eb_messages b)),
     ec_errors = ec_errors (counts_of bs) + int (length (eb_errors b)),
     ec_notifications = ec_notifications (counts_of bs) + int (length (eb_notifications b))\<rparr>"
  by (simp add: counts_of_def)

lemma counts_of_nonneg:
  "0 \<le> ec_batches (counts_of bs)" "0 \<le> ec_messages (counts_of bs)" "0 \<le> ec_errors (counts_of bs)"
  "0 \<le> ec_notifications (counts_of bs)"
  by (auto simp: counts_of_def intro!: sum_list_nonneg)

lemma ids_unique_snoc:
  "ids_unique (bs @ [b]) \<longleftrightarrow> ids_unique bs
     \<and> (\<forall>k. distinct (row_ids k b) \<and> set (concat (map (row_ids k) bs)) \<inter> set (row_ids k b) = {})
     \<and> distinct (batch_message_ids b) \<and> set (concat (map batch_message_ids bs)) \<inter> set (batch_message_ids b) = {}
     \<and> distinct (map xr_messageId (eb_errors b))
     \<and> set (concat (map (\<lambda>b. map xr_messageId (eb_errors b)) bs)) \<inter> set (map xr_messageId (eb_errors b)) = {}
     \<and> distinct (map nr_notificationId (eb_notifications b))
     \<and> set (concat (map (\<lambda>b. map nr_notificationId (eb_notifications b)) bs))
         \<inter> set (map nr_notificationId (eb_notifications b)) = {}"
  unfolding ids_unique_def map_append concat_append distinct_append by auto

lemma all_kinds: "(\<forall>k. P k) \<longleftrightarrow> P NewsletterBatch \<and> P NewsletterMessages \<and> P NewsletterErrors \<and> P NewsletterNotifications"
  by (metis escrow_kind.exhaust)

lemma kinds_ext:
  "f NewsletterBatch = g NewsletterBatch \<Longrightarrow> f NewsletterMessages = g NewsletterMessages \<Longrightarrow>
   f NewsletterErrors = g NewsletterErrors \<Longrightarrow> f NewsletterNotifications = g NewsletterNotifications \<Longrightarrow> f = g"
  by (rule ext) (metis escrow_kind.exhaust)

lemmas row_ids_simps [simp] = row_ids_def [of NewsletterBatch, simplified]
  row_ids_def [of NewsletterMessages, simplified] row_ids_def [of NewsletterErrors, simplified]
  row_ids_def [of NewsletterNotifications, simplified]

definition limits_ok :: "accumulator \<Rightarrow> bool" where
  "limits_ok st \<longleftrightarrow> \<bar>ac_batchLimit st\<bar> \<le> max_safe \<and> \<bar>ac_messageLimit st\<bar> \<le> max_safe"

lemma consume_batch_step:
  assumes h: "ac_header st = Some h" and lim: "limits_ok st"
    and valid: "batches_valid (eh_siteId h) st bs" and ok: "br_id r \<noteq> []"
  shows "consumeRecord (BatchRecord i r) (state_after st bs) = Inr s \<longleftrightarrow>
     (\<exists>bs'. grow bs (BatchRecord i r) = Some bs' \<and> batches_valid (eh_siteId h) st bs' \<and> s = state_after st bs')"
proof -
  let ?new = "\<lparr>eb_row = r, eb_messages = [], eb_errors = [], eb_notifications = []\<rparr>"
  have valid': "batches_valid (eh_siteId h) st (bs @ [?new]) \<longleftrightarrow>
      br_siteId r = eh_siteId h \<and> br_id r \<notin> set (concat (map (row_ids NewsletterBatch) bs))
      \<and> ec_batches (counts_of bs) + 1 \<le> ac_batchLimit st"
    using valid ok unfolding batches_valid_def ids_unique_snoc within_limits_def counts_of_snoc
    by (auto simp: batch_valid_def all_kinds batch_message_ids_def)
  have state: "state_after st (bs @ [?new]) =
      (startManifest i (state_after st bs))\<lparr>ac_lastIds := (\<lambda>_. None)(NewsletterBatch := Some (br_id r)),
        ac_seenRowIds := (ac_seenRowIds (state_after st bs))
          (NewsletterBatch := insert (br_id r) (ac_seenRowIds (state_after st bs) NewsletterBatch)),
        ac_currentBatchId := Some (br_id r), ac_phase := MessagesPhase,
        ac_counts := (counts_of bs)\<lparr>ec_batches := ec_batches (counts_of bs) + 1\<rparr>\<rparr>" if "i = int (length bs)"
    using that
    by (intro accumulator.equality kinds_ext)
      (simp_all add: state_after_def startManifest_def counts_of_snoc phase_after_def last_id_def
        batch_message_ids_def escrow_counts.equality)
  have room: "\<bar>ec_batches (counts_of bs)\<bar> \<le> max_safe"
    using valid lim counts_of_nonneg(1) [of bs] by (auto simp: batches_valid_def within_limits_def limits_ok_def)
  show ?thesis
  proof (cases "i = int (length bs)")
    case True
    then have "consumeRecord (BatchRecord i r) (state_after st bs) = Inr s \<longleftrightarrow>
        batches_valid (eh_siteId h) st (bs @ [?new]) \<and> s = state_after st (bs @ [?new])"
      using h lim room counts_of_nonneg(1) [of bs] unfolding valid' state [OF True]
      by (auto simp: consumeRecord_def enter_manifest_def consumeBatchRecord_def assert_iffs addSafeInteger_Inr_iff
          state_after_def startManifest_def phaseRank_def kindRank_def header_siteId_def limits_ok_def max_safe_def)
    then show ?thesis using True by auto
  next
    case False
    then have "\<nexists>s. consumeRecord (BatchRecord i r) (state_after st bs) = Inr s"
      using h by (auto simp: consumeRecord_def enter_manifest_def consumeBatchRecord_def state_after_def phase_after_def)
    then show ?thesis using False by auto
  qed
qed

text \<open>A child row needs a current parent: before the first one the index check refuses it.\<close>

lemma no_parent:
  "record_kind r \<noteq> NewsletterBatch \<Longrightarrow> consumeRecord r (state_after st []) \<noteq> Inr s"
  by (auto simp: consumeRecord_def enter_manifest_def state_after_def)

lemma consume_child_step:
  assumes h: "ac_header st = Some h" and kind: "record_kind r \<noteq> NewsletterBatch"
  shows "consumeRecord r (state_after st (pre @ [c])) = Inr s \<longleftrightarrow>
     manifest_index r = int (length pre) \<and>
     (case r of BatchRecord i b \<Rightarrow> consumeBatchRecord i b (state_after st (pre @ [c]))
      | MessageRecord i m \<Rightarrow> consumeMessageRecord i m (state_after st (pre @ [c]))
      | ErrorRecord i e \<Rightarrow> consumeErrorRecord i e (state_after st (pre @ [c]))
      | NotificationRecord i n \<Rightarrow> consumeNotificationRecord i n (state_after st (pre @ [c]))) = Inr s"
proof -
  have "enter_manifest r (state_after st (pre @ [c])) = Inr s' \<longleftrightarrow>
      manifest_index r = int (length pre) \<and> s' = state_after st (pre @ [c])" for s'
    using kind by (auto simp: enter_manifest_def state_after_def)
  moreover have "ac_header (state_after st (pre @ [c])) = Some h" using h by (simp add: state_after_def)
  ultimately show ?thesis by (auto simp: consumeRecord_def)
qed

lemma consume_message_step:
  assumes h: "ac_header st = Some h" and lim: "limits_ok st"
    and valid: "batches_valid (eh_siteId h) st (pre @ [c])"
  shows "consumeRecord (MessageRecord i r) (state_after st (pre @ [c])) = Inr s \<longleftrightarrow>
     (\<exists>bs'. grow (pre @ [c]) (MessageRecord i r) = Some bs' \<and> batches_valid (eh_siteId h) st bs'
        \<and> s = state_after st bs')"
proof -
  let ?bs = "pre @ [c]" and ?c = "c\<lparr>eb_messages := eb_messages c @ [r]\<rparr>"
  have valid': "batches_valid (eh_siteId h) st (pre @ [?c]) \<longleftrightarrow>
      mr_newsletterBatchId r = br_id (eb_row c) \<and> (eb_messages c = [] \<or> mr_id (last (eb_messages c)) < mr_id r)
      \<and> mr_id r \<notin> set (concat (map (row_ids NewsletterMessages) ?bs))
      \<and> mr_messageId r \<notin> set (concat (map batch_message_ids ?bs))
      \<and> ec_messages (counts_of ?bs) + 1 \<le> ac_messageLimit st"
    using valid unfolding batches_valid_def ids_unique_snoc within_limits_def counts_of_snoc
    by (auto simp: batch_valid_def all_kinds batch_message_ids_def sorted_snoc last_map)
  have state: "state_after st (pre @ [?c]) =
      (state_after st ?bs)\<lparr>ac_lastIds := (last_id ?bs)(NewsletterMessages := Some (mr_id r)),
        ac_seenRowIds := (ac_seenRowIds (state_after st ?bs))
          (NewsletterMessages := insert (mr_id r) (ac_seenRowIds (state_after st ?bs) NewsletterMessages)),
        ac_seenMessageIds := insert (mr_messageId r) (ac_seenMessageIds (state_after st ?bs)),
        ac_currentMessageIds := insert (mr_messageId r) (ac_currentMessageIds (state_after st ?bs)),
        ac_phase := MessagesPhase,
        ac_counts := (counts_of ?bs)\<lparr>ec_messages := ec_messages (counts_of ?bs) + 1\<rparr>\<rparr>"
    if "eb_errors c = []" "eb_notifications c = []"
    using that
    by (intro accumulator.equality kinds_ext)
      (simp_all add: state_after_def counts_of_snoc phase_after_def last_id_def batch_message_ids_def insert_commute)
  have room: "\<bar>ec_messages (counts_of ?bs)\<bar> \<le> max_safe"
    using valid lim counts_of_nonneg(2) [of ?bs] by (auto simp: batches_valid_def within_limits_def limits_ok_def)
  have phase: "phaseRank (ac_phase (state_after st ?bs)) \<le> kindRank NewsletterMessages
      \<longleftrightarrow> eb_errors c = [] \<and> eb_notifications c = []"
    by (simp add: state_after_def phase_after_def phaseRank_def kindRank_def)
  have parent: "br_id (eb_row c) \<noteq> []" using valid by (simp add: batches_valid_def batch_valid_def)
  have last: "(\<forall>p. last_id ?bs NewsletterMessages = Some p \<longrightarrow> p < mr_id r)
      \<longleftrightarrow> eb_messages c = [] \<or> mr_id (last (eb_messages c)) < mr_id r"
    by (auto simp: last_id_def last_map)
  show ?thesis
  proof (cases "i = int (length pre) \<and> eb_errors c = [] \<and> eb_notifications c = []")
    case True
    then have "consumeRecord (MessageRecord i r) (state_after st ?bs) = Inr s \<longleftrightarrow>
        batches_valid (eh_siteId h) st (pre @ [?c]) \<and> s = state_after st (pre @ [?c])"
      using h lim room parent counts_of_nonneg(2) [of ?bs] phase last
      unfolding valid' state [OF True [THEN conjunct2, THEN conjunct1] True [THEN conjunct2, THEN conjunct2]]
        consume_child_step [OF h, of "MessageRecord i r", simplified]
      by (auto simp: consumeMessageRecord_def assert_iffs addSafeInteger_Inr_iff state_after_def limits_ok_def max_safe_def)
    then show ?thesis using True by auto
  next
    case False
    then have "\<nexists>s. consumeRecord (MessageRecord i r) (state_after st ?bs) = Inr s"
      using phase unfolding consume_child_step [OF h, of "MessageRecord i r", simplified]
      by (auto simp: consumeMessageRecord_def assert_iffs)
    then show ?thesis using False by auto
  qed
qed


lemma consume_error_step:
  assumes h: "ac_header st = Some h" and valid: "batches_valid (eh_siteId h) st (pre @ [c])"
  shows "consumeRecord (ErrorRecord i r) (state_after st (pre @ [c])) = Inr s \<longleftrightarrow>
     (\<exists>bs'. grow (pre @ [c]) (ErrorRecord i r) = Some bs' \<and> batches_valid (eh_siteId h) st bs'
        \<and> s = state_after st bs')"
proof -
  let ?bs = "pre @ [c]" and ?c = "c\<lparr>eb_errors := eb_errors c @ [r]\<rparr>"
  have valid': "batches_valid (eh_siteId h) st (pre @ [?c]) \<longleftrightarrow>
      xr_newsletterBatchId r = br_id (eb_row c) \<and> (eb_errors c = [] \<or> xr_id (last (eb_errors c)) < xr_id r)
      \<and> xr_id r \<notin> set (concat (map (row_ids NewsletterErrors) ?bs))
      \<and> xr_messageId r \<notin> set (concat (map (\<lambda>b. map xr_messageId (eb_errors b)) ?bs))
      \<and> ec_errors (counts_of ?bs) + 1 \<le> max_safe"
    using valid unfolding batches_valid_def ids_unique_snoc within_limits_def counts_of_snoc
    by (auto simp: batch_valid_def all_kinds batch_message_ids_def sorted_snoc last_map)
  have state: "state_after st (pre @ [?c]) =
      (state_after st ?bs)\<lparr>ac_lastIds := (last_id ?bs)(NewsletterErrors := Some (xr_id r)),
        ac_seenRowIds := (ac_seenRowIds (state_after st ?bs))
          (NewsletterErrors := insert (xr_id r) (ac_seenRowIds (state_after st ?bs) NewsletterErrors)),
        ac_seenErrorMessageIds := insert (xr_messageId r) (ac_seenErrorMessageIds (state_after st ?bs)),
        ac_phase := ErrorsPhase,
        ac_counts := (counts_of ?bs)\<lparr>ec_errors := ec_errors (counts_of ?bs) + 1\<rparr>\<rparr>"
    if "eb_notifications c = []"
    using that
    by (intro accumulator.equality kinds_ext)
      (simp_all add: state_after_def counts_of_snoc phase_after_def last_id_def batch_message_ids_def insert_commute)
  have room: "\<bar>ec_errors (counts_of ?bs)\<bar> \<le> max_safe"
    using valid counts_of_nonneg(3) [of ?bs] by (auto simp: batches_valid_def within_limits_def)
  have phase: "phaseRank (ac_phase (state_after st ?bs)) \<le> kindRank NewsletterErrors \<longleftrightarrow> eb_notifications c = []"
    by (simp add: state_after_def phase_after_def phaseRank_def kindRank_def)
  have parent: "br_id (eb_row c) \<noteq> []" using valid by (simp add: batches_valid_def batch_valid_def)
  have last: "(\<forall>p. last_id ?bs NewsletterErrors = Some p \<longrightarrow> p < xr_id r)
      \<longleftrightarrow> eb_errors c = [] \<or> xr_id (last (eb_errors c)) < xr_id r"
    by (auto simp: last_id_def last_map)
  show ?thesis
  proof (cases "i = int (length pre) \<and> eb_notifications c = []")
    case True
    then have "consumeRecord (ErrorRecord i r) (state_after st ?bs) = Inr s \<longleftrightarrow>
        batches_valid (eh_siteId h) st (pre @ [?c]) \<and> s = state_after st (pre @ [?c])"
      using h room parent counts_of_nonneg(3) [of ?bs] phase last
      unfolding valid' state [OF True [THEN conjunct2]]
        consume_child_step [OF h, of "ErrorRecord i r", simplified]
      by (auto simp: consumeErrorRecord_def assert_iffs addSafeInteger_Inr_iff state_after_def max_safe_def)
    then show ?thesis using True by auto
  next
    case False
    then have "\<nexists>s. consumeRecord (ErrorRecord i r) (state_after st ?bs) = Inr s"
      using phase unfolding consume_child_step [OF h, of "ErrorRecord i r", simplified]
      by (auto simp: consumeErrorRecord_def assert_iffs)
    then show ?thesis using False by auto
  qed
qed

lemma consume_notification_step:
  assumes h: "ac_header st = Some h" and valid: "batches_valid (eh_siteId h) st (pre @ [c])"
  shows "consumeRecord (NotificationRecord i r) (state_after st (pre @ [c])) = Inr s \<longleftrightarrow>
     (\<exists>bs'. grow (pre @ [c]) (NotificationRecord i r) = Some bs' \<and> batches_valid (eh_siteId h) st bs'
        \<and> s = state_after st bs')"
proof -
  let ?bs = "pre @ [c]" and ?c = "c\<lparr>eb_notifications := eb_notifications c @ [r]\<rparr>"
  have valid': "batches_valid (eh_siteId h) st (pre @ [?c]) \<longleftrightarrow>
      nr_messageId r \<in> set (batch_message_ids c)
      \<and> (eb_notifications c = [] \<or> nr_id (last (eb_notifications c)) < nr_id r)
      \<and> nr_id r \<notin> set (concat (map (row_ids NewsletterNotifications) ?bs))
      \<and> nr_notificationId r \<notin> set (concat (map (\<lambda>b. map nr_notificationId (eb_notifications b)) ?bs))
      \<and> ec_notifications (counts_of ?bs) + 1 \<le> max_safe"
    using valid unfolding batches_valid_def ids_unique_snoc within_limits_def counts_of_snoc
    by (auto simp: batch_valid_def all_kinds batch_message_ids_def sorted_snoc last_map)
  have state: "state_after st (pre @ [?c]) =
      (state_after st ?bs)\<lparr>ac_lastIds := (last_id ?bs)(NewsletterNotifications := Some (nr_id r)),
        ac_seenRowIds := (ac_seenRowIds (state_after st ?bs))
          (NewsletterNotifications := insert (nr_id r) (ac_seenRowIds (state_after st ?bs) NewsletterNotifications)),
        ac_seenNotificationIds := insert (nr_notificationId r) (ac_seenNotificationIds (state_after st ?bs)),
        ac_phase := NotificationsPhase,
        ac_counts := (counts_of ?bs)\<lparr>ec_notifications := ec_notifications (counts_of ?bs) + 1\<rparr>\<rparr>"
    by (intro accumulator.equality kinds_ext)
      (simp_all add: state_after_def counts_of_snoc phase_after_def last_id_def batch_message_ids_def insert_commute)
  have room: "\<bar>ec_notifications (counts_of ?bs)\<bar> \<le> max_safe"
    using valid counts_of_nonneg(4) [of ?bs] by (auto simp: batches_valid_def within_limits_def)
  have phase: "phaseRank (ac_phase (state_after st ?bs)) \<le> kindRank NewsletterNotifications"
    by (simp add: state_after_def phase_after_def phaseRank_def kindRank_def)
  have parent: "br_id (eb_row c) \<noteq> []" using valid by (simp add: batches_valid_def batch_valid_def)
  have last: "(\<forall>p. last_id ?bs NewsletterNotifications = Some p \<longrightarrow> p < nr_id r)
      \<longleftrightarrow> eb_notifications c = [] \<or> nr_id (last (eb_notifications c)) < nr_id r"
    by (auto simp: last_id_def last_map)
  show ?thesis
  proof (cases "i = int (length pre)")
    case True
    then have "consumeRecord (NotificationRecord i r) (state_after st ?bs) = Inr s \<longleftrightarrow>
        batches_valid (eh_siteId h) st (pre @ [?c]) \<and> s = state_after st (pre @ [?c])"
      using h room parent counts_of_nonneg(4) [of ?bs] phase last
      unfolding valid' state consume_child_step [OF h, of "NotificationRecord i r", simplified]
      by (auto simp: consumeNotificationRecord_def assert_iffs addSafeInteger_Inr_iff state_after_def max_safe_def)
    then show ?thesis using True by auto
  next
    case False
    then have "\<nexists>s. consumeRecord (NotificationRecord i r) (state_after st ?bs) = Inr s"
      unfolding consume_child_step [OF h, of "NotificationRecord i r", simplified]
      by (auto simp: consumeNotificationRecord_def assert_iffs)
    then show ?thesis using False by auto
  qed
qed

text \<open>Every record at once, on the state after any valid batches.\<close>

definition row_wf :: "escrow_record \<Rightarrow> bool" where
  "row_wf r = (case r of BatchRecord i b \<Rightarrow> br_id b \<noteq> [] | _ \<Rightarrow> True)"

lemma consume_step:
  assumes "ac_header st = Some h" "limits_ok st" "batches_valid (eh_siteId h) st bs" "row_wf r"
  shows "consumeRecord r (state_after st bs) = Inr s \<longleftrightarrow>
     (\<exists>bs'. grow bs r = Some bs' \<and> batches_valid (eh_siteId h) st bs' \<and> s = state_after st bs')"
proof (cases r)
  case (BatchRecord i b)
  then show ?thesis using consume_batch_step [OF assms(1-3)] assms(4) by (simp add: row_wf_def)
next
  case (MessageRecord i m)
  show ?thesis
  proof (cases bs rule: rev_cases)
    case Nil
    then show ?thesis using MessageRecord no_parent [of r st s] by simp
  next
    case (snoc pre c)
    then show ?thesis using consume_message_step [OF assms(1,2)] assms(3) MessageRecord by blast
  qed
next
  case (ErrorRecord i e)
  show ?thesis
  proof (cases bs rule: rev_cases)
    case Nil
    then show ?thesis using ErrorRecord no_parent [of r st s] by simp
  next
    case (snoc pre c)
    then show ?thesis using consume_error_step [OF assms(1)] assms(3) ErrorRecord by blast
  qed
next
  case (NotificationRecord i n)
  show ?thesis
  proof (cases bs rule: rev_cases)
    case Nil
    then show ?thesis using NotificationRecord no_parent [of r st s] by simp
  next
    case (snoc pre c)
    then show ?thesis using consume_notification_step [OF assms(1)] assms(3) NotificationRecord by blast
  qed
qed

end
