(* ===== verification/EscrowVerify.thy ===== *)
theory EscrowVerify
  imports EscrowStream
begin

text \<open>
  Reading a whole escrow file: every line through \<open>consume\<close>, then \<open>finalize\<close>. The section
  culminates in the exact set of files the verifier accepts and what it reports for them.
\<close>

section \<open>The whole run\<close>

definition consume_or_throw :: "(jstr \<Rightarrow> jstr) \<Rightarrow> accumulator \<Rightarrow> raw_line \<Rightarrow> accumulator res" where
  "consume_or_throw sha st l = (case consume sha l st of (Inl e, _) \<Rightarrow> Inl e | (Inr _, st') \<Rightarrow> Inr st')"

definition verify_lines :: "(jstr \<Rightarrow> jstr) \<Rightarrow> accumulator_options \<Rightarrow> raw_line list \<Rightarrow> verification_result res" where
  "verify_lines sha opts ls =
     bindE (createNewsletterRetentionEscrowAccumulator opts) (\<lambda>st.
     bindE (foldE (consume_or_throw sha) st ls) finalize)"

text \<open>The accumulator without options, as the escrow writer creates it.\<close>

definition default_options :: accumulator_options where
  "default_options = \<lparr>op_lineBytesLimit = JUndef, op_totalBytesLimit = JUndef, op_recordLimit = JUndef,
     op_batchLimit = JUndef, op_messageLimit = JUndef\<rparr>"

definition default_accumulator :: accumulator where
  "default_accumulator = fresh_accumulator MAX_LINE_BYTES MAX_TOTAL_BYTES MAX_RECORDS MAX_BATCHES MAX_MESSAGES"

lemma create_default: "createNewsletterRetentionEscrowAccumulator default_options = Inr default_accumulator"
  by (simp add: createNewsletterRetentionEscrowAccumulator_def normalizeEscrowLimit_def default_options_def
      default_accumulator_def)

section \<open>Accepted records\<close>

lemma last_grown:
  "grow (pre @ [c]) r = Some bs' \<Longrightarrow> record_kind r \<noteq> NewsletterBatch \<Longrightarrow>
   \<exists>ms es ns. bs' = pre @ [c\<lparr>eb_messages := eb_messages c @ ms, eb_errors := eb_errors c @ es,
     eb_notifications := eb_notifications c @ ns\<rparr>] \<and> (ms = [] \<or> eb_notifications c = [] \<and> ns = [])"
proof (cases r)
  case (MessageRecord i m)
  assume "grow (pre @ [c]) r = Some bs'"
  with MessageRecord show ?thesis
    by (intro exI [of _ "[m]"] exI [of _ "[]"]) (auto split: if_splits)
next
  case (ErrorRecord i e)
  assume "grow (pre @ [c]) r = Some bs'"
  with ErrorRecord show ?thesis
    by (intro exI [of _ "[]"] exI [of _ "[e]"]) (auto split: if_splits)
next
  case (NotificationRecord i n)
  assume "grow (pre @ [c]) r = Some bs'"
  with NotificationRecord show ?thesis
    by (intro exI [of _ "[]"] exI [of _ "[n]"]) (auto split: if_splits)
qed simp

lemma row_ids_grown:
  "row_ids k (c\<lparr>eb_messages := eb_messages c @ ms, eb_errors := eb_errors c @ es,
     eb_notifications := eb_notifications c @ ns\<rparr>) =
   row_ids k c @ (case k of NewsletterBatch \<Rightarrow> [] | NewsletterMessages \<Rightarrow> map mr_id ms
     | NewsletterErrors \<Rightarrow> map xr_id es | NewsletterNotifications \<Rightarrow> map nr_id ns)"
  by (cases k) simp_all

lemma valid_grown:
  assumes "batches_valid s st (pre @ [c\<lparr>eb_messages := eb_messages c @ ms, eb_errors := eb_errors c @ es,
      eb_notifications := eb_notifications c @ ns\<rparr>])"
    and "ms = [] \<or> eb_notifications c = [] \<and> ns = []"
  shows "batches_valid s st (pre @ [c])"
proof -
  have "batch_valid s c"
    using assms unfolding batches_valid_def batch_valid_def row_ids_grown list_all_append
    by (auto simp: batch_valid_def row_ids_grown sorted_wrt_append batch_message_ids_def)
  moreover have "ids_unique (pre @ [c])"
    using assms(1) unfolding batches_valid_def ids_unique_snoc row_ids_grown
    by (simp add: batch_message_ids_def Int_Un_distrib all_conj_distrib)
  moreover have "within_limits st (pre @ [c])"
    using assms(1) unfolding batches_valid_def within_limits_def counts_of_snoc by simp
  ultimately show ?thesis using assms(1) by (simp add: batches_valid_def)
qed

lemma valid_shrink:
  assumes "grow bs r = Some bs'" "batches_valid s st bs'"
  shows "batches_valid s st bs"
proof (cases "record_kind r = NewsletterBatch")
  case True
  then obtain b where "bs' = bs @ [b]" using assms(1) by (cases r) (auto split: if_splits)
  then show ?thesis using assms(2)
    by (auto simp: batches_valid_def ids_unique_snoc within_limits_def counts_of_snoc)
next
  case False
  then obtain pre c where bs: "bs = pre @ [c]" using assms(1) by (cases r; cases bs rule: rev_cases) auto
  show ?thesis using last_grown [OF assms(1) [unfolded bs] False] valid_grown assms(2) unfolding bs by blast
qed

lemma row_wf_ok: "escrow_record_ok r \<Longrightarrow> row_wf r"
  by (cases r) (auto simp: escrow_record_ok_def row_wf_def strict_text_def)

lemma no_batches_valid:
  "0 \<le> ac_batchLimit st \<Longrightarrow> 0 \<le> ac_messageLimit st \<Longrightarrow> batches_valid s st []"
  by (simp add: batches_valid_def ids_unique_def within_limits_def counts_of_def max_safe_def)

theorem records_accepted:
  assumes "ac_header st = Some h" "limits_ok st" "0 \<le> ac_batchLimit st" "0 \<le> ac_messageLimit st"
    and "list_all row_wf recs"
  shows "foldE (\<lambda>s r. consumeRecord r s) (state_after st []) recs = Inr s \<longleftrightarrow>
     (\<exists>bs. recs = all_records 0 bs \<and> batches_valid (eh_siteId h) st bs \<and> s = state_after st bs)"
  using assms(5)
proof (induction recs arbitrary: s rule: rev_induct)
  case Nil
  have "all_records 0 bs = [] \<longleftrightarrow> bs = []" for bs by (cases bs) (simp_all add: batch_records_def)
  then have "[] = all_records 0 bs \<longleftrightarrow> bs = []" for bs by metis
  then show ?case using no_batches_valid [OF assms(3,4)] by auto
next
  case (snoc r recs)
  then have wf: "row_wf r" and ih: "\<And>s. foldE (\<lambda>s r. consumeRecord r s) (state_after st []) recs = Inr s \<longleftrightarrow>
     (\<exists>bs. recs = all_records 0 bs \<and> batches_valid (eh_siteId h) st bs \<and> s = state_after st bs)" by auto
  note step = consume_step [OF assms(1,2) _ wf]
  have "foldE (\<lambda>s r. consumeRecord r s) (state_after st []) (recs @ [r]) = Inr s \<longleftrightarrow>
      (\<exists>bs bs'. recs = all_records 0 bs \<and> batches_valid (eh_siteId h) st bs \<and> grow bs r = Some bs'
         \<and> batches_valid (eh_siteId h) st bs' \<and> s = state_after st bs')"
    unfolding foldE_append using step by (auto simp: ih)
  also have "\<dots> \<longleftrightarrow> (\<exists>bs'. recs @ [r] = all_records 0 bs' \<and> batches_valid (eh_siteId h) st bs' \<and> s = state_after st bs')"
  proof
    assume "\<exists>bs bs'. recs = all_records 0 bs \<and> batches_valid (eh_siteId h) st bs \<and> grow bs r = Some bs'
         \<and> batches_valid (eh_siteId h) st bs' \<and> s = state_after st bs'"
    then obtain bs bs' where "recs = all_records 0 bs" "grow bs r = Some bs'"
      "batches_valid (eh_siteId h) st bs'" "s = state_after st bs'" by blast
    then show "\<exists>bs'. recs @ [r] = all_records 0 bs' \<and> batches_valid (eh_siteId h) st bs' \<and> s = state_after st bs'"
      by (intro exI [of _ bs']) (simp add: grow_records)
  next
    assume "\<exists>bs'. recs @ [r] = all_records 0 bs' \<and> batches_valid (eh_siteId h) st bs' \<and> s = state_after st bs'"
    then obtain bs' where bs': "recs @ [r] = all_records 0 bs'" "batches_valid (eh_siteId h) st bs'"
      "s = state_after st bs'" by blast
    obtain bs where "recs = all_records 0 bs" "grow bs r = Some bs'"
      using grow_complete [OF bs'(1) [symmetric]] by blast
    then show "\<exists>bs bs'. recs = all_records 0 bs \<and> batches_valid (eh_siteId h) st bs \<and> grow bs r = Some bs'
         \<and> batches_valid (eh_siteId h) st bs' \<and> s = state_after st bs'"
      using bs' valid_shrink by blast
  qed
  finally show ?case .
qed

section \<open>One line\<close>

definition text_of :: "raw_line \<Rightarrow> jstr option" where
  "text_of l = (case l of TextLine t \<Rightarrow> Some t | ByteLine bs \<Rightarrow> utf8_decode bs | OtherLine \<Rightarrow> None)"

definition byte_size :: "raw_line \<Rightarrow> int" where
  "byte_size l = (case l of TextLine t \<Rightarrow> utf8_length t | ByteLine bs \<Rightarrow> int (length bs) | OtherLine \<Rightarrow> 0)"

definition total_size :: "raw_line list \<Rightarrow> int" where
  "total_size ls = (\<Sum>l\<leftarrow>ls. byte_size l + 1)"

lemma normalizeRawLine_iff: "normalizeRawLine l = Inr (t, n) \<longleftrightarrow> text_of l = Some t \<and> n = byte_size l"
  by (cases l) (auto simp: normalizeRawLine_def text_of_def byte_size_def split: option.splits)

lemma byte_size_nonneg: "0 \<le> byte_size l"
  by (cases l) (simp_all add: byte_size_def utf8_length_def)

lemma total_size_nonneg: "0 \<le> total_size ls"
  by (auto simp: total_size_def intro!: sum_list_nonneg add_nonneg_nonneg byte_size_nonneg)

definition item_step ::
  "(jstr \<Rightarrow> jstr) \<Rightarrow> escrow_line \<Rightarrow> accumulator \<Rightarrow> (verification_result option \<times> accumulator) res" where
  "item_step sha p st = (case p of
     HeaderLine h \<Rightarrow> bindE (consumeHeader h st) (\<lambda>st'. Inr (None, updateHash (line_text p) st'))
   | FooterLine f \<Rightarrow> bindE (consumeFooter sha f st) (\<lambda>v. Inr (Some v, st\<lparr>ac_seenFooter := True, ac_resolved := Some v\<rparr>))
   | RecordLine r \<Rightarrow> bindE (addSafeInteger (ac_totalRecords st) 1 (ac_recordLimit st) ''escrow record limit exceeded'')
       (\<lambda>n. bindE (consumeRecord r (st\<lparr>ac_totalRecords := n\<rparr>)) (\<lambda>st'. Inr (None, updateHash (line_text p) st'))))"

lemma serialized_item:
  "header_ok h \<Longrightarrow> serializeNewsletterRetentionEscrowHeader (header_object h) = Inr (header_line h)"
  "escrow_record_ok r \<Longrightarrow> serializeNewsletterRetentionEscrowRecord (record_object r) = Inr (record_line r)"
  "footer_ok f \<Longrightarrow> serializeNewsletterRetentionEscrowFooter (footer_object f) = Inr (footer_line f)"
  by (simp_all add: serializeNewsletterRetentionEscrowHeader_def serializeNewsletterRetentionEscrowRecord_def
      serializeNewsletterRetentionEscrowFooter_def normalize_header_object normalize_record_object
      normalize_footer_object)

lemma consumeLine_iff:
  "consumeLine sha l st = Inr x \<longleftrightarrow> \<not> ac_seenFooter st \<and> byte_size l \<le> ac_lineBytesLimit st
     \<and> (\<exists>p bytes. text_of l = Some (line_text p) \<and> line_ok p
        \<and> addSafeInteger (ac_totalBytes st) (byte_size l + 1) (ac_totalBytesLimit st)
            ''escrow byte budget exceeded'' = Inr bytes
        \<and> item_step sha p (st\<lparr>ac_totalBytes := bytes\<rparr>) = Inr x)"
proof -
  define F where "F t st1 p = (case p of HeaderLine h \<Rightarrow>
                bindE (serializeNewsletterRetentionEscrowHeader (header_object h)) (\<lambda>canonical.
                  if t \<noteq> canonical then Inl noncanonical
                  else bindE (consumeHeader h st1) (\<lambda>st2. Inr (None, updateHash canonical st2)))
            | FooterLine f \<Rightarrow>
                bindE (serializeNewsletterRetentionEscrowFooter (footer_object f)) (\<lambda>canonical.
                  if t \<noteq> canonical then Inl noncanonical
                  else bindE (consumeFooter sha f st1) (\<lambda>result.
                    Inr (Some result, st1\<lparr>ac_seenFooter := True, ac_resolved := Some result\<rparr>)))
            | RecordLine r \<Rightarrow>
                bindE (addSafeInteger (ac_totalRecords st1) 1 (ac_recordLimit st1) ''escrow record limit exceeded'')
                  (\<lambda>records.
                bindE (serializeNewsletterRetentionEscrowRecord (record_object r)) (\<lambda>canonical.
                  if t \<noteq> canonical then Inl noncanonical
                  else bindE (consumeRecord r (st1\<lparr>ac_totalRecords := records\<rparr>)) (\<lambda>st2.
                    Inr (None, updateHash canonical st2)))))" for t st1 p
  have item: "F t st1 p = Inr x \<longleftrightarrow> t = line_text p \<and> item_step sha p st1 = Inr x" if "line_ok p" for p t st1
    using that by (cases p) (auto simp: F_def item_step_def serialized_item)
  have parsed: "(\<exists>p. parseEscrowLine t = Inr p \<and> F t st1 p = Inr x)
      \<longleftrightarrow> (\<exists>p. t = line_text p \<and> line_ok p \<and> item_step sha p st1 = Inr x)" for t st1
    using item parse_line_ok parse_line_text by metis
  show ?thesis
    unfolding consumeLine_def F_def [symmetric] Let_def if_Inl_Inr_iff bindE_Inr_iff split_paired_Ex
      case_prod_conv normalizeRawLine_iff parsed
    by (auto simp: not_less)
qed

section \<open>The accepted files\<close>

text \<open>
  The items of a file whose header is \<open>h\<close> and whose batches are \<open>bs\<close>, and the text its hash covers:
  every line but the footer's, each followed by a line feed.
\<close>

definition open_items :: "escrow_header \<Rightarrow> escrow_batch list \<Rightarrow> escrow_line list" where
  "open_items h bs = HeaderLine h # map RecordLine (all_records 0 bs)"

definition hash_text :: "escrow_line list \<Rightarrow> jstr" where
  "hash_text ps = concat (map (\<lambda>p. line_text p @ [10]) ps)"

definition reads_as :: "raw_line list \<Rightarrow> escrow_line list \<Rightarrow> bool" where
  "reads_as ls ps \<longleftrightarrow> map text_of ls = map (\<lambda>p. Some (line_text p)) ps \<and> list_all line_ok ps"

definition sizes_ok :: "accumulator \<Rightarrow> raw_line list \<Rightarrow> bool" where
  "sizes_ok st ls \<longleftrightarrow> list_all (\<lambda>l. byte_size l \<le> ac_lineBytesLimit st) ls \<and> total_size ls \<le> ac_totalBytesLimit st"

definition records_ok :: "accumulator \<Rightarrow> escrow_header \<Rightarrow> escrow_batch list \<Rightarrow> bool" where
  "records_ok st h bs \<longleftrightarrow> batches_valid (eh_siteId h) st bs \<and> int (length (all_records 0 bs)) \<le> ac_recordLimit st"

definition footer_matches :: "(jstr \<Rightarrow> jstr) \<Rightarrow> escrow_header \<Rightarrow> escrow_batch list \<Rightarrow> escrow_footer \<Rightarrow> bool" where
  "footer_matches sha h bs f \<longleftrightarrow> ef_counts f = counts_of bs \<and> ef_contentHash f = sha (hash_text (open_items h bs))"

definition open_state :: "accumulator \<Rightarrow> escrow_header \<Rightarrow> escrow_batch list \<Rightarrow> raw_line list \<Rightarrow> accumulator" where
  "open_state st h bs ls = state_after (st\<lparr>ac_header := Some h, ac_totalBytes := total_size ls,
     ac_totalRecords := int (length (all_records 0 bs)), ac_hashed := hash_text (open_items h bs)\<rparr>) bs"

definition closed_state ::
  "accumulator \<Rightarrow> escrow_header \<Rightarrow> escrow_batch list \<Rightarrow> escrow_footer \<Rightarrow> raw_line list \<Rightarrow> accumulator" where
  "closed_state st h bs f ls = (open_state st h bs ls)\<lparr>ac_seenFooter := True,
     ac_resolved := Some (verification_of h f)\<rparr>"

definition in_hard_limits :: "accumulator \<Rightarrow> bool" where
  "in_hard_limits st \<longleftrightarrow> (\<forall>n \<in> {ac_lineBytesLimit st, ac_totalBytesLimit st, ac_recordLimit st,
     ac_batchLimit st, ac_messageLimit st}. 0 < n \<and> n \<le> MAX_TOTAL_BYTES)"

definition pristine :: "accumulator \<Rightarrow> bool" where
  "pristine st \<longleftrightarrow> (\<exists>a b c d e. st = fresh_accumulator a b c d e) \<and> in_hard_limits st"

lemma limit_bounds:
  "normalizeEscrowLimit v hi m = Inr n \<Longrightarrow> 0 < hi \<Longrightarrow> 0 < n \<and> n \<le> hi"
  by (auto simp: normalizeEscrowLimit_def split: if_splits)

lemma created_pristine:
  assumes "createNewsletterRetentionEscrowAccumulator opts = Inr st"
  shows "pristine st"
proof -
  obtain a b c d e where parts:
      "normalizeEscrowLimit (op_lineBytesLimit opts) MAX_LINE_BYTES ''lineBytesLimit'' = Inr a"
      "normalizeEscrowLimit (op_totalBytesLimit opts) MAX_TOTAL_BYTES ''totalBytesLimit'' = Inr b"
      "normalizeEscrowLimit (op_recordLimit opts) MAX_RECORDS ''recordLimit'' = Inr c"
      "normalizeEscrowLimit (op_batchLimit opts) MAX_BATCHES ''batchLimit'' = Inr d"
      "normalizeEscrowLimit (op_messageLimit opts) MAX_MESSAGES ''messageLimit'' = Inr e"
    and st: "st = fresh_accumulator a b c d e"
    using assms unfolding createNewsletterRetentionEscrowAccumulator_def bindE_Inr_iff by blast
  show ?thesis
    using parts [THEN limit_bounds]
    by (auto simp: st pristine_def in_hard_limits_def fresh_accumulator_def MAX_LINE_BYTES_def MAX_TOTAL_BYTES_def
      MAX_RECORDS_def MAX_BATCHES_def MAX_MESSAGES_def)
qed

lemma reads_as_snoc:
  "reads_as (ls @ [l]) (ps @ [p]) \<longleftrightarrow> reads_as ls ps \<and> text_of l = Some (line_text p) \<and> line_ok p"
  by (auto simp: reads_as_def)

lemma reads_as_length: "reads_as ls ps \<Longrightarrow> length ls = length ps"
  unfolding reads_as_def by (metis length_map)

lemma sizes_ok_snoc:
  "sizes_ok st (ls @ [l]) \<longleftrightarrow> sizes_ok st ls \<and> byte_size l \<le> ac_lineBytesLimit st
     \<and> total_size ls + (byte_size l + 1) \<le> ac_totalBytesLimit st"
  using byte_size_nonneg [of l] by (auto simp: sizes_ok_def total_size_def)

lemma budget_iff:
  assumes "in_hard_limits st" "sizes_ok st ls"
  shows "addSafeInteger (total_size ls) (byte_size l + 1) (ac_totalBytesLimit st) m = Inr n \<longleftrightarrow>
     total_size ls + (byte_size l + 1) \<le> ac_totalBytesLimit st \<and> n = total_size (ls @ [l])"
proof -
  have small: "ac_totalBytesLimit st \<le> max_safe" "0 < ac_totalBytesLimit st"
    using assms(1) by (auto simp: in_hard_limits_def MAX_TOTAL_BYTES_def max_safe_def)
  have "0 \<le> total_size ls" "0 \<le> byte_size l" by (rule total_size_nonneg byte_size_nonneg)+
  then show ?thesis using small by (auto simp: addSafeInteger_Inr_iff total_size_def)
qed

lemma hash_text_snoc: "hash_text (ps @ [p]) = hash_text ps @ line_text p @ [10]"
  by (simp add: hash_text_def)

lemma open_items_grow: "grow bs r = Some bs' \<Longrightarrow> open_items h bs' = open_items h bs @ [RecordLine r]"
  by (simp add: open_items_def grow_records)

lemma open_state_fields:
  "ac_lineBytesLimit (open_state st h bs ls) = ac_lineBytesLimit st"
  "ac_totalBytesLimit (open_state st h bs ls) = ac_totalBytesLimit st"
  "ac_recordLimit (open_state st h bs ls) = ac_recordLimit st"
  "ac_totalBytes (open_state st h bs ls) = total_size ls"
  "ac_totalRecords (open_state st h bs ls) = int (length (all_records 0 bs))"
  "ac_hashed (open_state st h bs ls) = hash_text (open_items h bs)"
  "ac_header (open_state st h bs ls) = Some h"
  "ac_counts (open_state st h bs ls) = counts_of bs"
  "ac_seenFooter (open_state st h bs ls) = ac_seenFooter st"
  "ac_failed (open_state st h bs ls) = ac_failed st"
  "ac_resolved (open_state st h bs ls) = ac_resolved st"
  by (simp_all add: open_state_def state_after_def)

lemma pristine_fields:
  "pristine st \<Longrightarrow> \<not> ac_seenFooter st" "pristine st \<Longrightarrow> \<not> ac_failed st" "pristine st \<Longrightarrow> ac_resolved st = None"
  "pristine st \<Longrightarrow> ac_header st = None" "pristine st \<Longrightarrow> ac_totalBytes st = 0" "pristine st \<Longrightarrow> in_hard_limits st"
  by (auto simp: pristine_def fresh_accumulator_def)

lemma consume_or_throw_iff:
  "consume_or_throw sha st l = Inr s \<longleftrightarrow> \<not> ac_failed st \<and> (\<exists>res. consumeLine sha l st = Inr (res, s))"
  by (auto simp: consume_or_throw_def consume_def split: sum.splits prod.splits)

lemma step_fresh:
  assumes st: "pristine st"
  shows "consume_or_throw sha st l = Inr s \<longleftrightarrow>
    (\<exists>h. reads_as [l] (open_items h []) \<and> sizes_ok st [l] \<and> s = open_state st h [] [l])"
proof -
  have item: "(\<exists>res. item_step sha p (st\<lparr>ac_totalBytes := total_size [l]\<rparr>) = Inr (res, s)) \<longleftrightarrow>
      (\<exists>h. p = HeaderLine h \<and> s = open_state st h [] [l])" for p
    using st
    by (cases p) (auto simp: item_step_def consumeHeader_def consumeFooter_def consumeRecord_def pristine_def
        fresh_accumulator_def open_state_def open_items_def hash_text_def state_after_def updateHash_def
        counts_of_def no_counts_def phase_after_def last_id_def fun_eq_iff)
  have start: "sizes_ok st []" "total_size [] = 0"
    using pristine_fields(6) [OF st] by (auto simp: sizes_ok_def total_size_def in_hard_limits_def)
  have heads: "(\<exists>p. text_of l = Some (line_text p) \<and> line_ok p \<and> (\<exists>h. p = HeaderLine h \<and> s = open_state st h [] [l]))
      \<longleftrightarrow> (\<exists>h. reads_as [l] (open_items h []) \<and> s = open_state st h [] [l])"
  proof -
    have "(\<exists>p. text_of l = Some (line_text p) \<and> line_ok p \<and> (\<exists>h. p = HeaderLine h \<and> s = open_state st h [] [l]))
      \<longleftrightarrow> (\<exists>h. text_of l = Some (line_text (HeaderLine h)) \<and> line_ok (HeaderLine h) \<and> s = open_state st h [] [l])"
      by blast
    then show ?thesis by (simp add: reads_as_def open_items_def)
  qed
  have "consume_or_throw sha st l = Inr s \<longleftrightarrow> sizes_ok st [l] \<and>
      (\<exists>p. text_of l = Some (line_text p) \<and> line_ok p
        \<and> (\<exists>res. item_step sha p (st\<lparr>ac_totalBytes := total_size [l]\<rparr>) = Inr (res, s)))"
    unfolding consume_or_throw_iff consumeLine_iff
    using pristine_fields [OF st] budget_iff [OF pristine_fields(6) [OF st] start(1), of l] start
      sizes_ok_snoc [of st "[]" l]
    by auto
  also have "\<dots> \<longleftrightarrow> (\<exists>h. reads_as [l] (open_items h []) \<and> sizes_ok st [l] \<and> s = open_state st h [] [l])"
    unfolding item heads by auto
  finally show ?thesis .
qed

lemma step_open:
  assumes st: "pristine st" and sizes: "sizes_ok st ls" and recs: "records_ok st h bs"
  shows "consume_or_throw sha (open_state st h bs ls) l = Inr s \<longleftrightarrow> sizes_ok st (ls @ [l]) \<and>
    ((\<exists>r bs'. text_of l = Some (record_line r) \<and> escrow_record_ok r \<and> grow bs r = Some bs'
        \<and> records_ok st h bs' \<and> s = open_state st h bs' (ls @ [l]))
     \<or> (\<exists>f. text_of l = Some (footer_line f) \<and> footer_ok f \<and> footer_matches sha h bs f
        \<and> s = closed_state st h bs f (ls @ [l])))"
proof -
  let ?S = "(open_state st h bs ls)\<lparr>ac_totalBytes := total_size (ls @ [l])\<rparr>"
  let ?n = "int (length (all_records 0 bs))"
  let ?st' = "st\<lparr>ac_header := Some h, ac_totalBytes := total_size (ls @ [l]), ac_totalRecords := ?n + 1,
     ac_hashed := hash_text (open_items h bs)\<rparr>"
  have lim: "limits_ok ?st'" "\<bar>ac_recordLimit st\<bar> \<le> max_safe" "?n \<le> ac_recordLimit st"
    using pristine_fields(6) [OF st] recs
    by (auto simp: limits_ok_def in_hard_limits_def MAX_TOTAL_BYTES_def max_safe_def records_ok_def)
  have count: "addSafeInteger ?n 1 (ac_recordLimit st) m = Inr k \<longleftrightarrow> ?n + 1 \<le> ac_recordLimit st \<and> k = ?n + 1" for m k
    using lim by (auto simp: addSafeInteger_Inr_iff max_safe_def)
  have count_S: "addSafeInteger (ac_totalRecords ?S) 1 (ac_recordLimit ?S) m = Inr k \<longleftrightarrow>
      ?n + 1 \<le> ac_recordLimit st \<and> k = ?n + 1" for m k
    using count by (simp add: open_state_fields)
  have same: "batches_valid (eh_siteId h) ?st' = batches_valid (eh_siteId h) st"
    by (simp add: batches_valid_def within_limits_def fun_eq_iff)
  have enter: "?S\<lparr>ac_totalRecords := ?n + 1\<rparr> = state_after ?st' bs"
    by (simp add: open_state_def state_after_def)
  have row: "(\<exists>res. item_step sha (RecordLine r) ?S = Inr (res, s)) \<longleftrightarrow>
      (\<exists>bs'. grow bs r = Some bs' \<and> records_ok st h bs' \<and> s = open_state st h bs' (ls @ [l]))"
    if ok: "escrow_record_ok r" for r
  proof -
    have step: "consumeRecord r (state_after ?st' bs) = Inr t \<longleftrightarrow>
        (\<exists>bs'. grow bs r = Some bs' \<and> batches_valid (eh_siteId h) st bs' \<and> t = state_after ?st' bs')" for t
      using consume_step [OF _ lim(1) _ row_wf_ok [OF ok], of h bs t] recs by (simp add: same records_ok_def)
    have hashed: "updateHash (record_line r) (state_after ?st' bs') = open_state st h bs' (ls @ [l])"
      and grown: "int (length (all_records 0 bs')) = ?n + 1" if "grow bs r = Some bs'" for bs'
      using that grow_records [OF that]
      by (simp_all add: open_items_grow hash_text_snoc updateHash_def open_state_def state_after_def)
    have "(\<exists>res. item_step sha (RecordLine r) ?S = Inr (res, s)) \<longleftrightarrow> ?n + 1 \<le> ac_recordLimit st
        \<and> (\<exists>t. consumeRecord r (state_after ?st' bs) = Inr t \<and> s = updateHash (record_line r) t)"
      unfolding item_step_def escrow_line.case bindE_Inr_iff count_S enter [symmetric]
      by auto
    also have "\<dots> \<longleftrightarrow> ?n + 1 \<le> ac_recordLimit st
        \<and> (\<exists>bs'. grow bs r = Some bs' \<and> batches_valid (eh_siteId h) st bs'
              \<and> s = updateHash (record_line r) (state_after ?st' bs'))"
      unfolding step by blast
    finally show ?thesis using hashed grown by (simp add: records_ok_def cong: conj_cong) blast
  qed
  have footer: "(\<exists>res. item_step sha (FooterLine f) ?S = Inr (res, s)) \<longleftrightarrow>
      footer_matches sha h bs f \<and> s = closed_state st h bs f (ls @ [l])" for f
    by (auto simp: item_step_def consumeFooter_def open_state_fields footer_matches_def closed_state_def
        verification_of_def open_state_def state_after_def)
  have header: "item_step sha (HeaderLine h') ?S \<noteq> Inr x" for h' x
    by (simp add: item_step_def consumeHeader_def open_state_fields)
  have "consume_or_throw sha (open_state st h bs ls) l = Inr s \<longleftrightarrow> sizes_ok st (ls @ [l]) \<and>
      (\<exists>p. text_of l = Some (line_text p) \<and> line_ok p \<and> (\<exists>res. item_step sha p ?S = Inr (res, s)))"
    unfolding consume_or_throw_iff consumeLine_iff
    using pristine_fields [OF st] budget_iff [OF pristine_fields(6) [OF st] sizes, of l] sizes_ok_snoc [of st ls l] sizes
    by (auto simp: open_state_fields)
  also have "(\<exists>p. text_of l = Some (line_text p) \<and> line_ok p \<and> (\<exists>res. item_step sha p ?S = Inr (res, s))) \<longleftrightarrow>
      (\<exists>r. text_of l = Some (record_line r) \<and> escrow_record_ok r \<and> (\<exists>res. item_step sha (RecordLine r) ?S = Inr (res, s)))
      \<or> (\<exists>f. text_of l = Some (footer_line f) \<and> footer_ok f \<and> (\<exists>res. item_step sha (FooterLine f) ?S = Inr (res, s)))"
    using header by (metis escrow_line.exhaust line_ok.simps line_text.simps)
  finally show ?thesis using row unfolding footer by blast
qed

lemma step_closed: "consume_or_throw sha (closed_state st h bs f ls) l \<noteq> Inr s"
  by (simp add: consume_or_throw_iff consumeLine_iff closed_state_def)

text \<open>Every state a run of lines can leave, and the lines that lead to it.\<close>

lemma run_iff:
  assumes st: "pristine st"
  shows "foldE (consume_or_throw sha) st ls = Inr s \<longleftrightarrow> ls = [] \<and> s = st
    \<or> (\<exists>h bs. reads_as ls (open_items h bs) \<and> sizes_ok st ls \<and> records_ok st h bs \<and> s = open_state st h bs ls)
    \<or> (\<exists>h bs f. reads_as ls (open_items h bs @ [FooterLine f]) \<and> sizes_ok st ls \<and> records_ok st h bs
         \<and> footer_matches sha h bs f \<and> s = closed_state st h bs f ls)"
    (is "_ \<longleftrightarrow> ?A ls s \<or> ?B ls s \<or> ?C ls s")
proof (induction ls arbitrary: s rule: rev_induct)
  case Nil
  then show ?case by (auto simp: reads_as_def open_items_def)
next
  case (snoc l ls)
  have empty: "records_ok st h []" for h
    using no_batches_valid [of st] pristine_fields(6) [OF st] by (auto simp: records_ok_def in_hard_limits_def)
  have "foldE (consume_or_throw sha) st (ls @ [l]) = Inr s \<longleftrightarrow>
      (\<exists>t. (?A ls t \<or> ?B ls t \<or> ?C ls t) \<and> consume_or_throw sha t l = Inr s)"
    unfolding foldE_append by (auto simp: snoc.IH)
  also have "\<dots> \<longleftrightarrow> ?B (ls @ [l]) s \<or> ?C (ls @ [l]) s"
  proof
    assume "\<exists>t. (?A ls t \<or> ?B ls t \<or> ?C ls t) \<and> consume_or_throw sha t l = Inr s"
    then obtain t where t: "?A ls t \<or> ?B ls t \<or> ?C ls t" and run: "consume_or_throw sha t l = Inr s" by blast
    have "\<not> ?C ls t" using run step_closed by metis
    then consider "?A ls t" | "?B ls t" using t by blast
    then show "?B (ls @ [l]) s \<or> ?C (ls @ [l]) s"
    proof cases
      case 1
      then show ?thesis using run empty by (auto simp: step_fresh [OF st])
    next
      case 2
      then obtain h bs where B: "reads_as ls (open_items h bs)" "sizes_ok st ls" "records_ok st h bs"
        "t = open_state st h bs ls" by blast
      from run [unfolded B(4) step_open [OF st B(2,3)]] have sizes: "sizes_ok st (ls @ [l])"
        and next_item: "(\<exists>r bs'. text_of l = Some (record_line r) \<and> escrow_record_ok r \<and> grow bs r = Some bs'
            \<and> records_ok st h bs' \<and> s = open_state st h bs' (ls @ [l]))
          \<or> (\<exists>f. text_of l = Some (footer_line f) \<and> footer_ok f \<and> footer_matches sha h bs f
            \<and> s = closed_state st h bs f (ls @ [l]))" by blast+
      have "reads_as (ls @ [l]) (open_items h bs')" if "text_of l = Some (record_line r)" "escrow_record_ok r"
        "grow bs r = Some bs'" for r bs' using that B(1) by (simp add: open_items_grow reads_as_snoc)
      moreover have "reads_as (ls @ [l]) (open_items h bs @ [FooterLine f])" if "text_of l = Some (footer_line f)"
        "footer_ok f" for f using that B(1) by (simp add: reads_as_snoc)
      ultimately show ?thesis using next_item sizes B(3) by blast
    qed
  next
    assume "?B (ls @ [l]) s \<or> ?C (ls @ [l]) s"
    then show "\<exists>t. (?A ls t \<or> ?B ls t \<or> ?C ls t) \<and> consume_or_throw sha t l = Inr s"
    proof
      assume "?B (ls @ [l]) s"
      then obtain h bs' where B: "reads_as (ls @ [l]) (open_items h bs')" "sizes_ok st (ls @ [l])"
        "records_ok st h bs'" "s = open_state st h bs' (ls @ [l])" by blast
      show ?thesis
      proof (cases "all_records 0 bs'" rule: rev_cases)
        case Nil
        then have nil: "bs' = []" by (cases bs') (simp_all add: batch_records_def)
        then have "ls = []" using reads_as_length [OF B(1)] by (simp add: open_items_def)
        then show ?thesis using B nil step_fresh [OF st] by (intro exI [of _ st]) auto
      next
        case (snoc recs r)
        obtain bs where bs: "recs = all_records 0 bs" "grow bs r = Some bs'"
          using grow_complete [OF snoc] by blast
        have reads: "reads_as ls (open_items h bs)" "text_of l = Some (record_line r)" "escrow_record_ok r"
          using B(1) unfolding open_items_grow [OF bs(2)] reads_as_snoc by simp_all
        have ok: "records_ok st h bs"
          using B(3) valid_shrink [OF bs(2)] snoc bs(1) by (simp add: records_ok_def)
        have sizes: "sizes_ok st ls" using B(2) by (simp add: sizes_ok_snoc)
        have "consume_or_throw sha (open_state st h bs ls) l = Inr s"
          using step_open [OF st sizes ok] reads bs(2) B by blast
        then show ?thesis using reads(1) sizes ok by blast
      qed
    next
      assume "?C (ls @ [l]) s"
      then obtain h bs f where C: "reads_as (ls @ [l]) (open_items h bs @ [FooterLine f])" "sizes_ok st (ls @ [l])"
        "records_ok st h bs" "footer_matches sha h bs f" "s = closed_state st h bs f (ls @ [l])" by blast
      have reads: "reads_as ls (open_items h bs)" "text_of l = Some (footer_line f)" "footer_ok f"
        using C(1) unfolding reads_as_snoc by simp_all
      have sizes: "sizes_ok st ls" using C(2) by (simp add: sizes_ok_snoc)
      have "consume_or_throw sha (open_state st h bs ls) l = Inr s"
        using step_open [OF st sizes C(3)] reads C by blast
      then show ?thesis using reads(1) sizes C(3) by blast
    qed
  qed
  finally show ?case by simp
qed

lemma verify_lines_iff:
  "verify_lines sha opts ls = Inr v \<longleftrightarrow>
     (\<exists>st h bs f. createNewsletterRetentionEscrowAccumulator opts = Inr st
        \<and> reads_as ls (open_items h bs @ [FooterLine f]) \<and> sizes_ok st ls
        \<and> batches_valid (eh_siteId h) st bs \<and> int (length (all_records 0 bs)) \<le> ac_recordLimit st
        \<and> ef_counts f = counts_of bs \<and> ef_contentHash f = sha (hash_text (open_items h bs))
        \<and> v = verification_of h f)"
proof -
  have "bindE (foldE (consume_or_throw sha) st ls) finalize = Inr v \<longleftrightarrow>
      (\<exists>h bs f. reads_as ls (open_items h bs @ [FooterLine f]) \<and> sizes_ok st ls \<and> records_ok st h bs
         \<and> footer_matches sha h bs f \<and> v = verification_of h f)"
    if "createNewsletterRetentionEscrowAccumulator opts = Inr st" for st
  proof -
    note st = created_pristine [OF that]
    have not_yet: "finalize st \<noteq> Inr v" "finalize (open_state st h bs ls) \<noteq> Inr v" for h bs
      using pristine_fields(3) [OF st] by (simp_all add: finalize_def open_state_fields)
    have done_then: "finalize (closed_state st h bs f ls) = Inr v \<longleftrightarrow> v = verification_of h f" for h bs f
      by (auto simp: finalize_def closed_state_def)
    show ?thesis (is "?run \<longleftrightarrow> ?spec")
    proof
      assume ?run
      then obtain s where s: "foldE (consume_or_throw sha) st ls = Inr s" "finalize s = Inr v" by auto
      then have "s \<noteq> st" "\<forall>h bs. s \<noteq> open_state st h bs ls" using not_yet by metis+
      then obtain h bs f where "reads_as ls (open_items h bs @ [FooterLine f])" "sizes_ok st ls" "records_ok st h bs"
        "footer_matches sha h bs f" "s = closed_state st h bs f ls"
        using s(1) unfolding run_iff [OF st] by blast
      then show ?spec using s(2) done_then by blast
    next
      assume ?spec
      then obtain h bs f where f: "reads_as ls (open_items h bs @ [FooterLine f])" "sizes_ok st ls" "records_ok st h bs"
        "footer_matches sha h bs f" "v = verification_of h f" by blast
      then have "foldE (consume_or_throw sha) st ls = Inr (closed_state st h bs f ls)"
        unfolding run_iff [OF st] by blast
      then show ?run using f(5) done_then by simp
    qed
  qed
  then show ?thesis
    unfolding verify_lines_def records_ok_def footer_matches_def bindE_Inr_iff [of "createNewsletterRetentionEscrowAccumulator opts"]
    by blast
qed

section \<open>Properties\<close>

text \<open>
  C3: the verifier accepts exactly the well-formed escrow files. A run over the lines of a file
  returns a result just when the lines are, in this order, the canonical header line, the canonical
  record lines of whole batches numbered 0, 1, 2, ... and one canonical footer line; when the
  batches satisfy the row invariants (parents of the site, rows sorted strictly by id, children of
  the parent read before them, ids unique over the file) and every line, byte and row limit holds;
  and when the footer's counts and its hash are those of the lines before it. The result is then
  the header's fields with the footer's counts and hash.
\<close>

theorem escrow_verifier_refines_grammar:
  "verify_lines sha opts ls = Inr v \<longleftrightarrow>
     (\<exists>st h bs f. createNewsletterRetentionEscrowAccumulator opts = Inr st
        \<and> reads_as ls (open_items h bs @ [FooterLine f]) \<and> sizes_ok st ls
        \<and> batches_valid (eh_siteId h) st bs \<and> int (length (all_records 0 bs)) \<le> ac_recordLimit st
        \<and> ef_counts f = counts_of bs \<and> ef_contentHash f = sha (hash_text (open_items h bs))
        \<and> v = verification_of h f)"
  by (rule verify_lines_iff)

text \<open>
  a verifier that has thrown once is finished. After any line that throws, every further line
  throws the failed-accumulator error and leaves the accumulator as it is, so no later line can turn
  a corrupt file into an accepted one.
\<close>

theorem failed_accumulator_stays_failed:
  assumes "consume sha l st = (Inl e, st')"
  shows "ac_failed st' \<and> consume sha l' st' = (Inl (Error ''escrow accumulator is failed''), st')"
  using assms by (auto simp: consume_def split: if_splits sum.splits prod.splits)

lemma failed_accumulator_stays_failed_witness:
  "let st = fresh_accumulator 100 100 10 10 10; failed = snd (consume (\<lambda>t. t) OtherLine st) in
   consume (\<lambda>t. t) (TextLine []) failed = (Inl (Error ''escrow accumulator is failed''), failed)"
proof -
  let ?st = "fresh_accumulator 100 100 10 10 10"
  have first: "consume (\<lambda>t. t) OtherLine ?st
      = (Inl (Error ''escrow line must be a string or Uint8Array''), ?st\<lparr>ac_failed := True\<rparr>)"
    by (simp add: consume_def fresh_accumulator_def consumeLine_def normalizeRawLine_def)
  from failed_accumulator_stays_failed [OF first, of "TextLine []"] show ?thesis
    unfolding Let_def first by simp
qed

end
