(* ===== verification/CandidateLoader.thy ===== *)
theory CandidateLoader
  imports RetentionPlan
begin

text \<open>
  The loader of candidate batches (service/newsletter-retention-candidate-loader.ts). The database
  client is a record of the three queries the loader sends; each answers with a value of any shape
  or fails, so that the loader's checks on the answers are part of the model. The fixed parts of the
  queries (the ordering) are fields of the query records; the selected columns are the ones read.
\<close>

section \<open>Queries and rows\<close>

record batch_find_args =
  bf_siteId :: jstr
  bf_created_lt :: int
  bf_orderBy :: "(string \<times> string) list"
  bf_take :: int

record message_find_args =
  mq_newsletterBatchId :: jstr
  mq_orderBy :: "(string \<times> string) list"
  mq_take :: int

text \<open>\<^verbatim>\<open>where: { messageId: { in: ids }, reconciledAt: null }\<close>\<close>

record orphan_count_args =
  oc_messageId_in :: "jstr list"

record candidate_delegate =
  newsletterBatch_findMany :: "batch_find_args \<Rightarrow> js res"
  newsletterMessages_findMany :: "message_find_args \<Rightarrow> js res"
  newsletterNotificationOrphan_count :: "orphan_count_args \<Rightarrow> js res"

record candidate_record =
  cr_siteId :: jstr
  cr_batchRecordId :: jstr
  cr_batchId :: jstr
  cr_createdAt :: jstr
  cr_messageCount :: int
  cr_notificationCount :: int
  cr_errorCount :: int
  cr_orphanCount :: int
  cr_correlationComplete :: bool

record batch_aggregate =
  ba_batchRecordId :: jstr
  ba_batchId :: jstr
  ba_createdAt :: jstr
  ba_messageCount :: int
  ba_errorCount :: int

record candidate_state =
  cs_batchId :: jstr
  cs_batchRecordId :: jstr
  cs_createdAt :: jstr
  cs_messageCount :: int
  cs_notificationCount :: int
  cs_errorCount :: int
  cs_messageIds :: "jstr list"
  cs_orphanCount :: int

section \<open>Validation of the policy and of the answers\<close>

definition normalizeCount :: "js \<Rightarrow> string \<Rightarrow> int res" where
  "normalizeCount v field = safe_count v (Error (field @ '' must be a non-negative integer''))"

definition normalizePositiveInteger :: "js \<Rightarrow> string \<Rightarrow> int res" where
  "normalizePositiveInteger v field = safe_positive v (Error (field @ '' must be a positive integer''))"

definition normalizeLimitedPositiveInteger :: "int \<Rightarrow> string \<Rightarrow> int \<Rightarrow> string \<Rightarrow> int res" where
  "normalizeLimitedPositiveInteger n field hi hi_text =
     (if n > hi then Inl (Error (field @ '' must not exceed '' @ hi_text)) else Inr n)"

definition parseStrictUtcIso :: "js \<Rightarrow> string \<Rightarrow> int res" where
  "parseStrictUtcIso v field = parse_strict_utc v (strict_iso_error field)"

definition normalizeSiteId :: "js \<Rightarrow> jstr res" where
  "normalizeSiteId v = trimmed_string v (Error ''siteId must be a non-empty string'')"

definition normalizeRowId :: "js \<Rightarrow> jstr res" where
  "normalizeRowId v = nonempty_string v (Error ''newsletterBatch.id must be a non-empty string'')"

definition normalizeBatchId :: "js \<Rightarrow> jstr res" where
  "normalizeBatchId v = nonblank_string v (Error ''newsletterBatch.batchId must be a non-empty string'')"

definition normalizeMessageId :: "js \<Rightarrow> jstr res" where
  "normalizeMessageId v = nonblank_string v (Error ''newsletterMessages.messageId must be a non-empty string'')"

definition normalizeCreatedAt :: "js \<Rightarrow> jstr res" where
  "normalizeCreatedAt v = (case v of
     JDate (Some t) \<Rightarrow> Inr (to_iso t)
   | _ \<Rightarrow> Inl (Error ''newsletterBatch.created must be a Date''))"

text \<open>The pair is (NewslettersErrors, NewslettersMessages).\<close>

definition normalizeCountAggregate :: "js \<Rightarrow> (int \<times> int) res" where
  "normalizeCountAggregate v =
     (if \<not> is_object_not_array v then Inl (Error ''newsletterBatch row must include aggregate child counts'')
      else bindE (normalizeCount (get_prop v ''NewslettersErrors'') ''newsletterBatch._count.NewslettersErrors'') (\<lambda>errors.
           bindE (normalizeCount (get_prop v ''NewslettersMessages'') ''newsletterBatch._count.NewslettersMessages'') (\<lambda>messages.
             Inr (errors, messages))))"

definition normalizeBatchAggregateRow :: "js \<Rightarrow> batch_aggregate res" where
  "normalizeBatchAggregateRow row =
     (if \<not> is_object_not_array row then Inl (Error ''newsletterBatch row must be a plain object'')
      else bindE (normalizeCountAggregate (get_prop row ''_count'')) (\<lambda>counts.
           bindE (normalizeRowId (get_prop row ''id'')) (\<lambda>recordId.
           bindE (normalizeBatchId (get_prop row ''batchId'')) (\<lambda>batchId.
           bindE (normalizeCreatedAt (get_prop row ''created'')) (\<lambda>createdAt.
             Inr \<lparr>ba_batchRecordId = recordId, ba_batchId = batchId, ba_createdAt = createdAt,
                  ba_messageCount = snd counts, ba_errorCount = fst counts\<rparr>)))))"

definition ensureBatchRows :: "js \<Rightarrow> js list res" where
  "ensureBatchRows v = (case v of
     JArr rows \<Rightarrow> Inr rows
   | _ \<Rightarrow> Inl (Error ''newsletterBatch.findMany must return an array''))"

definition normalizeMessageCountAggregate :: "js \<Rightarrow> int res" where
  "normalizeMessageCountAggregate v =
     (if \<not> is_object_not_array v
      then Inl (Error ''newsletterMessages row must include notification event counts'')
      else normalizeCount (get_prop v ''notificationEvents'') ''newsletterMessages._count.notificationEvents'')"

text \<open>The callback of the map over the rows, with the set of message ids seen so far.\<close>

fun normalize_message_rows :: "jstr set \<Rightarrow> nat \<Rightarrow> js list \<Rightarrow> (jstr \<times> int) list res" where
  "normalize_message_rows seen i [] = Inr []"
| "normalize_message_rows seen i (row # rows) =
     (if \<not> is_object_not_array row
      then Inl (Error (''newsletterMessages.findMany['' @ nat_text i @ ''] must be a plain object''))
      else bindE (normalizeMessageId (get_prop row ''messageId'')) (\<lambda>messageId.
             if messageId \<in> seen
             then Inl (Error ''newsletterMessages.findMany returned duplicate messageId'')
             else bindE (normalizeMessageCountAggregate (get_prop row ''_count'')) (\<lambda>events.
                  bindE (normalize_message_rows (insert messageId seen) (Suc i) rows) (\<lambda>rest.
                    Inr ((messageId, events) # rest)))))"

definition normalizeMessageRows :: "js \<Rightarrow> int \<Rightarrow> (jstr \<times> int) list res" where
  "normalizeMessageRows v expected = (case v of
     JArr rows \<Rightarrow>
       if int (length rows) \<noteq> expected
       then Inl (Error ''newsletterMessages.findMany returned unexpected number of rows'')
       else normalize_message_rows {} 0 rows
   | _ \<Rightarrow> Inl (Error ''newsletterMessages.findMany must return an array''))"

definition countBatchLinkedOrphans :: "candidate_delegate \<Rightarrow> jstr list \<Rightarrow> int res" where
  "countBatchLinkedOrphans d ids =
     bindE (newsletterNotificationOrphan_count d \<lparr>oc_messageId_in = ids\<rparr>) (\<lambda>n.
       normalizeCount n ''newsletterNotificationOrphan.count'')"

section \<open>Loading\<close>

definition batch_query :: "jstr \<Rightarrow> int \<Rightarrow> int \<Rightarrow> batch_find_args" where
  "batch_query siteId cutoff maxBatches = \<lparr>bf_siteId = siteId, bf_created_lt = cutoff,
     bf_orderBy = [(''created'', ''asc''), (''id'', ''asc'')], bf_take = maxBatches + 1\<rparr>"

definition message_query :: "jstr \<Rightarrow> int \<Rightarrow> message_find_args" where
  "message_query recordId messageCount = \<lparr>mq_newsletterBatchId = recordId,
     mq_orderBy = [(''id'', ''asc'')], mq_take = messageCount + 1\<rparr>"

text \<open>One turn of the loop over the batch summaries.\<close>

definition load_candidate :: "candidate_delegate \<Rightarrow> batch_aggregate \<Rightarrow> candidate_state res" where
  "load_candidate d s =
     (if ba_messageCount s = 0
      then Inr \<lparr>cs_batchId = ba_batchId s, cs_batchRecordId = ba_batchRecordId s, cs_createdAt = ba_createdAt s,
                cs_messageCount = 0, cs_notificationCount = 0, cs_errorCount = ba_errorCount s,
                cs_messageIds = [], cs_orphanCount = 0\<rparr>
      else bindE (newsletterMessages_findMany d (message_query (ba_batchRecordId s) (ba_messageCount s))) (\<lambda>answer.
           bindE (normalizeMessageRows answer (ba_messageCount s)) (\<lambda>rows.
           bindE (foldE (\<lambda>total row. safe_add total (snd row) ''newsletterMessages._count.notificationEvents'') 0 rows)
                 (\<lambda>notifications.
           bindE (countBatchLinkedOrphans d (map fst rows)) (\<lambda>orphans.
             Inr \<lparr>cs_batchId = ba_batchId s, cs_batchRecordId = ba_batchRecordId s, cs_createdAt = ba_createdAt s,
                  cs_messageCount = ba_messageCount s, cs_notificationCount = notifications,
                  cs_errorCount = ba_errorCount s, cs_messageIds = map fst rows, cs_orphanCount = orphans\<rparr>)))))"

definition compareNormalizedCandidates :: "candidate_state \<Rightarrow> candidate_state \<Rightarrow> int" where
  "compareNormalizedCandidates l r =
     js_or (js_or (js_or (js_or (js_or
       (compare_strings (cs_createdAt l) (cs_createdAt r))
       (compare_strings (cs_batchId l) (cs_batchId r)))
       (cs_messageCount l - cs_messageCount r))
       (cs_notificationCount l - cs_notificationCount r))
       (cs_errorCount l - cs_errorCount r))
       (compare_strings (cs_batchRecordId l) (cs_batchRecordId r))"

definition candidate_record_of :: "jstr \<Rightarrow> candidate_state \<Rightarrow> candidate_record" where
  "candidate_record_of siteId c = \<lparr>cr_siteId = siteId, cr_batchRecordId = cs_batchRecordId c,
     cr_batchId = cs_batchId c, cr_createdAt = cs_createdAt c, cr_messageCount = cs_messageCount c,
     cr_notificationCount = cs_notificationCount c, cr_errorCount = cs_errorCount c,
     cr_orphanCount = cs_orphanCount c, cr_correlationComplete = (cs_orphanCount c = 0)\<rparr>"

definition loadNewsletterRetentionCandidateRecords ::
  "candidate_delegate \<Rightarrow> retention_policy \<Rightarrow> candidate_record list res" where
  "loadNewsletterRetentionCandidateRecords d policy =
     bindE (normalizeSiteId (JStr (pol_siteId policy))) (\<lambda>siteId.
     bindE (parseStrictUtcIso (JStr (pol_cutoff policy)) ''cutoff'') (\<lambda>cutoff.
     bindE (bindE (normalizePositiveInteger (jint (pol_maxBatches policy)) ''maxBatches'') (\<lambda>n.
              normalizeLimitedPositiveInteger n ''maxBatches'' 100 ''100'')) (\<lambda>maxBatches.
     bindE (bindE (normalizePositiveInteger (jint (pol_maxMessages policy)) ''maxMessages'') (\<lambda>n.
              normalizeLimitedPositiveInteger n ''maxMessages'' 10000 ''10000'')) (\<lambda>maxMessages.
     bindE (newsletterBatch_findMany d (batch_query siteId cutoff maxBatches)) (\<lambda>answer.
     bindE (ensureBatchRows answer) (\<lambda>rows.
       if int (length rows) > maxBatches
       then Inl (Error ''newsletterBatch.findMany returned more batches than maxBatches'')
       else
         bindE (mapE normalizeBatchAggregateRow rows) (\<lambda>summaries.
         bindE (foldE (\<lambda>total row. safe_add total (ba_messageCount row) ''newsletterBatch._count.NewslettersMessages'')
                 0 summaries) (\<lambda>totalMessages.
           if totalMessages > maxMessages
           then Inl (Error ''sum of newsletterBatch._count.NewslettersMessages exceeds maxMessages'')
           else
             bindE (mapE (load_candidate d) summaries) (\<lambda>loaded.
               Inr (map (candidate_record_of siteId) (sort_by compareNormalizedCandidates loaded)))))))))))"

text \<open>The public candidate, without the private row id.\<close>

definition candidate_object :: "candidate_record \<Rightarrow> js" where
  "candidate_object r = obj [(''siteId'', JStr (cr_siteId r)), (''batchId'', JStr (cr_batchId r)),
     (''createdAt'', JStr (cr_createdAt r)), (''messageCount'', jint (cr_messageCount r)),
     (''notificationCount'', jint (cr_notificationCount r)), (''errorCount'', jint (cr_errorCount r)),
     (''orphanCount'', jint (cr_orphanCount r)), (''correlationComplete'', JBool (cr_correlationComplete r))]"

definition loadNewsletterRetentionCandidates :: "candidate_delegate \<Rightarrow> retention_policy \<Rightarrow> js list res" where
  "loadNewsletterRetentionCandidates d policy =
     bindE (loadNewsletterRetentionCandidateRecords d policy) (\<lambda>rs. Inr (map candidate_object rs))"

section \<open>What the loader returns\<close>

definition summary_ok :: "batch_aggregate \<Rightarrow> bool" where
  "summary_ok s \<longleftrightarrow> ba_batchRecordId s \<noteq> [] \<and> trim (ba_batchId s) \<noteq> [] \<and> (\<exists>t. ba_createdAt s = to_iso t)
     \<and> 0 \<le> ba_messageCount s \<and> ba_messageCount s \<le> max_safe \<and> 0 \<le> ba_errorCount s \<and> ba_errorCount s \<le> max_safe"

definition state_ok :: "candidate_state \<Rightarrow> bool" where
  "state_ok c \<longleftrightarrow> cs_batchRecordId c \<noteq> [] \<and> trim (cs_batchId c) \<noteq> [] \<and> (\<exists>t. cs_createdAt c = to_iso t)
     \<and> 0 \<le> cs_messageCount c \<and> cs_messageCount c \<le> max_safe
     \<and> 0 \<le> cs_notificationCount c \<and> cs_notificationCount c \<le> max_safe
     \<and> 0 \<le> cs_errorCount c \<and> cs_errorCount c \<le> max_safe
     \<and> 0 \<le> cs_orphanCount c \<and> cs_orphanCount c \<le> max_safe
     \<and> (cs_messageCount c = 0 \<longrightarrow> cs_notificationCount c = 0 \<and> cs_orphanCount c = 0)
     \<and> int (length (cs_messageIds c)) = cs_messageCount c \<and> distinct (cs_messageIds c)"

lemma normalizeBatchAggregateRow_ok: "normalizeBatchAggregateRow row = Inr s \<Longrightarrow> summary_ok s"
  by (auto simp: normalizeBatchAggregateRow_def normalizeCountAggregate_def normalizeCount_def normalizeRowId_def
      normalizeBatchId_def normalizeCreatedAt_def summary_ok_def split: js.splits option.splits)

lemma normalize_message_rows_ok:
  "normalize_message_rows seen i rows = Inr ms \<Longrightarrow>
     length ms = length rows \<and> distinct (map fst ms) \<and> fst ` set ms \<inter> seen = {} \<and> (\<forall>m \<in> set ms. 0 \<le> snd m)"
proof (induction seen i rows arbitrary: ms rule: normalize_message_rows.induct)
  case (2 seen i row rows)
  then obtain ident events rest where run:
      "ident \<notin> seen" "normalize_message_rows (insert ident seen) (Suc i) rows = Inr rest"
      "ms = (ident, events) # rest" "0 \<le> events"
    by (auto simp: normalizeMessageCountAggregate_def normalizeCount_def)
  with "2.IH" [of ident] "2.prems" show ?case
    by (auto split: if_splits)
qed simp

lemma normalizeMessageRows_ok:
  assumes "normalizeMessageRows v n = Inr ms"
  shows "int (length ms) = n" "distinct (map fst ms)" "\<forall>m \<in> set ms. 0 \<le> snd m"
  using assms by (auto simp: normalizeMessageRows_def split: js.splits dest: normalize_message_rows_ok)

lemma load_candidate_ok:
  assumes "load_candidate d s = Inr c" "summary_ok s"
  shows "state_ok c \<and> cs_messageCount c = ba_messageCount s \<and> cs_errorCount c = ba_errorCount s
     \<and> cs_createdAt c = ba_createdAt s \<and> cs_batchId c = ba_batchId s \<and> cs_batchRecordId c = ba_batchRecordId s"
proof (cases "ba_messageCount s = 0")
  case True
  then show ?thesis using assms by (auto simp: load_candidate_def state_ok_def summary_ok_def max_safe_def)
next
  case False
  then obtain answer rows n orphans where run: "normalizeMessageRows answer (ba_messageCount s) = Inr rows"
      "foldE (\<lambda>total row. safe_add total (snd row) ''newsletterMessages._count.notificationEvents'') 0 rows = Inr n"
      "0 \<le> orphans" "orphans \<le> max_safe"
      "c = \<lparr>cs_batchId = ba_batchId s, cs_batchRecordId = ba_batchRecordId s, cs_createdAt = ba_createdAt s,
          cs_messageCount = ba_messageCount s, cs_notificationCount = n, cs_errorCount = ba_errorCount s,
          cs_messageIds = map fst rows, cs_orphanCount = orphans\<rparr>"
    using assms(1) by (auto simp: load_candidate_def countBatchLinkedOrphans_def normalizeCount_def)
  have "0 \<le> n \<and> n \<le> max_safe"
    using run(2) by (auto simp: safe_sum_Inr_iff max_safe_def intro!: sum_list_nonneg)
  then show ?thesis
    using run normalizeMessageRows_ok [OF run(1)] assms(2) False by (auto simp: state_ok_def summary_ok_def)
qed

interpretation loaded_order: comparator_laws compareNormalizedCandidates
  unfolding compareNormalizedCandidates_def [abs_def]
  by (intro comparator_js_or comparator_compare_strings comparator_diff)

definition public_batch :: "candidate_record \<Rightarrow> selection_candidate" where
  "public_batch r = \<lparr>mb_batchId = cr_batchId r, mb_createdAt = cr_createdAt r, mb_messageCount = cr_messageCount r,
     mb_notificationCount = cr_notificationCount r, mb_errorCount = cr_errorCount r\<rparr>"

definition record_ok :: "candidate_record \<Rightarrow> bool" where
  "record_ok r \<longleftrightarrow> cr_batchRecordId r \<noteq> [] \<and> trim (cr_batchId r) \<noteq> [] \<and> (\<exists>t. cr_createdAt r = to_iso t)
     \<and> 0 \<le> cr_messageCount r \<and> cr_messageCount r \<le> max_safe
     \<and> 0 \<le> cr_notificationCount r \<and> cr_notificationCount r \<le> max_safe
     \<and> 0 \<le> cr_errorCount r \<and> cr_errorCount r \<le> max_safe
     \<and> 0 \<le> cr_orphanCount r \<and> cr_orphanCount r \<le> max_safe
     \<and> (cr_messageCount r = 0 \<longrightarrow> cr_notificationCount r = 0 \<and> cr_orphanCount r = 0)
     \<and> (cr_correlationComplete r \<longleftrightarrow> cr_orphanCount r = 0)"

lemma record_of_state_ok: "state_ok c \<Longrightarrow> record_ok (candidate_record_of siteId c)"
  by (auto simp: state_ok_def record_ok_def candidate_record_of_def)

lemma public_sorted:
  "sorted_wrt (\<lambda>a b. compareNormalizedCandidates a b \<le> 0) cs \<Longrightarrow>
   sorted_wrt (\<lambda>a b. compareSelectionCandidates a b \<le> 0) (map (\<lambda>c. public_batch (candidate_record_of siteId c)) cs)"
  unfolding sorted_wrt_map
  by (rule sorted_wrt_mono_rel)
    (auto simp: compareNormalizedCandidates_def compareSelectionCandidates_def public_batch_def
      candidate_record_of_def js_or_def split: if_splits)

text \<open>A successful load, taken apart.\<close>

lemma load_records_cases:
  assumes "loadNewsletterRetentionCandidateRecords d policy = Inr rs"
  obtains cutoff rows summaries loaded where
    "pol_siteId policy \<noteq> []" "trim (pol_siteId policy) = pol_siteId policy"
    "pol_cutoff policy = to_iso cutoff" "in_iso_range cutoff"
    "0 < pol_maxBatches policy" "pol_maxBatches policy \<le> 100"
    "0 < pol_maxMessages policy" "pol_maxMessages policy \<le> 10000"
    "newsletterBatch_findMany d (batch_query (pol_siteId policy) cutoff (pol_maxBatches policy)) = Inr (JArr rows)"
    "int (length rows) \<le> pol_maxBatches policy"
    "mapE normalizeBatchAggregateRow rows = Inr summaries"
    "(\<Sum>s\<leftarrow>summaries. ba_messageCount s) \<le> pol_maxMessages policy"
    "mapE (load_candidate d) summaries = Inr loaded"
    "rs = map (candidate_record_of (pol_siteId policy)) (sort_by compareNormalizedCandidates loaded)"
proof -
  from assms obtain cutoff answer rows summaries total loaded where run:
    "pol_siteId policy \<noteq> []" "trim (pol_siteId policy) = pol_siteId policy"
    "pol_cutoff policy = to_iso cutoff" "in_iso_range cutoff"
    "0 < pol_maxBatches policy" "pol_maxBatches policy \<le> 100"
    "0 < pol_maxMessages policy" "pol_maxMessages policy \<le> 10000"
    "newsletterBatch_findMany d (batch_query (pol_siteId policy) cutoff (pol_maxBatches policy)) = Inr answer"
    "ensureBatchRows answer = Inr rows"
    "int (length rows) \<le> pol_maxBatches policy"
    "mapE normalizeBatchAggregateRow rows = Inr summaries"
    "foldE (\<lambda>total row. safe_add total (ba_messageCount row) ''newsletterBatch._count.NewslettersMessages'')
                 0 summaries = Inr total" "total \<le> pol_maxMessages policy"
    "mapE (load_candidate d) summaries = Inr loaded"
    "rs = map (candidate_record_of (pol_siteId policy)) (sort_by compareNormalizedCandidates loaded)"
    by (auto simp: loadNewsletterRetentionCandidateRecords_def normalizeSiteId_def parseStrictUtcIso_def
        normalizePositiveInteger_def normalizeLimitedPositiveInteger_def not_less)
  have "answer = JArr rows" using run(10) by (auto simp: ensureBatchRows_def split: js.splits)
  moreover have "(\<Sum>s\<leftarrow>summaries. ba_messageCount s) \<le> pol_maxMessages policy"
    using run(13,14) by (auto simp: safe_sum_Inr_iff max_safe_def)
  ultimately show ?thesis using that run by blast
qed

lemma loaded_states:
  assumes "mapE normalizeBatchAggregateRow rows = Inr summaries" "mapE (load_candidate d) summaries = Inr loaded"
  shows "list_all state_ok loaded" "length loaded = length rows"
    "(\<Sum>c\<leftarrow>loaded. cs_messageCount c) = (\<Sum>s\<leftarrow>summaries. ba_messageCount s)"
proof -
  have ok: "list_all summary_ok summaries"
    using mapE_setD [OF assms(1)] normalizeBatchAggregateRow_ok by (auto simp: list_all_iff)
  have states: "list_all state_ok cs \<and> (\<Sum>c\<leftarrow>cs. cs_messageCount c) = (\<Sum>s\<leftarrow>ss. ba_messageCount s)"
    if "list_all summary_ok ss" "mapE (load_candidate d) ss = Inr cs" for ss cs
    using that by (induction ss arbitrary: cs) (auto dest: load_candidate_ok)
  show "list_all state_ok loaded" "(\<Sum>c\<leftarrow>loaded. cs_messageCount c) = (\<Sum>s\<leftarrow>summaries. ba_messageCount s)"
    using states [OF ok assms(2)] by simp_all
  show "length loaded = length rows" using assms mapE_length by metis
qed

lemma candidate_object_props:
  "is_object_not_array (candidate_object r)"
  "get_prop (candidate_object r) ''siteId'' = JStr (cr_siteId r)"
  "get_prop (candidate_object r) ''batchId'' = JStr (cr_batchId r)"
  "get_prop (candidate_object r) ''createdAt'' = JStr (cr_createdAt r)"
  "get_prop (candidate_object r) ''messageCount'' = jint (cr_messageCount r)"
  "get_prop (candidate_object r) ''notificationCount'' = jint (cr_notificationCount r)"
  "get_prop (candidate_object r) ''errorCount'' = jint (cr_errorCount r)"
  "get_prop (candidate_object r) ''orphanCount'' = jint (cr_orphanCount r)"
  "get_prop (candidate_object r) ''correlationComplete'' = JBool (cr_correlationComplete r)"
  by (simp_all add: candidate_object_def)

text \<open>A loaded record is planned when it has no orphan and its time is printed and before the cutoff.\<close>

definition plannable :: "int \<Rightarrow> candidate_record \<Rightarrow> bool" where
  "plannable cutoff r \<longleftrightarrow> cr_orphanCount r = 0 \<and> (\<exists>t < cutoff. cr_createdAt r = to_iso t \<and> in_iso_range t)"

lemma eligible_candidate_object:
  assumes "record_ok r" "cr_siteId r = siteId"
  shows "eligible siteId cutoff (candidate_object r) b \<longleftrightarrow> plannable cutoff r \<and> b = public_batch r"
proof -
  have "cr_batchId r \<noteq> []" using assms(1) by (auto simp: record_ok_def)
  then show ?thesis
    using assms unfolding eligible_def plannable_def record_ok_def candidate_time_def public_batch_def
    by (cases b) (auto simp: candidate_object_props)
qed

lemma eligible_candidate_objects:
  assumes "list_all record_ok rs" "list_all (\<lambda>r. cr_siteId r = siteId) rs"
  shows "list_all2 (eligible siteId cutoff) (map candidate_object rs) bs
     \<longleftrightarrow> list_all (plannable cutoff) rs \<and> bs = map public_batch rs"
  using assms
proof (induction rs arbitrary: bs)
  case (Cons r rs)
  then show ?case by (cases bs) (auto simp: eligible_candidate_object)
qed auto

lemma loaded_records:
  assumes "loadNewsletterRetentionCandidateRecords d policy = Inr rs"
  shows "list_all record_ok rs" "list_all (\<lambda>r. cr_siteId r = pol_siteId policy) rs"
    "int (length rs) \<le> pol_maxBatches policy" "pol_maxBatches policy \<le> 100"
    "message_total (map public_batch rs) \<le> pol_maxMessages policy" "pol_maxMessages policy \<le> 10000"
    "sorted_wrt (\<lambda>a b. compareSelectionCandidates a b \<le> 0) (map public_batch rs)"
    "\<exists>cutoff. pol_cutoff policy = to_iso cutoff \<and> in_iso_range cutoff"
proof -
  obtain cutoff rows summaries loaded where run:
    "pol_siteId policy \<noteq> []" "trim (pol_siteId policy) = pol_siteId policy"
    "pol_cutoff policy = to_iso cutoff" "in_iso_range cutoff"
    "0 < pol_maxBatches policy" "pol_maxBatches policy \<le> 100"
    "0 < pol_maxMessages policy" "pol_maxMessages policy \<le> 10000"
    "newsletterBatch_findMany d (batch_query (pol_siteId policy) cutoff (pol_maxBatches policy)) = Inr (JArr rows)"
    "int (length rows) \<le> pol_maxBatches policy"
    "mapE normalizeBatchAggregateRow rows = Inr summaries"
    "(\<Sum>s\<leftarrow>summaries. ba_messageCount s) \<le> pol_maxMessages policy"
    "mapE (load_candidate d) summaries = Inr loaded"
    "rs = map (candidate_record_of (pol_siteId policy)) (sort_by compareNormalizedCandidates loaded)"
    by (rule load_records_cases [OF assms])
  note states = loaded_states [OF run(11,13)]
  show "pol_maxBatches policy \<le> 100" "pol_maxMessages policy \<le> 10000"
    "\<exists>cutoff. pol_cutoff policy = to_iso cutoff \<and> in_iso_range cutoff" using run(3,4,6,8) by blast+
  show "list_all record_ok rs"
    using states(1) by (auto simp: run(14) list_all_iff intro: record_of_state_ok)
  show "list_all (\<lambda>r. cr_siteId r = pol_siteId policy) rs"
    by (simp add: run(14) candidate_record_of_def list_all_iff)
  show "int (length rs) \<le> pol_maxBatches policy" using states(2) run(10) by (simp add: run(14))
  show "sorted_wrt (\<lambda>a b. compareSelectionCandidates a b \<le> 0) (map public_batch rs)"
    using public_sorted [OF loaded_order.sort_by_sorted] by (simp add: run(14) comp_def)
  have "message_total (map public_batch rs) = (\<Sum>c\<leftarrow>sort_by compareNormalizedCandidates loaded. cs_messageCount c)"
    by (simp add: run(14) message_total_def comp_def public_batch_def candidate_record_of_def)
  also have "\<dots> = (\<Sum>c\<leftarrow>loaded. cs_messageCount c)"
    by (simp flip: sum_mset_sum_list)
  finally show "message_total (map public_batch rs) \<le> pol_maxMessages policy" using states(3) run(12) by simp
qed

text \<open>A database answer with one old batch of two messages, for the examples.\<close>

definition example_policy :: retention_policy where
  "example_policy = \<lparr>pol_siteId = lit ''site'', pol_cutoff = to_iso 86400000, pol_dryRun = True,
     pol_maxBatches = 10, pol_maxMessages = 1000, pol_policyVersion = 1\<rparr>"

definition example_message :: "string \<Rightarrow> int \<Rightarrow> js" where
  "example_message ident events = obj [(''messageId'', JStr (lit ident)),
     (''_count'', obj [(''notificationEvents'', jint events)])]"

definition example_delegate :: candidate_delegate where
  "example_delegate = \<lparr>
     newsletterBatch_findMany = (\<lambda>q. Inr (JArr [obj [(''id'', JStr (lit ''r'')), (''batchId'', JStr (lit ''b'')),
       (''created'', JDate (Some 0)),
       (''_count'', obj [(''NewslettersErrors'', jint 0), (''NewslettersMessages'', jint 2)])]])),
     newsletterMessages_findMany = (\<lambda>q. Inr (JArr [example_message ''m'' 1, example_message ''n'' 0])),
     newsletterNotificationOrphan_count = (\<lambda>q. Inr (jint 0))\<rparr>"

definition example_record :: candidate_record where
  "example_record = \<lparr>cr_siteId = lit ''site'', cr_batchRecordId = lit ''r'', cr_batchId = lit ''b'',
     cr_createdAt = to_iso 0, cr_messageCount = 2, cr_notificationCount = 1, cr_errorCount = 0,
     cr_orphanCount = 0, cr_correlationComplete = True\<rparr>"

lemma example_trims:
  "trim (lit ''site'') = lit ''site''" "trim (lit ''b'') = lit ''b''" "trim (lit ''m'') = lit ''m''"
  "trim (lit ''n'') = lit ''n''"
  by (simp_all add: trim_idem_iff) (simp_all add: lit_def is_ws_def)

lemma example_cutoff: "in_iso_range 86400000" "in_iso_range 0"
  by code_simp+

lemma example_loads: "loadNewsletterRetentionCandidateRecords example_delegate example_policy = Inr [example_record]"
proof -
  have policy: "CandidateLoader.normalizeSiteId (JStr (lit ''site'')) = Inr (lit ''site'')"
    "CandidateLoader.parseStrictUtcIso (JStr (to_iso 86400000)) ''cutoff'' = Inr 86400000"
    "normalizePositiveInteger (jint 10) ''maxBatches'' = Inr 10"
    "normalizePositiveInteger (jint 1000) ''maxMessages'' = Inr 1000"
    by (simp_all only: CandidateLoader.normalizeSiteId_def CandidateLoader.parseStrictUtcIso_def
        normalizePositiveInteger_def trimmed_string_Inr_iff parse_strict_utc_Inr_iff safe_positive_Inr_iff)
      (simp_all add: example_trims example_cutoff max_safe_def)
  have row: "normalizeBatchAggregateRow (obj [(''id'', JStr (lit ''r'')), (''batchId'', JStr (lit ''b'')),
       (''created'', JDate (Some 0)),
       (''_count'', obj [(''NewslettersErrors'', jint 0), (''NewslettersMessages'', jint 2)])])
     = Inr \<lparr>ba_batchRecordId = lit ''r'', ba_batchId = lit ''b'', ba_createdAt = to_iso 0, ba_messageCount = 2, ba_errorCount = 0\<rparr>"
    by (simp add: normalizeBatchAggregateRow_def normalizeCountAggregate_def CandidateLoader.normalizeCount_def
        normalizeRowId_def normalizeBatchId_def normalizeCreatedAt_def example_trims max_safe_def)
  have messages: "normalizeMessageRows (JArr [example_message ''m'' 1, example_message ''n'' 0]) 2
     = Inr [(lit ''m'', 1), (lit ''n'', 0)]"
    by (simp add: normalizeMessageRows_def example_message_def normalizeMessageId_def
        normalizeMessageCountAggregate_def CandidateLoader.normalizeCount_def example_trims max_safe_def)
  have total: "foldE (\<lambda>total row. safe_add total (snd row) f) 0 [(lit ''m'', 1), (lit ''n'', 0)] = Inr 1" for f
    by (simp add: max_safe_def)
  have "load_candidate example_delegate
     \<lparr>ba_batchRecordId = lit ''r'', ba_batchId = lit ''b'', ba_createdAt = to_iso 0, ba_messageCount = 2, ba_errorCount = 0\<rparr>
     = Inr \<lparr>cs_batchId = lit ''b'', cs_batchRecordId = lit ''r'', cs_createdAt = to_iso 0, cs_messageCount = 2,
         cs_notificationCount = 1, cs_errorCount = 0, cs_messageIds = [lit ''m'', lit ''n''], cs_orphanCount = 0\<rparr>"
    using messages total
    by (simp add: load_candidate_def example_delegate_def countBatchLinkedOrphans_def
        CandidateLoader.normalizeCount_def max_safe_def)
  then show ?thesis
    using policy row
    by (simp add: loadNewsletterRetentionCandidateRecords_def example_policy_def example_delegate_def
        ensureBatchRows_def normalizeLimitedPositiveInteger_def example_record_def candidate_record_of_def
        sort_by_def max_safe_def)
qed

definition example_evidence :: js where
  "example_evidence = obj [(''now'', JStr (to_iso 0)),
     (''backup'', obj [(''verifiedAt'', JStr (to_iso 0)), (''restoredAt'', JStr (to_iso 0))]),
     (''restore'', obj [(''verifiedAt'', JStr (to_iso 0)), (''restoredAt'', JStr (to_iso 0))]),
     (''health'', obj [(''queueCheckedAt'', JStr (to_iso 0)), (''proxyCheckedAt'', JStr (to_iso 0)),
        (''queueHealthy'', JBool True), (''proxyHealthy'', JBool True)])]"

lemma example_evidence_accepted: "\<exists>e. parseNewsletterRetentionEvidence example_evidence = Inr e"
proof -
  have time: "parse_strict_utc (JStr (to_iso 0)) e = Inr 0" for e using example_cutoff(2) by simp
  have fresh: "ensureFreshEvidence l 0 0 age = Inr ()" if "0 \<le> age" for l age using that by simp
  show ?thesis
    unfolding parseNewsletterRetentionEvidence_def example_evidence_def evidence_time_def
    by (simp del: parse_strict_utc_Inr_iff ensureFreshEvidence_Inr_iff bindE_Inr_iff
        add: time fresh MAX_BACKUP_RESTORE_AGE_MS_def MAX_HEALTH_AGE_MS_def)
qed

section \<open>Properties\<close>

text \<open>
  C23: what a successful load promises. Within the caps of the policy, which never exceed 100 batches
  and 10000 messages, every record belongs to the policy's site and has non-negative safe counts, a
  batch without messages has neither notifications nor orphans, the correlation is called complete
  exactly when no unreconciled orphan points at the batch, and the oldest batches come first.
\<close>

theorem loaded_records_within_caps:
  assumes "loadNewsletterRetentionCandidateRecords d policy = Inr rs"
  shows "int (length rs) \<le> pol_maxBatches policy \<and> pol_maxBatches policy \<le> 100
     \<and> (\<Sum>r\<leftarrow>rs. cr_messageCount r) \<le> pol_maxMessages policy \<and> pol_maxMessages policy \<le> 10000
     \<and> list_all record_ok rs \<and> list_all (\<lambda>r. cr_siteId r = pol_siteId policy) rs
     \<and> sorted_wrt (\<lambda>a b. cr_createdAt a \<le> cr_createdAt b) rs"
proof -
  have "(\<Sum>r\<leftarrow>rs. cr_messageCount r) = message_total (map public_batch rs)"
    by (simp add: message_total_def comp_def public_batch_def)
  moreover have "sorted_wrt (\<lambda>a b. cr_createdAt a \<le> cr_createdAt b) rs"
    using loaded_records(7) [OF assms] unfolding sorted_wrt_map
    by (rule sorted_wrt_mono_rel [rotated])
      (auto simp: compareSelectionCandidates_def public_batch_def js_or_def compare_strings_def split: if_splits)
  ultimately show ?thesis using loaded_records [OF assms] by simp
qed

lemma loaded_records_within_caps_witness:
  "record_ok example_record \<and> pol_maxBatches example_policy \<le> 100"
  using loaded_records_within_caps [OF example_loads] by simp

text \<open>
  The plan of what was loaded. The caps can no longer refuse it: with fresh evidence and healthy
  queues the only reasons left are an unreconciled orphan, a batch that is not before the cutoff, or a
  count that leaves the safe range. The plan lists the loaded records in the order they were loaded,
  so the i-th public batch is the i-th private record.
\<close>

theorem loaded_plan_iff:
  assumes load: "loadNewsletterRetentionCandidateRecords d policy = Inr rs"
    and cutoff: "pol_cutoff policy = to_iso cutoff" "in_iso_range cutoff"
  shows "buildNewsletterRetentionSelectionPlan policy evidence (JBool True) (JBool True) (JArr (map candidate_object rs)) = Inr plan
    \<longleftrightarrow> (\<exists>e. parseNewsletterRetentionEvidence evidence = Inr e)
      \<and> list_all (plannable cutoff) rs
      \<and> notification_total (map public_batch rs) \<le> max_safe \<and> error_total (map public_batch rs) \<le> max_safe
      \<and> sp_siteId plan = pol_siteId policy \<and> sp_cutoff plan = pol_cutoff policy
      \<and> sp_batchCount plan = int (length rs) \<and> sp_batches plan = map public_batch rs
      \<and> sp_totals plan = \<lparr>st_messageCount = message_total (map public_batch rs),
            st_notificationCount = notification_total (map public_batch rs),
            st_errorCount = error_total (map public_batch rs)\<rparr>"
proof -
  note loaded = loaded_records [OF load]
  have small: "message_total (map public_batch rs) \<le> max_safe"
    using loaded(5,6) by (simp add: max_safe_def)
  have only: "pol_cutoff policy = to_iso c \<and> in_iso_range c \<and> R \<longleftrightarrow> c = cutoff \<and> R" for c R
    using cutoff by auto
  have "plan = plan_of policy (map public_batch rs) \<longleftrightarrow>
      sp_siteId plan = pol_siteId policy \<and> sp_cutoff plan = pol_cutoff policy
      \<and> sp_batchCount plan = int (length rs) \<and> sp_batches plan = map public_batch rs
      \<and> sp_totals plan = \<lparr>st_messageCount = message_total (map public_batch rs),
            st_notificationCount = notification_total (map public_batch rs),
            st_errorCount = error_total (map public_batch rs)\<rparr>"
    by (cases plan) (auto simp: plan_of_def candidate_order.sort_by_idem [OF loaded(7)])
  then show ?thesis
    unfolding plan_built_iff js.inject only
    by (simp add: eligible_candidate_objects [OF loaded(1,2)] loaded(3,5) small)
qed

lemma loaded_plan_iff_witness:
  "\<exists>plan. buildNewsletterRetentionSelectionPlan example_policy example_evidence (JBool True) (JBool True)
     (JArr (map candidate_object [example_record])) = Inr plan \<and> sp_batches plan = [public_batch example_record]"
proof -
  have cutoff: "pol_cutoff example_policy = to_iso 86400000" by (simp add: example_policy_def)
  have "plannable 86400000 example_record"
    using example_cutoff(2) by (auto simp: plannable_def example_record_def intro: exI [of _ 0])
  moreover have "notification_total [public_batch example_record] \<le> max_safe"
      "error_total [public_batch example_record] \<le> max_safe"
    by (simp_all add: public_batch_def example_record_def max_safe_def)
  ultimately have "\<exists>plan. sp_batches plan = [public_batch example_record] \<and>
      buildNewsletterRetentionSelectionPlan example_policy example_evidence (JBool True) (JBool True)
     (JArr (map candidate_object [example_record])) = Inr plan"
    using loaded_plan_iff [OF example_loads cutoff example_cutoff(1), of example_evidence
        "plan_of example_policy [public_batch example_record]"] example_evidence_accepted
    by (auto simp: plan_of_def sort_by_def)
  then show ?thesis by blast
qed

end
