(* ===== verification/EscrowLoader.thy ===== *)
theory EscrowLoader
  imports EscrowVerify CandidateLoader
begin

text \<open>
  The stream of escrow records read from the database
  (service/newsletter-retention-escrow-loader.ts): for every candidate its batch row, message rows,
  error rows and notification rows, each checked against the candidate and against the rows already
  streamed. The generator is modelled by what it yields before it ends and how it ends; the database
  client is a record of its queries, whose answers may have any shape.
\<close>

section \<open>Queries and candidates\<close>

record batch_first_args =
  lb_id :: jstr
  lb_siteId :: jstr
  lb_select :: "string list"

record child_find_args =
  lf_newsletterBatchId :: jstr
  lf_orderBy :: "(string \<times> string) list"
  lf_take :: int
  lf_select :: "string list"

record escrow_delegate =
  loader_newsletterBatch_findFirst :: "batch_first_args \<Rightarrow> js res"
  loader_newsletterMessages_findMany :: "child_find_args \<Rightarrow> js res"
  loader_newsletterErrors_findMany :: "child_find_args \<Rightarrow> js res"
  loader_newsletterNotifications_findMany :: "child_find_args \<Rightarrow> js res"
  loader_newsletterNotificationOrphan_count :: "orphan_count_args \<Rightarrow> js res"

record escrow_candidate =
  lc_siteId :: jstr
  lc_batchRecordId :: jstr
  lc_batchId :: jstr
  lc_createdAt :: jstr
  lc_createdAtMs :: "int option"
  lc_messageCount :: int
  lc_notificationCount :: int
  lc_errorCount :: int
  lc_orphanCount :: int
  lc_correlationComplete :: bool

record snapshot_keys =
  sk_messageIds :: "jstr set"
  sk_messageRowIds :: "jstr set"
  sk_errorMessageIds :: "jstr set"
  sk_errorRowIds :: "jstr set"
  sk_notificationIds :: "jstr set"
  sk_notificationRowIds :: "jstr set"

definition CANDIDATE_KEYS :: "string list" where
  "CANDIDATE_KEYS = [''siteId'', ''batchRecordId'', ''batchId'', ''createdAt'', ''messageCount'',
     ''notificationCount'', ''errorCount'', ''orphanCount'', ''correlationComplete'']"

definition MAX_STREAM_RECORDS :: int where "MAX_STREAM_RECORDS = MAX_RECORDS"

section \<open>Field validation\<close>

definition normalizeStrictString :: "js \<Rightarrow> string \<Rightarrow> jstr res" where
  "normalizeStrictString v field = trimmed_string v (Error (field @ '' must be a non-empty string''))"

definition normalizeString :: "js \<Rightarrow> string \<Rightarrow> jstr res" where
  "normalizeString v field = any_string v (Error (field @ '' must be a string''))"

definition normalizeRecipientData :: "js \<Rightarrow> jstr option res" where
  "normalizeRecipientData v = (case v of
     JNull \<Rightarrow> Inr None
   | JStr s \<Rightarrow> Inr (Some s)
   | _ \<Rightarrow> Inl (Error ''recipientData must be a string or null''))"

definition normalizeBoolean :: "js \<Rightarrow> string \<Rightarrow> bool res" where
  "normalizeBoolean v field = (case v of JBool b \<Rightarrow> Inr b | _ \<Rightarrow> Inl (Error (field @ '' must be a boolean'')))"

definition normalizeCount :: "js \<Rightarrow> string \<Rightarrow> int res" where
  "normalizeCount v field = safe_count v (Error (field @ '' must be a non-negative safe integer''))"

definition safeAdd :: "int \<Rightarrow> int \<Rightarrow> string \<Rightarrow> int res" where
  "safeAdd l r field =
     (if \<bar>l\<bar> > max_safe \<or> \<bar>r\<bar> > max_safe \<or> l < 0 \<or> r < 0
      then Inl (Error (field @ '' must be a non-negative safe integer''))
      else if l > max_safe - r then Inl (Error (field @ '' sum exceeds Number.MAX_SAFE_INTEGER''))
      else Inr (l + r))"

definition parseStrictUtcIso :: "js \<Rightarrow> string \<Rightarrow> int res" where
  "parseStrictUtcIso v field = parse_strict_utc v (strict_iso_error field)"

definition normalizeUtcMillis :: "js \<Rightarrow> string \<Rightarrow> jstr res" where
  "normalizeUtcMillis v field =
     bindE (parse_strict_utc v (Error (field @ '' must be a canonical UTC millisecond string'')))
       (\<lambda>t. Inr (to_iso t))"

definition normalizePrismaDate :: "js \<Rightarrow> string \<Rightarrow> jstr res" where
  "normalizePrismaDate v field = (case v of
     JDate (Some t) \<Rightarrow> Inr (to_iso t)
   | _ \<Rightarrow> Inl (Error (field @ '' must be a valid Date'')))"

section \<open>Candidates\<close>

text \<open>\<^verbatim>\<open>left >= right\<close> on two results of \<^verbatim>\<open>Date.parse\<close>, where \<open>None\<close> is \<^verbatim>\<open>NaN\<close>.\<close>

definition time_ge :: "int option \<Rightarrow> int option \<Rightarrow> bool" where
  "time_ge l r = (case (l, r) of (Some a, Some b) \<Rightarrow> a \<ge> b | _ \<Rightarrow> False)"

definition normalizeCandidate :: "js \<Rightarrow> jstr \<Rightarrow> int \<Rightarrow> escrow_candidate res" where
  "normalizeCandidate row siteId cutoff =
     bindE (expect_exact_keys row CANDIDATE_KEYS ''candidate'') (\<lambda>_.
     bindE (normalizeStrictString (get_prop row ''siteId'') ''siteId'') (\<lambda>site.
       if site \<noteq> siteId then Inl (Error ''candidate siteId must exactly match policy siteId'')
       else
     bindE (normalizeUtcMillis (get_prop row ''createdAt'') ''createdAt'') (\<lambda>createdAt.
       if time_ge (date_parse createdAt) (Some cutoff)
       then Inl (Error ''candidate createdAt must be strictly before the cutoff'')
       else
     bindE (normalizeCount (get_prop row ''messageCount'') ''messageCount'') (\<lambda>messages.
     bindE (normalizeCount (get_prop row ''notificationCount'') ''notificationCount'') (\<lambda>notifications.
     bindE (normalizeCount (get_prop row ''errorCount'') ''errorCount'') (\<lambda>errors.
     bindE (normalizeCount (get_prop row ''orphanCount'') ''orphanCount'') (\<lambda>orphans.
     bindE (normalizeBoolean (get_prop row ''correlationComplete'') ''correlationComplete'') (\<lambda>complete.
       if \<not> complete then Inl (Error ''candidate correlationComplete must be true'')
       else if orphans \<noteq> 0 then Inl (Error ''candidate orphanCount must be zero'')
       else if messages = 0 \<and> notifications \<noteq> 0
       then Inl (Error ''candidate with zero messages must have zero notifications'')
       else
     bindE (normalizeStrictString (get_prop row ''batchRecordId'') ''batchRecordId'') (\<lambda>recordId.
     bindE (normalizeStrictString (get_prop row ''batchId'') ''batchId'') (\<lambda>batchId.
       Inr \<lparr>lc_siteId = site, lc_batchRecordId = recordId, lc_batchId = batchId,
            lc_createdAt = createdAt, lc_createdAtMs = date_parse createdAt, lc_messageCount = messages,
            lc_notificationCount = notifications, lc_errorCount = errors, lc_orphanCount = orphans,
            lc_correlationComplete = True\<rparr>))))))))))"

text \<open>The loop over the candidates: the ids seen, and the totals of messages and of records.\<close>

fun normalize_candidates ::
  "jstr \<Rightarrow> int \<Rightarrow> jstr set \<Rightarrow> int \<Rightarrow> int \<Rightarrow> js list \<Rightarrow> (escrow_candidate list \<times> int \<times> int) res" where
  "normalize_candidates siteId cutoff seen messages records [] = Inr ([], messages, records)"
| "normalize_candidates siteId cutoff seen messages records (row # rows) =
     bindE (normalizeCandidate row siteId cutoff) (\<lambda>c.
       if lc_batchRecordId c \<in> seen then Inl (Error ''candidate batchRecordId must be unique'')
       else
     bindE (safeAdd messages (lc_messageCount c) ''candidate messageCount total'') (\<lambda>messages'.
     bindE (safeAdd 1 (lc_messageCount c) ''candidate record total'') (\<lambda>own.
     bindE (safeAdd own (lc_errorCount c) ''candidate record total'') (\<lambda>own.
     bindE (safeAdd records own ''candidate record total'') (\<lambda>records'.
     bindE (safeAdd records' (lc_notificationCount c) ''candidate record total'') (\<lambda>records'.
     bindE (normalize_candidates siteId cutoff (insert (lc_batchRecordId c) seen) messages' records' rows) (\<lambda>(cs, t).
       Inr (c # cs, t))))))))"

definition compareCandidates :: "escrow_candidate \<Rightarrow> escrow_candidate \<Rightarrow> int" where
  "compareCandidates l r =
     js_or (js_or (js_or (js_or (js_or
       (compare_strings (lc_createdAt l) (lc_createdAt r))
       (compare_strings (lc_batchId l) (lc_batchId r)))
       (lc_messageCount l - lc_messageCount r))
       (lc_notificationCount l - lc_notificationCount r))
       (lc_errorCount l - lc_errorCount r))
       (compare_strings (lc_batchRecordId l) (lc_batchRecordId r))"

definition normalizeCandidates :: "js \<Rightarrow> retention_policy \<Rightarrow> escrow_candidate list res" where
  "normalizeCandidates v policy = (case v of
     JArr rows \<Rightarrow>
       if int (length rows) > pol_maxBatches policy
       then Inl (Error ''candidate count exceeds policy maxBatches'')
       else
         bindE (parseStrictUtcIso (JStr (pol_cutoff policy)) ''cutoff'') (\<lambda>cutoff.
         bindE (normalize_candidates (pol_siteId policy) cutoff {} 0 0 rows) (\<lambda>(cs, messages, records).
           if messages > pol_maxMessages policy
           then Inl (Error ''candidate messageCount total exceeds policy maxMessages'')
           else if records > MAX_STREAM_RECORDS
           then Inl (Error ''expected escrow record count exceeds hard limit'')
           else Inr (sort_by compareCandidates cs)))
   | _ \<Rightarrow> Inl (Error ''candidates must be an array''))"

section \<open>Rows\<close>

definition normalizeBatchRow :: "js \<Rightarrow> batch_row res" where
  "normalizeBatchRow v =
     bindE (expect_exact_keys v BATCH_ROW_KEYS ''newsletterBatch row'') (\<lambda>_.
     bindE (normalizeStrictString (get_prop v ''id'') ''id'') (\<lambda>i.
     bindE (normalizeStrictString (get_prop v ''siteId'') ''siteId'') (\<lambda>siteId.
     bindE (normalizeStrictString (get_prop v ''fromEmail'') ''fromEmail'') (\<lambda>fromEmail.
     bindE (normalizeString (get_prop v ''contents'') ''contents'') (\<lambda>contents.
     bindE (normalizeStrictString (get_prop v ''batchId'') ''batchId'') (\<lambda>batchId.
     bindE (normalizePrismaDate (get_prop v ''created'') ''created'') (\<lambda>created.
       Inr \<lparr>br_id = i, br_siteId = siteId, br_fromEmail = fromEmail, br_contents = contents,
            br_batchId = batchId, br_created = created\<rparr>)))))))"

definition normalizeMessageRow :: "nat \<Rightarrow> js \<Rightarrow> message_row res" where
  "normalizeMessageRow index v =
     bindE (expect_exact_keys v MESSAGE_ROW_KEYS (''newsletterMessages['' @ nat_text index @ '']'')) (\<lambda>_.
     bindE (normalizeStrictString (get_prop v ''id'') ''id'') (\<lambda>i.
     bindE (normalizeStrictString (get_prop v ''messageId'') ''messageId'') (\<lambda>messageId.
     bindE (normalizeStrictString (get_prop v ''toEmail'') ''toEmail'') (\<lambda>toEmail.
     bindE (normalizeStrictString (get_prop v ''newsletterBatchId'') ''newsletterBatchId'') (\<lambda>batch.
     bindE (normalizePrismaDate (get_prop v ''created'') ''created'') (\<lambda>created.
     bindE (normalizeString (get_prop v ''formatedContents'') ''formatedContents'') (\<lambda>contents.
     bindE (normalizeRecipientData (get_prop v ''recipientData'')) (\<lambda>recipient.
       Inr \<lparr>mr_id = i, mr_messageId = messageId, mr_toEmail = toEmail, mr_newsletterBatchId = batch,
            mr_created = created, mr_formatedContents = contents, mr_recipientData = recipient\<rparr>))))))))"

definition normalizeErrorRow :: "nat \<Rightarrow> js \<Rightarrow> error_row res" where
  "normalizeErrorRow index v =
     bindE (expect_exact_keys v ERROR_ROW_KEYS (''newsletterErrors['' @ nat_text index @ '']'')) (\<lambda>_.
     bindE (normalizeStrictString (get_prop v ''id'') ''id'') (\<lambda>i.
     bindE (normalizeStrictString (get_prop v ''toEmail'') ''toEmail'') (\<lambda>toEmail.
     bindE (normalizeString (get_prop v ''error'') ''error'') (\<lambda>err.
     bindE (normalizePrismaDate (get_prop v ''created'') ''created'') (\<lambda>created.
     bindE (normalizeStrictString (get_prop v ''newsletterBatchId'') ''newsletterBatchId'') (\<lambda>batch.
     bindE (normalizeStrictString (get_prop v ''messageId'') ''messageId'') (\<lambda>messageId.
     bindE (normalizeString (get_prop v ''formatedContents'') ''formatedContents'') (\<lambda>contents.
     bindE (normalizeRecipientData (get_prop v ''recipientData'')) (\<lambda>recipient.
       Inr \<lparr>xr_id = i, xr_toEmail = toEmail, xr_error = err, xr_created = created,
            xr_newsletterBatchId = batch, xr_messageId = messageId, xr_formatedContents = contents,
            xr_recipientData = recipient\<rparr>)))))))))"

definition normalizeNotificationRow :: "nat \<Rightarrow> js \<Rightarrow> notification_row res" where
  "normalizeNotificationRow index v =
     bindE (expect_exact_keys v NOTIFICATION_ROW_KEYS (''newsletterNotifications['' @ nat_text index @ '']'')) (\<lambda>_.
     bindE (normalizeStrictString (get_prop v ''id'') ''id'') (\<lambda>i.
     bindE (normalizeStrictString (get_prop v ''type'') ''type'') (\<lambda>t.
     bindE (normalizeStrictString (get_prop v ''notificationId'') ''notificationId'') (\<lambda>notificationId.
     bindE (normalizeStrictString (get_prop v ''messageId'') ''messageId'') (\<lambda>messageId.
     bindE (normalizeString (get_prop v ''rawEvent'') ''rawEvent'') (\<lambda>rawEvent.
     bindE (normalizePrismaDate (get_prop v ''timestamp'') ''timestamp'') (\<lambda>timestamp.
     bindE (normalizePrismaDate (get_prop v ''created'') ''created'') (\<lambda>created.
       Inr \<lparr>nr_id = i, nr_type = t, nr_notificationId = notificationId, nr_messageId = messageId,
            nr_rawEvent = rawEvent, nr_timestamp = timestamp, nr_created = created\<rparr>))))))))"

text \<open>
  The three child queries are checked by the same loop, written out per table in the source: an array
  of exactly the expected length, each row of the current batch (\<open>foreign\<close> names the error of a row that
  is not), ascending by id, with a second key that does not repeat.
\<close>

fun check_rows ::
  "string \<Rightarrow> string \<Rightarrow> (nat \<Rightarrow> js \<Rightarrow> 'r res) \<Rightarrow> ('r \<Rightarrow> string option) \<Rightarrow> ('r \<Rightarrow> jstr) \<Rightarrow> ('r \<Rightarrow> jstr)
   \<Rightarrow> jstr set \<Rightarrow> jstr set \<Rightarrow> jstr option \<Rightarrow> nat \<Rightarrow> js list \<Rightarrow> 'r list res" where
  "check_rows model key_name norm_row foreign ident key seenIds seenKeys previous i [] = Inr []"
| "check_rows model key_name norm_row foreign ident key seenIds seenKeys previous i (v # vs) =
     bindE (norm_row i v) (\<lambda>row. case foreign row of
       Some message \<Rightarrow> Inl (Error message)
     | None \<Rightarrow>
         if (case previous of Some p \<Rightarrow> compare_strings p (ident row) \<ge> 0 | None \<Rightarrow> False)
         then Inl (Error (model @ '' rows must be sorted by id and unique''))
         else if ident row \<in> seenIds then Inl (Error (model @ '' id must be unique''))
         else if key row \<in> seenKeys then Inl (Error (model @ ''.'' @ key_name @ '' must be unique''))
         else bindE (check_rows model key_name norm_row foreign ident key (insert (ident row) seenIds)
                       (insert (key row) seenKeys) (Some (ident row)) (Suc i) vs) (\<lambda>rows.
                Inr (row # rows)))"

definition expected_rows :: "string \<Rightarrow> js \<Rightarrow> int \<Rightarrow> (js list \<Rightarrow> 'r list res) \<Rightarrow> 'r list res" where
  "expected_rows model v expected check = (case v of
     JArr rows \<Rightarrow>
       if int (length rows) > expected
       then Inl (Error (model @ ''.findMany returned more rows than expected''))
       else if int (length rows) \<noteq> expected
       then Inl (Error (model @ ''.findMany returned unexpected number of rows''))
       else check rows
   | _ \<Rightarrow> Inl (Error (model @ ''.findMany must return an array'')))"

definition normalizeMessageRows :: "js \<Rightarrow> int \<Rightarrow> jstr \<Rightarrow> message_row list res" where
  "normalizeMessageRows v expected recordId =
     expected_rows ''newsletterMessages'' v expected
       (check_rows ''newsletterMessages'' ''messageId'' normalizeMessageRow
          (\<lambda>row. if mr_newsletterBatchId row \<noteq> recordId
                 then Some ''newsletterMessages row must belong to the current batch'' else None)
          mr_id mr_messageId {} {} None 0)"

definition normalizeErrorRows :: "js \<Rightarrow> int \<Rightarrow> jstr \<Rightarrow> error_row list res" where
  "normalizeErrorRows v expected recordId =
     expected_rows ''newsletterErrors'' v expected
       (check_rows ''newsletterErrors'' ''messageId'' normalizeErrorRow
          (\<lambda>row. if xr_newsletterBatchId row \<noteq> recordId
                 then Some ''newsletterErrors row must belong to the current batch'' else None)
          xr_id xr_messageId {} {} None 0)"

definition normalizeNotificationRows :: "js \<Rightarrow> int \<Rightarrow> jstr set \<Rightarrow> notification_row list res" where
  "normalizeNotificationRows v expected messageIds =
     expected_rows ''newsletterNotifications'' v expected
       (check_rows ''newsletterNotifications'' ''notificationId'' normalizeNotificationRow
          (\<lambda>row. if nr_messageId row \<notin> messageIds
                 then Some ''newsletterNotifications.messageId must belong to the current batch'' else None)
          nr_id nr_notificationId {} {} None 0)"

section \<open>Keys seen over the whole snapshot\<close>

definition no_keys :: snapshot_keys where
  "no_keys = \<lparr>sk_messageIds = {}, sk_messageRowIds = {}, sk_errorMessageIds = {}, sk_errorRowIds = {},
     sk_notificationIds = {}, sk_notificationRowIds = {}\<rparr>"

definition assertAndRememberUniqueKey :: "jstr set \<Rightarrow> jstr \<Rightarrow> string \<Rightarrow> jstr set res" where
  "assertAndRememberUniqueKey seen k message =
     (if k \<in> seen then Inl (Error message) else Inr (insert k seen))"

definition remember_rows ::
  "string \<Rightarrow> string \<Rightarrow> ('r \<Rightarrow> jstr) \<Rightarrow> ('r \<Rightarrow> jstr) \<Rightarrow> jstr set \<times> jstr set \<Rightarrow> 'r list \<Rightarrow> (jstr set \<times> jstr set) res" where
  "remember_rows model key_name ident key =
     foldE (\<lambda>(ids, keys) row.
       bindE (assertAndRememberUniqueKey ids (ident row) (model @ '' id must be globally unique'')) (\<lambda>ids.
       bindE (assertAndRememberUniqueKey keys (key row) (model @ ''.'' @ key_name @ '' must be globally unique'')) (\<lambda>keys.
         Inr (ids, keys))))"

definition assertSnapshotUniqueKeys ::
  "message_row list \<Rightarrow> error_row list \<Rightarrow> notification_row list \<Rightarrow> snapshot_keys \<Rightarrow> snapshot_keys res" where
  "assertSnapshotUniqueKeys ms es ns seen =
     bindE (remember_rows ''newsletterMessages'' ''messageId'' mr_id mr_messageId
              (sk_messageRowIds seen, sk_messageIds seen) ms) (\<lambda>m.
     bindE (remember_rows ''newsletterErrors'' ''messageId'' xr_id xr_messageId
              (sk_errorRowIds seen, sk_errorMessageIds seen) es) (\<lambda>e.
     bindE (remember_rows ''newsletterNotifications'' ''notificationId'' nr_id nr_notificationId
              (sk_notificationRowIds seen, sk_notificationIds seen) ns) (\<lambda>n.
       Inr \<lparr>sk_messageIds = snd m, sk_messageRowIds = fst m, sk_errorMessageIds = snd e, sk_errorRowIds = fst e,
            sk_notificationIds = snd n, sk_notificationRowIds = fst n\<rparr>)))"

section \<open>Loading a candidate\<close>

definition child_query :: "jstr \<Rightarrow> int \<Rightarrow> string list \<Rightarrow> child_find_args" where
  "child_query recordId expected columns = \<lparr>lf_newsletterBatchId = recordId,
     lf_orderBy = [(''id'', ''asc'')], lf_take = expected + 1, lf_select = columns\<rparr>"

definition loadBatchRow :: "escrow_delegate \<Rightarrow> escrow_candidate \<Rightarrow> retention_policy \<Rightarrow> batch_row res" where
  "loadBatchRow d c policy =
     bindE (loader_newsletterBatch_findFirst d \<lparr>lb_id = lc_batchRecordId c, lb_siteId = lc_siteId c,
              lb_select = BATCH_ROW_KEYS\<rparr>) (\<lambda>answer.
       if answer = JNull then Inl (Error ''candidate batch row must exist'')
       else bindE (normalizeBatchRow answer) (\<lambda>row.
         if br_id row \<noteq> lc_batchRecordId c
         then Inl (Error ''candidate batchRecordId does not match the stored batch row'')
         else if br_siteId row \<noteq> lc_siteId c
         then Inl (Error ''candidate siteId does not match the stored batch row'')
         else if br_batchId row \<noteq> lc_batchId c
         then Inl (Error ''candidate batchId does not match the stored batch row'')
         else if br_created row \<noteq> lc_createdAt c
         then Inl (Error ''candidate createdAt does not match the stored batch row'')
         else if time_ge (date_parse (br_created row)) (date_parse (pol_cutoff policy))
         then Inl (Error ''stored batch row must be strictly before the cutoff'')
         else Inr row))"

definition loadMessageRows :: "escrow_delegate \<Rightarrow> escrow_candidate \<Rightarrow> message_row list res" where
  "loadMessageRows d c =
     bindE (loader_newsletterMessages_findMany d (child_query (lc_batchRecordId c) (lc_messageCount c) MESSAGE_ROW_KEYS))
       (\<lambda>rows. normalizeMessageRows rows (lc_messageCount c) (lc_batchRecordId c))"

definition loadErrorRows :: "escrow_delegate \<Rightarrow> escrow_candidate \<Rightarrow> error_row list res" where
  "loadErrorRows d c =
     bindE (loader_newsletterErrors_findMany d (child_query (lc_batchRecordId c) (lc_errorCount c) ERROR_ROW_KEYS))
       (\<lambda>rows. normalizeErrorRows rows (lc_errorCount c) (lc_batchRecordId c))"

definition loadNotificationRows ::
  "escrow_delegate \<Rightarrow> escrow_candidate \<Rightarrow> message_row list \<Rightarrow> notification_row list res" where
  "loadNotificationRows d c ms =
     bindE (loader_newsletterNotifications_findMany d
              (child_query (lc_batchRecordId c) (lc_notificationCount c) NOTIFICATION_ROW_KEYS))
       (\<lambda>rows. normalizeNotificationRows rows (lc_notificationCount c) (mr_messageId ` set ms))"

definition validateOrphanCount :: "escrow_delegate \<Rightarrow> message_row list \<Rightarrow> unit res" where
  "validateOrphanCount d ms =
     (if ms = [] then Inr ()
      else bindE (loader_newsletterNotificationOrphan_count d \<lparr>oc_messageId_in = map mr_messageId ms\<rparr>) (\<lambda>answer.
           bindE (normalizeCount answer ''newsletterNotificationOrphan.count'') (\<lambda>n.
             if n \<noteq> 0 then Inl (Error ''candidate orphan count must remain zero'') else Inr ())))"

text \<open>What one turn of the generator's loop reads before it yields.\<close>

definition load_snapshot ::
  "escrow_delegate \<Rightarrow> retention_policy \<Rightarrow> snapshot_keys \<Rightarrow> escrow_candidate \<Rightarrow> (escrow_batch \<times> snapshot_keys) res" where
  "load_snapshot d policy seen c =
     bindE (loadBatchRow d c policy) (\<lambda>row.
     bindE (loadMessageRows d c) (\<lambda>ms.
     bindE (loadErrorRows d c) (\<lambda>es.
     bindE (if lc_messageCount c > 0 then loadNotificationRows d c ms else Inr []) (\<lambda>ns.
     bindE (assertSnapshotUniqueKeys ms es ns seen) (\<lambda>seen'.
     bindE (if lc_messageCount c > 0 then validateOrphanCount d ms
            else if lc_notificationCount c \<noteq> 0
            then Inl (Error ''candidate with zero messages must have zero notifications'') else Inr ()) (\<lambda>_.
       Inr (\<lparr>eb_row = row, eb_messages = ms, eb_errors = es, eb_notifications = ns\<rparr>, seen')))))))"

text \<open>The records yielded before the generator returns or throws, and which of the two it does.\<close>

fun stream_candidates ::
  "escrow_delegate \<Rightarrow> retention_policy \<Rightarrow> snapshot_keys \<Rightarrow> int \<Rightarrow> escrow_candidate list \<Rightarrow> escrow_record list \<times> unit res" where
  "stream_candidates d policy seen i [] = ([], Inr ())"
| "stream_candidates d policy seen i (c # cs) = (case load_snapshot d policy seen c of
     Inl e \<Rightarrow> ([], Inl e)
   | Inr (b, seen') \<Rightarrow> (case stream_candidates d policy seen' (i + 1) cs of
       (rs, outcome) \<Rightarrow> (batch_records i b @ rs, outcome)))"

definition streamNewsletterRetentionEscrowRecords ::
  "escrow_delegate \<Rightarrow> js \<Rightarrow> js \<Rightarrow> escrow_record list \<times> unit res" where
  "streamNewsletterRetentionEscrowRecords d policy candidates =
     (case bindE (parseNewsletterRetentionPolicy policy) (\<lambda>p.
             bindE (normalizeCandidates candidates p) (\<lambda>cs. Inr (p, cs))) of
        Inl e \<Rightarrow> ([], Inl e)
      | Inr (p, cs) \<Rightarrow> stream_candidates d p no_keys 0 cs)"

section \<open>A complete stream is a valid snapshot\<close>

lemma safeAdd_Inr_iff [simp]:
  "safeAdd l r f = Inr n \<longleftrightarrow> 0 \<le> l \<and> 0 \<le> r \<and> l + r \<le> max_safe \<and> n = l + r"
  by (auto simp: safeAdd_def)

lemma compare_strings_ge: "0 \<le> compare_strings p x \<longleftrightarrow> \<not> p < x"
  by (auto simp: compare_strings_def)

lemma check_rows_ok:
  "check_rows model kn norm_row foreign ident key seenI seenK previous i vs = Inr rows \<Longrightarrow>
     length rows = length vs \<and> sorted_wrt (<) (map ident rows)
     \<and> (\<forall>p. previous = Some p \<longrightarrow> (\<forall>r \<in> set rows. p < ident r))
     \<and> distinct (map key rows) \<and> key ` set rows \<inter> seenK = {}
     \<and> (\<forall>r \<in> set rows. foreign r = None \<and> (\<exists>j v. norm_row j v = Inr r))"
proof (induction vs arbitrary: seenI seenK previous i rows)
  case (Cons v vs)
  then obtain row rest where row: "norm_row i v = Inr row" "foreign row = None" "key row \<notin> seenK"
      "\<forall>p. previous = Some p \<longrightarrow> p < ident row" "rows = row # rest"
      "check_rows model kn norm_row foreign ident key (insert (ident row) seenI) (insert (key row) seenK)
         (Some (ident row)) (Suc i) vs = Inr rest"
    by (auto simp: compare_strings_ge split: option.splits if_splits)
  note IH = Cons.IH [OF row(6)]
  show ?case using IH row(1-5) by (auto intro: less_trans)
qed simp

lemma expected_rows_Inr:
  "expected_rows model v n check = Inr rows \<Longrightarrow> \<exists>vs. v = JArr vs \<and> int (length vs) = n \<and> check vs = Inr rows"
  by (auto simp: expected_rows_def split: js.splits if_splits)

lemma message_rows_ok:
  assumes "normalizeMessageRows v n recordId = Inr rows"
  shows "int (length rows) = n" "sorted_wrt (<) (map mr_id rows)" "distinct (map mr_messageId rows)"
    "\<forall>r \<in> set rows. mr_newsletterBatchId r = recordId \<and> (\<exists>j v. normalizeMessageRow j v = Inr r)"
  using assms unfolding normalizeMessageRows_def
  by (fastforce dest!: expected_rows_Inr check_rows_ok split: if_splits)+

lemma error_rows_ok:
  assumes "normalizeErrorRows v n recordId = Inr rows"
  shows "int (length rows) = n" "sorted_wrt (<) (map xr_id rows)" "distinct (map xr_messageId rows)"
    "\<forall>r \<in> set rows. xr_newsletterBatchId r = recordId \<and> (\<exists>j v. normalizeErrorRow j v = Inr r)"
  using assms unfolding normalizeErrorRows_def
  by (fastforce dest!: expected_rows_Inr check_rows_ok split: if_splits)+

lemma notification_rows_ok:
  assumes "normalizeNotificationRows v n messageIds = Inr rows"
  shows "int (length rows) = n" "sorted_wrt (<) (map nr_id rows)" "distinct (map nr_notificationId rows)"
    "\<forall>r \<in> set rows. nr_messageId r \<in> messageIds \<and> (\<exists>j v. normalizeNotificationRow j v = Inr r)"
  using assms unfolding normalizeNotificationRows_def
  by (fastforce dest!: expected_rows_Inr check_rows_ok split: if_splits)+

lemma remember_rows_ok:
  "remember_rows model kn ident key (ids, keys) rows = Inr (ids', keys') \<Longrightarrow>
     ids' = ids \<union> ident ` set rows \<and> keys' = keys \<union> key ` set rows
     \<and> ids \<inter> ident ` set rows = {} \<and> keys \<inter> key ` set rows = {}"
proof (induction rows arbitrary: ids keys)
  case (Cons row rows)
  then have "ident row \<notin> ids" "key row \<notin> keys"
    "remember_rows model kn ident key (insert (ident row) ids, insert (key row) keys) rows = Inr (ids', keys')"
    by (auto simp: remember_rows_def assertAndRememberUniqueKey_def split: if_splits)
  then show ?case using Cons.IH by fastforce
qed (simp add: remember_rows_def)

text \<open>The keys a snapshot has seen are those of the batches already streamed.\<close>

definition keys_of :: "escrow_batch list \<Rightarrow> snapshot_keys" where
  "keys_of bs = \<lparr>sk_messageIds = set (concat (map batch_message_ids bs)),
     sk_messageRowIds = set (concat (map (row_ids NewsletterMessages) bs)),
     sk_errorMessageIds = set (concat (map (\<lambda>b. map xr_messageId (eb_errors b)) bs)),
     sk_errorRowIds = set (concat (map (row_ids NewsletterErrors) bs)),
     sk_notificationIds = set (concat (map (\<lambda>b. map nr_notificationId (eb_notifications b)) bs)),
     sk_notificationRowIds = set (concat (map (row_ids NewsletterNotifications) bs))\<rparr>"

definition loaded_from :: "escrow_candidate \<Rightarrow> escrow_batch \<Rightarrow> bool" where
  "loaded_from c b \<longleftrightarrow> br_id (eb_row b) = lc_batchRecordId c \<and> br_siteId (eb_row b) = lc_siteId c
     \<and> br_batchId (eb_row b) = lc_batchId c \<and> br_created (eb_row b) = lc_createdAt c
     \<and> int (length (eb_messages b)) = lc_messageCount c \<and> int (length (eb_errors b)) = lc_errorCount c
     \<and> int (length (eb_notifications b)) = lc_notificationCount c"

text \<open>
  A database date may lie outside the years 0 to 9999, and then its text is not one the escrow format
  accepts; a candidate's own date is already known to be printed.
\<close>

fun times_printed :: "escrow_record \<Rightarrow> bool" where
  "times_printed (BatchRecord i r) = True"
| "times_printed (MessageRecord i r) = printed_time (mr_created r)"
| "times_printed (ErrorRecord i r) = printed_time (xr_created r)"
| "times_printed (NotificationRecord i r) = (printed_time (nr_timestamp r) \<and> printed_time (nr_created r))"

lemma loader_row_ok:
  "normalizeMessageRow j v = Inr m \<Longrightarrow> printed_time (mr_created m) \<Longrightarrow> row_ok (MessageRecord i m)"
  "normalizeErrorRow j v = Inr e \<Longrightarrow> printed_time (xr_created e) \<Longrightarrow> row_ok (ErrorRecord i e)"
  "normalizeNotificationRow j v = Inr n \<Longrightarrow> printed_time (nr_timestamp n) \<Longrightarrow> printed_time (nr_created n)
     \<Longrightarrow> row_ok (NotificationRecord i n)"
  "EscrowLoader.normalizeBatchRow v = Inr b \<Longrightarrow> printed_time (br_created b) \<Longrightarrow> row_ok (BatchRecord i b)"
  by (auto simp: EscrowLoader.normalizeMessageRow_def EscrowLoader.normalizeErrorRow_def
      EscrowLoader.normalizeNotificationRow_def EscrowLoader.normalizeBatchRow_def
      normalizeStrictString_def strict_text_def)

definition candidate_ok :: "jstr \<Rightarrow> escrow_candidate \<Rightarrow> bool" where
  "candidate_ok siteId c \<longleftrightarrow> lc_siteId c = siteId \<and> strict_text (lc_batchRecordId c) \<and> printed_time (lc_createdAt c)
     \<and> 0 \<le> lc_messageCount c \<and> 0 \<le> lc_notificationCount c \<and> 0 \<le> lc_errorCount c
     \<and> (lc_messageCount c = 0 \<longrightarrow> lc_notificationCount c = 0)"

definition rows_ok :: "escrow_batch \<Rightarrow> bool" where
  "rows_ok b \<longleftrightarrow> (\<forall>i. \<forall>r \<in> set (batch_records i b). times_printed r \<longrightarrow> row_ok r)"

lemma load_snapshot_ok:
  assumes run: "load_snapshot d p (keys_of bs) c = Inr (b, seen)" and c: "candidate_ok siteId c"
    and new: "lc_batchRecordId c \<notin> set (concat (map (row_ids NewsletterBatch) bs))" and ids: "ids_unique bs"
  shows "batch_valid siteId b \<and> loaded_from c b \<and> ids_unique (bs @ [b]) \<and> seen = keys_of (bs @ [b]) \<and> rows_ok b"
proof -
  obtain row ms es ns m e n where parts: "loadBatchRow d c p = Inr row" "loadMessageRows d c = Inr ms"
      "loadErrorRows d c = Inr es"
      "(if lc_messageCount c > 0 then loadNotificationRows d c ms else Inr []) = Inr ns"
      "remember_rows ''newsletterMessages'' ''messageId'' mr_id mr_messageId
         (sk_messageRowIds (keys_of bs), sk_messageIds (keys_of bs)) ms = Inr m"
      "remember_rows ''newsletterErrors'' ''messageId'' xr_id xr_messageId
         (sk_errorRowIds (keys_of bs), sk_errorMessageIds (keys_of bs)) es = Inr e"
      "remember_rows ''newsletterNotifications'' ''notificationId'' nr_id nr_notificationId
         (sk_notificationRowIds (keys_of bs), sk_notificationIds (keys_of bs)) ns = Inr n"
    and b: "b = \<lparr>eb_row = row, eb_messages = ms, eb_errors = es, eb_notifications = ns\<rparr>"
    and seen: "seen = \<lparr>sk_messageIds = snd m, sk_messageRowIds = fst m, sk_errorMessageIds = snd e,
        sk_errorRowIds = fst e, sk_notificationIds = snd n, sk_notificationRowIds = fst n\<rparr>"
    using run unfolding load_snapshot_def assertSnapshotUniqueKeys_def bindE_Inr_iff by auto
  have row: "br_id row = lc_batchRecordId c" "br_siteId row = lc_siteId c" "br_batchId row = lc_batchId c"
      "br_created row = lc_createdAt c" "\<exists>v. EscrowLoader.normalizeBatchRow v = Inr row"
    using parts(1) by (auto simp: loadBatchRow_def)
  obtain v where "EscrowLoader.normalizeMessageRows v (lc_messageCount c) (lc_batchRecordId c) = Inr ms"
    using parts(2) by (auto simp: loadMessageRows_def)
  note ms = message_rows_ok [OF this]
  obtain v where "normalizeErrorRows v (lc_errorCount c) (lc_batchRecordId c) = Inr es"
    using parts(3) by (auto simp: loadErrorRows_def)
  note es = error_rows_ok [OF this]
  have ns: "int (length ns) = lc_notificationCount c" "sorted_wrt (<) (map nr_id ns)"
      "distinct (map nr_notificationId ns)"
      "\<forall>r \<in> set ns. nr_messageId r \<in> mr_messageId ` set ms \<and> (\<exists>j v. normalizeNotificationRow j v = Inr r)"
  proof -
    have "int (length ns) = lc_notificationCount c \<and> sorted_wrt (<) (map nr_id ns) \<and> distinct (map nr_notificationId ns)
      \<and> (\<forall>r \<in> set ns. nr_messageId r \<in> mr_messageId ` set ms \<and> (\<exists>j v. normalizeNotificationRow j v = Inr r))"
    proof (cases "lc_messageCount c > 0")
      case True
      then obtain v where "normalizeNotificationRows v (lc_notificationCount c) (mr_messageId ` set ms) = Inr ns"
        using parts(4) by (auto simp: loadNotificationRows_def)
      from notification_rows_ok [OF this] show ?thesis by blast
    next
      case False
      then show ?thesis using parts(4) c by (auto simp: candidate_ok_def)
    qed
    then show "int (length ns) = lc_notificationCount c" "sorted_wrt (<) (map nr_id ns)"
      "distinct (map nr_notificationId ns)"
      "\<forall>r \<in> set ns. nr_messageId r \<in> mr_messageId ` set ms \<and> (\<exists>j v. normalizeNotificationRow j v = Inr r)" by blast+
  qed
  note kept = remember_rows_ok [of _ _ _ _ _ _ _ "fst x" "snd x" for x, simplified]
  note m = kept [OF parts(5)] and e = kept [OF parts(6)] and n = kept [OF parts(7)]
  have "batch_valid siteId b"
    using row ms es ns c
    by (simp add: b batch_valid_def all_kinds candidate_ok_def strict_text_def batch_message_ids_def)
  moreover have "loaded_from c b" using row ms es ns by (simp add: b loaded_from_def)
  moreover have "ids_unique (bs @ [b])"
    using ids new row(1) ms es ns m e n
    unfolding ids_unique_snoc by (auto simp: b all_kinds keys_of_def batch_message_ids_def strict_sorted_iff)
  moreover have "seen = keys_of (bs @ [b])"
    using m e n by (simp add: seen keys_of_def b batch_message_ids_def)
  moreover have "rows_ok b"
  proof -
    have "row_ok (BatchRecord i row)" for i
      using row(4,5) c loader_row_ok(4) by (metis candidate_ok_def)
    moreover have "\<forall>r \<in> set ms. printed_time (mr_created r) \<longrightarrow> row_ok (MessageRecord i r)" for i
      using ms(4) loader_row_ok(1) by blast
    moreover have "\<forall>r \<in> set es. printed_time (xr_created r) \<longrightarrow> row_ok (ErrorRecord i r)" for i
      using es(4) loader_row_ok(2) by blast
    moreover have "\<forall>r \<in> set ns. printed_time (nr_timestamp r) \<longrightarrow> printed_time (nr_created r)
        \<longrightarrow> row_ok (NotificationRecord i r)" for i
      using ns(4) loader_row_ok(3) by blast
    ultimately show ?thesis
      unfolding rows_ok_def by (simp add: b batch_records_def ball_Un del: row_ok.simps)
  qed
  ultimately show ?thesis by blast
qed

lemma parent_ids: "concat (map (row_ids NewsletterBatch) bs) = map (\<lambda>b. br_id (eb_row b)) bs"
  by (induction bs) simp_all

lemma stream_candidates_ok:
  assumes "stream_candidates d p (keys_of pre) i cs = (rs, Inr ())" "list_all (candidate_ok siteId) cs"
    and "distinct (map (\<lambda>b. br_id (eb_row b)) pre @ map lc_batchRecordId cs)" "ids_unique pre"
  shows "\<exists>bs. rs = all_records i bs \<and> list_all2 loaded_from cs bs \<and> list_all (batch_valid siteId) bs
     \<and> ids_unique (pre @ bs) \<and> list_all rows_ok bs"
  using assms
proof (induction cs arbitrary: pre i rs)
  case (Cons c cs)
  then obtain b seen rest where b: "load_snapshot d p (keys_of pre) c = Inr (b, seen)"
      "stream_candidates d p seen (i + 1) cs = (rest, Inr ())" "rs = batch_records i b @ rest"
    by (auto split: sum.splits prod.splits)
  have ok: "batch_valid siteId b \<and> loaded_from c b \<and> ids_unique (pre @ [b]) \<and> seen = keys_of (pre @ [b]) \<and> rows_ok b"
    by (rule load_snapshot_ok [OF b(1)]) (use Cons.prems(2-4) in \<open>auto simp: parent_ids\<close>)
  then have "distinct (map (\<lambda>b. br_id (eb_row b)) (pre @ [b]) @ map lc_batchRecordId cs)"
    using Cons.prems(3) by (simp add: loaded_from_def)
  then obtain bs where bs: "rest = all_records (i + 1) bs" "list_all2 loaded_from cs bs"
      "list_all (batch_valid siteId) bs" "ids_unique ((pre @ [b]) @ bs)" "list_all rows_ok bs"
    using Cons.IH [of "pre @ [b]" "i + 1" rest] b(2) ok Cons.prems(2) by auto
  then show ?case using b(3) ok by (intro exI [of _ "b # bs"]) simp
qed (auto intro: exI [of _ "[]"])

lemma normalizeCandidate_ok:
  "normalizeCandidate row siteId cutoff = Inr c \<Longrightarrow> candidate_ok siteId c"
  by (auto simp: normalizeCandidate_def candidate_ok_def normalizeStrictString_def strict_text_def
      EscrowLoader.normalizeUtcMillis_def printed_time_def
      EscrowLoader.normalizeCount_def)

definition messages_sum :: "escrow_candidate list \<Rightarrow> int" where
  "messages_sum cs = (\<Sum>c\<leftarrow>cs. lc_messageCount c)"

definition records_sum :: "escrow_candidate list \<Rightarrow> int" where
  "records_sum cs = (\<Sum>c\<leftarrow>cs. 1 + lc_messageCount c + lc_errorCount c + lc_notificationCount c)"

lemma normalize_candidates_ok:
  "normalize_candidates siteId cutoff seen m r rows = Inr (cs, m', r') \<Longrightarrow>
     list_all (candidate_ok siteId) cs \<and> distinct (map lc_batchRecordId cs) \<and> lc_batchRecordId ` set cs \<inter> seen = {}
     \<and> m' = m + messages_sum cs \<and> r' = r + records_sum cs \<and> length cs = length rows"
proof (induction rows arbitrary: seen m r cs)
  case (Cons row rows)
  then obtain c rest where c: "normalizeCandidate row siteId cutoff = Inr c" "lc_batchRecordId c \<notin> seen"
      "normalize_candidates siteId cutoff (insert (lc_batchRecordId c) seen) (m + lc_messageCount c)
         (r + (1 + lc_messageCount c + lc_errorCount c) + lc_notificationCount c) rows = Inr (rest, m', r')"
      "cs = c # rest"
    by (auto split: prod.splits)
  show ?case
    using Cons.IH [OF c(3)] c normalizeCandidate_ok [OF c(1)]
    by (auto simp: messages_sum_def records_sum_def)
qed (auto simp: messages_sum_def records_sum_def)

lemma normalizeCandidates_ok:
  assumes "normalizeCandidates v p = Inr cs"
  shows "list_all (candidate_ok (pol_siteId p)) cs" "distinct (map lc_batchRecordId cs)"
    "int (length cs) \<le> pol_maxBatches p" "messages_sum cs \<le> pol_maxMessages p" "records_sum cs \<le> MAX_STREAM_RECORDS"
proof -
  obtain rows cutoff raw m r where run: "v = JArr rows" "int (length rows) \<le> pol_maxBatches p"
      "normalize_candidates (pol_siteId p) cutoff {} 0 0 rows = Inr (raw, m, r)" "m \<le> pol_maxMessages p"
      "r \<le> MAX_STREAM_RECORDS" "cs = sort_by compareCandidates raw"
    using assms by (auto simp: normalizeCandidates_def not_less split: js.splits)
  note ok = normalize_candidates_ok [OF run(3)]
  have sums: "messages_sum cs = messages_sum raw" "records_sum cs = records_sum raw"
    by (simp_all add: run(6) messages_sum_def records_sum_def flip: sum_mset_sum_list)
  have "mset (map lc_batchRecordId cs) = mset (map lc_batchRecordId raw)" by (simp add: run(6))
  then show "distinct (map lc_batchRecordId cs)" using ok mset_eq_imp_distinct_iff by blast
  show "list_all (candidate_ok (pol_siteId p)) cs" using ok by (simp add: run(6) list_all_iff)
  show "int (length cs) \<le> pol_maxBatches p" using ok run(2) by (simp add: run(6))
  show "messages_sum cs \<le> pol_maxMessages p" "records_sum cs \<le> MAX_STREAM_RECORDS" using ok run(4,5) sums by simp_all
qed

lemma sum_lengths:
  "list_all2 loaded_from cs bs \<Longrightarrow> counts_of bs = \<lparr>ec_batches = int (length cs), ec_messages = messages_sum cs,
     ec_errors = (\<Sum>c\<leftarrow>cs. lc_errorCount c), ec_notifications = (\<Sum>c\<leftarrow>cs. lc_notificationCount c)\<rparr>
     \<and> int (length (all_records i bs)) = records_sum cs"
  by (induction cs bs arbitrary: i rule: list_all2_induct)
    (auto simp: counts_of_def messages_sum_def records_sum_def batch_records_def loaded_from_def)

lemma sums_bounded:
  assumes "list_all (candidate_ok siteId) cs"
  shows "(\<Sum>c\<leftarrow>cs. lc_errorCount c) \<le> records_sum cs" "(\<Sum>c\<leftarrow>cs. lc_notificationCount c) \<le> records_sum cs"
  using assms by (induction cs) (auto simp: records_sum_def candidate_ok_def)

lemma index_in_batch: "r \<in> set (batch_records i b) \<Longrightarrow> manifest_index r = i"
  by (auto simp: batch_records_def)

lemma in_all_records:
  "r \<in> set (all_records i bs) \<Longrightarrow> \<exists>j b. b \<in> set bs \<and> r \<in> set (batch_records j b) \<and> i \<le> j \<and> j < i + int (length bs)"
proof (induction bs arbitrary: i)
  case (Cons b bs)
  show ?case
  proof (cases "r \<in> set (batch_records i b)")
    case True
    then show ?thesis by (intro exI [of _ i] exI [of _ b]) simp
  next
    case False
    then have "r \<in> set (all_records (i + 1) bs)" using Cons.prems by simp
    from Cons.IH [OF this] obtain j c where
      "c \<in> set bs" "r \<in> set (batch_records j c)" "i + 1 \<le> j" "j < i + 1 + int (length bs)" by blast
    then show ?thesis by (intro exI [of _ j] exI [of _ c]) simp
  qed
qed simp

lemma stream_is_valid:
  assumes "parseNewsletterRetentionPolicy policy = Inr p"
    and "streamNewsletterRetentionEscrowRecords d policy candidates = (rs, Inr ())"
  shows "\<exists>cs bs. normalizeCandidates candidates p = Inr cs \<and> rs = all_records 0 bs
     \<and> list_all2 loaded_from cs bs \<and> batches_valid (pol_siteId p) default_accumulator bs
     \<and> int (length rs) \<le> MAX_RECORDS \<and> (\<forall>r \<in> set rs. times_printed r \<longrightarrow> escrow_record_ok r)"
proof -
  obtain cs where cs: "normalizeCandidates candidates p = Inr cs" "stream_candidates d p no_keys 0 cs = (rs, Inr ())"
    using assms(1,2) by (auto simp: streamNewsletterRetentionEscrowRecords_def bindE_def split: sum.splits prod.splits)
  have start: "no_keys = keys_of []" by (simp add: no_keys_def keys_of_def)
  note ok = normalizeCandidates_ok [OF cs(1)]
  obtain bs where bs: "rs = all_records 0 bs" "list_all2 loaded_from cs bs" "list_all (batch_valid (pol_siteId p)) bs"
      "ids_unique ([] @ bs)" "list_all rows_ok bs"
    using stream_candidates_ok [OF cs(2) [unfolded start] ok(1)] ok(2) by (auto simp: ids_unique_def)
  have caps: "pol_maxBatches p \<le> 100" "pol_maxMessages p \<le> 10000"
    using assms(1) by (auto simp: parseNewsletterRetentionPolicy_def clampPositiveInteger_Inr_iff)
  define st where "st = default_accumulator"
  note st_def' = st_def default_accumulator_def fresh_accumulator_def
  note lengths = sum_lengths [OF bs(2), of 0]
  have records: "int (length rs) \<le> MAX_RECORDS" using lengths ok(5) by (simp add: bs(1) MAX_STREAM_RECORDS_def)
  have "within_limits st bs"
    using lengths ok(3-5) caps sums_bounded [OF ok(1)]
    by (simp add: within_limits_def st_def' MAX_BATCHES_def MAX_MESSAGES_def MAX_STREAM_RECORDS_def
        MAX_RECORDS_def max_safe_def)
  then have valid: "batches_valid (pol_siteId p) st bs" using bs(3,4) by (simp add: batches_valid_def)
  have "times_printed r \<longrightarrow> escrow_record_ok r" if "r \<in> set rs" for r
  proof -
    have small: "int (length bs) \<le> max_safe"
      using valid by (simp add: batches_valid_def within_limits_def counts_of_def st_def'
          MAX_BATCHES_def max_safe_def)
    from in_all_records [OF that [unfolded bs(1)]] obtain i b
      where "b \<in> set bs" "r \<in> set (batch_records i b)" "0 \<le> i" "i < int (length bs)" by auto
    then show ?thesis
      using bs(5) small index_in_batch [of r i b]
      by (auto simp: escrow_record_ok_def safe_nat_def rows_ok_def list_all_iff simp del: row_ok.simps)
  qed
  then show ?thesis using cs(1) bs(1,2) valid records unfolding st_def by blast
qed

section \<open>An example snapshot\<close>

definition example_batch_row :: batch_row where
  "example_batch_row = \<lparr>br_id = lit ''r'', br_siteId = lit ''site'', br_fromEmail = lit ''f'', br_contents = [],
     br_batchId = lit ''b'', br_created = to_iso 0\<rparr>"

definition example_message_row :: message_row where
  "example_message_row = \<lparr>mr_id = lit ''i'', mr_messageId = lit ''m'', mr_toEmail = lit ''t'',
     mr_newsletterBatchId = lit ''r'', mr_created = to_iso 0, mr_formatedContents = [], mr_recipientData = None\<rparr>"

definition example_notification_row :: notification_row where
  "example_notification_row = \<lparr>nr_id = lit ''n'', nr_type = lit ''t'', nr_notificationId = lit ''n'',
     nr_messageId = lit ''m'', nr_rawEvent = [], nr_timestamp = to_iso 0, nr_created = to_iso 0\<rparr>"

definition example_batch :: escrow_batch where
  "example_batch = \<lparr>eb_row = example_batch_row, eb_messages = [example_message_row], eb_errors = [],
     eb_notifications = [example_notification_row]\<rparr>"

definition example_database_rows :: "js \<times> js \<times> js" where
  "example_database_rows =
     (obj [(''id'', JStr (lit ''r'')), (''siteId'', JStr (lit ''site'')), (''fromEmail'', JStr (lit ''f'')),
        (''contents'', JStr []), (''batchId'', JStr (lit ''b'')), (''created'', JDate (Some 0))],
      obj [(''id'', JStr (lit ''i'')), (''messageId'', JStr (lit ''m'')), (''toEmail'', JStr (lit ''t'')),
        (''newsletterBatchId'', JStr (lit ''r'')), (''created'', JDate (Some 0)), (''formatedContents'', JStr []),
        (''recipientData'', JNull)],
      obj [(''id'', JStr (lit ''n'')), (''type'', JStr (lit ''t'')), (''notificationId'', JStr (lit ''n'')),
        (''messageId'', JStr (lit ''m'')), (''rawEvent'', JStr []), (''timestamp'', JDate (Some 0)),
        (''created'', JDate (Some 0))])"

definition example_escrow_delegate :: escrow_delegate where
  "example_escrow_delegate = (case example_database_rows of (b, m, n) \<Rightarrow>
     \<lparr>loader_newsletterBatch_findFirst = (\<lambda>_. Inr b),
      loader_newsletterMessages_findMany = (\<lambda>_. Inr (JArr [m])),
      loader_newsletterErrors_findMany = (\<lambda>_. Inr (JArr [])),
      loader_newsletterNotifications_findMany = (\<lambda>_. Inr (JArr [n])),
      loader_newsletterNotificationOrphan_count = (\<lambda>_. Inr (jint 0))\<rparr>)"

definition example_policy_input :: js where
  "example_policy_input = obj [(''siteId'', JStr (lit ''site'')), (''cutoff'', JStr (to_iso 86400000))]"

definition example_candidate_input :: js where
  "example_candidate_input = obj [(''siteId'', JStr (lit ''site'')), (''batchRecordId'', JStr (lit ''r'')),
     (''batchId'', JStr (lit ''b'')), (''createdAt'', JStr (to_iso 0)), (''messageCount'', jint 1),
     (''notificationCount'', jint 1), (''errorCount'', jint 0), (''orphanCount'', jint 0),
     (''correlationComplete'', JBool True)]"

definition example_escrow_candidate :: escrow_candidate where
  "example_escrow_candidate = \<lparr>lc_siteId = lit ''site'', lc_batchRecordId = lit ''r'', lc_batchId = lit ''b'',
     lc_createdAt = to_iso 0, lc_createdAtMs = Some 0, lc_messageCount = 1, lc_notificationCount = 1,
     lc_errorCount = 0, lc_orphanCount = 0, lc_correlationComplete = True\<rparr>"

lemma more_trims:
  "trim (lit ''r'') = lit ''r''" "trim (lit ''f'') = lit ''f''" "trim (lit ''i'') = lit ''i''"
  "trim (lit ''t'') = lit ''t''"
  by (simp_all add: trim_idem_iff) (simp_all add: lit_def is_ws_def)

lemma example_policy_parses: "parseNewsletterRetentionPolicy example_policy_input = Inr example_policy"
proof -
  have "parse_strict_utc (JStr (to_iso 86400000)) e = Inr 86400000" for e
    by (simp only: parse_strict_utc_Inr_iff) (simp add: example_cutoff)
  moreover have "RetentionPolicy.normalizeSiteId (JStr (lit ''site'')) = Inr (lit ''site'')"
    by (simp add: RetentionPolicy.normalizeSiteId_def example_trims)
  ultimately show ?thesis
    by (simp add: parseNewsletterRetentionPolicy_def example_policy_input_def clampPositiveInteger_def example_policy_def
        del: bindE_Inr_iff parse_strict_utc_Inr_iff)
qed

lemma example_candidates: "normalizeCandidates (JArr [example_candidate_input]) example_policy = Inr [example_escrow_candidate]"
proof -
  have date: "date_parse (to_iso 0) = Some 0" by (rule date_parse_to_iso) (rule example_cutoff)
  have "EscrowLoader.normalizeUtcMillis (JStr (to_iso 0)) f = Inr (to_iso 0)" for f
    using example_cutoff by (auto simp: EscrowLoader.normalizeUtcMillis_def)
  moreover have "normalizeStrictString (JStr (lit x)) f = Inr (lit x)" if "x \<in> {''site'', ''r'', ''b''}" for x f
    using that example_trims more_trims by (auto simp: normalizeStrictString_def)
  moreover have "EscrowLoader.normalizeCount (jint n) f = Inr n" if "n \<in> {0, 1}" for n f
    using that by (auto simp: EscrowLoader.normalizeCount_def max_safe_def)
  note count = this [of 0, simplified] this [of 1, simplified]
  ultimately have "normalizeCandidate example_candidate_input (lit ''site'') 86400000 = Inr example_escrow_candidate"
    unfolding normalizeCandidate_def example_candidate_input_def
    by (subst expect_exact_keys_obj)
      (simp_all add: CANDIDATE_KEYS_def count date time_ge_def normalizeBoolean_def example_escrow_candidate_def
        del: bindE_Inr_iff)
  moreover have "EscrowLoader.parseStrictUtcIso (JStr (to_iso 86400000)) f = Inr 86400000" for f
    using example_cutoff by (simp add: EscrowLoader.parseStrictUtcIso_def)
  ultimately show ?thesis
    by (simp add: normalizeCandidates_def example_policy_def example_escrow_candidate_def MAX_STREAM_RECORDS_def
        MAX_RECORDS_def safeAdd_def max_safe_def sort_by_def del: bindE_Inr_iff)
qed

lemma example_loader_dates: "normalizePrismaDate (JDate (Some 0)) f = Inr (to_iso 0)"
  by (simp add: normalizePrismaDate_def)

lemma example_loader_strings:
  "x \<in> {''site'', ''r'', ''b'', ''f'', ''i'', ''m'', ''t'', ''n''} \<Longrightarrow> normalizeStrictString (JStr (lit x)) f = Inr (lit x)"
  using example_trims more_trims by (auto simp: normalizeStrictString_def)

lemma example_snapshot:
  "load_snapshot example_escrow_delegate example_policy no_keys example_escrow_candidate
     = Inr (example_batch, keys_of [example_batch])"
proof -
  note simps = example_loader_dates example_loader_strings EscrowLoader.normalizeString_def any_string_def
    EscrowLoader.normalizeRecipientData_def
  have batch: "EscrowLoader.normalizeBatchRow (fst example_database_rows) = Inr example_batch_row"
    unfolding EscrowLoader.normalizeBatchRow_def example_database_rows_def fst_conv
    by (subst expect_exact_keys_obj) (simp_all add: BATCH_ROW_KEYS_def simps example_batch_row_def del: bindE_Inr_iff)
  have message: "EscrowLoader.normalizeMessageRow i (fst (snd example_database_rows)) = Inr example_message_row" for i
    unfolding EscrowLoader.normalizeMessageRow_def example_database_rows_def fst_conv snd_conv
    by (subst expect_exact_keys_obj) (simp_all add: MESSAGE_ROW_KEYS_def simps example_message_row_def del: bindE_Inr_iff)
  have notification: "EscrowLoader.normalizeNotificationRow i (snd (snd example_database_rows)) = Inr example_notification_row" for i
    unfolding EscrowLoader.normalizeNotificationRow_def example_database_rows_def snd_conv
    by (subst expect_exact_keys_obj)
      (simp_all add: NOTIFICATION_ROW_KEYS_def simps example_notification_row_def del: bindE_Inr_iff)
  have dates: "date_parse (to_iso 0) = Some 0" "date_parse (to_iso 86400000) = Some 86400000"
    by (intro date_parse_to_iso example_cutoff)+
  have answer: "fst example_database_rows \<noteq> JNull" by (simp add: example_database_rows_def)
  have "loadBatchRow example_escrow_delegate example_escrow_candidate example_policy = Inr example_batch_row"
    using batch answer dates
    by (simp add: loadBatchRow_def example_escrow_delegate_def split_beta example_batch_row_def
        example_escrow_candidate_def example_policy_def time_ge_def)
  moreover have "loadMessageRows example_escrow_delegate example_escrow_candidate = Inr [example_message_row]"
    using message
    by (simp add: loadMessageRows_def example_escrow_delegate_def split_beta EscrowLoader.normalizeMessageRows_def
        expected_rows_def example_escrow_candidate_def example_message_row_def)
  moreover have "loadErrorRows example_escrow_delegate example_escrow_candidate = Inr []"
    by (simp add: loadErrorRows_def example_escrow_delegate_def split_beta normalizeErrorRows_def
        expected_rows_def example_escrow_candidate_def)
  moreover have "loadNotificationRows example_escrow_delegate example_escrow_candidate [example_message_row]
      = Inr [example_notification_row]"
    using notification
    by (simp add: loadNotificationRows_def example_escrow_delegate_def split_beta normalizeNotificationRows_def
        expected_rows_def example_escrow_candidate_def example_message_row_def example_notification_row_def)
  moreover have "validateOrphanCount example_escrow_delegate [example_message_row] = Inr ()"
    by (simp add: validateOrphanCount_def example_escrow_delegate_def split_beta EscrowLoader.normalizeCount_def max_safe_def)
  ultimately show ?thesis
    by (simp add: load_snapshot_def example_escrow_candidate_def assertSnapshotUniqueKeys_def remember_rows_def
        assertAndRememberUniqueKey_def no_keys_def keys_of_def example_batch_def batch_message_ids_def)
qed

lemma example_stream:
  "streamNewsletterRetentionEscrowRecords example_escrow_delegate example_policy_input (JArr [example_candidate_input])
     = (all_records 0 [example_batch], Inr ())"
  using example_policy_parses example_candidates example_snapshot
  by (simp add: streamNewsletterRetentionEscrowRecords_def)

section \<open>Properties\<close>

text \<open>
  C25: a snapshot that streams to its end is a valid escrow body. When the generator returns, the
  records it yielded are those of whole batches numbered from 0, they satisfy every invariant the
  verifier checks (site, order by id, parents, unique ids) within its hard limits, and the counts
  match the candidates exactly. A record fails the escrow's field checks only through a database time
  outside the years 0 to 9999.
\<close>

theorem complete_stream_is_valid_escrow:
  assumes "parseNewsletterRetentionPolicy policy = Inr p"
    and "streamNewsletterRetentionEscrowRecords d policy candidates = (rs, Inr ())"
  shows "\<exists>cs bs. normalizeCandidates candidates p = Inr cs \<and> rs = all_records 0 bs
     \<and> list_all2 loaded_from cs bs \<and> batches_valid (pol_siteId p) default_accumulator bs
     \<and> int (length rs) \<le> MAX_RECORDS \<and> (\<forall>r \<in> set rs. times_printed r \<longrightarrow> escrow_record_ok r)"
  by (rule stream_is_valid [OF assms])

lemma complete_stream_is_valid_escrow_witness:
  "\<exists>cs bs. all_records 0 [example_batch] = all_records 0 bs \<and> list_all2 loaded_from cs bs
     \<and> batches_valid (lit ''site'') default_accumulator bs"
proof -
  have "pol_siteId example_policy = lit ''site''" by (simp add: example_policy_def)
  then show ?thesis
    using complete_stream_is_valid_escrow [OF example_policy_parses example_stream] by auto
qed

end
