(* ===== verification/EscrowWriter.thy ===== *)
theory EscrowWriter
  imports EscrowLoader
begin

text \<open>
  The escrow writer (service/newsletter-retention-escrow-writer.ts): every line goes through the
  verifier, the running hash and the sink, in this order. The sink is a predicate that accepts or
  refuses the next chunk after the chunks written so far; the record stream is what a generator
  yields and how it ends.
\<close>

section \<open>Input check\<close>

definition INPUT_KEYS :: "string list" where
  "INPUT_KEYS = [''header'', ''records'', ''writeChunk'']"

text \<open>The property \<^verbatim>\<open>Symbol.asyncIterator\<close> of the record stream stands under that name.\<close>

definition assertWriterInput :: "js \<Rightarrow> unit res" where
  "assertWriterInput v =
     bindE (expect_exact_keys v INPUT_KEYS ''escrow writer input'') (\<lambda>_.
       if get_prop v ''writeChunk'' \<noteq> JFun then Inl (Error ''escrow writeChunk must be a function'')
       else if \<not> is_object (get_prop v ''records'')
       then Inl (Error ''escrow records must be an async iterable'')
       else if get_prop (get_prop v ''records'') ''Symbol.asyncIterator'' \<noteq> JFun
       then Inl (Error ''escrow records must be an async iterable'')
       else Inr ())"

section \<open>Writing\<close>

type_synonym sink = "byte list list \<Rightarrow> byte list \<Rightarrow> bool"

record writer =
  wr_accumulator :: accumulator
  wr_counts :: escrow_counts
  wr_hashed :: jstr
  wr_chunks :: "byte list list"

definition addSafeInteger :: "int \<Rightarrow> string \<Rightarrow> int res" where
  "addSafeInteger n message =
     (if \<bar>n\<bar> > max_safe \<or> n < 0 \<or> n = max_safe then Inl (Error message) else Inr (n + 1))"

definition incrementCount :: "escrow_kind \<Rightarrow> escrow_counts \<Rightarrow> escrow_counts res" where
  "incrementCount k c = (case k of
     NewsletterBatch \<Rightarrow> bindE (addSafeInteger (ec_batches c) ''batch count overflow'') (\<lambda>n. Inr (c\<lparr>ec_batches := n\<rparr>))
   | NewsletterMessages \<Rightarrow> bindE (addSafeInteger (ec_messages c) ''message count overflow'') (\<lambda>n. Inr (c\<lparr>ec_messages := n\<rparr>))
   | NewsletterErrors \<Rightarrow> bindE (addSafeInteger (ec_errors c) ''error count overflow'') (\<lambda>n. Inr (c\<lparr>ec_errors := n\<rparr>))
   | NewsletterNotifications \<Rightarrow>
       bindE (addSafeInteger (ec_notifications c) ''notification count overflow'') (\<lambda>n. Inr (c\<lparr>ec_notifications := n\<rparr>)))"

definition writeCanonicalLine :: "sink \<Rightarrow> jstr \<Rightarrow> writer \<Rightarrow> writer \<times> unit res" where
  "writeCanonicalLine sink line w =
     (let chunk = utf8_encode (line @ [10]) in
      if sink (wr_chunks w) chunk then (w\<lparr>wr_chunks := wr_chunks w @ [chunk]\<rparr>, Inr ())
      else (w, Inl (Error ''escrow sink write failed'')))"

text \<open>A line consumed by the verifier, counted, hashed and written; \<open>f\<close> is the counting.\<close>

definition write_hashed_line ::
  "(jstr \<Rightarrow> jstr) \<Rightarrow> sink \<Rightarrow> jstr \<Rightarrow> (escrow_counts \<Rightarrow> escrow_counts res) \<Rightarrow> writer \<Rightarrow> writer \<times> unit res" where
  "write_hashed_line sha sink line f w = (case consume sha (TextLine line) (wr_accumulator w) of
     (Inl e, acc) \<Rightarrow> (w\<lparr>wr_accumulator := acc\<rparr>, Inl e)
   | (Inr _, acc) \<Rightarrow> (case f (wr_counts w) of
       Inl e \<Rightarrow> (w\<lparr>wr_accumulator := acc\<rparr>, Inl e)
     | Inr n \<Rightarrow> writeCanonicalLine sink line
         (w\<lparr>wr_accumulator := acc, wr_counts := n, wr_hashed := wr_hashed w @ line @ [10]\<rparr>)))"

text \<open>The loop over the record stream, with the way the stream ends.\<close>

fun write_records ::
  "(jstr \<Rightarrow> jstr) \<Rightarrow> sink \<Rightarrow> escrow_record list \<Rightarrow> unit res \<Rightarrow> writer \<Rightarrow> writer \<times> unit res" where
  "write_records sha sink [] outcome w = (w, outcome)"
| "write_records sha sink (r # rs) outcome w =
     (case serializeNewsletterRetentionEscrowRecord (record_object r) of
        Inl e \<Rightarrow> (w, Inl e)
      | Inr line \<Rightarrow> (case write_hashed_line sha sink line (incrementCount (record_kind r)) w of
          (w', Inl e) \<Rightarrow> (w', Inl e)
        | (w', Inr _) \<Rightarrow> write_records sha sink rs outcome w'))"

definition new_writer :: "accumulator \<Rightarrow> writer" where
  "new_writer acc = \<lparr>wr_accumulator = acc, wr_counts = no_counts, wr_hashed = [], wr_chunks = []\<rparr>"

definition write_footer :: "(jstr \<Rightarrow> jstr) \<Rightarrow> sink \<Rightarrow> writer \<Rightarrow> writer \<times> verification_result res" where
  "write_footer sha sink w =
     (case serializeNewsletterRetentionEscrowFooter
             (footer_object \<lparr>ef_counts = wr_counts w, ef_contentHash = sha (wr_hashed w)\<rparr>) of
        Inl e \<Rightarrow> (w, Inl e)
      | Inr line \<Rightarrow> (case consume sha (TextLine line) (wr_accumulator w) of
          (Inl e, acc) \<Rightarrow> (w\<lparr>wr_accumulator := acc\<rparr>, Inl e)
        | (Inr None, acc) \<Rightarrow> (w\<lparr>wr_accumulator := acc\<rparr>, Inl (Error ''escrow footer verification failed''))
        | (Inr (Some _), acc) \<Rightarrow>
            (case writeCanonicalLine sink line (w\<lparr>wr_accumulator := acc\<rparr>) of
               (w', Inl e) \<Rightarrow> (w', Inl e)
             | (w', Inr _) \<Rightarrow> (w', finalize (wr_accumulator w')))))"

text \<open>The chunks the sink was given, and the result.\<close>

definition writeNewsletterRetentionEscrow ::
  "(jstr \<Rightarrow> jstr) \<Rightarrow> sink \<Rightarrow> js \<Rightarrow> escrow_record list \<times> unit res
   \<Rightarrow> byte list list \<times> verification_result res" where
  "writeNewsletterRetentionEscrow sha sink input stream =
     (case bindE (assertWriterInput input) (\<lambda>_.
             bindE (createNewsletterRetentionEscrowAccumulator default_options) (\<lambda>acc.
             bindE (serializeNewsletterRetentionEscrowHeader (get_prop input ''header'')) (\<lambda>line. Inr (acc, line)))) of
        Inl e \<Rightarrow> ([], Inl e)
      | Inr (acc, line) \<Rightarrow>
          (case write_hashed_line sha sink line Inr (new_writer acc) of
             (w, Inl e) \<Rightarrow> (wr_chunks w, Inl e)
           | (w, Inr _) \<Rightarrow> (case write_records sha sink (fst stream) (snd stream) w of
               (w, Inl e) \<Rightarrow> (wr_chunks w, Inl e)
             | (w, Inr _) \<Rightarrow> (case write_footer sha sink w of (w, result) \<Rightarrow> (wr_chunks w, result)))))"

section \<open>Bytes of a line\<close>

lemma utf8_encode_append: "well_formed_utf16 s \<Longrightarrow> utf8_encode (s @ t) = utf8_encode s @ utf8_encode t"
proof (induction s rule: well_formed_utf16.induct)
  case (2 c)
  then show ?case by (cases t) simp_all
qed (auto split: if_splits)

lemma line_chunk: "line_ok p \<Longrightarrow> utf8_encode (line_text p @ [10]) = utf8_encode (line_text p) @ [10]"
  by (simp add: utf8_encode_append line_text_well_formed is_high_surrogate_def is_low_surrogate_def
      code_point_bytes_def byte_of_def)

definition chunk_line :: "byte list \<Rightarrow> raw_line" where
  "chunk_line chunk = ByteLine (butlast chunk)"

lemma chunk_line_reads:
  assumes "line_ok p"
  shows "text_of (chunk_line (utf8_encode (line_text p @ [10]))) = Some (line_text p)"
    "byte_size (chunk_line (utf8_encode (line_text p @ [10]))) = byte_size (TextLine (line_text p))"
  using decode_line [OF assms]
  by (simp_all add: chunk_line_def line_chunk [OF assms] text_of_def byte_size_def utf8_length_def)

text \<open>
  The decoder drops a byte order mark, so a byte line that starts with one reads as the canonical line
  although its bytes are not the canonical ones.
\<close>

lemma bom_line_reads: "line_ok p \<Longrightarrow> text_of (ByteLine (utf8_bom @ utf8_encode (line_text p))) = Some (line_text p)"
  using utf8_units_encode [OF line_text_well_formed] by (simp add: text_of_def utf8_decode_def utf8_bom_def)

section \<open>What has been written\<close>

lemma nullable_inject: "nullable_string a = nullable_string b \<longleftrightarrow> a = b"
  by (auto simp: nullable_string_def split: option.splits)

lemma serialized_record:
  assumes "serializeNewsletterRetentionEscrowRecord (record_object r) = Inr line"
  shows "escrow_record_ok r \<and> line = record_line r"
proof -
  obtain r' where r': "normalizeEscrowRecord (record_object r) = Inr r'" "line = record_line r'"
    using assms by (auto simp: serializeNewsletterRetentionEscrowRecord_def)
  have "r' = r"
  proof (cases r)
    case (BatchRecord i b)
    then show ?thesis using r'(1)
      by (auto simp: normalizeEscrowRecord_def record_object_def EscrowFormat.normalizeBatchRow_def field_iffs
          normalizeManifestIndex_def batch_row_object_def normalizeStrictSiteId_def)
  next
    case (MessageRecord i m)
    then show ?thesis using r'(1)
      by (auto simp: normalizeEscrowRecord_def record_object_def EscrowFormat.normalizeMessageRow_def field_iffs
          normalizeManifestIndex_def message_row_object_def nullable_inject)
  next
    case (ErrorRecord i e)
    then show ?thesis using r'(1)
      by (auto simp: normalizeEscrowRecord_def record_object_def EscrowFormat.normalizeErrorRow_def field_iffs
          normalizeManifestIndex_def error_row_object_def nullable_inject)
  next
    case (NotificationRecord i n)
    then show ?thesis using r'(1)
      by (auto simp: normalizeEscrowRecord_def record_object_def EscrowFormat.normalizeNotificationRow_def field_iffs
          normalizeManifestIndex_def notification_row_object_def)
  qed
  then show ?thesis using r' normalize_record_ok by blast
qed

lemma serialized_footer:
  assumes "serializeNewsletterRetentionEscrowFooter (footer_object f) = Inr line"
  shows "footer_ok f \<and> line = footer_line f"
proof -
  obtain g where g: "normalizeEscrowFooter (footer_object f) = Inr g" "line = footer_line g"
    using assms by (auto simp: serializeNewsletterRetentionEscrowFooter_def)
  then have "footer_ok g" "normalize_counts (counts_object (ef_counts f)) = Inr (ef_counts g)"
      "ef_contentHash f = ef_contentHash g"
    by (simp_all add: footer_Inr_iff footer_props)
  moreover from this(2) have "ef_counts f = ef_counts g"
    by (auto simp: counts_Inr_iff counts_props intro: escrow_counts.equality)
  ultimately have "f = g" by (intro escrow_footer.equality) simp_all
  then show ?thesis using g \<open>footer_ok g\<close> by simp
qed

definition sent :: "(jstr \<Rightarrow> jstr) \<Rightarrow> writer \<Rightarrow> escrow_line list \<Rightarrow> bool" where
  "sent sha w ps \<longleftrightarrow> list_all line_ok ps \<and> wr_chunks w = map (\<lambda>p. utf8_encode (line_text p @ [10])) ps
     \<and> foldE (consume_or_throw sha) default_accumulator (map (\<lambda>p. TextLine (line_text p)) ps) = Inr (wr_accumulator w)"

definition written :: "(jstr \<Rightarrow> jstr) \<Rightarrow> writer \<Rightarrow> escrow_line list \<Rightarrow> bool" where
  "written sha w ps \<longleftrightarrow> sent sha w ps \<and> wr_hashed w = hash_text ps"

lemma consume_Inr_iff: "consume sha l st = (Inr res, st') \<longleftrightarrow> \<not> ac_failed st \<and> consumeLine sha l st = Inr (res, st')"
  by (auto simp: consume_def split: sum.splits)

lemma write_hashed_line_cases:
  "write_hashed_line sha sink line f w = (w', Inr u) \<longleftrightarrow>
     (\<exists>res acc n. consume sha (TextLine line) (wr_accumulator w) = (Inr res, acc) \<and> f (wr_counts w) = Inr n
        \<and> sink (wr_chunks w) (utf8_encode (line @ [10]))
        \<and> w' = \<lparr>wr_accumulator = acc, wr_counts = n, wr_hashed = wr_hashed w @ line @ [10],
               wr_chunks = wr_chunks w @ [utf8_encode (line @ [10])]\<rparr>)"
  by (cases w) (auto simp: write_hashed_line_def writeCanonicalLine_def Let_def split: prod.splits sum.splits)

lemma write_hashed_line_written:
  assumes "write_hashed_line sha sink (line_text p) f w = (w', Inr u)" "line_ok p" "written sha w ps"
  shows "written sha w' (ps @ [p]) \<and> f (wr_counts w) = Inr (wr_counts w')"
  using assms
  by (auto simp: write_hashed_line_cases written_def sent_def hash_text_def foldE_append consume_or_throw_def)

lemma write_records_written:
  assumes "write_records sha sink rs outcome w = (w', Inr u)" "written sha w ps"
  shows "outcome = Inr () \<and> list_all escrow_record_ok rs \<and> written sha w' (ps @ map RecordLine rs)"
  using assms
proof (induction rs arbitrary: w ps)
  case (Cons r rs)
  then obtain line w1 u1 where step: "serializeNewsletterRetentionEscrowRecord (record_object r) = Inr line"
      "write_hashed_line sha sink line (incrementCount (record_kind r)) w = (w1, Inr u1)"
      "write_records sha sink rs outcome w1 = (w', Inr u)"
    by (auto split: sum.splits prod.splits)
  have ok: "escrow_record_ok r" "line = line_text (RecordLine r)" using serialized_record [OF step(1)] by simp_all
  have "written sha w1 (ps @ [RecordLine r])"
    using write_hashed_line_written [of sha sink "RecordLine r", OF _ _ Cons.prems(2)] step(2) ok by auto
  from Cons.IH [OF step(3) this] show ?case using ok by simp
qed simp

lemma write_footer_written:
  assumes "write_footer sha sink w = (w', Inr v)" "written sha w ps"
  shows "\<exists>f. sent sha w' (ps @ [FooterLine f]) \<and> finalize (wr_accumulator w') = Inr v"
proof -
  let ?f = "\<lparr>ef_counts = wr_counts w, ef_contentHash = sha (wr_hashed w)\<rparr>"
  obtain line acc res where run: "serializeNewsletterRetentionEscrowFooter (footer_object ?f) = Inr line"
      "consume sha (TextLine line) (wr_accumulator w) = (Inr (Some res), acc)"
      "w' = w\<lparr>wr_accumulator := acc, wr_chunks := wr_chunks w @ [utf8_encode (line @ [10])]\<rparr>"
      "finalize (wr_accumulator w') = Inr v"
    using assms(1)
    by (auto simp: write_footer_def writeCanonicalLine_def Let_def split: sum.splits prod.splits option.splits if_splits)
  have ok: "line_ok (FooterLine ?f)" "line = line_text (FooterLine ?f)" using serialized_footer [OF run(1)] by simp_all
  have "sent sha w' (ps @ [FooterLine ?f])"
    using assms(2) run(2,3) ok by (auto simp: written_def sent_def foldE_append consume_or_throw_def)
  then show ?thesis using run(4) by blast
qed

lemma new_writer_written: "written sha (new_writer default_accumulator) []"
  by (simp add: written_def sent_def new_writer_def hash_text_def)

lemma write_cases:
  assumes "writeNewsletterRetentionEscrow sha sink input stream = (chunks, Inr v)"
  obtains h w1 w2 w3 u u' where "assertWriterInput input = Inr ()"
    "normalizeEscrowHeader (get_prop input ''header'') = Inr h"
    "write_hashed_line sha sink (line_text (HeaderLine h)) Inr (new_writer default_accumulator) = (w1, Inr u)"
    "write_records sha sink (fst stream) (snd stream) w1 = (w2, Inr u')"
    "write_footer sha sink w2 = (w3, Inr v)" "chunks = wr_chunks w3"
  using assms
  by (auto simp: writeNewsletterRetentionEscrow_def create_default serializeNewsletterRetentionEscrowHeader_def
      bindE_def split: sum.splits prod.splits)

lemma same_reading:
  assumes "map text_of ls = map text_of ls'" "map byte_size ls = map byte_size ls'"
  shows "reads_as ls ps = reads_as ls' ps" "sizes_ok st ls = sizes_ok st ls'"
proof -
  show "reads_as ls ps = reads_as ls' ps" using assms(1) by (simp add: reads_as_def)
  have eqs: "total_size xs = (\<Sum>n\<leftarrow>map byte_size xs. n + 1)"
      "list_all (\<lambda>l. byte_size l \<le> m) xs = list_all (\<lambda>n. n \<le> m) (map byte_size xs)" for xs m
    by (simp_all add: total_size_def comp_def list_all_iff)
  show "sizes_ok st ls = sizes_ok st ls'" by (simp only: sizes_ok_def eqs assms(2))
qed

text \<open>The bytes that reached the sink, chunk by chunk, are a file the verifier accepts.\<close>

lemma chunks_verify:
  assumes "sent sha w ps" "foldE (consume_or_throw sha) default_accumulator (map (\<lambda>p. TextLine (line_text p)) ps) = Inr s"
    "finalize s = Inr v"
  shows "verify_lines sha default_options (map chunk_line (wr_chunks w)) = Inr v"
proof -
  have ok: "list_all line_ok ps" and chunks: "wr_chunks w = map (\<lambda>p. utf8_encode (line_text p @ [10])) ps"
    using assms(1) by (simp_all add: sent_def)
  have "verify_lines sha default_options (map (\<lambda>p. TextLine (line_text p)) ps) = Inr v"
    using assms(2,3) by (simp add: verify_lines_def create_default)
  moreover have "map text_of (map (\<lambda>p. TextLine (line_text p)) ps) = map text_of (map chunk_line (wr_chunks w))"
  proof -
    have "text_of (TextLine t) = Some t" for t by (simp add: text_of_def)
    then show ?thesis using ok by (simp add: chunks list_all_iff chunk_line_reads)
  qed
  moreover have "map byte_size (map (\<lambda>p. TextLine (line_text p)) ps) = map byte_size (map chunk_line (wr_chunks w))"
    using ok by (auto simp: chunks list_all_iff chunk_line_reads)
  ultimately show ?thesis unfolding verify_lines_iff using same_reading by metis
qed

section \<open>When writing succeeds\<close>

definition accepting :: sink where
  "accepting chunks chunk = True"

definition add_kind :: "escrow_kind \<Rightarrow> escrow_counts \<Rightarrow> escrow_counts" where
  "add_kind k c = (case k of
     NewsletterBatch \<Rightarrow> c\<lparr>ec_batches := ec_batches c + 1\<rparr>
   | NewsletterMessages \<Rightarrow> c\<lparr>ec_messages := ec_messages c + 1\<rparr>
   | NewsletterErrors \<Rightarrow> c\<lparr>ec_errors := ec_errors c + 1\<rparr>
   | NewsletterNotifications \<Rightarrow> c\<lparr>ec_notifications := ec_notifications c + 1\<rparr>)"

definition tally :: "escrow_record list \<Rightarrow> escrow_counts \<Rightarrow> escrow_counts" where
  "tally rs c = foldl (\<lambda>c r. add_kind (record_kind r) c) c rs"

definition small_counts :: "int \<Rightarrow> escrow_counts \<Rightarrow> bool" where
  "small_counts n c \<longleftrightarrow> (\<forall>x \<in> {ec_batches c, ec_messages c, ec_errors c, ec_notifications c}. 0 \<le> x \<and> x + n \<le> max_safe)"

lemma incrementCount_small: "small_counts 1 c \<Longrightarrow> incrementCount k c = Inr (add_kind k c)"
  by (cases k) (auto simp: incrementCount_def add_kind_def small_counts_def EscrowWriter.addSafeInteger_def)

lemma small_counts_add: "small_counts (n + 1) c \<Longrightarrow> 0 \<le> n \<Longrightarrow> small_counts n (add_kind k c) \<and> small_counts 1 c"
  by (cases k) (auto simp: add_kind_def small_counts_def)

lemma write_line_succeeds:
  assumes "written sha w ps" "line_ok p" "f (wr_counts w) = Inr n"
    and "foldE (consume_or_throw sha) default_accumulator (map (\<lambda>p. TextLine (line_text p)) (ps @ [p])) = Inr s"
  shows "\<exists>w'. write_hashed_line sha accepting (line_text p) f w = (w', Inr ()) \<and> wr_counts w' = n
     \<and> written sha w' (ps @ [p])"
proof -
  have "consume_or_throw sha (wr_accumulator w) (TextLine (line_text p)) = Inr s"
    using assms(1,4) by (simp add: written_def sent_def foldE_append)
  then obtain res where "consume sha (TextLine (line_text p)) (wr_accumulator w) = (Inr res, s)"
    by (auto simp: consume_or_throw_def split: prod.splits sum.splits)
  then have "write_hashed_line sha accepting (line_text p) f w = (\<lparr>wr_accumulator = s, wr_counts = n,
      wr_hashed = wr_hashed w @ line_text p @ [10],
      wr_chunks = wr_chunks w @ [utf8_encode (line_text p @ [10])]\<rparr>, Inr ())"
    using assms(3) by (auto simp: write_hashed_line_cases accepting_def)
  then show ?thesis using write_hashed_line_written [OF _ assms(2,1)] assms(3) by fastforce
qed

lemma write_records_succeed:
  assumes "written sha w ps" "list_all escrow_record_ok rs" "small_counts (int (length rs)) (wr_counts w)"
    and "foldE (consume_or_throw sha) default_accumulator (map (\<lambda>p. TextLine (line_text p)) (ps @ map RecordLine rs)) = Inr s"
  shows "\<exists>w'. write_records sha accepting rs (Inr ()) w = (w', Inr ()) \<and> wr_counts w' = tally rs (wr_counts w)
     \<and> written sha w' (ps @ map RecordLine rs)"
  using assms
proof (induction rs arbitrary: w ps)
  case Nil
  then show ?case by (simp add: tally_def)
next
  case (Cons r rs)
  have ok: "escrow_record_ok r" using Cons.prems(2) by simp
  have counts: "small_counts (int (length rs)) (add_kind (record_kind r) (wr_counts w))" "small_counts 1 (wr_counts w)"
    using small_counts_add [of "int (length rs)"] Cons.prems(3) by (simp_all add: add.commute)
  obtain t where t: "foldE (consume_or_throw sha) default_accumulator
      (map (\<lambda>p. TextLine (line_text p)) (ps @ [RecordLine r])) = Inr t"
    using Cons.prems(4) by (auto simp: foldE_append)
  have line: "line_ok (RecordLine r)" using ok by simp
  obtain w1 where w1: "write_hashed_line sha accepting (record_line r) (incrementCount (record_kind r)) w = (w1, Inr ())"
      "wr_counts w1 = add_kind (record_kind r) (wr_counts w)" "written sha w1 (ps @ [RecordLine r])"
    using write_line_succeeds [where f = "incrementCount (record_kind r)", OF Cons.prems(1) line
      incrementCount_small [OF counts(2)] t] by auto
  obtain w2 where "write_records sha accepting rs (Inr ()) w1 = (w2, Inr ())" "wr_counts w2 = tally rs (wr_counts w1)"
      "written sha w2 ((ps @ [RecordLine r]) @ map RecordLine rs)"
    using Cons.IH [OF w1(3)] Cons.prems(2,4) counts(1) w1(2) by auto
  then show ?case using w1 serialized_item(2) [OF ok] by (auto simp: tally_def)
qed

lemma tally_append: "tally (rs @ rs') c = tally rs' (tally rs c)"
  by (simp add: tally_def)

lemma tally_rows:
  "tally (map (MessageRecord i) ms) c = c\<lparr>ec_messages := ec_messages c + int (length ms)\<rparr>"
  "tally (map (ErrorRecord i) es) c = c\<lparr>ec_errors := ec_errors c + int (length es)\<rparr>"
  "tally (map (NotificationRecord i) ns) c = c\<lparr>ec_notifications := ec_notifications c + int (length ns)\<rparr>"
  by (induction ms arbitrary: c, simp_all add: tally_def add_kind_def,
      induction es arbitrary: c, simp_all add: add_kind_def,
      induction ns arbitrary: c, simp_all add: add_kind_def)

lemma tally_all: "tally (all_records 0 bs) no_counts = counts_of bs"
proof (induction bs rule: rev_induct)
  case (snoc b bs)
  have "tally (batch_records i b) c = \<lparr>ec_batches = ec_batches c + 1,
      ec_messages = ec_messages c + int (length (eb_messages b)), ec_errors = ec_errors c + int (length (eb_errors b)),
      ec_notifications = ec_notifications c + int (length (eb_notifications b))\<rparr>" for i c
  proof -
    have "tally [BatchRecord i (eb_row b)] c = c\<lparr>ec_batches := ec_batches c + 1\<rparr>"
      by (simp add: tally_def add_kind_def)
    moreover have "batch_records i b = [BatchRecord i (eb_row b)] @ map (MessageRecord i) (eb_messages b)
        @ map (ErrorRecord i) (eb_errors b) @ map (NotificationRecord i) (eb_notifications b)"
      by (simp add: batch_records_def)
    ultimately show ?thesis by (simp only: tally_append tally_rows) simp
  qed
  then show ?case using snoc by (simp add: all_records_snoc tally_append counts_of_snoc)
qed (simp add: tally_def counts_of_def no_counts_def)

lemma write_footer_succeeds:
  assumes w: "written sha w (open_items h bs)" and counts: "wr_counts w = counts_of bs"
    and f: "f = \<lparr>ef_counts = counts_of bs, ef_contentHash = sha (hash_text (open_items h bs))\<rparr>" "footer_ok f"
    and run: "foldE (consume_or_throw sha) default_accumulator
      (map (\<lambda>p. TextLine (line_text p)) (open_items h bs @ [FooterLine f])) = Inr s" "finalize s = Inr v"
  shows "\<exists>w'. write_footer sha accepting w = (w', Inr v)
     \<and> wr_chunks w' = wr_chunks w @ [utf8_encode (footer_line f @ [10])]"
proof -
  have "consume_or_throw sha (wr_accumulator w) (TextLine (footer_line f)) = Inr s"
    using w run(1) by (simp add: written_def sent_def foldE_append)
  then obtain res where res: "consume sha (TextLine (footer_line f)) (wr_accumulator w) = (Inr res, s)"
    by (auto simp: consume_or_throw_def split: prod.splits sum.splits)
  then obtain p bytes where p: "footer_line f = line_text p" "line_ok p"
      "item_step sha p ((wr_accumulator w)\<lparr>ac_totalBytes := bytes\<rparr>) = Inr (res, s)"
    by (auto simp: consume_Inr_iff consumeLine_iff text_of_def)
  have "p = FooterLine f"
    using parse_line_text [OF p(2)] parse_line_text [of "FooterLine f"] f(2) p(1) by simp
  then obtain v' where "res = Some v'" using p(3) by (auto simp: item_step_def)
  moreover have "serializeNewsletterRetentionEscrowFooter
      (footer_object \<lparr>ef_counts = wr_counts w, ef_contentHash = sha (wr_hashed w)\<rparr>) = Inr (footer_line f)"
    using w counts f serialized_item(3) [of f] by (simp add: written_def)
  ultimately show ?thesis
    using res run(2) by (simp add: write_footer_def writeCanonicalLine_def accepting_def)
qed

definition writer_input :: "escrow_header \<Rightarrow> js" where
  "writer_input h = obj [(''header'', header_object h), (''records'', obj [(''Symbol.asyncIterator'', JFun)]),
     (''writeChunk'', JFun)]"

lemma writer_input_ok: "assertWriterInput (writer_input h) = Inr ()" "get_prop (writer_input h) ''header'' = header_object h"
proof -
  have "expect_exact_keys (writer_input h) INPUT_KEYS l = Inr ()" for l
    unfolding writer_input_def by (rule expect_exact_keys_obj) (simp add: INPUT_KEYS_def)
  then show "assertWriterInput (writer_input h) = Inr ()" by (simp add: assertWriterInput_def writer_input_def)
qed (simp add: writer_input_def)

lemma default_pristine: "pristine default_accumulator"
  using created_pristine [OF create_default] .

lemma valid_footer:
  assumes "batches_valid siteId default_accumulator bs" "is_hash64 t"
  shows "footer_ok \<lparr>ef_counts = counts_of bs, ef_contentHash = t\<rparr>"
proof -
  have "counts_ok (counts_of bs)"
    using assms(1) counts_of_nonneg [of bs]
    by (auto simp: counts_ok_def safe_nat_def batches_valid_def within_limits_def default_accumulator_def
        fresh_accumulator_def MAX_BATCHES_def MAX_MESSAGES_def max_safe_def)
  then show ?thesis using assms(2) by (simp add: footer_ok_def)
qed

lemma write_succeeds:
  assumes h: "header_ok h" and rs: "rs = all_records 0 bs" "list_all escrow_record_ok rs"
    and valid: "batches_valid (eh_siteId h) default_accumulator bs" and few: "int (length rs) \<le> MAX_RECORDS"
    and f: "f = \<lparr>ef_counts = counts_of bs, ef_contentHash = sha (hash_text (open_items h bs))\<rparr>"
    and hash: "is_hash64 (ef_contentHash f)"
    and sizes: "sizes_ok default_accumulator (map (\<lambda>p. TextLine (line_text p)) (open_items h bs @ [FooterLine f]))"
  shows "writeNewsletterRetentionEscrow sha accepting (writer_input h) (rs, Inr ())
     = (map (\<lambda>p. utf8_encode (line_text p @ [10])) (open_items h bs @ [FooterLine f]), Inr (verification_of h f))"
proof -
  let ?lines = "map (\<lambda>p. TextLine (line_text p))"
  have fok: "footer_ok f" using hash valid_footer [OF valid] by (simp add: f)
  have ok: "list_all line_ok (open_items h bs @ [FooterLine f])"
    using h rs fok by (simp add: open_items_def list_all_iff)
  have reads: "reads_as (?lines ps) ps" if "list_all line_ok ps" for ps
    using that by (simp add: reads_as_def text_of_def comp_def)
  have records: "records_ok default_accumulator h bs"
    using valid few rs(1) by (simp add: records_ok_def default_accumulator_def fresh_accumulator_def)
  have run: "foldE (consume_or_throw sha) default_accumulator (?lines (open_items h bs @ [FooterLine f]))
      = Inr (closed_state default_accumulator h bs f (?lines (open_items h bs @ [FooterLine f])))"
  proof -
    have "footer_matches sha h bs f" by (simp add: footer_matches_def f)
    then show ?thesis
      unfolding run_iff [OF default_pristine] using reads [OF ok] sizes records by blast
  qed
  then obtain s1 s2 where s: "foldE (consume_or_throw sha) default_accumulator (?lines ([] @ [HeaderLine h])) = Inr s1"
      "foldE (consume_or_throw sha) default_accumulator (?lines ([HeaderLine h] @ map RecordLine rs)) = Inr s2"
    by (auto simp: open_items_def foldE_append rs(1))
  have line: "line_ok (HeaderLine h)" using h by simp
  obtain w1 where w1: "write_hashed_line sha accepting (header_line h) Inr (new_writer default_accumulator) = (w1, Inr ())"
      "wr_counts w1 = no_counts" "written sha w1 [HeaderLine h]"
    using write_line_succeeds [where f = Inr, OF new_writer_written line refl s(1)] by (auto simp: new_writer_def)
  have "small_counts (int (length rs)) no_counts"
    using few by (simp add: small_counts_def no_counts_def MAX_RECORDS_def max_safe_def)
  then obtain w2 where w2: "write_records sha accepting rs (Inr ()) w1 = (w2, Inr ())" "wr_counts w2 = counts_of bs"
      "written sha w2 (open_items h bs)"
    using write_records_succeed [OF w1(3) rs(2) _ s(2)] w1(2) tally_all by (auto simp: open_items_def rs(1))
  have "finalize (closed_state default_accumulator h bs f ls) = Inr (verification_of h f)" for ls
    by (simp add: finalize_def closed_state_def)
  from write_footer_succeeds [OF w2(3,2) f fok run this]
  obtain w3 where "write_footer sha accepting w2 = (w3, Inr (verification_of h f))"
      "wr_chunks w3 = wr_chunks w2 @ [utf8_encode (footer_line f @ [10])]" by blast
  moreover have "wr_chunks w2 = map (\<lambda>p. utf8_encode (line_text p @ [10])) (open_items h bs)"
    using w2(3) by (simp add: written_def sent_def)
  ultimately show ?thesis
    using w1(1) w2(1) serialized_item(1) [OF h]
    by (simp add: writeNewsletterRetentionEscrow_def writer_input_ok create_default)
qed

section \<open>Sizes\<close>

lemma code_point_bytes_length: "length (code_point_bytes n) \<le> 4" "n < 65536 \<Longrightarrow> length (code_point_bytes n) \<le> 3"
  by (simp_all add: code_point_bytes_def)

lemma utf8_length_le: "utf8_length s \<le> 3 * int (length s)"
proof -
  have unit: "length (code_point_bytes (unat c)) \<le> 3" for c :: unit16
    using code_point_bytes_length(2) unat_unit16_less [of c] by simp
  have "length (utf8_encode s) \<le> 3 * length s"
  proof (induction s rule: utf8_encode.induct)
    case (2 c)
    then show ?case using unit code_point_bytes_length(2) [of 65533] by auto
  next
    case (3 c d s)
    then show ?case
      using unit [of c] code_point_bytes_length(1) [of "surrogate_code_point c d"] code_point_bytes_length(2) [of 65533]
      by (cases "is_high_surrogate c"; cases "is_low_surrogate d"; cases "is_low_surrogate c") simp_all
  qed simp
  then show ?thesis by (simp add: utf8_length_def)
qed

lemma length_json_quote: "length (json_quote s) \<le> 6 * length s + 2"
proof -
  have escape: "length (unicode_escape c) = 6" for c by (simp add: unicode_escape_def hex4_def Let_def)
  then have unit: "length (quote_unit c) \<le> 6" for c by (simp add: quote_unit_def)
  have "length (quote_units s) \<le> 6 * length s"
  proof (induction s rule: quote_units.induct)
    case (2 c)
    then show ?case using unit escape by simp
  next
    case (3 c d s)
    then show ?case using unit [of c] escape by (auto split: if_splits)
  qed simp
  then show ?thesis by (simp add: json_quote_def)
qed

lemma length_join_with: "length (join_with sep ts) \<le> (\<Sum>t\<leftarrow>ts. length t + length sep)"
  by (induction sep ts rule: join_with.induct) auto

lemma length_canonical: "length (joinCanonicalObject es) \<le> 2 + (\<Sum>(k, t)\<leftarrow>es. 6 * length k + 4 + length t)"
proof -
  have "length (json_quote (lit k) @ lit '':'' @ t) + 1 \<le> 6 * length k + 4 + length t" for k and t :: jstr
    using length_json_quote [of "lit k"] by simp
  then have "(\<Sum>t\<leftarrow>map (\<lambda>(k, t). json_quote (lit k) @ lit '':'' @ t) es. length t + 1)
      \<le> (\<Sum>(k, t)\<leftarrow>es. 6 * length k + 4 + length t)"
    unfolding map_map by (intro sum_list_mono) (auto simp: split_beta)
  then show ?thesis
    using length_join_with [of "lit '',''" "map (\<lambda>(k, t). json_quote (lit k) @ lit '':'' @ t) es"]
    by (simp add: joinCanonicalObject_def)
qed

lemma length_dec_string: "0 \<le> n \<Longrightarrow> n < 10 ^ Suc k \<Longrightarrow> length (dec_string n) \<le> Suc k"
proof (induction k arbitrary: n)
  case 0
  then show ?case by (simp add: dec_string.simps)
next
  case (Suc k)
  then have "n div 10 < 10 ^ Suc k" by (simp add: div_less_iff_less_mult)
  from Suc.IH [OF _ this] show ?case
    using Suc.prems by (subst dec_string.simps) simp
qed

lemma length_safe_nat: "safe_nat n \<Longrightarrow> length (int_string n) \<le> 16"
  using length_dec_string [of n 15] by (simp add: safe_nat_def int_string_def max_safe_def)

lemma length_footer_line: "footer_ok f \<Longrightarrow> length (footer_line f) \<le> 900"
proof -
  assume ok: "footer_ok f"
  let ?n = "\<lambda>x. length (int_string (x (ef_counts f)))"
  let ?counts = "joinCanonicalObject
         [(''batches'', stringifyNumber (ec_batches (ef_counts f))),
          (''messages'', stringifyNumber (ec_messages (ef_counts f))),
          (''errors'', stringifyNumber (ec_errors (ef_counts f))),
          (''notifications'', stringifyNumber (ec_notifications (ef_counts f)))]"
  have "?n ec_batches \<le> 16" "?n ec_messages \<le> 16" "?n ec_errors \<le> 16" "?n ec_notifications \<le> 16"
    using ok by (auto simp: footer_ok_def counts_ok_def intro: length_safe_nat)
  then have "length ?counts \<le> 300"
    by (intro order_trans [OF length_canonical]) simp
  moreover have "length (ef_contentHash f) = 64" using ok by (simp add: footer_ok_def is_hash64_def)
  then have "length (json_quote (ef_contentHash f)) \<le> 386" using length_json_quote [of "ef_contentHash f"] by simp
  ultimately show ?thesis
    using length_json_quote [of "lit ''footer''"]
    unfolding footer_line_def by (intro order_trans [OF length_canonical]) simp
qed

text \<open>Room for the header and the records within the byte limits, with 4096 bytes kept for the footer.\<close>

definition byte_room :: "escrow_header \<Rightarrow> escrow_record list \<Rightarrow> bool" where
  "byte_room h rs \<longleftrightarrow> list_all (\<lambda>p. utf8_length (line_text p) \<le> MAX_LINE_BYTES) (HeaderLine h # map RecordLine rs)
     \<and> (\<Sum>p\<leftarrow>HeaderLine h # map RecordLine rs. utf8_length (line_text p) + 1) + 4096 \<le> MAX_TOTAL_BYTES"

lemma byte_room_sizes:
  assumes "byte_room h (all_records 0 bs)" "footer_ok f"
  shows "sizes_ok default_accumulator (map (\<lambda>p. TextLine (line_text p)) (open_items h bs @ [FooterLine f]))"
proof -
  have footer: "utf8_length (footer_line f) \<le> 2700"
    using length_footer_line [OF assms(2)] utf8_length_le [of "footer_line f"] by simp
  have "byte_size (TextLine t) = utf8_length t" for t by (simp add: byte_size_def)
  then show ?thesis
    using assms(1) footer
    by (simp add: sizes_ok_def byte_room_def open_items_def total_size_def default_accumulator_def
        fresh_accumulator_def list_all_iff comp_def MAX_LINE_BYTES_def)
qed

text \<open>The lines of a written snapshot: the header, one line per record in the order of the stream, the footer.\<close>

definition snapshot_footer :: "(jstr \<Rightarrow> jstr) \<Rightarrow> escrow_header \<Rightarrow> escrow_record list \<Rightarrow> escrow_candidate list \<Rightarrow> escrow_footer" where
  "snapshot_footer sha h rs cs =
     \<lparr>ef_counts = \<lparr>ec_batches = int (length cs), ec_messages = messages_sum cs,
          ec_errors = (\<Sum>c\<leftarrow>cs. lc_errorCount c), ec_notifications = (\<Sum>c\<leftarrow>cs. lc_notificationCount c)\<rparr>,
      ef_contentHash = sha (concat (map (\<lambda>line. line @ [10]) (header_line h # map record_line rs)))\<rparr>"

lemma snapshot_written:
  assumes "parseNewsletterRetentionPolicy policy = Inr p"
    and "streamNewsletterRetentionEscrowRecords d policy candidates = (rs, Inr ())"
    and "header_ok h" "eh_siteId h = pol_siteId p" "list_all times_printed rs" "\<And>t. is_hash64 (sha t)"
    and "byte_room h rs"
  shows "\<exists>cs. normalizeCandidates candidates p = Inr cs
     \<and> writeNewsletterRetentionEscrow sha accepting (writer_input h) (rs, Inr ())
       = (map (\<lambda>line. utf8_encode (line @ [10]))
            (header_line h # map record_line rs @ [footer_line (snapshot_footer sha h rs cs)]),
          Inr (verification_of h (snapshot_footer sha h rs cs)))"
proof -
  obtain cs bs where bs: "normalizeCandidates candidates p = Inr cs" "rs = all_records 0 bs" "list_all2 loaded_from cs bs"
      "batches_valid (pol_siteId p) default_accumulator bs" "int (length rs) \<le> MAX_RECORDS"
      "\<forall>r \<in> set rs. times_printed r \<longrightarrow> escrow_record_ok r"
    using stream_is_valid [OF assms(1,2)] by blast
  define f where "f = \<lparr>ef_counts = counts_of bs, ef_contentHash = sha (hash_text (open_items h bs))\<rparr>"
  have "list_all escrow_record_ok rs" using bs(6) assms(5) by (simp add: list_all_iff)
  moreover have "sizes_ok default_accumulator (map (\<lambda>p. TextLine (line_text p)) (open_items h bs @ [FooterLine f]))"
    using byte_room_sizes assms(7) valid_footer [OF bs(4)] assms(6) unfolding bs(2) f_def by auto
  moreover have "is_hash64 (ef_contentHash f)" using assms(6) by (simp add: f_def)
  ultimately have run: "writeNewsletterRetentionEscrow sha accepting (writer_input h) (rs, Inr ())
      = (map (\<lambda>p. utf8_encode (line_text p @ [10])) (open_items h bs @ [FooterLine f]), Inr (verification_of h f))"
    using write_succeeds [where sha = sha, OF assms(3) bs(2) _ bs(4) [folded assms(4)] bs(5) f_def]
    by blast
  have "f = snapshot_footer sha h rs cs"
    using sum_lengths [OF bs(3), of 0]
    by (simp add: f_def snapshot_footer_def bs(2) hash_text_def open_items_def comp_def)
  with run bs(1,2) show ?thesis by (simp add: open_items_def comp_def)
qed

lemma snapshot_written_as:
  assumes "parseNewsletterRetentionPolicy policy = Inr p"
    and "streamNewsletterRetentionEscrowRecords d policy candidates = (rs, Inr ())"
    and "header_ok h" "eh_siteId h = pol_siteId p" "list_all times_printed rs" "\<And>t. is_hash64 (sha t)"
    and "byte_room h rs"
  shows "\<exists>chunks cs f. writeNewsletterRetentionEscrow sha accepting (writer_input h) (rs, Inr ()) = (chunks, Inr (verification_of h f))
     \<and> normalizeCandidates candidates p = Inr cs \<and> ef_counts f = \<lparr>ec_batches = int (length cs), ec_messages = messages_sum cs,
          ec_errors = (\<Sum>c\<leftarrow>cs. lc_errorCount c), ec_notifications = (\<Sum>c\<leftarrow>cs. lc_notificationCount c)\<rparr>"
proof -
  obtain cs where cs: "normalizeCandidates candidates p = Inr cs"
      "writeNewsletterRetentionEscrow sha accepting (writer_input h) (rs, Inr ())
       = (map (\<lambda>line. utf8_encode (line @ [10]))
            (header_line h # map record_line rs @ [footer_line (snapshot_footer sha h rs cs)]),
          Inr (verification_of h (snapshot_footer sha h rs cs)))"
    using snapshot_written [where sha = sha, OF assms] by blast
  show ?thesis
    by (rule exI, rule exI [of _ cs], rule exI [of _ "snapshot_footer sha h rs cs"], intro conjI, rule cs(2)) (simp_all add: cs(1) snapshot_footer_def)
qed

section \<open>Properties\<close>

lemma write_verified:
  assumes "writeNewsletterRetentionEscrow sha sink input stream = (chunks, Inr v)"
  shows "snd stream = Inr () \<and> list_all (\<lambda>c. last c = 10) chunks
     \<and> verify_lines sha default_options (map chunk_line chunks) = Inr v"
proof -
  obtain h w1 w2 w3 u u' where run: "assertWriterInput input = Inr ()"
    "normalizeEscrowHeader (get_prop input ''header'') = Inr h"
    "write_hashed_line sha sink (line_text (HeaderLine h)) Inr (new_writer default_accumulator) = (w1, Inr u)"
    "write_records sha sink (fst stream) (snd stream) w1 = (w2, Inr u')"
    "write_footer sha sink w2 = (w3, Inr v)" "chunks = wr_chunks w3"
    by (rule write_cases [OF assms])
  have "line_ok (HeaderLine h)" using run(2) by (simp add: header_Inr_iff)
  then have "written sha w1 ([] @ [HeaderLine h])"
    using write_hashed_line_written [OF run(3) _ new_writer_written] by blast
  note records = write_records_written [OF run(4) this]
  then obtain ps where ps: "sent sha w3 ps" "finalize (wr_accumulator w3) = Inr v"
    using write_footer_written [OF run(5)] by blast
  have "list_all (\<lambda>c. last c = 10) chunks"
    using ps(1) by (auto simp: run(6) sent_def list_all_iff line_chunk)
  moreover have "verify_lines sha default_options (map chunk_line chunks) = Inr v"
    unfolding run(6) by (rule chunks_verify [OF ps(1) _ ps(2)]) (use ps(1) in \<open>simp add: sent_def\<close>)
  ultimately show ?thesis using records by blast
qed

text \<open>
  C8: a finished escrow file is a verified file. Whenever the writer returns a result, whatever the
  sink and the record stream, the stream had ended without a throw and the chunks that reached the
  sink, each without its final line feed, are a file the streaming verifier accepts with that very
  result.
\<close>

theorem written_file_verifies:
  assumes "writeNewsletterRetentionEscrow sha sink input stream = (chunks, Inr v)"
  shows "snd stream = Inr () \<and> list_all (\<lambda>c. last c = 10) chunks
     \<and> verify_lines sha default_options (map chunk_line chunks) = Inr v"
  by (rule write_verified [OF assms])

text \<open>
  C26: what a snapshot that streams to its end is written as. The conditions are: the header is
  well-formed and names the policy's site, the sink takes every chunk, the digest is a 64-digit hex
  text, every database time is one the format can print, and the lines stay within the byte limits.
  Then the chunks are the header line, one line per streamed record in the order of the stream, and
  the footer line, each in UTF-8 with a line feed; and the result has every field of the header, the
  digest of all the lines before the footer, and the counts of the snapshot's batches.
\<close>

theorem complete_snapshot_is_written:
  assumes "parseNewsletterRetentionPolicy policy = Inr p"
    and "streamNewsletterRetentionEscrowRecords d policy candidates = (rs, Inr ())"
    and "header_ok h" "eh_siteId h = pol_siteId p" "list_all times_printed rs" "\<And>t. is_hash64 (sha t)"
    and "byte_room h rs"
  shows "\<exists>chunks cs v f. writeNewsletterRetentionEscrow sha accepting (writer_input h) (rs, Inr ()) = (chunks, Inr v)
     \<and> chunks = map (\<lambda>line. utf8_encode (line @ [10])) (header_line h # map record_line rs @ [footer_line f])
     \<and> normalizeCandidates candidates p = Inr cs
     \<and> ef_counts f = \<lparr>ec_batches = int (length cs), ec_messages = messages_sum cs,
          ec_errors = (\<Sum>c\<leftarrow>cs. lc_errorCount c), ec_notifications = (\<Sum>c\<leftarrow>cs. lc_notificationCount c)\<rparr>
     \<and> ef_contentHash f = sha (concat (map (\<lambda>line. line @ [10]) (header_line h # map record_line rs)))
     \<and> v = \<lparr>vr_version = eh_version h, vr_siteId = eh_siteId h, vr_cutoff = eh_cutoff h,
          vr_policyVersion = eh_policyVersion h, vr_publicManifestHash = eh_publicManifestHash h,
          vr_schemaFingerprint = eh_schemaFingerprint h, vr_contentHash = ef_contentHash f, vr_counts = ef_counts f\<rparr>"
proof -
  obtain cs where cs: "normalizeCandidates candidates p = Inr cs"
      "writeNewsletterRetentionEscrow sha accepting (writer_input h) (rs, Inr ())
       = (map (\<lambda>line. utf8_encode (line @ [10]))
            (header_line h # map record_line rs @ [footer_line (snapshot_footer sha h rs cs)]),
          Inr (verification_of h (snapshot_footer sha h rs cs)))"
    using snapshot_written [where sha = sha, OF assms] by blast
  show ?thesis
    by (rule exI, rule exI [of _ cs], rule exI, rule exI [of _ "snapshot_footer sha h rs cs"], intro conjI, rule cs(2)) (simp_all add: cs(1) snapshot_footer_def verification_of_def)
qed

text \<open>An example: the snapshot of the loader's example, written under the example header.\<close>

lemma length_stringify_nullable: "length (stringify_nullable None) = 4"
  by (simp add: stringify_nullable_def)

lemma example_line_lengths:
  "length (header_line example_header) \<le> 2000" "length (record_line (BatchRecord 0 example_batch_row)) \<le> 2000"
  "length (record_line (MessageRecord 0 example_message_row)) \<le> 2000"
  "length (record_line (NotificationRecord 0 example_notification_row)) \<le> 2000"
proof -
  have time: "length (json_quote (to_iso 0)) \<le> 150"
    using length_json_quote [of "to_iso 0"] example_cutoff(2) by (simp add: length_to_iso)
  have hash: "length (json_quote example_hash) \<le> 386"
    using length_json_quote [of example_hash] by (simp add: example_hash_def)
  have nat: "length (int_string 0) \<le> 16" "length (int_string 1) \<le> 16"
    by (simp_all add: length_safe_nat safe_nat_def max_safe_def)
  have quoted: "length (json_quote (lit t)) \<le> 150" if "length t \<le> 24" for t
    using that length_json_quote [of "lit t"] by simp
  have empty: "length (json_quote []) \<le> 2" using length_json_quote [of "[]"] by simp
  note short = quoted [of "''header''", simplified] quoted [of "''site''", simplified] quoted [of "''r''", simplified]
    quoted [of "''f''", simplified] quoted [of "''b''", simplified] quoted [of "''i''", simplified]
    quoted [of "''m''", simplified] quoted [of "''t''", simplified] quoted [of "''n''", simplified]
    quoted [of "''newsletterBatch''", simplified] quoted [of "''newsletterMessages''", simplified]
    quoted [of "''newsletterNotifications''", simplified] empty time hash nat
  show "length (header_line example_header) \<le> 2000"
    unfolding header_line_def using short
    by (intro order_trans [OF length_canonical]) (simp add: example_header_def)
  have "length (serializeRecordRow (BatchRecord 0 example_batch_row)) \<le> 1200"
    unfolding serializeRecordRow.simps using short
    by (intro order_trans [OF length_canonical]) (simp add: example_batch_row_def)
  then show "length (record_line (BatchRecord 0 example_batch_row)) \<le> 2000"
    unfolding record_line_def using short by (intro order_trans [OF length_canonical]) simp
  have "length (serializeRecordRow (MessageRecord 0 example_message_row)) \<le> 1500"
    unfolding serializeRecordRow.simps using short
    by (intro order_trans [OF length_canonical]) (simp add: example_message_row_def length_stringify_nullable)
  then show "length (record_line (MessageRecord 0 example_message_row)) \<le> 2000"
    unfolding record_line_def using short by (intro order_trans [OF length_canonical]) simp
  have "length (serializeRecordRow (NotificationRecord 0 example_notification_row)) \<le> 1500"
    unfolding serializeRecordRow.simps using short
    by (intro order_trans [OF length_canonical]) (simp add: example_notification_row_def)
  then show "length (record_line (NotificationRecord 0 example_notification_row)) \<le> 2000"
    unfolding record_line_def using short by (intro order_trans [OF length_canonical]) simp
qed

lemma example_room: "byte_room example_header (all_records 0 [example_batch])"
proof -
  have "utf8_length (header_line example_header) \<le> 6000"
    "utf8_length (record_line (BatchRecord 0 example_batch_row)) \<le> 6000"
    "utf8_length (record_line (MessageRecord 0 example_message_row)) \<le> 6000"
    "utf8_length (record_line (NotificationRecord 0 example_notification_row)) \<le> 6000"
    using example_line_lengths utf8_length_le [of "header_line example_header"]
      utf8_length_le [of "record_line (BatchRecord 0 example_batch_row)"]
      utf8_length_le [of "record_line (MessageRecord 0 example_message_row)"]
      utf8_length_le [of "record_line (NotificationRecord 0 example_notification_row)"] by linarith+
  then show ?thesis
    by (simp add: byte_room_def batch_records_def example_batch_def MAX_LINE_BYTES_def MAX_TOTAL_BYTES_def)
qed

lemma example_times: "list_all times_printed (all_records 0 [example_batch])"
proof -
  have "printed_time (to_iso 0)" using example_cutoff(2) by (auto simp: printed_time_def)
  then show ?thesis
    by (simp add: batch_records_def example_batch_def example_message_row_def example_notification_row_def)
qed

lemma example_written:
  "\<exists>chunks v. writeNewsletterRetentionEscrow (\<lambda>_. example_hash) accepting (writer_input example_header)
     (all_records 0 [example_batch], Inr ()) = (chunks, Inr v)"
proof -
  have "eh_siteId example_header = pol_siteId example_policy" by (simp add: example_header_def example_policy_def)
  from snapshot_written_as [OF example_policy_parses example_stream example_header_ok this example_times
      example_hash_ok example_room] show ?thesis by blast
qed

lemma written_file_verifies_witness:
  "\<exists>chunks v. writeNewsletterRetentionEscrow (\<lambda>_. example_hash) accepting (writer_input example_header)
     (all_records 0 [example_batch], Inr ()) = (chunks, Inr v)
   \<and> verify_lines (\<lambda>_. example_hash) default_options (map chunk_line chunks) = Inr v"
proof -
  obtain chunks v where run: "writeNewsletterRetentionEscrow (\<lambda>_. example_hash) accepting
      (writer_input example_header) (all_records 0 [example_batch], Inr ()) = (chunks, Inr v)"
    using example_written by blast
  from written_file_verifies [OF run] run show ?thesis by blast
qed

lemma complete_snapshot_is_written_witness:
  "\<exists>chunks v. writeNewsletterRetentionEscrow (\<lambda>_. example_hash) accepting (writer_input example_header)
     (all_records 0 [example_batch], Inr ()) = (chunks, Inr v)
   \<and> length chunks = 5 \<and> vr_publicManifestHash v = example_hash \<and> vr_siteId v = lit ''site''"
proof -
  have "eh_siteId example_header = pol_siteId example_policy" "eh_publicManifestHash example_header = example_hash"
      "eh_siteId example_header = lit ''site''"
    by (simp_all add: example_header_def example_policy_def)
  then show ?thesis
    using complete_snapshot_is_written [OF example_policy_parses example_stream example_header_ok _ example_times
        example_hash_ok example_room] by (auto simp: batch_records_def example_batch_def)
qed

end
