(* ===== verification/RetentionApply.thy ===== *)
theory RetentionApply
  imports EscrowWriter
begin

text \<open>
  The apply artifact and the apply context (service/newsletter-retention-apply.ts): the private
  binding of every public manifest batch to a database row, sealed by a hash, and the agreement of
  policy, evidence, manifest, escrow and artifact that a destructive run requires. SHA-256 is the
  parameter \<open>sha\<close>.
\<close>

section \<open>Data\<close>

record apply_binding =
  ab_manifestIndex :: int
  ab_batchRecordId :: jstr

record apply_artifact =
  aa_version :: int
  aa_siteId :: jstr
  aa_publicManifestHash :: jstr
  aa_escrow :: verification_result
  aa_bindings :: "apply_binding list"
  aa_hash :: jstr

record apply_context =
  ctx_policy :: retention_policy
  ctx_evidence :: retention_evidence
  ctx_manifest :: retention_manifest
  ctx_artifact :: apply_artifact

definition APPLY_ARTIFACT_VERSION :: int where "APPLY_ARTIFACT_VERSION = 2"

section \<open>Field validation\<close>

definition normalizeManifestVersion :: "js \<Rightarrow> int res" where
  "normalizeManifestVersion v =
     safe_positive v (Error ''public manifest policyVersion must be a positive safe integer'')"

definition normalizeManifestSiteId :: "js \<Rightarrow> jstr res" where
  "normalizeManifestSiteId v = trimmed_string v (Error ''siteId must be a non-empty string'')"

definition normalizeManifestBatchId :: "js \<Rightarrow> jstr res" where
  "normalizeManifestBatchId v = nonblank_string v (Error ''batchId must be a non-empty string'')"

definition normalizeApplyTenantScope :: "js \<Rightarrow> jstr res" where
  "normalizeApplyTenantScope v = trimmed_string v (Error ''private record tenant scope must be a non-empty string'')"

definition normalizeBatchRecordId :: "js \<Rightarrow> jstr res" where
  "normalizeBatchRecordId v = trimmed_string v (Error ''private batchRecordId must be a non-empty string'')"

definition normalizeOpaqueId :: "js \<Rightarrow> string \<Rightarrow> jstr res" where
  "normalizeOpaqueId v field = nonempty_string v (Error (field @ '' must be a non-empty string''))"

definition normalizeCount :: "js \<Rightarrow> string \<Rightarrow> int res" where
  "normalizeCount v field = safe_count v (Error (field @ '' must be a non-negative safe integer''))"

definition normalizeBoolean :: "js \<Rightarrow> string \<Rightarrow> bool res" where
  "normalizeBoolean v field = (case v of JBool b \<Rightarrow> Inr b | _ \<Rightarrow> Inl (Error (field @ '' must be true or false'')))"

definition parseStrictUtcIso :: "js \<Rightarrow> string \<Rightarrow> jstr res" where
  "parseStrictUtcIso v field = bindE (parse_strict_utc v (strict_iso_error field)) (\<lambda>t. Inr (to_iso t))"

definition parseStrictUtcIsoMs :: "js \<Rightarrow> string \<Rightarrow> int option res" where
  "parseStrictUtcIsoMs v field = bindE (parseStrictUtcIso v field) (\<lambda>s. Inr (date_parse s))"

definition normalizeCreatedAt :: "js \<Rightarrow> jstr res" where
  "normalizeCreatedAt v = parseStrictUtcIso v ''createdAt''"

definition normalizeApplyArtifactVersion :: "js \<Rightarrow> int res" where
  "normalizeApplyArtifactVersion v =
     (if v \<noteq> jint APPLY_ARTIFACT_VERSION then Inl (Error ''apply artifact version is unsupported'')
      else Inr APPLY_ARTIFACT_VERSION)"

definition normalizeApplyArtifactSiteId :: "js \<Rightarrow> jstr res" where
  "normalizeApplyArtifactSiteId v = trimmed_string v (Error ''apply artifact siteId must be a non-empty string'')"

definition normalizeApplyArtifactManifestHash :: "js \<Rightarrow> jstr res" where
  "normalizeApplyArtifactManifestHash v =
     hash_string v (Error ''apply artifact manifest hash must be a 64-char lowercase hex string'')"

definition normalizeManifestHash :: "js \<Rightarrow> jstr res" where
  "normalizeManifestHash v = hash_string v (Error ''public manifest hash must be a 64-char lowercase hex string'')"

definition normalizeApplyArtifactHash :: "js \<Rightarrow> jstr res" where
  "normalizeApplyArtifactHash v = hash_string v (Error ''apply artifact hash must be a 64-char lowercase hex string'')"

definition normalizeManifestIndex :: "js \<Rightarrow> int res" where
  "normalizeManifestIndex v =
     safe_count v (Error ''apply artifact manifest index must be a non-negative safe integer'')"

definition hashCanonicalJson :: "(jstr \<Rightarrow> jstr) \<Rightarrow> js \<Rightarrow> jstr" where
  "hashCanonicalJson sha v = sha (canonicalJson v)"

section \<open>The public manifest\<close>

definition normalizeManifestBatch :: "js \<Rightarrow> manifest_batch res" where
  "normalizeManifestBatch b =
     (if \<not> is_object_not_array b then Inl (Error ''manifest batch must be a plain object'')
      else bindE (normalizeManifestBatchId (get_prop b ''batchId'')) (\<lambda>batchId.
           bindE (parseStrictUtcIso (get_prop b ''createdAt'') ''manifest batch createdAt'') (\<lambda>createdAt.
           bindE (normalizeCount (get_prop b ''messageCount'') ''messageCount'') (\<lambda>messages.
           bindE (normalizeCount (get_prop b ''notificationCount'') ''notificationCount'') (\<lambda>notifications.
           bindE (normalizeCount (get_prop b ''errorCount'') ''errorCount'') (\<lambda>errors.
             Inr \<lparr>mb_batchId = batchId, mb_createdAt = createdAt, mb_messageCount = messages,
                  mb_notificationCount = notifications, mb_errorCount = errors\<rparr>))))))"

definition normalizeManifestBatches :: "js \<Rightarrow> manifest_batch list res" where
  "normalizeManifestBatches v = (case v of
     JArr bs \<Rightarrow> mapE normalizeManifestBatch bs
   | _ \<Rightarrow> Inl (Error ''public manifest batches must be an array''))"

definition manifest_input :: "jstr \<Rightarrow> jstr \<Rightarrow> int \<Rightarrow> manifest_batch list \<Rightarrow> js" where
  "manifest_input siteId cutoff version batches = obj [(''siteId'', JStr siteId), (''cutoff'', JStr cutoff),
     (''policyVersion'', jint version), (''batches'', JArr (map batch_object batches))]"

definition normalizeManifestInput :: "js \<Rightarrow> js res" where
  "normalizeManifestInput m =
     (if \<not> is_object_not_array m then Inl (Error ''public manifest input must be a plain object'')
      else if \<not> has_own m ''policyVersion'' then Inl (Error ''public manifest policyVersion is required'')
      else bindE (normalizeManifestSiteId (get_prop m ''siteId'')) (\<lambda>siteId.
           bindE (parseStrictUtcIso (get_prop m ''cutoff'') ''manifest cutoff'') (\<lambda>cutoff.
           bindE (normalizeManifestVersion (get_prop m ''policyVersion'')) (\<lambda>version.
           bindE (normalizeManifestBatches (get_prop m ''batches'')) (\<lambda>batches.
             Inr (manifest_input siteId cutoff version batches))))))"

definition normalizeManifestForApply :: "(jstr \<Rightarrow> jstr) \<Rightarrow> js \<Rightarrow> retention_manifest res" where
  "normalizeManifestForApply sha m =
     bindE (normalizeManifestInput m) (\<lambda>normalized.
     bindE (buildNewsletterRetentionManifest sha normalized) (\<lambda>canonical.
     bindE (normalizeManifestHash (get_prop m ''hash'')) (\<lambda>h.
       if mf_hash canonical \<noteq> h then Inl (Error ''public manifest hash mismatch'') else Inr canonical)))"

section \<open>Escrow against manifest\<close>

definition add_batch_counts :: "escrow_counts \<Rightarrow> manifest_batch \<Rightarrow> escrow_counts res" where
  "add_batch_counts c b =
     bindE (safe_add (ec_batches c) 1 ''manifest escrow batch count'') (\<lambda>batches.
     bindE (safe_add (ec_messages c) (mb_messageCount b) ''manifest escrow message count'') (\<lambda>messages.
     bindE (safe_add (ec_errors c) (mb_errorCount b) ''manifest escrow error count'') (\<lambda>errors.
     bindE (safe_add (ec_notifications c) (mb_notificationCount b) ''manifest escrow notification count'') (\<lambda>notifications.
       Inr \<lparr>ec_batches = batches, ec_messages = messages, ec_errors = errors, ec_notifications = notifications\<rparr>))))"

definition assertEscrowMatchesManifest :: "verification_result \<Rightarrow> retention_manifest \<Rightarrow> unit res" where
  "assertEscrowMatchesManifest e m =
     (if vr_siteId e \<noteq> mf_siteId m then Inl (Error ''escrow siteId must match manifest siteId'')
      else if vr_cutoff e \<noteq> mf_cutoff m then Inl (Error ''escrow cutoff must match manifest cutoff'')
      else if vr_policyVersion e \<noteq> mf_policyVersion m
      then Inl (Error ''escrow policyVersion must match manifest policyVersion'')
      else if vr_publicManifestHash e \<noteq> mf_hash m
      then Inl (Error ''escrow publicManifestHash must match canonical manifest hash'')
      else bindE (foldE add_batch_counts no_counts (mf_batches m)) (\<lambda>expected.
        if vr_counts e \<noteq> expected
        then Inl (Error ''escrow counts must exactly match canonical manifest totals'') else Inr ()))"

section \<open>Private records\<close>

definition normalizePrivateRecord :: "js \<Rightarrow> candidate_record res" where
  "normalizePrivateRecord v =
     (if \<not> is_object_not_array v then Inl (Error ''private record must be a plain object'')
      else bindE (normalizeApplyTenantScope (get_prop v ''siteId'')) (\<lambda>siteId.
           bindE (normalizeBatchRecordId (get_prop v ''batchRecordId'')) (\<lambda>recordId.
           bindE (normalizeOpaqueId (get_prop v ''batchId'') ''batchId'') (\<lambda>batchId.
           bindE (normalizeCreatedAt (get_prop v ''createdAt'')) (\<lambda>createdAt.
           bindE (normalizeCount (get_prop v ''messageCount'') ''messageCount'') (\<lambda>messages.
           bindE (normalizeCount (get_prop v ''notificationCount'') ''notificationCount'') (\<lambda>notifications.
           bindE (normalizeCount (get_prop v ''errorCount'') ''errorCount'') (\<lambda>errors.
           bindE (normalizeCount (get_prop v ''orphanCount'') ''orphanCount'') (\<lambda>orphans.
           bindE (normalizeBoolean (get_prop v ''correlationComplete'') ''correlationComplete'') (\<lambda>complete.
             Inr \<lparr>cr_siteId = siteId, cr_batchRecordId = recordId, cr_batchId = batchId, cr_createdAt = createdAt,
                  cr_messageCount = messages, cr_notificationCount = notifications, cr_errorCount = errors,
                  cr_orphanCount = orphans, cr_correlationComplete = complete\<rparr>))))))))))"

definition normalizePrivateRecords :: "js \<Rightarrow> candidate_record list res" where
  "normalizePrivateRecords v = (case v of
     JArr rs \<Rightarrow> mapE normalizePrivateRecord rs
   | _ \<Rightarrow> Inl (Error ''private records must be an array''))"

definition private_record_object :: "candidate_record \<Rightarrow> js" where
  "private_record_object r = obj [(''siteId'', JStr (cr_siteId r)), (''batchRecordId'', JStr (cr_batchRecordId r)),
     (''batchId'', JStr (cr_batchId r)), (''createdAt'', JStr (cr_createdAt r)),
     (''messageCount'', jint (cr_messageCount r)), (''notificationCount'', jint (cr_notificationCount r)),
     (''errorCount'', jint (cr_errorCount r)), (''orphanCount'', jint (cr_orphanCount r)),
     (''correlationComplete'', JBool (cr_correlationComplete r))]"

definition normalizeApplyArtifactInput :: "js \<Rightarrow> (js \<times> js \<times> candidate_record list) res" where
  "normalizeApplyArtifactInput v =
     (if \<not> is_object_not_array v then Inl (Error ''apply artifact input must be a plain object'')
      else bindE (normalizePrivateRecords (get_prop v ''records'')) (\<lambda>rs.
        Inr (get_prop v ''manifest'', get_prop v ''escrow'', rs)))"

text \<open>The callback of the map over the records, one batch of the manifest at a time.\<close>

definition bind_record :: "retention_manifest \<Rightarrow> int option \<Rightarrow> manifest_batch \<Rightarrow> jstr set \<Rightarrow> candidate_record \<Rightarrow> jstr res" where
  "bind_record m cutoff b seen record =
     bindE (normalizePrivateRecord (private_record_object record)) (\<lambda>r.
       if cr_orphanCount r \<noteq> 0 then Inl (Error ''private record orphanCount must be 0'')
       else if \<not> cr_correlationComplete r then Inl (Error ''private record correlation must be complete'')
       else if cr_siteId r \<noteq> mf_siteId m then Inl (Error ''private record tenant scope must match manifest siteId'')
       else if cr_batchId r \<noteq> mb_batchId b then Inl (Error ''private record batchId does not match public manifest'')
       else if cr_createdAt r \<noteq> mb_createdAt b
       then Inl (Error ''private record createdAt does not match public manifest'')
       else if cr_messageCount r \<noteq> mb_messageCount b
       then Inl (Error ''private record messageCount does not match public manifest'')
       else if cr_notificationCount r \<noteq> mb_notificationCount b
       then Inl (Error ''private record notificationCount does not match public manifest'')
       else if cr_errorCount r \<noteq> mb_errorCount b
       then Inl (Error ''private record errorCount does not match public manifest'')
       else bindE (parseStrictUtcIsoMs (JStr (mb_createdAt b)) ''canonical manifest batch createdAt'') (\<lambda>batchMs.
            bindE (parseStrictUtcIsoMs (JStr (cr_createdAt r)) ''private record createdAt'') (\<lambda>recordMs.
              if time_ge batchMs cutoff then Inl (Error ''canonical manifest batch createdAt must be before cutoff'')
              else if time_ge recordMs cutoff then Inl (Error ''private record createdAt must be before cutoff'')
              else if cr_batchRecordId r \<in> seen then Inl (Error ''private batchRecordIds must be unique'')
              else Inr (cr_batchRecordId r))))"

fun bind_records ::
  "retention_manifest \<Rightarrow> int option \<Rightarrow> jstr set \<Rightarrow> int \<Rightarrow> manifest_batch list \<Rightarrow> candidate_record list \<Rightarrow> apply_binding list res" where
  "bind_records m cutoff seen i (b # bs) (r # rs) =
     bindE (bind_record m cutoff b seen r) (\<lambda>recordId.
     bindE (bind_records m cutoff (insert recordId seen) (i + 1) bs rs) (\<lambda>bindings.
       Inr (\<lparr>ab_manifestIndex = i, ab_batchRecordId = recordId\<rparr> # bindings)))"
| "bind_records m cutoff seen i bs rs = Inr []"

section \<open>The artifact\<close>

definition binding_object :: "apply_binding \<Rightarrow> js" where
  "binding_object b = obj [(''manifestIndex'', jint (ab_manifestIndex b)),
     (''batchRecordId'', JStr (ab_batchRecordId b))]"

definition artifact_payload :: "int \<Rightarrow> jstr \<Rightarrow> jstr \<Rightarrow> verification_result \<Rightarrow> apply_binding list \<Rightarrow> js" where
  "artifact_payload version siteId manifestHash escrow bindings = obj [(''version'', jint version),
     (''siteId'', JStr siteId), (''publicManifestHash'', JStr manifestHash),
     (''escrow'', verification_object escrow), (''bindings'', JArr (map binding_object bindings))]"

text \<open>The body of the build from the escrow check on.\<close>

definition seal_artifact ::
  "(jstr \<Rightarrow> jstr) \<Rightarrow> retention_manifest \<Rightarrow> verification_result \<Rightarrow> candidate_record list \<Rightarrow> apply_artifact res" where
  "seal_artifact sha m escrow records =
     bindE (assertEscrowMatchesManifest escrow m) (\<lambda>_.
     bindE (parseStrictUtcIsoMs (JStr (mf_cutoff m)) ''canonical manifest cutoff'') (\<lambda>cutoff.
       if records = [] then Inl (Error ''apply artifact bindings must be non-empty'')
       else if length records \<noteq> length (mf_batches m)
       then Inl (Error ''private record count must match manifest batch count'')
       else bindE (bind_records m cutoff {} 0 (mf_batches m) records) (\<lambda>bindings.
         Inr \<lparr>aa_version = APPLY_ARTIFACT_VERSION, aa_siteId = mf_siteId m, aa_publicManifestHash = mf_hash m,
              aa_escrow = escrow, aa_bindings = bindings,
              aa_hash = hashCanonicalJson sha
                (artifact_payload APPLY_ARTIFACT_VERSION (mf_siteId m) (mf_hash m) escrow bindings)\<rparr>)))"

definition buildNewsletterRetentionApplyArtifact :: "(jstr \<Rightarrow> jstr) \<Rightarrow> js \<Rightarrow> apply_artifact res" where
  "buildNewsletterRetentionApplyArtifact sha input =
     bindE (normalizeApplyArtifactInput input) (\<lambda>(manifest, escrow_input, records).
     bindE (normalizeManifestForApply sha manifest) (\<lambda>m.
     bindE (parseNewsletterRetentionEscrowVerificationResult escrow_input) (\<lambda>escrow.
       seal_artifact sha m escrow records)))"

text \<open>
  The callback over the bindings. The set of seen indexes of the source is left out: an index equals
  its position, so it cannot repeat.
\<close>

fun normalize_bindings :: "jstr set \<Rightarrow> int \<Rightarrow> js list \<Rightarrow> apply_binding list res" where
  "normalize_bindings seen i [] = Inr []"
| "normalize_bindings seen i (b # bs) =
     (if \<not> is_object_not_array b then Inl (Error ''apply artifact binding must be a plain object'')
      else bindE (normalizeManifestIndex (get_prop b ''manifestIndex'')) (\<lambda>index.
           bindE (normalizeBatchRecordId (get_prop b ''batchRecordId'')) (\<lambda>recordId.
             if index \<noteq> i then Inl (Error ''apply artifact binding indexes must be sequential from 0'')
             else if recordId \<in> seen
             then Inl (Error ''apply artifact bindings must have unique batchRecordIds'')
             else bindE (normalize_bindings (insert recordId seen) (i + 1) bs) (\<lambda>rest.
               Inr (\<lparr>ab_manifestIndex = index, ab_batchRecordId = recordId\<rparr> # rest)))))"

definition normalizeApplyArtifactBindings :: "js \<Rightarrow> apply_binding list res" where
  "normalizeApplyArtifactBindings v = (case v of
     JArr bs \<Rightarrow> if bs = [] then Inl (Error ''apply artifact bindings must be non-empty'')
       else normalize_bindings {} 0 bs
   | _ \<Rightarrow> Inl (Error ''apply artifact bindings must be an array''))"

definition normalizeApplyArtifact :: "js \<Rightarrow> apply_artifact res" where
  "normalizeApplyArtifact v =
     (if \<not> is_object_not_array v then Inl (Error ''apply artifact input must be a plain object'')
      else bindE (normalizeApplyArtifactVersion (get_prop v ''version'')) (\<lambda>version.
           bindE (normalizeApplyArtifactSiteId (get_prop v ''siteId'')) (\<lambda>siteId.
           bindE (normalizeApplyArtifactManifestHash (get_prop v ''publicManifestHash'')) (\<lambda>manifestHash.
           bindE (parseNewsletterRetentionEscrowVerificationResult (get_prop v ''escrow'')) (\<lambda>escrow.
           bindE (normalizeApplyArtifactBindings (get_prop v ''bindings'')) (\<lambda>bindings.
           bindE (normalizeApplyArtifactHash (get_prop v ''hash'')) (\<lambda>h.
             Inr \<lparr>aa_version = version, aa_siteId = siteId, aa_publicManifestHash = manifestHash,
                  aa_escrow = escrow, aa_bindings = bindings, aa_hash = h\<rparr>)))))))"

definition payload_of :: "apply_artifact \<Rightarrow> js" where
  "payload_of a = artifact_payload (aa_version a) (aa_siteId a) (aa_publicManifestHash a) (aa_escrow a) (aa_bindings a)"

definition parseNewsletterRetentionApplyArtifact :: "(jstr \<Rightarrow> jstr) \<Rightarrow> js \<Rightarrow> apply_artifact res" where
  "parseNewsletterRetentionApplyArtifact sha v =
     bindE (normalizeApplyArtifact v) (\<lambda>a.
       if hashCanonicalJson sha (payload_of a) \<noteq> aa_hash a then Inl (Error ''apply artifact hash mismatch'')
       else Inr a)"

section \<open>The context\<close>

definition parseNewsletterRetentionApplyContext :: "(jstr \<Rightarrow> jstr) \<Rightarrow> js \<Rightarrow> apply_context res" where
  "parseNewsletterRetentionApplyContext sha input =
     (if \<not> is_object_not_array input then Inl (Error ''apply context input must be a plain object'')
      else bindE (parseNewsletterRetentionPolicy (get_prop input ''policy'')) (\<lambda>policy.
       if pol_dryRun policy then Inl (Error ''apply mode must be explicitly enabled'')
       else bindE (parseNewsletterRetentionEvidence (get_prop input ''evidence'')) (\<lambda>evidence.
       bindE (normalizeManifestForApply sha (get_prop input ''manifest'')) (\<lambda>m.
       if mf_siteId m \<noteq> pol_siteId policy then Inl (Error ''manifest siteId must match policy'')
       else if mf_cutoff m \<noteq> pol_cutoff policy then Inl (Error ''manifest cutoff must match policy'')
       else if mf_policyVersion m \<noteq> pol_policyVersion policy
       then Inl (Error ''manifest policyVersion must match policy'')
       else bindE (parseNewsletterRetentionApplyArtifact sha (get_prop input ''artifact'')) (\<lambda>a.
       if aa_siteId a \<noteq> mf_siteId m then Inl (Error ''apply artifact siteId must match manifest siteId'')
       else if aa_publicManifestHash a \<noteq> mf_hash m
       then Inl (Error ''apply artifact manifest hash must match canonical manifest hash'')
       else bindE (assertEscrowMatchesManifest (aa_escrow a) m) (\<lambda>_.
       if aa_bindings a = [] then Inl (Error ''apply artifact bindings must be non-empty'')
       else if length (aa_bindings a) \<noteq> length (mf_batches m)
       then Inl (Error ''apply artifact bindings must cover all manifest batches'')
       else if \<not> list_all (\<lambda>b. ab_manifestIndex b \<ge> 0 \<and> ab_manifestIndex b < int (length (mf_batches m))) (aa_bindings a)
       then Inl (Error ''apply artifact manifestIndex references unknown manifest batch'')
       else bindE (foldE (\<lambda>t b. safe_add t (mb_messageCount b) ''manifest total messageCount'') 0 (mf_batches m)) (\<lambda>total.
       if int (length (mf_batches m)) > pol_maxBatches policy
       then Inl (Error ''manifest batch count exceeds policy maxBatches'')
       else if total > pol_maxMessages policy
       then Inl (Error ''manifest total messageCount exceeds policy maxMessages'')
       else Inr \<lparr>ctx_policy = policy, ctx_evidence = evidence, ctx_manifest = m, ctx_artifact = a\<rparr>)))))))"

section \<open>Accepted manifests\<close>

definition manifest_ok :: "retention_manifest \<Rightarrow> bool" where
  "manifest_ok m \<longleftrightarrow> strict_text (mf_siteId m) \<and> printed_time (mf_cutoff m) \<and> 0 < mf_policyVersion m
     \<and> mf_policyVersion m \<le> max_safe \<and> list_all batch_ok (mf_batches m)
     \<and> sort_by compare_manifest_batches (mf_batches m) = mf_batches m"

lemma strict_iso_Inr_iff: "RetentionApply.parseStrictUtcIso v f = Inr s \<longleftrightarrow> v = JStr s \<and> printed_time s"
  by (auto simp: RetentionApply.parseStrictUtcIso_def printed_time_def)

lemma iso_ms: "parseStrictUtcIsoMs (JStr (to_iso t)) f = Inr x \<longleftrightarrow> in_iso_range t \<and> x = Some t"
proof (cases "in_iso_range t")
  case True
  then have "RetentionApply.parseStrictUtcIso (JStr (to_iso t)) f = Inr (to_iso t)"
    by (auto simp: strict_iso_Inr_iff printed_time_def)
  then show ?thesis using True by (auto simp: parseStrictUtcIsoMs_def date_parse_to_iso)
next
  case False
  have "to_iso t \<noteq> to_iso u" if "in_iso_range u" for u
    using False that length_to_iso [of t] length_to_iso [of u] by auto
  then show ?thesis using False
    by (auto simp: parseStrictUtcIsoMs_def RetentionApply.parseStrictUtcIso_def)
qed

lemma apply_batch_Inr_iff: "RetentionApply.normalizeManifestBatch v = Inr b \<longleftrightarrow> RetentionPolicy.normalizeManifestBatch v = Inr b"
  by (cases b) (auto simp: RetentionApply.normalizeManifestBatch_def normalizeManifestBatch_Inr_iff
      normalizeManifestBatchId_def RetentionApply.normalizeCount_def strict_iso_Inr_iff printed_time_def batch_ok_def)

lemma apply_batches_Inr_iff: "mapE RetentionApply.normalizeManifestBatch bs = Inr xs \<longleftrightarrow> mapE RetentionPolicy.normalizeManifestBatch bs = Inr xs"
  by (simp add: mapE_Inr_iff apply_batch_Inr_iff)

text \<open>The object that carries a manifest: its own fields, in any order of batches, and its hash.\<close>

definition carries_manifest :: "(jstr \<Rightarrow> jstr) \<Rightarrow> js \<Rightarrow> retention_manifest \<Rightarrow> bool" where
  "carries_manifest sha v m \<longleftrightarrow> is_object_not_array v
     \<and> get_prop v ''siteId'' = JStr (mf_siteId m) \<and> get_prop v ''cutoff'' = JStr (mf_cutoff m)
     \<and> get_prop v ''policyVersion'' = jint (mf_policyVersion m) \<and> get_prop v ''hash'' = JStr (mf_hash m)
     \<and> (\<exists>bs xs. get_prop v ''batches'' = JArr bs \<and> mapE RetentionPolicy.normalizeManifestBatch bs = Inr xs
          \<and> mf_batches m = sort_by compare_manifest_batches xs)
     \<and> manifest_ok m \<and> is_hash64 (mf_hash m)
     \<and> mf_hash m = sha (canonicalJson (manifest_payload (mf_siteId m) (mf_batches m) (mf_cutoff m) (mf_policyVersion m)))"

lemma has_own_get_prop: "get_prop v k \<noteq> JUndef \<Longrightarrow> has_own v k"
  by (cases v) (force split: option.splits dest: map_of_SomeD)+

lemma normalized_manifest_input:
  "normalizeManifestInput v = Inr w \<longleftrightarrow> is_object_not_array v \<and>
     (\<exists>siteId cutoff version bs xs. get_prop v ''siteId'' = JStr siteId \<and> strict_text siteId
        \<and> get_prop v ''cutoff'' = JStr cutoff \<and> printed_time cutoff
        \<and> get_prop v ''policyVersion'' = jint version \<and> 0 < version \<and> version \<le> max_safe
        \<and> get_prop v ''batches'' = JArr bs \<and> mapE RetentionPolicy.normalizeManifestBatch bs = Inr xs
        \<and> w = manifest_input siteId cutoff version xs)"
proof -
  have own: "get_prop v ''policyVersion'' = jint n \<Longrightarrow> has_own v ''policyVersion''" for n
    by (rule has_own_get_prop) simp
  show ?thesis
    by (auto simp: normalizeManifestInput_def normalizeManifestSiteId_def normalizeManifestVersion_def
        normalizeManifestBatches_def strict_iso_Inr_iff strict_text_def apply_batches_Inr_iff own split: js.splits)
qed

lemma normalizeManifestForApply_iff: "normalizeManifestForApply sha v = Inr m \<longleftrightarrow> carries_manifest sha v m"
proof -
  have build: "buildNewsletterRetentionManifest sha (manifest_input siteId cutoff version xs) = Inr c \<longleftrightarrow>
      c = \<lparr>mf_siteId = siteId, mf_cutoff = cutoff, mf_policyVersion = version,
           mf_batches = sort_by compare_manifest_batches xs,
           mf_hash = sha (canonicalJson (manifest_payload siteId (sort_by compare_manifest_batches xs) cutoff version))\<rparr>"
    if "strict_text siteId" "printed_time cutoff" "0 < version" "version \<le> max_safe"
      "list_all batch_ok xs" for siteId cutoff version xs c
  proof -
    show ?thesis
      using that unfolding build_manifest_Inr_iff manifest_input_def
      by (auto simp: mapE_batch_objects strict_text_def printed_time_def normalizePolicyVersion_Inr_iff
          manifest_of_def RetentionPolicy.hashCanonicalJson_def)
  qed
  have sorted: "sort_by compare_manifest_batches (sort_by compare_manifest_batches xs) = sort_by compare_manifest_batches xs" for xs
    by (intro manifest_order.sort_by_idem manifest_order.sort_by_sorted)
  have ok: "mapE RetentionPolicy.normalizeManifestBatch bs = Inr xs \<Longrightarrow> list_all batch_ok xs
      \<and> list_all batch_ok (sort_by compare_manifest_batches xs)" for bs xs
    using built_batches_ok by (fastforce simp: list_all_iff)
  show ?thesis
  proof
    assume "normalizeManifestForApply sha v = Inr m"
    then show "carries_manifest sha v m"
      unfolding normalizeManifestForApply_def bindE_Inr_iff normalized_manifest_input
      by (auto simp: build [OF _ _ _ _ ok [THEN conjunct1]] normalizeManifestHash_def carries_manifest_def manifest_ok_def sorted ok)
  next
    assume "carries_manifest sha v m"
    then show "normalizeManifestForApply sha v = Inr m"
      unfolding normalizeManifestForApply_def bindE_Inr_iff normalized_manifest_input
      by (cases m) (fastforce simp: build [OF _ _ _ _ ok [THEN conjunct1]] normalizeManifestHash_def carries_manifest_def manifest_ok_def)
  qed
qed

section \<open>Accepted artifacts\<close>

text \<open>Bindings numbered in the order of the row ids.\<close>

fun numbered :: "int \<Rightarrow> jstr list \<Rightarrow> apply_binding list" where
  "numbered i [] = []"
| "numbered i (x # xs) = \<lparr>ab_manifestIndex = i, ab_batchRecordId = x\<rparr> # numbered (i + 1) xs"

lemma numbered_simps [simp]:
  "length (numbered i xs) = length xs" "numbered i xs = [] \<longleftrightarrow> xs = []"
  "map ab_batchRecordId (numbered i xs) = xs"
proof -
  show "length (numbered i xs) = length xs" "map ab_batchRecordId (numbered i xs) = xs"
    by (induction xs arbitrary: i) simp_all
  show "numbered i xs = [] \<longleftrightarrow> xs = []" by (cases xs) simp_all
qed

lemma numbered_index: "b \<in> set (numbered i xs) \<Longrightarrow> i \<le> ab_manifestIndex b \<and> ab_manifestIndex b < i + int (length xs)"
  by (induction xs arbitrary: i) fastforce+

lemma normalize_bindings_ok:
  "normalize_bindings seen i vs = Inr bs \<Longrightarrow>
     \<exists>ids. bs = numbered i ids \<and> distinct ids \<and> list_all strict_text ids \<and> set ids \<inter> seen = {} \<and> length ids = length vs"
proof (induction vs arbitrary: seen i bs)
  case (Cons v vs)
  then obtain ident rest where run: "get_prop v ''batchRecordId'' = JStr ident" "strict_text ident" "ident \<notin> seen"
      "normalize_bindings (insert ident seen) (i + 1) vs = Inr rest"
      "bs = \<lparr>ab_manifestIndex = i, ab_batchRecordId = ident\<rparr> # rest"
    by (auto simp: normalizeBatchRecordId_def strict_text_def)
  then obtain ids where "rest = numbered (i + 1) ids" "distinct ids" "list_all strict_text ids"
      "set ids \<inter> insert ident seen = {}" "length ids = length vs"
    using Cons.IH by blast
  then show ?case using run by (intro exI [of _ "ident # ids"]) auto
qed (auto intro: exI [of _ "[]"])

lemma normalize_numbered:
  "0 \<le> i \<Longrightarrow> i + int (length ids) \<le> max_safe \<Longrightarrow> distinct ids \<Longrightarrow> list_all strict_text ids \<Longrightarrow> set ids \<inter> seen = {} \<Longrightarrow>
     normalize_bindings seen i (map binding_object (numbered i ids)) = Inr (numbered i ids)"
  by (induction ids arbitrary: seen i)
    (auto simp: binding_object_def normalizeManifestIndex_def normalizeBatchRecordId_def strict_text_def)

definition artifact_ok :: "apply_artifact \<Rightarrow> bool" where
  "artifact_ok a \<longleftrightarrow> aa_version a = 2 \<and> strict_text (aa_siteId a) \<and> is_hash64 (aa_publicManifestHash a)
     \<and> verification_ok (aa_escrow a) \<and> is_hash64 (aa_hash a)
     \<and> (\<exists>ids. aa_bindings a = numbered 0 ids \<and> ids \<noteq> [] \<and> distinct ids \<and> list_all strict_text ids)"

definition artifact_object :: "apply_artifact \<Rightarrow> js" where
  "artifact_object a = obj [(''version'', jint (aa_version a)), (''siteId'', JStr (aa_siteId a)),
     (''publicManifestHash'', JStr (aa_publicManifestHash a)), (''escrow'', verification_object (aa_escrow a)),
     (''bindings'', JArr (map binding_object (aa_bindings a))), (''hash'', JStr (aa_hash a))]"

lemma normalizeApplyArtifact_ok: "normalizeApplyArtifact v = Inr a \<Longrightarrow> artifact_ok a"
  by (auto simp: normalizeApplyArtifact_def artifact_ok_def normalizeApplyArtifactVersion_def
      APPLY_ARTIFACT_VERSION_def normalizeApplyArtifactSiteId_def strict_text_def normalizeApplyArtifactManifestHash_def
      normalizeApplyArtifactHash_def normalizeApplyArtifactBindings_def intro: parse_verification_ok
      dest!: normalize_bindings_ok split: js.splits if_splits)

lemma artifact_props:
  "get_prop (artifact_object a) ''version'' = jint (aa_version a)"
  "get_prop (artifact_object a) ''siteId'' = JStr (aa_siteId a)"
  "get_prop (artifact_object a) ''publicManifestHash'' = JStr (aa_publicManifestHash a)"
  "get_prop (artifact_object a) ''escrow'' = verification_object (aa_escrow a)"
  "get_prop (artifact_object a) ''bindings'' = JArr (map binding_object (aa_bindings a))"
  "get_prop (artifact_object a) ''hash'' = JStr (aa_hash a)"
  "is_object_not_array (artifact_object a)"
  by (simp_all add: artifact_object_def)

lemma normalize_artifact_object:
  assumes "artifact_ok a" "int (length (aa_bindings a)) \<le> max_safe"
  shows "normalizeApplyArtifact (artifact_object a) = Inr a"
proof -
  obtain ids where ids: "aa_bindings a = numbered 0 ids" "ids \<noteq> []" "distinct ids" "list_all strict_text ids"
    using assms(1) by (auto simp: artifact_ok_def)
  have "normalizeApplyArtifactBindings (JArr (map binding_object (aa_bindings a))) = Inr (aa_bindings a)"
    using normalize_numbered [of 0 ids "{}"] ids assms(2) by (simp add: normalizeApplyArtifactBindings_def)
  moreover have "parseNewsletterRetentionEscrowVerificationResult (verification_object (aa_escrow a)) = Inr (aa_escrow a)"
    using assms(1) by (simp add: parse_verification_object artifact_ok_def)
  ultimately show ?thesis
    using assms(1)
    by (simp add: normalizeApplyArtifact_def artifact_props artifact_ok_def normalizeApplyArtifactVersion_def
        APPLY_ARTIFACT_VERSION_def normalizeApplyArtifactSiteId_def strict_text_def
        normalizeApplyArtifactManifestHash_def normalizeApplyArtifactHash_def)
qed

lemma parse_artifact_iff:
  "parseNewsletterRetentionApplyArtifact sha v = Inr a \<longleftrightarrow>
     normalizeApplyArtifact v = Inr a \<and> aa_hash a = sha (canonicalJson (payload_of a))"
  by (auto simp: parseNewsletterRetentionApplyArtifact_def RetentionApply.hashCanonicalJson_def)

section \<open>Built artifacts\<close>

definition private_ok :: "candidate_record \<Rightarrow> bool" where
  "private_ok r \<longleftrightarrow> strict_text (cr_siteId r) \<and> strict_text (cr_batchRecordId r) \<and> cr_batchId r \<noteq> []
     \<and> printed_time (cr_createdAt r) \<and> safe_nat (cr_messageCount r) \<and> safe_nat (cr_notificationCount r)
     \<and> safe_nat (cr_errorCount r) \<and> safe_nat (cr_orphanCount r)"

lemma normalizePrivateRecord_ok: "normalizePrivateRecord v = Inr r \<Longrightarrow> private_ok r"
  by (auto simp: normalizePrivateRecord_def private_ok_def normalizeApplyTenantScope_def normalizeBatchRecordId_def
      RetentionApply.normalizeOpaqueId_def RetentionApply.normalizeCreatedAt_def strict_iso_Inr_iff
      RetentionApply.normalizeCount_def strict_text_def safe_nat_def)

lemma normalize_private_object: "private_ok r \<Longrightarrow> normalizePrivateRecord (private_record_object r) = Inr r"
  by (simp add: normalizePrivateRecord_def private_record_object_def private_ok_def normalizeApplyTenantScope_def
      normalizeBatchRecordId_def RetentionApply.normalizeOpaqueId_def RetentionApply.normalizeCreatedAt_def
      strict_iso_Inr_iff RetentionApply.normalizeCount_def strict_text_def safe_nat_def RetentionApply.normalizeBoolean_def)

text \<open>The record is the private side of the batch: same site, id, time and counts, and nothing orphaned.\<close>

definition private_of :: "retention_manifest \<Rightarrow> manifest_batch \<Rightarrow> candidate_record \<Rightarrow> bool" where
  "private_of m b r \<longleftrightarrow> private_ok r \<and> cr_orphanCount r = 0 \<and> cr_correlationComplete r \<and> cr_siteId r = mf_siteId m
     \<and> public_batch r = b"

lemma bind_record_Inr_iff:
  assumes "private_ok r" "in_iso_range c"
  shows "bind_record m (Some c) b seen r = Inr x \<longleftrightarrow> private_of m b r \<and> (\<exists>t < c. cr_createdAt r = to_iso t \<and> in_iso_range t)
     \<and> cr_batchRecordId r \<notin> seen \<and> x = cr_batchRecordId r"
proof -
  obtain t where t: "cr_createdAt r = to_iso t" "in_iso_range t"
    using assms(1) by (auto simp: private_ok_def printed_time_def)
  have before: "(\<exists>u < c. to_iso t = to_iso u \<and> in_iso_range u) \<longleftrightarrow> t < c"
    using t(2) date_parse_to_iso by (metis option.inject)
  have ms: "parseStrictUtcIsoMs (JStr (to_iso t)) f = Inr (Some t)" for f using t(2) by (simp add: iso_ms)
  have batch: "public_batch r = b \<longleftrightarrow> cr_batchId r = mb_batchId b \<and> cr_createdAt r = mb_createdAt b
      \<and> cr_messageCount r = mb_messageCount b \<and> cr_notificationCount r = mb_notificationCount b
      \<and> cr_errorCount r = mb_errorCount b"
    by (cases b) (auto simp: public_batch_def)
  show ?thesis
    unfolding bind_record_def normalize_private_object [OF assms(1)] private_of_def batch
    using assms t(1) before ms
    by (auto simp: time_ge_def not_le)
qed

lemma bind_records_Inr_iff:
  assumes "list_all private_ok rs" "in_iso_range c" "length bs = length rs"
  shows "bind_records m (Some c) seen i bs rs = Inr xs \<longleftrightarrow> list_all2 (private_of m) bs rs
     \<and> (\<forall>r \<in> set rs. \<exists>t < c. cr_createdAt r = to_iso t \<and> in_iso_range t)
     \<and> distinct (map cr_batchRecordId rs) \<and> cr_batchRecordId ` set rs \<inter> seen = {}
     \<and> xs = numbered i (map cr_batchRecordId rs)"
  using assms
proof (induction rs arbitrary: bs seen i xs)
  case (Cons r rs)
  then obtain b bs' where bs: "bs = b # bs'" "length bs' = length rs" by (cases bs) auto
  have rest: "bind_records m (Some c) seen i bs' rs = Inr xs \<longleftrightarrow> list_all2 (private_of m) bs' rs
     \<and> (\<forall>r \<in> set rs. \<exists>t < c. cr_createdAt r = to_iso t \<and> in_iso_range t)
     \<and> distinct (map cr_batchRecordId rs) \<and> cr_batchRecordId ` set rs \<inter> seen = {}
     \<and> xs = numbered i (map cr_batchRecordId rs)" for seen i xs
    using Cons.IH Cons.prems bs by simp
  have one: "private_ok r" using Cons.prems by simp
  show ?case
    unfolding bs(1) bind_records.simps bindE_Inr_iff rest bind_record_Inr_iff [OF one assms(2)]
    by auto
qed auto

text \<open>What the batches of a manifest add up to.\<close>

definition manifest_counts :: "manifest_batch list \<Rightarrow> escrow_counts" where
  "manifest_counts bs = \<lparr>ec_batches = int (length bs), ec_messages = (\<Sum>b\<leftarrow>bs. mb_messageCount b),
     ec_errors = (\<Sum>b\<leftarrow>bs. mb_errorCount b), ec_notifications = (\<Sum>b\<leftarrow>bs. mb_notificationCount b)\<rparr>"

lemma add_batch_counts_Inr_iff:
  "add_batch_counts c b = Inr d \<longleftrightarrow> counts_ok d \<and> 0 \<le> ec_batches c \<and> 0 \<le> ec_messages c \<and> 0 \<le> ec_errors c
     \<and> 0 \<le> ec_notifications c \<and> 0 \<le> mb_messageCount b \<and> 0 \<le> mb_errorCount b \<and> 0 \<le> mb_notificationCount b
     \<and> d = \<lparr>ec_batches = ec_batches c + 1, ec_messages = ec_messages c + mb_messageCount b,
            ec_errors = ec_errors c + mb_errorCount b, ec_notifications = ec_notifications c + mb_notificationCount b\<rparr>"
  by (auto simp: add_batch_counts_def counts_ok_def safe_nat_def)

lemma sum_batch_counts:
  assumes "list_all batch_ok bs" "counts_ok c"
  shows "foldE add_batch_counts c bs = Inr d \<longleftrightarrow> counts_ok d \<and>
     d = \<lparr>ec_batches = ec_batches c + int (length bs), ec_messages = ec_messages c + (\<Sum>b\<leftarrow>bs. mb_messageCount b),
          ec_errors = ec_errors c + (\<Sum>b\<leftarrow>bs. mb_errorCount b),
          ec_notifications = ec_notifications c + (\<Sum>b\<leftarrow>bs. mb_notificationCount b)\<rparr>"
  using assms
proof (induction bs arbitrary: c)
  case (Cons b bs)
  have sums: "0 \<le> (\<Sum>b\<leftarrow>bs. mb_messageCount b)" "0 \<le> (\<Sum>b\<leftarrow>bs. mb_errorCount b)"
      "0 \<le> (\<Sum>b\<leftarrow>bs. mb_notificationCount b)"
    using Cons.prems by (auto intro!: sum_list_nonneg simp: batch_ok_def list_all_iff)
  let ?e = "\<lparr>ec_batches = ec_batches c + 1, ec_messages = ec_messages c + mb_messageCount b,
            ec_errors = ec_errors c + mb_errorCount b, ec_notifications = ec_notifications c + mb_notificationCount b\<rparr>"
  let ?D = "\<lparr>ec_batches = ec_batches c + int (length (b # bs)), ec_messages = ec_messages c + (\<Sum>b\<leftarrow>b # bs. mb_messageCount b),
          ec_errors = ec_errors c + (\<Sum>b\<leftarrow>b # bs. mb_errorCount b),
          ec_notifications = ec_notifications c + (\<Sum>b\<leftarrow>b # bs. mb_notificationCount b)\<rparr>"
  have b: "0 \<le> mb_messageCount b" "0 \<le> mb_errorCount b" "0 \<le> mb_notificationCount b"
    using Cons.prems by (simp_all add: batch_ok_def)
  have c: "0 \<le> ec_batches c" "0 \<le> ec_messages c" "0 \<le> ec_errors c" "0 \<le> ec_notifications c"
    using Cons.prems by (simp_all add: counts_ok_def safe_nat_def)
  have "foldE add_batch_counts c (b # bs) = Inr d \<longleftrightarrow> counts_ok ?e \<and> foldE add_batch_counts ?e bs = Inr d"
    using b c by (auto simp: add_batch_counts_Inr_iff)
  also have "\<dots> \<longleftrightarrow> counts_ok ?e \<and> counts_ok d \<and> d = ?D"
    using Cons.IH [of ?e] Cons.prems by (cases "counts_ok ?e") (simp_all add: ac_simps)
  also have "\<dots> \<longleftrightarrow> counts_ok d \<and> d = ?D"
  proof -
    have "counts_ok ?e" if "counts_ok ?D"
      using that b c sums unfolding counts_ok_def safe_nat_def
      by (simp only: escrow_counts.select_convs list.map sum_list.Cons length_Cons of_nat_Suc) linarith
    then show ?thesis by blast
  qed
  finally show ?case .
qed auto

lemma expected_counts:
  "list_all batch_ok bs \<Longrightarrow> foldE add_batch_counts no_counts bs = Inr d \<longleftrightarrow> counts_ok d \<and> d = manifest_counts bs"
  by (subst sum_batch_counts) (simp_all add: no_counts_def manifest_counts_def counts_ok_def safe_nat_def max_safe_def)

definition escrow_of :: "retention_manifest \<Rightarrow> verification_result \<Rightarrow> bool" where
  "escrow_of m e \<longleftrightarrow> vr_siteId e = mf_siteId m \<and> vr_cutoff e = mf_cutoff m \<and> vr_policyVersion e = mf_policyVersion m
     \<and> vr_publicManifestHash e = mf_hash m \<and> vr_counts e = manifest_counts (mf_batches m)"

lemma assertEscrowMatchesManifest_iff:
  assumes "manifest_ok m" "verification_ok e"
  shows "assertEscrowMatchesManifest e m = Inr u \<longleftrightarrow> escrow_of m e"
proof -
  have fold: "foldE add_batch_counts no_counts (mf_batches m) = Inr d \<longleftrightarrow> counts_ok d \<and> d = manifest_counts (mf_batches m)" for d
    using assms(1) by (intro expected_counts) (simp add: manifest_ok_def)
  have "counts_ok (vr_counts e)" using assms(2) by (simp add: verification_ok_def)
  then have "bindE (foldE add_batch_counts no_counts (mf_batches m)) (\<lambda>expected.
      if vr_counts e \<noteq> expected then Inl x else Inr ()) = Inr u \<longleftrightarrow> vr_counts e = manifest_counts (mf_batches m)" for x
    unfolding bindE_Inr_iff fold by auto
  then show ?thesis
    by (simp add: assertEscrowMatchesManifest_def escrow_of_def del: bindE_Inr_iff)
qed

definition before_cutoff :: "jstr \<Rightarrow> candidate_record \<Rightarrow> bool" where
  "before_cutoff cutoff r \<longleftrightarrow> (\<exists>c t. cutoff = to_iso c \<and> in_iso_range c \<and> cr_createdAt r = to_iso t \<and> in_iso_range t \<and> t < c)"

definition artifact_for ::
  "(jstr \<Rightarrow> jstr) \<Rightarrow> retention_manifest \<Rightarrow> verification_result \<Rightarrow> jstr list \<Rightarrow> apply_artifact" where
  "artifact_for sha m e ids = \<lparr>aa_version = 2, aa_siteId = mf_siteId m, aa_publicManifestHash = mf_hash m,
     aa_escrow = e, aa_bindings = numbered 0 ids,
     aa_hash = sha (canonicalJson (artifact_payload 2 (mf_siteId m) (mf_hash m) e (numbered 0 ids)))\<rparr>"

text \<open>What makes a list of private records the other half of a public manifest.\<close>

definition bindable :: "retention_manifest \<Rightarrow> candidate_record list \<Rightarrow> bool" where
  "bindable m rs \<longleftrightarrow> rs \<noteq> [] \<and> list_all2 (private_of m) (mf_batches m) rs \<and> list_all (before_cutoff (mf_cutoff m)) rs
     \<and> distinct (map cr_batchRecordId rs)"

lemma artifact_input_Inr_iff:
  "normalizeApplyArtifactInput v = Inr (x, y, rs) \<longleftrightarrow> is_object_not_array v \<and> x = get_prop v ''manifest''
     \<and> y = get_prop v ''escrow'' \<and> (\<exists>vs. get_prop v ''records'' = JArr vs \<and> mapE normalizePrivateRecord vs = Inr rs)"
  by (auto simp: normalizeApplyArtifactInput_def normalizePrivateRecords_def split: js.splits)

lemma carried_manifest_ok: "carries_manifest sha v m \<Longrightarrow> manifest_ok m \<and> is_hash64 (mf_hash m)"
  unfolding carries_manifest_def by blast

lemma bind_to_manifest:
  assumes "carries_manifest sha v m" "list_all private_ok rs" "length rs = length (mf_batches m)" "rs \<noteq> []"
  shows "bindE (parseStrictUtcIsoMs (JStr (mf_cutoff m)) f) (\<lambda>c. bindE (bind_records m c {} 0 (mf_batches m) rs) k) = Inr a
     \<longleftrightarrow> bindable m rs \<and> k (numbered 0 (map cr_batchRecordId rs)) = Inr a"
proof -
  obtain c where c: "mf_cutoff m = to_iso c" "in_iso_range c"
    using carried_manifest_ok [OF assms(1)] by (auto simp: manifest_ok_def printed_time_def)
  have unique: "to_iso x = to_iso c \<and> in_iso_range x \<longleftrightarrow> x = c" for x
    using c(2) date_parse_to_iso by (metis option.inject)
  have cutoff: "parseStrictUtcIsoMs (JStr (mf_cutoff m)) f = Inr x \<longleftrightarrow> x = Some c" for x
    by (simp add: c iso_ms)
  have before: "(\<forall>r \<in> set rs. \<exists>t < c. cr_createdAt r = to_iso t \<and> in_iso_range t)
      \<longleftrightarrow> list_all (before_cutoff (mf_cutoff m)) rs"
    unfolding list_all_iff before_cutoff_def c(1) using unique by (metis (no_types))
  show ?thesis
    unfolding bindE_Inr_iff cutoff bind_records_Inr_iff [OF assms(2) c(2) assms(3) [symmetric]] before bindable_def
    using assms(4)
    by (auto simp: bind_records_Inr_iff [OF assms(2) c(2) assms(3) [symmetric]] before)
qed

lemma build_artifact_Inr_iff:
  "buildNewsletterRetentionApplyArtifact sha v = Inr a \<longleftrightarrow> is_object_not_array v
     \<and> (\<exists>vs rs m e. get_prop v ''records'' = JArr vs \<and> mapE normalizePrivateRecord vs = Inr rs
          \<and> carries_manifest sha (get_prop v ''manifest'') m
          \<and> parseNewsletterRetentionEscrowVerificationResult (get_prop v ''escrow'') = Inr e \<and> escrow_of m e
          \<and> bindable m rs \<and> a = artifact_for sha m e (map cr_batchRecordId rs))"
    (is "?build \<longleftrightarrow> ?spec")
proof -
  have records: "list_all private_ok rs" if "mapE normalizePrivateRecord vs = Inr rs" for vs rs
    using that mapE_setD normalizePrivateRecord_ok by (fastforce simp: list_all_iff)
  have fits: "length rs = length (mf_batches m) \<and> rs \<noteq> []" if "bindable m rs" for m rs
    using that by (auto simp: bindable_def dest: list_all2_lengthD)
  have seal: "seal_artifact sha m e rs = Inr a \<longleftrightarrow>
      escrow_of m e \<and> bindable m rs \<and> a = artifact_for sha m e (map cr_batchRecordId rs)"
    if "carries_manifest sha w m" "verification_ok e" "list_all private_ok rs" for w m e rs
  proof (cases "rs \<noteq> [] \<and> length rs = length (mf_batches m)")
    case True
    then show ?thesis
      using that carried_manifest_ok [OF that(1)] unfolding seal_artifact_def
      by (subst bindE_Inr_iff)
        (auto simp: assertEscrowMatchesManifest_iff bind_to_manifest [OF that(1,3)] artifact_for_def
          RetentionApply.hashCanonicalJson_def APPLY_ARTIFACT_VERSION_def simp del: bindE_Inr_iff)
  next
    case False
    then show ?thesis using fits [of m rs] by (auto simp: seal_artifact_def)
  qed
  have steps: "?build \<longleftrightarrow> (\<exists>x y rs m e. normalizeApplyArtifactInput v = Inr (x, y, rs) \<and> carries_manifest sha x m
      \<and> parseNewsletterRetentionEscrowVerificationResult y = Inr e \<and> seal_artifact sha m e rs = Inr a)"
    by (auto simp: buildNewsletterRetentionApplyArtifact_def normalizeManifestForApply_iff)
  show ?thesis
  proof
    assume ?build
    then obtain x y rs m e where run: "normalizeApplyArtifactInput v = Inr (x, y, rs)" "carries_manifest sha x m"
        "parseNewsletterRetentionEscrowVerificationResult y = Inr e" "seal_artifact sha m e rs = Inr a"
      unfolding steps by blast
    then obtain vs where input: "is_object_not_array v" "x = get_prop v ''manifest''" "y = get_prop v ''escrow''"
        "get_prop v ''records'' = JArr vs" "mapE normalizePrivateRecord vs = Inr rs"
      unfolding artifact_input_Inr_iff by blast
    show ?spec
      using input run(2,3) run(4) [unfolded seal [OF run(2) parse_verification_ok [OF run(3)] records [OF input(5)]]] by blast
  next
    assume ?spec
    then obtain vs rs m e where input: "is_object_not_array v" "get_prop v ''records'' = JArr vs" "mapE normalizePrivateRecord vs = Inr rs"
        and m: "carries_manifest sha (get_prop v ''manifest'') m"
        and e: "parseNewsletterRetentionEscrowVerificationResult (get_prop v ''escrow'') = Inr e"
        and fits: "escrow_of m e" "bindable m rs" "a = artifact_for sha m e (map cr_batchRecordId rs)"
      by blast
    have "seal_artifact sha m e rs = Inr a"
      unfolding seal [OF m parse_verification_ok [OF e] records [OF input(3)]] using fits by blast
    moreover have "normalizeApplyArtifactInput v = Inr (get_prop v ''manifest'', get_prop v ''escrow'', rs)"
      unfolding artifact_input_Inr_iff using input by blast
    ultimately show ?build unfolding steps using m e by blast
  qed
qed

section \<open>Accepted contexts\<close>

lemma if_Inr_iff: "(if c then Inl e else k) = Inr y \<longleftrightarrow> \<not> c \<and> k = Inr y"
  by simp

lemma context_Inr_iff:
  "parseNewsletterRetentionApplyContext sha v = Inr ctx \<longleftrightarrow> is_object_not_array v
     \<and> (\<exists>p e m a. parseNewsletterRetentionPolicy (get_prop v ''policy'') = Inr p \<and> \<not> pol_dryRun p
        \<and> parseNewsletterRetentionEvidence (get_prop v ''evidence'') = Inr e
        \<and> carries_manifest sha (get_prop v ''manifest'') m
        \<and> mf_siteId m = pol_siteId p \<and> mf_cutoff m = pol_cutoff p \<and> mf_policyVersion m = pol_policyVersion p
        \<and> parseNewsletterRetentionApplyArtifact sha (get_prop v ''artifact'') = Inr a
        \<and> aa_siteId a = mf_siteId m \<and> aa_publicManifestHash a = mf_hash m
        \<and> (\<exists>u. assertEscrowMatchesManifest (aa_escrow a) m = Inr u)
        \<and> aa_bindings a \<noteq> [] \<and> length (aa_bindings a) = length (mf_batches m)
        \<and> list_all (\<lambda>b. ab_manifestIndex b \<ge> 0 \<and> ab_manifestIndex b < int (length (mf_batches m))) (aa_bindings a)
        \<and> (\<exists>total. foldE (\<lambda>t b. safe_add t (mb_messageCount b) ''manifest total messageCount'') 0 (mf_batches m) = Inr total
             \<and> int (length (mf_batches m)) \<le> pol_maxBatches p \<and> total \<le> pol_maxMessages p)
        \<and> ctx = \<lparr>ctx_policy = p, ctx_evidence = e, ctx_manifest = m, ctx_artifact = a\<rparr>)"
  unfolding parseNewsletterRetentionApplyContext_def if_Inr_iff bindE_Inr_iff normalizeManifestForApply_iff
    not_not not_less sum.inject
  by (intro conj_cong refl; blast)

text \<open>The four documents of a destructive run agree.\<close>

definition agreed :: "apply_context \<Rightarrow> bool" where
  "agreed c \<longleftrightarrow>
     mf_siteId (ctx_manifest c) = pol_siteId (ctx_policy c) \<and> mf_cutoff (ctx_manifest c) = pol_cutoff (ctx_policy c)
     \<and> mf_policyVersion (ctx_manifest c) = pol_policyVersion (ctx_policy c) \<and> \<not> pol_dryRun (ctx_policy c)
     \<and> aa_siteId (ctx_artifact c) = mf_siteId (ctx_manifest c)
     \<and> aa_publicManifestHash (ctx_artifact c) = mf_hash (ctx_manifest c)
     \<and> escrow_of (ctx_manifest c) (aa_escrow (ctx_artifact c))
     \<and> length (aa_bindings (ctx_artifact c)) = length (mf_batches (ctx_manifest c))
     \<and> int (length (mf_batches (ctx_manifest c))) \<le> pol_maxBatches (ctx_policy c)
     \<and> (\<Sum>b\<leftarrow>mf_batches (ctx_manifest c). mb_messageCount b) \<le> pol_maxMessages (ctx_policy c)"

lemma context_agreed_iff:
  "parseNewsletterRetentionApplyContext sha v = Inr c \<longleftrightarrow> is_object_not_array v
     \<and> parseNewsletterRetentionPolicy (get_prop v ''policy'') = Inr (ctx_policy c)
     \<and> parseNewsletterRetentionEvidence (get_prop v ''evidence'') = Inr (ctx_evidence c)
     \<and> carries_manifest sha (get_prop v ''manifest'') (ctx_manifest c)
     \<and> parseNewsletterRetentionApplyArtifact sha (get_prop v ''artifact'') = Inr (ctx_artifact c) \<and> agreed c"
proof -
  obtain p e m a where c: "c = \<lparr>ctx_policy = p, ctx_evidence = e, ctx_manifest = m, ctx_artifact = a\<rparr>"
    by (cases c) simp
  have escrow: "(\<exists>u. assertEscrowMatchesManifest (aa_escrow a) m = Inr u) \<longleftrightarrow> escrow_of m (aa_escrow a)"
    and bindings: "aa_bindings a \<noteq> []"
      "length (aa_bindings a) = length (mf_batches m) \<Longrightarrow>
         list_all (\<lambda>b. ab_manifestIndex b \<ge> 0 \<and> ab_manifestIndex b < int (length (mf_batches m))) (aa_bindings a)"
    and total: "escrow_of m (aa_escrow a) \<Longrightarrow>
       foldE (\<lambda>t b. safe_add t (mb_messageCount b) ''manifest total messageCount'') 0 (mf_batches m) = Inr n \<longleftrightarrow>
       n = (\<Sum>b\<leftarrow>mf_batches m. mb_messageCount b)"
    if "carries_manifest sha w m" "parseNewsletterRetentionApplyArtifact sha u = Inr a" for w u n
  proof -
    have ok: "artifact_ok a" using that(2) normalizeApplyArtifact_ok unfolding parse_artifact_iff by blast
    have m: "manifest_ok m" using carried_manifest_ok [OF that(1)] by blast
    have e: "verification_ok (aa_escrow a)" using ok by (simp add: artifact_ok_def)
    show "(\<exists>u. assertEscrowMatchesManifest (aa_escrow a) m = Inr u) \<longleftrightarrow> escrow_of m (aa_escrow a)"
      using assertEscrowMatchesManifest_iff [OF m e] by blast
    show "aa_bindings a \<noteq> []" using ok numbered_simps(2) unfolding artifact_ok_def by metis
    show "list_all (\<lambda>b. ab_manifestIndex b \<ge> 0 \<and> ab_manifestIndex b < int (length (mf_batches m))) (aa_bindings a)"
      if "length (aa_bindings a) = length (mf_batches m)"
      using ok that by (auto simp: artifact_ok_def list_all_iff dest!: numbered_index)
    show "foldE (\<lambda>t b. safe_add t (mb_messageCount b) ''manifest total messageCount'') 0 (mf_batches m) = Inr n \<longleftrightarrow>
       n = (\<Sum>b\<leftarrow>mf_batches m. mb_messageCount b)" if "escrow_of m (aa_escrow a)"
    proof -
      have "(\<Sum>b\<leftarrow>mf_batches m. mb_messageCount b) \<le> max_safe"
        using e that by (simp add: verification_ok_def escrow_of_def manifest_counts_def counts_ok_def safe_nat_def)
      moreover have "\<forall>b \<in> set (mf_batches m). 0 \<le> mb_messageCount b"
        using m by (simp add: manifest_ok_def list_all_iff batch_ok_def)
      moreover have "(0::int) \<le> max_safe" by (simp add: max_safe_def)
      ultimately show ?thesis by (subst safe_sum_Inr_iff) auto
    qed
  qed
  let ?docs = "is_object_not_array v \<and> parseNewsletterRetentionPolicy (get_prop v ''policy'') = Inr p
     \<and> parseNewsletterRetentionEvidence (get_prop v ''evidence'') = Inr e
     \<and> carries_manifest sha (get_prop v ''manifest'') m
     \<and> parseNewsletterRetentionApplyArtifact sha (get_prop v ''artifact'') = Inr a"
  show ?thesis
  proof (cases ?docs)
    case True
    then have docs: "carries_manifest sha (get_prop v ''manifest'') m"
        "parseNewsletterRetentionApplyArtifact sha (get_prop v ''artifact'') = Inr a" by blast+
    have one: "(\<exists>n. n = (x::int) \<and> P n) \<longleftrightarrow> P x" for x P by blast
    have rest: "((\<exists>u. assertEscrowMatchesManifest (aa_escrow a) m = Inr u) \<and> aa_bindings a \<noteq> []
        \<and> length (aa_bindings a) = length (mf_batches m)
        \<and> list_all (\<lambda>b. ab_manifestIndex b \<ge> 0 \<and> ab_manifestIndex b < int (length (mf_batches m))) (aa_bindings a)
        \<and> (\<exists>total. foldE (\<lambda>t b. safe_add t (mb_messageCount b) ''manifest total messageCount'') 0 (mf_batches m) = Inr total
             \<and> int (length (mf_batches m)) \<le> pol_maxBatches p \<and> total \<le> pol_maxMessages p)) \<longleftrightarrow>
        escrow_of m (aa_escrow a) \<and> length (aa_bindings a) = length (mf_batches m)
        \<and> int (length (mf_batches m)) \<le> pol_maxBatches p
        \<and> (\<Sum>b\<leftarrow>mf_batches m. mb_messageCount b) \<le> pol_maxMessages p"
    proof (cases "escrow_of m (aa_escrow a)")
      case True
      then show ?thesis
        unfolding escrow [OF docs] total [OF docs True] one using bindings [OF docs] by blast
    qed (use escrow [OF docs] in blast)
    show ?thesis
      using True rest unfolding context_Inr_iff c agreed_def apply_context.select_convs apply_context.ext_inject
      by (metis (no_types, lifting))
  next
    case False
    then show ?thesis
      unfolding context_Inr_iff c agreed_def apply_context.select_convs apply_context.ext_inject by blast
  qed
qed

section \<open>Sealed artifacts\<close>

lemma built_artifact_ok:
  assumes "buildNewsletterRetentionApplyArtifact sha v = Inr a" "\<And>t. is_hash64 (sha t)"
  shows "artifact_ok a \<and> int (length (aa_bindings a)) \<le> max_safe \<and> aa_hash a = sha (canonicalJson (payload_of a))"
proof -
  obtain vs rs m e where run: "mapE normalizePrivateRecord vs = Inr rs" "carries_manifest sha (get_prop v ''manifest'') m"
      "parseNewsletterRetentionEscrowVerificationResult (get_prop v ''escrow'') = Inr e" "escrow_of m e"
      "bindable m rs" "a = artifact_for sha m e (map cr_batchRecordId rs)"
    using assms(1) unfolding build_artifact_Inr_iff by blast
  have m: "manifest_ok m" "is_hash64 (mf_hash m)" using carried_manifest_ok [OF run(2)] by simp_all
  have e: "verification_ok e" using parse_verification_ok [OF run(3)] .
  have fits: "length rs = length (mf_batches m)" "rs \<noteq> []" "distinct (map cr_batchRecordId rs)"
    using run(5) by (auto simp: bindable_def dest: list_all2_lengthD)
  have "list_all strict_text (map cr_batchRecordId rs)"
    using mapE_setD [OF run(1)] normalizePrivateRecord_ok by (fastforce simp: list_all_iff private_ok_def)
  then have "artifact_ok a"
    using m e fits assms(2) by (auto simp: artifact_ok_def run(6) artifact_for_def manifest_ok_def intro!: exI)
  moreover have "int (length (mf_batches m)) \<le> max_safe"
    using e run(4) by (simp add: verification_ok_def escrow_of_def manifest_counts_def counts_ok_def safe_nat_def)
  ultimately show ?thesis
    using fits by (simp add: run(6) artifact_for_def payload_of_def)
qed

lemma built_artifact_parses:
  assumes "buildNewsletterRetentionApplyArtifact sha v = Inr a" "\<And>t. is_hash64 (sha t)"
  shows "parseNewsletterRetentionApplyArtifact sha (artifact_object a) = Inr a"
  using built_artifact_ok [OF assms] by (simp add: parse_artifact_iff normalize_artifact_object)

text \<open>The sealed text determines the artifact.\<close>

lemma artifact_payload_props:
  "get_prop (payload_of a) ''version'' = jint (aa_version a)"
  "get_prop (payload_of a) ''siteId'' = JStr (aa_siteId a)"
  "get_prop (payload_of a) ''publicManifestHash'' = JStr (aa_publicManifestHash a)"
  "get_prop (payload_of a) ''escrow'' = verification_object (aa_escrow a)"
  "get_prop (payload_of a) ''bindings'' = JArr (map binding_object (aa_bindings a))"
  by (simp_all add: payload_of_def artifact_payload_def)

lemma plain_binding_object:
  "\<bar>ab_manifestIndex b\<bar> \<le> max_safe \<Longrightarrow> plain (binding_object b)"
  by (simp add: binding_object_def)

lemma binding_object_inject:
  assumes "plain (binding_object b)" "plain (binding_object b')"
    and "sort_members (binding_object b) = sort_members (binding_object b')"
  shows "b = b'"
proof -
  have eq: "sort_members (get_prop (binding_object b) k) = sort_members (get_prop (binding_object b') k)" for k
    using assms(3) by (simp flip: get_prop_sort_members add: assms(1,2))
  show ?thesis
    using eq [of "''manifestIndex''"] eq [of "''batchRecordId''"] by (cases b; cases b') (simp add: binding_object_def)
qed

lemma plain_artifact_payload:
  assumes "artifact_ok a" "int (length (aa_bindings a)) \<le> max_safe"
  shows "plain (payload_of a)" "list_all (plain \<circ> binding_object) (aa_bindings a)"
proof -
  show bs: "list_all (plain \<circ> binding_object) (aa_bindings a)"
    using assms by (auto simp: artifact_ok_def list_all_iff intro!: plain_binding_object dest!: numbered_index)
  have "\<bar>aa_version a\<bar> \<le> max_safe" "plain (verification_object (aa_escrow a))"
    using assms(1) by (simp_all add: artifact_ok_def max_safe_def plain_verification_object)
  then show "plain (payload_of a)"
    using bs by (simp add: payload_of_def artifact_payload_def list_all_iff)
qed

lemma artifact_text_inject:
  assumes a: "artifact_ok a" "int (length (aa_bindings a)) \<le> max_safe"
    and b: "artifact_ok b" "int (length (aa_bindings b)) \<le> max_safe"
    and same: "canonicalJson (payload_of a) = canonicalJson (payload_of b)" "aa_hash a = aa_hash b"
  shows "a = b"
proof -
  note plain = plain_artifact_payload [OF a] plain_artifact_payload [OF b]
  have eq: "sort_members (get_prop (payload_of a) k) = sort_members (get_prop (payload_of b) k)" for k
    using same(1) by (simp flip: get_prop_sort_members add: plain canonicalJson_inject)
  have "aa_escrow a = aa_escrow b"
    using eq [of "''escrow''"] a(1) b(1)
    by (intro verification_object_inject) (simp_all add: artifact_payload_props artifact_ok_def)
  moreover have "map (\<lambda>x. sort_members (binding_object x)) (aa_bindings a) = map (\<lambda>x. sort_members (binding_object x)) (aa_bindings b)"
    using eq [of "''bindings''"] by (simp add: artifact_payload_props comp_def)
  then have "aa_bindings a = aa_bindings b"
    using plain(2,4) binding_object_inject
    by (auto simp: list_eq_iff_nth_eq list_all_length)
  ultimately show ?thesis
    using eq [of "''version''"] eq [of "''siteId''"] eq [of "''publicManifestHash''"] same(2)
    unfolding artifact_payload_props sort_members.simps js.inject jnum.inject of_int_eq_iff
    by (cases a; cases b) simp
qed

definition context_input :: "js \<Rightarrow> js \<Rightarrow> js \<Rightarrow> js \<Rightarrow> js" where
  "context_input p e m a = obj [(''policy'', p), (''evidence'', e), (''manifest'', m), (''artifact'', a)]"

lemma context_input_props:
  "is_object_not_array (context_input p e m a)"
  "get_prop (context_input p e m a) ''policy'' = p" "get_prop (context_input p e m a) ''evidence'' = e"
  "get_prop (context_input p e m a) ''manifest'' = m" "get_prop (context_input p e m a) ''artifact'' = a"
  by (simp_all add: context_input_def)

lemma built_context:
  assumes build: "buildNewsletterRetentionApplyArtifact sha v = Inr a" and sha: "\<And>t. is_hash64 (sha t)"
    and policy: "parseNewsletterRetentionPolicy p = Inr pol" "\<not> pol_dryRun pol"
    and evidence: "parseNewsletterRetentionEvidence ev = Inr e"
    and manifest: "normalizeManifestForApply sha (get_prop v ''manifest'') = Inr m" "mf_siteId m = pol_siteId pol"
      "mf_cutoff m = pol_cutoff pol" "mf_policyVersion m = pol_policyVersion pol"
    and caps: "int (length (mf_batches m)) \<le> pol_maxBatches pol"
      "(\<Sum>b\<leftarrow>mf_batches m. mb_messageCount b) \<le> pol_maxMessages pol"
  shows "parseNewsletterRetentionApplyContext sha (context_input p ev (get_prop v ''manifest'') (artifact_object a))
     = Inr \<lparr>ctx_policy = pol, ctx_evidence = e, ctx_manifest = m, ctx_artifact = a\<rparr>"
proof -
  obtain rs m' e' where run: "carries_manifest sha (get_prop v ''manifest'') m'" "escrow_of m' e'" "bindable m' rs"
      "a = artifact_for sha m' e' (map cr_batchRecordId rs)"
    using build unfolding build_artifact_Inr_iff by blast
  have "m' = m" using run(1) manifest(1) by (simp flip: normalizeManifestForApply_iff)
  then have "agreed \<lparr>ctx_policy = pol, ctx_evidence = e, ctx_manifest = m, ctx_artifact = a\<rparr>"
    using run(2,3) manifest caps policy(2)
    by (auto simp: agreed_def run(4) artifact_for_def bindable_def dest: list_all2_lengthD)
  then show ?thesis
    using built_artifact_parses [OF build sha] policy(1) evidence run(1) \<open>m' = m\<close>
    by (simp add: context_agreed_iff context_input_props)
qed

section \<open>Example\<close>

definition example_apply_batch :: manifest_batch where
  "example_apply_batch = \<lparr>mb_batchId = lit ''b'', mb_createdAt = to_iso 0, mb_messageCount = 1,
     mb_notificationCount = 1, mb_errorCount = 0\<rparr>"

definition example_apply_record :: candidate_record where
  "example_apply_record = \<lparr>cr_siteId = lit ''site'', cr_batchRecordId = lit ''r'', cr_batchId = lit ''b'',
     cr_createdAt = to_iso 0, cr_messageCount = 1, cr_notificationCount = 1, cr_errorCount = 0,
     cr_orphanCount = 0, cr_correlationComplete = True\<rparr>"

lemma example_apply_batch_ok: "batch_ok example_apply_batch"
proof -
  have "lit ''b'' \<noteq> []" by (simp add: lit_def)
  then show ?thesis using example_cutoff by (auto simp: batch_ok_def example_apply_batch_def example_trims max_safe_def)
qed

definition example_manifest :: retention_manifest where
  "example_manifest = \<lparr>mf_siteId = lit ''site'', mf_cutoff = to_iso 86400000, mf_policyVersion = 1,
     mf_batches = [example_apply_batch], mf_hash = example_hash\<rparr>"

definition example_verification :: verification_result where
  "example_verification = \<lparr>vr_version = 1, vr_siteId = lit ''site'', vr_cutoff = to_iso 86400000, vr_policyVersion = 1,
     vr_publicManifestHash = example_hash, vr_schemaFingerprint = example_hash, vr_contentHash = example_hash,
     vr_counts = manifest_counts [example_apply_batch]\<rparr>"

definition example_build_input :: js where
  "example_build_input = obj [(''manifest'', manifest_object example_manifest),
     (''escrow'', verification_object example_verification), (''records'', JArr [private_record_object example_apply_record])]"

definition example_artifact :: apply_artifact where
  "example_artifact = artifact_for (\<lambda>_. example_hash) example_manifest example_verification [lit ''r'']"

lemma example_manifest_carried: "carries_manifest (\<lambda>_. example_hash) (manifest_object example_manifest) example_manifest"
proof -
  have "printed_time (to_iso 86400000)" using example_cutoff(1) by (auto simp: printed_time_def)
  moreover have "sort_by compare_manifest_batches [x] = [x]" for x by (simp add: sort_by_def)
  moreover have "mapE RetentionPolicy.normalizeManifestBatch [batch_object example_apply_batch] = Inr [example_apply_batch]"
    using mapE_batch_objects [of "[example_apply_batch]"] example_apply_batch_ok by simp
  ultimately show ?thesis
    by (simp add: example_apply_batch_ok carries_manifest_def manifest_object_def example_manifest_def manifest_ok_def strict_text_def example_trims
        example_hash_ok max_safe_def)
qed

lemma example_verification_ok: "verification_ok example_verification"
  using example_cutoff(1)
  by (auto simp: verification_ok_def example_verification_def strict_text_def example_trims printed_time_def example_hash_ok
      max_safe_def manifest_counts_def counts_ok_def safe_nat_def example_apply_batch_def)

lemma example_bindable: "bindable example_manifest [example_apply_record]"
proof -
  have "before_cutoff (to_iso 86400000) example_apply_record"
    unfolding before_cutoff_def example_apply_record_def
    by (rule exI [of _ 86400000], rule exI [of _ 0]) (simp add: example_cutoff)
  moreover have "printed_time (to_iso 0)" using example_cutoff(2) by (auto simp: printed_time_def)
  ultimately show ?thesis
    by (simp add: bindable_def example_manifest_def example_apply_record_def private_of_def private_ok_def strict_text_def
      example_trims more_trims safe_nat_def max_safe_def public_batch_def example_apply_batch_def)
qed

lemma example_builds:
  "buildNewsletterRetentionApplyArtifact (\<lambda>_. example_hash) example_build_input = Inr example_artifact"
proof -
  have "private_ok example_apply_record" using example_bindable by (auto simp: bindable_def example_manifest_def private_of_def)
  then have "mapE normalizePrivateRecord [private_record_object example_apply_record] = Inr [example_apply_record]"
    by (simp add: normalize_private_object)
  moreover have "escrow_of example_manifest example_verification"
    by (simp add: escrow_of_def example_manifest_def example_verification_def)
  moreover have "is_object_not_array example_build_input"
      "get_prop example_build_input ''manifest'' = manifest_object example_manifest"
      "get_prop example_build_input ''escrow'' = verification_object example_verification"
      "get_prop example_build_input ''records'' = JArr [private_record_object example_apply_record]"
    by (simp_all add: example_build_input_def)
  moreover have "map cr_batchRecordId [example_apply_record] = [lit ''r'']" by (simp add: example_apply_record_def)
  ultimately show ?thesis
    unfolding build_artifact_Inr_iff example_artifact_def
    using example_manifest_carried example_bindable parse_verification_object [OF example_verification_ok] by metis
qed

definition example_apply_policy :: js where
  "example_apply_policy = obj [(''siteId'', JStr (lit ''site'')), (''cutoff'', JStr (to_iso 86400000)), (''apply'', JBool True)]"

lemma example_apply_policy_parses:
  "parseNewsletterRetentionPolicy example_apply_policy = Inr (example_policy\<lparr>pol_dryRun := False\<rparr>)"
proof -
  have "parse_strict_utc (JStr (to_iso 86400000)) e = Inr 86400000" for e
    by (simp only: parse_strict_utc_Inr_iff) (simp add: example_cutoff)
  moreover have "RetentionPolicy.normalizeSiteId (JStr (lit ''site'')) = Inr (lit ''site'')"
    by (simp add: RetentionPolicy.normalizeSiteId_def example_trims)
  ultimately show ?thesis
    by (simp add: parseNewsletterRetentionPolicy_def example_apply_policy_def clampPositiveInteger_def example_policy_def
        del: bindE_Inr_iff parse_strict_utc_Inr_iff)
qed

section \<open>Properties\<close>

text \<open>
  C27: which inputs a destructive run accepts. The policy must be explicitly in apply mode and accepted,
  the evidence fresh, the manifest's hash the one of its own content, the artifact sealed by its hash;
  and the four documents agree: same site, cutoff and policy version, the artifact is for this manifest,
  the verified escrow carries this manifest's hash and exactly its totals, there is one binding per
  batch, and batches and messages stay within the policy's caps.
\<close>

theorem apply_context_accepted_iff:
  "parseNewsletterRetentionApplyContext sha v = Inr c \<longleftrightarrow> is_object_not_array v
     \<and> parseNewsletterRetentionPolicy (get_prop v ''policy'') = Inr (ctx_policy c)
     \<and> parseNewsletterRetentionEvidence (get_prop v ''evidence'') = Inr (ctx_evidence c)
     \<and> carries_manifest sha (get_prop v ''manifest'') (ctx_manifest c)
     \<and> parseNewsletterRetentionApplyArtifact sha (get_prop v ''artifact'') = Inr (ctx_artifact c) \<and> agreed c"
  by (rule context_agreed_iff)

text \<open>
  C28: an artifact that was built is accepted when it comes back: with the same manifest, an
  apply-mode policy for it whose caps suffice and fresh evidence, the context parses, and it holds
  exactly the artifact that was built. The hash function is assumed to return 64 lower-case
  hexadecimal digits, as SHA-256 in hexadecimal does.
\<close>

theorem built_artifact_accepted:
  assumes "buildNewsletterRetentionApplyArtifact sha v = Inr a" "\<And>t. is_hash64 (sha t)"
    and "parseNewsletterRetentionPolicy p = Inr pol" "\<not> pol_dryRun pol"
    and "parseNewsletterRetentionEvidence ev = Inr e"
    and "normalizeManifestForApply sha (get_prop v ''manifest'') = Inr m" "mf_siteId m = pol_siteId pol"
      "mf_cutoff m = pol_cutoff pol" "mf_policyVersion m = pol_policyVersion pol"
    and "int (length (mf_batches m)) \<le> pol_maxBatches pol"
      "(\<Sum>b\<leftarrow>mf_batches m. mb_messageCount b) \<le> pol_maxMessages pol"
  shows "parseNewsletterRetentionApplyContext sha (context_input p ev (get_prop v ''manifest'') (artifact_object a))
     = Inr \<lparr>ctx_policy = pol, ctx_evidence = e, ctx_manifest = m, ctx_artifact = a\<rparr>"
  by (rule built_context [OF assms])

lemma built_artifact_accepted_witness:
  "\<exists>e. parseNewsletterRetentionApplyContext (\<lambda>_. example_hash)
      (context_input example_apply_policy example_evidence (get_prop example_build_input ''manifest'') (artifact_object example_artifact))
    = Inr \<lparr>ctx_policy = example_policy\<lparr>pol_dryRun := False\<rparr>, ctx_evidence = e, ctx_manifest = example_manifest,
        ctx_artifact = example_artifact\<rparr>"
proof -
  obtain e where e: "parseNewsletterRetentionEvidence example_evidence = Inr e" using example_evidence_accepted by blast
  have "get_prop example_build_input ''manifest'' = manifest_object example_manifest" by (simp add: example_build_input_def)
  then have "normalizeManifestForApply (\<lambda>_. example_hash) (get_prop example_build_input ''manifest'') = Inr example_manifest"
    using example_manifest_carried by (simp add: normalizeManifestForApply_iff)
  from built_artifact_accepted [OF example_builds example_hash_ok example_apply_policy_parses _ e this]
  show ?thesis
    by (intro exI [of _ e]) (simp add: example_policy_def example_manifest_def example_apply_batch_def)
qed

text \<open>
  C29: an artifact cannot be altered under its hash. Two accepted artifacts with the same hash are the
  same artifact, escrow result and row bindings included, or their two canonical texts are a
  collision of the hash function. The bindings are a JavaScript array, whose length is a safe integer.
\<close>

theorem artifact_hash_binds:
  assumes "parseNewsletterRetentionApplyArtifact sha v = Inr a" "parseNewsletterRetentionApplyArtifact sha w = Inr b"
    and "aa_hash a = aa_hash b"
    and "int (length (aa_bindings a)) \<le> max_safe" "int (length (aa_bindings b)) \<le> max_safe"
  shows "a = b \<or> (canonicalJson (payload_of a) \<noteq> canonicalJson (payload_of b)
     \<and> sha (canonicalJson (payload_of a)) = sha (canonicalJson (payload_of b)))"
proof -
  have "artifact_ok a" "artifact_ok b" "sha (canonicalJson (payload_of a)) = sha (canonicalJson (payload_of b))"
    using assms(1-3) normalizeApplyArtifact_ok unfolding parse_artifact_iff by auto
  then show ?thesis using artifact_text_inject [of a b] assms(3-5) by blast
qed

lemma artifact_hash_binds_witness:
  "canonicalJson (payload_of example_artifact)
     \<noteq> canonicalJson (payload_of (artifact_for (\<lambda>_. example_hash) example_manifest example_verification [lit ''s'']))"
proof -
  let ?b = "artifact_for (\<lambda>_. example_hash) example_manifest example_verification [lit ''s'']"
  have parses: "parseNewsletterRetentionApplyArtifact (\<lambda>_. example_hash)
      (artifact_object (artifact_for (\<lambda>_. example_hash) example_manifest example_verification [s])) =
      Inr (artifact_for (\<lambda>_. example_hash) example_manifest example_verification [s])" if "strict_text s" for s
  proof -
    have "artifact_ok (artifact_for (\<lambda>_. example_hash) example_manifest example_verification [s])"
      unfolding artifact_ok_def artifact_for_def apply_artifact.select_convs
      using that example_verification_ok example_hash_ok carried_manifest_ok [OF example_manifest_carried]
      by (intro conjI exI [of _ "[s]"]) (simp_all add: manifest_ok_def)
    then show ?thesis
      unfolding parse_artifact_iff
      by (intro conjI normalize_artifact_object) (simp_all add: artifact_for_def max_safe_def)
  qed
  have "strict_text (lit ''r'')" "strict_text (lit ''s'')"
    by (simp_all add: strict_text_def trim_idem_iff) (simp_all add: lit_def is_ws_def)
  moreover have "example_artifact \<noteq> ?b" by (simp add: example_artifact_def artifact_for_def lit_def)
  ultimately show ?thesis
    using artifact_hash_binds [OF parses [of "lit ''r''"] parses [of "lit ''s''"]]
    unfolding example_artifact_def by (auto simp: artifact_for_def max_safe_def)
qed

end
