(* ===== verification/Effects.thy ===== *)
theory Effects
  imports Prelude
begin

text \<open>
  Operations that read and change a state and may throw: \<open>('s, 'a) act\<close>. What was done to the state
  before a throw stays done; only a database transaction undoes it.
\<close>

type_synonym ('s, 'a) act = "'s \<Rightarrow> 'a res \<times> 's"

definition doneA :: "'a \<Rightarrow> ('s, 'a) act" where
  "doneA x s = (Inr x, s)"

definition throwA :: "exn \<Rightarrow> ('s, 'a) act" where
  "throwA e s = (Inl e, s)"

definition bindA :: "('s, 'a) act \<Rightarrow> ('a \<Rightarrow> ('s, 'b) act) \<Rightarrow> ('s, 'b) act" where
  "bindA m f s = (case m s of (Inl e, s') \<Rightarrow> (Inl e, s') | (Inr x, s') \<Rightarrow> f x s')"

text \<open>A computation that does not touch the state, and one that only reads it.\<close>

definition pureA :: "'a res \<Rightarrow> ('s, 'a) act" where
  "pureA r s = (r, s)"

definition readA :: "('s \<Rightarrow> 'a res) \<Rightarrow> ('s, 'a) act" where
  "readA f s = (f s, s)"

lemma act_simps [simp]:
  "doneA x s = (Inr x, s)" "throwA e s = (Inl e, s)" "pureA r s = (r, s)" "readA f s = (f s, s)"
  by (simp_all add: doneA_def throwA_def pureA_def readA_def)

lemma bindA_Inr_iff: "bindA m f s = (Inr y, s') \<longleftrightarrow> (\<exists>x s1. m s = (Inr x, s1) \<and> f x s1 = (Inr y, s'))"
  by (auto simp: bindA_def split: prod.splits sum.splits)

lemma bindA_Inl_iff:
  "bindA m f s = (Inl e, s') \<longleftrightarrow> m s = (Inl e, s') \<or> (\<exists>x s1. m s = (Inr x, s1) \<and> f x s1 = (Inl e, s'))"
  by (auto simp: bindA_def split: prod.splits sum.splits)

lemma bindA_Inr: "m s = (Inr x, s1) \<Longrightarrow> bindA m f s = f x s1"
  by (simp add: bindA_def)

lemma bindA_Inl: "m s = (Inl e, s1) \<Longrightarrow> bindA m f s = (Inl e, s1)"
  by (simp add: bindA_def)

lemma bindA_act [simp]:
  "bindA (doneA x) f s = f x s" "bindA (throwA e) f s = (Inl e, s)"
  "bindA (pureA (Inr x)) f s = f x s" "bindA (pureA (Inl e)) f s = (Inl e, s)"
  by (simp_all add: bindA_def)

lemma bindA_assoc: "bindA (bindA m f) g = bindA m (\<lambda>x. bindA (f x) g)"
  by (rule ext) (simp add: bindA_def split: prod.split sum.split)

end
