(* ===== verification/RetentionApplier.thy ===== *)
theory RetentionApplier
  imports RetentionApply Effects
begin

text \<open>
  The destructive run (service/newsletter-retention-applier.ts): under the apply lock, one
  serializable transaction per bound batch, which reads the batch again, compares it line by line with
  the verified escrow file, deletes it and checks what is left. The database, the lock provider and
  the escrow file are parameters; the database is the state the operations run on.
\<close>

section \<open>Data\<close>

record receipt_batch =
  rb_manifestIndex :: int
  rb_batchId :: jstr
  rb_deletedNotificationCount :: int
  rb_deletedErrorCount :: int
  rb_deletedMessageCount :: int
  rb_deletedBatchCount :: int

record apply_receipt =
  rc_manifestHash :: jstr
  rc_artifactHash :: jstr
  rc_escrowContentHash :: jstr
  rc_schemaFingerprint :: jstr
  rc_siteId :: jstr
  rc_batches :: "receipt_batch list"

text \<open>A \<^verbatim>\<open>where\<close> of \<^verbatim>\<open>newsletterBatch.deleteMany\<close>; \<open>bw_created\<close> is a \<^verbatim>\<open>Date\<close>.\<close>

record batch_where =
  bw_id :: jstr
  bw_siteId :: jstr
  bw_batchId :: jstr
  bw_created :: "int option"

record 'db tx_client =
  tx_reads :: "'db \<Rightarrow> escrow_delegate"
  tx_newsletterBatch_deleteMany :: "batch_where \<Rightarrow> ('db, js) act"
  tx_newsletterBatch_count :: "jstr \<Rightarrow> jstr \<Rightarrow> 'db \<Rightarrow> js res"
  tx_newsletterMessages_deleteMany :: "jstr \<Rightarrow> ('db, js) act"
  tx_newsletterMessages_count :: "jstr \<Rightarrow> 'db \<Rightarrow> js res"
  tx_newsletterErrors_deleteMany :: "jstr \<Rightarrow> ('db, js) act"
  tx_newsletterErrors_count :: "jstr \<Rightarrow> 'db \<Rightarrow> js res"
  tx_newsletterNotifications_deleteMany :: "jstr list \<Rightarrow> ('db, js) act"
  tx_newsletterNotifications_count :: "jstr list \<Rightarrow> 'db \<Rightarrow> js res"

record 'db apply_database =
  db_client :: "'db tx_client"
  db_transaction :: "('db, receipt_batch) act \<Rightarrow> ('db, receipt_batch) act"

record 'lk lock_provider =
  lp_tryAcquire :: "string \<Rightarrow> ('lk, nat option) act"
  lp_release :: "nat \<Rightarrow> ('lk, unit) act"

record escrow_source =
  es_verification :: js
  es_readBatchRecords :: "(int \<Rightarrow> js res) option"

definition APPLY_LOCK_KEY :: string where "APPLY_LOCK_KEY = ''newsletter-retention-apply''"

section \<open>Checks\<close>

definition normalizeCount :: "js \<Rightarrow> string \<Rightarrow> int res" where
  "normalizeCount v field = safe_count v (Error (field @ '' must be a non-negative safe integer''))"

definition deleteAndValidateCount :: "('db, js) act \<Rightarrow> int \<Rightarrow> string \<Rightarrow> ('db, int) act" where
  "deleteAndValidateCount result expected field =
     bindA result (\<lambda>resolved.
       if \<not> is_object_not_array resolved then throwA (Error (field @ '' must return a {count} object''))
       else bindA (pureA (normalizeCount (get_prop resolved ''count'') (field @ ''.count''))) (\<lambda>n.
         if n \<noteq> expected then throwA (Error (field @ '' deleted unexpected number of rows'')) else doneA n))"

text \<open>\<^verbatim>\<open>if (await count !== 0) throw\<close>.\<close>

definition expect_none :: "('db \<Rightarrow> js res) \<Rightarrow> string \<Rightarrow> ('db, unit) act" where
  "expect_none count_query model = bindA (readA count_query) (\<lambda>n.
     if n \<noteq> jint 0 then throwA (Error (model @ '' postcondition failed'')) else doneA ())"

fun same_record_texts :: "escrow_record list \<Rightarrow> escrow_record list \<Rightarrow> unit res" where
  "same_record_texts (a # as) (e # es) =
     bindE (serializeNewsletterRetentionEscrowRecord (record_object a)) (\<lambda>x.
     bindE (serializeNewsletterRetentionEscrowRecord (record_object e)) (\<lambda>y.
       if x \<noteq> y then Inl (Error ''transactional escrow record mismatch'') else same_record_texts as es))"
| "same_record_texts _ _ = Inr ()"

definition assertExactEscrowBatchRecords :: "escrow_record list \<Rightarrow> escrow_record list \<Rightarrow> unit res" where
  "assertExactEscrowBatchRecords actual expected =
     (if length actual \<noteq> length expected then Inl (Error ''transactional escrow record count mismatch'')
      else same_record_texts actual expected)"

definition normalizeVerifiedEscrowSource :: "escrow_source option \<Rightarrow> apply_context \<Rightarrow> (int \<Rightarrow> js res) res" where
  "normalizeVerifiedEscrowSource v ctx = (case v of
     None \<Rightarrow> Inl (Error ''verified escrow source must be an object'')
   | Some source \<Rightarrow> (case es_readBatchRecords source of
       None \<Rightarrow> Inl (Error ''verified escrow source must provide readBatchRecords'')
     | Some read \<Rightarrow>
         bindE (parseNewsletterRetentionEscrowVerificationResult (es_verification source)) (\<lambda>verification.
           if json_stringify (verification_object verification)
                \<noteq> json_stringify (verification_object (aa_escrow (ctx_artifact ctx)))
           then Inl (Error ''verified escrow source commitment must match apply artifact'')
           else Inr read)))"

definition indexed_record :: "int \<Rightarrow> js \<Rightarrow> escrow_record res" where
  "indexed_record index row = bindE (parseNewsletterRetentionEscrowRecord row) (\<lambda>r.
     if manifest_index r \<noteq> index then Inl (Error ''verified escrow source manifest index mismatch'') else Inr r)"

definition readVerifiedBatchRecords :: "(int \<Rightarrow> js res) \<Rightarrow> int \<Rightarrow> manifest_batch \<Rightarrow> escrow_record list res" where
  "readVerifiedBatchRecords read index b =
     bindE (read index) (\<lambda>answer. case answer of
       JArr rows \<Rightarrow>
         bindE (safe_add 1 (mb_messageCount b) ''verified escrow batch record count'') (\<lambda>n.
         bindE (safe_add n (mb_errorCount b) ''verified escrow batch record count'') (\<lambda>n.
         bindE (safe_add n (mb_notificationCount b) ''verified escrow batch record count'') (\<lambda>n.
           if int (length rows) \<noteq> n then Inl (Error ''verified escrow source batch record count mismatch'')
           else mapE (indexed_record index) rows)))
     | _ \<Rightarrow> Inl (Error ''verified escrow source batch records must be an array''))"

section \<open>One batch, inside its transaction\<close>

text \<open>\<^verbatim>\<open>{ ...record, manifestIndex }\<close>.\<close>

fun with_index :: "int \<Rightarrow> escrow_record \<Rightarrow> escrow_record" where
  "with_index i (BatchRecord _ r) = BatchRecord i r"
| "with_index i (MessageRecord _ r) = MessageRecord i r"
| "with_index i (ErrorRecord _ r) = ErrorRecord i r"
| "with_index i (NotificationRecord _ r) = NotificationRecord i r"

fun message_id_of :: "escrow_record \<Rightarrow> jstr list" where
  "message_id_of (MessageRecord _ r) = [mr_messageId r]"
| "message_id_of _ = []"

definition policy_object :: "retention_policy \<Rightarrow> js" where
  "policy_object p = obj [(''siteId'', JStr (pol_siteId p)), (''cutoff'', JStr (pol_cutoff p)),
     (''dryRun'', JBool (pol_dryRun p)), (''maxBatches'', jint (pol_maxBatches p)),
     (''maxMessages'', jint (pol_maxMessages p)), (''policyVersion'', jint (pol_policyVersion p))]"

definition apply_candidate :: "apply_context \<Rightarrow> manifest_batch \<Rightarrow> jstr \<Rightarrow> candidate_record" where
  "apply_candidate ctx b recordId = \<lparr>cr_siteId = mf_siteId (ctx_manifest ctx), cr_batchRecordId = recordId,
     cr_batchId = mb_batchId b, cr_createdAt = mb_createdAt b, cr_messageCount = mb_messageCount b,
     cr_notificationCount = mb_notificationCount b, cr_errorCount = mb_errorCount b, cr_orphanCount = 0,
     cr_correlationComplete = True\<rparr>"

text \<open>The \<^verbatim>\<open>for await\<close> loop over the stream of one candidate.\<close>

definition read_actual_records ::
  "'db tx_client \<Rightarrow> apply_context \<Rightarrow> int \<Rightarrow> manifest_batch \<Rightarrow> jstr \<Rightarrow> 'db \<Rightarrow> escrow_record list res" where
  "read_actual_records tx ctx index b recordId s =
     (case streamNewsletterRetentionEscrowRecords (tx_reads tx s) (policy_object (ctx_policy ctx))
             (JArr [private_record_object (apply_candidate ctx b recordId)]) of
        (rs, Inl e) \<Rightarrow> Inl e
      | (rs, Inr _) \<Rightarrow> Inr (map (with_index index) rs))"

definition delete_batch_rows ::
  "'db tx_client \<Rightarrow> int \<Rightarrow> manifest_batch \<Rightarrow> batch_row \<Rightarrow> jstr list \<Rightarrow> ('db, receipt_batch) act" where
  "delete_batch_rows tx index b parent messageIds =
     bindA (if messageIds = [] then doneA 0
            else deleteAndValidateCount (tx_newsletterNotifications_deleteMany tx messageIds)
                   (mb_notificationCount b) ''newsletterNotifications.deleteMany'') (\<lambda>notifications.
     bindA (deleteAndValidateCount (tx_newsletterErrors_deleteMany tx (br_id parent))
              (mb_errorCount b) ''newsletterErrors.deleteMany'') (\<lambda>errors.
     bindA (deleteAndValidateCount (tx_newsletterMessages_deleteMany tx (br_id parent))
              (mb_messageCount b) ''newsletterMessages.deleteMany'') (\<lambda>messages.
     bindA (deleteAndValidateCount (tx_newsletterBatch_deleteMany tx
              \<lparr>bw_id = br_id parent, bw_siteId = br_siteId parent, bw_batchId = br_batchId parent,
               bw_created = date_parse (br_created parent)\<rparr>) 1 ''newsletterBatch.deleteMany'') (\<lambda>batches.
       doneA \<lparr>rb_manifestIndex = index, rb_batchId = mb_batchId b, rb_deletedNotificationCount = notifications,
              rb_deletedErrorCount = errors, rb_deletedMessageCount = messages, rb_deletedBatchCount = batches\<rparr>))))"

definition check_nothing_left :: "'db tx_client \<Rightarrow> batch_row \<Rightarrow> jstr list \<Rightarrow> ('db, unit) act" where
  "check_nothing_left tx parent messageIds =
     bindA (expect_none (tx_newsletterBatch_count tx (br_id parent) (br_siteId parent)) ''newsletterBatch'') (\<lambda>_.
     bindA (expect_none (tx_newsletterMessages_count tx (br_id parent)) ''newsletterMessages'') (\<lambda>_.
     bindA (expect_none (tx_newsletterErrors_count tx (br_id parent)) ''newsletterErrors'') (\<lambda>_.
       if messageIds = [] then doneA ()
       else bindA (expect_none (tx_newsletterNotifications_count tx messageIds) ''newsletterNotifications'') (\<lambda>_.
         expect_none (\<lambda>s. loader_newsletterNotificationOrphan_count (tx_reads tx s) \<lparr>oc_messageId_in = messageIds\<rparr>)
           ''newsletterNotificationOrphan''))))"

definition applyNewsletterRetentionBatch ::
  "'db tx_client \<Rightarrow> apply_context \<Rightarrow> int \<Rightarrow> manifest_batch \<Rightarrow> jstr \<Rightarrow> escrow_record list \<Rightarrow> ('db, receipt_batch) act" where
  "applyNewsletterRetentionBatch tx ctx index b recordId expected =
     bindA (readA (read_actual_records tx ctx index b recordId)) (\<lambda>actual.
     bindA (pureA (assertExactEscrowBatchRecords actual expected)) (\<lambda>_.
       case actual of
         BatchRecord _ parent # _ \<Rightarrow>
           let messageIds = concat (map message_id_of actual) in
           bindA (delete_batch_rows tx index b parent messageIds) (\<lambda>receipt.
           bindA (check_nothing_left tx parent messageIds) (\<lambda>_. doneA receipt))
       | _ \<Rightarrow> throwA (Error ''transactional escrow batch parent is missing'')))"

section \<open>The run\<close>

definition tryAcquireApplyLease :: "'lk lock_provider option \<Rightarrow> ('lk, nat) act" where
  "tryAcquireApplyLease lock lk = (case lock of
     None \<Rightarrow> (Inl (ApplyError ''newsletter retention apply lock provider is invalid'' 0 None), lk)
   | Some lp \<Rightarrow> (case lp_tryAcquire lp APPLY_LOCK_KEY lk of
       (Inr (Some lease), lk') \<Rightarrow> (Inr lease, lk')
     | (Inr None, lk') \<Rightarrow> (Inl (ApplyError ''newsletter retention apply lock is already held'' 0 None), lk')
     | (Inl (ApplyError m n i), lk') \<Rightarrow> (Inl (ApplyError m n i), lk')
     | (Inl _, lk') \<Rightarrow> (Inl (ApplyError ''newsletter retention apply lock acquisition failed'' 0 None), lk')))"

text \<open>
  The loop over the bindings: whether it ran to its end, the receipts of the committed batches and the
  last manifest index it started on.
\<close>

fun apply_bindings ::
  "'db apply_database \<Rightarrow> apply_context \<Rightarrow> (int \<Rightarrow> js res) \<Rightarrow> receipt_batch list \<Rightarrow> int option \<Rightarrow> apply_binding list
   \<Rightarrow> 'db \<Rightarrow> (bool \<times> receipt_batch list \<times> int option) \<times> 'db" where
  "apply_bindings db ctx read batches current [] s = ((True, batches, current), s)"
| "apply_bindings db ctx read batches current (bd # bds) s =
     (let index = ab_manifestIndex bd; b = mf_batches (ctx_manifest ctx) ! nat index in
      case readVerifiedBatchRecords read index b of
        Inl _ \<Rightarrow> ((False, batches, Some index), s)
      | Inr expected \<Rightarrow>
          (case db_transaction db
                  (applyNewsletterRetentionBatch (db_client db) ctx index b (ab_batchRecordId bd) expected) s of
             (Inl _, s') \<Rightarrow> ((False, batches, Some index), s')
           | (Inr r, s') \<Rightarrow> apply_bindings db ctx read
               (batches @ [r\<lparr>rb_manifestIndex := index, rb_batchId := mb_batchId b\<rparr>]) (Some index) bds s'))"

definition receipt_for :: "apply_context \<Rightarrow> receipt_batch list \<Rightarrow> apply_receipt" where
  "receipt_for ctx batches = \<lparr>rc_manifestHash = mf_hash (ctx_manifest ctx), rc_artifactHash = aa_hash (ctx_artifact ctx),
     rc_escrowContentHash = vr_contentHash (aa_escrow (ctx_artifact ctx)),
     rc_schemaFingerprint = vr_schemaFingerprint (aa_escrow (ctx_artifact ctx)),
     rc_siteId = mf_siteId (ctx_manifest ctx), rc_batches = batches\<rparr>"

text \<open>\<^verbatim>\<open>try\<close>, \<^verbatim>\<open>catch\<close> and \<^verbatim>\<open>finally\<close>: the outcome of the run and of the release of the lease.\<close>

definition run_outcome ::
  "apply_context \<Rightarrow> bool \<times> receipt_batch list \<times> int option \<Rightarrow> unit res \<Rightarrow> apply_receipt res" where
  "run_outcome ctx run released = (case run of (finished, batches, current) \<Rightarrow>
     let n = length batches in
     case released of
       Inl _ \<Rightarrow> if finished then Inl (ApplyError ''newsletter retention apply release failed'' n None)
                else Inl (ApplyError ''newsletter retention apply failed and lock release failed'' n current)
     | Inr _ \<Rightarrow> if finished then Inr (receipt_for ctx batches)
                else Inl (ApplyError ''newsletter retention apply failed'' n current))"

definition executeNewsletterRetentionApply ::
  "(jstr \<Rightarrow> jstr) \<Rightarrow> js \<Rightarrow> 'lk lock_provider option \<Rightarrow> 'db apply_database \<Rightarrow> escrow_source option
   \<Rightarrow> 'db \<times> 'lk \<Rightarrow> apply_receipt res \<times> 'db \<times> 'lk" where
  "executeNewsletterRetentionApply sha input lock db source w = (case w of (s, lk) \<Rightarrow>
     if \<not> is_object_not_array input
     then (Inl (Error ''newsletter retention apply input must be a plain object''), s, lk)
     else case bindE (parseNewsletterRetentionApplyContext sha input) (\<lambda>ctx.
                bindE (normalizeVerifiedEscrowSource source ctx) (\<lambda>read. Inr (ctx, read))) of
       Inl e \<Rightarrow> (Inl e, s, lk)
     | Inr (ctx, read) \<Rightarrow> (case tryAcquireApplyLease lock lk of
         (Inl e, lk1) \<Rightarrow> (Inl e, s, lk1)
       | (Inr lease, lk1) \<Rightarrow>
           (case apply_bindings db ctx read [] None (aa_bindings (ctx_artifact ctx)) s of
              (run, s') \<Rightarrow> (case lp_release (the lock) lease lk1 of
                 (released, lk2) \<Rightarrow> (run_outcome ctx run released, s', lk2)))))"

section \<open>The store\<close>

text \<open>
  What the run relies on of the database, seen as tables of rows. The client answers a query with the
  rows it selects, in an order of the server's own, an instant as a \<^verbatim>\<open>Date\<close> (the tables show it as its
  printed text), or it throws; \<^verbatim>\<open>deleteMany\<close> removes exactly the rows its \<^verbatim>\<open>where\<close> selects and answers with
  their number; a transaction takes effect as a whole or not at all, and it throws what it did not commit.
\<close>

record retention_tables =
  tb_batches :: "batch_row list"
  tb_messages :: "message_row list"
  tb_errors :: "error_row list"
  tb_notifications :: "notification_row list"
  tb_orphans :: "(jstr \<times> bool) list"

definition date_of :: "jstr \<Rightarrow> js \<Rightarrow> bool" where
  "date_of text v \<longleftrightarrow> (\<exists>t. v = JDate (Some t) \<and> text = to_iso t)"

definition batch_answer :: "js \<Rightarrow> batch_row \<Rightarrow> bool" where
  "batch_answer v r \<longleftrightarrow> (\<exists>c. date_of (br_created r) c \<and> v = obj [(''id'', JStr (br_id r)), (''siteId'', JStr (br_siteId r)),
     (''fromEmail'', JStr (br_fromEmail r)), (''contents'', JStr (br_contents r)), (''batchId'', JStr (br_batchId r)),
     (''created'', c)])"

definition message_answer :: "js \<Rightarrow> message_row \<Rightarrow> bool" where
  "message_answer v r \<longleftrightarrow> (\<exists>c. date_of (mr_created r) c \<and> v = obj [(''id'', JStr (mr_id r)),
     (''messageId'', JStr (mr_messageId r)), (''toEmail'', JStr (mr_toEmail r)),
     (''newsletterBatchId'', JStr (mr_newsletterBatchId r)), (''created'', c),
     (''formatedContents'', JStr (mr_formatedContents r)), (''recipientData'', nullable_string (mr_recipientData r))])"

definition error_answer :: "js \<Rightarrow> error_row \<Rightarrow> bool" where
  "error_answer v r \<longleftrightarrow> (\<exists>c. date_of (xr_created r) c \<and> v = obj [(''id'', JStr (xr_id r)),
     (''toEmail'', JStr (xr_toEmail r)), (''error'', JStr (xr_error r)), (''created'', c),
     (''newsletterBatchId'', JStr (xr_newsletterBatchId r)), (''messageId'', JStr (xr_messageId r)),
     (''formatedContents'', JStr (xr_formatedContents r)), (''recipientData'', nullable_string (xr_recipientData r))])"

definition notification_answer :: "js \<Rightarrow> notification_row \<Rightarrow> bool" where
  "notification_answer v r \<longleftrightarrow> (\<exists>c t. date_of (nr_created r) c \<and> date_of (nr_timestamp r) t \<and>
     v = obj [(''id'', JStr (nr_id r)), (''type'', JStr (nr_type r)), (''notificationId'', JStr (nr_notificationId r)),
       (''messageId'', JStr (nr_messageId r)), (''rawEvent'', JStr (nr_rawEvent r)), (''timestamp'', t), (''created'', c)])"

text \<open>\<^verbatim>\<open>findMany\<close> with \<^verbatim>\<open>take: n\<close> over the rows a query selects.\<close>

definition answers :: "(js \<Rightarrow> 'r \<Rightarrow> bool) \<Rightarrow> int \<Rightarrow> 'r list \<Rightarrow> js \<Rightarrow> bool" where
  "answers row_answer n rows v \<longleftrightarrow>
     (\<exists>vs rows'. v = JArr vs \<and> mset rows' = mset rows \<and> list_all2 row_answer vs (take (nat n) rows'))"

definition batch_messages :: "jstr \<Rightarrow> retention_tables \<Rightarrow> message_row list" where
  "batch_messages i t = filter (\<lambda>m. mr_newsletterBatchId m = i) (tb_messages t)"

definition batch_errors :: "jstr \<Rightarrow> retention_tables \<Rightarrow> error_row list" where
  "batch_errors i t = filter (\<lambda>e. xr_newsletterBatchId e = i) (tb_errors t)"

definition message_notifications :: "jstr set \<Rightarrow> retention_tables \<Rightarrow> notification_row list" where
  "message_notifications ms t = filter (\<lambda>n. nr_messageId n \<in> ms) (tb_notifications t)"

definition selected :: "batch_where \<Rightarrow> batch_row \<Rightarrow> bool" where
  "selected w r \<longleftrightarrow> br_id r = bw_id w \<and> br_siteId r = bw_siteId w \<and> br_batchId r = bw_batchId w
     \<and> (\<exists>t. bw_created w = Some t \<and> br_created r = to_iso t)"

definition count_object :: "nat \<Rightarrow> js" where
  "count_object n = obj [(''count'', jint (int n))]"

locale retention_store =
  fixes tx :: "'db tx_client"
    and transaction :: "('db, receipt_batch) act \<Rightarrow> ('db, receipt_batch) act"
    and tables :: "'db \<Rightarrow> retention_tables"
  assumes find_batch: "loader_newsletterBatch_findFirst (tx_reads tx s) bq = Inr v \<Longrightarrow> lb_select bq = BATCH_ROW_KEYS \<Longrightarrow>
      v = JNull \<or> (\<exists>r \<in> set (tb_batches (tables s)). br_id r = lb_id bq \<and> br_siteId r = lb_siteId bq \<and> batch_answer v r)"
    and find_messages: "loader_newsletterMessages_findMany (tx_reads tx s) q = Inr v \<Longrightarrow> lf_select q = MESSAGE_ROW_KEYS \<Longrightarrow>
      answers message_answer (lf_take q) (batch_messages (lf_newsletterBatchId q) (tables s)) v"
    and find_errors: "loader_newsletterErrors_findMany (tx_reads tx s) q = Inr v \<Longrightarrow> lf_select q = ERROR_ROW_KEYS \<Longrightarrow>
      answers error_answer (lf_take q) (batch_errors (lf_newsletterBatchId q) (tables s)) v"
    and find_notifications: "loader_newsletterNotifications_findMany (tx_reads tx s) q = Inr v \<Longrightarrow>
      lf_select q = NOTIFICATION_ROW_KEYS \<Longrightarrow> answers notification_answer (lf_take q)
        (message_notifications (mr_messageId ` set (batch_messages (lf_newsletterBatchId q) (tables s))) (tables s)) v"
    and delete_batch: "tx_newsletterBatch_deleteMany tx w s = (Inr v, s') \<Longrightarrow>
      v = count_object (length (filter (selected w) (tb_batches (tables s))))
      \<and> tables s' = (tables s)\<lparr>tb_batches := filter (\<lambda>r. \<not> selected w r) (tb_batches (tables s))\<rparr>"
    and delete_messages: "tx_newsletterMessages_deleteMany tx i s = (Inr v, s') \<Longrightarrow>
      v = count_object (length (batch_messages i (tables s)))
      \<and> tables s' = (tables s)\<lparr>tb_messages := filter (\<lambda>m. mr_newsletterBatchId m \<noteq> i) (tb_messages (tables s))\<rparr>"
    and delete_errors: "tx_newsletterErrors_deleteMany tx i s = (Inr v, s') \<Longrightarrow>
      v = count_object (length (batch_errors i (tables s)))
      \<and> tables s' = (tables s)\<lparr>tb_errors := filter (\<lambda>e. xr_newsletterBatchId e \<noteq> i) (tb_errors (tables s))\<rparr>"
    and delete_notifications: "tx_newsletterNotifications_deleteMany tx ms s = (Inr v, s') \<Longrightarrow>
      v = count_object (length (message_notifications (set ms) (tables s)))
      \<and> tables s' = (tables s)\<lparr>tb_notifications := filter (\<lambda>n. nr_messageId n \<notin> set ms) (tb_notifications (tables s))\<rparr>"
    and count_batches: "tx_newsletterBatch_count tx i site s = Inr v \<Longrightarrow>
      v = jint (int (length (filter (\<lambda>r. br_id r = i \<and> br_siteId r = site) (tb_batches (tables s)))))"
    and count_orphans: "loader_newsletterNotificationOrphan_count (tx_reads tx s) oq = Inr v \<Longrightarrow>
      v = jint (int (length (filter (\<lambda>(m, reconciled). m \<in> set (oc_messageId_in oq) \<and> \<not> reconciled) (tb_orphans (tables s)))))"
    and atomic: "transaction work s = (r, s') \<Longrightarrow>
      (\<exists>e. r = Inl e \<and> tables s' = tables s) \<or> (\<exists>x s1. r = Inr x \<and> work s = (Inr x, s1) \<and> tables s' = tables s1)"

section \<open>Exact rows\<close>

lemma nullable_string_inject: "nullable_string s = nullable_string t \<longleftrightarrow> s = t"
  by (cases s; cases t) (simp_all add: nullable_string_def)

lemma date_of_Inr: "date_of text v \<Longrightarrow> normalizePrismaDate v f = Inr s \<longleftrightarrow> s = text"
  by (auto simp: date_of_def normalizePrismaDate_def)

lemma loader_recipient: "EscrowLoader.normalizeRecipientData v = Inr s \<longleftrightarrow> v = nullable_string s"
  by (auto simp: EscrowLoader.normalizeRecipientData_def nullable_string_def split: js.splits option.splits)

lemmas loader_field_iffs = date_of_Inr loader_recipient nullable_string_inject normalizeStrictString_def
  EscrowLoader.normalizeString_def

lemma exact_batch_row: "batch_answer v r \<Longrightarrow> EscrowLoader.normalizeBatchRow v = Inr x \<Longrightarrow> x = r"
  by (cases r) (auto simp: batch_answer_def EscrowLoader.normalizeBatchRow_def loader_field_iffs)

lemma exact_message_row: "message_answer v r \<Longrightarrow> EscrowLoader.normalizeMessageRow j v = Inr x \<Longrightarrow> x = r"
  by (cases r) (auto simp: message_answer_def EscrowLoader.normalizeMessageRow_def loader_field_iffs)

lemma exact_error_row: "error_answer v r \<Longrightarrow> EscrowLoader.normalizeErrorRow j v = Inr x \<Longrightarrow> x = r"
  by (cases r) (auto simp: error_answer_def EscrowLoader.normalizeErrorRow_def loader_field_iffs)

lemma exact_notification_row: "notification_answer v r \<Longrightarrow> EscrowLoader.normalizeNotificationRow j v = Inr x \<Longrightarrow> x = r"
  by (cases r) (auto simp: notification_answer_def EscrowLoader.normalizeNotificationRow_def loader_field_iffs)

lemma exact_rows:
  "check_rows model kn norm_row foreign ident key seenI seenK previous i vs = Inr rows \<Longrightarrow> list_all2 ans vs xs \<Longrightarrow>
     (\<And>j v x r. ans v x \<Longrightarrow> norm_row j v = Inr r \<Longrightarrow> r = x) \<Longrightarrow> rows = xs"
proof (induction vs arbitrary: seenI seenK previous i rows xs)
  case (Cons v vs)
  from Cons.prems(2) obtain x xs' where xs: "xs = x # xs'" "ans v x" "list_all2 ans vs xs'"
    by (auto simp: list_all2_Cons1)
  from Cons.prems(1) obtain row rest where row: "norm_row i v = Inr row" "rows = row # rest"
      "check_rows model kn norm_row foreign ident key (insert (ident row) seenI) (insert (key row) seenK)
         (Some (ident row)) (Suc i) vs = Inr rest"
    by (auto split: option.splits if_splits)
  show ?case using Cons.IH [OF row(3) xs(3) Cons.prems(3)] Cons.prems(3) [OF xs(2) row(1)] by (simp add: row(2) xs(1))
qed simp

text \<open>A query for one row more than expected that returns the expected number returns all rows.\<close>

lemma exact_answer:
  assumes "expected_rows model v n (check_rows model kn norm_row foreign ident key {} {} None 0) = Inr rows"
    and "answers ans (n + 1) all v" and "\<And>j v x r. ans v x \<Longrightarrow> norm_row j v = Inr r \<Longrightarrow> r = x"
  shows "mset rows = mset all"
proof -
  obtain vs where vs: "v = JArr vs" "int (length vs) = n"
      "check_rows model kn norm_row foreign ident key {} {} None 0 vs = Inr rows"
    using expected_rows_Inr [OF assms(1)] by blast
  obtain rows' where rows': "mset rows' = mset all" "list_all2 ans vs (take (nat (n + 1)) rows')"
    using assms(2) by (auto simp: answers_def vs(1))
  have "length (take (nat (n + 1)) rows') = length vs" using rows'(2) by (simp add: list_all2_lengthD)
  then have "take (nat (n + 1)) rows' = rows'" using vs(2) by (simp add: min_def split: if_splits)
  then have "rows = rows'" using exact_rows [OF vs(3) rows'(2) assms(3)] by simp
  then show ?thesis using rows'(1) by simp
qed

section \<open>Equal lines, equal records\<close>

lemma normalize_record_object_iff: "normalizeEscrowRecord (record_object r) = Inr x \<longleftrightarrow> x = r \<and> escrow_record_ok r"
proof
  assume run: "normalizeEscrowRecord (record_object r) = Inr x"
  have "x = r"
  proof (cases r)
    case (BatchRecord i b)
    then show ?thesis
      using run by (cases b) (auto simp: normalizeEscrowRecord_def exact_keys record_props Let_def field_iffs
          EscrowFormat.normalizeBatchRow_def, simp_all add: batch_row_object_def)
  next
    case (MessageRecord i b)
    then show ?thesis
      using run by (cases b) (auto simp: normalizeEscrowRecord_def exact_keys record_props Let_def field_iffs
          EscrowFormat.normalizeMessageRow_def, simp_all add: message_row_object_def nullable_string_inject)
  next
    case (ErrorRecord i b)
    then show ?thesis
      using run by (cases b) (auto simp: normalizeEscrowRecord_def exact_keys record_props Let_def field_iffs
          EscrowFormat.normalizeErrorRow_def, simp_all add: error_row_object_def nullable_string_inject)
  next
    case (NotificationRecord i b)
    then show ?thesis
      using run by (cases b) (auto simp: normalizeEscrowRecord_def exact_keys record_props Let_def field_iffs
          EscrowFormat.normalizeNotificationRow_def, simp_all add: notification_row_object_def)
  qed
  then show "x = r \<and> escrow_record_ok r" using normalize_record_ok [OF run] by simp
next
  assume "x = r \<and> escrow_record_ok r"
  then show "normalizeEscrowRecord (record_object r) = Inr x" by (simp add: normalize_record_object)
qed

lemma serialize_record_Inr_iff:
  "serializeNewsletterRetentionEscrowRecord (record_object r) = Inr t \<longleftrightarrow> escrow_record_ok r \<and> t = record_line r"
  by (auto simp: serializeNewsletterRetentionEscrowRecord_def normalize_record_object_iff)

lemma record_line_inject: "escrow_record_ok r \<Longrightarrow> escrow_record_ok q \<Longrightarrow> record_line r = record_line q \<longleftrightarrow> r = q"
  by (metis Inr_inject escrow_line.inject(3) parse_record_line)

lemma same_record_texts_iff:
  "length as = length es \<Longrightarrow> same_record_texts as es = Inr u \<longleftrightarrow> as = es \<and> list_all escrow_record_ok es"
  by (induction as es rule: list_induct2) (auto simp: serialize_record_Inr_iff record_line_inject if_Inr_iff)

lemma assertExact_iff: "assertExactEscrowBatchRecords as es = Inr u \<longleftrightarrow> as = es \<and> list_all escrow_record_ok es"
  by (auto simp: assertExactEscrowBatchRecords_def same_record_texts_iff)

section \<open>What a transaction reads\<close>

lemma private_record_props:
  "get_prop (private_record_object r) ''siteId'' = JStr (cr_siteId r)"
  "get_prop (private_record_object r) ''batchRecordId'' = JStr (cr_batchRecordId r)"
  "get_prop (private_record_object r) ''batchId'' = JStr (cr_batchId r)"
  "get_prop (private_record_object r) ''createdAt'' = JStr (cr_createdAt r)"
  "get_prop (private_record_object r) ''messageCount'' = jint (cr_messageCount r)"
  "get_prop (private_record_object r) ''notificationCount'' = jint (cr_notificationCount r)"
  "get_prop (private_record_object r) ''errorCount'' = jint (cr_errorCount r)"
  by (simp_all add: private_record_object_def)

lemma candidate_fields:
  assumes "normalizeCandidate (private_record_object r) siteId cutoff = Inr c"
  shows "lc_siteId c = cr_siteId r" "lc_batchRecordId c = cr_batchRecordId r" "lc_batchId c = cr_batchId r"
    "lc_createdAt c = cr_createdAt r" "lc_messageCount c = cr_messageCount r"
    "lc_notificationCount c = cr_notificationCount r" "lc_errorCount c = cr_errorCount r"
  using assms
  by (auto simp: normalizeCandidate_def private_record_props normalizeStrictString_def EscrowLoader.normalizeUtcMillis_def
      EscrowLoader.normalizeCount_def if_Inr_iff)

lemma with_index_records: "map (with_index i) (batch_records j b) = batch_records i b"
  by (simp add: batch_records_def comp_def)

text \<open>The snapshot of one candidate that the transaction read.\<close>

definition snapshot_read :: "'db tx_client \<Rightarrow> apply_context \<Rightarrow> manifest_batch \<Rightarrow> jstr \<Rightarrow> 'db \<Rightarrow> escrow_batch \<Rightarrow> bool" where
  "snapshot_read tx ctx b recordId s eb \<longleftrightarrow> (\<exists>p c seen siteId. load_snapshot (tx_reads tx s) p no_keys c = Inr (eb, seen)
     \<and> candidate_ok siteId c \<and> lc_siteId c = mf_siteId (ctx_manifest ctx) \<and> lc_batchRecordId c = recordId
     \<and> lc_batchId c = mb_batchId b \<and> lc_createdAt c = mb_createdAt b \<and> lc_messageCount c = mb_messageCount b
     \<and> lc_notificationCount c = mb_notificationCount b \<and> lc_errorCount c = mb_errorCount b)"

lemma read_actual_snapshot:
  assumes "read_actual_records tx ctx index b recordId s = Inr rs"
  shows "\<exists>eb. rs = batch_records index eb \<and> snapshot_read tx ctx b recordId s eb"
proof -
  let ?r = "apply_candidate ctx b recordId" and ?d = "tx_reads tx s"
  obtain p cs out where run: "normalizeCandidates (JArr [private_record_object ?r]) p = Inr cs"
      "stream_candidates ?d p no_keys 0 cs = (out, Inr ())" "rs = map (with_index index) out"
    using assms
    by (auto simp: read_actual_records_def streamNewsletterRetentionEscrowRecords_def bindE_def split: sum.splits prod.splits)
  obtain cutoff c where c: "normalizeCandidate (private_record_object ?r) (pol_siteId p) cutoff = Inr c" "cs = [c]"
    using run(1) by (auto simp: normalizeCandidates_def sort_by_def split: prod.splits)
  obtain eb seen where eb: "load_snapshot ?d p no_keys c = Inr (eb, seen)" "out = batch_records 0 eb"
    using run(2) by (auto simp: c(2) split: sum.splits prod.splits)
  have "snapshot_read tx ctx b recordId s eb"
    unfolding snapshot_read_def
    using eb(1) normalizeCandidate_ok [OF c(1)] candidate_fields [OF c(1)]
    by (intro exI [of _ p] exI [of _ c] exI [of _ seen] exI [of _ "pol_siteId p"]) (simp add: apply_candidate_def)
  then show ?thesis using eb(2) run(3) by (auto simp: with_index_records)
qed

lemma deleteAndValidate_Inr:
  "deleteAndValidateCount act n f s = (Inr k, s') \<Longrightarrow> \<exists>v. act s = (Inr v, s') \<and> get_prop v ''count'' = jint n \<and> k = n"
  by (auto simp: deleteAndValidateCount_def bindA_Inr_iff RetentionApplier.normalizeCount_def split: if_splits)

lemma count_object_prop: "get_prop (count_object k) ''count'' = jint n \<longleftrightarrow> int k = n"
  by (simp add: count_object_def) (metis of_int_eq_iff of_int_of_nat_eq)

lemma expect_none_Inr: "expect_none q m s = (Inr u, s') \<longleftrightarrow> q s = Inr (jint 0) \<and> s' = s"
  by (auto simp: expect_none_def bindA_Inr_iff split: if_splits)

definition remove_batch :: "escrow_batch \<Rightarrow> retention_tables \<Rightarrow> retention_tables" where
  "remove_batch b t = t\<lparr>
     tb_batches := filter (\<lambda>r. \<not> (br_id r = br_id (eb_row b) \<and> br_siteId r = br_siteId (eb_row b)
       \<and> br_batchId r = br_batchId (eb_row b) \<and> br_created r = br_created (eb_row b))) (tb_batches t),
     tb_messages := filter (\<lambda>m. mr_newsletterBatchId m \<noteq> br_id (eb_row b)) (tb_messages t),
     tb_errors := filter (\<lambda>e. xr_newsletterBatchId e \<noteq> br_id (eb_row b)) (tb_errors t),
     tb_notifications := filter (\<lambda>n. nr_messageId n \<notin> mr_messageId ` set (eb_messages b)) (tb_notifications t)\<rparr>"

text \<open>The batch is stored with exactly these rows, and no unreconciled orphan refers to its messages.\<close>

definition stored_batch :: "retention_tables \<Rightarrow> escrow_batch \<Rightarrow> bool" where
  "stored_batch t b \<longleftrightarrow> eb_row b \<in> set (tb_batches t)
     \<and> mset (eb_messages b) = mset (batch_messages (br_id (eb_row b)) t)
     \<and> mset (eb_errors b) = mset (batch_errors (br_id (eb_row b)) t)
     \<and> mset (eb_notifications b) = mset (message_notifications (mr_messageId ` set (eb_messages b)) t)
     \<and> (\<forall>(m, reconciled) \<in> set (tb_orphans t). m \<in> mr_messageId ` set (eb_messages b) \<longrightarrow> reconciled)"

definition receipt_of :: "int \<Rightarrow> manifest_batch \<Rightarrow> receipt_batch" where
  "receipt_of i b = \<lparr>rb_manifestIndex = i, rb_batchId = mb_batchId b, rb_deletedNotificationCount = mb_notificationCount b,
     rb_deletedErrorCount = mb_errorCount b, rb_deletedMessageCount = mb_messageCount b, rb_deletedBatchCount = 1\<rparr>"

definition batch_applied ::
  "apply_context \<Rightarrow> (int \<Rightarrow> js res) \<Rightarrow> apply_binding \<Rightarrow> retention_tables \<Rightarrow> retention_tables \<Rightarrow> bool" where
  "batch_applied ctx read bd t t' \<longleftrightarrow>
     (let i = ab_manifestIndex bd; b = mf_batches (ctx_manifest ctx) ! nat i in
      \<exists>eb. readVerifiedBatchRecords read i b = Inr (batch_records i eb)
        \<and> br_id (eb_row eb) = ab_batchRecordId bd \<and> br_siteId (eb_row eb) = mf_siteId (ctx_manifest ctx)
        \<and> br_batchId (eb_row eb) = mb_batchId b \<and> br_created (eb_row eb) = mb_createdAt b
        \<and> int (length (eb_messages eb)) = mb_messageCount b \<and> int (length (eb_errors eb)) = mb_errorCount b
        \<and> int (length (eb_notifications eb)) = mb_notificationCount b
        \<and> stored_batch t eb \<and> t' = remove_batch eb t)"

fun applied :: "apply_context \<Rightarrow> (int \<Rightarrow> js res) \<Rightarrow> apply_binding list \<Rightarrow> retention_tables \<Rightarrow> retention_tables \<Rightarrow> bool" where
  "applied ctx read [] t t' \<longleftrightarrow> t' = t"
| "applied ctx read (bd # bds) t t' \<longleftrightarrow> (\<exists>u. batch_applied ctx read bd t u \<and> applied ctx read bds u t')"

lemma message_ids_of_batch: "concat (map message_id_of (batch_records i b)) = map mr_messageId (eb_messages b)"
  by (simp add: batch_records_def comp_def concat_map_singleton) 

context retention_store
begin

lemma snapshot_stored:
  assumes "snapshot_read tx ctx b recordId s eb"
  shows "eb_row eb \<in> set (tb_batches (tables s))" "br_id (eb_row eb) = recordId"
    "br_siteId (eb_row eb) = mf_siteId (ctx_manifest ctx)" "br_batchId (eb_row eb) = mb_batchId b"
    "br_created (eb_row eb) = mb_createdAt b"
    "mset (eb_messages eb) = mset (batch_messages recordId (tables s))"
    "mset (eb_errors eb) = mset (batch_errors recordId (tables s))"
    "mset (eb_notifications eb) = mset (message_notifications (mr_messageId ` set (eb_messages eb)) (tables s))"
    "int (length (eb_messages eb)) = mb_messageCount b" "int (length (eb_errors eb)) = mb_errorCount b"
    "int (length (eb_notifications eb)) = mb_notificationCount b"
    "printed_time (br_created (eb_row eb))"
proof -
  obtain p c seen siteId where load: "load_snapshot (tx_reads tx s) p no_keys c = Inr (eb, seen)"
      and ok: "candidate_ok siteId c" and c: "lc_siteId c = mf_siteId (ctx_manifest ctx)" "lc_batchRecordId c = recordId"
      "lc_batchId c = mb_batchId b" "lc_createdAt c = mb_createdAt b" "lc_messageCount c = mb_messageCount b"
      "lc_notificationCount c = mb_notificationCount b" "lc_errorCount c = mb_errorCount b"
    using assms unfolding snapshot_read_def by blast
  have start: "no_keys = keys_of []" by (simp add: no_keys_def keys_of_def)
  have loaded: "loaded_from c eb"
    using load_snapshot_ok [OF load [unfolded start] ok] by (simp add: ids_unique_def)
  then show "br_id (eb_row eb) = recordId" "br_siteId (eb_row eb) = mf_siteId (ctx_manifest ctx)"
    "br_batchId (eb_row eb) = mb_batchId b" "br_created (eb_row eb) = mb_createdAt b"
    "int (length (eb_messages eb)) = mb_messageCount b" "int (length (eb_errors eb)) = mb_errorCount b"
    "int (length (eb_notifications eb)) = mb_notificationCount b" "printed_time (br_created (eb_row eb))"
    using c ok by (simp_all add: loaded_from_def candidate_ok_def)
  obtain row ms es ns where parts: "loadBatchRow (tx_reads tx s) c p = Inr row" "loadMessageRows (tx_reads tx s) c = Inr ms"
      "loadErrorRows (tx_reads tx s) c = Inr es"
      "(if lc_messageCount c > 0 then loadNotificationRows (tx_reads tx s) c ms else Inr []) = Inr ns"
      "eb = \<lparr>eb_row = row, eb_messages = ms, eb_errors = es, eb_notifications = ns\<rparr>"
    using load unfolding load_snapshot_def bindE_Inr_iff by auto
  show "eb_row eb \<in> set (tb_batches (tables s))"
    using parts(1) find_batch exact_batch_row by (fastforce simp: loadBatchRow_def parts(5) if_Inr_iff)
  obtain v where v: "loader_newsletterMessages_findMany (tx_reads tx s)
        (child_query (lc_batchRecordId c) (lc_messageCount c) MESSAGE_ROW_KEYS) = Inr v"
      "EscrowLoader.normalizeMessageRows v (lc_messageCount c) (lc_batchRecordId c) = Inr ms"
    using parts(2) by (auto simp: loadMessageRows_def)
  have ms: "mset ms = mset (batch_messages recordId (tables s))"
    using find_messages [OF v(1)] v(2)
    by (intro exact_answer [where ans = message_answer, OF _ _ exact_message_row]) (auto simp: child_query_def EscrowLoader.normalizeMessageRows_def c(2))
  then show "mset (eb_messages eb) = mset (batch_messages recordId (tables s))" by (simp add: parts(5))
  obtain v where v: "loader_newsletterErrors_findMany (tx_reads tx s)
        (child_query (lc_batchRecordId c) (lc_errorCount c) ERROR_ROW_KEYS) = Inr v"
      "normalizeErrorRows v (lc_errorCount c) (lc_batchRecordId c) = Inr es"
    using parts(3) by (auto simp: loadErrorRows_def)
  have "mset es = mset (batch_errors recordId (tables s))"
    using find_errors [OF v(1)] v(2)
    by (intro exact_answer [where ans = error_answer, OF _ _ exact_error_row]) (auto simp: child_query_def normalizeErrorRows_def c(2))
  then show "mset (eb_errors eb) = mset (batch_errors recordId (tables s))" by (simp add: parts(5))
  show "mset (eb_notifications eb) = mset (message_notifications (mr_messageId ` set (eb_messages eb)) (tables s))"
  proof (cases "lc_messageCount c > 0")
    case True
    then obtain v where v: "loader_newsletterNotifications_findMany (tx_reads tx s)
          (child_query (lc_batchRecordId c) (lc_notificationCount c) NOTIFICATION_ROW_KEYS) = Inr v"
        "normalizeNotificationRows v (lc_notificationCount c) (mr_messageId ` set ms) = Inr ns"
      using parts(4) by (auto simp: loadNotificationRows_def)
    have "set ms = set (batch_messages recordId (tables s))" using ms by (metis set_mset_mset)
    then have "mset ns = mset (message_notifications (mr_messageId ` set ms) (tables s))"
      using find_notifications [OF v(1)] v(2)
      by (intro exact_answer [where ans = notification_answer, OF _ _ exact_notification_row]) (auto simp: child_query_def normalizeNotificationRows_def c(2))
    then show ?thesis by (simp add: parts(5))
  next
    case False
    then have "ns = []" "int (length ms) \<le> 0" using parts(4) loaded by (auto simp: parts(5) loaded_from_def)
    then have "ns = []" "ms = []" by simp_all
    then show ?thesis by (simp add: parts(5) message_notifications_def)
  qed
qed


lemma rows_deleted:
  assumes run: "delete_batch_rows tx index b parent ms s = (Inr r, s')"
    and parent: "printed_time (br_created parent)" and none: "ms = [] \<Longrightarrow> mb_notificationCount b = 0"
  shows "r = receipt_of index b"
    "tables s' = (tables s)\<lparr>
       tb_batches := filter (\<lambda>r. \<not> (br_id r = br_id parent \<and> br_siteId r = br_siteId parent
         \<and> br_batchId r = br_batchId parent \<and> br_created r = br_created parent)) (tb_batches (tables s)),
       tb_messages := filter (\<lambda>m. mr_newsletterBatchId m \<noteq> br_id parent) (tb_messages (tables s)),
       tb_errors := filter (\<lambda>e. xr_newsletterBatchId e \<noteq> br_id parent) (tb_errors (tables s)),
       tb_notifications := filter (\<lambda>n. nr_messageId n \<notin> set ms) (tb_notifications (tables s))\<rparr>"
proof -
  define w where "w = \<lparr>bw_id = br_id parent, bw_siteId = br_siteId parent, bw_batchId = br_batchId parent,
               bw_created = date_parse (br_created parent)\<rparr>"
  obtain k1 k2 k3 k4 s1 s2 s3 where steps:
      "(if ms = [] then doneA 0 else deleteAndValidateCount (tx_newsletterNotifications_deleteMany tx ms)
          (mb_notificationCount b) ''newsletterNotifications.deleteMany'') s = (Inr k1, s1)"
      "deleteAndValidateCount (tx_newsletterErrors_deleteMany tx (br_id parent))
          (mb_errorCount b) ''newsletterErrors.deleteMany'' s1 = (Inr k2, s2)"
      "deleteAndValidateCount (tx_newsletterMessages_deleteMany tx (br_id parent))
          (mb_messageCount b) ''newsletterMessages.deleteMany'' s2 = (Inr k3, s3)"
      "deleteAndValidateCount (tx_newsletterBatch_deleteMany tx w) 1 ''newsletterBatch.deleteMany'' s3 = (Inr k4, s')"
      "r = \<lparr>rb_manifestIndex = index, rb_batchId = mb_batchId b, rb_deletedNotificationCount = k1,
              rb_deletedErrorCount = k2, rb_deletedMessageCount = k3, rb_deletedBatchCount = k4\<rparr>"
    using run unfolding delete_batch_rows_def w_def [symmetric] bindA_Inr_iff by auto
  have n: "k1 = mb_notificationCount b \<and>
      tables s1 = (tables s)\<lparr>tb_notifications := filter (\<lambda>n. nr_messageId n \<notin> set ms) (tb_notifications (tables s))\<rparr>"
  proof (cases "ms = []")
    case True
    then show ?thesis using steps(1) none by simp
  next
    case False
    then show ?thesis using steps(1) delete_notifications by (auto dest!: deleteAndValidate_Inr)
  qed
  note e = deleteAndValidate_Inr [OF steps(2)] and m = deleteAndValidate_Inr [OF steps(3)]
    and d = deleteAndValidate_Inr [OF steps(4)]
  show "r = receipt_of index b" using n e m d by (auto simp: steps(5) receipt_of_def)
  obtain t where t: "br_created parent = to_iso t" "in_iso_range t" using parent by (auto simp: printed_time_def)
  have "selected w r \<longleftrightarrow> br_id r = br_id parent \<and> br_siteId r = br_siteId parent
         \<and> br_batchId r = br_batchId parent \<and> br_created r = br_created parent" for r
    using t by (simp add: selected_def w_def date_parse_to_iso)
  then show "tables s' = (tables s)\<lparr>
       tb_batches := filter (\<lambda>r. \<not> (br_id r = br_id parent \<and> br_siteId r = br_siteId parent
         \<and> br_batchId r = br_batchId parent \<and> br_created r = br_created parent)) (tb_batches (tables s)),
       tb_messages := filter (\<lambda>m. mr_newsletterBatchId m \<noteq> br_id parent) (tb_messages (tables s)),
       tb_errors := filter (\<lambda>e. xr_newsletterBatchId e \<noteq> br_id parent) (tb_errors (tables s)),
       tb_notifications := filter (\<lambda>n. nr_messageId n \<notin> set ms) (tb_notifications (tables s))\<rparr>"
    using n e m d delete_errors delete_messages delete_batch by fastforce
qed


lemma batch_committed:
  assumes run: "applyNewsletterRetentionBatch tx ctx index b recordId expected s = (Inr r, s')"
  shows "\<exists>eb. expected = batch_records index eb \<and> br_id (eb_row eb) = recordId
        \<and> br_siteId (eb_row eb) = mf_siteId (ctx_manifest ctx) \<and> br_batchId (eb_row eb) = mb_batchId b
        \<and> br_created (eb_row eb) = mb_createdAt b \<and> int (length (eb_messages eb)) = mb_messageCount b
        \<and> int (length (eb_errors eb)) = mb_errorCount b \<and> int (length (eb_notifications eb)) = mb_notificationCount b
        \<and> stored_batch (tables s) eb \<and> tables s' = remove_batch eb (tables s) \<and> r = receipt_of index b"
proof -
  obtain actual where actual: "read_actual_records tx ctx index b recordId s = Inr actual" "actual = expected"
      "(case actual of BatchRecord _ parent # _ \<Rightarrow>
           let messageIds = concat (map message_id_of actual) in
           bindA (delete_batch_rows tx index b parent messageIds) (\<lambda>receipt.
           bindA (check_nothing_left tx parent messageIds) (\<lambda>_. doneA receipt))
       | _ \<Rightarrow> throwA (Error ''transactional escrow batch parent is missing'')) s = (Inr r, s')"
    using run unfolding applyNewsletterRetentionBatch_def bindA_Inr_iff by (auto simp: assertExact_iff)
  obtain eb where eb: "actual = batch_records index eb" "snapshot_read tx ctx b recordId s eb"
    using read_actual_snapshot [OF actual(1)] by blast
  note stored = snapshot_stored [OF eb(2)]
  let ?ms = "map mr_messageId (eb_messages eb)"
  obtain s1 where steps: "delete_batch_rows tx index b (eb_row eb) ?ms s = (Inr r, s1)"
      "check_nothing_left tx (eb_row eb) ?ms s1 = (Inr (), s')"
    using actual(3) message_ids_of_batch [of index eb]
    by (auto simp: eb(1) batch_records_def Let_def bindA_Inr_iff)
  have none: "mb_notificationCount b = 0" if "?ms = []"
    using stored(8,11) that by (simp add: message_notifications_def)
  note deleted = rows_deleted [OF steps(1) stored(12) none]
  have same: "s' = s1" and orphans: "?ms \<noteq> [] \<Longrightarrow>
      loader_newsletterNotificationOrphan_count (tx_reads tx s1) \<lparr>oc_messageId_in = ?ms\<rparr> = Inr (jint 0)"
    using steps(2) by (auto simp: check_nothing_left_def bindA_Inr_iff expect_none_Inr split: if_splits)
  have "reconciled" if o: "(m, reconciled) \<in> set (tb_orphans (tables s))" "m \<in> mr_messageId ` set (eb_messages eb)" for m reconciled
  proof (rule ccontr)
    assume "\<not> reconciled"
    then have "filter (\<lambda>(m, reconciled). m \<in> set ?ms \<and> \<not> reconciled) (tb_orphans (tables s)) \<noteq> []"
      using o by (auto simp: filter_empty_conv)
    moreover have "tb_orphans (tables s1) = tb_orphans (tables s)" using deleted(2) by simp
    moreover have "?ms \<noteq> []" using o(2) by auto
    ultimately show False using count_orphans [OF orphans] by simp
  qed
  then have "stored_batch (tables s) eb"
    using stored by (auto simp: stored_batch_def)
  moreover have "tables s' = remove_batch eb (tables s)"
    by (simp add: same deleted(2) remove_batch_def)
  ultimately show ?thesis
    using stored deleted(1) eb(1) actual(2) by (intro exI [of _ eb]) simp
qed

text \<open>The batches committed, one after the other.\<close>

lemma bindings_applied:
  assumes "db_client db = tx" "db_transaction db = transaction"
    and "apply_bindings db ctx read acc current bds s = ((finished, acc', current'), s')"
  shows "\<exists>n \<le> length bds. applied ctx read (take n bds) (tables s) (tables s')
     \<and> acc' = acc @ map (\<lambda>bd. receipt_of (ab_manifestIndex bd) (mf_batches (ctx_manifest ctx) ! nat (ab_manifestIndex bd))) (take n bds)
     \<and> (finished \<longleftrightarrow> n = length bds)
     \<and> (\<not> finished \<longrightarrow> current' = Some (ab_manifestIndex (bds ! n)))"
  using assms(3)
proof (induction bds arbitrary: acc current s)
  case (Cons bd bds)
  let ?i = "ab_manifestIndex bd" let ?b = "mf_batches (ctx_manifest ctx) ! nat ?i"
  show ?case
  proof (cases "readVerifiedBatchRecords read ?i ?b")
    case (Inl e)
    then show ?thesis using Cons.prems by (intro exI [of _ 0]) (auto simp: Let_def)
  next
    case (Inr expected)
    obtain r s1 where step: "transaction (applyNewsletterRetentionBatch tx ctx ?i ?b (ab_batchRecordId bd) expected) s = (r, s1)"
      by (cases "transaction (applyNewsletterRetentionBatch tx ctx ?i ?b (ab_batchRecordId bd) expected) s")
    show ?thesis
    proof (cases r)
      case (Inl e)
      then have "tables s1 = tables s" using atomic [OF step] by auto
      then show ?thesis using Cons.prems Inr step Inl assms(1,2) by (intro exI [of _ 0]) (auto simp: Let_def)
    next
      case (Inr x)
      then obtain s2 where work: "applyNewsletterRetentionBatch tx ctx ?i ?b (ab_batchRecordId bd) expected s = (Inr x, s2)"
          "tables s1 = tables s2"
        using atomic [OF step] by auto
      have first: "batch_applied ctx read bd (tables s) (tables s1)" "x = receipt_of ?i ?b"
        using batch_committed [OF work(1)] work(2) \<open>readVerifiedBatchRecords read ?i ?b = Inr expected\<close>
        by (auto simp: batch_applied_def Let_def)
      have "apply_bindings db ctx read (acc @ [receipt_of ?i ?b]) (Some ?i) bds s1 = ((finished, acc', current'), s')"
        using Cons.prems \<open>readVerifiedBatchRecords read ?i ?b = Inr expected\<close> step Inr assms(1,2) first(2)
        by (simp add: Let_def receipt_of_def)
      from Cons.IH [OF this] obtain n where n: "n \<le> length bds" "applied ctx read (take n bds) (tables s1) (tables s')"
          "acc' = (acc @ [receipt_of ?i ?b]) @ map (\<lambda>bd. receipt_of (ab_manifestIndex bd)
              (mf_batches (ctx_manifest ctx) ! nat (ab_manifestIndex bd))) (take n bds)"
          "finished \<longleftrightarrow> n = length bds" "\<not> finished \<longrightarrow> current' = Some (ab_manifestIndex (bds ! n))"
        by blast
      then show ?thesis using first(1) by (intro exI [of _ "Suc n"]) auto
    qed
  qed
qed (auto intro: exI [of _ 0])

end

section \<open>The whole run\<close>

text \<open>How many batches a result says were deleted.\<close>

fun completed :: "apply_receipt res \<Rightarrow> nat" where
  "completed (Inr rc) = length (rc_batches rc)"
| "completed (Inl (ApplyError m n i)) = n"
| "completed (Inl _) = 0"

lemma completed_outcome: "completed (run_outcome ctx (finished, batches, current) released) = length batches"
  by (auto simp: run_outcome_def receipt_for_def Let_def split: sum.split)

definition applied_so_far ::
  "(jstr \<Rightarrow> jstr) \<Rightarrow> js \<Rightarrow> escrow_source option \<Rightarrow> apply_receipt res \<Rightarrow> retention_tables \<Rightarrow> retention_tables \<Rightarrow> bool" where
  "applied_so_far sha input source r t t' \<longleftrightarrow> (\<exists>ctx src read. parseNewsletterRetentionApplyContext sha input = Inr ctx
     \<and> source = Some src \<and> es_readBatchRecords src = Some read
     \<and> completed r \<le> length (aa_bindings (ctx_artifact ctx))
     \<and> applied ctx read (take (completed r) (aa_bindings (ctx_artifact ctx))) t t'
     \<and> (\<forall>rc. r = Inr rc \<longrightarrow> rc = receipt_for ctx (map (\<lambda>bd. receipt_of (ab_manifestIndex bd)
           (mf_batches (ctx_manifest ctx) ! nat (ab_manifestIndex bd))) (aa_bindings (ctx_artifact ctx)))))"

lemma source_Inr:
  "normalizeVerifiedEscrowSource source ctx = Inr read \<Longrightarrow> \<exists>src. source = Some src \<and> es_readBatchRecords src = Some read"
  by (auto simp: normalizeVerifiedEscrowSource_def if_Inr_iff split: option.splits)

lemma lease_error: "tryAcquireApplyLease lock lk = (Inl e, lk') \<Longrightarrow> \<exists>m n i. e = ApplyError m n i"
  by (auto simp: tryAcquireApplyLease_def split: option.splits prod.splits sum.splits exn.splits)

text \<open>Every way a run can go.\<close>

lemma execute_cases:
  assumes "executeNewsletterRetentionApply sha input lock db source (s, lk) = (r, s', lk')"
  obtains (invalid) e where "r = Inl e" "s' = s" "lk' = lk"
  | (locked) e where "r = Inl e" "s' = s" "tryAcquireApplyLease lock lk = (Inl e, lk')"
  | (ran) ctx src read lease lk1 run released where "parseNewsletterRetentionApplyContext sha input = Inr ctx"
      "source = Some src" "es_readBatchRecords src = Some read" "tryAcquireApplyLease lock lk = (Inr lease, lk1)"
      "apply_bindings db ctx read [] None (aa_bindings (ctx_artifact ctx)) s = (run, s')"
      "lp_release (the lock) lease lk1 = (released, lk')" "r = run_outcome ctx run released"
proof (cases "bindE (parseNewsletterRetentionApplyContext sha input) (\<lambda>ctx.
                bindE (normalizeVerifiedEscrowSource source ctx) (\<lambda>read. Inr (ctx, read)))")
  case (Inl e)
  then have "r = Inl e \<or> r = Inl (Error ''newsletter retention apply input must be a plain object'')" "s' = s" "lk' = lk"
    using assms by (auto simp: executeNewsletterRetentionApply_def split: if_splits)
  then show ?thesis using invalid by blast
next
  case (Inr x)
  obtain ctx read where x: "x = (ctx, read)" by (cases x)
  then have parts: "parseNewsletterRetentionApplyContext sha input = Inr ctx" "normalizeVerifiedEscrowSource source ctx = Inr read"
    using Inr by auto
  show ?thesis
  proof (cases "is_object_not_array input")
    case False
    then show ?thesis using assms invalid by (auto simp: executeNewsletterRetentionApply_def)
  next
    case True
    obtain l lk1 where l: "tryAcquireApplyLease lock lk = (l, lk1)" by (cases "tryAcquireApplyLease lock lk")
    show ?thesis
    proof (cases l)
      case (Inl e)
      then show ?thesis using assms True Inr l locked by (auto simp: executeNewsletterRetentionApply_def x)
    next
      case lease: (Inr lease)
      obtain run s1 where run: "apply_bindings db ctx read [] None (aa_bindings (ctx_artifact ctx)) s = (run, s1)"
        by (cases "apply_bindings db ctx read [] None (aa_bindings (ctx_artifact ctx)) s")
      obtain released lk2 where rel: "lp_release (the lock) lease lk1 = (released, lk2)"
        by (cases "lp_release (the lock) lease lk1")
      have "r = run_outcome ctx run released" "s' = s1" "lk' = lk2"
        using assms True Inr l lease run rel by (auto simp: executeNewsletterRetentionApply_def x)
      then show ?thesis using ran parts source_Inr [OF parts(2)] l lease run rel by blast
    qed
  qed
qed

lemma run_deletes_escrowed:
  assumes store: "retention_store (db_client db) (db_transaction db) tables"
    and run: "executeNewsletterRetentionApply sha input lock db source (s, lk) = (r, s', lk')"
  shows "isl r \<and> tables s' = tables s \<or> applied_so_far sha input source r (tables s) (tables s')"
  using run
proof (cases rule: execute_cases)
  case (ran ctx src read lease lk1 run released)
  obtain finished acc current where r: "run = (finished, acc, current)" by (cases run)
  let ?bds = "aa_bindings (ctx_artifact ctx)"
  obtain n where n: "n \<le> length ?bds" "applied ctx read (take n ?bds) (tables s) (tables s')"
      "acc = map (\<lambda>bd. receipt_of (ab_manifestIndex bd) (mf_batches (ctx_manifest ctx) ! nat (ab_manifestIndex bd))) (take n ?bds)"
      "finished \<longleftrightarrow> n = length ?bds"
    using retention_store.bindings_applied [OF store refl refl ran(5) [unfolded r]] by auto
  have len: "completed r' = n" if "r' = run_outcome ctx (finished, acc, current) released" for r'
    using n(1) by (simp add: that completed_outcome n(3))
  show ?thesis
    using ran(1-3,7) n len
    by (auto simp: r applied_so_far_def run_outcome_def Let_def split: sum.splits if_splits)
qed auto

section \<open>A store in memory\<close>

text \<open>Tables that are their own database: queries sort by id, and a stored text that is no time makes a query throw.\<close>

definition date_js :: "jstr \<Rightarrow> js res" where
  "date_js text = (case date_parse text of
     Some t \<Rightarrow> if to_iso t = text then Inr (JDate (Some t)) else Inl (Error ''invalid date'')
   | None \<Rightarrow> Inl (Error ''invalid date''))"

definition batch_js :: "batch_row \<Rightarrow> js res" where
  "batch_js r = bindE (date_js (br_created r)) (\<lambda>c. Inr (obj [(''id'', JStr (br_id r)), (''siteId'', JStr (br_siteId r)),
     (''fromEmail'', JStr (br_fromEmail r)), (''contents'', JStr (br_contents r)), (''batchId'', JStr (br_batchId r)),
     (''created'', c)]))"

definition message_js :: "message_row \<Rightarrow> js res" where
  "message_js r = bindE (date_js (mr_created r)) (\<lambda>c. Inr (obj [(''id'', JStr (mr_id r)),
     (''messageId'', JStr (mr_messageId r)), (''toEmail'', JStr (mr_toEmail r)),
     (''newsletterBatchId'', JStr (mr_newsletterBatchId r)), (''created'', c),
     (''formatedContents'', JStr (mr_formatedContents r)), (''recipientData'', nullable_string (mr_recipientData r))]))"

definition error_js :: "error_row \<Rightarrow> js res" where
  "error_js r = bindE (date_js (xr_created r)) (\<lambda>c. Inr (obj [(''id'', JStr (xr_id r)),
     (''toEmail'', JStr (xr_toEmail r)), (''error'', JStr (xr_error r)), (''created'', c),
     (''newsletterBatchId'', JStr (xr_newsletterBatchId r)), (''messageId'', JStr (xr_messageId r)),
     (''formatedContents'', JStr (xr_formatedContents r)), (''recipientData'', nullable_string (xr_recipientData r))]))"

definition notification_js :: "notification_row \<Rightarrow> js res" where
  "notification_js r = bindE (date_js (nr_created r)) (\<lambda>c. bindE (date_js (nr_timestamp r)) (\<lambda>t.
     Inr (obj [(''id'', JStr (nr_id r)), (''type'', JStr (nr_type r)), (''notificationId'', JStr (nr_notificationId r)),
       (''messageId'', JStr (nr_messageId r)), (''rawEvent'', JStr (nr_rawEvent r)), (''timestamp'', t), (''created'', c)])))"

definition find_many :: "('r \<Rightarrow> js res) \<Rightarrow> ('r \<Rightarrow> jstr) \<Rightarrow> int \<Rightarrow> 'r list \<Rightarrow> js res" where
  "find_many row_js ident n rows = bindE (mapE row_js (take (nat n) (sort_key ident rows))) (\<lambda>vs. Inr (JArr vs))"

definition table_reads :: "retention_tables \<Rightarrow> escrow_delegate" where
  "table_reads t = \<lparr>
     loader_newsletterBatch_findFirst = (\<lambda>q. case List.find (\<lambda>r. br_id r = lb_id q \<and> br_siteId r = lb_siteId q) (tb_batches t) of
       None \<Rightarrow> Inr JNull | Some r \<Rightarrow> batch_js r),
     loader_newsletterMessages_findMany = (\<lambda>q. find_many message_js mr_id (lf_take q) (batch_messages (lf_newsletterBatchId q) t)),
     loader_newsletterErrors_findMany = (\<lambda>q. find_many error_js xr_id (lf_take q) (batch_errors (lf_newsletterBatchId q) t)),
     loader_newsletterNotifications_findMany = (\<lambda>q. find_many notification_js nr_id (lf_take q)
       (message_notifications (mr_messageId ` set (batch_messages (lf_newsletterBatchId q) t)) t)),
     loader_newsletterNotificationOrphan_count = (\<lambda>q. Inr (jint (int (length
       (filter (\<lambda>(m, reconciled). m \<in> set (oc_messageId_in q) \<and> \<not> reconciled) (tb_orphans t))))))\<rparr>"

definition bw_matches :: "batch_where \<Rightarrow> batch_row \<Rightarrow> bool" where
  "bw_matches w r \<longleftrightarrow> br_id r = bw_id w \<and> br_siteId r = bw_siteId w \<and> br_batchId r = bw_batchId w
     \<and> (case bw_created w of Some t \<Rightarrow> br_created r = to_iso t | None \<Rightarrow> False)"

definition table_client :: "retention_tables tx_client" where
  "table_client = \<lparr>
     tx_reads = table_reads,
     tx_newsletterBatch_deleteMany = (\<lambda>w t. (Inr (count_object (length (filter (bw_matches w) (tb_batches t)))),
       t\<lparr>tb_batches := filter (\<lambda>r. \<not> bw_matches w r) (tb_batches t)\<rparr>)),
     tx_newsletterBatch_count = (\<lambda>i site t. Inr (jint (int (length
       (filter (\<lambda>r. br_id r = i \<and> br_siteId r = site) (tb_batches t)))))),
     tx_newsletterMessages_deleteMany = (\<lambda>i t. (Inr (count_object (length (batch_messages i t))),
       t\<lparr>tb_messages := filter (\<lambda>m. mr_newsletterBatchId m \<noteq> i) (tb_messages t)\<rparr>)),
     tx_newsletterMessages_count = (\<lambda>i t. Inr (jint (int (length (batch_messages i t))))),
     tx_newsletterErrors_deleteMany = (\<lambda>i t. (Inr (count_object (length (batch_errors i t))),
       t\<lparr>tb_errors := filter (\<lambda>e. xr_newsletterBatchId e \<noteq> i) (tb_errors t)\<rparr>)),
     tx_newsletterErrors_count = (\<lambda>i t. Inr (jint (int (length (batch_errors i t))))),
     tx_newsletterNotifications_deleteMany = (\<lambda>ms t. (Inr (count_object (length (message_notifications (set ms) t))),
       t\<lparr>tb_notifications := filter (\<lambda>n. nr_messageId n \<notin> set ms) (tb_notifications t)\<rparr>)),
     tx_newsletterNotifications_count = (\<lambda>ms t. Inr (jint (int (length (message_notifications (set ms) t)))))\<rparr>"

definition table_transaction :: "(retention_tables, receipt_batch) act \<Rightarrow> (retention_tables, receipt_batch) act" where
  "table_transaction work t = (case work t of (Inr x, t') \<Rightarrow> (Inr x, t') | (Inl e, t') \<Rightarrow> (Inl e, t))"

lemma date_js_Inr: "date_js text = Inr v \<Longrightarrow> date_of text v"
  by (auto simp: date_js_def date_of_def split: option.splits if_splits)

lemma row_js_answer:
  "batch_js b = Inr v \<Longrightarrow> batch_answer v b" "message_js m = Inr v \<Longrightarrow> message_answer v m"
  "error_js e = Inr v \<Longrightarrow> error_answer v e" "notification_js n = Inr v \<Longrightarrow> notification_answer v n"
  by (auto simp: batch_js_def batch_answer_def message_js_def message_answer_def error_js_def error_answer_def
      notification_js_def notification_answer_def dest!: date_js_Inr)

lemma find_many_answers:
  assumes "find_many row_js ident n rows = Inr v" "\<And>r v. row_js r = Inr v \<Longrightarrow> ans v r"
  shows "answers ans n rows v"
proof -
  obtain vs where vs: "v = JArr vs" "mapE row_js (take (nat n) (sort_key ident rows)) = Inr vs"
    using assms(1) by (auto simp: find_many_def)
  have "list_all2 ans ws xs" if "mapE row_js xs = Inr ws" for xs ws
    using that assms(2) by (induction xs arbitrary: ws) auto
  then show ?thesis
    unfolding answers_def using vs by (intro exI [of _ vs] exI [of _ "sort_key ident rows"]) simp
qed

lemma bw_matches_selected: "bw_matches w = selected w"
  by (rule ext) (auto simp: bw_matches_def selected_def split: option.splits)

interpretation table_store: retention_store table_client table_transaction "\<lambda>t. t"
proof unfold_locales
  show "v = JNull \<or> (\<exists>r \<in> set (tb_batches s). br_id r = lb_id bq \<and> br_siteId r = lb_siteId bq \<and> batch_answer v r)"
    if "loader_newsletterBatch_findFirst (tx_reads table_client s) bq = Inr v" for s bq v
    using that by (auto simp: table_client_def table_reads_def find_Some_iff dest!: row_js_answer split: option.splits)
  show "answers message_answer (lf_take q) (batch_messages (lf_newsletterBatchId q) s) v"
    if "loader_newsletterMessages_findMany (tx_reads table_client s) q = Inr v" for s q v
    using that by (intro find_many_answers row_js_answer) (simp_all add: table_client_def table_reads_def)
  show "answers error_answer (lf_take q) (batch_errors (lf_newsletterBatchId q) s) v"
    if "loader_newsletterErrors_findMany (tx_reads table_client s) q = Inr v" for s q v
    using that by (intro find_many_answers row_js_answer) (simp_all add: table_client_def table_reads_def)
  show "answers notification_answer (lf_take q)
      (message_notifications (mr_messageId ` set (batch_messages (lf_newsletterBatchId q) s)) s) v"
    if "loader_newsletterNotifications_findMany (tx_reads table_client s) q = Inr v" for s q v
    using that by (intro find_many_answers row_js_answer) (simp_all add: table_client_def table_reads_def)
qed (auto simp: table_client_def table_reads_def table_transaction_def bw_matches_selected split: prod.splits sum.splits)

definition example_tables :: retention_tables where
  "example_tables = \<lparr>tb_batches = [example_batch_row], tb_messages = [example_message_row], tb_errors = [],
     tb_notifications = [example_notification_row], tb_orphans = []\<rparr>"

definition example_context :: "retention_evidence \<Rightarrow> apply_context" where
  "example_context e = \<lparr>ctx_policy = example_policy\<lparr>pol_dryRun := False\<rparr>, ctx_evidence = e, ctx_manifest = example_manifest,
     ctx_artifact = example_artifact\<rparr>"

definition example_context_input :: js where
  "example_context_input = context_input example_apply_policy example_evidence (manifest_object example_manifest)
     (artifact_object example_artifact)"

lemma example_context_parses:
  "\<exists>e. parseNewsletterRetentionApplyContext (\<lambda>_. example_hash) example_context_input = Inr (example_context e)"
proof -
  obtain e where e: "parseNewsletterRetentionEvidence example_evidence = Inr e" using example_evidence_accepted by blast
  have m: "get_prop example_build_input ''manifest'' = manifest_object example_manifest" by (simp add: example_build_input_def)
  then have "normalizeManifestForApply (\<lambda>_. example_hash) (get_prop example_build_input ''manifest'') = Inr example_manifest"
    using example_manifest_carried by (simp add: normalizeManifestForApply_iff)
  from built_context [OF example_builds example_hash_ok example_apply_policy_parses _ e this]
  show ?thesis
    unfolding example_context_input_def m example_context_def
    by (intro exI [of _ e]) (simp add: example_policy_def example_manifest_def example_apply_batch_def)
qed

lemma example_date_js: "date_js (to_iso 0) = Inr (JDate (Some 0))"
  using example_cutoff by (simp add: date_js_def date_parse_to_iso)

lemma example_reads:
  "loader_newsletterBatch_findFirst (table_reads example_tables)
     \<lparr>lb_id = lit ''r'', lb_siteId = lit ''site'', lb_select = ks\<rparr> = Inr (fst example_database_rows)"
  "loader_newsletterMessages_findMany (table_reads example_tables) (child_query (lit ''r'') 1 ks)
     = Inr (JArr [fst (snd example_database_rows)])"
  "loader_newsletterErrors_findMany (table_reads example_tables) (child_query (lit ''r'') 0 ks) = Inr (JArr [])"
  "loader_newsletterNotifications_findMany (table_reads example_tables) (child_query (lit ''r'') 1 ks)
     = Inr (JArr [snd (snd example_database_rows)])"
  "loader_newsletterNotificationOrphan_count (table_reads example_tables) oq = Inr (jint 0)"
  by (simp_all add: table_reads_def example_tables_def example_batch_row_def batch_js_def example_date_js
      example_database_rows_def find_many_def child_query_def batch_messages_def example_message_row_def message_js_def
      nullable_string_def batch_errors_def message_notifications_def example_notification_row_def notification_js_def)

lemma example_delegate_reads:
  "loader_newsletterBatch_findFirst example_escrow_delegate bq = Inr (fst example_database_rows)"
  "loader_newsletterMessages_findMany example_escrow_delegate q = Inr (JArr [fst (snd example_database_rows)])"
  "loader_newsletterErrors_findMany example_escrow_delegate q = Inr (JArr [])"
  "loader_newsletterNotifications_findMany example_escrow_delegate q = Inr (JArr [snd (snd example_database_rows)])"
  "loader_newsletterNotificationOrphan_count example_escrow_delegate oq = Inr (jint 0)"
  by (simp_all add: example_escrow_delegate_def split_beta)

lemma example_table_snapshot:
  "load_snapshot (table_reads example_tables) example_policy no_keys example_escrow_candidate
     = Inr (example_batch, keys_of [example_batch])"
proof -
  have "load_snapshot (table_reads example_tables) example_policy no_keys example_escrow_candidate
      = load_snapshot example_escrow_delegate example_policy no_keys example_escrow_candidate"
    unfolding load_snapshot_def loadBatchRow_def loadMessageRows_def loadErrorRows_def loadNotificationRows_def
      validateOrphanCount_def example_escrow_candidate_def escrow_candidate.select_convs example_reads
      example_delegate_reads ..
  then show ?thesis by (simp add: example_snapshot)
qed

lemma example_policy_object: "parseNewsletterRetentionPolicy (policy_object (example_policy\<lparr>pol_dryRun := False\<rparr>)) = Inr example_policy"
proof -
  have "parse_strict_utc (JStr (to_iso 86400000)) e = Inr 86400000" for e
    by (simp only: parse_strict_utc_Inr_iff) (simp add: example_cutoff)
  moreover have "RetentionPolicy.normalizeSiteId (JStr (lit ''site'')) = Inr (lit ''site'')"
    by (simp add: RetentionPolicy.normalizeSiteId_def example_trims)
  moreover have "clampPositiveInteger (jint n) d hi f t = Inr n" if "0 < n" "n \<le> hi" for n d hi f t
    using that clampPositiveInteger_Inr_iff by blast
  note this [of 10 100] this [of 1000 10000]
  ultimately show ?thesis
    by (simp add: parseNewsletterRetentionPolicy_def policy_object_def example_policy_def
        del: bindE_Inr_iff parse_strict_utc_Inr_iff)
qed

lemma example_read:
  "read_actual_records table_client (example_context e) 0 example_apply_batch (lit ''r'') example_tables
     = Inr (batch_records 0 example_batch)"
proof -
  have "private_record_object (apply_candidate (example_context e) example_apply_batch (lit ''r'')) = example_candidate_input"
    by (simp add: private_record_object_def apply_candidate_def example_context_def example_manifest_def
        example_apply_batch_def example_candidate_input_def)
  then show ?thesis
    using example_candidates example_table_snapshot example_policy_object
    by (simp add: read_actual_records_def streamNewsletterRetentionEscrowRecords_def example_context_def table_client_def
        with_index_records)
qed

lemma example_records_ok: "list_all escrow_record_ok (batch_records 0 example_batch)"
proof -
  have "list_all times_printed (batch_records 0 example_batch)"
    using example_times by simp
  moreover have "\<forall>r \<in> set (all_records 0 [example_batch]). times_printed r \<longrightarrow> escrow_record_ok r"
    using stream_is_valid [OF example_policy_parses example_stream] by blast
  ultimately show ?thesis by (auto simp: list_all_iff)
qed

definition example_empty :: retention_tables where
  "example_empty = \<lparr>tb_batches = [], tb_messages = [], tb_errors = [], tb_notifications = [], tb_orphans = []\<rparr>"

lemma example_batch_run:
  "applyNewsletterRetentionBatch table_client (example_context e) 0 example_apply_batch (lit ''r'')
      (batch_records 0 example_batch) example_tables = (Inr (receipt_of 0 example_apply_batch), example_empty)"
proof -
  have ids: "concat (map message_id_of (batch_records 0 example_batch)) = [lit ''m'']"
    unfolding message_ids_of_batch by (simp add: example_batch_def example_message_row_def)
  have date: "date_parse (to_iso 0) = Some 0" by (intro date_parse_to_iso example_cutoff)
  have counted: "deleteAndValidateCount act k field t = (Inr k, t')"
    if "act t = (Inr (count_object n), t')" "int n = k" "k \<le> max_safe" for act k field t t' n
  proof -
    have "get_prop (count_object n) ''count'' = jint k" "is_object_not_array (count_object n)"
      using that(2) by (simp_all add: count_object_def)
    moreover have "RetentionApplier.normalizeCount (jint k) g = Inr k" for g
      using that(2,3) by (simp only: RetentionApplier.normalizeCount_def safe_count_Inr_iff) simp
    ultimately show ?thesis using that(1) by (simp add: deleteAndValidateCount_def bindA_def)
  qed
  have other: "lit ''r'' \<noteq> lit ''m''" by (simp add: lit_def)
  let ?t1 = "example_tables\<lparr>tb_notifications := []\<rparr>" let ?t2 = "?t1\<lparr>tb_messages := []\<rparr>"
  have deletes: "deleteAndValidateCount (tx_newsletterNotifications_deleteMany table_client [lit ''m'']) 1 f1 example_tables = (Inr 1, ?t1)"
    "deleteAndValidateCount (tx_newsletterErrors_deleteMany table_client (lit ''r'')) 0 f2 ?t1 = (Inr 0, ?t1)"
    "deleteAndValidateCount (tx_newsletterMessages_deleteMany table_client (lit ''r'')) 1 f3 ?t1 = (Inr 1, ?t2)"
    "deleteAndValidateCount (tx_newsletterBatch_deleteMany table_client \<lparr>bw_id = lit ''r'', bw_siteId = lit ''site'',
        bw_batchId = lit ''b'', bw_created = Some 0\<rparr>) 1 f4 ?t2 = (Inr 1, example_empty)" for f1 f2 f3 f4
    by (rule counted [of _ _ 1] counted [of _ _ 0], simp_all add: table_client_def example_tables_def
        message_notifications_def example_notification_row_def batch_errors_def batch_messages_def example_message_row_def
        bw_matches_def example_batch_row_def example_empty_def max_safe_def)+
  have "delete_batch_rows table_client 0 example_apply_batch example_batch_row [lit ''m''] example_tables
      = (Inr (receipt_of 0 example_apply_batch), example_empty)"
    using deletes date
    by (simp add: delete_batch_rows_def bindA_def example_batch_row_def example_apply_batch_def receipt_of_def)
  moreover have "check_nothing_left table_client example_batch_row [lit ''m''] example_empty = (Inr (), example_empty)"
    by (simp add: check_nothing_left_def expect_none_def bindA_def table_client_def table_reads_def example_empty_def
        batch_messages_def batch_errors_def message_notifications_def)
  moreover have "assertExactEscrowBatchRecords (batch_records 0 example_batch) (batch_records 0 example_batch) = Inr ()"
    using example_records_ok by (simp add: assertExact_iff)
  ultimately show ?thesis
    using ids example_read [of e]
    by (simp add: applyNewsletterRetentionBatch_def bindA_def batch_records_def Let_def example_batch_def)
qed

definition example_source :: escrow_source where
  "example_source = \<lparr>es_verification = verification_object example_verification,
     es_readBatchRecords = Some (\<lambda>i. Inr (JArr (map record_object (batch_records i example_batch))))\<rparr>"

text \<open>A lock that one holder at a time may have.\<close>

definition example_lock :: "bool lock_provider" where
  "example_lock = \<lparr>lp_tryAcquire = (\<lambda>k held. if held then (Inr None, held) else (Inr (Some 0), True)),
     lp_release = (\<lambda>lease held. (Inr (), False))\<rparr>"

definition table_database :: "retention_tables apply_database" where
  "table_database = \<lparr>db_client = table_client, db_transaction = table_transaction\<rparr>"

text \<open>The example batch is removed by every source that serves its records.\<close>

lemma example_run_with:
  assumes e: "parseNewsletterRetentionApplyContext (\<lambda>_. example_hash) input = Inr (example_context e)" "is_object_not_array input"
    and src: "es_verification src = verification_object example_verification" "es_readBatchRecords src = Some read"
    and rows: "read 0 = Inr (JArr (map record_object (batch_records 0 example_batch)))"
  shows "\<exists>rc. executeNewsletterRetentionApply (\<lambda>_. example_hash) input (Some example_lock) table_database
     (Some src) (example_tables, False) = (Inr rc, example_empty, False)
     \<and> rc_batches rc = [receipt_of 0 example_apply_batch]"
proof -
  have source: "normalizeVerifiedEscrowSource (Some src) (example_context e) = Inr read"
    using parse_verification_object [OF example_verification_ok]
    by (simp add: normalizeVerifiedEscrowSource_def src example_context_def example_artifact_def artifact_for_def)
  have "mapE (indexed_record 0) (map record_object rs) = Inr rs"
    if "list_all escrow_record_ok rs" "\<forall>r \<in> set rs. manifest_index r = 0" for rs
    using that by (induction rs)
      (auto simp: indexed_record_def parseNewsletterRetentionEscrowRecord_def normalize_record_object)
  then have "mapE (indexed_record 0) (map record_object (batch_records 0 example_batch)) = Inr (batch_records 0 example_batch)"
    using example_records_ok index_in_batch by blast
  moreover have "length (batch_records 0 example_batch) = 3" by (simp add: batch_records_def example_batch_def)
  ultimately have expected: "readVerifiedBatchRecords read 0 example_apply_batch = Inr (batch_records 0 example_batch)"
    by (simp add: readVerifiedBatchRecords_def example_apply_batch_def safe_add_def max_safe_def rows)
  have bindings: "aa_bindings (ctx_artifact (example_context e)) = [\<lparr>ab_manifestIndex = 0, ab_batchRecordId = lit ''r''\<rparr>]"
    "mf_batches (ctx_manifest (example_context e)) = [example_apply_batch]"
    by (simp_all add: example_context_def example_artifact_def artifact_for_def example_manifest_def)
  have "apply_bindings table_database (example_context e) read [] None (aa_bindings (ctx_artifact (example_context e))) example_tables
      = ((True, [receipt_of 0 example_apply_batch], Some 0), example_empty)"
    using example_batch_run [of e] expected
    by (simp add: bindings table_database_def table_transaction_def receipt_of_def)
  then show ?thesis
    using e source
    by (simp add: executeNewsletterRetentionApply_def tryAcquireApplyLease_def example_lock_def run_outcome_def Let_def
        receipt_for_def)
qed

lemma example_run:
  "\<exists>rc. executeNewsletterRetentionApply (\<lambda>_. example_hash) example_context_input (Some example_lock) table_database
     (Some example_source) (example_tables, False) = (Inr rc, example_empty, False)
     \<and> rc_batches rc = [receipt_of 0 example_apply_batch]"
proof -
  obtain e where e: "parseNewsletterRetentionApplyContext (\<lambda>_. example_hash) example_context_input = Inr (example_context e)"
    using example_context_parses by blast
  show ?thesis
    by (rule example_run_with [OF e]) (simp_all add: example_context_input_def context_input_props example_source_def)
qed

section \<open>Properties\<close>

text \<open>
  C2: a destructive run removes exactly what the escrow file holds, batch by batch. Either nothing was
  touched and an error is reported, or the first \<open>n\<close> bound batches were removed, where \<open>n\<close> is the number
  of completed batches the result carries, an error included. Every removed batch was stored with
  exactly the rows of its verified escrow records (batch row, messages, errors and notifications), in
  the counts of the manifest, without unreconciled orphans; those rows are gone, and every other row of
  every table is as before. A receipt is returned only when all bound batches were removed, and it
  states those counts. The hypothesis is the documented behaviour of the database client: queries
  return the rows they select, \<^verbatim>\<open>deleteMany\<close> removes the rows it selects, transactions are atomic.
\<close>

theorem apply_removes_escrowed_batches:
  assumes "retention_store (db_client db) (db_transaction db) tables"
  shows "case executeNewsletterRetentionApply sha input lock db source (s, lk) of (r, s', lk') \<Rightarrow>
     isl r \<and> tables s' = tables s \<or> applied_so_far sha input source r (tables s) (tables s')"
proof -
  obtain r s' lk' where run: "executeNewsletterRetentionApply sha input lock db source (s, lk) = (r, s', lk')"
    using prod_cases3 by blast
  then show ?thesis using run_deletes_escrowed [OF assms run] by simp
qed

lemma apply_removes_escrowed_batches_witness:
  "\<exists>rc. applied_so_far (\<lambda>_. example_hash) example_context_input (Some example_source) (Inr rc) example_tables example_empty
     \<and> rc_batches rc = [receipt_of 0 example_apply_batch]"
proof -
  have "retention_store (db_client table_database) (db_transaction table_database) (\<lambda>t. t)"
    by (simp add: table_database_def table_store.retention_store_axioms)
  from apply_removes_escrowed_batches [OF this, where sha = "\<lambda>_. example_hash" and input = example_context_input
      and lock = "Some example_lock" and source = "Some example_source" and s = example_tables and lk = False] example_run
  show ?thesis by auto
qed

text \<open>
  C30: nothing is deleted without the lease, and the lease never outlives the run. Either no lease was
  obtained, and then the database was not touched and the result is an error; or the lock provider
  gave a lease and the last thing the run did with the lock was to release that lease, whether the run
  completed or failed; and when the release throws, the result is an error even after a complete run.
\<close>

theorem lease_covers_the_run:
  "case executeNewsletterRetentionApply sha input lock db source (s, lk) of (r, s', lk') \<Rightarrow>
     (isl r \<and> s' = s \<and> (lk' = lk \<or> (\<exists>e. tryAcquireApplyLease lock lk = (Inl e, lk') \<and> r = Inl e)))
     \<or> (\<exists>lp lease lk1. lock = Some lp \<and> lp_tryAcquire lp APPLY_LOCK_KEY lk = (Inr (Some lease), lk1)
          \<and> lk' = snd (lp_release lp lease lk1) \<and> (isl (fst (lp_release lp lease lk1)) \<longrightarrow> isl r))"
proof -
  obtain r s' lk' where run: "executeNewsletterRetentionApply sha input lock db source (s, lk) = (r, s', lk')"
    using prod_cases3 by blast
  then show ?thesis
  proof (cases rule: execute_cases)
    case (ran ctx src read lease lk1 rn released)
    have "\<exists>lp. lock = Some lp \<and> lp_tryAcquire lp APPLY_LOCK_KEY lk = (Inr (Some lease), lk1)"
      using ran(4) by (auto simp: tryAcquireApplyLease_def split: option.splits prod.splits sum.splits exn.splits)
    then obtain lp where lp: "lock = Some lp" "lp_tryAcquire lp APPLY_LOCK_KEY lk = (Inr (Some lease), lk1)" by blast
    have "isl r" if "isl released"
      using that by (cases released; cases rn) (auto simp: ran(7) run_outcome_def Let_def)
    then show ?thesis using lp ran(6) run by auto
  qed (use run in auto)
qed

lemma lease_covers_the_run_witness:
  "\<exists>lease held. lp_tryAcquire example_lock APPLY_LOCK_KEY False = (Inr (Some lease), held)
     \<and> snd (lp_release example_lock lease held) = False"
proof -
  obtain rc where run: "executeNewsletterRetentionApply (\<lambda>_. example_hash) example_context_input (Some example_lock) table_database
     (Some example_source) (example_tables, False) = (Inr rc, example_empty, False)"
    using example_run by blast
  show ?thesis
    using lease_covers_the_run [where sha = "\<lambda>_. example_hash" and input = example_context_input
      and lock = "Some example_lock" and db = table_database and source = "Some example_source"
      and s = example_tables and lk = False]
    unfolding run by auto
qed

end
