(* ===== verification/JsSplit.thy ===== *)
theory JsSplit
  imports JsNumber
begin

text \<open>Splitting and joining texts at a separator of one unit, and the POSIX paths of \<^verbatim>\<open>node:path\<close>.\<close>

section \<open>Split and join\<close>

fun split_unit :: "unit16 \<Rightarrow> jstr \<Rightarrow> jstr list" where
  "split_unit sep [] = [[]]"
| "split_unit sep (c # s) = (if c = sep then [] # split_unit sep s
     else case split_unit sep s of p # ps \<Rightarrow> (c # p) # ps | [] \<Rightarrow> [[c]])"

fun join_unit :: "unit16 \<Rightarrow> jstr list \<Rightarrow> jstr" where
  "join_unit sep [] = []"
| "join_unit sep [p] = p"
| "join_unit sep (p # q # ps) = p @ sep # join_unit sep (q # ps)"

lemma split_unit_not_Nil [simp]: "split_unit sep s \<noteq> []"
  by (induction s) (auto split: list.split)

lemma split_unit_absent: "sep \<notin> set s \<Longrightarrow> split_unit sep s = [s]"
  by (induction s) auto

lemma split_unit_append: "sep \<notin> set p \<Longrightarrow> split_unit sep (p @ sep # s) = p # split_unit sep s"
  by (induction p) auto

lemma split_unit_parts: "p \<in> set (split_unit sep s) \<Longrightarrow> sep \<notin> set p"
  by (induction s arbitrary: p) (auto split: list.splits if_splits)

lemma split_join: "ps \<noteq> [] \<Longrightarrow> \<forall>p \<in> set ps. sep \<notin> set p \<Longrightarrow> split_unit sep (join_unit sep ps) = ps"
  by (induction sep ps rule: join_unit.induct) (simp_all add: split_unit_absent split_unit_append)

lemma join_split: "join_unit sep (split_unit sep s) = s"
proof (induction s)
  case (Cons c s)
  obtain p ps where "split_unit sep s = p # ps" by (metis split_unit_not_Nil neq_Nil_conv)
  then show ?case using Cons by (cases ps) auto
qed simp

section \<open>Paths\<close>

definition is_absolute :: "jstr \<Rightarrow> bool" where
  "is_absolute path \<longleftrightarrow> path \<noteq> [] \<and> hd path = 47"

text \<open>The names of a path without empty and \<^verbatim>\<open>.\<close> ones; \<^verbatim>\<open>..\<close> takes the last name back, and stays at the root.\<close>

definition path_step :: "jstr list \<Rightarrow> jstr \<Rightarrow> jstr list" where
  "path_step names p = (if p = [] \<or> p = [46] then names else if p = [46, 46] then butlast names else names @ [p])"

text \<open>\<^verbatim>\<open>path.resolve\<close> of an absolute path.\<close>

definition posix_resolve :: "jstr \<Rightarrow> jstr" where
  "posix_resolve path = 47 # join_unit 47 (foldl path_step [] (split_unit 47 path))"

definition path_name :: "jstr \<Rightarrow> bool" where
  "path_name p \<longleftrightarrow> p \<noteq> [] \<and> p \<noteq> [46] \<and> p \<noteq> [46, 46] \<and> 47 \<notin> set p"

lemma foldl_path_names: "list_all path_name ps \<Longrightarrow> foldl path_step acc ps = acc @ ps"
  by (induction ps arbitrary: acc) (simp_all add: path_step_def path_name_def)

lemma foldl_path_step: "list_all path_name acc \<Longrightarrow> \<forall>p \<in> set ps. 47 \<notin> set p \<Longrightarrow> list_all path_name (foldl path_step acc ps)"
proof (induction ps arbitrary: acc)
  case (Cons p ps)
  have "list_all path_name (path_step acc p)"
    using Cons.prems by (auto simp: path_step_def path_name_def list_all_iff dest: in_set_butlastD)
  then show ?case using Cons by simp
qed simp

text \<open>The normalized absolute paths are the root followed by names.\<close>

lemma resolved_iff:
  "is_absolute p \<and> posix_resolve p = p \<longleftrightarrow> (\<exists>ps. list_all path_name ps \<and> p = 47 # join_unit 47 ps)"
proof
  assume "is_absolute p \<and> posix_resolve p = p"
  moreover have "list_all path_name (foldl path_step [] (split_unit 47 p))"
    using foldl_path_step [of "[]" "split_unit 47 p"] split_unit_parts by auto
  ultimately show "\<exists>ps. list_all path_name ps \<and> p = 47 # join_unit 47 ps"
    unfolding posix_resolve_def by metis
next
  assume "\<exists>ps. list_all path_name ps \<and> p = 47 # join_unit 47 ps"
  then obtain ps where ps: "list_all path_name ps" "p = 47 # join_unit 47 ps" by blast
  have "foldl path_step [] (split_unit 47 p) = ps"
  proof (cases "ps = []")
    case True
    then show ?thesis by (simp add: ps(2) path_step_def)
  next
    case False
    then have "split_unit 47 (join_unit 47 ps) = ps" using ps(1) by (intro split_join) (auto simp: list_all_iff path_name_def)
    then show ?thesis using foldl_path_names [OF ps(1), of "[]"] by (simp add: ps(2) path_step_def)
  qed
  then show "is_absolute p \<and> posix_resolve p = p" by (simp add: posix_resolve_def ps(2) is_absolute_def)
qed

end
