(* ===== verification/CliOptions.thy ===== *)
theory CliOptions
  imports JsonText JsSplit
begin

text \<open>
  The arguments of the retention command (\<^verbatim>\<open>parseCliOptions\<close> in service/newsletter-retention-cli.ts).
  A \<^verbatim>\<open>Map\<close> of flags is a map from names to \<open>FlagTrue\<close> or the text that follows the name.
\<close>

section \<open>Flags\<close>

datatype flag_value = FlagTrue | FlagText jstr

type_synonym flag_map = "jstr \<Rightarrow> flag_value option"

record cli_options =
  co_apply :: bool
  co_siteId :: jstr
  co_cutoff :: jstr
  co_maxBatches :: "int option"
  co_maxMessages :: "int option"
  co_evidenceFile :: jstr
  co_manifestOut :: "jstr option"
  co_privateArtifactOut :: "jstr option"
  co_escrowOut :: "jstr option"
  co_manifestFile :: "jstr option"
  co_privateArtifactFile :: "jstr option"
  co_escrowFile :: "jstr option"
  co_expectedManifestHash :: "jstr option"
  co_expectedArtifactHash :: "jstr option"
  co_expectedEscrowContentHash :: "jstr option"
  co_confirmSiteId :: "jstr option"

definition booleanFlags :: "jstr set" where
  "booleanFlags = {lit ''--apply''}"

definition valueFlags :: "jstr set" where
  "valueFlags = {lit ''--site-id'', lit ''--cutoff'', lit ''--max-batches'', lit ''--max-messages'', lit ''--evidence-file'',
     lit ''--manifest-out'', lit ''--private-artifact-out'', lit ''--escrow-out'', lit ''--manifest-file'',
     lit ''--private-artifact-file'', lit ''--escrow-file'', lit ''--expected-manifest-hash'',
     lit ''--expected-artifact-hash'', lit ''--expected-escrow-content-hash'', lit ''--confirm-site-id''}"

fun read_flags :: "flag_map \<Rightarrow> jstr list \<Rightarrow> flag_map res" where
  "read_flags flags [] = Inr flags"
| "read_flags flags (flag # rest) =
     (if flag \<notin> booleanFlags \<and> flag \<notin> valueFlags then Inl (CliError ''newsletter retention argument is unknown'')
      else if flags flag \<noteq> None then Inl (CliError ''newsletter retention argument is duplicated'')
      else if flag \<in> booleanFlags then read_flags (flags(flag \<mapsto> FlagTrue)) rest
      else (case rest of
          [] \<Rightarrow> Inl (CliError ''newsletter retention argument value is missing'')
        | v # rest' \<Rightarrow>
            if v = [] \<or> starts_with v (lit ''--'') then Inl (CliError ''newsletter retention argument value is missing'')
            else read_flags (flags(flag \<mapsto> FlagText v)) rest'))"

definition optionalStringFlag :: "flag_map \<Rightarrow> string \<Rightarrow> jstr option" where
  "optionalStringFlag flags flag = (case flags (lit flag) of Some (FlagText v) \<Rightarrow> Some v | _ \<Rightarrow> None)"

definition requireStringFlag :: "flag_map \<Rightarrow> string \<Rightarrow> jstr res" where
  "requireStringFlag flags flag = (case flags (lit flag) of
     Some (FlagText v) \<Rightarrow> if v = [] then Inl (CliError ''newsletter retention required argument is missing'') else Inr v
   | _ \<Rightarrow> Inl (CliError ''newsletter retention required argument is missing''))"

definition normalizeAbsolutePath :: "jstr \<Rightarrow> string \<Rightarrow> jstr res" where
  "normalizeAbsolutePath v field =
     (if v = [] \<or> trim v \<noteq> v \<or> \<not> is_absolute v \<or> posix_resolve v \<noteq> v
      then Inl (CliError (''newsletter retention '' @ field @ '' must be an absolute path'')) else Inr v)"

definition requireAbsolutePathFlag :: "flag_map \<Rightarrow> string \<Rightarrow> jstr res" where
  "requireAbsolutePathFlag flags flag =
     bindE (requireStringFlag flags flag) (\<lambda>v. normalizeAbsolutePath v ''argument path'')"

definition optionalAbsolutePathFlag :: "flag_map \<Rightarrow> string \<Rightarrow> jstr option res" where
  "optionalAbsolutePathFlag flags flag = (case optionalStringFlag flags flag of
     None \<Rightarrow> Inr None
   | Some v \<Rightarrow> bindE (normalizeAbsolutePath v ''argument path'') (\<lambda>p. Inr (Some p)))"

definition optionalPositiveIntegerFlag :: "flag_map \<Rightarrow> string \<Rightarrow> int option res" where
  "optionalPositiveIntegerFlag flags flag = (case optionalStringFlag flags flag of
     None \<Rightarrow> Inr None
   | Some v \<Rightarrow>
       if v = [] \<or> \<not> list_all is_digit v \<or> hd v = 48
       then Inl (CliError ''newsletter retention numeric argument is invalid'')
       else (case safe_digits v of
           None \<Rightarrow> Inl (CliError ''newsletter retention numeric argument is invalid'')
         | Some n \<Rightarrow> Inr (Some n)))"

definition optionalHashFlag :: "flag_map \<Rightarrow> string \<Rightarrow> jstr option res" where
  "optionalHashFlag flags flag = (case optionalStringFlag flags flag of
     None \<Rightarrow> Inr None
   | Some v \<Rightarrow> if is_hash64 v then Inr (Some v)
              else Inl (CliError ''newsletter retention expected hash argument is invalid''))"

section \<open>The options\<close>

text \<open>A member that is read as a condition: undefined and the empty text count as absent.\<close>

definition given :: "jstr option \<Rightarrow> bool" where
  "given v \<longleftrightarrow> (case v of None \<Rightarrow> False | Some s \<Rightarrow> s \<noteq> [])"

definition ensureDistinctPaths :: "jstr option list \<Rightarrow> unit res" where
  "ensureDistinctPaths paths = (let present = List.map_filter (\<lambda>p. p) paths in
     if distinct present then Inr () else Inl (CliError ''newsletter retention file paths must be distinct''))"

definition validateModeSpecificOptions :: "cli_options \<Rightarrow> unit res" where
  "validateModeSpecificOptions o' =
     (if \<not> co_apply o' then
        (if given (co_manifestFile o') \<or> given (co_privateArtifactFile o') \<or> given (co_escrowFile o')
            \<or> given (co_expectedManifestHash o') \<or> given (co_expectedArtifactHash o')
            \<or> given (co_expectedEscrowContentHash o') \<or> given (co_confirmSiteId o')
         then Inl (CliError ''apply-only arguments require --apply'')
         else if given (co_privateArtifactOut o') \<and> \<not> given (co_escrowOut o')
         then Inl (CliError ''private artifact output requires escrow output'')
         else ensureDistinctPaths [Some (co_evidenceFile o'), co_manifestOut o', co_privateArtifactOut o', co_escrowOut o'])
      else if given (co_manifestOut o') \<or> given (co_privateArtifactOut o') \<or> given (co_escrowOut o')
      then Inl (CliError ''dry-run output arguments cannot be used with --apply'')
      else if \<not> given (co_manifestFile o') \<or> \<not> given (co_privateArtifactFile o') \<or> \<not> given (co_escrowFile o')
          \<or> \<not> given (co_expectedManifestHash o') \<or> \<not> given (co_expectedArtifactHash o')
          \<or> \<not> given (co_expectedEscrowContentHash o') \<or> \<not> given (co_confirmSiteId o')
      then Inl (CliError ''apply requires manifest, private artifact, escrow, expected hashes, and tenant confirmation'')
      else if co_confirmSiteId o' \<noteq> Some (co_siteId o')
      then Inl (CliError ''apply tenant confirmation does not match siteId'')
      else ensureDistinctPaths [Some (co_evidenceFile o'), co_manifestFile o', co_privateArtifactFile o', co_escrowFile o'])"

definition options_of_flags :: "flag_map \<Rightarrow> cli_options res" where
  "options_of_flags flags =
     bindE (requireStringFlag flags ''--site-id'') (\<lambda>siteId.
     bindE (requireStringFlag flags ''--cutoff'') (\<lambda>cutoff.
     bindE (requireAbsolutePathFlag flags ''--evidence-file'') (\<lambda>evidenceFile.
     bindE (optionalPositiveIntegerFlag flags ''--max-batches'') (\<lambda>maxBatches.
     bindE (optionalPositiveIntegerFlag flags ''--max-messages'') (\<lambda>maxMessages.
     bindE (optionalAbsolutePathFlag flags ''--manifest-out'') (\<lambda>manifestOut.
     bindE (optionalAbsolutePathFlag flags ''--private-artifact-out'') (\<lambda>privateArtifactOut.
     bindE (optionalAbsolutePathFlag flags ''--escrow-out'') (\<lambda>escrowOut.
     bindE (optionalAbsolutePathFlag flags ''--manifest-file'') (\<lambda>manifestFile.
     bindE (optionalAbsolutePathFlag flags ''--private-artifact-file'') (\<lambda>privateArtifactFile.
     bindE (optionalAbsolutePathFlag flags ''--escrow-file'') (\<lambda>escrowFile.
     bindE (optionalHashFlag flags ''--expected-manifest-hash'') (\<lambda>manifestHash.
     bindE (optionalHashFlag flags ''--expected-artifact-hash'') (\<lambda>artifactHash.
     bindE (optionalHashFlag flags ''--expected-escrow-content-hash'') (\<lambda>escrowHash.
       Inr \<lparr>co_apply = (flags (lit ''--apply'') = Some FlagTrue), co_siteId = siteId, co_cutoff = cutoff,
         co_maxBatches = maxBatches, co_maxMessages = maxMessages, co_evidenceFile = evidenceFile,
         co_manifestOut = manifestOut, co_privateArtifactOut = privateArtifactOut, co_escrowOut = escrowOut,
         co_manifestFile = manifestFile, co_privateArtifactFile = privateArtifactFile, co_escrowFile = escrowFile,
         co_expectedManifestHash = manifestHash, co_expectedArtifactHash = artifactHash,
         co_expectedEscrowContentHash = escrowHash, co_confirmSiteId = optionalStringFlag flags ''--confirm-site-id''\<rparr>))))))))))))))"

definition parseCliOptions :: "jstr list \<Rightarrow> cli_options res" where
  "parseCliOptions argv =
     bindE (read_flags Map.empty argv) (\<lambda>flags.
     bindE (options_of_flags flags) (\<lambda>options.
     bindE (validateModeSpecificOptions options) (\<lambda>_. Inr options)))"


section \<open>Which options there are\<close>

definition argument_text :: "jstr \<Rightarrow> bool" where
  "argument_text v \<longleftrightarrow> v \<noteq> [] \<and> \<not> starts_with v (lit ''--'')"

definition path_ok :: "jstr \<Rightarrow> bool" where
  "path_ok p \<longleftrightarrow> trim p = p \<and> (\<exists>names. list_all path_name names \<and> p = 47 # join_unit 47 names)"

text \<open>The conditions on the members that do not depend on the mode.\<close>

definition members_ok :: "cli_options \<Rightarrow> bool" where
  "members_ok o' \<longleftrightarrow> argument_text (co_siteId o') \<and> argument_text (co_cutoff o') \<and> path_ok (co_evidenceFile o')
     \<and> pred_option (\<lambda>n. 1 \<le> n \<and> n \<le> max_safe) (co_maxBatches o') \<and> pred_option (\<lambda>n. 1 \<le> n \<and> n \<le> max_safe) (co_maxMessages o')
     \<and> list_all (pred_option path_ok) [co_manifestOut o', co_privateArtifactOut o', co_escrowOut o', co_manifestFile o',
         co_privateArtifactFile o', co_escrowFile o']
     \<and> list_all (pred_option is_hash64) [co_expectedManifestHash o', co_expectedArtifactHash o', co_expectedEscrowContentHash o']
     \<and> pred_option argument_text (co_confirmSiteId o')"

text \<open>The conditions of the mode.\<close>

definition mode_ok :: "cli_options \<Rightarrow> bool" where
  "mode_ok o' \<longleftrightarrow> (if co_apply o'
      then co_manifestOut o' = None \<and> co_privateArtifactOut o' = None \<and> co_escrowOut o' = None
        \<and> list_all (\<lambda>v. v \<noteq> None) [co_manifestFile o', co_privateArtifactFile o', co_escrowFile o', co_expectedManifestHash o',
             co_expectedArtifactHash o', co_expectedEscrowContentHash o']
        \<and> co_confirmSiteId o' = Some (co_siteId o')
        \<and> distinct (co_evidenceFile o' # List.map_filter (\<lambda>p. p) [co_manifestFile o', co_privateArtifactFile o', co_escrowFile o'])
      else list_all (\<lambda>v. v = None) [co_manifestFile o', co_privateArtifactFile o', co_escrowFile o', co_expectedManifestHash o',
             co_expectedArtifactHash o', co_expectedEscrowContentHash o', co_confirmSiteId o']
        \<and> (co_privateArtifactOut o' = None \<or> co_escrowOut o' \<noteq> None)
        \<and> distinct (co_evidenceFile o' # List.map_filter (\<lambda>p. p) [co_manifestOut o', co_privateArtifactOut o', co_escrowOut o']))"

definition cli_options_ok :: "cli_options \<Rightarrow> bool" where
  "cli_options_ok o' \<longleftrightarrow> members_ok o' \<and> mode_ok o'"

text \<open>The arguments that ask for given options.\<close>

definition option_table :: "cli_options \<Rightarrow> (jstr \<times> flag_value option) list" where
  "option_table o' =
     [(lit ''--apply'', if co_apply o' then Some FlagTrue else None),
      (lit ''--site-id'', Some (FlagText (co_siteId o'))), (lit ''--cutoff'', Some (FlagText (co_cutoff o'))),
      (lit ''--max-batches'', map_option (\<lambda>n. FlagText (dec_string n)) (co_maxBatches o')),
      (lit ''--max-messages'', map_option (\<lambda>n. FlagText (dec_string n)) (co_maxMessages o')),
      (lit ''--evidence-file'', Some (FlagText (co_evidenceFile o'))),
      (lit ''--manifest-out'', map_option FlagText (co_manifestOut o')),
      (lit ''--private-artifact-out'', map_option FlagText (co_privateArtifactOut o')),
      (lit ''--escrow-out'', map_option FlagText (co_escrowOut o')),
      (lit ''--manifest-file'', map_option FlagText (co_manifestFile o')),
      (lit ''--private-artifact-file'', map_option FlagText (co_privateArtifactFile o')),
      (lit ''--escrow-file'', map_option FlagText (co_escrowFile o')),
      (lit ''--expected-manifest-hash'', map_option FlagText (co_expectedManifestHash o')),
      (lit ''--expected-artifact-hash'', map_option FlagText (co_expectedArtifactHash o')),
      (lit ''--expected-escrow-content-hash'', map_option FlagText (co_expectedEscrowContentHash o')),
      (lit ''--confirm-site-id'', map_option FlagText (co_confirmSiteId o'))]"

fun table_arguments :: "(jstr \<times> flag_value option) list \<Rightarrow> jstr list" where
  "table_arguments [] = []"
| "table_arguments ((f, None) # t) = table_arguments t"
| "table_arguments ((f, Some FlagTrue) # t) = f # table_arguments t"
| "table_arguments ((f, Some (FlagText v)) # t) = f # v # table_arguments t"

definition option_arguments :: "cli_options \<Rightarrow> jstr list" where
  "option_arguments o' = table_arguments (option_table o')"

section \<open>Numbers as arguments\<close>

lemma positive_digits: "list_all is_digit v \<Longrightarrow> v \<noteq> [] \<Longrightarrow> hd v \<noteq> 48 \<Longrightarrow> 1 \<le> digits_value v"
proof (cases v)
  case (Cons c s)
  assume v: "list_all is_digit v" "hd v \<noteq> 48"
  have fold: "list_all is_digit s \<Longrightarrow> 1 \<le> n \<Longrightarrow> 1 \<le> foldl (\<lambda>n c. 10 * n + digit_value c) n s" for n s
  proof (induction s arbitrary: n)
    case (Cons d s)
    then have "1 \<le> 10 * n + digit_value d" using digit_value_bounds [of d] by auto
    then show ?case using Cons by simp
  qed simp
  have "is_digit c" using v(1) Cons by simp
  moreover have "digit_value c \<noteq> 0"
  proof
    assume "digit_value c = 0"
    then have "unat c = 48" unfolding digit_value_def by linarith
    then have "c = 48" by (metis of_nat_numeral of_nat_unat ucast_id)
    then show False using v(2) Cons by simp
  qed
  ultimately have "1 \<le> digit_value c" using digit_value_bounds [of c] by linarith
  then show ?thesis using v(1) Cons fold [of s "digit_value c"] by (simp add: digits_value_def)
qed simp

lemma number_flag_iff:
  "optionalPositiveIntegerFlag flags f = Inr r \<longleftrightarrow> (case optionalStringFlag flags f of None \<Rightarrow> r = None
     | Some v \<Rightarrow> v \<noteq> [] \<and> list_all is_digit v \<and> hd v \<noteq> 48 \<and> digits_value v \<le> max_safe \<and> r = Some (digits_value v))"
  by (auto simp: optionalPositiveIntegerFlag_def safe_digits_Some_iff is_digits_def split: option.splits)
    (auto simp: safe_digits_def is_digits_def split: if_splits)

lemma digit_not_dash: "is_digit c \<Longrightarrow> c \<noteq> 45"
  by (auto simp: is_digit_def)

lemma dec_string_argument:
  assumes "1 \<le> n" "n \<le> max_safe"
  shows "argument_text (dec_string n)" "dec_string n \<noteq> []" "list_all is_digit (dec_string n)" "digits_value (dec_string n) = n"
proof -
  show d: "dec_string n \<noteq> []" "list_all is_digit (dec_string n)" "digits_value (dec_string n) = n"
    using dec_string_digits [of n] assms by (simp_all add: is_digits_def)
  then obtain c s where "dec_string n = c # s" "is_digit c" by (cases "dec_string n") auto
  then show "argument_text (dec_string n)"
    using digit_not_dash by (auto simp: argument_text_def starts_with_def lit_def)
qed

section \<open>Reading the flags\<close>

definition flag_values_ok :: "flag_map \<Rightarrow> bool" where
  "flag_values_ok flags \<longleftrightarrow> (\<forall>f v. flags f = Some (FlagText v) \<longrightarrow> argument_text v)"

lemma read_flags_ok: "read_flags flags argv = Inr flags' \<Longrightarrow> flag_values_ok flags \<Longrightarrow> flag_values_ok flags'"
proof (induction flags argv rule: read_flags.induct)
  case (2 flags flag rest)
  show ?case
  proof (cases "flag \<in> booleanFlags")
    case True
    have "flag_values_ok (flags(flag \<mapsto> FlagTrue))" using 2(4) by (auto simp: flag_values_ok_def)
    then show ?thesis using 2(1,3) True by (auto simp: fun_upd_def split: if_splits)
  next
    case False
    then obtain v rest' where rest: "rest = v # rest'" "argument_text v" "read_flags (flags(flag \<mapsto> FlagText v)) rest' = Inr flags'"
        "flag \<in> valueFlags" "flags flag = None"
      using 2(3) by (auto simp: argument_text_def split: if_splits list.splits)
    have "flag_values_ok (flags(flag \<mapsto> FlagText v))" using 2(4) rest(2) by (auto simp: flag_values_ok_def)
    then show ?thesis using 2(2) rest False by (auto simp: argument_text_def fun_upd_def)
  qed
qed simp

definition table_row_ok :: "jstr \<times> flag_value option \<Rightarrow> bool" where
  "table_row_ok row = (case row of (f, v) \<Rightarrow> (case v of
     None \<Rightarrow> True | Some FlagTrue \<Rightarrow> f \<in> booleanFlags
   | Some (FlagText t) \<Rightarrow> f \<in> valueFlags \<and> f \<notin> booleanFlags \<and> argument_text t))"

definition table_flags :: "(jstr \<times> flag_value option) list \<Rightarrow> flag_map" where
  "table_flags t f = (case map_of t f of Some v \<Rightarrow> v | None \<Rightarrow> None)"

lemma read_table:
  "list_all table_row_ok t \<Longrightarrow> distinct (map fst t) \<Longrightarrow> \<forall>f \<in> fst ` set t. flags f = None \<Longrightarrow>
     read_flags flags (table_arguments t) = Inr (\<lambda>f. case map_of t f of Some (Some v) \<Rightarrow> Some v | _ \<Rightarrow> flags f)"
proof (induction t arbitrary: flags rule: table_arguments.induct)
  case 1
  then show ?case by simp
next
  case (2 f t)
  have "(\<lambda>g. case map_of t g of Some (Some v) \<Rightarrow> Some v | _ \<Rightarrow> flags g)
      = (\<lambda>g. case map_of ((f, None) # t) g of Some (Some v) \<Rightarrow> Some v | _ \<Rightarrow> flags g)"
    using 2(3,4) map_of_eq_None_iff [of t f] by (auto simp: fun_eq_iff split: option.splits)
  then show ?case using 2 by (simp add: table_row_ok_def)
next
  case (3 f t)
  have "(\<lambda>g. case map_of t g of Some (Some v) \<Rightarrow> Some v | _ \<Rightarrow> (flags(f \<mapsto> FlagTrue)) g)
      = (\<lambda>g. case map_of ((f, Some FlagTrue) # t) g of Some (Some v) \<Rightarrow> Some v | _ \<Rightarrow> flags g)"
    using 3(3,4) map_of_eq_None_iff [of t f] by (auto simp: fun_eq_iff split: option.splits)
  moreover have "read_flags (flags(f \<mapsto> FlagTrue)) (table_arguments t)
      = Inr (\<lambda>g. case map_of t g of Some (Some v) \<Rightarrow> Some v | _ \<Rightarrow> (flags(f \<mapsto> FlagTrue)) g)"
    using 3 by (intro 3(1)) auto
  ultimately show ?case using 3(2,4) by (simp add: table_row_ok_def)
next
  case (4 f v t)
  have "(\<lambda>g. case map_of t g of Some (Some v) \<Rightarrow> Some v | _ \<Rightarrow> (flags(f \<mapsto> FlagText v)) g)
      = (\<lambda>g. case map_of ((f, Some (FlagText v)) # t) g of Some (Some v) \<Rightarrow> Some v | _ \<Rightarrow> flags g)"
    using 4(3,4) map_of_eq_None_iff [of t f] by (auto simp: fun_eq_iff split: option.splits)
  moreover have "read_flags (flags(f \<mapsto> FlagText v)) (table_arguments t)
      = Inr (\<lambda>g. case map_of t g of Some (Some v) \<Rightarrow> Some v | _ \<Rightarrow> (flags(f \<mapsto> FlagText v)) g)"
    using 4 by (intro 4(1)) auto
  ultimately show ?case using 4(2,4) by (simp add: table_row_ok_def argument_text_def)
qed


section \<open>From flags to options\<close>

lemma path_ok_iff: "normalizeAbsolutePath v f = Inr p \<longleftrightarrow> p = v \<and> path_ok v"
  using resolved_iff [of v] by (auto simp: normalizeAbsolutePath_def path_ok_def is_absolute_def)

lemma requireStringFlag_iff: "requireStringFlag flags f = Inr v \<longleftrightarrow> flags (lit f) = Some (FlagText v) \<and> v \<noteq> []"
  by (auto simp: requireStringFlag_def split: option.splits flag_value.splits)

lemma path_flag_iff:
  "optionalAbsolutePathFlag flags f = Inr r \<longleftrightarrow> r = optionalStringFlag flags f \<and> pred_option path_ok r"
  by (auto simp: optionalAbsolutePathFlag_def path_ok_iff split: option.splits)

lemma hash_flag_iff: "optionalHashFlag flags f = Inr r \<longleftrightarrow> r = optionalStringFlag flags f \<and> pred_option is_hash64 r"
  by (auto simp: optionalHashFlag_def split: option.splits)

lemma string_flag_Some: "optionalStringFlag flags f = Some v \<longleftrightarrow> flags (lit f) = Some (FlagText v)"
  by (auto simp: optionalStringFlag_def split: option.splits flag_value.splits)

lemma texts_not_Nil: "path_ok p \<Longrightarrow> p \<noteq> []" "is_hash64 h \<Longrightarrow> h \<noteq> []" "argument_text v \<Longrightarrow> v \<noteq> []"
  by (auto simp: path_ok_def is_hash64_def argument_text_def)

lemma given_iff: "v \<noteq> Some [] \<Longrightarrow> given v \<longleftrightarrow> v \<noteq> None"
  by (auto simp: given_def split: option.splits)

lemma ensureDistinct_iff: "ensureDistinctPaths ps = Inr u \<longleftrightarrow> distinct (List.map_filter (\<lambda>p. p) ps)"
  by (simp add: ensureDistinctPaths_def)

lemma present_Cons: "List.map_filter (\<lambda>p. p) (Some e # ps) = e # List.map_filter (\<lambda>p. p) ps"
  by (simp add: List.map_filter_simps)

lemma options_ok_iff: "members_ok o' \<and> validateModeSpecificOptions o' = Inr () \<longleftrightarrow> cli_options_ok o'"
proof -
  have nonempty: "co_manifestOut o' \<noteq> Some []" "co_privateArtifactOut o' \<noteq> Some []" "co_escrowOut o' \<noteq> Some []"
    "co_manifestFile o' \<noteq> Some []" "co_privateArtifactFile o' \<noteq> Some []" "co_escrowFile o' \<noteq> Some []"
    "co_expectedManifestHash o' \<noteq> Some []" "co_expectedArtifactHash o' \<noteq> Some []"
    "co_expectedEscrowContentHash o' \<noteq> Some []" "co_confirmSiteId o' \<noteq> Some []" if "members_ok o'"
    using that texts_not_Nil by (fastforce simp: members_ok_def)+
  have mode: "validateModeSpecificOptions o' = Inr () \<longleftrightarrow> mode_ok o'"
    if m: "members_ok o'"
    unfolding validateModeSpecificOptions_def mode_ok_def nonempty [OF m, THEN given_iff]
    by (cases "co_apply o'") (auto simp: ensureDistinct_iff present_Cons)
  then show ?thesis by (auto simp: cli_options_ok_def)
qed

lemma parsed_options_ok:
  assumes "parseCliOptions argv = Inr o'"
  shows "cli_options_ok o'"
proof -
  obtain flags where flags: "read_flags Map.empty argv = Inr flags" "options_of_flags flags = Inr o'"
      "validateModeSpecificOptions o' = Inr ()"
    using assms by (auto simp: parseCliOptions_def)
  have texts: "argument_text v" if "flags f = Some (FlagText v)" for f v
    using read_flags_ok [OF flags(1)] that by (simp add: flag_values_ok_def)
  have number: "pred_option (\<lambda>n. 1 \<le> n \<and> n \<le> max_safe) r" if "optionalPositiveIntegerFlag flags f = Inr r" for f r
    using that positive_digits by (auto simp: number_flag_iff split: option.splits)
  have "members_ok o'"
    using flags(2) texts number unfolding options_of_flags_def bindE_Inr_iff
    by (fastforce simp: members_ok_def requireStringFlag_iff path_flag_iff hash_flag_iff requireAbsolutePathFlag_def
        path_ok_iff string_flag_Some pred_option_def)
  then show ?thesis using flags(3) options_ok_iff by blast
qed


section \<open>From options to arguments\<close>

lemma option_table_ok:
  assumes "members_ok o'"
  shows "list_all table_row_ok (option_table o')" "distinct (map fst (option_table o'))"
proof -
  have path: "path_ok p \<Longrightarrow> argument_text p" for p
    by (auto simp: path_ok_def argument_text_def starts_with_def lit_def)
  have hash: "is_hash64 h \<Longrightarrow> argument_text h" for h
    using digit_not_dash by (cases h) (auto simp: is_hash64_def is_lower_hex_def argument_text_def starts_with_def lit_def)
  have paths: "pred_option argument_text v" if "pred_option path_ok v" for v using that path by (cases v) auto
  have hashes: "pred_option argument_text v" if "pred_option is_hash64 v" for v using that hash by (cases v) auto
  have text_row: "table_row_ok (f, map_option FlagText v)"
    if "pred_option argument_text v" "f \<in> valueFlags" "f \<notin> booleanFlags" for f v
    using that by (cases v) (auto simp: table_row_ok_def)
  have number_row: "table_row_ok (f, map_option (\<lambda>n. FlagText (dec_string n)) v)"
    if "pred_option (\<lambda>n. 1 \<le> n \<and> n \<le> max_safe) v" "f \<in> valueFlags" "f \<notin> booleanFlags" for f v
    using that dec_string_argument(1) by (cases v) (auto simp: table_row_ok_def)
  have required_row: "table_row_ok (f, Some (FlagText v))"
    if "argument_text v" "f \<in> valueFlags" "f \<notin> booleanFlags" for f v
    using that by (simp add: table_row_ok_def)
  have flag_row: "table_row_ok (lit ''--apply'', if b then Some FlagTrue else None)" for b
    by (simp add: table_row_ok_def booleanFlags_def)
  have m: "argument_text (co_siteId o')" "argument_text (co_cutoff o')" "argument_text (co_evidenceFile o')"
    "pred_option (\<lambda>n. 1 \<le> n \<and> n \<le> max_safe) (co_maxBatches o')" "pred_option (\<lambda>n. 1 \<le> n \<and> n \<le> max_safe) (co_maxMessages o')"
    "pred_option argument_text (co_manifestOut o')" "pred_option argument_text (co_privateArtifactOut o')"
    "pred_option argument_text (co_escrowOut o')" "pred_option argument_text (co_manifestFile o')"
    "pred_option argument_text (co_privateArtifactFile o')" "pred_option argument_text (co_escrowFile o')"
    "pred_option argument_text (co_expectedManifestHash o')" "pred_option argument_text (co_expectedArtifactHash o')"
    "pred_option argument_text (co_expectedEscrowContentHash o')" "pred_option argument_text (co_confirmSiteId o')"
    using assms path paths hashes by (simp_all add: members_ok_def)
  show "list_all table_row_ok (option_table o')"
    unfolding option_table_def list.pred_inject
    by (intro conjI TrueI flag_row required_row number_row text_row m) (simp_all add: valueFlags_def booleanFlags_def)
  show "distinct (map fst (option_table o'))" by (simp add: option_table_def)
qed

lemma arguments_parse:
  assumes ok: "cli_options_ok o'"
  shows "parseCliOptions (option_arguments o') = Inr o'"
proof -
  have m: "members_ok o'" and mode: "validateModeSpecificOptions o' = Inr ()" using ok options_ok_iff by blast+
  define flags :: flag_map where "flags = (\<lambda>f. case map_of (option_table o') f of Some (Some v) \<Rightarrow> Some v | _ \<Rightarrow> None)"
  have read: "read_flags Map.empty (option_arguments o') = Inr flags"
    unfolding option_arguments_def flags_def using read_table [OF option_table_ok [OF m], of Map.empty] by simp
  have texts: "optionalStringFlag flags ''--manifest-out'' = co_manifestOut o'"
    "optionalStringFlag flags ''--private-artifact-out'' = co_privateArtifactOut o'"
    "optionalStringFlag flags ''--escrow-out'' = co_escrowOut o'" "optionalStringFlag flags ''--manifest-file'' = co_manifestFile o'"
    "optionalStringFlag flags ''--private-artifact-file'' = co_privateArtifactFile o'"
    "optionalStringFlag flags ''--escrow-file'' = co_escrowFile o'"
    "optionalStringFlag flags ''--expected-manifest-hash'' = co_expectedManifestHash o'"
    "optionalStringFlag flags ''--expected-artifact-hash'' = co_expectedArtifactHash o'"
    "optionalStringFlag flags ''--expected-escrow-content-hash'' = co_expectedEscrowContentHash o'"
    "optionalStringFlag flags ''--confirm-site-id'' = co_confirmSiteId o'"
    by (simp_all add: optionalStringFlag_def flags_def option_table_def split: option.split)
  have numbers: "optionalStringFlag flags ''--max-batches'' = map_option dec_string (co_maxBatches o')"
    "optionalStringFlag flags ''--max-messages'' = map_option dec_string (co_maxMessages o')"
    by (simp_all add: optionalStringFlag_def flags_def option_table_def split: option.split)
  have required: "flags (lit ''--site-id'') = Some (FlagText (co_siteId o'))" "flags (lit ''--cutoff'') = Some (FlagText (co_cutoff o'))"
    "flags (lit ''--evidence-file'') = Some (FlagText (co_evidenceFile o'))"
    "(flags (lit ''--apply'') = Some FlagTrue) = co_apply o'"
    by (simp_all add: flags_def option_table_def)
  have number: "optionalPositiveIntegerFlag flags f = Inr v"
    if "optionalStringFlag flags f = map_option dec_string v" "pred_option (\<lambda>n. 1 \<le> n \<and> n \<le> max_safe) v" for f v
    using that dec_string_argument dec_string_head unfolding number_flag_iff by (cases v) auto
  have parts: "requireStringFlag flags ''--site-id'' = Inr (co_siteId o')" "requireStringFlag flags ''--cutoff'' = Inr (co_cutoff o')"
    "requireAbsolutePathFlag flags ''--evidence-file'' = Inr (co_evidenceFile o')"
    "optionalPositiveIntegerFlag flags ''--max-batches'' = Inr (co_maxBatches o')"
    "optionalPositiveIntegerFlag flags ''--max-messages'' = Inr (co_maxMessages o')"
    "optionalAbsolutePathFlag flags ''--manifest-out'' = Inr (co_manifestOut o')"
    "optionalAbsolutePathFlag flags ''--private-artifact-out'' = Inr (co_privateArtifactOut o')"
    "optionalAbsolutePathFlag flags ''--escrow-out'' = Inr (co_escrowOut o')"
    "optionalAbsolutePathFlag flags ''--manifest-file'' = Inr (co_manifestFile o')"
    "optionalAbsolutePathFlag flags ''--private-artifact-file'' = Inr (co_privateArtifactFile o')"
    "optionalAbsolutePathFlag flags ''--escrow-file'' = Inr (co_escrowFile o')"
    "optionalHashFlag flags ''--expected-manifest-hash'' = Inr (co_expectedManifestHash o')"
    "optionalHashFlag flags ''--expected-artifact-hash'' = Inr (co_expectedArtifactHash o')"
    "optionalHashFlag flags ''--expected-escrow-content-hash'' = Inr (co_expectedEscrowContentHash o')"
    using m required number numbers texts_not_Nil
    by (auto simp: members_ok_def requireStringFlag_iff path_flag_iff hash_flag_iff requireAbsolutePathFlag_def path_ok_iff texts)
  have "options_of_flags flags = Inr o'"
    unfolding options_of_flags_def parts bindE_simps required(4) texts by simp
  then show ?thesis using read mode by (simp add: parseCliOptions_def)
qed

text \<open>
  C40: exactly which options the command can be started with. Required texts are present, numbers are positive safe
  integers, paths absolute, normalized and different from each other, hashes 64 hexadecimal digits. With
  \<^verbatim>\<open>--apply\<close> every input file, every expected hash and the repeated site id must be there and no output file;
  without it none of them, and a private artifact only together with an escrow file. The arguments written for such
  options are read back as them, and no argument list gives any other options.
\<close>

theorem options_accepted_iff:
  "(parseCliOptions (option_arguments o') = Inr o' \<longleftrightarrow> cli_options_ok o')
   \<and> ((\<exists>argv. parseCliOptions argv = Inr o') \<longleftrightarrow> cli_options_ok o')"
  using arguments_parse parsed_options_ok by blast

end
