(* ===== verification/EscrowFile.thy ===== *)
theory EscrowFile
  imports EscrowVerify CliOptions
begin

text \<open>
  The escrow file as the apply command reads it (service/newsletter-retention-cli.ts): its metadata, its
  lines out of reads of any size, and the source that hands out one batch after the other. What the
  operating system answers is an argument: the result of each \<^verbatim>\<open>stat\<close>, and the bytes each read gave. A
  generator is the list of what it yields together with how it ends.
\<close>

unbundle bit_operations_syntax

section \<open>Metadata\<close>

record file_stat =
  fs_isFile :: bool
  fs_mode :: int
  fs_nlink :: int
  fs_uid :: int
  fs_size :: int
  fs_dev :: int
  fs_ino :: int
  fs_mtimeMs :: rat
  fs_ctimeMs :: rat

record file_identity =
  fi_dev :: int
  fi_ino :: int
  fi_size :: int
  fi_mtimeMs :: rat
  fi_ctimeMs :: rat

definition hardFileBytes :: int where
  "hardFileBytes = MAX_TOTAL_BYTES + MAX_RECORDS + 2"

text \<open>\<open>uid\<close> is what \<^verbatim>\<open>process.getuid?.()\<close> answers, \<open>None\<close> where there is no such function.\<close>

definition readEscrowFileIdentity :: "int option \<Rightarrow> file_stat res \<Rightarrow> file_identity res" where
  "readEscrowFileIdentity uid answer = bindE answer (\<lambda>st.
     if \<not> fs_isFile st \<or> fs_nlink st \<noteq> 1 \<or> Some (fs_uid st) \<noteq> uid \<or> (fs_mode st AND 511) \<noteq> 256
        \<or> \<bar>fs_size st\<bar> > max_safe \<or> fs_size st \<le> 0 \<or> fs_size st > hardFileBytes
     then Inl (Error ''escrow file metadata is invalid'')
     else Inr \<lparr>fi_dev = fs_dev st, fi_ino = fs_ino st, fi_size = fs_size st, fi_mtimeMs = fs_mtimeMs st, fi_ctimeMs = fs_ctimeMs st\<rparr>)"

definition assertEscrowFileIdentity :: "int option \<Rightarrow> file_stat res \<Rightarrow> file_identity \<Rightarrow> unit res" where
  "assertEscrowFileIdentity uid answer expected = bindE (readEscrowFileIdentity uid answer) (\<lambda>actual.
     if fi_dev actual \<noteq> fi_dev expected \<or> fi_ino actual \<noteq> fi_ino expected \<or> fi_size actual \<noteq> fi_size expected
        \<or> fi_mtimeMs actual \<noteq> fi_mtimeMs expected \<or> fi_ctimeMs actual \<noteq> fi_ctimeMs expected
     then Inl (Error ''escrow file identity changed'') else Inr ())"

lemma identity_unchanged: "readEscrowFileIdentity uid answer = Inr i \<Longrightarrow> assertEscrowFileIdentity uid answer i = Inr ()"
  by (simp add: assertEscrowFileIdentity_def)

section \<open>Lines\<close>

text \<open>The pieces that a newline ends, and what follows the last newline.\<close>

fun split_newlines :: "byte list \<Rightarrow> byte list list \<times> byte list" where
  "split_newlines [] = ([], [])"
| "split_newlines (c # bs) = (case split_newlines bs of (ls, rest) \<Rightarrow>
     if c = 10 then ([] # ls, rest)
     else (case ls of [] \<Rightarrow> ([], c # rest) | l # ls' \<Rightarrow> ((c # l) # ls', rest)))"

text \<open>Successive reads: the bytes of each, and whether a read then found the end or threw.\<close>

type_synonym file_reads = "byte list list \<times> unit res"

fun iterateEscrowFileLines :: "byte list \<Rightarrow> int \<Rightarrow> byte list list \<Rightarrow> unit res \<Rightarrow> byte list list \<times> unit res" where
  "iterateEscrowFileLines pending totalBytes [] e = ([], bindE e (\<lambda>_.
     if pending \<noteq> [] then Inl (Error ''escrow file must end with newline'') else Inr ()))"
| "iterateEscrowFileLines pending totalBytes (chunk # chunks) e =
     (let before' = totalBytes + int (length chunk) in
      if before' > hardFileBytes then ([], Inl (Error ''escrow file exceeds byte limit''))
      else (case split_newlines (pending @ chunk) of (ls, rest) \<Rightarrow>
        let fit = takeWhile (\<lambda>l. int (length l) \<le> MAX_LINE_BYTES) ls in
        if length fit < length ls then (fit, Inl (Error ''escrow line exceeds byte limit''))
        else if int (length rest) > MAX_LINE_BYTES then (ls, Inl (Error ''escrow line exceeds byte limit''))
        else (case iterateEscrowFileLines rest before' chunks e of (further, r) \<Rightarrow> (ls @ further, r))))"

definition escrow_file_lines :: "file_reads \<Rightarrow> byte list list \<times> unit res" where
  "escrow_file_lines reads = iterateEscrowFileLines [] 0 (fst reads) (snd reads)"

section \<open>Records\<close>

fun verified_records :: "bool \<Rightarrow> bool \<Rightarrow> byte list list \<Rightarrow> unit res \<Rightarrow> escrow_record list \<times> unit res" where
  "verified_records sawHeader sawFooter [] e = ([], bindE e (\<lambda>_.
     if \<not> sawHeader \<or> \<not> sawFooter then Inl (Error ''escrow framing is incomplete'') else Inr ()))"
| "verified_records sawHeader sawFooter (l # ls) e =
     (case utf8_decode l of
        None \<Rightarrow> ([], Inl (Error ''TypeError''))
      | Some t \<Rightarrow> (case json_parse t of
          None \<Rightarrow> ([], Inl (Error ''SyntaxError''))
        | Some v \<Rightarrow>
            if \<not> is_object_not_array v then ([], Inl (Error ''escrow line is invalid''))
            else if get_prop v ''kind'' = JStr (lit ''header'') then
              if sawHeader \<or> sawFooter then ([], Inl (Error ''escrow header order is invalid''))
              else verified_records True sawFooter ls e
            else if get_prop v ''kind'' = JStr (lit ''footer'') then
              if \<not> sawHeader \<or> sawFooter then ([], Inl (Error ''escrow footer order is invalid''))
              else verified_records sawHeader True ls e
            else if \<not> sawHeader \<or> sawFooter then ([], Inl (Error ''escrow record order is invalid''))
            else (case parseNewsletterRetentionEscrowRecord v of
                Inl x \<Rightarrow> ([], Inl x)
              | Inr r \<Rightarrow> (case verified_records sawHeader sawFooter ls e of (rs, e') \<Rightarrow> (r # rs, e')))))"

definition iterateVerifiedEscrowRecords :: "file_reads \<Rightarrow> escrow_record list \<times> unit res" where
  "iterateVerifiedEscrowRecords reads = (case escrow_file_lines reads of (ls, e) \<Rightarrow> verified_records False False ls e)"

section \<open>The source\<close>

text \<open>The closure's variables; \<open>vs_rest\<close> and \<open>vs_end\<close> are what the record generator has still to give.\<close>

record verified_source =
  vs_verification :: verification_result
  vs_identity :: file_identity
  vs_rest :: "escrow_record list"
  vs_end :: "unit res"
  vs_next :: int
  vs_pending :: "escrow_record option"
  vs_closed :: bool

text \<open>What opening a file meets: the directories on the way, the file, two \<^verbatim>\<open>stat\<close>s and two readings.\<close>

record opened_file =
  of_parent :: "unit res"
  of_open :: "unit res"
  of_firstStat :: "file_stat res"
  of_firstReads :: file_reads
  of_secondStat :: "file_stat res"
  of_secondReads :: file_reads

definition read_and_verify :: "(jstr \<Rightarrow> jstr) \<Rightarrow> file_reads \<Rightarrow> verification_result res" where
  "read_and_verify sha reads = (case escrow_file_lines reads of (ls, e) \<Rightarrow>
     bindE (createNewsletterRetentionEscrowAccumulator default_options) (\<lambda>st.
     bindE (foldE (consume_or_throw sha) st (map ByteLine ls)) (\<lambda>st.
     bindE e (\<lambda>_. finalize st))))"

definition openVerifiedNewsletterRetentionEscrowSource ::
  "(jstr \<Rightarrow> jstr) \<Rightarrow> int option \<Rightarrow> (jstr \<Rightarrow> opened_file) \<Rightarrow> jstr \<Rightarrow> verified_source res" where
  "openVerifiedNewsletterRetentionEscrowSource sha uid files path =
     bindE (normalizeAbsolutePath path ''escrow file'') (\<lambda>p.
     let file = files p in
     case bindE (of_parent file) (\<lambda>_. bindE (of_open file) (\<lambda>_.
          bindE (readEscrowFileIdentity uid (of_firstStat file)) (\<lambda>identity.
          bindE (read_and_verify sha (of_firstReads file)) (\<lambda>verification.
          bindE (assertEscrowFileIdentity uid (of_secondStat file) identity) (\<lambda>_. Inr (identity, verification)))))) of
       Inl _ \<Rightarrow> Inl (CliError ''newsletter retention escrow source is invalid'')
     | Inr (identity, verification) \<Rightarrow>
         Inr \<lparr>vs_verification = verification, vs_identity = identity,
           vs_rest = fst (iterateVerifiedEscrowRecords (of_secondReads file)),
           vs_end = snd (iterateVerifiedEscrowRecords (of_secondReads file)),
           vs_next = 0, vs_pending = None, vs_closed = False\<rparr>)"

text \<open>
  The loop of \<^verbatim>\<open>readBatchRecords\<close>: the records of the batch and the first of the next one, and the generator
  after it. A generator that has thrown is finished.
\<close>

fun gather :: "int \<Rightarrow> escrow_record list \<Rightarrow> unit res
    \<Rightarrow> (escrow_record list \<times> escrow_record option) res \<times> escrow_record list \<times> unit res" where
  "gather i [] e = (bindE e (\<lambda>_. Inr ([], None)), [], Inr ())"
| "gather i (r # rs) e =
     (if manifest_index r < i then (Inl (Error ''verified escrow source record order is invalid''), rs, e)
      else if manifest_index r > i then (Inr ([], Some r), rs, e)
      else (case gather i rs e of (out, rest) \<Rightarrow> (bindE out (\<lambda>(records, next). Inr (r # records, next)), rest)))"

definition readBatchRecords ::
  "int option \<Rightarrow> file_stat res \<Rightarrow> file_stat res \<Rightarrow> int \<Rightarrow> verified_source \<Rightarrow> escrow_record list res \<times> verified_source" where
  "readBatchRecords uid before after i src =
     (if vs_closed src \<or> i \<noteq> vs_next src then (Inl (Error ''verified escrow source access is out of sequence''), src)
      else (case assertEscrowFileIdentity uid before (vs_identity src) of
          Inl e \<Rightarrow> (Inl e, src)
        | Inr _ \<Rightarrow>
            (case gather i ((case vs_pending src of None \<Rightarrow> [] | Some r \<Rightarrow> [r]) @ vs_rest src) (vs_end src) of
               (Inl e, rest, ending) \<Rightarrow> (Inl e, src\<lparr>vs_pending := None, vs_rest := rest, vs_end := ending\<rparr>)
             | (Inr (records, next), rest, ending) \<Rightarrow>
                 (bindE (assertEscrowFileIdentity uid after (vs_identity src)) (\<lambda>_. Inr records),
                  src\<lparr>vs_pending := next, vs_rest := rest, vs_end := ending, vs_next := vs_next src + 1\<rparr>))))"

definition close_source :: "unit res \<Rightarrow> verified_source \<Rightarrow> unit res \<times> verified_source" where
  "close_source closing src = (if vs_closed src then (Inr (), src) else (closing, src\<lparr>vs_closed := True\<rparr>))"

section \<open>Lines do not depend on the reads\<close>

definition unlines :: "byte list list \<Rightarrow> byte list" where
  "unlines ls = concat (map (\<lambda>l. l @ [10]) ls)"

lemma split_newlines_parts:
  "split_newlines bs = (ls, r) \<Longrightarrow> bs = unlines ls @ r \<and> (\<forall>l \<in> set ls. 10 \<notin> set l) \<and> 10 \<notin> set r"
proof (induction bs arbitrary: ls r)
  case (Cons c bs)
  then show ?case
    by (cases "split_newlines bs") (auto simp: unlines_def split: if_splits list.splits)
qed (simp add: unlines_def)

lemma split_newlines_none: "10 \<notin> set bs \<Longrightarrow> split_newlines bs = ([], bs)"
  by (induction bs) auto

lemma split_newlines_line: "10 \<notin> set l \<Longrightarrow> split_newlines (l @ 10 # bs) = (l # fst (split_newlines bs), snd (split_newlines bs))"
  by (induction l) (auto simp: split_beta)

lemma split_newlines_append:
  "split_newlines (bs @ cs) = (fst (split_newlines bs) @ fst (split_newlines (snd (split_newlines bs) @ cs)),
     snd (split_newlines (snd (split_newlines bs) @ cs)))"
proof -
  obtain ls r where parts: "split_newlines bs = (ls, r)" by fastforce
  then have bs: "bs = unlines ls @ r" "\<forall>l \<in> set ls. 10 \<notin> set l" using split_newlines_parts by blast+
  have "split_newlines (unlines ls @ s) = (ls @ fst (split_newlines s), snd (split_newlines s))" for s
    using bs(2) by (induction ls) (simp_all add: unlines_def split_newlines_line)
  then show ?thesis unfolding parts using bs(1) by simp
qed

lemma split_newlines_unlines: "\<forall>l \<in> set ls. 10 \<notin> set l \<Longrightarrow> split_newlines (unlines ls) = (ls, [])"
  by (induction ls) (simp_all add: unlines_def split_newlines_line)

lemma split_newlines_prefix: "10 \<notin> set r \<Longrightarrow> fst (split_newlines (r @ s)) = l # ls \<Longrightarrow> length r \<le> length l"
  by (induction r arbitrary: l ls) (auto simp: split_beta split: list.splits if_splits)

lemma takeWhile_all: "length (takeWhile P xs) < length xs \<longleftrightarrow> \<not> list_all P xs"
  by (induction xs) auto

lemma lines_iff:
  assumes "[] \<notin> set chunks" "10 \<notin> set pending" "int (length pending) \<le> MAX_LINE_BYTES"
  shows "iterateEscrowFileLines pending before chunks (Inr ()) = (ls, Inr ()) \<longleftrightarrow>
     split_newlines (pending @ concat chunks) = (ls, []) \<and> list_all (\<lambda>l. int (length l) \<le> MAX_LINE_BYTES) ls
     \<and> (chunks = [] \<or> before + int (length (concat chunks)) \<le> hardFileBytes)"
  using assms
proof (induction chunks arbitrary: pending before ls)
  case Nil
  then show ?case by (auto simp: split_newlines_none)
next
  case (Cons chunk chunks)
  obtain ls1 r1 where parts: "split_newlines (pending @ chunk) = (ls1, r1)" by fastforce
  have r1: "10 \<notin> set r1" using split_newlines_parts [OF parts] by blast
  define rest where "rest = split_newlines (r1 @ concat chunks)"
  have whole: "split_newlines (pending @ concat (chunk # chunks)) = (ls1 @ fst rest, snd rest)"
    using split_newlines_append [of "pending @ chunk" "concat chunks"] by (simp add: parts rest_def)
  let ?t = "before + int (length chunk)" let ?further = "iterateEscrowFileLines r1 ?t chunks (Inr ())"
  have step: "iterateEscrowFileLines pending before (chunk # chunks) (Inr ()) = (ls, Inr ()) \<longleftrightarrow>
      ?t \<le> hardFileBytes \<and> list_all (\<lambda>l. int (length l) \<le> MAX_LINE_BYTES) ls1 \<and> int (length r1) \<le> MAX_LINE_BYTES
      \<and> (\<exists>further. ?further = (further, Inr ()) \<and> ls = ls1 @ further)"
    by (simp add: parts takeWhile_all Let_def not_le split: prod.split) (auto simp: not_less)
  have ih: "?further = (further, Inr ()) \<longleftrightarrow> rest = (further, []) \<and> list_all (\<lambda>l. int (length l) \<le> MAX_LINE_BYTES) further
      \<and> (chunks = [] \<or> ?t + int (length (concat chunks)) \<le> hardFileBytes)"
    if "int (length r1) \<le> MAX_LINE_BYTES" for further
    using Cons.IH [OF _ r1 that, of ?t further] Cons.prems(1) by (simp add: rest_def)
  have bound: "int (length r1) \<le> MAX_LINE_BYTES"
    if "rest = (further, [])" "list_all (\<lambda>l. int (length l) \<le> MAX_LINE_BYTES) further" for further
  proof (cases further)
    case Nil
    then have "r1 @ concat chunks = []" using that(1) split_newlines_parts [of "r1 @ concat chunks" "[]" "[]"]
      by (simp add: rest_def unlines_def)
    then show ?thesis by (simp add: MAX_LINE_BYTES_def)
  next
    case (Cons l further')
    then have "length r1 \<le> length l" using split_newlines_prefix [OF r1, of "concat chunks"] that(1) by (simp add: rest_def)
    then show ?thesis using that(2) Cons by simp
  qed
  obtain a b where rest_parts: "rest = (a, b)" by fastforce
  show ?case
  proof (cases "int (length r1) \<le> MAX_LINE_BYTES")
    case True
    show ?thesis
      unfolding step whole ih [OF True] unfolding rest_parts using True by (cases "chunks = []") auto
  next
    case False
    then show ?thesis unfolding step whole unfolding rest_parts using bound [of a] by (auto simp: rest_parts)
  qed
qed

text \<open>Reads that reach the end of a file with the content \<open>bytes\<close>.\<close>

definition reads_whole :: "file_reads \<Rightarrow> byte list \<Rightarrow> bool" where
  "reads_whole reads bytes \<longleftrightarrow> [] \<notin> set (fst reads) \<and> concat (fst reads) = bytes \<and> snd reads = Inr ()"

lemma file_lines_iff:
  assumes "reads_whole reads bytes"
  shows "escrow_file_lines reads = (ls, Inr ()) \<longleftrightarrow> split_newlines bytes = (ls, [])
     \<and> list_all (\<lambda>l. int (length l) \<le> MAX_LINE_BYTES) ls \<and> int (length bytes) \<le> hardFileBytes"
proof -
  have "fst reads = [] \<Longrightarrow> bytes = []" using assms by (auto simp: reads_whole_def)
  then show ?thesis
    using lines_iff [of "fst reads" "[]" 0 ls] assms
    by (auto simp: escrow_file_lines_def reads_whole_def MAX_LINE_BYTES_def hardFileBytes_def MAX_TOTAL_BYTES_def MAX_RECORDS_def)
qed


section \<open>What the source hands out\<close>

fun line_object :: "escrow_line \<Rightarrow> js" where
  "line_object (HeaderLine h) = header_object h"
| "line_object (FooterLine f) = footer_object f"
| "line_object (RecordLine r) = record_object r"

lemma line_object_parse: "line_ok p \<Longrightarrow> json_parse (line_text p) = Some (line_object p)"
  by (cases p) (simp_all add: header_line_text footer_line_text record_line_text json_parse_text plain_objects)

lemma line_object_kind:
  "get_prop (line_object (HeaderLine h)) ''kind'' = JStr (lit ''header'')"
  "get_prop (line_object (FooterLine f)) ''kind'' = JStr (lit ''footer'')"
  "get_prop (line_object (RecordLine r)) ''kind'' \<noteq> JStr (lit ''header'')"
  "get_prop (line_object (RecordLine r)) ''kind'' \<noteq> JStr (lit ''footer'')"
  "is_object_not_array (line_object p)"
  by (simp_all add: header_props footer_props record_props)
    (cases "record_kind r"; cases p; simp add: header_props footer_props record_props)+

lemma records_of_lines:
  "map utf8_decode ls = map (\<lambda>r. Some (record_line r)) rs @ [Some (footer_line f)] \<Longrightarrow> list_all escrow_record_ok rs \<Longrightarrow> footer_ok f \<Longrightarrow>
     verified_records True False ls (Inr ()) = (rs, Inr ())"
proof (induction rs arbitrary: ls)
  case Nil
  then obtain l where ls: "ls = [l]" "utf8_decode l = Some (footer_line f)" by (auto simp: map_eq_Cons_conv)
  show ?case
    using line_object_parse [of "FooterLine f"] line_object_kind(2) [of f] line_object_kind(5) [of "FooterLine f"] Nil(3)
    by (simp add: ls)
next
  case (Cons r rs)
  then obtain l ls' where ls: "ls = l # ls'" "utf8_decode l = Some (record_line r)"
      "map utf8_decode ls' = map (\<lambda>r. Some (record_line r)) rs @ [Some (footer_line f)]"
    by (auto simp: map_eq_Cons_conv)
  have ok: "escrow_record_ok r" "list_all escrow_record_ok rs" using Cons.prems(2) by simp_all
  show ?case
    using line_object_parse [of "RecordLine r"] line_object_kind(3,4) [of r] line_object_kind(5) [of "RecordLine r"] ok
      Cons.IH [OF ls(3) ok(2) Cons.prems(3)]
    by (simp add: ls parseNewsletterRetentionEscrowRecord_def normalize_record_object)
qed

lemma file_records:
  assumes "reads_as (map ByteLine ls) (open_items h bs @ [FooterLine f])"
  shows "verified_records False False ls (Inr ()) = (all_records 0 bs, Inr ())"
proof -
  have texts: "map utf8_decode ls = Some (header_line h) # map (\<lambda>r. Some (record_line r)) (all_records 0 bs) @ [Some (footer_line f)]"
    using assms by (simp add: reads_as_def open_items_def text_of_def comp_def)
  have ok: "header_ok h" "list_all escrow_record_ok (all_records 0 bs)" "footer_ok f"
    using assms by (simp_all add: reads_as_def open_items_def list_all_iff)
  obtain l ls' where ls: "ls = l # ls'" "utf8_decode l = Some (header_line h)"
      "map utf8_decode ls' = map (\<lambda>r. Some (record_line r)) (all_records 0 bs) @ [Some (footer_line f)]"
    using texts by (auto simp: map_eq_Cons_conv)
  show ?thesis
    using line_object_parse [of "HeaderLine h"] line_object_kind(1) [of h] line_object_kind(5) [of "HeaderLine h"] ok(1)
      records_of_lines [OF ls(3) ok(2,3)]
    by (simp add: ls)
qed

lemma gather_batch:
  assumes "\<forall>r \<in> set rs. manifest_index r = i" "i < j"
  shows "gather i (rs @ all_records j bs) (Inr ()) = (case all_records j bs of [] \<Rightarrow> (Inr (rs, None), [], Inr ())
     | r # rest \<Rightarrow> (Inr (rs, Some r), rest, Inr ()))"
  using assms(1)
proof (induction rs)
  case Nil
  show ?case
  proof (cases bs)
    case (Cons b bs')
    then have "all_records j bs = BatchRecord j (eb_row b) # tl (all_records j bs)" by (simp add: batch_records_def)
    then show ?thesis using assms(2) by (simp split: list.split) (metis list.inject manifest_index.simps(1) order_less_asym)
  qed simp
qed (auto split: list.split)

text \<open>The source before batch \<open>i\<close>: it has still to give the records of the batches from there on.\<close>

definition serves_from :: "verified_source \<Rightarrow> int \<Rightarrow> escrow_batch list \<Rightarrow> bool" where
  "serves_from src i bs \<longleftrightarrow> \<not> vs_closed src \<and> vs_next src = i \<and> vs_end src = Inr ()
     \<and> (case vs_pending src of None \<Rightarrow> [] | Some r \<Rightarrow> [r]) @ vs_rest src = all_records i bs"

lemma serves_next:
  assumes "serves_from src i (b # bs)" "readEscrowFileIdentity uid st = Inr (vs_identity src)"
  shows "\<exists>src'. readBatchRecords uid st st i src = (Inr (batch_records i b), src') \<and> serves_from src' (i + 1) bs
     \<and> vs_identity src' = vs_identity src"
proof -
  have index: "\<forall>r \<in> set (batch_records i b). manifest_index r = i" by (auto simp: batch_records_def)
  have all: "(case vs_pending src of None \<Rightarrow> [] | Some r \<Rightarrow> [r]) @ vs_rest src = batch_records i b @ all_records (i + 1) bs"
    "\<not> vs_closed src" "vs_next src = i" "vs_end src = Inr ()"
    using assms(1) by (simp_all add: serves_from_def)
  show ?thesis
    unfolding readBatchRecords_def all(1,4) gather_batch [OF index, of "i + 1" bs, simplified]
    using all(2,3) identity_unchanged [OF assms(2)]
    by (cases "all_records (i + 1) bs") (simp_all add: serves_from_def all(4))
qed

text \<open>Successive batches, with the metadata as they were.\<close>

fun read_batches :: "int option \<Rightarrow> file_stat res \<Rightarrow> int \<Rightarrow> nat \<Rightarrow> verified_source \<Rightarrow> escrow_record list res list" where
  "read_batches uid st i 0 src = []"
| "read_batches uid st i (Suc n) src = (case readBatchRecords uid st st i src of (r, src') \<Rightarrow> r # read_batches uid st (i + 1) n src')"

fun indexed_batches :: "int \<Rightarrow> escrow_batch list \<Rightarrow> escrow_record list list" where
  "indexed_batches i [] = []"
| "indexed_batches i (b # bs) = batch_records i b # indexed_batches (i + 1) bs"

lemma serves_all:
  "serves_from src i bs \<Longrightarrow> readEscrowFileIdentity uid st = Inr (vs_identity src) \<Longrightarrow>
     read_batches uid st i (length bs) src = map Inr (indexed_batches i bs)"
proof (induction bs arbitrary: src i)
  case (Cons b bs)
  from serves_next [OF Cons.prems] Cons.IH Cons.prems(2) show ?case by fastforce
qed simp

lemma opened_source:
  assumes "openVerifiedNewsletterRetentionEscrowSource sha uid files path = Inr src"
    and "reads_whole (of_firstReads (files path)) bytes" "reads_whole (of_secondReads (files path)) bytes"
  shows "\<exists>ls h bs f. bytes = unlines ls \<and> reads_as (map ByteLine ls) (open_items h bs @ [FooterLine f])
     \<and> verify_lines sha default_options (map ByteLine ls) = Inr (vs_verification src)
     \<and> vs_verification src = verification_of h f \<and> ef_counts f = counts_of bs \<and> serves_from src 0 bs"
proof -
  obtain ls e where lines: "escrow_file_lines (of_firstReads (files path)) = (ls, e)" by fastforce
  obtain identity verification where opened: "read_and_verify sha (of_firstReads (files path)) = Inr verification"
      "src = \<lparr>vs_verification = verification, vs_identity = identity,
           vs_rest = fst (iterateVerifiedEscrowRecords (of_secondReads (files path))),
           vs_end = snd (iterateVerifiedEscrowRecords (of_secondReads (files path))),
           vs_next = 0, vs_pending = None, vs_closed = False\<rparr>"
    using assms(1) by (auto simp: openVerifiedNewsletterRetentionEscrowSource_def path_ok_iff Let_def split: sum.splits)
  have e: "e = Inr ()" and verified: "verify_lines sha default_options (map ByteLine ls) = Inr verification"
    using opened(1) by (auto simp: read_and_verify_def lines verify_lines_def)
  have split: "split_newlines bytes = (ls, [])"
    using lines [unfolded e] file_lines_iff [OF assms(2)] by blast
  have again: "escrow_file_lines (of_secondReads (files path)) = (ls, Inr ())"
    using lines [unfolded e] file_lines_iff [OF assms(2)] file_lines_iff [OF assms(3)] by blast
  obtain h bs f where grammar: "reads_as (map ByteLine ls) (open_items h bs @ [FooterLine f])" "verification = verification_of h f"
      "ef_counts f = counts_of bs"
    using verified unfolding verify_lines_iff by blast
  have "serves_from src 0 bs"
    using file_records [OF grammar(1)] by (simp add: serves_from_def opened(2) iterateVerifiedEscrowRecords_def again)
  moreover have "bytes = unlines ls" using split_newlines_parts [OF split] by simp
  ultimately show ?thesis using grammar verified by (auto simp: opened(2))
qed

end
