(* ===== verification/DryRun.thy ===== *)
theory DryRun
  imports RetentionApply
begin

text \<open>
  The dry-run coordinator (service/newsletter-retention-coordinator.ts): policy, evidence, lock,
  plan, manifest and escrow file put together. The lock table and the chunks the sink took are threaded
  through; the database client, the sink and SHA-256 are parameters, as in the parts.
\<close>

record dry_run_result =
  dr_policyVersion :: int
  dr_plan :: selection_plan
  dr_manifest :: retention_manifest

record escrow_dry_run_result = dry_run_result +
  er_escrow :: verification_result

definition normalizeDryRunPolicy :: "js \<Rightarrow> retention_policy res" where
  "normalizeDryRunPolicy policy =
     (if \<not> is_object_not_array policy then Inl (Error ''dry-run coordinator policy must be a plain object'')
      else if get_prop policy ''apply'' = JBool True then Inl (Error ''apply is not enabled'')
      else parseNewsletterRetentionPolicy policy)"

text \<open>The parsed policy as the object it is; it has no member \<^verbatim>\<open>apply\<close>.\<close>

definition parsed_policy_object :: "retention_policy \<Rightarrow> js" where
  "parsed_policy_object p = obj [(''siteId'', JStr (pol_siteId p)), (''cutoff'', JStr (pol_cutoff p)), (''dryRun'', JBool (pol_dryRun p)),
     (''maxBatches'', jint (pol_maxBatches p)), (''maxMessages'', jint (pol_maxMessages p)),
     (''policyVersion'', jint (pol_policyVersion p))]"

text \<open>What both runs do under the lock first: the plan and its manifest.\<close>

definition run_manifest_input :: "retention_policy \<Rightarrow> selection_plan \<Rightarrow> js" where
  "run_manifest_input policy plan = obj [(''siteId'', JStr (pol_siteId policy)), (''cutoff'', JStr (sp_cutoff plan)),
     (''policyVersion'', jint (pol_policyVersion policy)), (''batches'', JArr (map batch_object (sp_batches plan)))]"

definition plan_and_manifest :: "(jstr \<Rightarrow> jstr) \<Rightarrow> retention_policy \<Rightarrow> js \<Rightarrow> dry_run_result res" where
  "plan_and_manifest sha policy input =
     bindE (buildNewsletterRetentionSelectionPlan policy (get_prop input ''evidence'') (get_prop input ''queueHealthy'')
        (get_prop input ''dlqHealthy'') (get_prop input ''candidates'')) (\<lambda>plan.
     bindE (buildNewsletterRetentionManifest sha (run_manifest_input policy plan)) (\<lambda>manifest.
     Inr \<lparr>dr_policyVersion = pol_policyVersion policy, dr_plan = plan, dr_manifest = manifest\<rparr>))"

text \<open>The part before the lock; \<open>what\<close> is the name in the error text.\<close>

definition prepare_run :: "string \<Rightarrow> js \<Rightarrow> lock_table \<Rightarrow> (retention_policy \<times> overlap_lock \<times> lock_table) res" where
  "prepare_run what input tbl =
     (if \<not> is_object_not_array input then Inl (Error (what @ '' coordinator input must be a plain object''))
      else bindE (normalizeDryRunPolicy (get_prop input ''policy'')) (\<lambda>policy.
           bindE (parseNewsletterRetentionEvidence (get_prop input ''evidence'')) (\<lambda>evidence.
           bindE (createProcessLocalAntiOverlapLock (JStr (pol_siteId policy)) tbl) (\<lambda>(lk, tbl').
           Inr (policy, lk, tbl')))))"

definition buildNewsletterRetentionDryRunResult ::
  "(jstr \<Rightarrow> jstr) \<Rightarrow> js \<Rightarrow> lock_table \<Rightarrow> dry_run_result res \<times> lock_table" where
  "buildNewsletterRetentionDryRunResult sha input tbl = (case prepare_run ''dry-run'' input tbl of
     Inl e \<Rightarrow> (Inl e, tbl)
   | Inr (policy, lk, tbl') \<Rightarrow>
       (case withProcessLocalAntiOverlapLock lk (\<lambda>(t, u). (plan_and_manifest sha policy input, t, u)) (tbl', ()) of
          (r, t, _) \<Rightarrow> (r, t)))"

definition assertEscrowMatchesPlan :: "verification_result \<Rightarrow> selection_plan \<Rightarrow> retention_manifest \<Rightarrow> unit res" where
  "assertEscrowMatchesPlan escrow plan manifest =
     (if vr_siteId escrow \<noteq> sp_siteId plan \<or> vr_cutoff escrow \<noteq> sp_cutoff plan
         \<or> vr_policyVersion escrow \<noteq> mf_policyVersion manifest \<or> vr_publicManifestHash escrow \<noteq> mf_hash manifest
         \<or> ec_batches (vr_counts escrow) \<noteq> sp_batchCount plan
         \<or> ec_messages (vr_counts escrow) \<noteq> st_messageCount (sp_totals plan)
         \<or> ec_errors (vr_counts escrow) \<noteq> st_errorCount (sp_totals plan)
         \<or> ec_notifications (vr_counts escrow) \<noteq> st_notificationCount (sp_totals plan)
      then Inl (Error ''escrow commitment does not match the retention plan'') else Inr ())"

definition run_header :: "retention_policy \<Rightarrow> retention_manifest \<Rightarrow> js \<Rightarrow> js" where
  "run_header policy manifest schemaFingerprint = obj [(''kind'', JStr (lit ''header'')), (''version'', jint 1),
     (''siteId'', JStr (pol_siteId policy)), (''cutoff'', JStr (pol_cutoff policy)),
     (''policyVersion'', jint (pol_policyVersion policy)), (''publicManifestHash'', JStr (mf_hash manifest)),
     (''schemaFingerprint'', schemaFingerprint)]"

definition escrow_work ::
  "(jstr \<Rightarrow> jstr) \<Rightarrow> sink \<Rightarrow> escrow_delegate \<Rightarrow> retention_policy \<Rightarrow> js \<Rightarrow> byte list list
   \<Rightarrow> escrow_dry_run_result res \<times> byte list list" where
  "escrow_work sha sink d policy input chunks = (case plan_and_manifest sha policy input of
     Inl e \<Rightarrow> (Inl e, chunks)
   | Inr r \<Rightarrow>
       (case writeNewsletterRetentionEscrow sha sink
           (obj [(''header'', run_header policy (dr_manifest r) (get_prop input ''schemaFingerprint'')),
             (''records'', obj [(''Symbol.asyncIterator'', JFun)]), (''writeChunk'', JFun)])
           (streamNewsletterRetentionEscrowRecords d (parsed_policy_object policy) (get_prop input ''candidates'')) of
          (new, Inl e) \<Rightarrow> (Inl e, chunks @ new)
        | (new, Inr escrow) \<Rightarrow>
            (bindE (assertEscrowMatchesPlan escrow (dr_plan r) (dr_manifest r)) (\<lambda>_.
               Inr \<lparr>dr_policyVersion = dr_policyVersion r, dr_plan = dr_plan r, dr_manifest = dr_manifest r, er_escrow = escrow\<rparr>),
             chunks @ new)))"

definition buildNewsletterRetentionEscrowDryRunResult ::
  "(jstr \<Rightarrow> jstr) \<Rightarrow> sink \<Rightarrow> escrow_delegate \<Rightarrow> js \<Rightarrow> lock_table
   \<Rightarrow> escrow_dry_run_result res \<times> lock_table \<times> byte list list" where
  "buildNewsletterRetentionEscrowDryRunResult sha sink d input tbl = (case prepare_run ''escrow dry-run'' input tbl of
     Inl e \<Rightarrow> (Inl e, tbl, [])
   | Inr (policy, lk, tbl') \<Rightarrow>
       withProcessLocalAntiOverlapLock lk
         (\<lambda>(t, chunks). case escrow_work sha sink d policy input chunks of (r, chunks') \<Rightarrow> (r, t, chunks')) (tbl', []))"

section \<open>What a finished run stands for\<close>

text \<open>A plan's manifest lists the plan's batches, and its totals are the plan's.\<close>

definition plan_manifest :: "(jstr \<Rightarrow> jstr) \<Rightarrow> retention_policy \<Rightarrow> selection_plan \<Rightarrow> retention_manifest \<Rightarrow> bool" where
  "plan_manifest sha policy plan m \<longleftrightarrow> mf_siteId m = pol_siteId policy \<and> mf_cutoff m = pol_cutoff policy
     \<and> mf_policyVersion m = pol_policyVersion policy \<and> mf_batches m = sp_batches plan
     \<and> mf_hash m = RetentionPolicy.hashCanonicalJson sha
         (manifest_payload (pol_siteId policy) (sp_batches plan) (pol_cutoff policy) (pol_policyVersion policy))
     \<and> sp_siteId plan = pol_siteId policy \<and> sp_cutoff plan = pol_cutoff policy
     \<and> foldE add_batch_counts no_counts (sp_batches plan) = Inr \<lparr>ec_batches = sp_batchCount plan,
         ec_messages = st_messageCount (sp_totals plan), ec_errors = st_errorCount (sp_totals plan),
         ec_notifications = st_notificationCount (sp_totals plan)\<rparr>
     \<and> sp_batchCount plan \<le> pol_maxBatches policy \<and> st_messageCount (sp_totals plan) \<le> pol_maxMessages policy"

lemma batch_objects_inverse:
  "mapE RetentionPolicy.normalizeManifestBatch (map batch_object bs) = Inr xs \<Longrightarrow> xs = bs \<and> list_all batch_ok bs"
proof (induction bs arbitrary: xs)
  case (Cons b bs)
  then obtain y ys where "RetentionPolicy.normalizeManifestBatch (batch_object b) = Inr y"
    "mapE RetentionPolicy.normalizeManifestBatch (map batch_object bs) = Inr ys" "xs = y # ys" by auto
  then show ?case using Cons.IH [of ys]
    by (cases b; cases y) (auto simp: normalizeManifestBatch_Inr_iff batch_object_props)
qed simp

lemma parsed_policy_cap: "normalizeDryRunPolicy v = Inr policy \<Longrightarrow> pol_maxBatches policy \<le> 100"
  by (auto simp: normalizeDryRunPolicy_def parseNewsletterRetentionPolicy_def clampPositiveInteger_Inr_iff)

lemma plan_and_manifest_ok:
  assumes "plan_and_manifest sha policy input = Inr r" "pol_maxBatches policy \<le> 100"
  shows "plan_manifest sha policy (dr_plan r) (dr_manifest r) \<and> dr_policyVersion r = pol_policyVersion policy"
proof -
  obtain plan m where plan: "buildNewsletterRetentionSelectionPlan policy (get_prop input ''evidence'') (get_prop input ''queueHealthy'')
      (get_prop input ''dlqHealthy'') (get_prop input ''candidates'') = Inr plan"
    and m: "buildNewsletterRetentionManifest sha (run_manifest_input policy plan) = Inr m"
    and r: "r = \<lparr>dr_policyVersion = pol_policyVersion policy, dr_plan = plan, dr_manifest = m\<rparr>"
    using assms(1) by (auto simp: plan_and_manifest_def)
  from plan [unfolded plan_built_iff] obtain cutoff cs bs where
    bs: "list_all2 (eligible (pol_siteId policy) cutoff) cs bs" "int (length cs) \<le> pol_maxBatches policy"
      "message_total bs \<le> pol_maxMessages policy" "message_total bs \<le> max_safe" "notification_total bs \<le> max_safe"
      "error_total bs \<le> max_safe" "plan = plan_of policy bs"
    by (elim conjE exE) metis
  have plan_parts: "sp_batches plan = sort_by compare_manifest_batches bs" "sp_siteId plan = pol_siteId policy"
    "sp_cutoff plan = pol_cutoff policy" "sp_batchCount plan = int (length bs)"
    "sp_totals plan = \<lparr>st_messageCount = message_total bs, st_notificationCount = notification_total bs, st_errorCount = error_total bs\<rparr>"
    by (simp_all add: bs(7) plan_of_def compareSelectionCandidates_eq)
  obtain batches siteId cut version where built: "mapE RetentionPolicy.normalizeManifestBatch (map batch_object (sp_batches plan)) = Inr batches"
    "siteId = pol_siteId policy" "to_iso cut = pol_cutoff policy" "version = pol_policyVersion policy"
    "m = manifest_of sha siteId cut version (sort_by compare_manifest_batches batches)"
    using m unfolding build_manifest_Inr_iff
    by (auto simp: run_manifest_input_def plan_parts(3) normalizePolicyVersion_Inr_iff)
  note batches = batch_objects_inverse [OF built(1)]
  have sorted: "sort_by compare_manifest_batches batches = sp_batches plan"
    using batches manifest_order.sort_by_idem [OF manifest_order.sort_by_sorted] by (simp add: plan_parts(1))
  have "list_all counts_nonneg bs" using eligible_counts_nonneg [OF bs(1)] .
  note nonneg = totals_nonneg [OF this]
  have len: "length cs = length bs" using bs(1) by (rule list_all2_lengthD)
  have sums: "(\<Sum>b\<leftarrow>sp_batches plan. mb_messageCount b) = message_total bs"
    "(\<Sum>b\<leftarrow>sp_batches plan. mb_errorCount b) = error_total bs"
    "(\<Sum>b\<leftarrow>sp_batches plan. mb_notificationCount b) = notification_total bs"
    unfolding plan_parts(1) total_defs [symmetric] by simp_all
  have counts: "manifest_counts (sp_batches plan) = \<lparr>ec_batches = sp_batchCount plan,
         ec_messages = st_messageCount (sp_totals plan), ec_errors = st_errorCount (sp_totals plan),
         ec_notifications = st_notificationCount (sp_totals plan)\<rparr>"
    unfolding manifest_counts_def sums by (simp add: plan_parts(1,4,5))
  moreover have "counts_ok (manifest_counts (sp_batches plan))"
    unfolding counts counts_ok_def safe_nat_def using nonneg bs(2,4-6) assms(2) len
    by (simp add: plan_parts(4,5)) (simp add: max_safe_def)
  ultimately have "foldE add_batch_counts no_counts (sp_batches plan) = Inr \<lparr>ec_batches = sp_batchCount plan,
         ec_messages = st_messageCount (sp_totals plan), ec_errors = st_errorCount (sp_totals plan),
         ec_notifications = st_notificationCount (sp_totals plan)\<rparr>"
    using batches by (subst expected_counts) simp_all
  then show ?thesis
    using built(2-5) sorted bs(2,3) len plan_parts(2-5) by (simp add: r plan_manifest_def manifest_of_def)
qed

lemma matches_plan_manifest:
  assumes "plan_manifest sha policy plan m" "assertEscrowMatchesPlan escrow plan m = Inr ()"
  shows "assertEscrowMatchesManifest escrow m = Inr ()"
proof -
  have "vr_counts escrow = \<lparr>ec_batches = sp_batchCount plan, ec_messages = st_messageCount (sp_totals plan),
      ec_errors = st_errorCount (sp_totals plan), ec_notifications = st_notificationCount (sp_totals plan)\<rparr>"
    using assms(2) by (cases "vr_counts escrow") (simp add: assertEscrowMatchesPlan_def split: if_splits)
  then show ?thesis
    using assms by (simp add: plan_manifest_def assertEscrowMatchesPlan_def assertEscrowMatchesManifest_def split: if_splits)
qed

section \<open>The lock around a run\<close>

lemma with_lock_restores:
  assumes "\<And>t w. fst (snd (work (t, w))) = t"
  shows "held_tokens (fst (snd (withProcessLocalAntiOverlapLock lk work s))) = held_tokens (fst s)"
  using assms
  by (auto simp: withProcessLocalAntiOverlapLock_def lock_tryAcquire_def lock_release_def lock_isHeld_def split_beta fun_eq_iff)

lemma with_lock_result:
  assumes "withProcessLocalAntiOverlapLock lk work s = (Inr r, s')"
  shows "\<exists>t. held_tokens (fst s) (lock_name lk) = None \<and> fst (work (t, snd s)) = Inr r \<and> snd (snd (work (t, snd s))) = snd s'"
  using assms by (auto simp: withProcessLocalAntiOverlapLock_def lock_tryAcquire_def split_beta split: if_splits)

lemma prepared_lock: "prepare_run what input tbl = Inr (policy, lk, tbl') \<Longrightarrow>
    held_tokens tbl' = held_tokens tbl \<and> normalizeDryRunPolicy (get_prop input ''policy'') = Inr policy \<and> lock_name lk = pol_siteId policy"
  by (auto simp: prepare_run_def createProcessLocalAntiOverlapLock_def normalizeLockName_def split: if_splits)

section \<open>An example\<close>

text \<open>The example snapshot, run through the coordinator.\<close>

definition run_example_header :: escrow_header where
  "run_example_header = example_header\<lparr>eh_cutoff := to_iso 86400000\<rparr>"

definition example_input :: js where
  "example_input = obj [(''policy'', example_policy_input), (''evidence'', example_evidence), (''queueHealthy'', JBool True),
     (''dlqHealthy'', JBool True), (''candidates'', JArr [example_candidate_input]), (''schemaFingerprint'', JStr example_hash)]"

definition no_locks :: lock_table where
  "no_locks = \<lparr>held_tokens = Map.empty, next_token = 0\<rparr>"

lemma run_header_ok: "header_ok run_example_header"
  using example_header_ok example_cutoff(1) by (auto simp: header_ok_def run_example_header_def printed_time_def)

lemma run_example_room: "byte_room run_example_header (all_records 0 [example_batch])"
proof -
  have "length (json_quote (to_iso 86400000)) \<le> 150"
    using length_json_quote [of "to_iso 86400000"] example_cutoff(1) by (simp add: length_to_iso)
  moreover have "length (json_quote example_hash) \<le> 386"
    using length_json_quote [of example_hash] by (simp add: example_hash_def)
  moreover have "length (int_string 1) \<le> 16" by (simp add: length_safe_nat safe_nat_def max_safe_def)
  moreover have "length (json_quote (lit t)) \<le> 150" if "length t \<le> 24" for t
    using that length_json_quote [of "lit t"] by simp
  note this [of "''header''", simplified] this [of "''site''", simplified]
  ultimately have "length (header_line run_example_header) \<le> 2000"
    unfolding header_line_def by (intro order_trans [OF length_canonical]) (simp add: example_header_def run_example_header_def)
  then have "utf8_length (header_line run_example_header) \<le> 6000"
    "utf8_length (record_line (BatchRecord 0 example_batch_row)) \<le> 6000"
    "utf8_length (record_line (MessageRecord 0 example_message_row)) \<le> 6000"
    "utf8_length (record_line (NotificationRecord 0 example_notification_row)) \<le> 6000"
    using example_line_lengths utf8_length_le [of "header_line run_example_header"]
      utf8_length_le [of "record_line (BatchRecord 0 example_batch_row)"]
      utf8_length_le [of "record_line (MessageRecord 0 example_message_row)"]
      utf8_length_le [of "record_line (NotificationRecord 0 example_notification_row)"] by linarith+
  then show ?thesis
    by (simp add: byte_room_def batch_records_def example_batch_def MAX_LINE_BYTES_def MAX_TOTAL_BYTES_def)
qed

lemma run_policy_object: "parseNewsletterRetentionPolicy (parsed_policy_object example_policy) = Inr example_policy"
proof -
  have "parse_strict_utc (JStr (to_iso 86400000)) e = Inr 86400000" for e
    by (simp only: parse_strict_utc_Inr_iff) (simp add: example_cutoff)
  moreover have "RetentionPolicy.normalizeSiteId (JStr (lit ''site'')) = Inr (lit ''site'')"
    by (simp add: RetentionPolicy.normalizeSiteId_def example_trims)
  moreover have "clampPositiveInteger (jint 10) 10 100 a b = Inr 10" "clampPositiveInteger (jint 1000) 1000 10000 a b = Inr 1000" for a b
    by (simp_all add: clampPositiveInteger_Inr_iff)
  ultimately show ?thesis
    by (simp add: parseNewsletterRetentionPolicy_def parsed_policy_object_def example_policy_def
        del: bindE_Inr_iff parse_strict_utc_Inr_iff)
qed

lemma example_run_stream:
  "streamNewsletterRetentionEscrowRecords example_escrow_delegate (parsed_policy_object example_policy) (JArr [example_candidate_input])
     = (all_records 0 [example_batch], Inr ())"
  using run_policy_object example_candidates example_snapshot
  by (simp add: streamNewsletterRetentionEscrowRecords_def)

definition example_public :: manifest_batch where
  "example_public = \<lparr>mb_batchId = lit ''b'', mb_createdAt = to_iso 0, mb_messageCount = 1, mb_notificationCount = 1, mb_errorCount = 0\<rparr>"

lemma example_input_props:
  "get_prop example_input ''policy'' = example_policy_input" "get_prop example_input ''evidence'' = example_evidence"
  "get_prop example_input ''queueHealthy'' = JBool True" "get_prop example_input ''dlqHealthy'' = JBool True"
  "get_prop example_input ''candidates'' = JArr [example_candidate_input]"
  "get_prop example_input ''schemaFingerprint'' = JStr example_hash" "is_object_not_array example_input"
  by (simp_all add: example_input_def)

lemma example_run_plan:
  "plan_and_manifest (\<lambda>_. example_hash) example_policy example_input = Inr \<lparr>dr_policyVersion = 1, dr_plan = plan_of example_policy [example_public],
     dr_manifest = manifest_of (\<lambda>_. example_hash) (lit ''site'') 86400000 1 [example_public]\<rparr>"
proof -
  have "eligible (pol_siteId example_policy) 86400000 example_candidate_input example_public"
    using example_cutoff(2)
    by (auto simp: eligible_def example_policy_def example_candidate_input_def example_public_def candidate_time_def max_safe_def
        intro: exI [of _ 0])
  then have eligible: "list_all2 (eligible (pol_siteId example_policy) 86400000) [example_candidate_input] [example_public]" by simp
  have policy: "pol_cutoff example_policy = to_iso 86400000" "pol_maxBatches example_policy = 10" "pol_maxMessages example_policy = 1000"
    by (simp_all add: example_policy_def)
  have totals: "message_total [example_public] = 1" "notification_total [example_public] = 1" "error_total [example_public] = 0"
    by (simp_all add: example_public_def)
  have plan: "buildNewsletterRetentionSelectionPlan example_policy (get_prop example_input ''evidence'') (get_prop example_input ''queueHealthy'')
      (get_prop example_input ''dlqHealthy'') (get_prop example_input ''candidates'') = Inr (plan_of example_policy [example_public])"
    unfolding plan_built_iff example_input_props policy
    using example_evidence_accepted example_cutoff(1) eligible totals
    by (intro conjI exI [of _ 86400000] exI [of _ "[example_candidate_input]"] exI [of _ "[example_public]"]) (simp_all add: max_safe_def)
  have "batch_ok example_public" using example_cutoff(2) example_trims by (auto simp: batch_ok_def example_public_def max_safe_def)
  then have "buildNewsletterRetentionManifest (\<lambda>_. example_hash) (run_manifest_input example_policy (plan_of example_policy [example_public]))
      = Inr (manifest_of (\<lambda>_. example_hash) (lit ''site'') 86400000 1 [example_public])"
    unfolding build_manifest_Inr_iff using example_cutoff(1) example_trims
    by (intro conjI exI [of _ "[batch_object example_public]"] exI [of _ "lit ''site''"] exI [of _ 86400000] exI [of _ 1]
          exI [of _ "[example_public]"])
      (simp_all add: run_manifest_input_def plan_of_def example_policy_def sort_by_def normalizePolicyVersion_Inr_iff max_safe_def
        normalize_batch_object)
  then show ?thesis by (simp add: plan_and_manifest_def plan) (simp add: example_policy_def)
qed

lemma escrow_run_example:
  "\<exists>r. fst (buildNewsletterRetentionEscrowDryRunResult (\<lambda>_. example_hash) accepting example_escrow_delegate example_input no_locks) = Inr r"
proof -
  let ?m = "manifest_of (\<lambda>_. example_hash) (lit ''site'') 86400000 1 [example_public]"
  let ?plan = "plan_of example_policy [example_public]"
  let ?rs = "all_records 0 [example_batch]"
  have site: "eh_siteId run_example_header = pol_siteId example_policy"
    by (simp add: run_example_header_def example_header_def example_policy_def)
  obtain chunks cs f where run: "writeNewsletterRetentionEscrow (\<lambda>_. example_hash) accepting (writer_input run_example_header) (?rs, Inr ())
      = (chunks, Inr (verification_of run_example_header f))"
    and cs: "normalizeCandidates (JArr [example_candidate_input]) example_policy = Inr cs"
    and counts: "ef_counts f = \<lparr>ec_batches = int (length cs), ec_messages = messages_sum cs,
          ec_errors = (\<Sum>c\<leftarrow>cs. lc_errorCount c), ec_notifications = (\<Sum>c\<leftarrow>cs. lc_notificationCount c)\<rparr>"
    using snapshot_written_as [where sha = "\<lambda>_. example_hash", OF run_policy_object example_run_stream run_header_ok site example_times
        example_hash_ok run_example_room] by blast
  define v where "v = verification_of run_example_header f"
  have written: "writeNewsletterRetentionEscrow (\<lambda>_. example_hash) accepting (writer_input run_example_header) (?rs, Inr ()) = (chunks, Inr v)"
    using run by (simp add: v_def)
  have "cs = [example_escrow_candidate]" using cs example_candidates by simp
  then have counts: "vr_counts v = \<lparr>ec_batches = 1, ec_messages = 1, ec_errors = 0, ec_notifications = 1\<rparr>"
    using counts by (simp add: v_def verification_of_def example_escrow_candidate_def messages_sum_def)
  have header: "vr_siteId v = lit ''site''" "vr_cutoff v = to_iso 86400000" "vr_policyVersion v = 1" "vr_publicManifestHash v = example_hash"
    by (simp_all add: v_def verification_of_def run_example_header_def example_header_def)
  have "assertEscrowMatchesPlan v ?plan ?m = Inr ()"
    using counts header
    by (simp add: assertEscrowMatchesPlan_def plan_of_def manifest_of_def example_policy_def example_public_def
        RetentionPolicy.hashCanonicalJson_def)
  moreover have "obj [(''header'', run_header example_policy ?m (JStr example_hash)),
             (''records'', obj [(''Symbol.asyncIterator'', JFun)]), (''writeChunk'', JFun)] = writer_input run_example_header"
    by (simp add: writer_input_def run_header_def header_object_def run_example_header_def example_header_def example_policy_def
        manifest_of_def RetentionPolicy.hashCanonicalJson_def)
  ultimately have work: "fst (escrow_work (\<lambda>_. example_hash) accepting example_escrow_delegate example_policy example_input []) =
      Inr \<lparr>dr_policyVersion = 1, dr_plan = ?plan, dr_manifest = ?m, er_escrow = v\<rparr>"
    using written by (simp add: escrow_work_def example_run_plan example_input_props example_run_stream)
  have "normalizeDryRunPolicy example_policy_input = Inr example_policy"
    using example_policy_parses by (simp add: normalizeDryRunPolicy_def example_policy_input_def)
  then have "prepare_run ''escrow dry-run'' example_input no_locks
      = Inr (example_policy, \<lparr>lock_name = lit ''site'', lock_token = 0\<rparr>, no_locks\<lparr>next_token := 1\<rparr>)"
    using example_evidence_accepted
    by (auto simp: prepare_run_def example_input_props createProcessLocalAntiOverlapLock_def normalizeLockName_def
        example_policy_def no_locks_def)
  then show ?thesis
    using work
    by (auto simp: buildNewsletterRetentionEscrowDryRunResult_def withProcessLocalAntiOverlapLock_def lock_tryAcquire_def
        no_locks_def split_beta)
qed

section \<open>Property\<close>

text \<open>
  C9: an escrow dry run leaves a verified file that matches its plan. However a run ends, the lock
  names that are taken are the ones taken before. When it returns, the policy did not ask to apply, the manifest
  lists exactly the plan's batches under the canonical hash, within the caps of the policy, the chunks written are a file
  the streaming verifier accepts with the returned result, and that result passes the check an apply run
  makes of an escrow against the manifest.
\<close>

theorem escrow_dry_run_is_consistent:
  "held_tokens (fst (snd (buildNewsletterRetentionEscrowDryRunResult sha sink d input tbl))) = held_tokens tbl
   \<and> (\<forall>r. fst (buildNewsletterRetentionEscrowDryRunResult sha sink d input tbl) = Inr r \<longrightarrow>
       (\<exists>policy. normalizeDryRunPolicy (get_prop input ''policy'') = Inr policy \<and> held_tokens tbl (pol_siteId policy) = None
          \<and> pol_dryRun policy \<and> plan_manifest sha policy (dr_plan r) (dr_manifest r)
          \<and> assertEscrowMatchesManifest (er_escrow r) (dr_manifest r) = Inr ()
          \<and> verify_lines sha default_options
              (map chunk_line (snd (snd (buildNewsletterRetentionEscrowDryRunResult sha sink d input tbl)))) = Inr (er_escrow r)))"
proof (cases "prepare_run ''escrow dry-run'' input tbl")
  case (Inl e)
  then show ?thesis by (simp add: buildNewsletterRetentionEscrowDryRunResult_def)
next
  case (Inr prepared)
  obtain policy lk tbl' where p: "prepared = (policy, lk, tbl')" by (cases prepared)
  note lock = prepared_lock [OF Inr [unfolded p]]
  let ?work = "\<lambda>(t :: lock_table, chunks). case escrow_work sha sink d policy input chunks of (r, chunks') \<Rightarrow> (r, t, chunks')"
  have run: "buildNewsletterRetentionEscrowDryRunResult sha sink d input tbl = withProcessLocalAntiOverlapLock lk ?work (tbl', [])"
    using Inr p by (simp add: buildNewsletterRetentionEscrowDryRunResult_def)
  have "held_tokens (fst (snd (withProcessLocalAntiOverlapLock lk ?work (tbl', [])))) = held_tokens tbl"
    using lock by (subst with_lock_restores) (simp_all add: split_beta)
  moreover have "normalizeDryRunPolicy (get_prop input ''policy'') = Inr policy \<and> held_tokens tbl (pol_siteId policy) = None
      \<and> pol_dryRun policy \<and> plan_manifest sha policy (dr_plan r) (dr_manifest r)
      \<and> assertEscrowMatchesManifest (er_escrow r) (dr_manifest r) = Inr ()
      \<and> verify_lines sha default_options (map chunk_line (snd (snd (withProcessLocalAntiOverlapLock lk ?work (tbl', []))))) = Inr (er_escrow r)"
    if "fst (withProcessLocalAntiOverlapLock lk ?work (tbl', [])) = Inr r" for r
  proof -
    define s' where "s' = snd (withProcessLocalAntiOverlapLock lk ?work (tbl', []))"
    then have s': "withProcessLocalAntiOverlapLock lk ?work (tbl', []) = (Inr r, s')" using that by (simp add: prod_eq_iff)
    obtain t where t: "held_tokens tbl' (lock_name lk) = None" "fst (?work (t, [])) = Inr r" "snd (snd (?work (t, []))) = snd s'"
      using with_lock_result [OF s'] unfolding fst_conv snd_conv by blast
    have free: "held_tokens tbl (pol_siteId policy) = None" using t(1) lock by simp
    have work: "escrow_work sha sink d policy input [] = (Inr r, snd s')"
      using t(2,3) by (cases "escrow_work sha sink d policy input []") simp
    obtain r0 chunks escrow where parts: "plan_and_manifest sha policy input = Inr r0"
      "writeNewsletterRetentionEscrow sha sink
           (obj [(''header'', run_header policy (dr_manifest r0) (get_prop input ''schemaFingerprint'')),
             (''records'', obj [(''Symbol.asyncIterator'', JFun)]), (''writeChunk'', JFun)])
           (streamNewsletterRetentionEscrowRecords d (parsed_policy_object policy) (get_prop input ''candidates'')) = (chunks, Inr escrow)"
      "assertEscrowMatchesPlan escrow (dr_plan r0) (dr_manifest r0) = Inr ()" "chunks = snd s'"
      "r = \<lparr>dr_policyVersion = dr_policyVersion r0, dr_plan = dr_plan r0, dr_manifest = dr_manifest r0, er_escrow = escrow\<rparr>"
      using work by (auto simp: escrow_work_def split: sum.splits prod.splits)
    have "pol_dryRun policy"
      using lock by (auto simp: normalizeDryRunPolicy_def parseNewsletterRetentionPolicy_def split: if_splits)
    moreover have plan: "plan_manifest sha policy (dr_plan r0) (dr_manifest r0)"
      using plan_and_manifest_ok [OF parts(1)] parsed_policy_cap lock by blast
    moreover have "verify_lines sha default_options (map chunk_line chunks) = Inr escrow"
      using write_verified [OF parts(2)] by blast
    ultimately show ?thesis using lock free matches_plan_manifest [OF plan parts(3)] by (simp add: parts(4,5) s')
  qed
  ultimately show ?thesis unfolding run by blast
qed

theorem escrow_dry_run_is_consistent_witness:
  "\<exists>r. fst (buildNewsletterRetentionEscrowDryRunResult (\<lambda>_. example_hash) accepting example_escrow_delegate example_input no_locks) = Inr r
     \<and> assertEscrowMatchesManifest (er_escrow r) (dr_manifest r) = Inr ()"
  using escrow_run_example escrow_dry_run_is_consistent [of "\<lambda>_. example_hash" accepting example_escrow_delegate example_input no_locks]
  by blast

end
