(* ===== verification/EscrowHandover.thy ===== *)
theory EscrowHandover
  imports EscrowFile DryRun
begin

text \<open>
  From the dry run to the apply run: the file the writer's chunks make up is one the source opens, and
  it hands out the batches of the snapshot. A canonical line holds no line feed, so the lines that are
  read are the lines that were written.
\<close>

section \<open>No line feed inside a line\<close>

lemma hex_unit_not_lf: "n < 16 \<Longrightarrow> hex_unit n \<noteq> 10"
proof -
  assume "n < 16"
  then have "unat (hex_unit n) \<ge> 48" by (simp add: hex_unit_def unat_small del: of_nat_add)
  then show ?thesis by auto
qed

lemma unicode_escape_no_lf: "10 \<notin> set (unicode_escape c)"
proof -
  have "unat c div 4096 < 16" using unat_unit16_less [of c] by (simp add: div_less_iff_less_mult)
  then show ?thesis using hex_unit_not_lf [symmetric] by (auto simp: unicode_escape_def hex4_def Let_def)
qed

lemma surrogate_not_lf: "is_high_surrogate c \<Longrightarrow> c \<noteq> 10" "is_low_surrogate c \<Longrightarrow> c \<noteq> 10"
  by (auto simp: is_high_surrogate_def is_low_surrogate_def)

lemma quote_units_no_lf: "10 \<notin> set (quote_units s)"
proof (induction s rule: quote_units.induct)
  case (3 c d s)
  then show ?case using surrogate_not_lf [of c] surrogate_not_lf [of d] unicode_escape_no_lf [of c]
    by (auto simp: quote_unit_def)
qed (use unicode_escape_no_lf in \<open>auto simp: quote_unit_def\<close>)

lemma join_no_lf: "10 \<notin> set sep \<Longrightarrow> \<forall>t \<in> set ts. 10 \<notin> set t \<Longrightarrow> 10 \<notin> set (join_with sep ts)"
  by (induction sep ts rule: join_with.induct) auto

lemma int_string_no_lf: "10 \<notin> set (int_string n)"
proof -
  have "\<not> is_digit 10" by (simp add: is_digit_def)
  then have "10 \<notin> set (dec_string m)" if "0 \<le> m" for m
    using dec_string_digits [OF that] by (auto simp: is_digits_def list_all_iff)
  moreover have "lit ''-'' = [45]" by code_simp
  ultimately show ?thesis by (simp add: int_string_def)
qed

lemma json_text_no_lf: "plain v \<Longrightarrow> 10 \<notin> set (json_text v)"
proof (induction v)
  case (JArr vs)
  then have "\<forall>t \<in> set (map json_text vs). 10 \<notin> set t" by (auto simp: list_all_iff)
  then show ?case using JArr.prems by (simp add: json_text_arr join_no_lf)
next
  case (JObj p kvs)
  have "10 \<notin> set (json_text v)" if "v \<in> set (map snd kvs)" for v
    using JObj that by (fastforce simp: list_all_iff)
  then have "\<forall>t \<in> set (map member_text kvs). 10 \<notin> set t"
    using quote_units_no_lf by (fastforce simp: member_text_def json_quote_def)
  then show ?case using JObj.prems by (simp add: json_text_obj join_no_lf)
next
  case (JNum x)
  then show ?case using int_string_no_lf by (auto simp: json_text_simps(5) safe_int_of_num_Some_iff)
next
  case (JBool b)
  then show ?case by (cases b) (simp_all add: json_text_simps)
qed (simp_all add: json_text_simps json_quote_def quote_units_no_lf)

lemma unat_byte_small: "n < 256 \<Longrightarrow> unat (byte_of n) = n"
  by (simp add: byte_of_def unsigned_of_nat take_bit_nat_eq_self)

lemma byte_of_not_lf: "128 \<le> n \<Longrightarrow> n < 256 \<Longrightarrow> byte_of n \<noteq> 10"
proof
  assume n: "128 \<le> n" "n < 256" and "byte_of n = 10"
  then have "unat (byte_of n) = 10" by simp
  then show False using n by (simp add: unat_byte_small)
qed

lemma code_point_lf: "n < 2097152 \<Longrightarrow> 10 \<in> set (code_point_bytes n) \<Longrightarrow> n = 10"
proof -
  assume n: "n < 2097152" and lf: "10 \<in> set (code_point_bytes n)"
  have b: "byte_of (128 + k mod 64) \<noteq> 10" for k using byte_of_not_lf [of "128 + k mod 64"] by simp
  have c: "byte_of (192 + n div 64) \<noteq> 10" if "n < 2048" using byte_of_not_lf [of "192 + n div 64"] that by simp
  have d: "byte_of (224 + n div 4096) \<noteq> 10" if "n < 65536" using byte_of_not_lf [of "224 + n div 4096"] that by simp
  have e: "byte_of (240 + n div 262144) \<noteq> 10" using byte_of_not_lf [of "240 + n div 262144"] n by simp
  have "n < 128" using lf b c d e unfolding code_point_bytes_def by (auto split: if_splits simp del: of_nat_add dest: sym)
  moreover from this have "byte_of n = 10" using lf by (auto simp: code_point_bytes_def)
  then have "unat (byte_of n) = 10" by simp
  ultimately show ?thesis by (simp add: unat_byte_small)
qed

lemma surrogate_code_point_bounds:
  "is_high_surrogate c \<Longrightarrow> is_low_surrogate d \<Longrightarrow> 65536 \<le> surrogate_code_point c d \<and> surrogate_code_point c d < 2097152"
  by (auto simp: surrogate_code_point_def is_high_surrogate_def is_low_surrogate_def)

lemma utf8_encode_lf: "10 \<in> set (utf8_encode s) \<Longrightarrow> 10 \<in> set s"
proof (induction s rule: utf8_encode.induct)
  case (2 c)
  have "c = 10" if "unat c = 10" using that by (metis of_nat_numeral of_nat_unat ucast_id)
  moreover have "(if is_high_surrogate c \<or> is_low_surrogate c then 65533 else unat c) = 10"
    using 2 unat_unit16_less [of c] by (intro code_point_lf) (simp_all split: if_splits)
  ultimately show ?case by (simp split: if_splits)
next
  case (3 c d s)
  have "c = 10" if "unat c = 10" using that by (metis of_nat_numeral of_nat_unat ucast_id)
  moreover have "10 \<notin> set (code_point_bytes 65533)" using code_point_lf [of 65533] by auto
  moreover have "10 \<notin> set (code_point_bytes (surrogate_code_point c d))" if "is_high_surrogate c" "is_low_surrogate d"
    using surrogate_code_point_bounds [OF that] code_point_lf [of "surrogate_code_point c d"] by auto
  moreover have "unat c = 10" if "10 \<in> set (code_point_bytes (unat c))"
    using code_point_lf [OF _ that] unat_unit16_less [of c] by simp
  ultimately show ?case using 3 by (auto split: if_splits)
qed simp

lemma line_bytes_no_lf: "line_ok p \<Longrightarrow> 10 \<notin> set (utf8_encode (line_text p))"
  using line_text_object [of p] json_text_no_lf utf8_encode_lf by metis

section \<open>The chunks of a finished writer\<close>

lemma written_items:
  assumes "writeNewsletterRetentionEscrow sha sink input stream = (chunks, Inr v)"
  shows "\<exists>h f. chunks = map (\<lambda>p. utf8_encode (line_text p @ [10])) (HeaderLine h # map RecordLine (fst stream) @ [FooterLine f])
     \<and> list_all line_ok (HeaderLine h # map RecordLine (fst stream) @ [FooterLine f])"
proof -
  obtain h w1 w2 w3 u u' where run: "assertWriterInput input = Inr ()"
    "normalizeEscrowHeader (get_prop input ''header'') = Inr h"
    "write_hashed_line sha sink (line_text (HeaderLine h)) Inr (new_writer default_accumulator) = (w1, Inr u)"
    "write_records sha sink (fst stream) (snd stream) w1 = (w2, Inr u')"
    "write_footer sha sink w2 = (w3, Inr v)" "chunks = wr_chunks w3"
    by (rule write_cases [OF assms])
  have "line_ok (HeaderLine h)" using run(2) by (simp add: header_Inr_iff)
  then have "written sha w1 ([] @ [HeaderLine h])"
    using write_hashed_line_written [OF run(3) _ new_writer_written] by blast
  note records = write_records_written [OF run(4) this]
  then obtain f where "sent sha w3 (([] @ [HeaderLine h] @ map RecordLine (fst stream)) @ [FooterLine f])"
    using write_footer_written [OF run(5)] by fastforce
  then show ?thesis by (auto simp: sent_def run(6))
qed

lemma line_text_inject: "line_ok p \<Longrightarrow> line_ok q \<Longrightarrow> line_text p = line_text q \<Longrightarrow> p = q"
  using parse_line_text by (metis Inr_inject)

lemma written_bytes:
  assumes "writeNewsletterRetentionEscrow sha sink input stream = (chunks, Inr v)"
  shows "\<exists>ls h bs f. concat chunks = unlines ls \<and> (\<forall>l \<in> set ls. 10 \<notin> set l)
     \<and> verify_lines sha default_options (map ByteLine ls) = Inr v
     \<and> reads_as (map ByteLine ls) (open_items h bs @ [FooterLine f]) \<and> fst stream = all_records 0 bs"
proof -
  obtain h f where items: "chunks = map (\<lambda>p. utf8_encode (line_text p @ [10])) (HeaderLine h # map RecordLine (fst stream) @ [FooterLine f])"
      "list_all line_ok (HeaderLine h # map RecordLine (fst stream) @ [FooterLine f])"
    using written_items [OF assms] by blast
  define ps where "ps = HeaderLine h # map RecordLine (fst stream) @ [FooterLine f]"
  define ls where "ls = map (\<lambda>p. utf8_encode (line_text p)) ps"
  have ok: "\<forall>p \<in> set ps. line_ok p" using items(2) by (simp add: ps_def list_all_iff)
  have chunks: "chunks = map (\<lambda>l. l @ [10]) ls"
    unfolding items(1) ps_def [symmetric] ls_def map_map comp_def
    by (rule map_cong [OF refl]) (use ok in \<open>simp add: line_chunk\<close>)
  have "map chunk_line chunks = map ByteLine ls" by (simp add: chunks chunk_line_def)
  then have verified: "verify_lines sha default_options (map ByteLine ls) = Inr v"
    using write_verified [OF assms] by simp
  then obtain h' bs f' where grammar: "reads_as (map ByteLine ls) (open_items h' bs @ [FooterLine f'])"
    unfolding verify_lines_iff by blast
  have "text_of (ByteLine (utf8_encode (line_text p))) = Some (line_text p)" if "p \<in> set ps" for p
    using decode_line that ok by (simp add: text_of_def)
  then have "map text_of (map ByteLine ls) = map (\<lambda>p. Some (line_text p)) ps" by (simp add: ls_def)
  then have "map line_text ps = map line_text (open_items h' bs @ [FooterLine f'])"
    using grammar unfolding reads_as_def by (metis (no_types, lifting) map_eq_conv map_map comp_apply option.map_comp option.sel list.map_comp)
  moreover have "list_all line_ok (open_items h' bs @ [FooterLine f'])" using grammar by (simp add: reads_as_def)
  ultimately have "ps = open_items h' bs @ [FooterLine f']"
    using ok line_text_inject by (intro map_inj_on [of line_text]) (auto simp: inj_on_def list_all_iff)
  then have "fst stream = all_records 0 bs" by (auto simp: ps_def open_items_def dest: map_injective [OF _ injI])
  moreover have "\<forall>l \<in> set ls. 10 \<notin> set l" using ok line_bytes_no_lf by (auto simp: ls_def)
  ultimately show ?thesis using verified grammar by (auto simp: chunks unlines_def)
qed


section \<open>Opening what was written\<close>

text \<open>The operating system's answers about a file that nobody touches.\<close>

definition untouched_file :: "int option \<Rightarrow> file_identity \<Rightarrow> byte list \<Rightarrow> opened_file \<Rightarrow> bool" where
  "untouched_file uid i bytes file \<longleftrightarrow> of_parent file = Inr () \<and> of_open file = Inr ()
     \<and> readEscrowFileIdentity uid (of_firstStat file) = Inr i \<and> readEscrowFileIdentity uid (of_secondStat file) = Inr i
     \<and> reads_whole (of_firstReads file) bytes \<and> reads_whole (of_secondReads file) bytes"

lemma verified_lines_fit:
  assumes "verify_lines sha default_options (map ByteLine ls) = Inr v"
  shows "list_all (\<lambda>l. int (length l) \<le> MAX_LINE_BYTES) ls" "int (length (unlines ls)) \<le> hardFileBytes"
proof -
  have sizes: "sizes_ok default_accumulator (map ByteLine ls)"
    using assms unfolding verify_lines_iff create_default by auto
  then show "list_all (\<lambda>l. int (length l) \<le> MAX_LINE_BYTES) ls"
    by (simp add: sizes_ok_def byte_size_def default_accumulator_def fresh_accumulator_def list_all_iff)
  have "int (length (unlines ls)) = total_size (map ByteLine ls)"
    by (induction ls) (simp_all add: unlines_def total_size_def byte_size_def)
  moreover have "total_size (map ByteLine ls) \<le> MAX_TOTAL_BYTES"
    using sizes by (simp add: sizes_ok_def default_accumulator_def fresh_accumulator_def)
  ultimately show "int (length (unlines ls)) \<le> hardFileBytes" by (simp add: hardFileBytes_def MAX_RECORDS_def)
qed

lemma verified_file_opens:
  assumes "verify_lines sha default_options (map ByteLine ls) = Inr v" "\<forall>l \<in> set ls. 10 \<notin> set l"
    and "path_ok path" "untouched_file uid i (unlines ls) (files path)"
  shows "\<exists>src. openVerifiedNewsletterRetentionEscrowSource sha uid files path = Inr src \<and> vs_verification src = v \<and> vs_identity src = i"
proof -
  have normal: "normalizeAbsolutePath path ''escrow file'' = Inr path" using assms(3) by (simp add: path_ok_iff)
  note kept = assms(4) [unfolded untouched_file_def]
  have "escrow_file_lines (of_firstReads (files path)) = (ls, Inr ())"
    using file_lines_iff [of "of_firstReads (files path)" "unlines ls" ls] kept split_newlines_unlines [OF assms(2)]
      verified_lines_fit [OF assms(1)] by simp
  then have "read_and_verify sha (of_firstReads (files path)) = Inr v"
    using assms(1) by (simp add: read_and_verify_def verify_lines_def)
  then show ?thesis
    using kept normal identity_unchanged [of uid "of_secondStat (files path)" i]
    by (simp add: openVerifiedNewsletterRetentionEscrowSource_def Let_def)
qed

lemma written_file_served:
  assumes run: "writeNewsletterRetentionEscrow sha sink input stream = (chunks, Inr v)"
    and path: "path_ok path" and kept: "untouched_file uid i (concat chunks) (files path)"
    and st: "readEscrowFileIdentity uid st = Inr i"
  shows "\<exists>src bs. openVerifiedNewsletterRetentionEscrowSource sha uid files path = Inr src \<and> vs_verification src = v
     \<and> fst stream = all_records 0 bs \<and> read_batches uid st 0 (length bs) src = map Inr (indexed_batches 0 bs)"
proof -
  obtain ls h bs f where ls: "concat chunks = unlines ls" "\<forall>l \<in> set ls. 10 \<notin> set l"
      "verify_lines sha default_options (map ByteLine ls) = Inr v"
      "reads_as (map ByteLine ls) (open_items h bs @ [FooterLine f])" "fst stream = all_records 0 bs"
    using written_bytes [OF run] by blast
  obtain src where src: "openVerifiedNewsletterRetentionEscrowSource sha uid files path = Inr src" "vs_verification src = v"
      "vs_identity src = i"
    using verified_file_opens [where files = files, OF ls(3,2) path] kept [unfolded ls(1)] by blast
  have reads: "escrow_file_lines (of_secondReads (files path)) = (ls, Inr ())"
    using file_lines_iff [of "of_secondReads (files path)" "unlines ls" ls] kept split_newlines_unlines [OF ls(2)]
      verified_lines_fit [OF ls(3)] by (simp add: untouched_file_def ls(1))
  then have "iterateVerifiedEscrowRecords (of_secondReads (files path)) = (all_records 0 bs, Inr ())"
    using file_records [OF ls(4)] by (simp add: iterateVerifiedEscrowRecords_def)
  then have "serves_from src 0 bs"
    using src(1) by (auto simp: openVerifiedNewsletterRetentionEscrowSource_def path_ok_iff Let_def serves_from_def split: sum.splits)
  then show ?thesis using serves_all [of src 0 bs uid st] src st ls(5) by auto
qed

text \<open>The example snapshot as a file.\<close>

definition example_stat :: file_stat where
  "example_stat = \<lparr>fs_isFile = True, fs_mode = 33024, fs_nlink = 1, fs_uid = 1000, fs_size = 1, fs_dev = 1, fs_ino = 2,
     fs_mtimeMs = 0, fs_ctimeMs = 0\<rparr>"

definition example_identity :: file_identity where
  "example_identity = \<lparr>fi_dev = 1, fi_ino = 2, fi_size = 1, fi_mtimeMs = 0, fi_ctimeMs = 0\<rparr>"

definition example_file :: "byte list \<Rightarrow> opened_file" where
  "example_file bytes = \<lparr>of_parent = Inr (), of_open = Inr (), of_firstStat = Inr example_stat,
     of_firstReads = ([bytes], Inr ()), of_secondStat = Inr example_stat, of_secondReads = ([bytes], Inr ())\<rparr>"

lemma example_stat_ok: "readEscrowFileIdentity (Some 1000) (Inr example_stat) = Inr example_identity"
  by (simp add: readEscrowFileIdentity_def example_stat_def example_identity_def hardFileBytes_def MAX_TOTAL_BYTES_def
      MAX_RECORDS_def max_safe_def)

lemma example_path_ok: "path_ok (lit ''/e'')"
proof -
  have "trim (lit ''/e'') = lit ''/e''" by (simp add: trim_def lit_def is_ws_def)
  moreover have "lit ''/e'' = 47 # join_unit 47 [[101]]" by (simp add: lit_def)
  moreover have "list_all path_name [[101]]" by (simp add: path_name_def)
  ultimately show ?thesis unfolding path_ok_def by blast
qed

lemma example_snapshot_written:
  "\<exists>chunks v. writeNewsletterRetentionEscrow (\<lambda>_. example_hash) accepting (writer_input run_example_header)
      (all_records 0 [example_batch], Inr ()) = (chunks, Inr v)"
proof -
  have site: "eh_siteId run_example_header = pol_siteId example_policy"
    by (simp add: run_example_header_def example_header_def example_policy_def)
  show ?thesis
    using snapshot_written_as [where sha = "\<lambda>_. example_hash", OF run_policy_object example_run_stream run_header_ok site example_times
        example_hash_ok run_example_room] by blast
qed

lemma untouched_example: "bytes \<noteq> [] \<Longrightarrow> untouched_file (Some 1000) example_identity bytes (example_file bytes)"
  by (simp add: untouched_file_def example_file_def example_stat_ok reads_whole_def)

lemma example_bytes:
  assumes "writeNewsletterRetentionEscrow sha sink input stream = (chunks, Inr v)"
  shows "concat chunks \<noteq> []"
proof -
  obtain h f where "chunks = map (\<lambda>p. utf8_encode (line_text p @ [10])) (HeaderLine h # map RecordLine (fst stream) @ [FooterLine f])"
      "line_ok (HeaderLine h)"
    using written_items [OF assms] by auto
  then show ?thesis by (simp add: line_chunk del: line_text.simps line_ok.simps)
qed

text \<open>
  C11: what a dry run writes is what the apply run reads. When the writer has returned and its chunks, put
  together, are the bytes of a file at a normalized absolute path whose metadata are those of a private file and stay the same,
  the source opens with the writer's verification result, in reads of whatever sizes; and asked for batch 0, 1, 2, ... it
  hands out the records of the snapshot, each batch whole.
\<close>

theorem written_escrow_is_served:
  assumes "writeNewsletterRetentionEscrow sha sink input stream = (chunks, Inr v)"
    and "path_ok path" "untouched_file uid i (concat chunks) (files path)"
    and "readEscrowFileIdentity uid st = Inr i"
  shows "\<exists>src bs. openVerifiedNewsletterRetentionEscrowSource sha uid files path = Inr src \<and> vs_verification src = v
     \<and> fst stream = all_records 0 bs \<and> read_batches uid st 0 (length bs) src = map Inr (indexed_batches 0 bs)"
  by (rule written_file_served [where files = files, OF assms])

theorem written_escrow_is_served_witness:
  "\<exists>bytes src bs. openVerifiedNewsletterRetentionEscrowSource (\<lambda>_. example_hash) (Some 1000) (\<lambda>_. example_file bytes) (lit ''/e'') = Inr src
     \<and> all_records 0 [example_batch] = all_records 0 bs
     \<and> read_batches (Some 1000) (Inr example_stat) 0 (length bs) src = map Inr (indexed_batches 0 bs)"
proof -
  obtain chunks v where run: "writeNewsletterRetentionEscrow (\<lambda>_. example_hash) accepting (writer_input run_example_header)
      (all_records 0 [example_batch], Inr ()) = (chunks, Inr v)"
    using example_snapshot_written by blast
  from written_escrow_is_served [where files = "\<lambda>_. example_file (concat chunks)", OF run example_path_ok _ example_stat_ok]
    untouched_example [OF example_bytes [OF run]]
  show ?thesis unfolding fst_conv by blast
qed

text \<open>
  C10: the source only hands out what was verified. When the source opens on a file whose two readings give the same bytes, those
  bytes are a file the streaming verifier accepts with the result the source carries; as long as the
  metadata stay the same, the batches it hands out in order are the batches of that file; and a request out of
  order, after closing or with changed metadata gives an error.
\<close>

theorem source_serves_verified_file:
  assumes "openVerifiedNewsletterRetentionEscrowSource sha uid files path = Inr src"
    and "reads_whole (of_firstReads (files path)) bytes" "reads_whole (of_secondReads (files path)) bytes"
  shows "\<exists>ls h bs f. bytes = unlines ls \<and> reads_as (map ByteLine ls) (open_items h bs @ [FooterLine f])
     \<and> verify_lines sha default_options (map ByteLine ls) = Inr (vs_verification src) \<and> vs_verification src = verification_of h f
     \<and> (\<forall>st. readEscrowFileIdentity uid st = Inr (vs_identity src)
          \<longrightarrow> read_batches uid st 0 (length bs) src = map Inr (indexed_batches 0 bs))
     \<and> (\<forall>before after i s. vs_closed s \<or> i \<noteq> vs_next s \<or> assertEscrowFileIdentity uid before (vs_identity s) \<noteq> Inr ()
          \<or> assertEscrowFileIdentity uid after (vs_identity s) \<noteq> Inr () \<longrightarrow> isl (fst (readBatchRecords uid before after i s)))"
proof -
  obtain ls h bs f where src: "bytes = unlines ls" "reads_as (map ByteLine ls) (open_items h bs @ [FooterLine f])"
      "verify_lines sha default_options (map ByteLine ls) = Inr (vs_verification src)" "vs_verification src = verification_of h f"
      "serves_from src 0 bs"
    using opened_source [OF assms] by blast
  have "isl (fst (readBatchRecords uid before after i s))"
    if "vs_closed s \<or> i \<noteq> vs_next s \<or> assertEscrowFileIdentity uid before (vs_identity s) \<noteq> Inr ()
          \<or> assertEscrowFileIdentity uid after (vs_identity s) \<noteq> Inr ()" for before after i s
    using that by (auto simp: readBatchRecords_def bindE_def split: sum.splits prod.splits)
  then show ?thesis using src serves_all [OF src(5)] by blast
qed

theorem source_serves_verified_file_witness:
  "\<exists>bytes src ls. openVerifiedNewsletterRetentionEscrowSource (\<lambda>_. example_hash) (Some 1000) (\<lambda>_. example_file bytes) (lit ''/e'') = Inr src
     \<and> bytes = unlines ls \<and> verify_lines (\<lambda>_. example_hash) default_options (map ByteLine ls) = Inr (vs_verification src)"
proof -
  obtain chunks v where run: "writeNewsletterRetentionEscrow (\<lambda>_. example_hash) accepting (writer_input run_example_header)
      (all_records 0 [example_batch], Inr ()) = (chunks, Inr v)"
    using example_snapshot_written by blast
  let ?files = "\<lambda>_. example_file (concat chunks)"
  obtain src where src: "openVerifiedNewsletterRetentionEscrowSource (\<lambda>_. example_hash) (Some 1000) ?files (lit ''/e'') = Inr src"
    using written_file_served [where files = ?files, OF run example_path_ok _ example_stat_ok]
      untouched_example [OF example_bytes [OF run]] by blast
  have whole: "reads_whole (of_firstReads (?files (lit ''/e''))) (concat chunks)" "reads_whole (of_secondReads (?files (lit ''/e''))) (concat chunks)"
    using example_bytes [OF run] by (simp_all add: example_file_def reads_whole_def)
  from source_serves_verified_file [where files = ?files, OF src whole] src show ?thesis by blast
qed

end
