(* ===== verification/RetentionCli.thy ===== *)
theory RetentionCli
  imports RetentionApplier EscrowHandover
begin

text \<open>
  The retention command (\<^verbatim>\<open>executeNewsletterRetentionCli\<close> in service/newsletter-retention-cli.ts): options,
  evidence, and the dry run or the apply run. Its dependencies are a record: the database, the lock
  provider, the clock, the files. The state is the database, the lock provider's state, and \<open>cli_io\<close>:
  the process-local lock names and the files written so far.
\<close>

section \<open>Dependencies\<close>

text \<open>
  \<open>cd_openOutput\<close> and \<open>cd_publish\<close> are the steps of an output file before and after its content is produced,
  \<open>cd_sink\<close> says which chunks the file takes; \<open>cd_stats\<close> gives the two \<^verbatim>\<open>stat\<close>s around the reading of each batch.
\<close>

record ('db, 'lk) cli_dependencies =
  cd_database :: "'db apply_database"
  cd_candidates :: "'db \<Rightarrow> candidate_delegate"
  cd_createLockProvider :: "'lk lock_provider res"
  cd_now :: js
  cd_schemaFingerprint :: "jstr res"
  cd_openOutput :: "jstr \<Rightarrow> unit res"
  cd_sink :: "jstr \<Rightarrow> sink"
  cd_publish :: "jstr \<Rightarrow> byte list \<Rightarrow> unit res"
  cd_readJsonFile :: "jstr \<Rightarrow> string \<Rightarrow> js res"
  cd_writeJsonFile :: "jstr \<Rightarrow> js \<Rightarrow> nat \<Rightarrow> unit res"
  cd_uid :: "int option"
  cd_files :: "jstr \<Rightarrow> opened_file"
  cd_stats :: "jstr \<Rightarrow> nat \<Rightarrow> file_stat res \<times> file_stat res"
  cd_close :: "unit res"

record cli_io =
  io_locks :: lock_table
  io_escrows :: "(jstr \<times> byte list list) list"
  io_jsons :: "(jstr \<times> js \<times> nat) list"

record dry_run_output =
  do_siteId :: jstr
  do_cutoff :: jstr
  do_policyVersion :: int
  do_batchCount :: int
  do_totals :: selection_totals
  do_manifest :: retention_manifest
  do_escrowWritten :: bool
  do_contentHash :: "jstr option"
  do_schemaFingerprint :: "jstr option"
  do_artifactWritten :: bool
  do_artifactHash :: "jstr option"

datatype cli_output = DryRunOutput dry_run_output | ApplyOutput apply_receipt

section \<open>Evidence\<close>

text \<open>
  The clock is the parameter \<open>cd_now\<close>. A clock past the year 9999 is refused by
  \<^verbatim>\<open>parseNewsletterRetentionEvidence\<close> whatever \<open>date_parse\<close> makes of it here.
\<close>

definition normalizeNow :: "js \<Rightarrow> jstr res" where
  "normalizeNow v = (case v of JDate (Some t) \<Rightarrow> Inr (to_iso t)
     | _ \<Rightarrow> Inl (CliError ''newsletter retention current time is invalid''))"

definition MAX_DLQ_EVIDENCE_AGE_MS :: int where
  "MAX_DLQ_EVIDENCE_AGE_MS = 15 * 60000"

definition parseCliEvidence :: "js \<Rightarrow> jstr \<Rightarrow> retention_evidence res" where
  "parseCliEvidence v now =
     (if \<not> is_plain_object v then Inl (CliError ''newsletter retention evidence file is invalid'')
      else let dlq = get_prop v ''dlq'' in
        if \<not> is_plain_object dlq \<or> get_prop dlq ''healthy'' \<noteq> JBool True
        then Inl (CliError ''newsletter retention DLQ evidence is invalid'')
        else bindE (parse_strict_utc (get_prop dlq ''checkedAt'') (CliError ''DLQ evidence timestamp is invalid'')) (\<lambda>checked.
          if (case date_parse now of None \<Rightarrow> False | Some nowMs \<Rightarrow> checked > nowMs \<or> nowMs - checked > MAX_DLQ_EVIDENCE_AGE_MS)
          then Inl (CliError ''newsletter retention DLQ evidence is stale'')
          else (case parseNewsletterRetentionEvidence (obj [(''now'', JStr now), (''backup'', get_prop v ''backup''),
                   (''restore'', get_prop v ''restore''), (''health'', get_prop v ''health'')]) of
              Inl _ \<Rightarrow> Inl (CliError ''newsletter retention operational evidence is invalid or stale'')
            | Inr e \<Rightarrow> Inr e)))"

text \<open>The parsed evidence as the object it is.\<close>

definition evidence_object :: "retention_evidence \<Rightarrow> js" where
  "evidence_object e = obj [(''now'', JStr (ev_now e)),
     (''backup'', obj [(''verifiedAt'', JStr (ev_backup_verifiedAt e)), (''restoredAt'', JStr (ev_backup_restoredAt e))]),
     (''restore'', obj [(''verifiedAt'', JStr (ev_restore_verifiedAt e)), (''restoredAt'', JStr (ev_restore_restoredAt e))]),
     (''health'', obj [(''queueCheckedAt'', JStr (ev_queueCheckedAt e)), (''proxyCheckedAt'', JStr (ev_proxyCheckedAt e)),
        (''queueHealthy'', JBool True), (''proxyHealthy'', JBool True)])]"

definition number_or_undefined :: "int option \<Rightarrow> js" where
  "number_or_undefined n = (case n of None \<Rightarrow> JUndef | Some k \<Rightarrow> jint k)"

definition cli_policy :: "cli_options \<Rightarrow> js" where
  "cli_policy o' = obj [(''siteId'', JStr (co_siteId o')), (''cutoff'', JStr (co_cutoff o')), (''apply'', JBool (co_apply o')),
     (''maxBatches'', number_or_undefined (co_maxBatches o')), (''maxMessages'', number_or_undefined (co_maxMessages o'))]"

section \<open>The dry run\<close>

definition cli_run_input :: "retention_policy \<Rightarrow> retention_evidence \<Rightarrow> candidate_record list \<Rightarrow> jstr \<Rightarrow> js" where
  "cli_run_input policy evidence records fingerprint = obj [(''policy'', parsed_policy_object policy),
     (''evidence'', evidence_object evidence), (''queueHealthy'', JBool True), (''dlqHealthy'', JBool True),
     (''candidates'', JArr (map private_record_object records)), (''schemaFingerprint'', JStr fingerprint)]"

text \<open>\<^verbatim>\<open>writeEscrowFileExclusive\<close> around the coordinator; whatever fails in it is one error.\<close>

definition writeEscrowFileExclusive ::
  "(jstr \<Rightarrow> jstr) \<Rightarrow> ('db, 'lk) cli_dependencies \<Rightarrow> jstr \<Rightarrow> js \<Rightarrow> 'db \<Rightarrow> cli_io \<Rightarrow> escrow_dry_run_result res \<times> cli_io" where
  "writeEscrowFileExclusive sha deps path input s io =
     (case normalizeAbsolutePath path ''output file'' of
        Inl e \<Rightarrow> (Inl e, io)
      | Inr p \<Rightarrow> (case cd_openOutput deps p of
          Inl _ \<Rightarrow> (Inl (CliError ''newsletter retention escrow output file could not be created''), io)
        | Inr _ \<Rightarrow>
            (case buildNewsletterRetentionEscrowDryRunResult sha (cd_sink deps p) (tx_reads (db_client (cd_database deps)) s)
                    input (io_locks io) of
               (result, locks, chunks) \<Rightarrow>
                 (case bindE result (\<lambda>r. bindE (cd_publish deps p (concat chunks)) (\<lambda>_. Inr r)) of
                    Inl _ \<Rightarrow> (Inl (CliError ''newsletter retention escrow output file could not be created''), io\<lparr>io_locks := locks\<rparr>)
                  | Inr r \<Rightarrow> (Inr r, io\<lparr>io_locks := locks, io_escrows := io_escrows io @ [(p, chunks)]\<rparr>)))))"

definition coordinated_run ::
  "(jstr \<Rightarrow> jstr) \<Rightarrow> ('db, 'lk) cli_dependencies \<Rightarrow> cli_options \<Rightarrow> retention_policy \<Rightarrow> retention_evidence \<Rightarrow> candidate_record list
   \<Rightarrow> 'db \<Rightarrow> cli_io \<Rightarrow> escrow_dry_run_result option res \<times> cli_io" where
  "coordinated_run sha deps o' policy evidence records s io =
     (if \<not> given (co_escrowOut o') then (Inr None, io)
      else (case cd_schemaFingerprint deps of
          Inl e \<Rightarrow> (Inl e, io)
        | Inr fingerprint \<Rightarrow>
            (case writeEscrowFileExclusive sha deps (the (co_escrowOut o')) (cli_run_input policy evidence records fingerprint) s io of
               (Inl e, io') \<Rightarrow> (Inl e, io')
             | (Inr r, io') \<Rightarrow> (Inr (Some r), io'))))"

text \<open>The plan and the manifest: the coordinator's, or built here.\<close>

definition cli_manifest_input :: "retention_policy \<Rightarrow> selection_plan \<Rightarrow> js" where
  "cli_manifest_input policy plan = obj [(''siteId'', JStr (pol_siteId policy)), (''cutoff'', JStr (pol_cutoff policy)),
     (''policyVersion'', jint (pol_policyVersion policy)), (''batches'', JArr (map batch_object (sp_batches plan)))]"

definition plan_of_run ::
  "(jstr \<Rightarrow> jstr) \<Rightarrow> retention_policy \<Rightarrow> retention_evidence \<Rightarrow> candidate_record list \<Rightarrow> escrow_dry_run_result option
   \<Rightarrow> (selection_plan \<times> retention_manifest) res" where
  "plan_of_run sha policy evidence records coordinated = (case coordinated of
     Some r \<Rightarrow> Inr (dr_plan r, dr_manifest r)
   | None \<Rightarrow>
       bindE (buildNewsletterRetentionSelectionPlan policy (evidence_object evidence) (JBool True) (JBool True)
                (JArr (map candidate_object records))) (\<lambda>plan.
       bindE (buildNewsletterRetentionManifest sha (cli_manifest_input policy plan)) (\<lambda>manifest. Inr (plan, manifest))))"

definition cli_artifact_input :: "retention_manifest \<Rightarrow> verification_result \<Rightarrow> candidate_record list \<Rightarrow> js" where
  "cli_artifact_input manifest escrow records = obj [(''manifest'', manifest_object manifest),
     (''escrow'', verification_object escrow), (''records'', JArr (map private_record_object records))]"

definition artifact_of_run ::
  "(jstr \<Rightarrow> jstr) \<Rightarrow> cli_options \<Rightarrow> retention_manifest \<Rightarrow> candidate_record list \<Rightarrow> escrow_dry_run_result option
   \<Rightarrow> apply_artifact option res" where
  "artifact_of_run sha o' manifest records coordinated = (case coordinated of
     Some r \<Rightarrow> if given (co_privateArtifactOut o')
         then bindE (buildNewsletterRetentionApplyArtifact sha (cli_artifact_input manifest (er_escrow r) records)) (\<lambda>a. Inr (Some a))
         else Inr None
   | None \<Rightarrow> Inr None)"

definition write_json :: "('db, 'lk) cli_dependencies \<Rightarrow> jstr \<Rightarrow> js \<Rightarrow> nat \<Rightarrow> (cli_io, unit) act" where
  "write_json deps path v mode io = (case cd_writeJsonFile deps path v mode of
     Inl e \<Rightarrow> (Inl e, io) | Inr _ \<Rightarrow> (Inr (), io\<lparr>io_jsons := io_jsons io @ [(path, v, mode)]\<rparr>))"

definition executeDryRun ::
  "(jstr \<Rightarrow> jstr) \<Rightarrow> ('db, 'lk) cli_dependencies \<Rightarrow> cli_options \<Rightarrow> retention_policy \<Rightarrow> retention_evidence \<Rightarrow> 'db
   \<Rightarrow> (cli_io, dry_run_output) act" where
  "executeDryRun sha deps o' policy evidence s =
     bindA (pureA (loadNewsletterRetentionCandidateRecords (cd_candidates deps s) policy)) (\<lambda>records.
     bindA (coordinated_run sha deps o' policy evidence records s) (\<lambda>coordinated.
     bindA (pureA (plan_of_run sha policy evidence records coordinated)) (\<lambda>(plan, manifest).
     bindA (pureA (artifact_of_run sha o' manifest records coordinated)) (\<lambda>artifact.
     bindA (case artifact of None \<Rightarrow> doneA ()
            | Some a \<Rightarrow> write_json deps (the (co_privateArtifactOut o')) (artifact_object a) 384) (\<lambda>_.
     bindA (if given (co_manifestOut o') then write_json deps (the (co_manifestOut o')) (manifest_object manifest) 420 else doneA ()) (\<lambda>_.
       doneA \<lparr>do_siteId = pol_siteId policy, do_cutoff = pol_cutoff policy, do_policyVersion = pol_policyVersion policy,
         do_batchCount = sp_batchCount plan, do_totals = sp_totals plan, do_manifest = manifest,
         do_escrowWritten = (coordinated \<noteq> None), do_contentHash = map_option (\<lambda>r. vr_contentHash (er_escrow r)) coordinated,
         do_schemaFingerprint = map_option (\<lambda>r. vr_schemaFingerprint (er_escrow r)) coordinated,
         do_artifactWritten = (artifact \<noteq> None), do_artifactHash = map_option aa_hash artifact\<rparr>))))))"

definition executeDryRunWithLock ::
  "(jstr \<Rightarrow> jstr) \<Rightarrow> ('db, 'lk) cli_dependencies \<Rightarrow> cli_options \<Rightarrow> retention_policy \<Rightarrow> retention_evidence \<Rightarrow> 'db
   \<Rightarrow> 'lk \<times> cli_io \<Rightarrow> dry_run_output res \<times> 'lk \<times> cli_io" where
  "executeDryRunWithLock sha deps o' policy evidence s w = (case w of (lk, io) \<Rightarrow>
     (case cd_createLockProvider deps of
        Inl _ \<Rightarrow> (Inl (CliError ''newsletter retention lock acquisition failed''), lk, io)
      | Inr lp \<Rightarrow> (case lp_tryAcquire lp APPLY_LOCK_KEY lk of
          (Inl _, lk1) \<Rightarrow> (Inl (CliError ''newsletter retention lock acquisition failed''), lk1, io)
        | (Inr None, lk1) \<Rightarrow> (Inl (CliError ''newsletter retention command is already running''), lk1, io)
        | (Inr (Some lease), lk1) \<Rightarrow>
            (case executeDryRun sha deps o' policy evidence s io of
               (result, io') \<Rightarrow> (case lp_release lp lease lk1 of
                 (Inl _, lk2) \<Rightarrow> (Inl (CliError ''newsletter retention lock release failed''), lk2, io')
               | (Inr _, lk2) \<Rightarrow> (case result of
                   Inr output \<Rightarrow> (Inr output, lk2, io')
                 | Inl (CliError m) \<Rightarrow> (Inl (CliError m), lk2, io')
                 | Inl _ \<Rightarrow> (Inl (CliError ''newsletter retention dry-run failed''), lk2, io')))))))"

section \<open>The apply run\<close>

definition readExpectedObjectHash :: "js \<Rightarrow> string \<Rightarrow> jstr res" where
  "readExpectedObjectHash v field =
     (if \<not> is_plain_object v then Inl (CliError (''newsletter retention '' @ field @ '' file hash is invalid''))
      else hash_string (get_prop v ''hash'') (CliError (''newsletter retention '' @ field @ '' file hash is invalid'')))"

text \<open>
  The source as the applier sees it, which asks for the batches 0, 1, 2, ... in turn: the answer for batch \<open>i\<close> is
  that of the call after the \<open>i\<close> calls before it.
\<close>

fun source_after :: "int option \<Rightarrow> (nat \<Rightarrow> file_stat res \<times> file_stat res) \<Rightarrow> nat \<Rightarrow> verified_source \<Rightarrow> verified_source" where
  "source_after uid stats 0 src = src"
| "source_after uid stats (Suc n) src = (let src' = source_after uid stats n src in
     snd (readBatchRecords uid (fst (stats n)) (snd (stats n)) (int n) src'))"

definition source_answer :: "int option \<Rightarrow> (nat \<Rightarrow> file_stat res \<times> file_stat res) \<Rightarrow> verified_source \<Rightarrow> int \<Rightarrow> js res" where
  "source_answer uid stats src i =
     bindE (fst (readBatchRecords uid (fst (stats (nat i))) (snd (stats (nat i))) i (source_after uid stats (nat i) src)))
       (\<lambda>rs. Inr (JArr (map record_object rs)))"

definition cli_escrow_source :: "('db, 'lk) cli_dependencies \<Rightarrow> jstr \<Rightarrow> verified_source \<Rightarrow> escrow_source" where
  "cli_escrow_source deps path src = \<lparr>es_verification = verification_object (vs_verification src),
     es_readBatchRecords = Some (source_answer (cd_uid deps) (cd_stats deps path) src)\<rparr>"

definition cli_apply_input :: "retention_policy \<Rightarrow> retention_evidence \<Rightarrow> js \<Rightarrow> js \<Rightarrow> js" where
  "cli_apply_input policy evidence manifest artifact = obj
     [(''policy'', obj [(''siteId'', JStr (pol_siteId policy)), (''cutoff'', JStr (pol_cutoff policy)), (''apply'', JBool True),
        (''maxBatches'', jint (pol_maxBatches policy)), (''maxMessages'', jint (pol_maxMessages policy))]),
      (''evidence'', evidence_object evidence), (''manifest'', manifest), (''artifact'', artifact)]"

text \<open>What is checked before the source is opened: the manifest, the parsed artifact and its object.\<close>

definition confirmed_inputs ::
  "(jstr \<Rightarrow> jstr) \<Rightarrow> ('db, 'lk) cli_dependencies \<Rightarrow> cli_options \<Rightarrow> (js \<times> js \<times> apply_artifact) res" where
  "confirmed_inputs sha deps o' =
     bindE (cd_readJsonFile deps (the (co_manifestFile o')) ''public'') (\<lambda>manifest.
     bindE (cd_readJsonFile deps (the (co_privateArtifactFile o')) ''private'') (\<lambda>rawArtifact.
     bindE (readExpectedObjectHash manifest ''manifest'') (\<lambda>manifestHash.
     bindE (readExpectedObjectHash rawArtifact ''artifact'') (\<lambda>artifactHash.
       if Some manifestHash \<noteq> co_expectedManifestHash o' \<or> Some artifactHash \<noteq> co_expectedArtifactHash o'
       then Inl (CliError ''newsletter retention expected hash confirmation failed'')
       else (case parseNewsletterRetentionApplyArtifact sha rawArtifact of
           Inl _ \<Rightarrow> Inl (CliError ''newsletter retention private artifact is invalid'')
         | Inr artifact \<Rightarrow>
             if Some (vr_contentHash (aa_escrow artifact)) \<noteq> co_expectedEscrowContentHash o'
             then Inl (CliError ''newsletter retention escrow content hash confirmation failed'')
             else Inr (manifest, rawArtifact, artifact))))))"

definition executeApply ::
  "(jstr \<Rightarrow> jstr) \<Rightarrow> ('db, 'lk) cli_dependencies \<Rightarrow> cli_options \<Rightarrow> retention_policy \<Rightarrow> retention_evidence
   \<Rightarrow> 'db \<times> 'lk \<Rightarrow> apply_receipt res \<times> 'db \<times> 'lk" where
  "executeApply sha deps o' policy evidence w =
     (case confirmed_inputs sha deps o' of
        Inl e \<Rightarrow> (Inl e, w)
      | Inr (manifest, rawArtifact, artifact) \<Rightarrow>
          (case openVerifiedNewsletterRetentionEscrowSource sha (cd_uid deps) (cd_files deps) (the (co_escrowFile o')) of
             Inl e \<Rightarrow> (Inl e, w)
           | Inr src \<Rightarrow>
               (case (case bindE (parseNewsletterRetentionEscrowVerificationResult (verification_object (vs_verification src)))
                        (\<lambda>v. if Some (vr_contentHash v) \<noteq> co_expectedEscrowContentHash o'
                           then Inl (CliError ''newsletter retention verified escrow hash mismatch'')
                           else cd_createLockProvider deps) of
                    Inl e \<Rightarrow> (Inl e, w)
                  | Inr lp \<Rightarrow> executeNewsletterRetentionApply sha (cli_apply_input policy evidence manifest (artifact_object artifact)) (Some lp)
                      (cd_database deps) (Some (cli_escrow_source deps (the (co_escrowFile o')) src)) w) of
                  (result, w') \<Rightarrow>
                    (case (fst (close_source (cd_close deps) src), result) of
                       (Inl _, Inr _) \<Rightarrow> (Inl (CliError ''newsletter retention escrow source close failed''), w')
                     | _ \<Rightarrow> (result, w')))))"

section \<open>The command\<close>

definition executeNewsletterRetentionCli ::
  "(jstr \<Rightarrow> jstr) \<Rightarrow> ('db, 'lk) cli_dependencies \<Rightarrow> jstr list \<Rightarrow> 'db \<times> 'lk \<times> cli_io
   \<Rightarrow> cli_output res \<times> 'db \<times> 'lk \<times> cli_io" where
  "executeNewsletterRetentionCli sha deps argv w = (case w of (s, lk, io) \<Rightarrow>
     (case bindE (parseCliOptions argv) (\<lambda>o'.
           bindE (normalizeNow (cd_now deps)) (\<lambda>now.
           bindE (cd_readJsonFile deps (co_evidenceFile o') ''public'') (\<lambda>raw.
           bindE (parseCliEvidence raw now) (\<lambda>evidence.
           bindE (parseNewsletterRetentionPolicy (cli_policy o')) (\<lambda>policy. Inr (o', evidence, policy)))))) of
        Inl e \<Rightarrow> (Inl e, w)
      | Inr (o', evidence, policy) \<Rightarrow>
          if \<not> co_apply o'
          then (case executeDryRunWithLock sha deps o' policy evidence s (lk, io) of
                  (r, lk', io') \<Rightarrow> (map_sum id DryRunOutput r, s, lk', io'))
          else (case executeApply sha deps o' policy evidence (s, lk) of
                  (r, s', lk') \<Rightarrow> (map_sum id ApplyOutput r, s', lk', io))))"


section \<open>What the applier is given\<close>

lemma source_after_state:
  assumes "serves_from src 0 bs"
  shows "vs_next (source_after uid stats n src) < int n \<or> serves_from (source_after uid stats n src) (int n) (drop n bs)"
proof (induction n)
  case (Suc n)
  let ?src = "source_after uid stats n src" and ?b = "fst (stats n)" and ?a = "snd (stats n)"
  let ?next = "snd (readBatchRecords uid ?b ?a (int n) ?src)"
  show ?case
  proof (cases "vs_next ?src < int n")
    case True
    then show ?thesis by (simp add: readBatchRecords_def Let_def)
  next
    case False
    then have s: "serves_from ?src (int n) (drop n bs)" using Suc.IH by blast
    then have parts: "\<not> vs_closed ?src" "vs_next ?src = int n" "vs_end ?src = Inr ()"
      "(case vs_pending ?src of None \<Rightarrow> [] | Some r \<Rightarrow> [r]) @ vs_rest ?src = all_records (int n) (drop n bs)"
      by (simp_all add: serves_from_def)
    show ?thesis
    proof (cases "assertEscrowFileIdentity uid ?b (vs_identity ?src)")
      case (Inl e)
      then show ?thesis using parts(2) by (simp add: readBatchRecords_def Let_def)
    next
      case (Inr u)
      show ?thesis
      proof (cases "drop n bs")
        case Nil
        then have "drop (Suc n) bs = []" by simp
        then show ?thesis using parts Inr Nil by (simp add: readBatchRecords_def serves_from_def Let_def)
      next
        case (Cons b rest)
        have rest: "drop (Suc n) bs = rest" using Cons by (metis drop_Suc_Cons drop_drop drop0 plus_1_eq_Suc)
        have index: "\<forall>r \<in> set (batch_records (int n) b). manifest_index r = int n" by (auto simp: batch_records_def)
        have gathered: "gather (int n) (all_records (int n) (drop n bs)) (Inr ()) = (case all_records (int n + 1) rest of
             [] \<Rightarrow> (Inr (batch_records (int n) b, None), [], Inr ())
           | r # rs \<Rightarrow> (Inr (batch_records (int n) b, Some r), rs, Inr ()))"
          unfolding Cons using gather_batch [OF index, of "int n + 1" rest] by simp
        have "serves_from ?next (int n + 1) rest"
          unfolding readBatchRecords_def parts(3,4) gathered using parts(1,2) Inr
          by (cases "all_records (int n + 1) rest") (simp_all add: serves_from_def)
        then show ?thesis by (simp add: rest Let_def add.commute)
      qed
    qed
  qed
qed (use assms in simp)

lemma source_answer_batch:
  assumes "serves_from src 0 bs" "0 \<le> i" "source_answer uid stats src i = Inr v"
  shows "v = JArr (map record_object (if nat i < length bs then batch_records i (bs ! nat i) else []))"
proof -
  let ?src = "source_after uid stats (nat i) src"
  obtain rs where rs: "fst (readBatchRecords uid (fst (stats (nat i))) (snd (stats (nat i))) i ?src) = Inr rs" "v = JArr (map record_object rs)"
    using assms(3) by (auto simp: source_answer_def)
  have "vs_next ?src = i" using rs(1) by (auto simp: readBatchRecords_def split: if_splits)
  then have s: "serves_from ?src i (drop (nat i) bs)"
    using source_after_state [OF assms(1), of uid stats "nat i"] assms(2) by auto
  then have parts: "vs_end ?src = Inr ()" "(case vs_pending ?src of None \<Rightarrow> [] | Some r \<Rightarrow> [r]) @ vs_rest ?src = all_records i (drop (nat i) bs)"
    by (simp_all add: serves_from_def)
  show ?thesis
  proof (cases "drop (nat i) bs")
    case Nil
    then have "rs = []" using rs(1) parts by (auto simp: readBatchRecords_def split: if_splits sum.splits)
    then show ?thesis using Nil rs(2) by simp
  next
    case (Cons b rest)
    then have b: "nat i < length bs" "bs ! nat i = b" by (auto simp: nth_via_drop) (metis drop_all list.distinct(1) not_le)
    have index: "\<forall>r \<in> set (batch_records i b). manifest_index r = i" by (auto simp: batch_records_def)
    have gathered: "gather i (all_records i (drop (nat i) bs)) (Inr ()) = (case all_records (i + 1) rest of
             [] \<Rightarrow> (Inr (batch_records i b, None), [], Inr ())
           | r # rs \<Rightarrow> (Inr (batch_records i b, Some r), rs, Inr ()))"
      unfolding Cons using gather_batch [OF index, of "i + 1" rest] by simp
    have "rs = batch_records i b"
      using rs(1) unfolding readBatchRecords_def parts gathered
      by (auto split: if_splits sum.splits list.splits)
    then show ?thesis using b rs(2) by simp
  qed
qed

section \<open>What is removed\<close>

lemma batch_records_inject: "batch_records i a = batch_records i b \<Longrightarrow> a = b"
proof -
  assume eq: "batch_records i a = batch_records i b"
  have m: "List.map_filter (\<lambda>r. case r of MessageRecord _ x \<Rightarrow> Some x | _ \<Rightarrow> None) (batch_records i c) = eb_messages c"
    and e: "List.map_filter (\<lambda>r. case r of ErrorRecord _ x \<Rightarrow> Some x | _ \<Rightarrow> None) (batch_records i c) = eb_errors c"
    and n: "List.map_filter (\<lambda>r. case r of NotificationRecord _ x \<Rightarrow> Some x | _ \<Rightarrow> None) (batch_records i c) = eb_notifications c" for c
    by (simp_all add: batch_records_def map_filter_def comp_def)
  have "eb_messages a = eb_messages b" unfolding m [of a, symmetric] m [of b, symmetric] eq ..
  moreover have "eb_errors a = eb_errors b" unfolding e [of a, symmetric] e [of b, symmetric] eq ..
  moreover have "eb_notifications a = eb_notifications b" unfolding n [of a, symmetric] n [of b, symmetric] eq ..
  moreover have "eb_row a = eb_row b" using eq by (simp add: batch_records_def)
  ultimately show ?thesis by (intro escrow_batch.equality) simp_all
qed

text \<open>Batches that are removed one after the other, each stored with exactly its rows when its turn comes.\<close>

fun removes :: "escrow_batch list \<Rightarrow> retention_tables \<Rightarrow> retention_tables \<Rightarrow> bool" where
  "removes [] t t' \<longleftrightarrow> t' = t"
| "removes (b # bs) t t' \<longleftrightarrow> stored_batch t b \<and> removes bs (remove_batch b t) t'"

lemma read_back_records:
  "mapE (indexed_record i) (map record_object rs) = Inr xs \<Longrightarrow> xs = rs"
proof (induction rs arbitrary: xs)
  case (Cons r rs)
  then obtain y ys where "indexed_record i (record_object r) = Inr y" "mapE (indexed_record i) (map record_object rs) = Inr ys" "xs = y # ys"
    by auto
  moreover from this(1) have "y = r"
    by (auto simp: indexed_record_def parseNewsletterRetentionEscrowRecord_def normalize_record_object_iff)
  ultimately show ?case using Cons.IH [of ys] by simp
qed simp

lemma applied_removes:
  assumes "\<And>i v. 0 \<le> i \<Longrightarrow> read i = Inr v \<Longrightarrow> v = JArr (map record_object (if nat i < length bs then batch_records i (bs ! nat i) else []))"
  shows "applied ctx read (numbered (int j) ids) t t' \<Longrightarrow> j + length ids \<le> length bs \<and> removes (take (length ids) (drop j bs)) t t' \<or> ids = [] \<and> t' = t"
proof (induction ids arbitrary: j t)
  case (Cons x ids)
  obtain u where u: "batch_applied ctx read \<lparr>ab_manifestIndex = int j, ab_batchRecordId = x\<rparr> t u"
      "applied ctx read (numbered (int (Suc j)) ids) u t'"
    using Cons.prems by (auto simp: add.commute)
  obtain eb where eb: "readVerifiedBatchRecords read (int j) (mf_batches (ctx_manifest ctx) ! j) = Inr (batch_records (int j) eb)"
      "stored_batch t eb" "u = remove_batch eb t"
    using u(1) by (auto simp: batch_applied_def Let_def)
  obtain rows where rows: "read (int j) = Inr (JArr rows)" "mapE (indexed_record (int j)) rows = Inr (batch_records (int j) eb)"
  proof -
    obtain answer where "read (int j) = Inr answer" using eb(1) by (auto simp: readVerifiedBatchRecords_def)
    then show ?thesis using that eb(1) by (cases answer) (auto simp: readVerifiedBatchRecords_def)
  qed
  have "rows = map record_object (if j < length bs then batch_records (int j) (bs ! j) else [])"
    using assms [OF _ rows(1)] by simp
  then have "batch_records (int j) eb = (if j < length bs then batch_records (int j) (bs ! j) else [])"
    using read_back_records rows(2) by blast
  moreover have "batch_records (int j) eb \<noteq> []" by (simp add: batch_records_def)
  ultimately have j: "j < length bs" "eb = bs ! j" using batch_records_inject by (metis, metis)
  have "removes (take (Suc (length ids)) (drop j bs)) t t' \<and> j + Suc (length ids) \<le> length bs"
    using Cons.IH [OF u(2)] j eb(2,3) by (auto simp: Cons_nth_drop_Suc [symmetric])
  then show ?case by simp
qed simp


section \<open>The apply run deletes what was confirmed\<close>

lemma executeApply_cases:
  assumes "executeApply sha deps o' policy evidence w = (r, w')"
  shows "snd (r, w') = w \<and> isl r \<or> (\<exists>manifest raw a src v lp inner. confirmed_inputs sha deps o' = Inr (manifest, raw, a)
     \<and> openVerifiedNewsletterRetentionEscrowSource sha (cd_uid deps) (cd_files deps) (the (co_escrowFile o')) = Inr src
     \<and> parseNewsletterRetentionEscrowVerificationResult (verification_object (vs_verification src)) = Inr v
     \<and> Some (vr_contentHash v) = co_expectedEscrowContentHash o'
     \<and> executeNewsletterRetentionApply sha (cli_apply_input policy evidence manifest (artifact_object a)) (Some lp)
         (cd_database deps) (Some (cli_escrow_source deps (the (co_escrowFile o')) src)) w = (inner, w')
     \<and> (\<forall>rc. r = Inr rc \<longrightarrow> inner = Inr rc))"
  using assms unfolding executeApply_def
  by (auto simp: Let_def close_source_def split: sum.splits prod.splits if_splits)

text \<open>A run that returns has compared the source's commitment with the artifact's, which is the manifest's.\<close>

lemma applied_source_matches:
  assumes "executeNewsletterRetentionApply sha input lock db (Some source) w = (Inr rc, w')"
    and "parseNewsletterRetentionApplyContext sha input = Inr ctx"
    and "parseNewsletterRetentionEscrowVerificationResult (es_verification source) = Inr v"
  shows "int (length (aa_bindings (ctx_artifact ctx))) = ec_batches (vr_counts v)"
proof -
  obtain read where "normalizeVerifiedEscrowSource (Some source) ctx = Inr read"
    using assms(1,2) by (auto simp: executeNewsletterRetentionApply_def split: prod.splits sum.splits if_splits)
  then have same: "json_stringify (verification_object v) = json_stringify (verification_object (aa_escrow (ctx_artifact ctx)))"
    using assms(3) by (auto simp: normalizeVerifiedEscrowSource_def split: option.splits if_splits)
  obtain m a where ctx: "ctx_manifest ctx = m" "ctx_artifact ctx = a" "carries_manifest sha (get_prop input ''manifest'') m"
      "parseNewsletterRetentionApplyArtifact sha (get_prop input ''artifact'') = Inr a"
      "\<exists>u. assertEscrowMatchesManifest (aa_escrow a) m = Inr u" "length (aa_bindings a) = length (mf_batches m)"
    using assms(2) unfolding context_Inr_iff by auto
  have ok: "verification_ok (aa_escrow a)" "verification_ok v" "manifest_ok m"
    using ctx(3,4) parse_verification_ok [OF assms(3)] normalizeApplyArtifact_ok carried_manifest_ok
    by (auto simp: parseNewsletterRetentionApplyArtifact_def artifact_ok_def if_Inr_iff)
  have "escrow_of m (aa_escrow a)" using assertEscrowMatchesManifest_iff [OF ok(3,1)] ctx(5) by blast
  moreover have "v = aa_escrow a"
  proof (rule verification_object_inject [OF ok(2,1)])
    have "json_text (verification_object v) = json_text (verification_object (aa_escrow a))"
      using same ok(1,2) by (simp add: ctx(2) plain_stringify plain_verification_object)
    then show "sort_members (verification_object v) = sort_members (verification_object (aa_escrow a))"
      using ok(1,2) json_text_inject plain_verification_object by metis
  qed
  ultimately show ?thesis using ctx(2,6) by (simp add: escrow_of_def manifest_counts_def)
qed

lemma numbered_length [simp]: "length (numbered i ids) = length ids"
  by (induction ids arbitrary: i) simp_all

lemma opened_verification_ok:
  assumes "reads_as (map ByteLine ls) (open_items h bs @ [FooterLine f])"
  shows "verification_ok (verification_of h f)"
  using assms by (simp add: reads_as_def open_items_def verification_of_ok)

definition file_contents :: "('db, 'lk) cli_dependencies \<Rightarrow> (jstr \<Rightarrow> byte list) \<Rightarrow> bool" where
  "file_contents deps content \<longleftrightarrow> (\<forall>p. reads_whole (of_firstReads (cd_files deps p)) (content p)
     \<and> reads_whole (of_secondReads (cd_files deps p)) (content p))"

text \<open>What the operator confirmed, and the batches of the file at the confirmed path.\<close>

definition confirmed_run ::
  "(jstr \<Rightarrow> jstr) \<Rightarrow> ('db, 'lk) cli_dependencies \<Rightarrow> (jstr \<Rightarrow> byte list) \<Rightarrow> jstr list \<Rightarrow> escrow_batch list \<Rightarrow> bool" where
  "confirmed_run sha deps content argv bs \<longleftrightarrow> (\<exists>o' manifest raw a ls h f. parseCliOptions argv = Inr o' \<and> co_apply o'
     \<and> co_confirmSiteId o' = Some (co_siteId o')
     \<and> cd_readJsonFile deps (the (co_manifestFile o')) ''public'' = Inr manifest
     \<and> get_prop manifest ''hash'' = JStr (the (co_expectedManifestHash o'))
     \<and> cd_readJsonFile deps (the (co_privateArtifactFile o')) ''private'' = Inr raw
     \<and> get_prop raw ''hash'' = JStr (the (co_expectedArtifactHash o'))
     \<and> parseNewsletterRetentionApplyArtifact sha raw = Inr a
     \<and> content (the (co_escrowFile o')) = unlines ls
     \<and> verify_lines sha default_options (map ByteLine ls) = Inr (verification_of h f)
     \<and> reads_as (map ByteLine ls) (open_items h bs @ [FooterLine f])
     \<and> Some (ef_contentHash f) = co_expectedEscrowContentHash o' \<and> vr_contentHash (aa_escrow a) = ef_contentHash f)"

lemma expected_hash_Inr:
  "readExpectedObjectHash v field = Inr h \<Longrightarrow> is_plain_object v \<and> get_prop v ''hash'' = JStr h"
  by (auto simp: readExpectedObjectHash_def split: if_splits)

lemma confirmed_inputs_Inr:
  assumes "confirmed_inputs sha deps o' = Inr (manifest, raw, a)"
  shows "cd_readJsonFile deps (the (co_manifestFile o')) ''public'' = Inr manifest"
    "cd_readJsonFile deps (the (co_privateArtifactFile o')) ''private'' = Inr raw"
    "\<exists>mh. co_expectedManifestHash o' = Some mh \<and> get_prop manifest ''hash'' = JStr mh"
    "\<exists>ah. co_expectedArtifactHash o' = Some ah \<and> get_prop raw ''hash'' = JStr ah"
    "parseNewsletterRetentionApplyArtifact sha raw = Inr a"
    "co_expectedEscrowContentHash o' = Some (vr_contentHash (aa_escrow a))"
proof -
  obtain m rw mh ah where run: "cd_readJsonFile deps (the (co_manifestFile o')) ''public'' = Inr m"
      "cd_readJsonFile deps (the (co_privateArtifactFile o')) ''private'' = Inr rw"
      "readExpectedObjectHash m ''manifest'' = Inr mh" "readExpectedObjectHash rw ''artifact'' = Inr ah"
      "(if Some mh \<noteq> co_expectedManifestHash o' \<or> Some ah \<noteq> co_expectedArtifactHash o'
       then Inl (CliError ''newsletter retention expected hash confirmation failed'')
       else (case parseNewsletterRetentionApplyArtifact sha rw of
           Inl _ \<Rightarrow> Inl (CliError ''newsletter retention private artifact is invalid'')
         | Inr artifact \<Rightarrow>
             if Some (vr_contentHash (aa_escrow artifact)) \<noteq> co_expectedEscrowContentHash o'
             then Inl (CliError ''newsletter retention escrow content hash confirmation failed'')
             else Inr (m, rw, artifact))) = Inr (manifest, raw, a)"
    using assms unfolding confirmed_inputs_def bindE_Inr_iff by blast
  have same: "Some mh = co_expectedManifestHash o'" "Some ah = co_expectedArtifactHash o'" "m = manifest" "rw = raw"
      "parseNewsletterRetentionApplyArtifact sha rw = Inr a" "Some (vr_contentHash (aa_escrow a)) = co_expectedEscrowContentHash o'"
    using run(5) by (auto split: if_splits sum.splits)
  then show "cd_readJsonFile deps (the (co_manifestFile o')) ''public'' = Inr manifest"
    "cd_readJsonFile deps (the (co_privateArtifactFile o')) ''private'' = Inr raw"
    "\<exists>mh. co_expectedManifestHash o' = Some mh \<and> get_prop manifest ''hash'' = JStr mh"
    "\<exists>ah. co_expectedArtifactHash o' = Some ah \<and> get_prop raw ''hash'' = JStr ah"
    "parseNewsletterRetentionApplyArtifact sha raw = Inr a"
    "co_expectedEscrowContentHash o' = Some (vr_contentHash (aa_escrow a))"
    using run(1,2) expected_hash_Inr [OF run(3)] expected_hash_Inr [OF run(4)] by auto
qed

lemma context_numbered:
  assumes "parseNewsletterRetentionApplyContext sha input = Inr ctx"
  shows "\<exists>ids. aa_bindings (ctx_artifact ctx) = numbered 0 ids"
proof -
  obtain a where a: "ctx_artifact ctx = a" "parseNewsletterRetentionApplyArtifact sha (get_prop input ''artifact'') = Inr a"
    using assms unfolding context_Inr_iff by auto
  then have "artifact_ok a" using normalizeApplyArtifact_ok by (auto simp: parseNewsletterRetentionApplyArtifact_def if_Inr_iff)
  then show ?thesis by (auto simp: a(1) artifact_ok_def)
qed

lemma take_numbered: "take k (numbered j ids) = numbered j (take k ids)"
  by (induction ids arbitrary: k j) (auto simp: take_Cons split: nat.split)

lemma apply_run_removes:
  assumes store: "retention_store (db_client (cd_database deps)) (db_transaction (cd_database deps)) tables"
    and content: "file_contents deps content"
    and argv: "parseCliOptions argv = Inr o'" "co_apply o'"
    and run: "executeApply sha deps o' policy evidence (s, lk) = (r, s', lk')"
  shows "isl r \<and> tables s' = tables s \<or> (\<exists>bs n. n \<le> length bs \<and> confirmed_run sha deps content argv bs \<and> removes (take n bs) (tables s) (tables s')
     \<and> (\<forall>rc. r = Inr rc \<longrightarrow> n = length bs \<and> length (rc_batches rc) = n))"
proof (cases "(s', lk') = (s, lk) \<and> isl r")
  case False
  then obtain manifest raw a src v lp inner where ran: "confirmed_inputs sha deps o' = Inr (manifest, raw, a)"
      "openVerifiedNewsletterRetentionEscrowSource sha (cd_uid deps) (cd_files deps) (the (co_escrowFile o')) = Inr src"
      "parseNewsletterRetentionEscrowVerificationResult (verification_object (vs_verification src)) = Inr v"
      "Some (vr_contentHash v) = co_expectedEscrowContentHash o'"
      "executeNewsletterRetentionApply sha (cli_apply_input policy evidence manifest (artifact_object a)) (Some lp)
         (cd_database deps) (Some (cli_escrow_source deps (the (co_escrowFile o')) src)) (s, lk) = (inner, s', lk')"
      "\<forall>rc. r = Inr rc \<longrightarrow> inner = Inr rc"
    using executeApply_cases [OF run] unfolding snd_conv by blast
  let ?path = "the (co_escrowFile o')" let ?source = "cli_escrow_source deps ?path src"
  let ?input = "cli_apply_input policy evidence manifest (artifact_object a)"
  have whole: "reads_whole (of_firstReads (cd_files deps ?path)) (content ?path)" "reads_whole (of_secondReads (cd_files deps ?path)) (content ?path)"
    using content by (simp_all add: file_contents_def)
  obtain ls h bs f where opened: "content ?path = unlines ls" "reads_as (map ByteLine ls) (open_items h bs @ [FooterLine f])"
      "verify_lines sha default_options (map ByteLine ls) = Inr (vs_verification src)" "vs_verification src = verification_of h f"
      "serves_from src 0 bs" "ef_counts f = counts_of bs"
    using opened_source [where files = "cd_files deps", OF ran(2) whole] by blast
  have "v = verification_of h f"
    using ran(3) parse_verification_object [OF opened_verification_ok [OF opened(2)]] by (simp add: opened(4))
  then have hash: "Some (ef_contentHash f) = co_expectedEscrowContentHash o'" using ran(4) by (simp add: verification_of_def)
  have site: "co_confirmSiteId o' = Some (co_siteId o')"
    using parsed_options_ok [OF argv(1)] argv(2) by (simp add: cli_options_ok_def mode_ok_def)
  have confirmed: "confirmed_run sha deps content argv bs"
    unfolding confirmed_run_def
    using argv site hash opened(1-4) confirmed_inputs_Inr [OF ran(1)]
    by (intro exI [of _ o'] exI [of _ manifest] exI [of _ raw] exI [of _ a] exI [of _ ls] exI [of _ h] exI [of _ f]) auto
  consider "isl inner" "tables s' = tables s" | "applied_so_far sha ?input (Some ?source) inner (tables s) (tables s')"
    using run_deletes_escrowed [OF store ran(5)] by blast
  then show ?thesis
  proof cases
    case 1
    then have "isl r" using ran(6) by (cases r) auto
    then show ?thesis using 1 by blast
  next
    case 2
    let ?read = "source_answer (cd_uid deps) (cd_stats deps ?path) src"
    obtain ctx where applied: "parseNewsletterRetentionApplyContext sha ?input = Inr ctx"
        "applied ctx ?read (take (completed inner) (aa_bindings (ctx_artifact ctx))) (tables s) (tables s')"
        "\<And>rc. inner = Inr rc \<Longrightarrow> rc = receipt_for ctx (map (\<lambda>bd. receipt_of (ab_manifestIndex bd)
           (mf_batches (ctx_manifest ctx) ! nat (ab_manifestIndex bd))) (aa_bindings (ctx_artifact ctx)))"
      using 2 unfolding applied_so_far_def by (auto simp: cli_escrow_source_def)
    obtain ids where ids: "aa_bindings (ctx_artifact ctx) = numbered 0 ids" using context_numbered [OF applied(1)] by blast
    let ?ids = "take (completed inner) ids"
    have "applied ctx ?read (numbered (int 0) ?ids) (tables s) (tables s')"
      using applied(2) by (simp add: ids take_numbered)
    from applied_removes [OF _ this, of bs] source_answer_batch [OF opened(5)]
    have "length ?ids \<le> length bs \<and> removes (take (length ?ids) bs) (tables s) (tables s') \<or> ?ids = [] \<and> tables s' = tables s"
      by (metis add_0 drop0)
    then have removed: "length ?ids \<le> length bs" "removes (take (length ?ids) bs) (tables s) (tables s')" by auto
    show ?thesis
    proof (intro disjI2 exI conjI allI impI)
      show "length ?ids \<le> length bs" "removes (take (length ?ids) bs) (tables s) (tables s')" by (rule removed)+
      show "confirmed_run sha deps content argv bs" by (rule confirmed)
      fix rc assume "r = Inr rc"
      then have rc: "inner = Inr rc" using ran(6) by blast
      have "length ids = length bs"
        using applied_source_matches [OF ran(5) [unfolded rc] applied(1)] ran(3) \<open>v = verification_of h f\<close>
          ids opened(6)
        by (simp add: cli_escrow_source_def verification_of_def counts_of_def numbered_length)
      moreover have "length (rc_batches rc) = length ids" using applied(3) [OF rc] ids by (simp add: receipt_for_def)
      ultimately show "length ?ids = length bs" "length (rc_batches rc) = length ?ids" using rc by simp_all
    qed
  qed
qed auto


section \<open>The command as a whole\<close>

text \<open>Without \<^verbatim>\<open>--apply\<close> the command never changes the database, whatever fails.\<close>

lemma dry_run_command_keeps_database:
  assumes "parseCliOptions argv = Inr o'" "\<not> co_apply o'"
    and "executeNewsletterRetentionCli sha deps argv (s, lk, io) = (r, s', lk', io')"
  shows "s' = s \<and> (\<forall>rc. r \<noteq> Inr (ApplyOutput rc))"
  using assms by (auto simp: executeNewsletterRetentionCli_def map_sum_def split: sum.splits prod.splits)

text \<open>
  A command that changes the tables was given \<^verbatim>\<open>--apply\<close>, and what it removed are the first batches, in order, of
  the escrow file whose content hash the operator typed; a receipt means all of them.
\<close>

lemma command_removes_confirmed:
  assumes store: "retention_store (db_client (cd_database deps)) (db_transaction (cd_database deps)) tables"
    and content: "file_contents deps content"
    and run: "executeNewsletterRetentionCli sha deps argv (s, lk, io) = (r, s', lk', io')"
  shows "tables s' = tables s \<and> (\<forall>rc. r \<noteq> Inr (ApplyOutput rc))
     \<or> io' = io \<and> (\<exists>bs n. n \<le> length bs \<and> confirmed_run sha deps content argv bs \<and> removes (take n bs) (tables s) (tables s')
          \<and> (\<forall>rc. r = Inr (ApplyOutput rc) \<longrightarrow> n = length bs \<and> length (rc_batches rc) = n))"
proof (cases "\<exists>o'. parseCliOptions argv = Inr o' \<and> co_apply o'")
  case False
  then have "s' = s \<and> (\<forall>rc. r \<noteq> Inr (ApplyOutput rc))"
    using run by (auto simp: executeNewsletterRetentionCli_def map_sum_def split: sum.splits prod.splits if_splits)
  then show ?thesis by simp
next
  case True
  then obtain o' where argv: "parseCliOptions argv = Inr o'" "co_apply o'" by blast
  consider e where "r = Inl e" "s' = s"
    | policy evidence q where "executeApply sha deps o' policy evidence (s, lk) = (q, s', lk')" "r = map_sum id ApplyOutput q" "io' = io"
    using run argv by (auto simp: executeNewsletterRetentionCli_def split: sum.splits prod.splits)
  then show ?thesis
  proof cases
    case 1
    then show ?thesis by simp
  next
    case 2
    have "isl q \<longrightarrow> (\<forall>rc. r \<noteq> Inr (ApplyOutput rc))" "\<And>rc. r = Inr (ApplyOutput rc) \<Longrightarrow> q = Inr rc"
      using 2(2) by (cases q; simp)+
    then show ?thesis using apply_run_removes [OF store content argv 2(1)] 2(3) by metis
  qed
qed

end
