(* ===== verification/ApiAuth.thy ===== *)
theory ApiAuth
  imports Base64 JsDate MailText JsSplit
begin

text \<open>
  Who may pass: the API key check (lib/authentication/index.ts) and the middleware in front of every
  route (proxy.ts). The environment variables are arguments, \<open>None\<close> for an unset one.
\<close>

section \<open>The API key\<close>

text \<open>An unset key is concatenated as the text \<^verbatim>\<open>undefined\<close>.\<close>

definition validKey :: "jstr option \<Rightarrow> jstr" where
  "validKey api_key = lit ''api:'' @ (case api_key of None \<Rightarrow> lit ''undefined'' | Some k \<Rightarrow> k)"

text \<open>\<^verbatim>\<open>timingSafeEqual\<close> throws when the lengths differ.\<close>

definition timingSafeEqual :: "byte list \<Rightarrow> byte list \<Rightarrow> bool res" where
  "timingSafeEqual a b = (if length a \<noteq> length b then Inl (Error ''Input buffers must have the same byte length'') else Inr (a = b))"

definition authentication :: "jstr option \<Rightarrow> jstr \<Rightarrow> bool" where
  "authentication api_key token =
     (let parts = split_unit 32 token in
      if length parts < 2 \<or> parts ! 1 = [] then False
      else let raw = buffer_to_utf8 (buffer_from_base64 (parts ! 1)) in
        if length raw \<noteq> length (validKey api_key) then False
        else (case timingSafeEqual (utf8_encode raw) (utf8_encode (validKey api_key)) of
            Inl e \<Rightarrow> False | Inr equal \<Rightarrow> equal))"

section \<open>The middleware\<close>

text \<open>\<open>Unauthorized\<close> carries the exception whose message, in lower case, is the body of the 401.\<close>

datatype proxy_answer =
    Pass
  | Unavailable
  | Unauthorized exn
  | RedirectToLogin

text \<open>A request: its path, its authorization header, and its dashboard cookie.\<close>

record proxy_request =
  rq_pathname :: jstr
  rq_authorization :: "jstr option"
  rq_cookie :: "jstr option"

record proxy_env =
  env_API_KEY :: "jstr option"
  env_DASHBOARD_JWT_SECRET :: "jstr option"

definition to_standard_alphabet :: "jstr \<Rightarrow> jstr" where
  "to_standard_alphabet = map (\<lambda>c. if c = 45 then 43 else if c = 95 then 47 else c)"

text \<open>\<^verbatim>\<open>a < b\<close> of a JavaScript value and an integer; \<^verbatim>\<open>NaN\<close> compares false.\<close>

definition js_number :: "js \<Rightarrow> jnum res" where
  "js_number v = (case v of
     JUndef \<Rightarrow> Inr NaN | JNull \<Rightarrow> Inr (Fin 0) | JBool b \<Rightarrow> Inr (Fin (if b then 1 else 0)) | JNum x \<Rightarrow> Inr x
   | JStr s \<Rightarrow> Inr (string_to_number s)
   | _ \<Rightarrow> bindE (js_to_string v) (\<lambda>s. Inr (string_to_number s)))"

definition less_than_int :: "js \<Rightarrow> int \<Rightarrow> bool res" where
  "less_than_int v n = bindE (js_number v) (\<lambda>x. Inr (case x of
     Fin r \<Rightarrow> r < of_int n | NInf \<Rightarrow> True | PInf \<Rightarrow> False | NaN \<Rightarrow> False))"

text \<open>
  The structural check of a token; \<open>now\<close> is the time in seconds. What the language throws itself is
  named by its class.
\<close>

definition check_token :: "int \<Rightarrow> jstr \<Rightarrow> unit res" where
  "check_token now token =
     (let parts = split_unit 46 token in
      if length parts \<noteq> 3 then Inl (Error ''Invalid format'')
      else (case atob (to_standard_alphabet (parts ! 1)) of
          None \<Rightarrow> Inl (Error ''InvalidCharacterError'')
        | Some decoded \<Rightarrow> (case json_parse decoded of
            None \<Rightarrow> Inl (Error ''SyntaxError'')
          | Some payload \<Rightarrow>
              if payload = JNull then Inl (Error ''TypeError'')
              else let exp = get_prop payload ''exp'' in
                if \<not> truthy exp then Inl (Error ''Expired'')
                else bindE (less_than_int exp now) (\<lambda>past. if past then Inl (Error ''Expired'') else Inr ()))))"

definition refuse_dashboard :: "jstr \<Rightarrow> exn \<Rightarrow> proxy_answer" where
  "refuse_dashboard pathname e = (if starts_with pathname (lit ''/dashboard/api/'') then Unauthorized e else RedirectToLogin)"

definition DASHBOARD_PUBLIC_PATHS :: "jstr list" where
  "DASHBOARD_PUBLIC_PATHS = [lit ''/dashboard/login'', lit ''/dashboard/api/login'']"

definition handleDashboardAuth :: "proxy_env \<Rightarrow> int \<Rightarrow> proxy_request \<Rightarrow> proxy_answer" where
  "handleDashboardAuth env now rq =
     (if (case env_DASHBOARD_JWT_SECRET env of None \<Rightarrow> 0 | Some s \<Rightarrow> length s) < 32 then Unavailable
      else if list_ex (starts_with (rq_pathname rq)) DASHBOARD_PUBLIC_PATHS then Pass
      else (case rq_cookie rq of
          None \<Rightarrow> refuse_dashboard (rq_pathname rq) (Error ''authentication required'')
        | Some token \<Rightarrow>
            if token = [] then refuse_dashboard (rq_pathname rq) (Error ''authentication required'')
            else (case check_token now token of
                Inl e \<Rightarrow> refuse_dashboard (rq_pathname rq) e
              | Inr _ \<Rightarrow> Pass)))"

definition handleApiAuth :: "proxy_env \<Rightarrow> proxy_request \<Rightarrow> proxy_answer" where
  "handleApiAuth env rq = (case rq_authorization rq of
     None \<Rightarrow> Unauthorized (Error ''authentication failed'')
   | Some header \<Rightarrow>
       if header \<noteq> [] \<and> authentication (env_API_KEY env) header then Pass
       else Unauthorized (Error ''authentication failed''))"

definition proxy :: "proxy_env \<Rightarrow> int \<Rightarrow> proxy_request \<Rightarrow> proxy_answer" where
  "proxy env now rq =
     (if rq_pathname rq = lit ''/healthcheck'' then Pass
      else if starts_with (rq_pathname rq) (lit ''/dashboard'') then handleDashboardAuth env now rq
      else handleApiAuth env rq)"

section \<open>What passes\<close>

text \<open>The header of a client that knows the key.\<close>

definition basic_header :: "jstr \<Rightarrow> jstr" where
  "basic_header key = lit ''Basic '' @ base64_encode False (utf8_encode (lit ''api:'' @ key))"

lemma split_basic_header:
  "split_unit 32 (basic_header key) = [lit ''Basic'', base64_encode False (utf8_encode (lit ''api:'' @ key))]"
  using split_unit_absent [OF base64_absent(1)] by (simp add: basic_header_def lit_def)

lemma authentication_iff:
  assumes "well_formed_utf16 (validKey api_key)"
  shows "authentication api_key token \<longleftrightarrow> (\<exists>scheme credentials rest. split_unit 32 token = scheme # credentials # rest
     \<and> buffer_to_utf8 (buffer_from_base64 credentials) = validKey api_key)"
proof -
  have empty: "buffer_to_utf8 (buffer_from_base64 []) = []"
    by (simp add: buffer_from_base64_def buffer_to_utf8_def List.map_filter_simps)
  have key: "validKey api_key \<noteq> []" by (simp add: validKey_def)
  have compare: "(case timingSafeEqual (utf8_encode raw) (utf8_encode (validKey api_key)) of Inl e \<Rightarrow> False | Inr equal \<Rightarrow> equal)
      \<longleftrightarrow> raw = validKey api_key" if "well_formed_utf16 raw" for raw
    using utf8_encode_inject [OF that assms] by (auto simp: timingSafeEqual_def)
  show ?thesis
  proof (cases "split_unit 32 token")
    case (Cons scheme ps)
    show ?thesis
    proof (cases ps)
      case Nil
      then show ?thesis using Cons by (simp add: authentication_def)
    next
      case (Cons credentials rest)
      let ?raw = "buffer_to_utf8 (buffer_from_base64 credentials)"
      have "authentication api_key token \<longleftrightarrow> credentials \<noteq> [] \<and> length ?raw = length (validKey api_key) \<and> ?raw = validKey api_key"
        unfolding authentication_def \<open>split_unit 32 token = scheme # ps\<close> Cons
        by (simp add: Let_def compare [OF buffer_to_utf8_well_formed])
      then show ?thesis using empty key Cons \<open>split_unit 32 token = scheme # ps\<close> by auto
    qed
  qed simp
qed

text \<open>A token's payload, and its time of expiry when it reads as a number.\<close>

definition token_payload :: "jstr \<Rightarrow> js \<Rightarrow> bool" where
  "token_payload token payload \<longleftrightarrow> (\<exists>h b s decoded. split_unit 46 token = [h, b, s] \<and> atob (to_standard_alphabet b) = Some decoded
     \<and> json_parse decoded = Some payload \<and> payload \<noteq> JNull)"

lemma length_3: "length xs = 3 \<longleftrightarrow> (\<exists>a b c. xs = [a, b, c])"
  by (auto simp: length_Suc_conv eval_nat_numeral)

lemma check_token_iff:
  "check_token now token = Inr () \<longleftrightarrow> (\<exists>payload. token_payload token payload \<and> truthy (get_prop payload ''exp'')
     \<and> less_than_int (get_prop payload ''exp'') now = Inr False)"
proof (cases "\<exists>h b s. split_unit 46 token = [h, b, s]")
  case True
  then obtain h b s where parts: "split_unit 46 token = [h, b, s]" by blast
  show ?thesis
    by (auto simp: check_token_def token_payload_def parts Let_def split: option.splits if_splits)
next
  case False
  then show ?thesis by (auto simp: check_token_def token_payload_def length_3 Let_def)
qed

text \<open>
  C14: exactly which requests pass the middleware. The health check always does. A path outside the
  dashboard needs an authorization header whose second word decodes to the API key. A dashboard path needs a
  signing secret of 32 units, and then is public or carries a token with an expiry that has not passed.
  Everything else is answered by 401, 503 or a redirect to the login. The key is a well-formed text.
\<close>

theorem middleware_passes_iff:
  assumes "well_formed_utf16 (validKey (env_API_KEY env))"
  shows "proxy env now rq = Pass \<longleftrightarrow>
     rq_pathname rq = lit ''/healthcheck''
     \<or> \<not> starts_with (rq_pathname rq) (lit ''/dashboard'')
       \<and> (\<exists>header scheme credentials rest. rq_authorization rq = Some header \<and> split_unit 32 header = scheme # credentials # rest
            \<and> buffer_to_utf8 (buffer_from_base64 credentials) = validKey (env_API_KEY env))
     \<or> starts_with (rq_pathname rq) (lit ''/dashboard'')
       \<and> (\<exists>secret. env_DASHBOARD_JWT_SECRET env = Some secret \<and> 32 \<le> length secret)
       \<and> (list_ex (starts_with (rq_pathname rq)) DASHBOARD_PUBLIC_PATHS
          \<or> (\<exists>token payload. rq_cookie rq = Some token \<and> token_payload token payload
              \<and> truthy (get_prop payload ''exp'') \<and> less_than_int (get_prop payload ''exp'') now = Inr False))"
proof -
  have api: "handleApiAuth env rq = Pass \<longleftrightarrow>
      (\<exists>header scheme credentials rest. rq_authorization rq = Some header \<and> split_unit 32 header = scheme # credentials # rest
            \<and> buffer_to_utf8 (buffer_from_base64 credentials) = validKey (env_API_KEY env))"
    by (auto simp: handleApiAuth_def authentication_iff [OF assms] split: option.splits if_splits)
  have refused: "refuse_dashboard p e \<noteq> Pass" for p e by (simp add: refuse_dashboard_def)
  have empty: "\<not> token_payload [] payload" for payload by (simp add: token_payload_def)
  have dashboard: "handleDashboardAuth env now rq = Pass \<longleftrightarrow>
      (\<exists>secret. env_DASHBOARD_JWT_SECRET env = Some secret \<and> 32 \<le> length secret)
       \<and> (list_ex (starts_with (rq_pathname rq)) DASHBOARD_PUBLIC_PATHS
          \<or> (\<exists>token. rq_cookie rq = Some token \<and> token \<noteq> [] \<and> check_token now token = Inr ()))"
    by (auto simp: handleDashboardAuth_def refused split: option.splits sum.splits if_splits)
  have "\<not> starts_with (lit ''/healthcheck'') (lit ''/dashboard'')" by (simp add: starts_with_def lit_def)
  then show ?thesis
    unfolding proxy_def using api dashboard empty by (auto simp: check_token_iff)
qed

theorem middleware_passes_iff_witness:
  "proxy \<lparr>env_API_KEY = Some (lit ''k''), env_DASHBOARD_JWT_SECRET = None\<rparr> 0
     \<lparr>rq_pathname = lit ''/v3/s/events'', rq_authorization = Some (basic_header (lit ''k'')), rq_cookie = None\<rparr> = Pass"
proof -
  have wf: "well_formed_utf16 (validKey (Some (lit ''k'')))"
    unfolding validKey_def by (rule ascii_well_formed) (simp add: lit_def)
  then have "buffer_to_utf8 (buffer_from_base64 (base64_encode False (utf8_encode (lit ''api:'' @ lit ''k'')))) = validKey (Some (lit ''k''))"
    by (simp add: buffer_base64_roundtrip buffer_utf8_roundtrip validKey_def)
  then have "\<exists>header scheme credentials rest. Some (basic_header (lit ''k'')) = Some header
      \<and> split_unit 32 header = scheme # credentials # rest \<and> buffer_to_utf8 (buffer_from_base64 credentials) = validKey (Some (lit ''k''))"
    using split_basic_header by blast
  moreover have "\<not> starts_with (lit ''/v3/s/events'') (lit ''/dashboard'')" by (simp add: starts_with_def lit_def)
  ultimately show ?thesis
    using wf by (subst middleware_passes_iff) simp_all
qed

end
