(* ===== verification/Spec2Isabelle.thy ===== *)
theory Spec2Isabelle
  imports HealthStatus SqsWorker WorkerSupervisor NewsletterDelivery EventDelivery EventsTraversal RetentionCli ApiAuth
begin

text \<open>
  A verification development for mailgun-ses-proxy, a service that accepts Mailgun-style requests from
  Ghost, sends them through Amazon SES, stores what SES reports back through SQS, and removes old
  newsletters once they are safely in an escrow file.

  \<^bold>\<open>The parts and how they interact.\<close> \<^verbatim>\<open>POST /v3/:siteId/messages\<close> stores a newsletter batch and queues
  its id (service/newsletter-service.ts). Three long-running workers (lib/core/sqs-worker.ts) take
  messages from SQS and hand them to a pool of handlers; a message is deleted only after its handler
  returned. The newsletter handler prepares one request per recipient (lib/core/aws-utils.ts) and sends
  them through a rate-limited queue (lib/task-queue/queue.ts), recording each in the database; the event
  handlers store SES notifications, or keep them as orphans until their newsletter is known
  (lib/core/event-processor.ts, service/database/db.ts). Ghost reads the stored events page by page
  (service/events-service/events-utils.ts); a middleware stands before every route (proxy.ts). A
  registry of workers feeds the health endpoint, a supervisor turns a dying worker into a process exit
  (lib/core/worker-supervisor.ts, server.ts). The retention command selects old batches, writes them to
  an escrow file, verifies that file, and deletes exactly what it holds (service/newsletter-retention*.ts).

  \<^bold>\<open>Foundations.\<close> Prelude: exceptions as values (\<open>bindE\<close>, \<open>mapE\<close>, \<open>foldE\<close>), the stable sort behind
  \<^verbatim>\<open>Array.prototype.sort\<close> with the comparator laws as a locale. Effects: state plus exceptions. JsValue,
  JsNumber, JsDate, JsonText, JsonKeys, JsSplit, Utf8, Base64: JavaScript values, double-precision
  parsing, UTC dates, \<^verbatim>\<open>JSON.stringify\<close> and \<^verbatim>\<open>JSON.parse\<close> with the round trip between them,
  duplicate-key scanning, splitting and POSIX paths, UTF-8, the base64 alphabets.
  Strings of the program are lists of 16-bit words (UTF-16 code units), bytes 8-bit words, numbers
  rationals with the infinities and NaN; counts the code checks with \<^verbatim>\<open>Number.isSafeInteger\<close> are \<open>int\<close>
  with that check written out.

  \<^bold>\<open>Workers.\<close> WorkerRegistry (lib/core/worker-registry.ts, error-class.ts): its map of entries, one
  operation per exported function. HealthStatus (lib/core/health-status.ts): snapshot and projections.
  SqsPool and SqsWorker (lib/core/sqs-worker.ts): the handler pool of one batch as a step relation over
  all interleavings, and \<^verbatim>\<open>startWorker\<close> from its bootstrap to the end of its promise, with pollers,
  back-off and circuit breaker event by event. WorkerSupervisor (worker-supervisor.ts, server.ts):
  supervisor callbacks and the process from \<^verbatim>\<open>app.prepare()\<close> to its end, by \<^verbatim>\<open>process.exit\<close> or because
  nothing keeps the event loop alive. The rule of that natural end rests on what Node documents: a
  listening server and a pending request or timer keep a process alive, a timer after \<^verbatim>\<open>unref()\<close> does
  not; an unsettled worker is taken to wait for one of these. The lemmas show that only successful work
  is acknowledged, that a halting worker drains, what its promise and what each exit code means, and
  when the probe is healthy (its clock readings within one request count as one).

  \<^bold>\<open>Sending.\<close> TaskQueue (lib/task-queue/queue.ts): the code between two awaits is one operation, so a run
  is a list of timer and settling events; every schedule keeps the limit, starts tasks in order and
  ends with complete statistics within two events per task. MailText (aws-utils.ts, common.ts):
  substitution, request preparation, indented JSON, form data. NewsletterSend (newsletter-service.ts,
  the message functions of database/db.ts, the messages route): each database or SES call is a step
  that fails, happens, or happens with its answer lost (the insert of the batch row happens or fails,
  its lost answer is the case of a row that is never queued). NewsletterDelivery composes any number of
  such attempts over one database and counts what SES accepted. The lemmas show what a posted form is
  stored as, when a newsletter can be prepared and what is then sent, and how often.

  \<^bold>\<open>Events.\<close> EventProcessor (aws-utils.ts, event-processor.ts, the notification functions of db.ts): the
  reading of a raw message, the handler with its two configurations as a step function whose contract
  with the tables is the locale \<open>event_contract\<close>, redelivery, and the reconciliation of orphans.
  EventDelivery: any interleaving of handlers, failing calls, reconciliations and retention deletions;
  what was acknowledged is kept. EventsParams, EventsQuery, EventsPaging, EventsTraversal
  (events-utils.ts, the events route): validation, cursor and link; the two-branch query against the
  plain one; the pages; the gate for one analytics request at a time; and a client that follows the
  links while the table changes. A URL object stands for its query pairs beside everything else.

  \<^bold>\<open>Access.\<close> ApiAuth (lib/authentication/index.ts, proxy.ts): the key check and the middleware function.

  \<^bold>\<open>Retention.\<close> RetentionPolicy (newsletter-retention.ts): policy, evidence and manifest. RetentionPlan
  (newsletter-retention-plan.ts): the selection plan and the process-local lock. CandidateLoader
  (newsletter-retention-candidate-loader.ts): queries of any answer, validated. EscrowFormat,
  EscrowAccumulator, EscrowStream, EscrowVerify (newsletter-retention-escrow.ts): line formats, the
  streaming verifier and its refinement of a grammar of whole files. EscrowLoader and EscrowWriter (the
  files of those names): loading batches for the file and writing it line by line. RetentionApply
  (newsletter-retention-apply.ts): artifacts, receipts and the checks before anything is deleted.
  RetentionApplier (newsletter-retention-applier.ts): the destructive run over a locale of table stores,
  interpreted on in-memory tables, which compare texts exactly where the production collation ignores
  case. DryRun (newsletter-retention-coordinator.ts): policy, evidence, lock, plan, manifest and escrow
  file put together. CliOptions, EscrowFile, EscrowHandover (newsletter-retention-cli.ts): the options of
  the command, the escrow file as the apply run reads it, in reads of any size and with its metadata
  checked around them, and the hand-over: what the writer wrote is what the source serves. RetentionCli
  (the same file) is the command from its arguments to its output: \<open>dry_run_command_keeps_database\<close> and
  \<open>command_removes_confirmed\<close>, by which only the first batches of the confirmed escrow file are removed.

  \<^bold>\<open>Bounds and fuel.\<close> \<open>json_parse\<close> runs on \<open>2 * length s + 2\<close> units of fuel; every call consumes a
  character or follows one that did, at most twice per character, and \<open>parses_plain\<close> proves that it is
  enough for every printed value. The duplicate-key scanner uses the same bound. Every other recursion
  is structural or has a measure.

  \<^bold>\<open>Parameters.\<close> SHA-256 is a function \<open>sha\<close>; what the theorems need of it is stated as an explicit
  collision alternative. Database clients, SES, SQS and the file system are arguments: records of
  functions, or one outcome per call; so are the answers of \<^verbatim>\<open>stat\<close> and \<^verbatim>\<open>read\<close>. The database's
  collation is a function into a linear order, the URL constructor, Unicode's case table, the texts of
  built-in functions and the engine's parser of dates in other formats than the ISO one are functions.
  The environment is a function from names to strings; clocks and random identifiers are arguments.

  \<^bold>\<open>Not modelled.\<close> The React pages and the read-only routes behind the dashboard, with its sessions
  (lib/dashboard/auth.ts), which rest on Web Crypto; the logger; the construction of the Prisma and AWS
  clients; Next.js itself with the matcher that selects the paths the middleware sees; of the retention
  command the system calls that publish its files, whose answers are arguments, and MariaDB's
  named locks (newsletter-retention-runtime.ts), for which the applier has a parameter; transactional
  mail (transaction-email-service.ts, v1/send, a zod schema), usage statistics and the constructors of
  answers; background-process.ts, three calls with constants; queue telemetry sampling and the
  AbortController plumbing of the workers; the scripts, which call the modelled functions.
\<close>

end
